(* ===== verification/Hyf_Prelude.thy ===== *)
theory Hyf_Prelude
  imports Main "HOL-Library.Word" "HOL-Library.List_Lexorder" "HOL-Library.Multiset"
begin

text \<open>
  Shared vocabulary of the development: machine integers at their Rust widths, the outcome of a
  Rust call (\<open>Ok\<close>, \<open>Err\<close>, or a panic), state passing with early return, slices and
  \<open>[Option<T>; N]\<close> arrays, big-endian integers, and the generic lemmas the components use.

  Conventions. A \<open>usize\<close> is a \<^typ>\<open>nat\<close>; the checked operations of the source are
  written out against the 64-bit maximum \<open>usize_max\<close>. A slice or a fixed array is a list; a
  fixed-length array carries its length in the well-formedness predicate of the type that owns it.
  Indexing or slicing out of range is the outcome \<open>Panic\<close>, never an unspecified value.
\<close>

named_theorems wf_defs "well-formedness predicates of the model's types"
named_theorems run_simps "equations that execute cursors and outcomes step by step"

section \<open>Integers\<close>

type_synonym u8 = "8 word"
type_synonym u16 = "16 word"
type_synonym u32 = "32 word"
type_synonym u64 = "64 word"
type_synonym usize = nat

definition usize_max :: usize where
  "usize_max = 2 ^ 64 - 1"

definition checked_add :: "usize \<Rightarrow> usize \<Rightarrow> usize option" where
  "checked_add a b = (if a + b \<le> usize_max then Some (a + b) else None)"

definition checked_mul :: "usize \<Rightarrow> usize \<Rightarrow> usize option" where
  "checked_mul a b = (if a * b \<le> usize_max then Some (a * b) else None)"

definition saturating_add :: "u64 \<Rightarrow> u64 \<Rightarrow> u64" where
  "saturating_add a b = (if unat a + unat b < 2 ^ 64 then a + b else - 1)"

lemma checked_add_eq_Some [simp]:
  "checked_add a b = Some c \<longleftrightarrow> c = a + b \<and> a + b \<le> usize_max"
  by (auto simp: checked_add_def)

lemma checked_mul_eq_Some [simp]:
  "checked_mul a b = Some c \<longleftrightarrow> c = a * b \<and> a * b \<le> usize_max"
  by (auto simp: checked_mul_def)

lemma unat_saturating_add:
  "unat (saturating_add a b) = min (2 ^ 64 - 1) (unat a + unat b)"
proof (cases "unat a + unat b < 2 ^ 64")
  case True
  then have "unat (a + b) = unat a + unat b"
    by (simp add: unat_word_ariths)
  with True show ?thesis by (simp add: saturating_add_def)
next
  case False
  then show ?thesis by (simp add: saturating_add_def unsigned_minus_1_eq_mask mask_eq_exp_minus_1)
qed

lemma saturating_add_ge: "a \<le> saturating_add a b"
  using unsigned_less [where ?'a = nat, of a] by (simp add: word_le_nat_alt unat_saturating_add)

lemma u64_not_max: "(w :: u64) \<noteq> - 1 \<Longrightarrow> unat w < 2 ^ 64 - 1"
proof (rule ccontr)
  assume w: "w \<noteq> - 1" and "\<not> unat w < 2 ^ 64 - 1"
  with unsigned_less [where ?'a = nat, of w] have "unat w = 2 ^ 64 - 1" by simp
  also have "\<dots> = unat (- 1 :: u64)" by (simp add: unsigned_minus_1_eq_mask mask_eq_exp_minus_1)
  finally show False using w by (simp add: word_unat_eq_iff)
qed

lemma u8_cases: "(\<And>n. n < 256 \<Longrightarrow> P (word_of_nat n :: u8)) \<Longrightarrow> P b"
proof -
  assume *: "\<And>n. n < 256 \<Longrightarrow> P (word_of_nat n :: u8)"
  have "unat b < 256" using unsigned_less [where ?'a = nat, of b] by simp
  from * [OF this] show "P b" by simp
qed

section \<open>Outcomes and state passing\<close>

datatype ('a, 'e) result = Ok 'a | Err 'e | Panic

fun rbind :: "('a, 'e) result \<Rightarrow> ('a \<Rightarrow> ('b, 'e) result) \<Rightarrow> ('b, 'e) result" where
  "rbind (Ok a) f = f a"
| "rbind (Err e) f = Err e"
| "rbind Panic f = Panic"

fun map_err :: "('e \<Rightarrow> 'f) \<Rightarrow> ('a, 'e) result \<Rightarrow> ('a, 'f) result" where
  "map_err g (Ok a) = Ok a"
| "map_err g (Err e) = Err (g e)"
| "map_err g Panic = Panic"

fun ok_or :: "'e \<Rightarrow> 'a option \<Rightarrow> ('a, 'e) result" where
  "ok_or e (Some a) = Ok a"
| "ok_or e None = Err e"

lemma rbind_eq_Ok [simp]: "rbind m f = Ok b \<longleftrightarrow> (\<exists>a. m = Ok a \<and> f a = Ok b)"
  by (cases m) auto

lemma rbind_eq_Panic: "rbind m f = Panic \<longleftrightarrow> m = Panic \<or> (\<exists>a. m = Ok a \<and> f a = Panic)"
  by (cases m) auto

lemma map_err_eq_Ok [simp]: "map_err g m = Ok a \<longleftrightarrow> m = Ok a"
  by (cases m) auto

lemma map_err_eq_Panic [simp]: "map_err g m = Panic \<longleftrightarrow> m = Panic"
  by (cases m) auto

lemma ok_or_eq_Ok [simp]: "ok_or e m = Ok a \<longleftrightarrow> m = Some a"
  by (cases m) auto

text \<open>
  A \<open>&mut self\<close> method is a function from the state to an outcome and the state it leaves;
  \<open>sbind\<close> is the source's \<open>?\<close>: an error or a panic stops the method and keeps the state
  reached so far.
\<close>

type_synonym ('s, 'a, 'e) stm = "'s \<Rightarrow> ('a, 'e) result \<times> 's"

definition sret :: "'a \<Rightarrow> ('s, 'a, 'e) stm" where
  "sret a s = (Ok a, s)"

definition sthrow :: "'e \<Rightarrow> ('s, 'a, 'e) stm" where
  "sthrow e s = (Err e, s)"

definition slift :: "('a, 'e) result \<Rightarrow> ('s, 'a, 'e) stm" where
  "slift r s = (r, s)"

definition sbind :: "('s, 'a, 'e) stm \<Rightarrow> ('a \<Rightarrow> ('s, 'b, 'e) stm) \<Rightarrow> ('s, 'b, 'e) stm" where
  "sbind m f s =
     (case m s of
        (Ok a, s') \<Rightarrow> f a s'
      | (Err e, s') \<Rightarrow> (Err e, s')
      | (Panic, s') \<Rightarrow> (Panic, s'))"

text \<open>\<open>.map_err(g)\<close> on the outcome of a method, or the conversion by \<open>?\<close>.\<close>

definition smap_err :: "('e \<Rightarrow> 'f) \<Rightarrow> ('s, 'a, 'e) stm \<Rightarrow> ('s, 'a, 'f) stm" where
  "smap_err g m s = (case m s of (r, s') \<Rightarrow> (map_err g r, s'))"

lemma sbind_Ok [run_simps]: "m s = (Ok a, s') \<Longrightarrow> sbind m f s = f a s'"
  by (simp add: sbind_def)

lemma sbind_Err [run_simps]: "m s = (Err e, s') \<Longrightarrow> sbind m f s = (Err e, s')"
  by (simp add: sbind_def)

lemma sbind_Panic [run_simps]: "m s = (Panic, s') \<Longrightarrow> sbind m f s = (Panic, s')"
  by (simp add: sbind_def)

lemma sbind_slift [run_simps]:
  "sbind (slift (Ok a)) f s = f a s" "sbind (slift (Err e)) f s = (Err e, s)"
  "sbind (slift Panic) f s = (Panic, s)"
  by (simp_all add: sbind_def slift_def)

lemma sbind_eq_Ok:
  "sbind m f s = (Ok b, t) \<longleftrightarrow> (\<exists>a s'. m s = (Ok a, s') \<and> f a s' = (Ok b, t))"
  by (auto simp: sbind_def split: prod.splits result.splits)

lemma sbind_eq_Panic:
  "sbind m f s = (Panic, t) \<longleftrightarrow>
     m s = (Panic, t) \<or> (\<exists>a s'. m s = (Ok a, s') \<and> f a s' = (Panic, t))"
  by (auto simp: sbind_def split: prod.splits result.splits)

lemma sret_eq [simp]: "sret a s = (r, t) \<longleftrightarrow> r = Ok a \<and> t = s"
  by (auto simp: sret_def)

lemma sthrow_eq [simp]: "sthrow e s = (r, t) \<longleftrightarrow> r = Err e \<and> t = s"
  by (auto simp: sthrow_def)

lemma slift_eq [simp]: "slift x s = (r, t) \<longleftrightarrow> r = x \<and> t = s"
  by (auto simp: slift_def)

lemma fst_eq_ex: "fst p = a \<longleftrightarrow> (\<exists>b. p = (a, b))"
  by (cases p) auto

text \<open>
  Two judgements on state-passing code: \<open>keeps f m\<close>, the projection \<open>f\<close> of the state is
  the same after \<open>m\<close>; and \<open>preserves P m\<close>, from a state in \<open>P\<close> the method does not
  panic and leaves a state in \<open>P\<close>, whether it succeeds or fails.
\<close>

definition keeps :: "('s \<Rightarrow> 'b) \<Rightarrow> ('s, 'a, 'e) stm \<Rightarrow> bool" where
  "keeps f m \<longleftrightarrow> (\<forall>s. f (snd (m s)) = f s)"

definition preserves :: "('s \<Rightarrow> bool) \<Rightarrow> ('s, 'a, 'e) stm \<Rightarrow> bool" where
  "preserves P m \<longleftrightarrow> (\<forall>s. P s \<longrightarrow> fst (m s) \<noteq> Panic \<and> P (snd (m s)))"

named_theorems judgements "syntax-directed rules for keeps and preserves"

lemma keepsD: "keeps f m \<Longrightarrow> m s = (r, t) \<Longrightarrow> f t = f s"
  by (metis keeps_def snd_conv)

lemma preservesD: "preserves P m \<Longrightarrow> P s \<Longrightarrow> m s = (r, t) \<Longrightarrow> r \<noteq> Panic \<and> P t"
  by (metis fst_conv preserves_def snd_conv)

lemma preserves_run: "preserves P m \<Longrightarrow> P s \<Longrightarrow> fst (m s) \<noteq> Panic \<and> P (snd (m s))"
  by (simp add: preserves_def)

lemma keeps_basic [judgements]: "keeps f (sret a)" "keeps f (sthrow e)" "keeps f (slift r)"
  by (simp_all add: keeps_def sret_def sthrow_def slift_def)

lemma keeps_sbind [judgements]: "keeps f m \<Longrightarrow> (\<And>a. keeps f (g a)) \<Longrightarrow> keeps f (sbind m g)"
  unfolding keeps_def by (simp add: sbind_def split: prod.splits result.splits) (metis snd_conv)

lemma preserves_basic [judgements]:
  "preserves P (sret a)" "preserves P (sthrow e)" "r \<noteq> Panic \<Longrightarrow> preserves P (slift r)"
  by (simp_all add: preserves_def sret_def sthrow_def slift_def)

lemma preserves_sbind [judgements]:
  "preserves P m \<Longrightarrow> (\<And>a. preserves P (g a)) \<Longrightarrow> preserves P (sbind m g)"
  unfolding preserves_def by (fastforce simp: sbind_def split: prod.splits result.splits)

section \<open>Slices\<close>

definition slice_to :: "'a list \<Rightarrow> usize \<Rightarrow> ('a list, 'e) result" where
  "slice_to xs n = (if n \<le> length xs then Ok (take n xs) else Panic)"

definition slice_from :: "'a list \<Rightarrow> usize \<Rightarrow> ('a list, 'e) result" where
  "slice_from xs n = (if n \<le> length xs then Ok (drop n xs) else Panic)"

definition slice :: "'a list \<Rightarrow> usize \<Rightarrow> usize \<Rightarrow> ('a list, 'e) result" where
  "slice xs i j = (if i \<le> j \<and> j \<le> length xs then Ok (take (j - i) (drop i xs)) else Panic)"

definition get_at :: "'a list \<Rightarrow> usize \<Rightarrow> ('a, 'e) result" where
  "get_at xs i = (if i < length xs then Ok (xs ! i) else Panic)"

definition set_at :: "'a list \<Rightarrow> usize \<Rightarrow> 'a \<Rightarrow> ('a list, 'e) result" where
  "set_at xs i x = (if i < length xs then Ok (xs[i := x]) else Panic)"

text \<open>\<open>buf[i..i + src.len()].copy_from_slice(src)\<close>.\<close>

definition copy_at :: "'a list \<Rightarrow> usize \<Rightarrow> 'a list \<Rightarrow> ('a list, 'e) result" where
  "copy_at buf i src =
     (if i + length src \<le> length buf
      then Ok (take i buf @ src @ drop (i + length src) buf) else Panic)"

lemma copy_at_0: "length src \<le> length buf \<Longrightarrow> copy_at buf 0 src = Ok (src @ drop (length src) buf)"
  by (simp add: copy_at_def)

section \<open>Arrays of options\<close>

text \<open>
  \<open>xs.iter().position(p)\<close> is the first index whose element satisfies \<open>p\<close>;
  \<open>xs.iter().flatten()\<close> visits the occupied slots in index order.
\<close>

primrec position :: "('a \<Rightarrow> bool) \<Rightarrow> 'a list \<Rightarrow> nat option" where
  "position p [] = None"
| "position p (x # xs) = (if p x then Some 0 else map_option Suc (position p xs))"

primrec flatten :: "'a option list \<Rightarrow> 'a list" where
  "flatten [] = []"
| "flatten (x # xs) = (case x of None \<Rightarrow> flatten xs | Some a \<Rightarrow> a # flatten xs)"

abbreviation is_none :: "'a option \<Rightarrow> bool" where
  "is_none x \<equiv> x = None"

fun is_some_and :: "('a \<Rightarrow> bool) \<Rightarrow> 'a option \<Rightarrow> bool" where
  "is_some_and p None = False"
| "is_some_and p (Some a) = p a"

lemma position_eq_None [simp]: "position p xs = None \<longleftrightarrow> (\<forall>x \<in> set xs. \<not> p x)"
  by (induction xs) auto

lemma position_split:
  assumes "position p xs = Some i"
  obtains as x bs where "xs = as @ x # bs" "length as = i" "p x" "\<forall>a \<in> set as. \<not> p a"
proof -
  from assms have "\<exists>as x bs. xs = as @ x # bs \<and> length as = i \<and> p x \<and> (\<forall>a \<in> set as. \<not> p a)"
  proof (induction xs arbitrary: i)
    case Nil
    then show ?case by simp
  next
    case (Cons y ys)
    show ?case
    proof (cases "p y")
      case True
      with Cons.prems show ?thesis by (intro exI [of _ "[]"]) auto
    next
      case False
      with Cons.prems obtain j where "position p ys = Some j" and j: "i = Suc j"
        by (auto split: if_splits)
      with Cons.IH obtain as x bs where
        "ys = as @ x # bs" "length as = j" "p x" "\<forall>a \<in> set as. \<not> p a"
        by blast
      with False j show ?thesis by (intro exI [of _ "y # as"]) auto
    qed
  qed
  with that show thesis by blast
qed

lemma position_length: "position p xs = Some i \<Longrightarrow> i < length xs"
  by (auto elim!: position_split)

lemma position_nth: "position p xs = Some i \<Longrightarrow> p (xs ! i)"
  by (auto elim!: position_split)

lemma flatten_append [simp]: "flatten (xs @ ys) = flatten xs @ flatten ys"
  by (induction xs) (auto split: option.splits)

lemma flatten_replicate_None [simp]: "flatten (replicate n None) = []"
  by (induction n) auto

lemma flatten_map_Some [simp]: "flatten (map Some xs) = xs"
  by (induction xs) auto

lemma set_flatten [simp]: "set (flatten xs) = {a. Some a \<in> set xs}"
  by (induction xs) (auto split: option.splits)

lemma length_flatten_le: "length (flatten xs) \<le> length xs"
  by (induction xs) (auto split: option.splits)

lemma length_flatten_filter: "length (filter (\<lambda>x. x \<noteq> None) xs) = length (flatten xs)"
  by (induction xs) (auto split: option.splits)

lemma flatten_eq_Nil [simp]: "flatten xs = [] \<longleftrightarrow> (\<forall>x \<in> set xs. x = None)"
  by (induction xs) (auto split: option.splits)

lemma position_None_full: "position is_none xs = None \<longleftrightarrow> length (flatten xs) = length xs"
proof (induction xs)
  case (Cons x xs)
  then show ?case
    using length_flatten_le [of xs] by (cases x) auto
qed simp

lemma position_replicate_None: "0 < n \<Longrightarrow> position is_none (replicate n None) = Some 0"
  by (cases n) simp_all

lemma mset_flatten_put:
  assumes "position is_none xs = Some i"
  shows "mset (flatten (xs[i := Some a])) = add_mset a (mset (flatten xs))"
  using assms by (auto elim!: position_split)

lemma set_flatten_put:
  assumes "position is_none xs = Some i"
  shows "set (flatten (xs[i := Some a])) = insert a (set (flatten xs))"
  using mset_flatten_put [OF assms, of a] by (metis set_mset_mset set_mset_add_mset_insert)

lemma mset_flatten_clear:
  assumes "i < length xs" and "xs ! i = Some a"
  shows "mset (flatten xs) = add_mset a (mset (flatten (xs[i := None])))"
proof -
  from assms have "mset (flatten (take i xs @ xs ! i # drop (Suc i) xs)) =
      add_mset a (mset (flatten (xs[i := None])))"
    by (simp add: upd_conv_take_nth_drop)
  with assms(1) show ?thesis by (simp flip: id_take_nth_drop)
qed

lemma length_flatten_clear:
  assumes "i < length xs" and "xs ! i = Some a"
  shows "length (flatten xs) = Suc (length (flatten (xs[i := None])))"
  using arg_cong [OF mset_flatten_clear [OF assms], of size] by simp

section \<open>Big-endian integers\<close>

primrec be_bytes :: "nat \<Rightarrow> nat \<Rightarrow> u8 list" where
  "be_bytes 0 v = []"
| "be_bytes (Suc n) v = be_bytes n (v div 256) @ [word_of_nat v]"

definition be_value :: "u8 list \<Rightarrow> nat" where
  "be_value bs = foldl (\<lambda>acc b. acc * 256 + unat b) 0 bs"

lemma length_be_bytes [simp]: "length (be_bytes n v) = n"
  by (induction n arbitrary: v) auto

lemma be_value_snoc [simp]: "be_value (bs @ [b]) = be_value bs * 256 + unat b"
  by (simp add: be_value_def)

lemma be_value_Nil [simp]: "be_value [] = 0"
  by (simp add: be_value_def)

lemma be_value_be_bytes: "v < 256 ^ n \<Longrightarrow> be_value (be_bytes n v) = v"
proof (induction n arbitrary: v)
  case (Suc n)
  then have "v div 256 < 256 ^ n" by (simp add: less_mult_imp_div_less mult.commute)
  with Suc.IH show ?case
    by (simp add: unat_of_nat div_mult_mod_eq)
qed simp

lemma be_value_less: "be_value bs < 256 ^ length bs"
proof (induction bs rule: rev_induct)
  case (snoc b bs)
  have "unat b < 256" using unsigned_less [where ?'a = nat, of b] by simp
  with snoc show ?case by simp
qed simp

lemma be_bytes_be_value: "be_bytes (length bs) (be_value bs) = bs"
proof (induction bs rule: rev_induct)
  case (snoc b bs)
  have "unat b < 256" using unsigned_less [where ?'a = nat, of b] by simp
  then have "(be_value bs * 256 + unat b) div 256 = be_value bs" by simp
  moreover have "word_of_nat (be_value bs * 256 + unat b) = b"
  proof -
    have "word_of_nat (be_value bs * 256 + unat b) = word_of_nat (be_value bs) * (256 :: u8) + b"
      by simp
    moreover have "(256 :: u8) = 0" by simp
    ultimately show ?thesis by (metis add_0 mult_zero_right)
  qed
  ultimately show ?case using snoc by simp
qed simp

definition u16_to_be_bytes :: "u16 \<Rightarrow> u8 list" where
  "u16_to_be_bytes v = be_bytes 2 (unat v)"

definition u16_from_be_bytes :: "u8 list \<Rightarrow> u16" where
  "u16_from_be_bytes bs = word_of_nat (be_value bs)"

definition u64_to_be_bytes :: "u64 \<Rightarrow> u8 list" where
  "u64_to_be_bytes v = be_bytes 8 (unat v)"

definition u64_from_be_bytes :: "u8 list \<Rightarrow> u64" where
  "u64_from_be_bytes bs = word_of_nat (be_value bs)"

lemma length_u16_to_be_bytes [simp]: "length (u16_to_be_bytes v) = 2"
  by (simp add: u16_to_be_bytes_def)

lemma length_u64_to_be_bytes [simp]: "length (u64_to_be_bytes v) = 8"
  by (simp add: u64_to_be_bytes_def)

lemma u16_from_to_be [simp]: "u16_from_be_bytes (u16_to_be_bytes v) = v"
  using unsigned_less [where ?'a = nat, of v]
  by (simp add: u16_from_be_bytes_def u16_to_be_bytes_def be_value_be_bytes)

lemma u64_from_to_be [simp]: "u64_from_be_bytes (u64_to_be_bytes v) = v"
  using unsigned_less [where ?'a = nat, of v]
  by (simp add: u64_from_be_bytes_def u64_to_be_bytes_def be_value_be_bytes)

lemma u16_to_from_be: "length bs = 2 \<Longrightarrow> u16_to_be_bytes (u16_from_be_bytes bs) = bs"
  using be_value_less [of bs] be_bytes_be_value [of bs]
  by (simp add: u16_from_be_bytes_def u16_to_be_bytes_def unat_of_nat)

lemma u64_to_from_be: "length bs = 8 \<Longrightarrow> u64_to_be_bytes (u64_from_be_bytes bs) = bs"
  using be_value_less [of bs] be_bytes_be_value [of bs]
  by (simp add: u64_from_be_bytes_def u64_to_be_bytes_def unat_of_nat)

definition u32_to_be_bytes :: "u32 \<Rightarrow> u8 list" where
  "u32_to_be_bytes v = be_bytes 4 (unat v)"

definition u32_from_be_bytes :: "u8 list \<Rightarrow> u32" where
  "u32_from_be_bytes bs = word_of_nat (be_value bs)"

lemma length_u32_to_be_bytes [simp]: "length (u32_to_be_bytes v) = 4"
  by (simp add: u32_to_be_bytes_def)

lemma u32_from_to_be [simp]: "u32_from_be_bytes (u32_to_be_bytes v) = v"
  using unsigned_less [where ?'a = nat, of v]
  by (simp add: u32_from_be_bytes_def u32_to_be_bytes_def be_value_be_bytes)

lemma u32_to_from_be: "length bs = 4 \<Longrightarrow> u32_to_be_bytes (u32_from_be_bytes bs) = bs"
  using be_value_less [of bs] be_bytes_be_value [of bs]
  by (simp add: u32_from_be_bytes_def u32_to_be_bytes_def unat_of_nat)

section \<open>UTF-8\<close>

text \<open>\<open>core::str::from_utf8(bytes).is_ok()\<close>: the well-formed byte sequences of Unicode.\<close>

definition utf8_tail :: "u8 \<Rightarrow> bool" where
  "utf8_tail b \<longleftrightarrow> 0x80 \<le> b \<and> b \<le> 0xBF"

fun utf8_valid :: "u8 list \<Rightarrow> bool" where
  "utf8_valid [] = True"
| "utf8_valid (b # bs) =
     (if b < 0x80 then utf8_valid bs
      else if 0xC2 \<le> b \<and> b \<le> 0xDF then
        (case bs of c # rest \<Rightarrow> utf8_tail c \<and> utf8_valid rest | _ \<Rightarrow> False)
      else if 0xE0 \<le> b \<and> b \<le> 0xEF then
        (case bs of c # d # rest \<Rightarrow>
           (if b = 0xE0 then 0xA0 \<le> c \<and> c \<le> 0xBF
            else if b = 0xED then 0x80 \<le> c \<and> c \<le> 0x9F
            else utf8_tail c) \<and> utf8_tail d \<and> utf8_valid rest
         | _ \<Rightarrow> False)
      else if 0xF0 \<le> b \<and> b \<le> 0xF4 then
        (case bs of c # d # e # rest \<Rightarrow>
           (if b = 0xF0 then 0x90 \<le> c \<and> c \<le> 0xBF
            else if b = 0xF4 then 0x80 \<le> c \<and> c \<le> 0x8F
            else utf8_tail c) \<and> utf8_tail d \<and> utf8_tail e \<and> utf8_valid rest
         | _ \<Rightarrow> False)
      else False)"

lemma utf8_valid_ascii: "\<forall>b \<in> set bs. b < 0x80 \<Longrightarrow> utf8_valid bs"
  by (induction bs) auto

end
