(* ===== verification/Hyf_Core.thy ===== *)
theory Hyf_Core
  imports Hyf_Prelude
begin

text \<open>
  The crate \<open>hyf_core\<close>: identifiers, node roles, millisecond timestamps and the
  foreign-endpoint identifiers (\<open>src/crates/hyf_core/src/{types,role,time}.rs\<close>). The tuple
  structs are one-constructor datatypes over byte lists; the array lengths are the predicates
  \<open>wf_*\<close>. The lemmas show that \<open>ForeignEndpointId::new\<close> never panics, accepts exactly
  1 to 32 bytes and gives them back, and that the network tags round-trip.
\<close>

section \<open>Identifiers (types.rs, role.rs, time.rs)\<close>

datatype node_role = PersonalNode | AnchorNode | GatewayNode

datatype timestamp_ms = TimestampMs (ms: u64)

instantiation timestamp_ms :: linorder
begin

definition less_eq_timestamp_ms :: "timestamp_ms \<Rightarrow> timestamp_ms \<Rightarrow> bool" where
  "less_eq_timestamp_ms a b \<longleftrightarrow> ms a \<le> ms b"

definition less_timestamp_ms :: "timestamp_ms \<Rightarrow> timestamp_ms \<Rightarrow> bool" where
  "less_timestamp_ms a b \<longleftrightarrow> ms a < ms b"

instance
  by standard (auto simp: less_eq_timestamp_ms_def less_timestamp_ms_def timestamp_ms.expand)

end

datatype node_id = NodeId (node_id_bytes: "u8 list")

datatype message_id = MessageId (message_id_bytes: "u8 list")

datatype community_id = CommunityId (community_id_bytes: "u8 list")

definition wf_node_id :: "node_id \<Rightarrow> bool" where
  [wf_defs]: "wf_node_id n \<longleftrightarrow> length (node_id_bytes n) = 32"

definition wf_message_id :: "message_id \<Rightarrow> bool" where
  [wf_defs]: "wf_message_id m \<longleftrightarrow> length (message_id_bytes m) = 32"

definition wf_community_id :: "community_id \<Rightarrow> bool" where
  [wf_defs]: "wf_community_id c \<longleftrightarrow> length (community_id_bytes c) = 16"

section \<open>Foreign networks and endpoints (types.rs)\<close>

definition FOREIGN_ENDPOINT_MAX_LEN :: usize where
  "FOREIGN_ENDPOINT_MAX_LEN = 32"

datatype foreign_network_kind = Fips | Rns | Nostr | Lxmf | BitChat

datatype foreign_endpoint_error =
    Empty
  | TooLong usize usize
  | InvalidNetworkTag u8

fun network_wire_tag :: "foreign_network_kind \<Rightarrow> u8" where
  "network_wire_tag Fips = 0"
| "network_wire_tag Rns = 1"
| "network_wire_tag Nostr = 2"
| "network_wire_tag Lxmf = 3"
| "network_wire_tag BitChat = 4"

definition network_from_wire_tag :: "u8 \<Rightarrow> (foreign_network_kind, foreign_endpoint_error) result" where
  "network_from_wire_tag tag =
     (if tag = 0 then Ok Fips
      else if tag = 1 then Ok Rns
      else if tag = 2 then Ok Nostr
      else if tag = 3 then Ok Lxmf
      else if tag = 4 then Ok BitChat
      else Err (InvalidNetworkTag tag))"

record foreign_endpoint_id =
  fe_network :: foreign_network_kind
  fe_bytes :: "u8 list"
  fe_len :: u8

definition endpoint_new ::
  "foreign_network_kind \<Rightarrow> u8 list \<Rightarrow> (foreign_endpoint_id, foreign_endpoint_error) result" where
  "endpoint_new network bytes =
     (let len = length bytes in
      if len = 0 then Err Empty
      else if len > FOREIGN_ENDPOINT_MAX_LEN then Err (TooLong len FOREIGN_ENDPOINT_MAX_LEN)
      else rbind (copy_at (replicate FOREIGN_ENDPOINT_MAX_LEN 0) 0 bytes)
        (\<lambda>fixed. Ok \<lparr>fe_network = network, fe_bytes = fixed, fe_len = word_of_nat len\<rparr>))"

definition endpoint_from_fixed_16 ::
  "foreign_network_kind \<Rightarrow> u8 list \<Rightarrow> (foreign_endpoint_id, foreign_endpoint_error) result" where
  "endpoint_from_fixed_16 network bytes =
     rbind (copy_at (replicate FOREIGN_ENDPOINT_MAX_LEN 0) 0 bytes)
       (\<lambda>fixed. Ok \<lparr>fe_network = network, fe_bytes = fixed, fe_len = 16\<rparr>)"

definition endpoint_from_fixed_32 :: "foreign_network_kind \<Rightarrow> u8 list \<Rightarrow> foreign_endpoint_id" where
  "endpoint_from_fixed_32 network bytes =
     \<lparr>fe_network = network, fe_bytes = bytes, fe_len = 32\<rparr>"

definition endpoint_len :: "foreign_endpoint_id \<Rightarrow> usize" where
  "endpoint_len e = unat (fe_len e)"

definition endpoint_is_empty :: "foreign_endpoint_id \<Rightarrow> bool" where
  "endpoint_is_empty e \<longleftrightarrow> fe_len e = 0"

definition endpoint_as_bytes :: "foreign_endpoint_id \<Rightarrow> (u8 list, 'e) result" where
  "endpoint_as_bytes e = slice_to (fe_bytes e) (endpoint_len e)"

text \<open>
  What every constructor establishes: a 32-byte array, 1 to 32 significant bytes, zero padding
  behind them. The fields are private, so every endpoint of the program satisfies it.
\<close>

definition wf_endpoint :: "foreign_endpoint_id \<Rightarrow> bool" where
  "wf_endpoint e \<longleftrightarrow>
     length (fe_bytes e) = 32 \<and> 0 < endpoint_len e \<and> endpoint_len e \<le> 32 \<and>
     drop (endpoint_len e) (fe_bytes e) = replicate (32 - endpoint_len e) 0"

abbreviation endpoint_significant :: "foreign_endpoint_id \<Rightarrow> u8 list" where
  "endpoint_significant e \<equiv> take (endpoint_len e) (fe_bytes e)"

section \<open>Lemmas\<close>

lemma network_tag_roundtrip [simp]: "network_from_wire_tag (network_wire_tag k) = Ok k"
  by (cases k) (simp_all add: network_from_wire_tag_def)

lemma network_from_wire_tag_Ok:
  "network_from_wire_tag t = Ok k \<Longrightarrow> network_wire_tag k = t"
  by (auto simp: network_from_wire_tag_def split: if_splits)

lemma network_from_wire_tag_no_panic [simp]: "network_from_wire_tag t \<noteq> Panic"
  by (simp add: network_from_wire_tag_def)

lemma endpoint_as_bytes_wf [simp]:
  "wf_endpoint e \<Longrightarrow> endpoint_as_bytes e = Ok (endpoint_significant e)"
  by (simp add: endpoint_as_bytes_def slice_to_def wf_endpoint_def)

lemma length_endpoint_significant [simp]:
  "wf_endpoint e \<Longrightarrow> length (endpoint_significant e) = endpoint_len e"
  by (simp add: wf_endpoint_def)

lemma endpoint_new_cases:
  "endpoint_new k bs =
     (if bs = [] then Err Empty
      else if 32 < length bs then Err (TooLong (length bs) 32)
      else Ok \<lparr>fe_network = k, fe_bytes = bs @ replicate (32 - length bs) 0,
               fe_len = word_of_nat (length bs)\<rparr>)"
  by (auto simp: endpoint_new_def FOREIGN_ENDPOINT_MAX_LEN_def Let_def copy_at_def)

lemma endpoint_new_Ok:
  assumes "endpoint_new k bs = Ok e"
  shows "wf_endpoint e" and "fe_network e = k" and "endpoint_len e = length bs"
    and "endpoint_significant e = bs" and "0 < length bs" and "length bs \<le> 32"
proof -
  from assms have len: "0 < length bs" "length bs \<le> 32"
    and e: "e = \<lparr>fe_network = k, fe_bytes = bs @ replicate (32 - length bs) 0,
               fe_len = word_of_nat (length bs)\<rparr>"
    by (auto simp: endpoint_new_cases split: if_splits)
  from len e have el: "endpoint_len e = length bs"
    by (simp add: endpoint_len_def unat_of_nat)
  with len e show "wf_endpoint e" "fe_network e = k" "endpoint_len e = length bs"
    "endpoint_significant e = bs"
    by (simp_all add: wf_endpoint_def)
  from len show "0 < length bs" "length bs \<le> 32" .
qed

lemma endpoint_new_significant:
  assumes "wf_endpoint e"
  shows "endpoint_new (fe_network e) (endpoint_significant e) = Ok e"
proof -
  let ?n = "endpoint_len e"
  from assms have n: "0 < ?n" "?n \<le> 32" "length (fe_bytes e) = 32"
    and pad: "drop ?n (fe_bytes e) = replicate (32 - ?n) 0"
    by (simp_all add: wf_endpoint_def)
  have "take ?n (fe_bytes e) @ replicate (32 - ?n) 0 = fe_bytes e"
    by (simp flip: pad)
  with n show ?thesis
    by (auto simp: endpoint_new_cases endpoint_len_def min_def)
qed

lemma endpoint_from_fixed_16_wf:
  "length bs = 16 \<Longrightarrow> \<exists>e. endpoint_from_fixed_16 k bs = Ok e \<and> wf_endpoint e \<and>
     fe_network e = k \<and> endpoint_significant e = bs"
  by (auto simp: endpoint_from_fixed_16_def copy_at_def FOREIGN_ENDPOINT_MAX_LEN_def
      wf_endpoint_def endpoint_len_def)

lemma endpoint_from_fixed_32_wf:
  "length bs = 32 \<Longrightarrow> wf_endpoint (endpoint_from_fixed_32 k bs) \<and>
     endpoint_significant (endpoint_from_fixed_32 k bs) = bs"
  by (auto simp: endpoint_from_fixed_32_def wf_endpoint_def endpoint_len_def)

end
