(* ===== verification/Hyf_Cursor.thy ===== *)
theory Hyf_Cursor
  imports Hyf_Prelude
begin

text \<open>
  The byte cursors of the codec crates. \<open>hyf_wire\<close>, \<open>hyf_bridge_core\<close>,
  \<open>hyf_bitchat_core\<close> and \<open>hyf_lxmf_core\<close> each have a read cursor (an input slice and an
  index) whose reads all go through one checked \<open>read_slice\<close>, and a write cursor over the
  caller's buffer. The slice reader of a crate, with its own errors, is an instance of the locale
  \<open>slice_reader\<close>; the integer and array readers are built from it once and for all.
  The contracts \<open>writes\<close>, \<open>reads\<close>, \<open>accepts\<close> and \<open>safe\<close> and their rules for
  sequencing carry the codec proofs.
\<close>

section \<open>Cursors\<close>

record write_cursor =
  wc_output :: "u8 list"
  wc_index :: usize

definition write_new :: "u8 list \<Rightarrow> write_cursor" where
  "write_new output = \<lparr>wc_output = output, wc_index = 0\<rparr>"

definition write_u8 :: "u8 \<Rightarrow> (write_cursor, unit, 'e) stm" where
  "write_u8 v c =
     (case set_at (wc_output c) (wc_index c) v of
        Ok output \<Rightarrow> (Ok (), c\<lparr>wc_output := output, wc_index := wc_index c + 1\<rparr>)
      | Err e \<Rightarrow> (Err e, c)
      | Panic \<Rightarrow> (Panic, c))"

definition write_array :: "u8 list \<Rightarrow> (write_cursor, unit, 'e) stm" where
  "write_array bs c =
     (case copy_at (wc_output c) (wc_index c) bs of
        Ok output \<Rightarrow> (Ok (), c\<lparr>wc_output := output, wc_index := wc_index c + length bs\<rparr>)
      | Err e \<Rightarrow> (Err e, c)
      | Panic \<Rightarrow> (Panic, c))"

definition write_u16 :: "u16 \<Rightarrow> (write_cursor, unit, 'e) stm" where
  "write_u16 v = write_array (u16_to_be_bytes v)"

definition write_u64 :: "u64 \<Rightarrow> (write_cursor, unit, 'e) stm" where
  "write_u64 v = write_array (u64_to_be_bytes v)"

record read_cursor =
  rc_input :: "u8 list"
  rc_index :: usize

definition read_new :: "u8 list \<Rightarrow> read_cursor" where
  "read_new input = \<lparr>rc_input = input, rc_index = 0\<rparr>"

text \<open>The readers every crate builds on its \<open>read_slice\<close>.\<close>

type_synonym 'e slice_read = "usize \<Rightarrow> (read_cursor, u8 list, 'e) stm"

definition cursor_u8 :: "'e slice_read \<Rightarrow> (read_cursor, u8, 'e) stm" where
  "cursor_u8 rs = sbind (rs 1) (\<lambda>bs. slift (get_at bs 0))"

definition cursor_array :: "'e slice_read \<Rightarrow> usize \<Rightarrow> (read_cursor, u8 list, 'e) stm" where
  "cursor_array rs n = sbind (rs n) (\<lambda>bs. slift (copy_at (replicate n 0) 0 bs))"

definition cursor_u16 :: "'e slice_read \<Rightarrow> (read_cursor, u16, 'e) stm" where
  "cursor_u16 rs = sbind (cursor_array rs 2) (\<lambda>bs. sret (u16_from_be_bytes bs))"

definition cursor_u32 :: "'e slice_read \<Rightarrow> (read_cursor, u32, 'e) stm" where
  "cursor_u32 rs = sbind (cursor_array rs 4) (\<lambda>bs. sret (u32_from_be_bytes bs))"

definition cursor_u64 :: "'e slice_read \<Rightarrow> (read_cursor, u64, 'e) stm" where
  "cursor_u64 rs = sbind (cursor_array rs 8) (\<lambda>bs. sret (u64_from_be_bytes bs))"

section \<open>Cursor contracts\<close>

text \<open>
  \<open>writes m bs\<close>: with room for \<open>bs\<close> the writer appends exactly \<open>bs\<close> at the
  cursor and leaves the rest of the buffer alone. \<open>reads m bs a\<close>: in front of \<open>bs\<close>
  the reader returns \<open>a\<close> and advances past \<open>bs\<close>. \<open>accepts m Q\<close>: whatever the
  reader accepts is a prefix related to its result by \<open>Q\<close>. \<open>safe m\<close>: the reader
  never panics and keeps its index inside the input.
\<close>

definition wcur :: "u8 list \<Rightarrow> u8 list \<Rightarrow> write_cursor" where
  "wcur pre rest = \<lparr>wc_output = pre @ rest, wc_index = length pre\<rparr>"

definition rcur :: "u8 list \<Rightarrow> u8 list \<Rightarrow> read_cursor" where
  "rcur pre rest = \<lparr>rc_input = pre @ rest, rc_index = length pre\<rparr>"

definition writes :: "(write_cursor, unit, 'e) stm \<Rightarrow> u8 list \<Rightarrow> bool" where
  "writes m bs \<longleftrightarrow> (\<forall>pre rest. length bs \<le> length rest \<longrightarrow>
     m (wcur pre rest) = (Ok (), wcur (pre @ bs) (drop (length bs) rest)))"

definition reads :: "(read_cursor, 'a, 'e) stm \<Rightarrow> u8 list \<Rightarrow> 'a \<Rightarrow> bool" where
  "reads m bs a \<longleftrightarrow> (\<forall>pre rest. length (pre @ bs) \<le> usize_max \<longrightarrow>
     m (rcur pre (bs @ rest)) = (Ok a, rcur (pre @ bs) rest))"

definition accepts ::
  "(read_cursor, 'a, 'e) stm \<Rightarrow> ('a \<Rightarrow> u8 list \<Rightarrow> bool) \<Rightarrow> bool" where
  "accepts m Q \<longleftrightarrow> (\<forall>pre inp a c. m (rcur pre inp) = (Ok a, c) \<longrightarrow>
     (\<exists>bs rest. inp = bs @ rest \<and> c = rcur (pre @ bs) rest \<and> Q a bs))"

definition in_range :: "read_cursor \<Rightarrow> bool" where
  "in_range c \<longleftrightarrow> rc_index c \<le> length (rc_input c)"

definition safe :: "(read_cursor, 'a, 'e) stm \<Rightarrow> bool" where
  "safe m \<longleftrightarrow> (\<forall>c. in_range c \<longrightarrow> fst (m c) \<noteq> Panic \<and> in_range (snd (m c)))"

lemma writes_bind: "writes m bs \<Longrightarrow> writes (f ()) cs \<Longrightarrow> writes (sbind m f) (bs @ cs)"
  by (simp add: writes_def sbind_def add.commute [of "length bs"])

lemma writes_bind_Cons: "writes m [b] \<Longrightarrow> writes (f ()) cs \<Longrightarrow> writes (sbind m f) (b # cs)"
  using writes_bind [of m "[b]" f cs] by simp

lemma writes_lift: "writes (f a) bs \<Longrightarrow> writes (sbind (slift (Ok a)) f) bs"
  by (simp add: writes_def sbind_def slift_def)

lemma writes_u8: "writes (write_u8 v) [v]"
  unfolding writes_def
proof (intro allI impI)
  fix pre rest :: "u8 list"
  assume "length [v] \<le> length rest"
  then show "write_u8 v (wcur pre rest) = (Ok (), wcur (pre @ [v]) (drop (length [v]) rest))"
    by (cases rest) (simp_all add: write_u8_def set_at_def wcur_def)
qed

lemma writes_array: "writes (write_array bs) bs"
  by (simp add: writes_def write_array_def copy_at_def wcur_def)

lemma writes_u16: "writes (write_u16 v) (u16_to_be_bytes v)"
  and writes_u64: "writes (write_u64 w) (u64_to_be_bytes w)"
  by (simp_all add: write_u16_def write_u64_def writes_array)

text \<open>
  The same for a writer that checks its index for overflow, in a buffer that fits in memory.
\<close>

definition writes_within :: "(write_cursor, unit, 'e) stm \<Rightarrow> u8 list \<Rightarrow> bool" where
  "writes_within m bs \<longleftrightarrow> (\<forall>pre rest. length bs \<le> length rest \<longrightarrow> length pre + length rest \<le> usize_max \<longrightarrow>
     m (wcur pre rest) = (Ok (), wcur (pre @ bs) (drop (length bs) rest)))"

lemma writes_within_bind:
  "writes_within m bs \<Longrightarrow> writes_within (f ()) cs \<Longrightarrow> writes_within (sbind m f) (bs @ cs)"
  by (simp add: writes_within_def sbind_def add.commute [of "length bs"])

lemma writes_within_bind_Cons:
  "writes_within m [b] \<Longrightarrow> writes_within (f ()) cs \<Longrightarrow> writes_within (sbind m f) (b # cs)"
  using writes_within_bind [of m "[b]" f cs] by simp

lemma writes_within_ret: "writes_within (sret ()) []"
  by (simp add: writes_within_def sret_def)

lemma reads_bind: "reads m bs a \<Longrightarrow> reads (f a) cs b \<Longrightarrow> reads (sbind m f) (bs @ cs) b"
  by (auto simp: reads_def sbind_def)

lemma reads_bind_Cons: "reads m [x] a \<Longrightarrow> reads (f a) cs b \<Longrightarrow> reads (sbind m f) (x # cs) b"
  using reads_bind [of m "[x]" a f cs b] by simp

lemma reads_ret: "reads (sret a) [] a"
  by (simp add: reads_def sret_def)

lemma reads_lift: "reads (f a) bs b \<Longrightarrow> reads (sbind (slift (Ok a)) f) bs b"
  by (simp add: reads_def sbind_def slift_def)

lemma accepts_bind:
  assumes "accepts m Q" and "\<And>a. accepts (f a) (R a)"
  shows "accepts (sbind m f) (\<lambda>b cs. \<exists>a bs bs'. Q a bs \<and> R a b bs' \<and> cs = bs @ bs')"
  unfolding accepts_def
proof (intro allI impI)
  fix pre inp b c
  assume "sbind m f (rcur pre inp) = (Ok b, c)"
  then obtain a c1 where m: "m (rcur pre inp) = (Ok a, c1)" and f: "f a c1 = (Ok b, c)"
    by (auto simp: sbind_eq_Ok)
  from m assms(1) obtain bs rest where
    1: "inp = bs @ rest" "c1 = rcur (pre @ bs) rest" "Q a bs"
    unfolding accepts_def by blast
  from f 1(2) assms(2) [of a] obtain bs' rest' where
    2: "rest = bs' @ rest'" "c = rcur ((pre @ bs) @ bs') rest'" "R a b bs'"
    unfolding accepts_def by blast
  from 1 2 show "\<exists>cs rest. inp = cs @ rest \<and> c = rcur (pre @ cs) rest \<and>
      (\<exists>a bs bs'. Q a bs \<and> R a b bs' \<and> cs = bs @ bs')"
    by (intro exI [of _ "bs @ bs'"] exI [of _ rest']) auto
qed

lemma accepts_mono: "accepts m Q \<Longrightarrow> (\<And>a bs. Q a bs \<Longrightarrow> R a bs) \<Longrightarrow> accepts m R"
  unfolding accepts_def by blast

lemma accepts_ret: "accepts (sret a) (\<lambda>b bs. b = a \<and> bs = [])"
  by (auto simp: accepts_def)

lemma accepts_lift: "accepts (slift r) (\<lambda>a bs. r = Ok a \<and> bs = [])"
  by (auto simp: accepts_def)

lemma accepts_throw: "accepts (sthrow e) Q"
  by (simp add: accepts_def)

lemma safe_bind:
  assumes "safe m" and "\<And>a. safe (f a)"
  shows "safe (sbind m f)"
  unfolding safe_def
proof (intro allI impI)
  fix c
  assume "in_range c"
  with assms(1) have m: "fst (m c) \<noteq> Panic" "in_range (snd (m c))"
    by (auto simp: safe_def)
  then show "fst (sbind m f c) \<noteq> Panic \<and> in_range (snd (sbind m f c))"
    using assms(2) by (cases "m c"; cases "fst (m c)") (auto simp: sbind_def safe_def)
qed

lemma safe_ret: "safe (sret a)" and safe_throw: "safe (sthrow e)"
  by (simp_all add: safe_def sret_def sthrow_def)

lemma safe_lift: "r \<noteq> Panic \<Longrightarrow> safe (slift r)"
  by (simp add: safe_def slift_def)

lemma safe_if: "safe m \<Longrightarrow> safe m' \<Longrightarrow> safe (if b then m else m')"
  by simp

lemma accepts_guard: "accepts m Q \<Longrightarrow> accepts (if b then sthrow e else m) (\<lambda>a bs. \<not> b \<and> Q a bs)"
  by (simp add: accepts_def)

section \<open>Slice readers\<close>

text \<open>
  A slice reader returns the next \<open>n\<close> bytes and advances, or fails and leaves the cursor alone;
  it fails exactly when the input is too short (or the index would overflow \<open>usize\<close>).
\<close>

locale slice_reader =
  fixes rs :: "'e slice_read"
  assumes slice_ok: "rc_index c + n \<le> length (rc_input c) \<Longrightarrow> rc_index c + n \<le> usize_max \<Longrightarrow>
      rs n c = (Ok (take n (drop (rc_index c) (rc_input c))), c\<lparr>rc_index := rc_index c + n\<rparr>)"
    and slice_fails: "\<not> (rc_index c + n \<le> length (rc_input c) \<and> rc_index c + n \<le> usize_max) \<Longrightarrow>
      \<exists>e. rs n c = (Err e, c)"
begin

lemma slice_cases:
  obtains "rc_index c + n \<le> length (rc_input c)" "rc_index c + n \<le> usize_max"
    "rs n c = (Ok (take n (drop (rc_index c) (rc_input c))), c\<lparr>rc_index := rc_index c + n\<rparr>)"
  | e where "rs n c = (Err e, c)"
  using slice_ok slice_fails by blast

lemma slice_reads: "length bs = n \<Longrightarrow> reads (rs n) bs bs"
  using slice_ok by (auto simp: reads_def rcur_def)

lemma slice_accepts: "accepts (rs n) (\<lambda>a bs. a = bs \<and> length bs = n)"
  unfolding accepts_def
proof (intro allI impI)
  fix pre inp a c
  assume run: "rs n (rcur pre inp) = (Ok a, c)"
  then have "n \<le> length inp" "a = take n inp" "c = rcur (pre @ take n inp) (drop n inp)"
    by (auto intro: slice_cases [of "rcur pre inp" n] simp: rcur_def)
  then show "\<exists>bs rest. inp = bs @ rest \<and> c = rcur (pre @ bs) rest \<and> a = bs \<and> length bs = n"
    by (intro exI [of _ "take n inp"] exI [of _ "drop n inp"]) auto
qed

lemma slice_safe: "safe (rs n)"
  unfolding safe_def
proof (intro allI impI)
  fix c assume "in_range c"
  then show "fst (rs n c) \<noteq> Panic \<and> in_range (snd (rs n c))"
    by (cases rule: slice_cases [of c n]) (auto simp: in_range_def)
qed

lemma slice_length: "rs n c = (Ok bs, c') \<Longrightarrow> length bs = n"
  by (cases rule: slice_cases [of c n]) auto

lemma slice_then_safe:
  assumes "\<And>bs. length bs = n \<Longrightarrow> f bs \<noteq> Panic"
  shows "safe (sbind (rs n) (\<lambda>bs. slift (f bs)))"
  unfolding safe_def
proof (intro allI impI)
  fix c assume c: "in_range c"
  with slice_safe [of n] have "fst (rs n c) \<noteq> Panic" "in_range (snd (rs n c))"
    by (auto simp: safe_def)
  with assms slice_length [of n c]
  show "fst (sbind (rs n) (\<lambda>bs. slift (f bs)) c) \<noteq> Panic \<and>
      in_range (snd (sbind (rs n) (\<lambda>bs. slift (f bs)) c))"
    by (cases "rs n c"; cases "fst (rs n c)") (auto simp: sbind_def slift_def)
qed

lemma array_reads: "length bs = n \<Longrightarrow> reads (cursor_array rs n) bs bs"
  using slice_reads [of bs n] by (simp add: reads_def cursor_array_def sbind_def slift_def copy_at_def)

lemma u8_reads: "reads (cursor_u8 rs) [v] v"
  using slice_reads [of "[v]" 1] by (simp add: reads_def cursor_u8_def sbind_def slift_def get_at_def)

lemma u16_reads: "reads (cursor_u16 rs) (u16_to_be_bytes v) v"
  using array_reads [of "u16_to_be_bytes v" 2]
  by (simp add: reads_def cursor_u16_def sbind_def sret_def)

lemma u32_reads: "reads (cursor_u32 rs) (u32_to_be_bytes v) v"
  using array_reads [of "u32_to_be_bytes v" 4]
  by (simp add: reads_def cursor_u32_def sbind_def sret_def)

lemma u64_reads: "reads (cursor_u64 rs) (u64_to_be_bytes v) v"
  using array_reads [of "u64_to_be_bytes v" 8]
  by (simp add: reads_def cursor_u64_def sbind_def sret_def)

lemma array_accepts: "accepts (cursor_array rs n) (\<lambda>a bs. a = bs \<and> length bs = n)"
  unfolding cursor_array_def
  by (rule accepts_mono [OF accepts_bind [OF slice_accepts accepts_lift]])
     (auto simp: copy_at_def)

lemma u8_accepts: "accepts (cursor_u8 rs) (\<lambda>v bs. bs = [v])"
  unfolding cursor_u8_def
  by (rule accepts_mono [OF accepts_bind [OF slice_accepts accepts_lift]])
     (auto simp: get_at_def length_Suc_conv)

lemma u16_accepts: "accepts (cursor_u16 rs) (\<lambda>v bs. bs = u16_to_be_bytes v)"
  unfolding cursor_u16_def
  by (rule accepts_mono [OF accepts_bind [OF array_accepts accepts_ret]])
     (auto simp: u16_to_from_be)

lemma u32_accepts: "accepts (cursor_u32 rs) (\<lambda>v bs. bs = u32_to_be_bytes v)"
  unfolding cursor_u32_def
  by (rule accepts_mono [OF accepts_bind [OF array_accepts accepts_ret]])
     (auto simp: u32_to_from_be)

lemma u64_accepts: "accepts (cursor_u64 rs) (\<lambda>v bs. bs = u64_to_be_bytes v)"
  unfolding cursor_u64_def
  by (rule accepts_mono [OF accepts_bind [OF array_accepts accepts_ret]])
     (auto simp: u64_to_from_be)

lemma array_safe: "safe (cursor_array rs n)" and u8_safe: "safe (cursor_u8 rs)"
  unfolding cursor_array_def cursor_u8_def
  by (rule slice_then_safe, simp add: copy_at_def get_at_def)+

lemma u16_safe: "safe (cursor_u16 rs)" and u32_safe: "safe (cursor_u32 rs)" and u64_safe: "safe (cursor_u64 rs)"
  by (auto simp: cursor_u16_def cursor_u32_def cursor_u64_def intro!: safe_bind array_safe safe_ret)

end

section \<open>Local readers\<close>

text \<open>
  A reader is local if what it accepts it would accept anywhere: its run depends only on the bytes
  it consumes. Every reader built from slice reads is local.
\<close>

lemma accepts_run:
  assumes "accepts m Q" and "m (rcur pre inp) = (Ok a, c)"
  obtains bs rest where "inp = bs @ rest" "c = rcur (pre @ bs) rest" "Q a bs"
  using assms unfolding accepts_def by blast

lemma accepts_both:
  assumes "accepts m Q" and "accepts m R"
  shows "accepts m (\<lambda>a bs. Q a bs \<and> R a bs)"
  unfolding accepts_def
proof (intro allI impI)
  fix pre inp a c
  assume run: "m (rcur pre inp) = (Ok a, c)"
  from run assms(1) obtain bs rest where 1: "inp = bs @ rest" "c = rcur (pre @ bs) rest" "Q a bs"
    unfolding accepts_def by blast
  from run assms(2) obtain bs' rest' where 2: "inp = bs' @ rest'" "c = rcur (pre @ bs') rest'" "R a bs'"
    unfolding accepts_def by blast
  from 1(2) 2(2) have "length bs = length bs'" by (simp add: rcur_def)
  with 1(1) 2(1) have "bs = bs'" by simp
  with 1 2 show "\<exists>bs rest. inp = bs @ rest \<and> c = rcur (pre @ bs) rest \<and> Q a bs \<and> R a bs" by blast
qed

definition local_reader :: "(read_cursor, 'a, 'e) stm \<Rightarrow> bool" where
  "local_reader m \<longleftrightarrow> accepts m (\<lambda>a bs. reads m bs a)"

lemma local_bind:
  assumes "local_reader m" and "\<And>a. local_reader (f a)"
  shows "local_reader (sbind m f)"
  unfolding local_reader_def
  by (rule accepts_mono [OF accepts_bind [OF assms(1) [unfolded local_reader_def] assms(2) [unfolded local_reader_def]]])
    (auto intro: reads_bind)

lemma local_lift: "local_reader (slift r)"
  unfolding local_reader_def by (rule accepts_mono [OF accepts_lift]) (auto simp: reads_def)

lemma local_ret: "local_reader (sret a)" and local_throw: "local_reader (sthrow e)"
  unfolding local_reader_def by (rule accepts_mono [OF accepts_ret]) (auto simp: reads_ret accepts_throw)

lemma local_if: "local_reader m \<Longrightarrow> local_reader m' \<Longrightarrow> local_reader (if b then m else m')"
  by simp

lemma local_reads:
  assumes "local_reader m" and "m (rcur pre inp) = (Ok a, c)"
  obtains bs rest where "inp = bs @ rest" "c = rcur (pre @ bs) rest" "reads m bs a"
  using assms unfolding local_reader_def accepts_def by blast

lemma reads_run: "reads m bs a \<Longrightarrow> length bs \<le> usize_max \<Longrightarrow> m (rcur [] bs) = (Ok a, rcur bs [])"
  using reads_def [of m bs a] by (metis append_Nil append_Nil2)

context slice_reader
begin

lemma slice_local: "local_reader (rs n)"
  unfolding local_reader_def by (rule accepts_mono [OF slice_accepts]) (auto intro: slice_reads)

lemma array_local: "local_reader (cursor_array rs n)" and u8_local: "local_reader (cursor_u8 rs)"
  by (auto simp: cursor_array_def cursor_u8_def intro!: local_bind local_lift slice_local)

lemma u16_local: "local_reader (cursor_u16 rs)" and u32_local: "local_reader (cursor_u32 rs)"
  and u64_local: "local_reader (cursor_u64 rs)"
  by (auto simp: cursor_u16_def cursor_u32_def cursor_u64_def intro!: local_bind local_ret array_local)

end

text \<open>A loop \<open>for _ in 0..n\<close> whose body may fail.\<close>

fun repeat_n :: "nat \<Rightarrow> ('s, unit, 'e) stm \<Rightarrow> ('s, unit, 'e) stm" where
  "repeat_n 0 m = sret ()"
| "repeat_n (Suc n) m = sbind m (\<lambda>_. repeat_n n m)"

lemma local_repeat: "local_reader m \<Longrightarrow> local_reader (repeat_n n m)"
  by (induction n) (simp_all add: local_ret local_bind)

lemma safe_repeat: "safe m \<Longrightarrow> safe (repeat_n n m)"
  by (induction n) (simp_all add: safe_ret safe_bind)

lemma sbind_sret: "sbind (sbind m (\<lambda>v. sret (f v))) g = sbind m (\<lambda>v. g (f v))"
  by (auto simp: sbind_def sret_def fun_eq_iff split: prod.splits result.splits)

lemma sbind_then: "sbind (sbind m f) g = sbind m (\<lambda>v. sbind (f v) g)"
  by (auto simp: sbind_def fun_eq_iff split: prod.splits result.splits)

section \<open>The codec interface\<close>

text \<open>
  A wire codec is a writer and a reader that agree on one byte encoding. The fields of the
  envelope, the envelope itself and the bridge message are instances; the laws give
  prefix-freeness and the round trip through any buffer once for all of them.
\<close>

locale wire_codec =
  fixes put :: "'a \<Rightarrow> (write_cursor, unit, 'e) stm"
    and get :: "(read_cursor, 'a, 'e) stm"
    and enc :: "'a \<Rightarrow> u8 list"
    and ok :: "'a \<Rightarrow> bool"
  assumes put_writes: "ok a \<Longrightarrow> writes (put a) (enc a)"
    and get_reads: "ok a \<Longrightarrow> reads get (enc a) a"
    and get_accepts: "accepts get (\<lambda>a bs. ok a \<and> bs = enc a)"
    and get_safe: "safe get"
begin

lemma prefix_free:
  assumes "ok a" "ok b" "enc a @ xs = enc b @ ys"
    and "length (enc a) \<le> usize_max" "length (enc b) \<le> usize_max"
  shows "a = b \<and> xs = ys"
proof -
  have "get (rcur [] (enc a @ xs)) = (Ok a, rcur (enc a) xs)"
    and "get (rcur [] (enc b @ ys)) = (Ok b, rcur (enc b) ys)"
    using get_reads [OF assms(1)] get_reads [OF assms(2)] assms(4,5) by (auto simp: reads_def)
  with assms(3) have "a = b" "rcur (enc a) xs = rcur (enc b) ys" by simp_all
  then show ?thesis using assms(3) by simp
qed

lemma put_then_get:
  assumes "ok a" and "length (enc a) \<le> length out" and "length out \<le> usize_max"
  shows "\<exists>c. put a (write_new out) = (Ok (), c) \<and>
    get (read_new (wc_output c)) = (Ok a, rcur (enc a) (drop (length (enc a)) out))"
proof -
  have "put a (wcur [] out) = (Ok (), wcur (enc a) (drop (length (enc a)) out))"
    using put_writes [OF assms(1)] assms(2) by (auto simp: writes_def)
  moreover have "get (rcur [] (enc a @ drop (length (enc a)) out)) =
      (Ok a, rcur (enc a) (drop (length (enc a)) out))"
    using get_reads [OF assms(1)] assms(2,3) by (auto simp: reads_def)
  ultimately show ?thesis
    by (simp add: write_new_def wcur_def read_new_def rcur_def)
qed

lemma get_Ok_iff:
  assumes "length input \<le> usize_max"
  shows "get (read_new input) = (Ok a, c) \<longleftrightarrow>
    (\<exists>rest. ok a \<and> input = enc a @ rest \<and> c = rcur (enc a) rest)"
proof -
  have new: "read_new input = rcur [] input" by (simp add: read_new_def rcur_def)
  show ?thesis
  proof
    assume "get (read_new input) = (Ok a, c)"
    with get_accepts show "\<exists>rest. ok a \<and> input = enc a @ rest \<and> c = rcur (enc a) rest"
      unfolding new accepts_def by (metis append_Nil)
  next
    assume "\<exists>rest. ok a \<and> input = enc a @ rest \<and> c = rcur (enc a) rest"
    then obtain rest where "ok a" "input = enc a @ rest" "c = rcur (enc a) rest" by blast
    with get_reads [of a] assms show "get (read_new input) = (Ok a, c)"
      unfolding new by (auto simp: reads_def)
  qed
qed

end

end
