(* ===== verification/Hyf_Wire.thy ===== *)
theory Hyf_Wire
  imports Hyf_Core Hyf_Cursor
begin

text \<open>
  The crate \<open>hyf_wire\<close>: the native HYF envelope and its byte format
  (\<open>src/crates/hyf_wire/src/{destination,payload,error,envelope}.rs\<close>). The two cursors are
  records passed through every read and write; writing outside the buffer is a panic of the model,
  as it is in the source. The lemmas show that encoding writes exactly \<open>envelope_bytes\<close> and
  nothing else, that decoding inverts it, that a decoded frame is the encoding of its result, and
  that neither operation panics.
\<close>

section \<open>Destinations, payload kinds and errors\<close>

datatype hyf_destination =
    Node node_id
  | Community community_id
  | Foreign foreign_endpoint_id

fun destination_wire_tag :: "hyf_destination \<Rightarrow> u8" where
  "destination_wire_tag (Node _) = 0"
| "destination_wire_tag (Community _) = 1"
| "destination_wire_tag (Foreign _) = 2"

datatype hyf_wire_error =
    InvalidVersion u8
  | InvalidDestinationTag u8
  | InvalidPayloadKind u8
  | InputTooShort usize usize
  | TrailingBytes usize usize
  | EnvelopeTooLarge usize usize
  | OutputBufferTooShort usize usize
  | InvalidExpiry
  | InvalidForeignEndpoint foreign_endpoint_error

datatype payload_kind =
    HyfNativeV0
  | HyfBridgeMessageV0
  | ForeignRnsPacket
  | ForeignLxmfMessage
  | ForeignBitChatPacket

fun payload_wire_tag :: "payload_kind \<Rightarrow> u8" where
  "payload_wire_tag HyfNativeV0 = 0"
| "payload_wire_tag HyfBridgeMessageV0 = 1"
| "payload_wire_tag ForeignRnsPacket = 16"
| "payload_wire_tag ForeignLxmfMessage = 17"
| "payload_wire_tag ForeignBitChatPacket = 18"

definition payload_from_wire_tag :: "u8 \<Rightarrow> (payload_kind, hyf_wire_error) result" where
  "payload_from_wire_tag tag =
     (if tag = 0 then Ok HyfNativeV0
      else if tag = 1 then Ok HyfBridgeMessageV0
      else if tag = 16 then Ok ForeignRnsPacket
      else if tag = 17 then Ok ForeignLxmfMessage
      else if tag = 18 then Ok ForeignBitChatPacket
      else Err (InvalidPayloadKind tag))"

section \<open>The envelope\<close>

definition HYF_WIRE_VERSION_0 :: u8 where
  "HYF_WIRE_VERSION_0 = 0"

definition HYF_ENVELOPE_MAX_PAYLOAD_LEN :: usize where
  "HYF_ENVELOPE_MAX_PAYLOAD_LEN = 65535"

record hyf_envelope =
  env_version :: u8
  env_message_id :: message_id
  env_source :: node_id
  env_destination :: hyf_destination
  env_created_at_ms :: timestamp_ms
  env_expires_at_ms :: timestamp_ms
  env_hop_limit :: u8
  env_payload_kind :: payload_kind
  env_payload :: "u8 list"

definition validate_envelope :: "hyf_envelope \<Rightarrow> (unit, hyf_wire_error) result" where
  "validate_envelope e =
     (if env_version e \<noteq> HYF_WIRE_VERSION_0 then Err (InvalidVersion (env_version e))
      else if ms (env_expires_at_ms e) \<le> ms (env_created_at_ms e) then Err InvalidExpiry
      else if length (env_payload e) > HYF_ENVELOPE_MAX_PAYLOAD_LEN
        then Err (EnvelopeTooLarge (length (env_payload e)) HYF_ENVELOPE_MAX_PAYLOAD_LEN)
      else Ok ())"

definition destination_encoded_len :: "hyf_destination \<Rightarrow> usize" where
  "destination_encoded_len d =
     (case d of
        Node _ \<Rightarrow> 1 + 32
      | Community _ \<Rightarrow> 1 + 16
      | Foreign endpoint \<Rightarrow> 1 + 1 + 1 + endpoint_len endpoint)"

definition fixed_encoded_len :: "hyf_destination \<Rightarrow> (usize, hyf_wire_error) result" where
  "fixed_encoded_len d =
     (let destination_len = destination_encoded_len d in
      ok_or (EnvelopeTooLarge destination_len HYF_ENVELOPE_MAX_PAYLOAD_LEN)
        (checked_add destination_len (1 + 32 + 32 + 8 + 8 + 1 + 1 + 2)))"

definition envelope_encoded_len :: "hyf_envelope \<Rightarrow> (usize, hyf_wire_error) result" where
  "envelope_encoded_len e =
     rbind (validate_envelope e) (\<lambda>_.
     rbind (fixed_encoded_len (env_destination e)) (\<lambda>fixed.
       ok_or (EnvelopeTooLarge (length (env_payload e)) HYF_ENVELOPE_MAX_PAYLOAD_LEN)
         (checked_add fixed (length (env_payload e)))))"

section \<open>Writing\<close>

definition encode_destination :: "hyf_destination \<Rightarrow> (write_cursor, unit, hyf_wire_error) stm" where
  "encode_destination d =
     sbind (write_u8 (destination_wire_tag d)) (\<lambda>_.
       case d of
         Node node \<Rightarrow> write_array (node_id_bytes node)
       | Community community \<Rightarrow> write_array (community_id_bytes community)
       | Foreign endpoint \<Rightarrow>
           sbind (write_u8 (network_wire_tag (fe_network endpoint))) (\<lambda>_.
           sbind (write_u8 (word_of_nat (endpoint_len endpoint))) (\<lambda>_.
           sbind (slift (endpoint_as_bytes endpoint)) write_array)))"

definition write_envelope :: "hyf_envelope \<Rightarrow> (write_cursor, unit, hyf_wire_error) stm" where
  "write_envelope e =
     sbind (write_u8 (env_version e)) (\<lambda>_.
     sbind (write_array (message_id_bytes (env_message_id e))) (\<lambda>_.
     sbind (write_array (node_id_bytes (env_source e))) (\<lambda>_.
     sbind (encode_destination (env_destination e)) (\<lambda>_.
     sbind (write_u64 (ms (env_created_at_ms e))) (\<lambda>_.
     sbind (write_u64 (ms (env_expires_at_ms e))) (\<lambda>_.
     sbind (write_u8 (env_hop_limit e)) (\<lambda>_.
     sbind (write_u8 (payload_wire_tag (env_payload_kind e))) (\<lambda>_.
     sbind (write_u16 (word_of_nat (length (env_payload e)))) (\<lambda>_.
       write_array (env_payload e))))))))))"

text \<open>The caller's buffer is the state: the result comes with the buffer as the call leaves it.\<close>

definition encode_envelope :: "hyf_envelope \<Rightarrow> (u8 list, usize, hyf_wire_error) stm" where
  "encode_envelope e output =
     (case envelope_encoded_len e of
        Err err \<Rightarrow> (Err err, output)
      | Panic \<Rightarrow> (Panic, output)
      | Ok required \<Rightarrow>
          if length output < required
          then (Err (OutputBufferTooShort (length output) required), output)
          else (case write_envelope e (write_new output) of
                  (Ok _, c) \<Rightarrow> (Ok required, wc_output c)
                | (Err err, c) \<Rightarrow> (Err err, wc_output c)
                | (Panic, c) \<Rightarrow> (Panic, wc_output c)))"

section \<open>Reading\<close>

definition read_slice :: "usize \<Rightarrow> (read_cursor, u8 list, hyf_wire_error) stm" where
  "read_slice len c =
     (case checked_add (rc_index c) len of
        None \<Rightarrow> (Err (EnvelopeTooLarge len HYF_ENVELOPE_MAX_PAYLOAD_LEN), c)
      | Some end_ix \<Rightarrow>
          if length (rc_input c) < end_ix
          then (Err (InputTooShort (length (rc_input c)) end_ix), c)
          else (case slice (rc_input c) (rc_index c) end_ix of
                  Ok bs \<Rightarrow> (Ok bs, c\<lparr>rc_index := end_ix\<rparr>)
                | Err err \<Rightarrow> (Err err, c)
                | Panic \<Rightarrow> (Panic, c)))"

definition read_u8 :: "(read_cursor, u8, hyf_wire_error) stm" where
  "read_u8 = cursor_u8 read_slice"

definition read_array :: "usize \<Rightarrow> (read_cursor, u8 list, hyf_wire_error) stm" where
  "read_array n = cursor_array read_slice n"

definition read_u16 :: "(read_cursor, u16, hyf_wire_error) stm" where
  "read_u16 = cursor_u16 read_slice"

definition read_u64 :: "(read_cursor, u64, hyf_wire_error) stm" where
  "read_u64 = cursor_u64 read_slice"

definition decode_destination :: "(read_cursor, hyf_destination, hyf_wire_error) stm" where
  "decode_destination =
     sbind read_u8 (\<lambda>tag.
       if tag = 0 then sbind (read_array 32) (\<lambda>bs. sret (Node (NodeId bs)))
       else if tag = 1 then sbind (read_array 16) (\<lambda>bs. sret (Community (CommunityId bs)))
       else if tag = 2 then
         sbind read_u8 (\<lambda>network_tag.
         sbind (slift (map_err InvalidForeignEndpoint (network_from_wire_tag network_tag))) (\<lambda>network.
         sbind read_u8 (\<lambda>endpoint_len.
         sbind (read_slice (unat endpoint_len)) (\<lambda>bs.
         sbind (slift (map_err InvalidForeignEndpoint (endpoint_new network bs))) (\<lambda>endpoint.
           sret (Foreign endpoint))))))
       else sthrow (InvalidDestinationTag tag))"

definition read_envelope :: "(read_cursor, hyf_envelope, hyf_wire_error) stm" where
  "read_envelope =
     sbind read_u8 (\<lambda>version.
       if version \<noteq> HYF_WIRE_VERSION_0 then sthrow (InvalidVersion version) else
       sbind (read_array 32) (\<lambda>message_id.
       sbind (read_array 32) (\<lambda>source.
       sbind decode_destination (\<lambda>destination.
       sbind read_u64 (\<lambda>created_at_ms.
       sbind read_u64 (\<lambda>expires_at_ms.
       sbind read_u8 (\<lambda>hop_limit.
       sbind read_u8 (\<lambda>kind_tag.
       sbind (slift (payload_from_wire_tag kind_tag)) (\<lambda>payload_kind.
       sbind read_u16 (\<lambda>payload_len.
       sbind (read_slice (unat payload_len)) (\<lambda>payload.
         sret \<lparr>env_version = version, env_message_id = MessageId message_id,
               env_source = NodeId source, env_destination = destination,
               env_created_at_ms = TimestampMs created_at_ms,
               env_expires_at_ms = TimestampMs expires_at_ms,
               env_hop_limit = hop_limit, env_payload_kind = payload_kind,
               env_payload = payload\<rparr>)))))))))))"

definition decode_envelope :: "u8 list \<Rightarrow> (hyf_envelope, hyf_wire_error) result" where
  "decode_envelope input =
     fst (sbind read_envelope (\<lambda>envelope c.
       if rc_index c \<noteq> length input
       then (Err (TrailingBytes (length input) (rc_index c)), c)
       else sbind (slift (validate_envelope envelope)) (\<lambda>_. sret envelope) c)
     (read_new input))"

section \<open>Well-formed envelopes and the byte format they denote\<close>

text \<open>
  \<open>wf_envelope\<close> states what the Rust types guarantee (array lengths, endpoint fields);
  \<open>envelope_bytes\<close> is the format as one concatenation, the reference both cursors are
  compared with.
\<close>

fun wf_destination :: "hyf_destination \<Rightarrow> bool" where
  "wf_destination (Node n) = wf_node_id n"
| "wf_destination (Community c) = wf_community_id c"
| "wf_destination (Foreign e) = wf_endpoint e"

definition wf_envelope :: "hyf_envelope \<Rightarrow> bool" where
  "wf_envelope e \<longleftrightarrow> wf_message_id (env_message_id e) \<and> wf_node_id (env_source e) \<and>
     wf_destination (env_destination e)"

fun destination_bytes :: "hyf_destination \<Rightarrow> u8 list" where
  "destination_bytes (Node n) = 0 # node_id_bytes n"
| "destination_bytes (Community c) = 1 # community_id_bytes c"
| "destination_bytes (Foreign e) =
     2 # network_wire_tag (fe_network e) # fe_len e # endpoint_significant e"

definition envelope_bytes :: "hyf_envelope \<Rightarrow> u8 list" where
  "envelope_bytes e =
     env_version e # message_id_bytes (env_message_id e) @ node_id_bytes (env_source e) @
     destination_bytes (env_destination e) @
     u64_to_be_bytes (ms (env_created_at_ms e)) @ u64_to_be_bytes (ms (env_expires_at_ms e)) @
     [env_hop_limit e, payload_wire_tag (env_payload_kind e)] @
     u16_to_be_bytes (word_of_nat (length (env_payload e))) @ env_payload e"

lemma payload_tag_roundtrip [simp]: "payload_from_wire_tag (payload_wire_tag k) = Ok k"
  by (cases k) (simp_all add: payload_from_wire_tag_def)

lemma payload_from_wire_tag_Ok: "payload_from_wire_tag t = Ok k \<Longrightarrow> payload_wire_tag k = t"
  by (auto simp: payload_from_wire_tag_def split: if_splits)

lemma payload_from_wire_tag_no_panic [simp]: "payload_from_wire_tag t \<noteq> Panic"
  by (simp add: payload_from_wire_tag_def)

lemma validate_envelope_Ok:
  "validate_envelope e = Ok () \<longleftrightarrow>
     env_version e = 0 \<and> ms (env_created_at_ms e) < ms (env_expires_at_ms e) \<and>
     length (env_payload e) \<le> 65535"
  by (auto simp: validate_envelope_def HYF_WIRE_VERSION_0_def HYF_ENVELOPE_MAX_PAYLOAD_LEN_def)

lemma validate_envelope_no_panic [simp]: "validate_envelope e \<noteq> Panic"
  by (simp add: validate_envelope_def)

lemma length_destination_bytes:
  "wf_destination d \<Longrightarrow> length (destination_bytes d) = destination_encoded_len d"
  by (cases d) (auto simp: destination_encoded_len_def wf_defs wf_endpoint_def)

lemma destination_encoded_len_le: "destination_encoded_len d \<le> 258"
proof (cases d)
  case (Foreign e)
  then show ?thesis
    using unsigned_less [where ?'a = nat, of "fe_len e"]
    by (simp add: destination_encoded_len_def endpoint_len_def)
qed (simp_all add: destination_encoded_len_def)

lemma length_envelope_bytes:
  "wf_envelope e \<Longrightarrow>
     length (envelope_bytes e) = destination_encoded_len (env_destination e) + 85 + length (env_payload e)"
  by (simp add: envelope_bytes_def wf_envelope_def wf_defs length_destination_bytes)

lemma envelope_encoded_len_eq:
  "envelope_encoded_len e =
     rbind (validate_envelope e)
       (\<lambda>_. Ok (destination_encoded_len (env_destination e) + 85 + length (env_payload e)))"
proof (cases "validate_envelope e")
  case (Ok u)
  then have "length (env_payload e) \<le> 65535" using validate_envelope_Ok by simp
  with destination_encoded_len_le [of "env_destination e"] Ok show ?thesis
    by (simp add: envelope_encoded_len_def fixed_encoded_len_def Let_def checked_add_def
        usize_max_def)
qed (simp_all add: envelope_encoded_len_def)

section \<open>The cursors of the crate\<close>

interpretation wire: slice_reader read_slice
  by unfold_locales (auto simp: read_slice_def slice_def checked_add_def add.commute)

lemmas reads_slice = wire.slice_reads
lemmas reads_array = wire.array_reads [folded read_array_def]
lemmas reads_u8 = wire.u8_reads [folded read_u8_def]
lemmas reads_u16 = wire.u16_reads [folded read_u16_def]
lemmas reads_u64 = wire.u64_reads [folded read_u64_def]
lemmas accepts_slice = wire.slice_accepts
lemmas accepts_array = wire.array_accepts [folded read_array_def]
lemmas accepts_u8 = wire.u8_accepts [folded read_u8_def]
lemmas accepts_u16 = wire.u16_accepts [folded read_u16_def]
lemmas accepts_u64 = wire.u64_accepts [folded read_u64_def]
lemmas safe_slice = wire.slice_safe
lemmas safe_array = wire.array_safe [folded read_array_def]
lemmas safe_u8 = wire.u8_safe [folded read_u8_def]
lemmas safe_u16 = wire.u16_safe [folded read_u16_def]
lemmas safe_u64 = wire.u64_safe [folded read_u64_def]

lemma reads_array_then: "length bs = n \<Longrightarrow> reads (sbind (read_array n) (\<lambda>bs. sret (g bs))) bs (g bs)"
  using reads_bind [OF reads_array [of bs n] reads_ret] by simp

lemmas safe_intros = safe_bind safe_ret safe_throw safe_lift safe_if safe_slice safe_array
  safe_u8 safe_u16 safe_u64

interpretation u8_codec: wire_codec write_u8 read_u8 "\<lambda>v. [v]" "\<lambda>_. True"
  by unfold_locales
     (auto simp: writes_u8 reads_u8 safe_u8 intro: accepts_mono [OF accepts_u8])

interpretation u16_codec: wire_codec write_u16 read_u16 u16_to_be_bytes "\<lambda>_. True"
  by unfold_locales
     (auto simp: writes_u16 reads_u16 safe_u16 intro: accepts_mono [OF accepts_u16])

interpretation u64_codec: wire_codec write_u64 read_u64 u64_to_be_bytes "\<lambda>_. True"
  by unfold_locales
     (auto simp: writes_u64 reads_u64 safe_u64 intro: accepts_mono [OF accepts_u64])

lemma writes_destination: "wf_destination d \<Longrightarrow> writes (encode_destination d) (destination_bytes d)"
  by (cases d)
     (auto simp: encode_destination_def endpoint_len_def
       intro!: writes_bind_Cons writes_u8 writes_array writes_lift)

lemma reads_destination: "wf_destination d \<Longrightarrow> reads decode_destination (destination_bytes d) d"
proof (cases d)
  case (Foreign e)
  assume wf: "wf_destination d"
  with Foreign have e: "wf_endpoint e" by simp
  note new = endpoint_new_significant [OF e]
  have "reads (sbind (read_slice (unat (fe_len e))) (\<lambda>bs.
      sbind (slift (map_err InvalidForeignEndpoint (endpoint_new (fe_network e) bs)))
        (\<lambda>endpoint. sret (Foreign endpoint)))) (endpoint_significant e @ []) (Foreign e)"
    using length_endpoint_significant [OF e] new
    by (intro reads_bind [OF reads_slice [of "endpoint_significant e"]])
       (auto simp: endpoint_len_def intro!: reads_lift reads_ret)
  then have tail: "reads (sbind (read_slice (unat (fe_len e))) (\<lambda>bs.
      sbind (slift (map_err InvalidForeignEndpoint (endpoint_new (fe_network e) bs)))
        (\<lambda>endpoint. sret (Foreign endpoint)))) (endpoint_significant e) (Foreign e)"
    by simp
  show ?thesis
    unfolding Foreign decode_destination_def destination_bytes.simps
    by (rule reads_bind_Cons [OF reads_u8], simp,
        rule reads_bind_Cons [OF reads_u8], simp, rule reads_lift,
        rule reads_bind_Cons [OF reads_u8], rule tail)
next
  case (Node n)
  assume "wf_destination d"
  with Node reads_array_then [of "node_id_bytes n" 32 "\<lambda>bs. Node (NodeId bs)"] show ?thesis
    by (auto simp: decode_destination_def wf_defs intro!: reads_bind_Cons [OF reads_u8])
next
  case (Community c)
  assume "wf_destination d"
  with Community reads_array_then [of "community_id_bytes c" 16 "\<lambda>bs. Community (CommunityId bs)"]
  show ?thesis
    by (auto simp: decode_destination_def wf_defs intro!: reads_bind_Cons [OF reads_u8])
qed

lemma foreign_destination_bytes:
  assumes "network_from_wire_tag t = Ok k" and "endpoint_new k bs = Ok e" and "length bs = unat n"
  shows "wf_endpoint e" and "network_wire_tag (fe_network e) = t" and "fe_len e = n"
    and "endpoint_significant e = bs"
  using assms network_from_wire_tag_Ok [OF assms(1)] endpoint_new_Ok [OF assms(2)]
  by (auto simp: word_unat_eq_iff endpoint_len_def)

lemma accepts_destination: "accepts decode_destination (\<lambda>d bs. wf_destination d \<and> bs = destination_bytes d)"
proof -
  let ?Q = "\<lambda>tag d bs. wf_destination d \<and> tag # bs = destination_bytes d"
  let ?foreign = "sbind read_u8 (\<lambda>network_tag.
         sbind (slift (map_err InvalidForeignEndpoint (network_from_wire_tag network_tag))) (\<lambda>network.
         sbind read_u8 (\<lambda>endpoint_len.
         sbind (read_slice (unat endpoint_len)) (\<lambda>bs.
         sbind (slift (map_err InvalidForeignEndpoint (endpoint_new network bs))) (\<lambda>endpoint.
           sret (Foreign endpoint))))))"
  have node: "accepts (sbind (read_array 32) (\<lambda>bs. sret (Node (NodeId bs)))) (?Q 0)"
    by (rule accepts_mono [OF accepts_bind [OF accepts_array accepts_ret]]) (auto simp: wf_defs)
  have comm: "accepts (sbind (read_array 16) (\<lambda>bs. sret (Community (CommunityId bs)))) (?Q 1)"
    by (rule accepts_mono [OF accepts_bind [OF accepts_array accepts_ret]]) (auto simp: wf_defs)
  have foreign: "accepts ?foreign (?Q 2)"
    by (rule accepts_mono [OF accepts_bind [OF accepts_u8 accepts_bind [OF accepts_lift
          accepts_bind [OF accepts_u8 accepts_bind [OF accepts_slice accepts_bind [OF accepts_lift
            accepts_ret]]]]]])
       (clarsimp, frule (2) foreign_destination_bytes, frule (2) foreign_destination_bytes(2),
        frule (2) foreign_destination_bytes(3), drule (2) foreign_destination_bytes(4), simp)
  have "accepts (if tag = 0 then sbind (read_array 32) (\<lambda>bs. sret (Node (NodeId bs)))
       else if tag = 1 then sbind (read_array 16) (\<lambda>bs. sret (Community (CommunityId bs)))
       else if tag = 2 then ?foreign else sthrow (InvalidDestinationTag tag)) (?Q tag)" for tag
    using node comm foreign by (simp add: accepts_throw)
  from accepts_bind [OF accepts_u8 this] show ?thesis
    unfolding decode_destination_def by (rule accepts_mono) auto
qed

lemma endpoint_new_no_panic [simp]: "endpoint_new k bs \<noteq> Panic"
  by (simp add: endpoint_new_cases)

lemma safe_destination: "safe decode_destination"
  unfolding decode_destination_def by (intro safe_intros) auto

interpretation destination_codec:
  wire_codec encode_destination decode_destination destination_bytes wf_destination
  by unfold_locales
     (simp_all add: writes_destination reads_destination accepts_destination safe_destination)

definition codable :: "hyf_envelope \<Rightarrow> bool" where
  "codable e \<longleftrightarrow> wf_envelope e \<and> env_version e = 0 \<and> length (env_payload e) \<le> 65535"

lemma writes_envelope: "codable e \<Longrightarrow> writes (write_envelope e) (envelope_bytes e)"
  unfolding write_envelope_def envelope_bytes_def append_Cons append_Nil
  by (intro writes_bind writes_bind_Cons writes_u8 writes_u16 writes_u64 writes_array
      writes_destination) (simp add: codable_def wf_envelope_def)

lemma envelope_with_payload:
  "\<lparr>env_version = env_version e, env_message_id = env_message_id e, env_source = env_source e,
    env_destination = env_destination e, env_created_at_ms = env_created_at_ms e,
    env_expires_at_ms = env_expires_at_ms e, env_hop_limit = env_hop_limit e,
    env_payload_kind = env_payload_kind e, env_payload = p\<rparr> = e\<lparr>env_payload := p\<rparr>"
  by simp

lemma reads_envelope:
  assumes "codable e"
  shows "reads read_envelope (envelope_bytes e) e"
proof -
  from assms have wf: "length (message_id_bytes (env_message_id e)) = 32"
    "length (node_id_bytes (env_source e)) = 32" "wf_destination (env_destination e)"
    "env_version e = 0" and len: "length (env_payload e) \<le> 65535"
    by (auto simp: codable_def wf_envelope_def wf_defs)
  from len have n: "unat (word_of_nat (length (env_payload e)) :: u16) = length (env_payload e)"
    by (simp add: unat_of_nat)
  have payload: "reads (sbind (read_slice (length (env_payload e))) (\<lambda>payload. sret (e\<lparr>env_payload := payload\<rparr>)))
      (env_payload e) e"
    using reads_bind [OF reads_slice [OF refl] reads_ret, of "env_payload e" "\<lambda>p. e\<lparr>env_payload := p\<rparr>"]
    by simp
  show ?thesis
    unfolding read_envelope_def envelope_bytes_def append_Cons append_Nil
    apply (rule reads_bind_Cons [OF reads_u8])
    apply (subst if_not_P, simp add: wf HYF_WIRE_VERSION_0_def)
    apply (rule reads_bind [OF reads_array [OF wf(1)]])
    apply (rule reads_bind [OF reads_array [OF wf(2)]])
    apply (rule reads_bind [OF reads_destination [OF wf(3)]])
    apply (rule reads_bind [OF reads_u64])+
    apply (rule reads_bind_Cons [OF reads_u8])+
    apply (simp, rule reads_lift)
    apply (rule reads_bind [OF reads_u16])
    using payload by (simp add: n envelope_with_payload)
qed

lemma accepts_envelope: "accepts read_envelope (\<lambda>e bs. codable e \<and> bs = envelope_bytes e)"
proof -
  have len: "length p = unat n \<Longrightarrow> length p \<le> 65535 \<and> word_of_nat (length p) = n"
    for p :: "u8 list" and n :: u16
    using unsigned_less [where ?'a = nat, of n] by simp
  have "accepts (if version \<noteq> HYF_WIRE_VERSION_0 then sthrow (InvalidVersion version) else
      sbind (read_array 32) (\<lambda>mid.
       sbind (read_array 32) (\<lambda>src.
       sbind decode_destination (\<lambda>dst.
       sbind read_u64 (\<lambda>cr.
       sbind read_u64 (\<lambda>ex.
       sbind read_u8 (\<lambda>hop.
       sbind read_u8 (\<lambda>tag.
       sbind (slift (payload_from_wire_tag tag)) (\<lambda>kind.
       sbind read_u16 (\<lambda>n.
       sbind (read_slice (unat n)) (\<lambda>payload.
         sret \<lparr>env_version = version, env_message_id = MessageId mid, env_source = NodeId src,
           env_destination = dst, env_created_at_ms = TimestampMs cr,
           env_expires_at_ms = TimestampMs ex, env_hop_limit = hop, env_payload_kind = kind,
           env_payload = payload\<rparr>))))))))))) (\<lambda>e bs. codable e \<and> version # bs = envelope_bytes e)"
    for version
  proof (cases "version = HYF_WIRE_VERSION_0")
    case True
    show ?thesis
      unfolding True
      apply (simp only: simp_thms if_False)
      apply (rule accepts_mono [OF accepts_bind [OF accepts_array accepts_bind [OF accepts_array
          accepts_bind [OF accepts_destination accepts_bind [OF accepts_u64 accepts_bind [OF
          accepts_u64 accepts_bind [OF accepts_u8 accepts_bind [OF accepts_u8 accepts_bind [OF
          accepts_lift accepts_bind [OF accepts_u16 accepts_bind [OF accepts_slice
          accepts_ret]]]]]]]]]]])
      apply (clarsimp simp: envelope_bytes_def codable_def wf_envelope_def wf_defs
          HYF_WIRE_VERSION_0_def)
      apply (drule payload_from_wire_tag_Ok, drule len)
      by (auto simp: unat_of_nat)
  qed (simp add: accepts_throw)
  from accepts_bind [OF accepts_u8 this] show ?thesis
    unfolding read_envelope_def by (rule accepts_mono) auto
qed

lemma safe_envelope: "safe read_envelope"
  unfolding read_envelope_def by (intro safe_intros safe_destination) auto

interpretation envelope_codec: wire_codec write_envelope read_envelope envelope_bytes codable
  by unfold_locales
     (simp_all add: writes_envelope reads_envelope accepts_envelope safe_envelope)

section \<open>Encoding and decoding envelopes\<close>

lemma length_envelope_bytes_le: "codable e \<Longrightarrow> length (envelope_bytes e) \<le> 65878"
  using destination_encoded_len_le [of "env_destination e"]
  by (simp add: codable_def length_envelope_bytes)

lemma envelope_encoded_len_Ok:
  "wf_envelope e \<Longrightarrow> validate_envelope e = Ok () \<Longrightarrow>
     envelope_encoded_len e = Ok (length (envelope_bytes e))"
  by (simp add: envelope_encoded_len_eq length_envelope_bytes)

lemma codable_iff: "wf_envelope e \<Longrightarrow> validate_envelope e = Ok () \<Longrightarrow> codable e"
  by (simp add: codable_def validate_envelope_Ok)

lemma encode_envelope_Ok:
  assumes "wf_envelope e" and "validate_envelope e = Ok ()"
    and "length (envelope_bytes e) \<le> length out"
  shows "encode_envelope e out =
    (Ok (length (envelope_bytes e)), envelope_bytes e @ drop (length (envelope_bytes e)) out)"
proof -
  have "write_envelope e (wcur [] out) =
      (Ok (), wcur (envelope_bytes e) (drop (length (envelope_bytes e)) out))"
    using writes_envelope [OF codable_iff [OF assms(1,2)]] assms(3) by (auto simp: writes_def)
  with assms show ?thesis
    by (simp add: encode_envelope_def envelope_encoded_len_Ok write_new_def wcur_def)
qed

lemma encode_envelope_Err:
  assumes "wf_envelope e"
  shows "validate_envelope e = Err err \<Longrightarrow> encode_envelope e out = (Err err, out)"
    and "validate_envelope e = Ok () \<Longrightarrow> length out < length (envelope_bytes e) \<Longrightarrow>
      encode_envelope e out =
        (Err (OutputBufferTooShort (length out) (length (envelope_bytes e))), out)"
  using assms by (simp add: encode_envelope_def envelope_encoded_len_eq,
    simp add: encode_envelope_def envelope_encoded_len_Ok)

lemma encode_envelope_cases:
  assumes "wf_envelope e"
  shows "encode_envelope e out =
    (case validate_envelope e of
       Err err \<Rightarrow> (Err err, out)
     | Panic \<Rightarrow> (Panic, out)
     | Ok _ \<Rightarrow>
         if length out < length (envelope_bytes e)
         then (Err (OutputBufferTooShort (length out) (length (envelope_bytes e))), out)
         else (Ok (length (envelope_bytes e)),
               envelope_bytes e @ drop (length (envelope_bytes e)) out))"
  using assms encode_envelope_Ok [of e out] encode_envelope_Err(1) [of e _ out]
    encode_envelope_Err(2) [of e out]
  by (auto split: result.splits)

lemma decode_envelope_eq_Ok:
  "length input \<le> usize_max \<Longrightarrow>
   decode_envelope input = Ok e \<longleftrightarrow>
     wf_envelope e \<and> validate_envelope e = Ok () \<and> input = envelope_bytes e"
proof
  assume len: "length input \<le> usize_max" and "decode_envelope input = Ok e"
  then obtain c c' where r: "read_envelope (read_new input) = (Ok e, c)"
    and c: "rc_index c = length input" and v: "validate_envelope e = Ok ()"
    by (auto simp: decode_envelope_def fst_eq_ex sbind_eq_Ok split: if_splits)
  show "wf_envelope e \<and> validate_envelope e = Ok () \<and> input = envelope_bytes e"
    using r c v envelope_codec.get_Ok_iff [OF len, of e c]
    by (auto simp: rcur_def codable_def)
next
  assume len: "length input \<le> usize_max"
    and e: "wf_envelope e \<and> validate_envelope e = Ok () \<and> input = envelope_bytes e"
  then have "read_envelope (read_new input) = (Ok e, rcur input [])"
    using envelope_codec.get_Ok_iff [OF len, of e "rcur input []"] codable_iff by simp
  with e show "decode_envelope input = Ok e"
    by (simp add: decode_envelope_def sbind_def rcur_def slift_def sret_def)
qed

lemma decode_envelope_no_panic: "decode_envelope input \<noteq> Panic"
proof -
  let ?tail = "\<lambda>envelope c. if rc_index c \<noteq> length input
       then (Err (TrailingBytes (length input) (rc_index c)), c)
       else sbind (slift (validate_envelope envelope)) (\<lambda>_. sret envelope) c"
  have "safe (?tail e)" for e
    by (auto simp: safe_def sbind_def slift_def sret_def split: result.splits)
  from safe_bind [OF safe_envelope this] show ?thesis
    by (auto simp: decode_envelope_def safe_def in_range_def read_new_def)
qed

lemma decode_encode:
  assumes "wf_envelope e" and "validate_envelope e = Ok ()"
  shows "decode_envelope (envelope_bytes e) = Ok e"
  using assms length_envelope_bytes_le [OF codable_iff [OF assms]]
  by (simp add: decode_envelope_eq_Ok usize_max_def)

definition sample_envelope :: "hyf_destination \<Rightarrow> u8 \<Rightarrow> hyf_envelope" where
  "sample_envelope d hops =
     \<lparr>env_version = 0, env_message_id = MessageId (replicate 32 17),
      env_source = NodeId (replicate 32 34), env_destination = d,
      env_created_at_ms = TimestampMs 100, env_expires_at_ms = TimestampMs 200,
      env_hop_limit = hops, env_payload_kind = HyfNativeV0, env_payload = [104, 105]\<rparr>"

lemma sample_envelope_wf: "wf_destination d \<Longrightarrow> wf_envelope (sample_envelope d hops)"
  by (simp add: sample_envelope_def wf_envelope_def wf_defs)

lemma sample_envelope_valid: "validate_envelope (sample_envelope d hops) = Ok ()"
  by (simp add: sample_envelope_def validate_envelope_Ok)

text \<open>
  C4: an envelope that validates, encoded into any buffer with room for it, is written as a prefix
  that decodes to the same envelope; the rest of the buffer is untouched.
\<close>

theorem envelope_roundtrip:
  assumes "wf_envelope e" and "validate_envelope e = Ok ()"
    and "envelope_encoded_len e = Ok n" and "n \<le> length out"
  shows "\<exists>out'. encode_envelope e out = (Ok n, out') \<and> decode_envelope (take n out') = Ok e \<and>
    length out' = length out \<and> drop n out' = drop n out"
proof -
  from assms(1-3) have n: "n = length (envelope_bytes e)"
    by (simp add: envelope_encoded_len_Ok)
  with assms encode_envelope_Ok [of e out] decode_encode [of e] show ?thesis by simp
qed

theorem envelope_roundtrip_witness:
  "\<exists>out'. encode_envelope (sample_envelope (Node (NodeId (replicate 32 68))) 9) (replicate 128 0) =
     (Ok 120, out') \<and>
     decode_envelope (take 120 out') = Ok (sample_envelope (Node (NodeId (replicate 32 68))) 9) \<and>
     length out' = length (replicate 128 (0 :: u8)) \<and> drop 120 out' = drop 120 (replicate 128 0)"
  by (rule envelope_roundtrip)
     (simp_all add: sample_envelope_wf sample_envelope_valid wf_defs envelope_encoded_len_eq,
      simp add: sample_envelope_def destination_encoded_len_def)

text \<open>
  The wire format is canonical. A frame that decodes is the encoding of the envelope it decodes
  to, byte for byte, so two different frames never decode to the same envelope; and the decoded
  envelope is well formed and passes validation.
\<close>

theorem decode_envelope_canonical:
  assumes "length input \<le> usize_max" and "decode_envelope input = Ok e"
  shows "wf_envelope e \<and> validate_envelope e = Ok () \<and>
    encode_envelope e (replicate (length input) 0) = (Ok (length input), input)"
  using assms encode_envelope_Ok [of e "replicate (length input) 0"]
  by (simp add: decode_envelope_eq_Ok)

theorem decode_envelope_canonical_witness:
  "let e = sample_envelope (Community (CommunityId (replicate 16 85))) 3 in
     encode_envelope e (replicate (length (envelope_bytes e)) 0) =
       (Ok (length (envelope_bytes e)), envelope_bytes e)"
proof -
  let ?e = "sample_envelope (Community (CommunityId (replicate 16 85))) 3"
  have wf: "wf_envelope ?e" by (simp add: sample_envelope_wf wf_defs)
  have "length (envelope_bytes ?e) \<le> usize_max"
    using length_envelope_bytes_le [OF codable_iff [OF wf sample_envelope_valid]]
    by (simp add: usize_max_def)
  from decode_envelope_canonical [OF this decode_encode [OF wf sample_envelope_valid]]
  show ?thesis by (simp add: Let_def)
qed

text \<open>
  C17: neither direction of the codec panics, whatever the input or the buffer; an encoder error
  leaves the caller's buffer as it was, and the encoder fails only for an envelope that does not
  validate or a buffer that is too short.
\<close>

theorem envelope_codec_total:
  assumes "wf_envelope e"
  shows "decode_envelope input \<noteq> Panic \<and> fst (encode_envelope e out) \<noteq> Panic \<and>
    (\<forall>err. fst (encode_envelope e out) = Err err \<longrightarrow>
       snd (encode_envelope e out) = out \<and>
       (validate_envelope e = Err err \<or>
        (\<exists>n. envelope_encoded_len e = Ok n \<and> length out < n \<and>
             err = OutputBufferTooShort (length out) n)))"
  using assms decode_envelope_no_panic [of input] encode_envelope_cases [of e out]
    envelope_encoded_len_Ok [of e]
  by (auto split: result.splits if_splits)

theorem envelope_codec_total_witness:
  "let e = sample_envelope (Node (NodeId (replicate 32 68))) 9 in
     fst (encode_envelope e [1, 2, 3, 4]) = Err (OutputBufferTooShort 4 120) \<and>
     snd (encode_envelope e [1, 2, 3, 4]) = [1, 2, 3, 4]"
proof -
  let ?e = "sample_envelope (Node (NodeId (replicate 32 68))) 9"
  have wf: "wf_envelope ?e" by (simp add: sample_envelope_wf wf_defs)
  have "envelope_encoded_len ?e = Ok 120"
    by (simp add: envelope_encoded_len_eq sample_envelope_valid)
       (simp add: sample_envelope_def destination_encoded_len_def)
  then have "fst (encode_envelope ?e [1, 2, 3, 4]) = Err (OutputBufferTooShort 4 120)"
    by (simp add: encode_envelope_def)
  with envelope_codec_total [OF wf, of "[]" "[1, 2, 3, 4]"] show ?thesis by (simp add: Let_def)
qed

end
