(* ===== verification/Hyf_Link.thy ===== *)
theory Hyf_Link
  imports Hyf_Core
begin

text \<open>
  The crate \<open>hyf_link\<close>: link identifiers and classes, frames and commands at the link
  boundary, the MTU check, and the classification of driver errors that the gateway uses to decide
  whether a failed send keeps its message (\<open>src/crates/hyf_link/src/{link,frame,error,driver}.rs\<close>).
  The trait \<open>LinkDriver\<close> is the locale \<open>link_driver\<close>: its operations are the fixed
  functions, its FIFO contract the assumptions, and the loopback driver interprets it.
\<close>

datatype link_id = LinkId (link_id_bytes: "u8 list")

definition wf_link_id :: "link_id \<Rightarrow> bool" where
  [wf_defs]: "wf_link_id l \<longleftrightarrow> length (link_id_bytes l) = 16"

datatype link_class =
  RawLora | RNodeKiss | Serial | Wifi | Ble | NostrLink | FipsLink | Loopback

datatype link_error = FrameTooLarge usize usize

record link_frame =
  frame_link_id :: link_id
  frame_received_at_ms :: timestamp_ms
  frame_bytes :: "u8 list"

datatype link_event =
    Frame link_frame
  | Up link_id
  | Down link_id

datatype link_command = Send link_id "u8 list"

fun command_link_id :: "link_command \<Rightarrow> link_id" where
  "command_link_id (Send link_id _) = link_id"

fun command_bytes :: "link_command \<Rightarrow> u8 list" where
  "command_bytes (Send _ bytes) = bytes"

definition validate_frame_mtu :: "u8 list \<Rightarrow> usize \<Rightarrow> (unit, link_error) result" where
  "validate_frame_mtu bytes mtu =
     (if length bytes > mtu then Err (FrameTooLarge (length bytes) mtu) else Ok ())"

definition frame_validate_mtu :: "link_frame \<Rightarrow> usize \<Rightarrow> (unit, link_error) result" where
  "frame_validate_mtu frame mtu = validate_frame_mtu (frame_bytes frame) mtu"

definition command_validate_mtu :: "link_command \<Rightarrow> usize \<Rightarrow> (unit, link_error) result" where
  "command_validate_mtu command mtu = validate_frame_mtu (command_bytes command) mtu"

datatype link_driver_error_kind =
    LinkDown | Backpressure | TransientSend | TransientReceive | OutputTooSmall
  | KindFrameTooLarge | Protocol | Unsupported | Fatal

fun is_recoverable :: "link_driver_error_kind \<Rightarrow> bool" where
  "is_recoverable k \<longleftrightarrow>
     k = LinkDown \<or> k = Backpressure \<or> k = TransientSend \<or> k = TransientReceive \<or> k = OutputTooSmall"

fun is_recoverable_send_failure :: "link_driver_error_kind \<Rightarrow> bool" where
  "is_recoverable_send_failure k \<longleftrightarrow> k = LinkDown \<or> k = Backpressure \<or> k = TransientSend"

lemma recoverable_send_is_recoverable: "is_recoverable_send_failure k \<Longrightarrow> is_recoverable k"
  by auto

section \<open>The driver contract\<close>

text \<open>
  A link driver with state \<open>'d\<close>. \<open>wire d\<close> is the sequence of frames (receive time and
  bytes) in flight towards the poller. A successful send appends one frame; a failed send changes
  nothing; a poll returns the oldest frame and removes it, or reports an output buffer that is too
  short and keeps it, or finds nothing. The lemmas are what the gateway may rely on: frames arrive
  once each, in the order sent, unchanged.
\<close>

locale link_driver =
  fixes inv :: "'d \<Rightarrow> bool"
    and wire :: "'d \<Rightarrow> (timestamp_ms \<times> u8 list) list"
    and send_bytes :: "u8 list \<Rightarrow> timestamp_ms \<Rightarrow> ('d, unit, 'e) stm"
    and poll_frame :: "timestamp_ms \<Rightarrow> u8 list \<Rightarrow> 'd \<Rightarrow> (link_frame option, 'e) result \<times> u8 list \<times> 'd"
  assumes send_Ok: "inv d \<Longrightarrow> send_bytes bs t d = (Ok (), d') \<Longrightarrow>
      inv d' \<and> wire d' = wire d @ [(t, bs)]"
    and send_Err: "inv d \<Longrightarrow> send_bytes bs t d = (Err e, d') \<Longrightarrow> d' = d"
    and send_no_panic: "inv d \<Longrightarrow> fst (send_bytes bs t d) \<noteq> Panic"
    and poll_empty: "inv d \<Longrightarrow> wire d = [] \<Longrightarrow> poll_frame now out d = (Ok None, out, d)"
    and poll_first: "inv d \<Longrightarrow> wire d = (t, bs) # ws \<Longrightarrow> length bs \<le> length out \<Longrightarrow>
      \<exists>f d'. poll_frame now out d = (Ok (Some f), bs @ drop (length bs) out, d') \<and>
        frame_bytes f = bs \<and> frame_received_at_ms f = t \<and> inv d' \<and> wire d' = ws"
    and poll_short: "inv d \<Longrightarrow> wire d = (t, bs) # ws \<Longrightarrow> length out < length bs \<Longrightarrow>
      \<exists>e. poll_frame now out d = (Err e, out, d)"
begin

fun send_all :: "(timestamp_ms \<times> u8 list) list \<Rightarrow> 'd \<Rightarrow> 'd option" where
  "send_all [] d = Some d"
| "send_all ((t, bs) # ws) d =
     (case send_bytes bs t d of (Ok _, d') \<Rightarrow> send_all ws d' | _ \<Rightarrow> None)"

fun poll_all :: "nat \<Rightarrow> usize \<Rightarrow> 'd \<Rightarrow> (timestamp_ms \<times> u8 list) list" where
  "poll_all 0 n d = []"
| "poll_all (Suc k) n d =
     (case poll_frame (TimestampMs 0) (replicate n 0) d of
        (Ok (Some f), _, d') \<Rightarrow> (frame_received_at_ms f, frame_bytes f) # poll_all k n d'
      | _ \<Rightarrow> [])"

lemma send_all_wire:
  "inv d \<Longrightarrow> send_all ws d = Some d' \<Longrightarrow> inv d' \<and> wire d' = wire d @ ws"
proof (induction ws d rule: send_all.induct)
  case (2 t bs ws d)
  then obtain d1 where d1: "send_bytes bs t d = (Ok (), d1)" and rest: "send_all ws d1 = Some d'"
    by (auto split: prod.splits result.splits)
  from send_Ok [OF "2.prems"(1) d1] "2.IH" [OF d1 [symmetric]] rest d1 show ?case
    by (auto split: prod.splits)
qed simp

lemma poll_all_wire:
  assumes "inv d" and "\<forall>(t, bs) \<in> set (wire d). length bs \<le> n"
  shows "poll_all (length (wire d)) n d = wire d"
  using assms
proof (induction "wire d" arbitrary: d)
  case Nil
  then show ?case by simp
next
  case (Cons w ws)
  obtain t bs where w: "w = (t, bs)" by (cases w)
  with Cons.hyps(2) have wire: "wire d = (t, bs) # ws" by simp
  with Cons.prems(2) have "length bs \<le> length (replicate n (0 :: u8))" by simp
  from poll_first [OF Cons.prems(1) wire this, of "TimestampMs 0"] obtain f d' where
    f: "poll_frame (TimestampMs 0) (replicate n 0) d = (Ok (Some f), bs @ drop (length bs) (replicate n 0), d')"
    "frame_bytes f = bs" "frame_received_at_ms f = t" "inv d'" "wire d' = ws"
    by blast
  with Cons.hyps(1) [of d'] Cons.prems(2) wire have "poll_all (length ws) n d' = ws" by simp
  with f wire show ?case by simp
qed

lemma fifo_delivery:
  assumes "inv d" and "wire d = []" and "send_all ws d = Some d'"
    and "\<forall>(t, bs) \<in> set ws. length bs \<le> n"
  shows "poll_all (length ws) n d' = ws"
  using send_all_wire [OF assms(1,3)] poll_all_wire [of d' n] assms(2,4) by auto

end

end
