(* ===== verification/Hyf_Window.thy ===== *)
theory Hyf_Window
  imports Hyf_Prelude
begin

text \<open>
  The bounded duplicate-suppression window that the router's seen cache and the bridge runtime's
  dedupe set share: a ring of slots with a next-write index, filled from the front and then
  overwritten oldest first. \<open>ring_window\<close> reads the ring as the list of remembered keys,
  oldest first; the locale \<open>dedupe_window\<close> is the contract both components promise and proves
  how long a key is remembered.
\<close>

definition ring_inv :: "'k option list \<Rightarrow> nat \<Rightarrow> bool" where
  "ring_inv slots next_ix \<longleftrightarrow>
     (if slots = [] then next_ix = 0
      else next_ix < length slots \<and> distinct (flatten slots) \<and>
        ((\<forall>slot \<in> set slots. slot \<noteq> None) \<or>
         (\<exists>xs. slots = map Some xs @ replicate (length slots - length xs) None \<and> next_ix = length xs)))"

definition ring_window :: "'k option list \<Rightarrow> nat \<Rightarrow> 'k list" where
  "ring_window slots next_ix = flatten (drop next_ix slots) @ flatten (take next_ix slots)"

lemma set_ring_window: "set (ring_window slots n) = set (flatten slots)"
proof -
  have "flatten slots = flatten (take n slots) @ flatten (drop n slots)"
    by (metis append_take_drop_id flatten_append)
  then show ?thesis by (auto simp: ring_window_def simp del: set_flatten)
qed

lemma length_ring_window: "length (ring_window slots n) = length (flatten slots)"
proof -
  have "flatten slots = flatten (take n slots) @ flatten (drop n slots)"
    by (metis append_take_drop_id flatten_append)
  then show ?thesis by (simp add: ring_window_def)
qed

lemma ring_empty: "ring_inv (replicate n None) 0" "ring_window (replicate n None) 0 = []"
proof -
  show "ring_inv (replicate n None) 0"
    by (cases n) (auto simp: ring_inv_def intro!: exI [of _ "[]"] simp del: replicate_Suc)
qed (simp add: ring_window_def)

lemma ring_partial:
  assumes "ring_inv slots n" and "None \<in> set slots"
  obtains xs m where "slots = map Some xs @ None # replicate m None" "n = length xs"
proof -
  from assms obtain xs where xs: "slots = map Some xs @ replicate (length slots - length xs) None"
    "n = length xs"
    by (auto simp: ring_inv_def split: if_splits)
  have "length slots - length xs \<noteq> 0"
  proof
    assume "length slots - length xs = 0"
    with xs(1) have "slots = map Some xs" by simp
    with assms(2) show False by auto
  qed
  then obtain m where "length slots - length xs = Suc m" by (cases "length slots - length xs") auto
  with xs that [of xs m] show thesis by simp
qed

lemma position_first_None: "position is_none (map Some xs @ None # ys) = Some (length xs)"
  by (induction xs) auto

lemma ring_free_position:
  assumes "ring_inv slots n" and "position is_none slots = Some i"
  shows "i = n"
proof -
  from assms(2) have "None \<in> set slots"
    by (metis (mono_tags, lifting) nth_mem position_length position_nth)
  from ring_partial [OF assms(1) this] obtain xs m where
    "slots = map Some xs @ None # replicate m None" "n = length xs"
    by blast
  with assms(2) position_first_None [of xs "replicate m None"] show ?thesis by simp
qed

lemma ring_put:
  assumes "ring_inv slots n" and "slots \<noteq> []" and "k \<notin> set (flatten slots)"
  shows "ring_inv (slots[n := Some k]) ((n + 1) mod length slots)"
    and "ring_window (slots[n := Some k]) ((n + 1) mod length slots) =
      (if length (ring_window slots n) = length slots then tl (ring_window slots n)
       else ring_window slots n) @ [k]"
proof -
  from assms(1,2) have n: "n < length slots" and d: "distinct (flatten slots)"
    by (auto simp: ring_inv_def)
  let ?a = "take n slots" and ?b = "drop (Suc n) slots"
  have split: "slots = ?a @ slots ! n # ?b" using n by (rule id_take_nth_drop)
  have upd: "slots[n := Some k] = ?a @ Some k # ?b" using n by (rule upd_conv_take_nth_drop)
  have win: "ring_window slots n = (case slots ! n of None \<Rightarrow> [] | Some x \<Rightarrow> [x]) @ flatten ?b @ flatten ?a"
    using n by (simp add: ring_window_def Cons_nth_drop_Suc [symmetric] split: option.splits)
  have next_ix: "(n + 1) mod length slots = (if Suc n = length slots then 0 else Suc n)"
    using n by simp
  have win': "ring_window (slots[n := Some k]) ((n + 1) mod length slots) = flatten ?b @ flatten ?a @ [k]"
  proof (cases "Suc n = length slots")
    case True
    then show ?thesis unfolding next_ix upd by (simp add: ring_window_def)
  next
    case False
    with n show ?thesis unfolding next_ix upd ring_window_def by (simp add: min_def)
  qed
  have full: "length (ring_window slots n) = length slots \<longleftrightarrow> (\<forall>slot \<in> set slots. slot \<noteq> None)"
    unfolding length_ring_window position_None_full [symmetric] by auto
  have distinct': "distinct (flatten (slots[n := Some k]))"
  proof -
    have "distinct (flatten (?a @ slots ! n # ?b))" using d split by simp
    moreover have "k \<notin> set (flatten ?a)" "k \<notin> set (flatten ?b)"
      using assms(3) by (auto dest: in_set_takeD in_set_dropD)
    ultimately show ?thesis unfolding upd by (auto split: option.splits simp del: set_flatten)
  qed
  show "ring_inv (slots[n := Some k]) ((n + 1) mod length slots)"
  proof (cases "\<forall>slot \<in> set slots. slot \<noteq> None")
    case True
    then have "\<forall>slot \<in> set (slots[n := Some k]). slot \<noteq> None"
      using set_update_subset_insert [of slots n "Some k"] by auto
    with distinct' assms(2) n show ?thesis by (auto simp: ring_inv_def)
  next
    case False
    then have "None \<in> set slots" by auto
    from ring_partial [OF assms(1) this] obtain xs m where
      m: "slots = map Some xs @ None # replicate m None" "n = length xs"
      by blast
    then have upd': "slots[n := Some k] = map Some (xs @ [k]) @ replicate m None"
      by (simp add: list_update_append)
    have len: "length slots = Suc (length xs + m)" using m(1) by simp
    show ?thesis
    proof (cases m)
      case 0
      with upd' have "\<forall>slot \<in> set (slots[n := Some k]). slot \<noteq> None" by auto
      with distinct' assms(2) n show ?thesis by (auto simp: ring_inv_def)
    next
      case (Suc m')
      then have "(n + 1) mod length slots = length (xs @ [k])" using len m(2) by simp
      moreover have "slots[n := Some k] =
          map Some (xs @ [k]) @ replicate (length (slots[n := Some k]) - length (xs @ [k])) None"
        using upd' len by simp
      moreover have "length (xs @ [k]) < length (slots[n := Some k])" using Suc len by simp
      ultimately show ?thesis
        using distinct' assms(2) unfolding ring_inv_def by (simp only: list_update_nonempty if_False) blast
    qed
  qed
  show "ring_window (slots[n := Some k]) ((n + 1) mod length slots) =
      (if length (ring_window slots n) = length slots then tl (ring_window slots n)
       else ring_window slots n) @ [k]"
  proof (cases "slots ! n")
    case None
    then have "\<not> (\<forall>slot \<in> set slots. slot \<noteq> None)" using n nth_mem by metis
    with None win win' full show ?thesis by (simp only: if_False option.case append_Nil append_assoc)
  next
    case (Some x)
    have "None \<notin> set slots"
    proof
      assume "None \<in> set slots"
      from ring_partial [OF assms(1) this] obtain xs m where
        "slots = map Some xs @ None # replicate m None" "n = length xs"
        by blast
      with Some show False by (simp add: nth_append)
    qed
    then have "\<forall>slot \<in> set slots. slot \<noteq> None" by metis
    with Some win win' full show ?thesis by simp
  qed
qed

section \<open>The window contract\<close>

text \<open>
  Remembering a new key appends it and, when the window is full, forgets the oldest one;
  remembering a known key changes nothing. A key is therefore still known after any run of fewer
  than \<open>cap\<close> further operations.
\<close>

locale dedupe_window =
  fixes inv :: "'s \<Rightarrow> bool"
    and cap :: "'s \<Rightarrow> nat"
    and window :: "'s \<Rightarrow> 'k list"
    and knows :: "'s \<Rightarrow> 'k \<Rightarrow> bool"
    and remember :: "'k \<Rightarrow> 's \<Rightarrow> 's"
  assumes window_distinct: "inv s \<Longrightarrow> distinct (window s) \<and> length (window s) \<le> cap s"
    and knows_iff: "inv s \<Longrightarrow> knows s k \<longleftrightarrow> k \<in> set (window s)"
    and remember_inv: "inv s \<Longrightarrow> 0 < cap s \<Longrightarrow> inv (remember k s) \<and> cap (remember k s) = cap s"
    and remember_known: "inv s \<Longrightarrow> knows s k \<Longrightarrow> remember k s = s"
    and remember_new: "inv s \<Longrightarrow> 0 < cap s \<Longrightarrow> \<not> knows s k \<Longrightarrow>
      window (remember k s) = (if length (window s) = cap s then tl (window s) else window s) @ [k]"
begin

lemma remember_knows: "inv s \<Longrightarrow> 0 < cap s \<Longrightarrow> knows (remember k s) k"
  using remember_inv [of s k] remember_new [of s k] remember_known [of s k]
  by (cases "knows s k") (auto simp: knows_iff)

lemma fold_remember_inv:
  "inv s \<Longrightarrow> 0 < cap s \<Longrightarrow> inv (fold remember ks s) \<and> cap (fold remember ks s) = cap s"
  by (induction ks arbitrary: s) (auto simp: remember_inv)

lemma remember_age:
  assumes "inv s" and "window s = as @ k # bs" and "length bs + 1 < cap s"
  shows "\<exists>as' bs'. window (remember j s) = as' @ k # bs' \<and> length bs' \<le> length bs + 1"
proof (cases "knows s j")
  case True
  with remember_known [OF assms(1) True] assms(2) show ?thesis
    by (intro exI [of _ as] exI [of _ bs]) simp
next
  case False
  from assms(3) have "0 < cap s" by simp
  from remember_new [OF assms(1) this False] assms(2,3) show ?thesis
    by (intro exI [of _ "if length (window s) = cap s then tl as else as"] exI [of _ "bs @ [j]"])
       (cases as; auto)
qed

lemma fold_remember_age:
  assumes "inv s" and "window s = as @ k # bs" and "length bs + length js < cap s"
  shows "knows (fold remember js s) k"
  using assms
proof (induction js arbitrary: s as bs)
  case Nil
  then show ?case by (simp add: knows_iff)
next
  case (Cons j js)
  then have "length bs + 1 < cap s" by simp
  from remember_age [OF Cons.prems(1,2) this, of j] obtain as' bs' where
    "window (remember j s) = as' @ k # bs'" "length bs' \<le> length bs + 1"
    by blast
  moreover from Cons.prems have "inv (remember j s) \<and> cap (remember j s) = cap s"
    by (simp add: remember_inv)
  ultimately show ?case using Cons.IH [of "remember j s" as' bs'] Cons.prems(3) by simp
qed

lemma remembered_for_capacity:
  assumes "inv s" and "\<not> knows s k" and "length js < cap s"
  shows "knows (fold remember js (remember k s)) k"
proof -
  from assms(3) have cap: "0 < cap s" by simp
  from remember_new [OF assms(1) cap assms(2)] remember_inv [OF assms(1) cap] assms(3)
  show ?thesis using fold_remember_age [of "remember k s" _ k "[]" js] by auto
qed

end

end
