(* ===== verification/Hyf_Router.thy ===== *)
theory Hyf_Router
  imports Hyf_Wire Hyf_Link Hyf_Window
begin

text \<open>
  The crate \<open>hyf_router\<close>: the pure routing state machine
  (\<open>src/crates/hyf_router/src/{event,policy,error,command,router}.rs\<close>).
  \<open>Router<MAX_LINKS, MAX_SEEN>\<close> is the record \<open>router\<close>, whose link and seen arrays have
  those lengths. A handler takes the caller's command buffer and returns the outcome (the number
  of commands written), the buffer and the router. The lemmas give the router's invariant (links
  and seen keys distinct, ring index in range), that no handler panics, and what it may emit.
\<close>

section \<open>Events, policy, commands\<close>

datatype router_event =
    LinkEvent link_event
  | LocalSubmit hyf_envelope
  | Tick timestamp_ms

definition ROUTER_LOCAL_COMMUNITY_CAPACITY :: usize where
  "ROUTER_LOCAL_COMMUNITY_CAPACITY = 8"

record router_policy =
  local_node_id :: node_id
  local_communities :: "community_id option list"

definition is_local_community :: "router_policy \<Rightarrow> community_id \<Rightarrow> bool" where
  "is_local_community policy community \<longleftrightarrow>
     (\<exists>configured \<in> set (local_communities policy). is_some_and (\<lambda>c. c = community) configured)"

datatype router_error =
    RouterOutputTooSmall usize usize
  | TooManyLinks usize
  | RouterInvalidEnvelope hyf_wire_error

definition ROUTER_COMMAND_CAPACITY :: usize where
  "ROUTER_COMMAND_CAPACITY = 16"

datatype drop_reason =
    DropDuplicate | DropExpired | HopLimitExhausted | DropInvalidEnvelope | MalformedFrame | NoRoute

datatype router_store_command =
    Put hyf_envelope
  | Remove message_id
  | ExpireBefore timestamp_ms

datatype router_command =
    SendTo link_id hyf_envelope
  | StoreCmd router_store_command
  | Drop message_id drop_reason
  | DropFrame link_id drop_reason
  | DeliverLocal hyf_envelope

section \<open>State\<close>

record link_state =
  ls_link_id :: link_id
  ls_up :: bool

datatype seen_destination = MessageOnly | SeenCommunity community_id

record router_seen_key =
  sk_destination :: seen_destination
  sk_message_id :: message_id

record router =
  rt_policy :: router_policy
  rt_now_ms :: timestamp_ms
  rt_links :: "link_state option list"
  rt_seen :: "router_seen_key option list"
  rt_next_seen :: usize

definition router_new :: "usize \<Rightarrow> usize \<Rightarrow> router_policy \<Rightarrow> router" where
  "router_new max_links max_seen policy =
     \<lparr>rt_policy = policy, rt_now_ms = TimestampMs 0, rt_links = replicate max_links None,
      rt_seen = replicate max_seen None, rt_next_seen = 0\<rparr>"

definition seen_key_for :: "hyf_envelope \<Rightarrow> router_seen_key" where
  "seen_key_for e =
     \<lparr>sk_destination =
        (case env_destination e of
           Community community \<Rightarrow> SeenCommunity community
         | Node _ \<Rightarrow> MessageOnly
         | Foreign _ \<Rightarrow> MessageOnly),
      sk_message_id = env_message_id e\<rparr>"

definition has_seen :: "router \<Rightarrow> router_seen_key \<Rightarrow> bool" where
  "has_seen r key \<longleftrightarrow> (\<exists>seen \<in> set (rt_seen r). is_some_and (\<lambda>existing. existing = key) seen)"

definition mark_seen :: "router_seen_key \<Rightarrow> router \<Rightarrow> (unit, router_error) result \<times> router" where
  "mark_seen key r =
     (let max_seen = length (rt_seen r) in
      if max_seen = 0 then (Ok (), r)
      else case position is_none (rt_seen r) of
        Some index \<Rightarrow>
          (Ok (), r\<lparr>rt_seen := (rt_seen r)[index := Some key],
                   rt_next_seen := (index + 1) mod max_seen\<rparr>)
      | None \<Rightarrow>
          (case set_at (rt_seen r) (rt_next_seen r) (Some key) of
             Ok seen \<Rightarrow> (Ok (), r\<lparr>rt_seen := seen, rt_next_seen := (rt_next_seen r + 1) mod max_seen\<rparr>)
           | Err err \<Rightarrow> (Err err, r)
           | Panic \<Rightarrow> (Panic, r)))"

definition commit_seen :: "hyf_envelope \<Rightarrow> router \<Rightarrow> (unit, router_error) result \<times> router" where
  "commit_seen e r =
     (let key = seen_key_for e in if \<not> has_seen r key then mark_seen key r else (Ok (), r))"

definition is_local_destination :: "router \<Rightarrow> hyf_destination \<Rightarrow> bool" where
  "is_local_destination r d =
     (case d of Node node \<Rightarrow> node = local_node_id (rt_policy r) | _ \<Rightarrow> False)"

section \<open>Links\<close>

definition find_link_index :: "router \<Rightarrow> link_id \<Rightarrow> usize option" where
  "find_link_index r link = position (is_some_and (\<lambda>s. ls_link_id s = link)) (rt_links r)"

definition set_link_state :: "link_id \<Rightarrow> bool \<Rightarrow> (router, unit, router_error) stm" where
  "set_link_state link up r =
     (case find_link_index r link of
        Some index \<Rightarrow>
          (Ok (), r\<lparr>rt_links := (rt_links r)[index := Some \<lparr>ls_link_id = link, ls_up = up\<rparr>]\<rparr>)
      | None \<Rightarrow>
          if \<not> up then (Ok (), r)
          else case position is_none (rt_links r) of
            None \<Rightarrow> (Err (TooManyLinks (length (rt_links r))), r)
          | Some index \<Rightarrow>
              (Ok (), r\<lparr>rt_links := (rt_links r)[index := Some \<lparr>ls_link_id = link, ls_up = up\<rparr>]\<rparr>))"

definition usable :: "link_id option \<Rightarrow> link_state \<Rightarrow> bool" where
  "usable ingress link \<longleftrightarrow> ls_up link \<and> Some (ls_link_id link) \<noteq> ingress"

definition first_up_link_except :: "router \<Rightarrow> link_id option \<Rightarrow> link_id option" where
  "first_up_link_except r ingress =
     map_option ls_link_id (find (usable ingress) (flatten (rt_links r)))"

definition up_link_count_except :: "router \<Rightarrow> link_id option \<Rightarrow> usize" where
  "up_link_count_except r ingress = length (filter (usable ingress) (flatten (rt_links r)))"

section \<open>Emitting commands\<close>

type_synonym emitted = "(usize, router_error) result \<times> router_command list"

definition emit :: "router_command list \<Rightarrow> router_command \<Rightarrow> emitted" where
  "emit out command =
     (if out = [] then (Err (RouterOutputTooSmall 0 1), out) else (Ok 1, out[0 := command]))"

definition invalid_envelope_drop_reason :: "hyf_wire_error \<Rightarrow> drop_reason option" where
  "invalid_envelope_drop_reason err =
     (case err of InvalidExpiry \<Rightarrow> Some DropExpired | _ \<Rightarrow> None)"

definition envelope_for_next_hop :: "hyf_envelope \<Rightarrow> link_id option \<Rightarrow> (hyf_envelope, drop_reason) result" where
  "envelope_for_next_hop e ingress =
     (case ingress of
        None \<Rightarrow> if env_hop_limit e = 0 then Err HopLimitExhausted else Ok e
      | Some _ \<Rightarrow>
          if env_hop_limit e \<le> 1 then Err HopLimitExhausted
          else Ok (e\<lparr>env_hop_limit := env_hop_limit e - 1\<rparr>))"

text \<open>
  The two rejection helpers return \<open>Some count\<close> when they emitted a drop, \<open>None\<close> to go on.
\<close>

definition some_count :: "emitted \<Rightarrow> (usize option, router_error) result \<times> router_command list" where
  "some_count p = (rbind (fst p) (\<lambda>n. Ok (Some n)), snd p)"

definition reject_invalid_or_expired ::
  "router \<Rightarrow> hyf_envelope \<Rightarrow> router_command list \<Rightarrow>
   (usize option, router_error) result \<times> router_command list" where
  "reject_invalid_or_expired r e out =
     (case validate_envelope e of
        Err err \<Rightarrow>
          (case invalid_envelope_drop_reason err of
             Some reason \<Rightarrow> some_count (emit out (Drop (env_message_id e) reason))
           | None \<Rightarrow> (Err (RouterInvalidEnvelope err), out))
      | Panic \<Rightarrow> (Panic, out)
      | Ok _ \<Rightarrow>
          if ms (env_expires_at_ms e) \<le> ms (rt_now_ms r)
          then some_count (emit out (Drop (env_message_id e) DropExpired))
          else (Ok None, out))"

definition reject_terminal_envelope ::
  "router \<Rightarrow> hyf_envelope \<Rightarrow> router_command list \<Rightarrow>
   (usize option, router_error) result \<times> router_command list" where
  "reject_terminal_envelope r e out =
     (case validate_envelope e of
        Err err \<Rightarrow>
          (case invalid_envelope_drop_reason err of
             Some reason \<Rightarrow> some_count (emit out (Drop (env_message_id e) reason))
           | None \<Rightarrow> (Err (RouterInvalidEnvelope err), out))
      | Panic \<Rightarrow> (Panic, out)
      | Ok _ \<Rightarrow>
          if ms (env_expires_at_ms e) \<le> ms (rt_now_ms r)
          then some_count (emit out (Drop (env_message_id e) DropExpired))
          else if env_hop_limit e = 0
          then some_count (emit out (Drop (env_message_id e) HopLimitExhausted))
          else (Ok None, out))"

text \<open>The fan-out loop: one \<open>Send\<close> per usable link, written at index \<open>n\<close> and up.\<close>

fun fan_out ::
  "link_id option \<Rightarrow> hyf_envelope \<Rightarrow> link_state list \<Rightarrow> usize \<Rightarrow> router_command list \<Rightarrow> emitted" where
  "fan_out ingress outbound [] n out = (Ok n, out)"
| "fan_out ingress outbound (link # links) n out =
     (if usable ingress link
      then case set_at out n (SendTo (ls_link_id link) outbound) of
        Ok out' \<Rightarrow> fan_out ingress outbound links (n + 1) out'
      | Err err \<Rightarrow> (Err err, out)
      | Panic \<Rightarrow> (Panic, out)
      else fan_out ingress outbound links n out)"

text \<open>
  Local delivery first, then the fan-out. Both community handlers are this block; they differ in
  the ingress link, in the envelope sent on and in what happens when nothing is required.
\<close>

definition deliver_and_fan_out ::
  "router \<Rightarrow> bool \<Rightarrow> hyf_envelope \<Rightarrow> link_id option \<Rightarrow> hyf_envelope \<Rightarrow> router_command list \<Rightarrow> emitted" where
  "deliver_and_fan_out r local_delivery e ingress outbound out =
     (if local_delivery
      then case set_at out 0 (DeliverLocal e) of
        Ok out' \<Rightarrow> fan_out ingress outbound (flatten (rt_links r)) 1 out'
      | Err err \<Rightarrow> (Err err, out)
      | Panic \<Rightarrow> (Panic, out)
      else fan_out ingress outbound (flatten (rt_links r)) 0 out)"

definition emit_community_fallback :: "hyf_envelope \<Rightarrow> link_id option \<Rightarrow> router_command list \<Rightarrow> emitted" where
  "emit_community_fallback e ingress out =
     (if ingress = None then emit out (StoreCmd (Put e))
      else emit out (Drop (env_message_id e) NoRoute))"

definition handle_community_envelope ::
  "router \<Rightarrow> hyf_envelope \<Rightarrow> community_id \<Rightarrow> link_id option \<Rightarrow> router_command list \<Rightarrow> emitted" where
  "handle_community_envelope r e community ingress out =
     (if ingress \<noteq> None \<and> env_hop_limit e \<le> 1
      then emit out (Drop (env_message_id e) HopLimitExhausted)
      else
        let local_delivery = (is_local_community (rt_policy r) community \<and> \<not> has_seen r (seen_key_for e));
            send_count = up_link_count_except r ingress;
            required = (if local_delivery then 1 else 0) + send_count
        in if required = 0 then emit_community_fallback e ingress out
           else if length out < required then (Err (RouterOutputTooSmall (length out) required), out)
           else deliver_and_fan_out r local_delivery e ingress
             (case ingress of Some _ \<Rightarrow> e\<lparr>env_hop_limit := env_hop_limit e - 1\<rparr> | None \<Rightarrow> e) out)"

definition forward_stored_community ::
  "router \<Rightarrow> hyf_envelope \<Rightarrow> community_id \<Rightarrow> router_command list \<Rightarrow> emitted" where
  "forward_stored_community r e community out =
     (let local_delivery = (is_local_community (rt_policy r) community \<and> \<not> has_seen r (seen_key_for e));
          send_count = up_link_count_except r None;
          required = (if local_delivery then 1 else 0) + send_count
      in if required = 0 then (Ok 0, out)
         else if length out < required then (Err (RouterOutputTooSmall (length out) required), out)
         else deliver_and_fan_out r local_delivery e None e out)"

section \<open>Handlers\<close>

text \<open>The early return of a rejection helper, or the rest of the handler.\<close>

definition unless_rejected ::
  "(usize option, router_error) result \<times> router_command list \<Rightarrow> (router_command list \<Rightarrow> emitted) \<Rightarrow> emitted" where
  "unless_rejected p rest =
     (case fst p of
        Ok (Some n) \<Rightarrow> (Ok n, snd p)
      | Ok None \<Rightarrow> rest (snd p)
      | Err err \<Rightarrow> (Err err, snd p)
      | Panic \<Rightarrow> (Panic, snd p))"

definition handle_envelope :: "router \<Rightarrow> hyf_envelope \<Rightarrow> link_id option \<Rightarrow> router_command list \<Rightarrow> emitted" where
  "handle_envelope r e ingress out =
     unless_rejected (reject_invalid_or_expired r e out) (\<lambda>out.
       if has_seen r (seen_key_for e) then emit out (Drop (env_message_id e) DropDuplicate)
       else case env_destination e of
         Community community \<Rightarrow> handle_community_envelope r e community ingress out
       | _ \<Rightarrow>
           if is_local_destination r (env_destination e) then emit out (DeliverLocal e)
           else case envelope_for_next_hop e ingress of
             Err reason \<Rightarrow> emit out (Drop (env_message_id e) reason)
           | Panic \<Rightarrow> (Panic, out)
           | Ok outbound \<Rightarrow>
               (case first_up_link_except r ingress of
                  Some link \<Rightarrow> emit out (SendTo link outbound)
                | None \<Rightarrow> emit out (StoreCmd (Put outbound))))"

definition handle_frame :: "router \<Rightarrow> link_frame \<Rightarrow> router_command list \<Rightarrow> emitted" where
  "handle_frame r frame out =
     (case decode_envelope (frame_bytes frame) of
        Ok e \<Rightarrow> handle_envelope r e (Some (frame_link_id frame)) out
      | Err _ \<Rightarrow> emit out (DropFrame (frame_link_id frame) MalformedFrame)
      | Panic \<Rightarrow> (Panic, out))"

definition handle_event ::
  "router_event \<Rightarrow> router_command list \<Rightarrow> router \<Rightarrow> emitted \<times> router" where
  "handle_event event out r =
     (case event of
        LinkEvent (Up link) \<Rightarrow>
          (case set_link_state link True r of (res, r') \<Rightarrow> ((rbind res (\<lambda>_. Ok 0), out), r'))
      | LinkEvent (Down link) \<Rightarrow>
          (case set_link_state link False r of (res, r') \<Rightarrow> ((rbind res (\<lambda>_. Ok 0), out), r'))
      | LinkEvent (Frame frame) \<Rightarrow> (handle_frame r frame out, r)
      | LocalSubmit e \<Rightarrow> (handle_envelope r e None out, r)
      | Tick now \<Rightarrow> (emit out (StoreCmd (ExpireBefore now)), r\<lparr>rt_now_ms := now\<rparr>))"

definition forward_stored :: "router \<Rightarrow> hyf_envelope \<Rightarrow> router_command list \<Rightarrow> emitted" where
  "forward_stored r e out =
     unless_rejected (reject_terminal_envelope r e out) (\<lambda>out.
       case env_destination e of
         Community community \<Rightarrow> forward_stored_community r e community out
       | _ \<Rightarrow>
           if is_local_destination r (env_destination e)
           then if has_seen r (seen_key_for e)
                then emit out (Drop (env_message_id e) DropDuplicate)
                else emit out (DeliverLocal e)
           else case first_up_link_except r None of
             Some link \<Rightarrow> emit out (SendTo link e)
           | None \<Rightarrow> (Ok 0, out))"

section \<open>Routing decisions\<close>

text \<open>
  The buffer handling is the same everywhere: the handlers decide on a list of commands and write
  all of it or report the missing room. \<open>emits\<close> is that behaviour, \<open>envelope_commands\<close> and
  \<open>stored_commands\<close> are the decisions.
\<close>

definition emits :: "router_command list \<Rightarrow> router_command list \<Rightarrow> emitted" where
  "emits cmds out =
     (if length out < length cmds then (Err (RouterOutputTooSmall (length out) (length cmds)), out)
      else (Ok (length cmds), cmds @ drop (length cmds) out))"

definition community_commands ::
  "router \<Rightarrow> hyf_envelope \<Rightarrow> community_id \<Rightarrow> link_id option \<Rightarrow> hyf_envelope \<Rightarrow> router_command list" where
  "community_commands r e community ingress outbound =
     (if is_local_community (rt_policy r) community \<and> \<not> has_seen r (seen_key_for e)
      then [DeliverLocal e] else []) @
     map (\<lambda>l. SendTo (ls_link_id l) outbound) (filter (usable ingress) (flatten (rt_links r)))"

definition next_hop_envelope :: "hyf_envelope \<Rightarrow> link_id option \<Rightarrow> hyf_envelope" where
  "next_hop_envelope e ingress =
     (case ingress of None \<Rightarrow> e | Some _ \<Rightarrow> e\<lparr>env_hop_limit := env_hop_limit e - 1\<rparr>)"

definition live_commands :: "router \<Rightarrow> hyf_envelope \<Rightarrow> link_id option \<Rightarrow> router_command list" where
  "live_commands r e ingress =
     (if has_seen r (seen_key_for e) then [Drop (env_message_id e) DropDuplicate]
      else case env_destination e of
        Community community \<Rightarrow>
          if ingress \<noteq> None \<and> env_hop_limit e \<le> 1 then [Drop (env_message_id e) HopLimitExhausted]
          else
            let cmds = community_commands r e community ingress (next_hop_envelope e ingress)
            in if cmds \<noteq> [] then cmds
               else [if ingress = None then StoreCmd (Put e) else Drop (env_message_id e) NoRoute]
      | _ \<Rightarrow>
          if is_local_destination r (env_destination e) then [DeliverLocal e]
          else if env_hop_limit e \<le> (if ingress = None then 0 else 1)
            then [Drop (env_message_id e) HopLimitExhausted]
          else case first_up_link_except r ingress of
            Some link \<Rightarrow> [SendTo link (next_hop_envelope e ingress)]
          | None \<Rightarrow> [StoreCmd (Put (next_hop_envelope e ingress))])"

definition admit ::
  "router \<Rightarrow> hyf_envelope \<Rightarrow> router_command list \<Rightarrow> (router_command list, router_error) result" where
  "admit r e cmds =
     (case validate_envelope e of
        Err InvalidExpiry \<Rightarrow> Ok [Drop (env_message_id e) DropExpired]
      | Err err \<Rightarrow> Err (RouterInvalidEnvelope err)
      | Panic \<Rightarrow> Panic
      | Ok _ \<Rightarrow>
          if ms (env_expires_at_ms e) \<le> ms (rt_now_ms r) then Ok [Drop (env_message_id e) DropExpired]
          else Ok cmds)"

definition envelope_commands ::
  "router \<Rightarrow> hyf_envelope \<Rightarrow> link_id option \<Rightarrow> (router_command list, router_error) result" where
  "envelope_commands r e ingress = admit r e (live_commands r e ingress)"

definition stored_commands :: "router \<Rightarrow> hyf_envelope \<Rightarrow> (router_command list, router_error) result" where
  "stored_commands r e =
     admit r e
       (if env_hop_limit e = 0 then [Drop (env_message_id e) HopLimitExhausted]
        else case env_destination e of
          Community community \<Rightarrow> community_commands r e community None e
        | _ \<Rightarrow>
            if is_local_destination r (env_destination e)
            then [if has_seen r (seen_key_for e) then Drop (env_message_id e) DropDuplicate
                  else DeliverLocal e]
            else case first_up_link_except r None of Some link \<Rightarrow> [SendTo link e] | None \<Rightarrow> [])"

definition emits_result :: "(router_command list, router_error) result \<Rightarrow> router_command list \<Rightarrow> emitted" where
  "emits_result d out =
     (case d of Ok cmds \<Rightarrow> emits cmds out | Err err \<Rightarrow> (Err err, out) | Panic \<Rightarrow> (Panic, out))"

lemma emit_emits: "emit out c = emits [c] out"
  by (cases out) (simp_all add: emit_def emits_def)

lemma emits_Nil: "(Ok 0, out) = emits [] out"
  by (simp add: emits_def)

lemma fan_out_writes:
  "n + length (filter (usable ingress) links) \<le> length out \<Longrightarrow>
   fan_out ingress outbound links n out =
     (let cmds = map (\<lambda>l. SendTo (ls_link_id l) outbound) (filter (usable ingress) links)
      in (Ok (n + length cmds), take n out @ cmds @ drop (n + length cmds) out))"
proof (induction links arbitrary: n out)
  case (Cons link links)
  show ?case
  proof (cases "usable ingress link")
    case True
    let ?c = "SendTo (ls_link_id link) outbound"
    from True Cons.prems have n: "n < length out" by simp
    then have "take (Suc n) (out[n := ?c]) = take n out @ [?c]"
      by (simp add: take_Suc_conv_app_nth)
    with True n Cons.prems Cons.IH [of "n + 1" "out[n := ?c]"] show ?thesis
      by (simp add: set_at_def Let_def)
  qed (use Cons in simp)
qed simp

lemma deliver_and_fan_out_emits:
  assumes "cmds = (if b then [DeliverLocal e] else []) @
      map (\<lambda>l. SendTo (ls_link_id l) outbound) (filter (usable ingress) (flatten (rt_links r)))"
    and "length cmds \<le> length out"
  shows "deliver_and_fan_out r b e ingress outbound out = emits cmds out"
proof (cases b)
  case True
  with assms have "out \<noteq> []" by auto
  then obtain x xs where "out = x # xs" by (cases out) auto
  with True assms show ?thesis
    by (simp add: deliver_and_fan_out_def set_at_def fan_out_writes emits_def Let_def)
next
  case False
  with assms show ?thesis
    by (simp add: deliver_and_fan_out_def fan_out_writes emits_def Let_def)
qed

lemma handle_community_emits:
  assumes "\<not> (ingress \<noteq> None \<and> env_hop_limit e \<le> 1)"
  shows "handle_community_envelope r e community ingress out =
    (let cmds = community_commands r e community ingress (next_hop_envelope e ingress)
     in emits (if cmds \<noteq> [] then cmds
       else [if ingress = None then StoreCmd (Put e) else Drop (env_message_id e) NoRoute]) out)"
proof -
  let ?b = "is_local_community (rt_policy r) community \<and> \<not> has_seen r (seen_key_for e)"
  let ?cmds = "community_commands r e community ingress (next_hop_envelope e ingress)"
  have len: "length ?cmds = (if ?b then 1 else 0) + up_link_count_except r ingress"
    by (simp add: community_commands_def up_link_count_except_def)
  have ob: "(case ingress of Some _ \<Rightarrow> e\<lparr>env_hop_limit := env_hop_limit e - 1\<rparr> | None \<Rightarrow> e) =
      next_hop_envelope e ingress"
    by (simp add: next_hop_envelope_def split: option.splits)
  show ?thesis
  proof (cases "length ?cmds \<le> length out \<and> ?cmds \<noteq> []")
    case True
    with deliver_and_fan_out_emits [of ?cmds ?b e "next_hop_envelope e ingress" ingress r out] assms
    show ?thesis
      unfolding handle_community_envelope_def Let_def ob len [symmetric]
      by (auto simp: community_commands_def)
  next
    case False
    with assms show ?thesis
      unfolding handle_community_envelope_def Let_def ob len [symmetric]
      by (auto simp: emits_def emit_community_fallback_def emit_emits)
  qed
qed

lemma forward_stored_community_emits:
  "forward_stored_community r e community out = emits (community_commands r e community None e) out"
proof -
  let ?b = "is_local_community (rt_policy r) community \<and> \<not> has_seen r (seen_key_for e)"
  let ?cmds = "community_commands r e community None e"
  have len: "length ?cmds = (if ?b then 1 else 0) + up_link_count_except r None"
    by (simp add: community_commands_def up_link_count_except_def)
  show ?thesis
    using deliver_and_fan_out_emits [of ?cmds ?b e e None r out]
    unfolding forward_stored_community_def Let_def len [symmetric]
    by (auto simp: community_commands_def emits_def)
qed

lemma unless_rejected_emit:
  "unless_rejected (some_count (emit out c)) rest = emits [c] out"
  by (simp add: unless_rejected_def some_count_def emit_emits emits_def)

lemma unless_rejected_simps:
  "unless_rejected (Ok None, out) rest = rest out" "unless_rejected (Err err, out) rest = (Err err, out)"
  by (simp_all add: unless_rejected_def)

lemma rejected_admit:
  assumes "rest out = emits cmds out"
  shows "unless_rejected (reject_invalid_or_expired r e out) rest = emits_result (admit r e cmds) out"
proof (cases "validate_envelope e")
  case (Err err)
  then show ?thesis
    by (cases err) (simp_all add: reject_invalid_or_expired_def admit_def emits_result_def
        invalid_envelope_drop_reason_def unless_rejected_emit unless_rejected_simps)
qed (use assms in \<open>simp_all add: reject_invalid_or_expired_def admit_def emits_result_def
        unless_rejected_emit unless_rejected_simps\<close>)

lemma terminal_admit:
  assumes "rest out = emits cmds out"
  shows "unless_rejected (reject_terminal_envelope r e out) rest =
    emits_result (admit r e (if env_hop_limit e = 0 then [Drop (env_message_id e) HopLimitExhausted]
      else cmds)) out"
proof (cases "validate_envelope e")
  case (Err err)
  then show ?thesis
    by (cases err) (simp_all add: reject_terminal_envelope_def admit_def emits_result_def
        invalid_envelope_drop_reason_def unless_rejected_emit unless_rejected_simps)
qed (use assms in \<open>simp_all add: reject_terminal_envelope_def admit_def emits_result_def
        unless_rejected_emit unless_rejected_simps\<close>)

lemma handle_envelope_emits:
  "handle_envelope r e ingress out = emits_result (envelope_commands r e ingress) out"
  unfolding handle_envelope_def envelope_commands_def
proof (rule rejected_admit)
  have unicast: "(case envelope_for_next_hop e ingress of
         Err reason \<Rightarrow> emit out (Drop (env_message_id e) reason)
       | Panic \<Rightarrow> (Panic, out)
       | Ok outbound \<Rightarrow>
           (case first_up_link_except r ingress of
              Some link \<Rightarrow> emit out (SendTo link outbound)
            | None \<Rightarrow> emit out (StoreCmd (Put outbound)))) =
      emits (if env_hop_limit e \<le> (if ingress = None then 0 else 1)
             then [Drop (env_message_id e) HopLimitExhausted]
             else case first_up_link_except r ingress of
               Some link \<Rightarrow> [SendTo link (next_hop_envelope e ingress)]
             | None \<Rightarrow> [StoreCmd (Put (next_hop_envelope e ingress))]) out"
    by (cases ingress; cases "first_up_link_except r ingress")
       (simp_all add: envelope_for_next_hop_def next_hop_envelope_def emit_emits)
  show "(if has_seen r (seen_key_for e) then emit out (Drop (env_message_id e) DropDuplicate)
       else case env_destination e of
         Community community \<Rightarrow> handle_community_envelope r e community ingress out
       | _ \<Rightarrow>
           if is_local_destination r (env_destination e) then emit out (DeliverLocal e)
           else case envelope_for_next_hop e ingress of
             Err reason \<Rightarrow> emit out (Drop (env_message_id e) reason)
           | Panic \<Rightarrow> (Panic, out)
           | Ok outbound \<Rightarrow>
               (case first_up_link_except r ingress of
                  Some link \<Rightarrow> emit out (SendTo link outbound)
                | None \<Rightarrow> emit out (StoreCmd (Put outbound)))) =
      emits (live_commands r e ingress) out"
  proof (cases "env_destination e")
    case (Community c)
    show ?thesis
    proof (cases "ingress \<noteq> None \<and> env_hop_limit e \<le> 1")
      case True
      with Community show ?thesis
        by (simp add: live_commands_def emit_emits handle_community_envelope_def)
    next
      case False
      with Community handle_community_emits [OF False] show ?thesis
        by (auto simp: live_commands_def emit_emits Let_def)
    qed
  qed (simp_all add: live_commands_def emit_emits unicast)
qed

lemma forward_stored_emits: "forward_stored r e out = emits_result (stored_commands r e) out"
  unfolding forward_stored_def stored_commands_def
proof (rule terminal_admit)
  show "(case env_destination e of
         Community community \<Rightarrow> forward_stored_community r e community out
       | _ \<Rightarrow>
           if is_local_destination r (env_destination e)
           then if has_seen r (seen_key_for e)
                then emit out (Drop (env_message_id e) DropDuplicate)
                else emit out (DeliverLocal e)
           else case first_up_link_except r None of
             Some link \<Rightarrow> emit out (SendTo link e)
           | None \<Rightarrow> (Ok 0, out)) =
      emits (case env_destination e of
          Community community \<Rightarrow> community_commands r e community None e
        | _ \<Rightarrow>
            if is_local_destination r (env_destination e)
            then [if has_seen r (seen_key_for e) then Drop (env_message_id e) DropDuplicate
                  else DeliverLocal e]
            else case first_up_link_except r None of Some link \<Rightarrow> [SendTo link e] | None \<Rightarrow> []) out"
    by (cases "env_destination e"; cases "first_up_link_except r None")
       (simp_all add: emit_emits forward_stored_community_emits emits_Nil)
qed

section \<open>The router's invariant\<close>

definition router_inv :: "router \<Rightarrow> bool" where
  "router_inv r \<longleftrightarrow> distinct (map ls_link_id (flatten (rt_links r))) \<and>
     ring_inv (rt_seen r) (rt_next_seen r)"

definition seen_window :: "router \<Rightarrow> router_seen_key list" where
  "seen_window r = ring_window (rt_seen r) (rt_next_seen r)"

lemma router_new_inv: "router_inv (router_new l n p)"
  by (simp add: router_inv_def router_new_def ring_empty)

lemma is_some_and_eq: "is_some_and p x \<longleftrightarrow> (\<exists>a. x = Some a \<and> p a)"
  by (cases x) auto

lemma has_seen_window: "has_seen r k \<longleftrightarrow> k \<in> set (seen_window r)"
  by (auto simp: has_seen_def seen_window_def set_ring_window is_some_and_eq)

lemma mark_seen_ring:
  assumes "ring_inv (rt_seen r) (rt_next_seen r)" and "rt_seen r \<noteq> []"
  shows "mark_seen k r = (Ok (), r\<lparr>rt_seen := (rt_seen r)[rt_next_seen r := Some k],
    rt_next_seen := (rt_next_seen r + 1) mod length (rt_seen r)\<rparr>)"
proof (cases "position is_none (rt_seen r)")
  case None
  moreover have "rt_next_seen r < length (rt_seen r)" using assms by (auto simp: ring_inv_def)
  ultimately show ?thesis using assms(2)
    by (simp add: mark_seen_def Let_def set_at_def del: position_eq_None)
next
  case (Some i)
  with ring_free_position [OF assms(1) Some] assms(2) show ?thesis
    by (simp add: mark_seen_def Let_def del: position_eq_None)
qed

lemma commit_seen_cases:
  assumes "router_inv r"
  shows "commit_seen e r =
    (Ok (), if has_seen r (seen_key_for e) \<or> rt_seen r = [] then r
      else r\<lparr>rt_seen := (rt_seen r)[rt_next_seen r := Some (seen_key_for e)],
             rt_next_seen := (rt_next_seen r + 1) mod length (rt_seen r)\<rparr>)"
  using assms mark_seen_ring [of r "seen_key_for e"]
  by (cases "rt_seen r = []") (auto simp: commit_seen_def Let_def router_inv_def mark_seen_def)

text \<open>The seen cache as a dedupe window; \<open>remember\<close> is the router state after the commit.\<close>

definition remember_key :: "router_seen_key \<Rightarrow> router \<Rightarrow> router" where
  "remember_key k r = (if has_seen r k then r else snd (mark_seen k r))"

lemma commit_seen_remember: "snd (commit_seen e r) = remember_key (seen_key_for e) r"
  by (simp add: commit_seen_def remember_key_def Let_def)

interpretation seen_cache: dedupe_window router_inv "\<lambda>r. length (rt_seen r)" seen_window has_seen remember_key
proof unfold_locales
  fix r :: router and k
  assume inv: "router_inv r"
  then have ring: "ring_inv (rt_seen r) (rt_next_seen r)" by (simp add: router_inv_def)
  have eq: "mset (seen_window r) = mset (flatten (rt_seen r))"
  proof -
    have "flatten (rt_seen r) = flatten (take (rt_next_seen r) (rt_seen r)) @ flatten (drop (rt_next_seen r) (rt_seen r))"
      by (metis append_take_drop_id flatten_append)
    then show ?thesis by (simp add: seen_window_def ring_window_def)
  qed
  have "distinct (flatten (rt_seen r))" using ring by (auto simp: ring_inv_def split: if_splits)
  with eq show "distinct (seen_window r) \<and> length (seen_window r) \<le> length (rt_seen r)"
    using mset_eq_imp_distinct_iff [OF eq] mset_eq_length [OF eq] length_flatten_le [of "rt_seen r"] by simp
  show "has_seen r k \<longleftrightarrow> k \<in> set (seen_window r)" by (rule has_seen_window)
  show "has_seen r k \<Longrightarrow> remember_key k r = r" by (simp add: remember_key_def)
  assume cap: "0 < length (rt_seen r)"
  then have ne: "rt_seen r \<noteq> []" by auto
  have new: "k \<notin> set (flatten (rt_seen r))" if "\<not> has_seen r k"
    using that by (auto simp: has_seen_def)
  show "router_inv (remember_key k r) \<and> length (rt_seen (remember_key k r)) = length (rt_seen r)"
    using inv new ring_put(1) [OF ring ne] mark_seen_ring [OF ring ne, of k]
    by (auto simp: remember_key_def router_inv_def)
  show "seen_window (remember_key k r) =
      (if length (seen_window r) = length (rt_seen r) then tl (seen_window r) else seen_window r) @ [k]"
    if "\<not> has_seen r k"
    using that ring_put(2) [OF ring ne new [OF that]] mark_seen_ring [OF ring ne, of k]
    by (simp add: remember_key_def seen_window_def)
qed

lemma commit_seen_inv:
  assumes "router_inv r"
  shows "\<exists>r'. commit_seen e r = (Ok (), r') \<and> router_inv r' \<and> rt_policy r' = rt_policy r \<and>
    rt_now_ms r' = rt_now_ms r \<and> rt_links r' = rt_links r \<and> length (rt_seen r') = length (rt_seen r)"
proof (cases "has_seen r (seen_key_for e) \<or> rt_seen r = []")
  case True
  with assms commit_seen_cases [OF assms, of e] show ?thesis by auto
next
  case False
  then have "router_inv (snd (commit_seen e r))"
    using seen_cache.remember_inv [OF assms, of "seen_key_for e"] by (simp add: commit_seen_remember)
  with False show ?thesis by (simp add: commit_seen_cases [OF assms])
qed

lemma find_link_index_Some:
  assumes "find_link_index r link = Some i"
  obtains s where "i < length (rt_links r)" "rt_links r ! i = Some s" "ls_link_id s = link"
proof -
  have "is_some_and (\<lambda>s. ls_link_id s = link) (rt_links r ! i)"
    using assms unfolding find_link_index_def by (rule position_nth)
  moreover have "i < length (rt_links r)"
    using assms unfolding find_link_index_def by (rule position_length)
  ultimately show thesis using that by (auto simp: is_some_and_eq)
qed

lemma find_link_index_None:
  "find_link_index r link = None \<longleftrightarrow> link \<notin> ls_link_id ` set (flatten (rt_links r))"
  by (auto simp: find_link_index_def is_some_and_eq image_iff)

lemma ids_update_same:
  assumes "i < length xs" and "xs ! i = Some s" and "ls_link_id s = ls_link_id s'"
  shows "map ls_link_id (flatten (xs[i := Some s'])) = map ls_link_id (flatten xs)"
proof -
  have "xs = take i xs @ Some s # drop (Suc i) xs" using assms id_take_nth_drop by fastforce
  then have "map ls_link_id (flatten xs) =
      map ls_link_id (flatten (take i xs @ Some s # drop (Suc i) xs))" by simp
  then show ?thesis using assms by (simp add: upd_conv_take_nth_drop)
qed

lemma set_link_state_inv:
  assumes "router_inv r" and "set_link_state link up r = (res, r')"
  shows "router_inv r' \<and> rt_policy r' = rt_policy r \<and> rt_now_ms r' = rt_now_ms r \<and>
    rt_seen r' = rt_seen r \<and> length (rt_links r') = length (rt_links r) \<and> res \<noteq> Panic"
proof (cases "find_link_index r link")
  case None
  show ?thesis
  proof (cases "position is_none (rt_links r)")
    case (Some i)
    let ?new = "Some \<lparr>ls_link_id = link, ls_up = up\<rparr>"
    have "mset (map ls_link_id (flatten ((rt_links r)[i := ?new]))) =
        mset (link # map ls_link_id (flatten (rt_links r)))"
      using mset_flatten_put [OF Some, of "\<lparr>ls_link_id = link, ls_up = up\<rparr>"] by simp
    moreover have "distinct (link # map ls_link_id (flatten (rt_links r)))"
      using None assms(1) by (simp add: find_link_index_None router_inv_def)
    ultimately have "distinct (map ls_link_id (flatten ((rt_links r)[i := ?new])))"
      using mset_eq_imp_distinct_iff by blast
    with None Some assms show ?thesis
      by (auto simp: set_link_state_def router_inv_def simp del: position_eq_None split: if_splits)
  qed (use None assms in \<open>auto simp: set_link_state_def simp del: position_eq_None split: if_splits\<close>)
next
  case (Some i)
  from find_link_index_Some [OF Some] obtain s where
    "i < length (rt_links r)" "rt_links r ! i = Some s" "ls_link_id s = link"
    by blast
  with ids_update_same [of i "rt_links r" s "\<lparr>ls_link_id = link, ls_up = up\<rparr>"] Some assms show ?thesis
    by (auto simp: set_link_state_def router_inv_def)
qed

section \<open>What a handler may emit\<close>

lemma admit_no_panic: "admit r e cmds \<noteq> Panic"
  using validate_envelope_no_panic [of e]
  by (auto simp: admit_def split: result.splits hyf_wire_error.splits)

text \<open>
  \<open>fits out p\<close>: the outcome \<open>p\<close> of a handler run on the buffer \<open>out\<close> is not a panic,
  keeps the buffer's length, counts at most that many commands, and an error leaves the buffer
  untouched.
\<close>

definition fits :: "router_command list \<Rightarrow> emitted \<Rightarrow> bool" where
  "fits out p \<longleftrightarrow> fst p \<noteq> Panic \<and> length (snd p) = length out \<and>
     (\<forall>n. fst p = Ok n \<longrightarrow> n \<le> length out) \<and> (\<forall>err. fst p = Err err \<longrightarrow> snd p = out)"

lemma emits_result_fits: "d \<noteq> Panic \<Longrightarrow> fits out (emits_result d out)"
  by (auto simp: fits_def emits_result_def emits_def split: result.splits)

lemma emit_fits: "fits out (emit out c)"
  by (cases out) (auto simp: fits_def emit_def)

lemma handle_envelope_fits: "fits out (handle_envelope r e ingress out)"
  by (simp add: handle_envelope_emits envelope_commands_def admit_no_panic emits_result_fits)

lemma forward_stored_fits: "fits out (forward_stored r e out)"
  by (simp add: forward_stored_emits stored_commands_def admit_no_panic emits_result_fits)

lemma handle_frame_fits: "fits out (handle_frame r f out)"
  by (cases "decode_envelope (frame_bytes f)")
     (simp_all add: handle_frame_def handle_envelope_fits emit_fits decode_envelope_no_panic)

lemma set_link_state_fits:
  assumes "router_inv r" and "set_link_state link up r = (res, r')"
  shows "fits out (rbind res (\<lambda>_. Ok 0), out)"
  using set_link_state_inv [OF assms] by (cases res) (auto simp: fits_def)

lemma handle_event_fits:
  assumes "router_inv r"
  shows "fits out (fst (handle_event event out r))"
  using assms set_link_state_fits [OF assms]
  by (auto simp: handle_event_def handle_frame_fits handle_envelope_fits emit_fits
      split: router_event.splits link_event.splits prod.splits)

lemma handle_event_state:
  assumes "router_inv r" and "handle_event event out r = (p, r')"
  shows "router_inv r' \<and> rt_policy r' = rt_policy r \<and> rt_seen r' = rt_seen r \<and>
    length (rt_links r') = length (rt_links r)"
proof (cases event)
  case (LinkEvent l)
  with assms set_link_state_inv [OF assms(1)] show ?thesis
    by (cases l) (auto simp: handle_event_def split: prod.splits)
qed (use assms in \<open>auto simp: handle_event_def router_inv_def\<close>)

lemma first_up_link_except_Some:
  assumes "first_up_link_except r ingress = Some link"
  shows "\<exists>s \<in> set (flatten (rt_links r)). usable ingress s \<and> ls_link_id s = link"
  using assms by (auto simp: first_up_link_except_def find_Some_iff simp del: set_flatten)

text \<open>The commands a live envelope gives: sends go over usable links, with the next hop's envelope.\<close>

lemma live_commands_send:
  assumes "SendTo link e' \<in> set (live_commands r e ingress)"
  shows "\<not> has_seen r (seen_key_for e) \<and> e' = next_hop_envelope e ingress \<and>
    (ingress \<noteq> None \<longrightarrow> 1 < env_hop_limit e) \<and>
    (\<exists>s \<in> set (flatten (rt_links r)). usable ingress s \<and> ls_link_id s = link)"
  using assms first_up_link_except_Some [of r ingress link]
  by (auto simp: live_commands_def community_commands_def Let_def not_le
      split: if_splits hyf_destination.splits option.splits)

lemma emits_result_commands:
  assumes "emits_result d out = (Ok n, out')"
  shows "d = Ok (take n out')"
  using assms by (auto simp: emits_result_def emits_def split: result.splits if_splits)

lemma admit_Ok_send:
  assumes "admit r e cmds = Ok cs" and "SendTo link e' \<in> set cs"
  shows "cs = cmds \<and> validate_envelope e = Ok () \<and> ms (rt_now_ms r) < ms (env_expires_at_ms e)"
  using assms by (auto simp: admit_def not_le split: result.splits hyf_wire_error.splits if_splits)

lemma stored_commands_shape:
  assumes "stored_commands r e = Ok cs" and "c \<in> set cs"
  shows "(\<exists>reason. c = Drop (env_message_id e) reason) \<or> c = DeliverLocal e \<or> (\<exists>link. c = SendTo link e)"
  using assms
  by (auto simp: stored_commands_def admit_def community_commands_def
      split: if_splits hyf_destination.splits option.splits result.splits hyf_wire_error.splits)

lemma fold_commit_seen:
  "fold (\<lambda>e r. snd (commit_seen e r)) es r = fold remember_key (map seen_key_for es) r"
  by (induction es arbitrary: r) (simp_all add: commit_seen_remember)

lemma fold_commit_seen_keeps:
  assumes "router_inv r"
  shows "router_inv (fold (\<lambda>e r. snd (commit_seen e r)) es r) \<and>
    rt_now_ms (fold (\<lambda>e r. snd (commit_seen e r)) es r) = rt_now_ms r"
  using assms
proof (induction es arbitrary: r)
  case (Cons e es)
  from commit_seen_inv [OF Cons.prems, of e] Cons.IH [of "snd (commit_seen e r)"] show ?case by auto
qed simp

section \<open>Properties\<close>

text \<open>A run of the router: events handled with any buffers, and deliveries committed.\<close>

datatype router_op = HandleEvent router_event "router_command list" | CommitSeen hyf_envelope

fun router_step :: "router_op \<Rightarrow> router \<Rightarrow> router" where
  "router_step (HandleEvent event out) r = snd (handle_event event out r)"
| "router_step (CommitSeen e) r = snd (commit_seen e r)"

lemma router_step_inv:
  assumes "router_inv r"
  shows "router_inv (router_step op r) \<and> rt_policy (router_step op r) = rt_policy r \<and>
    length (rt_links (router_step op r)) = length (rt_links r) \<and>
    length (rt_seen (router_step op r)) = length (rt_seen r)"
proof (cases op)
  case (HandleEvent event out)
  with handle_event_state [OF assms, of event out "fst (handle_event event out r)"] show ?thesis by simp
next
  case (CommitSeen e)
  with commit_seen_inv [OF assms, of e] show ?thesis by auto
qed

lemma router_run_inv:
  "router_inv r \<Longrightarrow> router_inv (fold router_step ops r) \<and> rt_policy (fold router_step ops r) = rt_policy r \<and>
    length (rt_links (fold router_step ops r)) = length (rt_links r) \<and>
    length (rt_seen (fold router_step ops r)) = length (rt_seen r)"
  by (induction ops arbitrary: r) (simp_all add: router_step_inv)

text \<open>
  C15. In every state the router can reach, by any sequence of events and commits, its invariant
  holds (each link recorded once, seen keys distinct, ring index in range), its capacities and
  policy are unchanged, no handler panics, every count it returns is within the caller's buffer,
  an error leaves that buffer untouched, and committing a delivered envelope succeeds.
\<close>

theorem router_run_safe:
  "let r = fold router_step ops (router_new max_links max_seen policy) in
     router_inv r \<and> length (rt_links r) = max_links \<and> length (rt_seen r) = max_seen \<and>
     rt_policy r = policy \<and> fits out (fst (handle_event event out r)) \<and>
     fits out (forward_stored r e out) \<and> fst (commit_seen e r) = Ok ()"
proof -
  let ?r = "fold router_step ops (router_new max_links max_seen policy)"
  have inv: "router_inv ?r" and keeps: "length (rt_links ?r) = max_links" "length (rt_seen ?r) = max_seen"
    "rt_policy ?r = policy"
    using router_run_inv [OF router_new_inv, of ops max_links max_seen policy]
    by (simp_all add: router_new_def)
  from commit_seen_inv [OF inv, of e] have "fst (commit_seen e ?r) = Ok ()" by auto
  with inv keeps show ?thesis by (simp add: Let_def handle_event_fits forward_stored_fits)
qed

text \<open>
  C16. A handler decides on a list of commands and then writes all of them or none: for a live
  envelope and for a stored one the code equals the decision table followed by one bounded write.
\<close>

theorem router_refines_decisions:
  "handle_envelope r e ingress out = emits_result (envelope_commands r e ingress) out \<and>
   forward_stored r e out = emits_result (stored_commands r e) out"
  by (simp add: handle_envelope_emits forward_stored_emits)

text \<open>
  C5. A frame is forwarded only if it decodes to an unexpired, unseen envelope; it never goes back
  over the link it came from, only over links that are up, and the forwarded copy is the envelope
  with its hop limit reduced by exactly one, to a value that is still positive.
\<close>

theorem forwarded_frame_safe:
  assumes "handle_frame r frame out = (Ok n, out')" and "SendTo link e' \<in> set (take n out')"
  shows "\<exists>e. decode_envelope (frame_bytes frame) = Ok e \<and> \<not> has_seen r (seen_key_for e) \<and>
    ms (rt_now_ms r) < ms (env_expires_at_ms e) \<and> link \<noteq> frame_link_id frame \<and>
    (\<exists>s. Some s \<in> set (rt_links r) \<and> ls_up s \<and> ls_link_id s = link) \<and>
    0 < unat (env_hop_limit e') \<and> unat (env_hop_limit e) = unat (env_hop_limit e') + 1 \<and>
    e' = e\<lparr>env_hop_limit := env_hop_limit e'\<rparr>"
proof (cases "decode_envelope (frame_bytes frame)")
  case (Ok e)
  let ?in = "Some (frame_link_id frame)"
  from Ok assms(1) have "emits_result (envelope_commands r e ?in) out = (Ok n, out')"
    by (simp add: handle_frame_def handle_envelope_emits)
  then have d: "admit r e (live_commands r e ?in) = Ok (take n out')"
    by (simp add: emits_result_commands envelope_commands_def)
  from admit_Ok_send [OF d assms(2)] assms(2)
  have fresh: "ms (rt_now_ms r) < ms (env_expires_at_ms e)"
    and send: "SendTo link e' \<in> set (live_commands r e ?in)"
    by auto
  from live_commands_send [OF send] have e': "e' = e\<lparr>env_hop_limit := env_hop_limit e - 1\<rparr>"
    and hop: "1 < env_hop_limit e" and new: "\<not> has_seen r (seen_key_for e)"
    and link: "\<exists>s \<in> set (flatten (rt_links r)). usable ?in s \<and> ls_link_id s = link"
    by (simp_all add: next_hop_envelope_def)
  have "unat (env_hop_limit e - 1) = unat (env_hop_limit e) - 1"
    using hop by (intro unat_minus_one) auto
  moreover have "1 < unat (env_hop_limit e)" using hop by (simp add: word_less_nat_alt)
  ultimately show ?thesis using Ok fresh new link e' by (auto simp: usable_def)
next
  case (Err err)
  with assms have False by (cases out) (auto simp: handle_frame_def emit_def)
  then show ?thesis ..
next
  case Panic
  then show ?thesis by (simp add: decode_envelope_no_panic)
qed

text \<open>A router with three links up, the middle one being where the sample frames arrive.\<close>

definition sample_link :: "u8 \<Rightarrow> link_id" where
  "sample_link n = LinkId (replicate 16 n)"

definition sample_router :: router where
  "sample_router = fold router_step
     [HandleEvent (LinkEvent (Up (sample_link 1))) [], HandleEvent (LinkEvent (Up (sample_link 2))) [],
      HandleEvent (LinkEvent (Up (sample_link 3))) []]
     (router_new 4 4 \<lparr>local_node_id = NodeId (replicate 32 7),
        local_communities = [Some (CommunityId (replicate 16 85)), None]\<rparr>)"

definition sample_frame :: "hyf_envelope \<Rightarrow> link_frame" where
  "sample_frame e = \<lparr>frame_link_id = sample_link 2, frame_received_at_ms = TimestampMs 120,
     frame_bytes = envelope_bytes e\<rparr>"

lemma sample_router_eq:
  "sample_router = \<lparr>rt_policy = \<lparr>local_node_id = NodeId (replicate 32 7),
        local_communities = [Some (CommunityId (replicate 16 85)), None]\<rparr>,
     rt_now_ms = TimestampMs 0,
     rt_links = [Some \<lparr>ls_link_id = sample_link 1, ls_up = True\<rparr>,
       Some \<lparr>ls_link_id = sample_link 2, ls_up = True\<rparr>,
       Some \<lparr>ls_link_id = sample_link 3, ls_up = True\<rparr>, None],
     rt_seen = [None, None, None, None], rt_next_seen = 0\<rparr>"
  by (simp add: sample_router_def router_new_def handle_event_def set_link_state_def
      find_link_index_def sample_link_def numeral_eq_Suc)

lemma sample_router_inv: "router_inv sample_router"
  unfolding sample_router_def by (intro router_run_inv [THEN conjunct1] router_new_inv)

lemma decode_sample_frame:
  "wf_destination d \<Longrightarrow>
   decode_envelope (frame_bytes (sample_frame (sample_envelope d hops))) = Ok (sample_envelope d hops)"
  by (simp add: sample_frame_def decode_encode sample_envelope_wf sample_envelope_valid)

lemma sample_router_fresh: "\<not> has_seen sample_router k"
  by (simp add: has_seen_def sample_router_eq)

lemma sample_envelope_fields [simp]:
  "env_destination (sample_envelope d hops) = d" "env_hop_limit (sample_envelope d hops) = hops"
  "(sample_envelope d hops)\<lparr>env_hop_limit := hops'\<rparr> = sample_envelope d hops'"
  "env_expires_at_ms (sample_envelope d hops) = TimestampMs 200"
  by (simp_all add: sample_envelope_def)

lemma sample_router_forwards:
  "handle_frame sample_router (sample_frame (sample_envelope (Node (NodeId (replicate 32 68))) 9))
     [DropFrame (sample_link 0) NoRoute] =
   (Ok 1, [SendTo (sample_link 1) (sample_envelope (Node (NodeId (replicate 32 68))) 8)])"
proof -
  let ?e = "sample_envelope (Node (NodeId (replicate 32 68))) 9"
  have "first_up_link_except sample_router (Some (sample_link 2)) = Some (sample_link 1)"
    by (simp add: first_up_link_except_def sample_router_eq usable_def sample_link_def)
  moreover have "\<not> is_local_destination sample_router (Node (NodeId (replicate 32 68)))"
    by (simp add: is_local_destination_def sample_router_eq)
  ultimately have "live_commands sample_router ?e (Some (sample_link 2)) =
      [SendTo (sample_link 1) (sample_envelope (Node (NodeId (replicate 32 68))) 8)]"
    by (simp add: live_commands_def sample_router_fresh next_hop_envelope_def word_le_nat_alt)
  moreover have "decode_envelope (frame_bytes (sample_frame ?e)) = Ok ?e"
    by (rule decode_sample_frame) (simp add: wf_defs)
  moreover have "ms (rt_now_ms sample_router) < ms (env_expires_at_ms ?e)"
    by (simp add: sample_router_eq)
  ultimately show ?thesis
    by (simp add: handle_frame_def handle_envelope_emits envelope_commands_def admit_def
        sample_envelope_valid emits_result_def emits_def sample_frame_def)
qed

theorem forwarded_frame_safe_witness:
  "let frame = sample_frame (sample_envelope (Node (NodeId (replicate 32 68))) 9) in
     \<exists>e. decode_envelope (frame_bytes frame) = Ok e \<and> \<not> has_seen sample_router (seen_key_for e) \<and>
       sample_link 1 \<noteq> frame_link_id frame \<and>
       unat (env_hop_limit e) = unat (env_hop_limit (sample_envelope (Node (NodeId (replicate 32 68))) 8)) + 1"
  using forwarded_frame_safe [OF sample_router_forwards, of "sample_link 1"
      "sample_envelope (Node (NodeId (replicate 32 68))) 8"]
  by (auto simp: Let_def)

lemma set_sends:
  "{link. \<exists>e'. SendTo link e' \<in> set (community_commands r e community ingress outbound)} =
   {ls_link_id s | s. Some s \<in> set (rt_links r) \<and> ls_up s \<and> Some (ls_link_id s) \<noteq> ingress}"
  by (auto simp: community_commands_def usable_def)

lemma distinct_community_commands:
  assumes "router_inv r"
  shows "distinct (community_commands r e community ingress outbound)"
proof -
  have "distinct (map ls_link_id (filter (usable ingress) (flatten (rt_links r))))"
    using assms by (simp add: router_inv_def distinct_map_filter)
  then have "distinct (map (\<lambda>link. SendTo link outbound)
      (map ls_link_id (filter (usable ingress) (flatten (rt_links r)))))"
    by (subst distinct_map) (auto simp: inj_on_def)
  then show ?thesis by (auto simp: community_commands_def comp_def)
qed

lemma deliver_in_community_commands:
  "DeliverLocal e' \<in> set (community_commands r e community ingress outbound) \<longleftrightarrow>
     e' = e \<and> is_local_community (rt_policy r) community \<and> \<not> has_seen r (seen_key_for e)"
  by (auto simp: community_commands_def)

lemma community_commands_length:
  "length (community_commands r e community ingress outbound) \<le> length (rt_links r) + 1"
proof -
  have "length (filter (usable ingress) (flatten (rt_links r))) \<le> length (rt_links r)"
    using length_filter_le length_flatten_le by (rule order_trans)
  then show ?thesis by (auto simp: community_commands_def)
qed

text \<open>
  C12. A community frame that is live, new and has hops left reaches every other link that is up
  exactly once, and is delivered locally exactly when the community is configured here; only if
  neither applies is it dropped for want of a route. A buffer of one more than the link capacity
  always suffices.
\<close>

theorem community_frame_reaches_all:
  assumes "router_inv r" and "decode_envelope (frame_bytes frame) = Ok e"
    and "env_destination e = Community community" and "\<not> has_seen r (seen_key_for e)"
    and "validate_envelope e = Ok ()" and "ms (rt_now_ms r) < ms (env_expires_at_ms e)"
    and "1 < env_hop_limit e" and "length (rt_links r) < length out"
  shows "\<exists>n out'. handle_frame r frame out = (Ok n, out') \<and> distinct (take n out') \<and>
    {link. \<exists>e'. SendTo link e' \<in> set (take n out')} =
      {ls_link_id s | s. Some s \<in> set (rt_links r) \<and> ls_up s \<and> ls_link_id s \<noteq> frame_link_id frame} \<and>
    (DeliverLocal e \<in> set (take n out') \<longleftrightarrow> is_local_community (rt_policy r) community) \<and>
    (Drop (env_message_id e) NoRoute \<in> set (take n out') \<longleftrightarrow>
      \<not> is_local_community (rt_policy r) community \<and>
      (\<forall>s. Some s \<in> set (rt_links r) \<longrightarrow> ls_up s \<longrightarrow> ls_link_id s = frame_link_id frame))"
proof -
  let ?in = "Some (frame_link_id frame)"
  define cs where "cs = community_commands r e community ?in (next_hop_envelope e ?in)"
  have sends: "{link. \<exists>e'. SendTo link e' \<in> set cs} =
      {ls_link_id s | s. Some s \<in> set (rt_links r) \<and> ls_up s \<and> ls_link_id s \<noteq> frame_link_id frame}"
    unfolding cs_def set_sends by auto
  have deliver: "DeliverLocal e \<in> set cs \<longleftrightarrow> is_local_community (rt_policy r) community"
    unfolding cs_def deliver_in_community_commands using assms(4) by simp
  have nodrop: "Drop m reason \<notin> set cs" for m reason by (auto simp: cs_def community_commands_def)
  have empty: "cs = [] \<longleftrightarrow> \<not> is_local_community (rt_policy r) community \<and>
      (\<forall>s. Some s \<in> set (rt_links r) \<longrightarrow> ls_up s \<longrightarrow> ls_link_id s = frame_link_id frame)"
    using assms(4) by (auto simp: cs_def community_commands_def usable_def filter_empty_conv)
  let ?all = "if cs \<noteq> [] then cs else [Drop (env_message_id e) NoRoute]"
  have "length ?all \<le> length out"
    using community_commands_length [of r e community ?in "next_hop_envelope e ?in"] assms(8)
    by (auto simp: cs_def)
  then have run: "handle_frame r frame out = (Ok (length ?all), ?all @ drop (length ?all) out)"
    using assms(2-7)
    by (auto simp: handle_frame_def handle_envelope_emits envelope_commands_def admit_def
        live_commands_def emits_result_def emits_def cs_def [symmetric] Let_def not_less
        split: if_splits)
  have "distinct ?all" using distinct_community_commands [OF assms(1)] by (simp add: cs_def)
  with run sends deliver nodrop empty show ?thesis by (cases "cs = []") auto
qed

theorem community_frame_reaches_all_witness:
  "let frame = sample_frame (sample_envelope (Community (CommunityId (replicate 16 85))) 3) in
     \<exists>n out'. handle_frame sample_router frame (replicate 5 (DropFrame (sample_link 0) NoRoute)) = (Ok n, out') \<and>
       {link. \<exists>e'. SendTo link e' \<in> set (take n out')} = {sample_link 1, sample_link 3} \<and>
       DeliverLocal (sample_envelope (Community (CommunityId (replicate 16 85))) 3) \<in> set (take n out')"
proof -
  let ?e = "sample_envelope (Community (CommunityId (replicate 16 85))) 3"
  let ?in = "frame_link_id (sample_frame ?e)"
  have dec: "decode_envelope (frame_bytes (sample_frame ?e)) = Ok ?e"
    by (rule decode_sample_frame) (simp add: wf_defs)
  have links: "{ls_link_id s | s. Some s \<in> set (rt_links sample_router) \<and> ls_up s \<and> ls_link_id s \<noteq> ?in} =
      {sample_link 1, sample_link 3}"
    unfolding setcompr_eq_image image_Collect [symmetric]
    by (force simp: sample_router_eq sample_frame_def sample_link_def image_iff)
  have loc: "is_local_community (rt_policy sample_router) (CommunityId (replicate 16 85))"
    by (simp add: is_local_community_def sample_router_eq)
  have now: "ms (rt_now_ms sample_router) < 200" "length (rt_links sample_router) = 4"
    by (simp_all add: sample_router_eq)
  show ?thesis
    using community_frame_reaches_all [OF sample_router_inv dec, of "CommunityId (replicate 16 85)"
        "replicate 5 (DropFrame (sample_link 0) NoRoute)"] now loc
    unfolding links by (auto simp: Let_def sample_router_fresh sample_envelope_valid)
qed

text \<open>
  C9. Duplicate suppression. Once a new envelope has been committed, any envelope with the same
  key that is valid and not expired and arrives while fewer than \<open>MAX_SEEN\<close> further deliveries
  have been committed is answered by exactly one command, its drop as a duplicate, whatever link it
  arrives on, when the command buffer has room for one.
\<close>

theorem duplicates_are_dropped:
  assumes "router_inv r" and "\<not> has_seen r (seen_key_for e)" and "length es < length (rt_seen r)"
    and "r' = fold (\<lambda>e r. snd (commit_seen e r)) es (snd (commit_seen e r))"
    and "seen_key_for e' = seen_key_for e" and "validate_envelope e' = Ok ()"
    and "ms (rt_now_ms r) < ms (env_expires_at_ms e')" and "out \<noteq> []"
  shows "handle_envelope r' e' ingress out =
    (Ok 1, out[0 := Drop (env_message_id e') DropDuplicate])"
proof -
  from seen_cache.remembered_for_capacity [OF assms(1,2), of "map seen_key_for es"] assms(3,4)
  have "has_seen r' (seen_key_for e)"
    unfolding fold_commit_seen by (simp add: commit_seen_remember)
  moreover have "rt_now_ms r' = rt_now_ms r"
    using fold_commit_seen_keeps [OF assms(1), of "e # es"] assms(4) by simp
  ultimately show ?thesis
    using assms(5-8)
    by (cases out) (simp_all add: handle_envelope_emits envelope_commands_def admit_def
        live_commands_def emits_result_def emits_def)
qed

theorem duplicates_are_dropped_witness:
  "let e = sample_envelope (Node (NodeId (replicate 32 68))) 9;
       r' = fold (\<lambda>e r. snd (commit_seen e r)) [sample_envelope (Community (CommunityId (replicate 16 85))) 3]
         (snd (commit_seen e sample_router))
   in handle_envelope r' e (Some (sample_link 3)) [DropFrame (sample_link 0) NoRoute] =
     (Ok 1, [Drop (env_message_id e) DropDuplicate])"
proof -
  let ?e = "sample_envelope (Node (NodeId (replicate 32 68))) 9"
  let ?es = "[sample_envelope (Community (CommunityId (replicate 16 85))) 3]"
  have now: "ms (rt_now_ms sample_router) < 200" "length (rt_seen sample_router) = 4"
    by (simp_all add: sample_router_eq)
  then show ?thesis
    using duplicates_are_dropped [OF sample_router_inv sample_router_fresh, of ?es _ ?e ?e
        "[DropFrame (sample_link 0) NoRoute]" "Some (sample_link 3)"]
    by (simp add: Let_def sample_envelope_valid del: fold_simps)
qed

end
