(* ===== verification/Hyf_Store.thy ===== *)
theory Hyf_Store
  imports Hyf_Wire "HOL-Library.Product_Lexorder"
begin

text \<open>
  The crate \<open>hyf_store\<close>: a bounded in-memory store of encoded envelopes
  (\<open>src/crates/hyf_store/src/{policy,error,store}.rs\<close>). \<open>Store<N, FRAME_MAX>\<close> is the record
  \<open>store\<close> whose slot list has length \<open>N\<close>; \<open>FRAME_MAX\<close> is an argument of the
  operations that use it. The lemmas give the invariant every operation keeps (distinct message
  ids, each slot a frame that decodes to the metadata beside it), the refinement to a finite map
  from message ids to frames, and the deterministic order of \<open>pending\<close> and
  \<open>first_pending\<close>.
\<close>

section \<open>Types\<close>

record store_policy =
  reject_expired_on_put :: bool

definition store_policy_new :: store_policy where
  "store_policy_new = \<lparr>reject_expired_on_put = True\<rparr>"

datatype store_error =
    Full
  | Duplicate
  | Expired
  | StoreFrameTooLarge usize usize
  | InvalidEnvelope hyf_wire_error
  | NotFound
  | StoreOutputTooSmall usize usize

record stored_frame =
  sf_message_id :: message_id
  sf_created_at_ms :: timestamp_ms
  sf_expires_at_ms :: timestamp_ms
  sf_bytes :: "u8 list"

record store_metadata =
  md_message_id :: message_id
  md_created_at_ms :: timestamp_ms
  md_expires_at_ms :: timestamp_ms

record store_record =
  sr_bytes :: "u8 list"
  sr_len :: usize
  sr_message_id :: message_id
  sr_created_at_ms :: timestamp_ms
  sr_expires_at_ms :: timestamp_ms

record store =
  st_policy :: store_policy
  st_records :: "store_record option list"

section \<open>Records and ordering\<close>

definition store_record_new :: "usize \<Rightarrow> u8 list \<Rightarrow> store_metadata \<Rightarrow> (store_record, store_error) result" where
  "store_record_new frame_max frame metadata =
     rbind (copy_at (replicate frame_max 0) 0 frame) (\<lambda>bytes.
       Ok \<lparr>sr_bytes = bytes, sr_len = length frame, sr_message_id = md_message_id metadata,
           sr_created_at_ms = md_created_at_ms metadata,
           sr_expires_at_ms = md_expires_at_ms metadata\<rparr>)"

definition record_as_ref :: "store_record \<Rightarrow> (stored_frame, store_error) result" where
  "record_as_ref r =
     rbind (slice_to (sr_bytes r) (sr_len r)) (\<lambda>bytes.
       Ok \<lparr>sf_message_id = sr_message_id r, sf_created_at_ms = sr_created_at_ms r,
           sf_expires_at_ms = sr_expires_at_ms r, sf_bytes = bytes\<rparr>)"

definition record_precedes :: "store_record \<Rightarrow> store_record \<Rightarrow> bool" where
  "record_precedes r existing \<longleftrightarrow>
     ms (sr_expires_at_ms r) < ms (sr_expires_at_ms existing) \<or>
     (ms (sr_expires_at_ms r) = ms (sr_expires_at_ms existing) \<and>
      ms (sr_created_at_ms r) < ms (sr_created_at_ms existing)) \<or>
     (ms (sr_expires_at_ms r) = ms (sr_expires_at_ms existing) \<and>
      ms (sr_created_at_ms r) = ms (sr_created_at_ms existing) \<and>
      message_id_bytes (sr_message_id r) < message_id_bytes (sr_message_id existing))"

definition frame_precedes :: "stored_frame \<Rightarrow> stored_frame \<Rightarrow> bool" where
  "frame_precedes r existing \<longleftrightarrow>
     ms (sf_expires_at_ms r) < ms (sf_expires_at_ms existing) \<or>
     (ms (sf_expires_at_ms r) = ms (sf_expires_at_ms existing) \<and>
      ms (sf_created_at_ms r) < ms (sf_created_at_ms existing)) \<or>
     (ms (sf_expires_at_ms r) = ms (sf_expires_at_ms existing) \<and>
      ms (sf_created_at_ms r) = ms (sf_created_at_ms existing) \<and>
      message_id_bytes (sf_message_id r) < message_id_bytes (sf_message_id existing))"

definition metadata_for :: "hyf_envelope \<Rightarrow> store_metadata" where
  "metadata_for e =
     \<lparr>md_message_id = env_message_id e, md_created_at_ms = env_created_at_ms e,
      md_expires_at_ms = env_expires_at_ms e\<rparr>"

definition is_expired_at_creation :: "hyf_envelope \<Rightarrow> bool" where
  "is_expired_at_creation e \<longleftrightarrow> ms (env_expires_at_ms e) \<le> ms (env_created_at_ms e)"

section \<open>Operations\<close>

definition store_new :: "usize \<Rightarrow> store_policy \<Rightarrow> store" where
  "store_new n policy = \<lparr>st_policy = policy, st_records = replicate n None\<rparr>"

definition store_len :: "store \<Rightarrow> usize" where
  "store_len s = length (filter (\<lambda>r. r \<noteq> None) (st_records s))"

definition store_is_empty :: "store \<Rightarrow> bool" where
  "store_is_empty s \<longleftrightarrow> store_len s = 0"

definition store_capacity :: "store \<Rightarrow> usize" where
  "store_capacity s = length (st_records s)"

definition find_index :: "store \<Rightarrow> message_id \<Rightarrow> usize option" where
  "find_index s mid = position (is_some_and (\<lambda>r. sr_message_id r = mid)) (st_records s)"

definition store_contains :: "store \<Rightarrow> message_id \<Rightarrow> bool" where
  "store_contains s mid \<longleftrightarrow> find_index s mid \<noteq> None"

definition first_free_index :: "store \<Rightarrow> usize option" where
  "first_free_index s = position is_none (st_records s)"

definition decode_error :: "store \<Rightarrow> hyf_wire_error \<Rightarrow> store_error" where
  "decode_error s err =
     (if reject_expired_on_put (st_policy s) \<and> err = InvalidExpiry then Expired
      else InvalidEnvelope err)"

definition put_valid_frame :: "usize \<Rightarrow> u8 list \<Rightarrow> store_metadata \<Rightarrow> (store, unit, store_error) stm" where
  "put_valid_frame frame_max frame metadata s =
     (if store_contains s (md_message_id metadata) then (Err Duplicate, s)
      else case first_free_index s of
        None \<Rightarrow> (Err Full, s)
      | Some index \<Rightarrow>
          (case store_record_new frame_max frame metadata of
             Ok r \<Rightarrow> (Ok (), s\<lparr>st_records := (st_records s)[index := Some r]\<rparr>)
           | Err err \<Rightarrow> (Err err, s)
           | Panic \<Rightarrow> (Panic, s)))"

definition put_envelope :: "usize \<Rightarrow> hyf_envelope \<Rightarrow> (store, unit, store_error) stm" where
  "put_envelope frame_max e s =
     (if reject_expired_on_put (st_policy s) \<and> is_expired_at_creation e then (Err Expired, s)
      else case map_err InvalidEnvelope (envelope_encoded_len e) of
        Err err \<Rightarrow> (Err err, s)
      | Panic \<Rightarrow> (Panic, s)
      | Ok required \<Rightarrow>
          if required > frame_max then (Err (StoreFrameTooLarge required frame_max), s)
          else (case encode_envelope e (replicate frame_max 0) of (res, frame) \<Rightarrow>
            (case rbind (map_err InvalidEnvelope res) (slice_to frame) of
               Ok bytes \<Rightarrow> put_valid_frame frame_max bytes (metadata_for e) s
             | Err err \<Rightarrow> (Err err, s)
             | Panic \<Rightarrow> (Panic, s))))"

definition put_frame :: "usize \<Rightarrow> u8 list \<Rightarrow> (store, unit, store_error) stm" where
  "put_frame frame_max frame s =
     (if length frame > frame_max then (Err (StoreFrameTooLarge (length frame) frame_max), s)
      else case map_err (decode_error s) (decode_envelope frame) of
        Ok e \<Rightarrow> put_valid_frame frame_max frame (metadata_for e) s
      | Err err \<Rightarrow> (Err err, s)
      | Panic \<Rightarrow> (Panic, s))"

definition store_remove :: "message_id \<Rightarrow> (store, unit, store_error) stm" where
  "store_remove mid s =
     (case find_index s mid of
        None \<Rightarrow> (Err NotFound, s)
      | Some index \<Rightarrow> (Ok (), s\<lparr>st_records := (st_records s)[index := None]\<rparr>))"

text \<open>The loop of \<open>expire_before\<close> over the slots, with its counter.\<close>

primrec expire_slots :: "u64 \<Rightarrow> store_record option list \<Rightarrow> usize \<Rightarrow> usize \<times> store_record option list" where
  "expire_slots now [] removed = (removed, [])"
| "expire_slots now (slot # slots) removed =
     (case slot of
        Some existing \<Rightarrow>
          if ms (sr_expires_at_ms existing) \<le> now
          then (case expire_slots now slots (removed + 1) of (n, rs) \<Rightarrow> (n, None # rs))
          else (case expire_slots now slots removed of (n, rs) \<Rightarrow> (n, slot # rs))
      | None \<Rightarrow> (case expire_slots now slots removed of (n, rs) \<Rightarrow> (n, slot # rs)))"

definition expire_before :: "timestamp_ms \<Rightarrow> store \<Rightarrow> usize \<times> store" where
  "expire_before now s =
     (case expire_slots (ms now) (st_records s) 0 of (removed, records) \<Rightarrow>
        (removed, s\<lparr>st_records := records\<rparr>))"

text \<open>
  \<open>insert_pending\<close>: shift the larger entries one place right, starting at \<open>index\<close>, then
  store the record.
\<close>

fun insert_pending :: "stored_frame list \<Rightarrow> usize \<Rightarrow> stored_frame \<Rightarrow> (stored_frame list, store_error) result" where
  "insert_pending out 0 r = set_at out 0 r"
| "insert_pending out (Suc i) r =
     rbind (get_at out i) (\<lambda>previous.
       if frame_precedes r previous
       then rbind (set_at out (Suc i) previous) (\<lambda>out'. insert_pending out' i r)
       else set_at out (Suc i) r)"

fun pending_loop ::
  "store_record list \<Rightarrow> usize \<Rightarrow> stored_frame list \<Rightarrow> (usize \<times> stored_frame list, store_error) result" where
  "pending_loop [] written out = Ok (written, out)"
| "pending_loop (r # rs) written out =
     rbind (record_as_ref r) (\<lambda>frame.
     rbind (insert_pending out written frame) (\<lambda>out'. pending_loop rs (written + 1) out'))"

definition pending :: "store \<Rightarrow> (stored_frame list, usize, store_error) stm" where
  "pending s out =
     (let count = store_len s in
      if length out < count then (Err (StoreOutputTooSmall (length out) count), out)
      else case pending_loop (flatten (st_records s)) 0 out of
        Ok (written, out') \<Rightarrow> (Ok written, out')
      | Err err \<Rightarrow> (Err err, out)
      | Panic \<Rightarrow> (Panic, out))"

text \<open>
  The scan of \<open>first_pending\<close>: \<open>selected\<close> is the index of the best slot so far. The outer
  \<open>None\<close> is the early return of \<open>as_ref()?\<close> on an empty slot.
\<close>

fun first_pending_scan ::
  "store_record option list \<Rightarrow> nat \<Rightarrow> store_record option list \<Rightarrow> nat option \<Rightarrow>
   (nat option option, store_error) result" where
  "first_pending_scan records index [] selected = Ok (Some selected)"
| "first_pending_scan records index (None # slots) selected =
     first_pending_scan records (Suc index) slots selected"
| "first_pending_scan records index (Some r # slots) selected =
     (case selected of
        Some existing \<Rightarrow>
          rbind (get_at records existing) (\<lambda>slot.
            case slot of
              None \<Rightarrow> Ok None
            | Some er \<Rightarrow>
                first_pending_scan records (Suc index) slots
                  (if \<not> record_precedes r er then Some existing else Some index))
      | None \<Rightarrow> first_pending_scan records (Suc index) slots (Some index))"

definition first_pending :: "store \<Rightarrow> (stored_frame option, store_error) result" where
  "first_pending s =
     rbind (first_pending_scan (st_records s) 0 (st_records s) None) (\<lambda>res.
       case res of
         None \<Rightarrow> Ok None
       | Some None \<Rightarrow> Ok None
       | Some (Some index) \<Rightarrow>
           rbind (get_at (st_records s) index) (\<lambda>slot.
             case slot of
               None \<Rightarrow> Ok None
             | Some r \<Rightarrow> rbind (record_as_ref r) (\<lambda>f. Ok (Some f))))"

section \<open>The invariant and the abstract store\<close>

text \<open>
  \<open>frame_of\<close> is the frame a slot exposes; \<open>lookup\<close> is the abstract store, a finite map
  from message ids to frames. The sort key makes the source's three-way comparison the
  lexicographic order on (expiry, creation, message id).
\<close>

definition frame_of :: "store_record \<Rightarrow> stored_frame" where
  "frame_of r =
     \<lparr>sf_message_id = sr_message_id r, sf_created_at_ms = sr_created_at_ms r,
      sf_expires_at_ms = sr_expires_at_ms r, sf_bytes = take (sr_len r) (sr_bytes r)\<rparr>"

definition stored_frames :: "store \<Rightarrow> stored_frame list" where
  "stored_frames s = map frame_of (flatten (st_records s))"

definition lookup :: "store \<Rightarrow> message_id \<rightharpoonup> stored_frame" where
  "lookup s = map_of (map (\<lambda>f. (sf_message_id f, f)) (stored_frames s))"

definition frame_holds :: "stored_frame \<Rightarrow> hyf_envelope \<Rightarrow> bool" where
  "frame_holds f e \<longleftrightarrow> decode_envelope (sf_bytes f) = Ok e \<and> sf_message_id f = env_message_id e \<and>
     sf_created_at_ms f = env_created_at_ms e \<and> sf_expires_at_ms f = env_expires_at_ms e"

definition record_ok :: "usize \<Rightarrow> store_record \<Rightarrow> bool" where
  "record_ok frame_max r \<longleftrightarrow> length (sr_bytes r) = frame_max \<and> sr_len r \<le> frame_max \<and>
     (\<exists>e. frame_holds (frame_of r) e)"

definition store_inv :: "usize \<Rightarrow> store \<Rightarrow> bool" where
  "store_inv frame_max s \<longleftrightarrow> (\<forall>r \<in> set (flatten (st_records s)). record_ok frame_max r) \<and>
     distinct (map sf_message_id (stored_frames s))"

definition frame_key :: "stored_frame \<Rightarrow> u64 \<times> u64 \<times> u8 list" where
  "frame_key f = (ms (sf_expires_at_ms f), ms (sf_created_at_ms f), message_id_bytes (sf_message_id f))"

lemma frame_precedes_key: "frame_precedes a b \<longleftrightarrow> frame_key a < frame_key b"
  by (auto simp: frame_precedes_def frame_key_def)

lemma record_precedes_key: "record_precedes a b \<longleftrightarrow> frame_key (frame_of a) < frame_key (frame_of b)"
  by (auto simp: record_precedes_def frame_key_def frame_of_def)

lemma frame_key_inject: "frame_key a = frame_key b \<Longrightarrow> sf_message_id a = sf_message_id b"
  by (auto simp: frame_key_def message_id.expand)

lemma frame_of_simps [simp]:
  "sf_message_id (frame_of r) = sr_message_id r" "sf_expires_at_ms (frame_of r) = sr_expires_at_ms r"
  "sf_created_at_ms (frame_of r) = sr_created_at_ms r"
  "sf_bytes (frame_of r) = take (sr_len r) (sr_bytes r)"
  by (simp_all add: frame_of_def)

lemma store_len_frames: "store_len s = length (stored_frames s)"
  unfolding store_len_def stored_frames_def length_flatten_filter by simp

lemma stored_frames_new [simp]: "stored_frames (store_new n p) = []"
  by (simp add: stored_frames_def store_new_def)

lemma store_new_inv: "store_inv frame_max (store_new n p)"
  by (simp add: store_inv_def store_new_def stored_frames_def)

lemma lookup_eq_Some:
  "store_inv fm s \<Longrightarrow> lookup s mid = Some f \<longleftrightarrow> f \<in> set (stored_frames s) \<and> sf_message_id f = mid"
  by (auto simp: lookup_def store_inv_def map_of_eq_Some_iff comp_def image_iff)

lemma lookup_eq_None: "lookup s mid = None \<longleftrightarrow> mid \<notin> sf_message_id ` set (stored_frames s)"
  by (auto simp: lookup_def map_of_eq_None_iff image_iff)

lemma dom_lookup: "dom (lookup s) = sf_message_id ` set (stored_frames s)"
  by (auto simp: lookup_def dom_map_of_conv_image_fst image_image)

lemma card_dom_lookup: "store_inv fm s \<Longrightarrow> card (dom (lookup s)) = store_len s"
  by (simp add: dom_lookup store_len_frames store_inv_def distinct_card flip: set_map)

lemma lookup_cong:
  assumes "store_inv fm s" and "store_inv fm t"
    and "set (stored_frames t) = insert f {g \<in> set (stored_frames s). sf_message_id g \<noteq> sf_message_id f}"
  shows "lookup t = (lookup s)(sf_message_id f \<mapsto> f)"
proof
  fix mid
  show "lookup t mid = ((lookup s)(sf_message_id f \<mapsto> f)) mid"
  proof (cases "lookup t mid")
    case None
    then have "mid \<noteq> sf_message_id f" and "mid \<notin> sf_message_id ` set (stored_frames s)"
      using assms(3) by (auto simp: lookup_eq_None)
    with None show ?thesis by (simp add: lookup_eq_None [THEN iffD2])
  next
    case (Some g)
    with assms(2,3) have "g = f \<and> mid = sf_message_id f \<or>
        g \<in> set (stored_frames s) \<and> sf_message_id g = mid \<and> mid \<noteq> sf_message_id f"
      by (auto simp: lookup_eq_Some)
    with Some lookup_eq_Some [OF assms(1), of mid g] show ?thesis by auto
  qed
qed

lemma store_contains_iff: "store_contains s mid \<longleftrightarrow> mid \<in> dom (lookup s)"
proof -
  have "is_some_and p x \<longleftrightarrow> (\<exists>r. x = Some r \<and> p r)" for p :: "store_record \<Rightarrow> bool" and x
    by (cases x) auto
  then show ?thesis
    by (auto simp: store_contains_def find_index_def dom_lookup stored_frames_def image_iff)
qed

lemma record_as_ref_ok: "record_ok fm r \<Longrightarrow> record_as_ref r = Ok (frame_of r)"
  by (simp add: record_ok_def record_as_ref_def slice_to_def frame_of_def)

section \<open>Putting\<close>

lemma put_valid_frame_cases:
  assumes "length frame \<le> fm"
  shows "put_valid_frame fm frame md s =
    (if md_message_id md \<in> dom (lookup s) then (Err Duplicate, s)
     else case position is_none (st_records s) of
       None \<Rightarrow> (Err Full, s)
     | Some index \<Rightarrow> (Ok (), s\<lparr>st_records := (st_records s)[index := Some
         \<lparr>sr_bytes = frame @ replicate (fm - length frame) 0, sr_len = length frame,
          sr_message_id = md_message_id md, sr_created_at_ms = md_created_at_ms md,
          sr_expires_at_ms = md_expires_at_ms md\<rparr>]\<rparr>))"
  using assms
  by (cases "position is_none (st_records s)")
     (simp_all add: put_valid_frame_def store_contains_iff first_free_index_def store_record_new_def
      copy_at_def del: position_eq_None)

lemma put_valid_frame_Ok:
  assumes inv: "store_inv fm s" and len: "length frame \<le> fm" and dec: "decode_envelope frame = Ok e"
    and put: "put_valid_frame fm frame (metadata_for e) s = (Ok (), t)"
  shows "store_inv fm t" and "env_message_id e \<notin> dom (lookup s)"
    and "lookup t = (lookup s)(env_message_id e \<mapsto>
      \<lparr>sf_message_id = env_message_id e, sf_created_at_ms = env_created_at_ms e,
       sf_expires_at_ms = env_expires_at_ms e, sf_bytes = frame\<rparr>)"
    and "store_len t = Suc (store_len s)" and "st_policy t = st_policy s"
    and "store_capacity t = store_capacity s"
proof -
  let ?r = "\<lparr>sr_bytes = frame @ replicate (fm - length frame) 0, sr_len = length frame,
          sr_message_id = env_message_id e, sr_created_at_ms = env_created_at_ms e,
          sr_expires_at_ms = env_expires_at_ms e\<rparr>"
  let ?f = "frame_of ?r"
  from put obtain index where new: "env_message_id e \<notin> dom (lookup s)"
    and free: "position is_none (st_records s) = Some index"
    and t: "t = s\<lparr>st_records := (st_records s)[index := Some ?r]\<rparr>"
    unfolding put_valid_frame_cases [OF len]
    by (auto simp: metadata_for_def split: if_splits option.splits)
  from mset_flatten_put [OF free, of ?r]
  have ms: "mset (stored_frames t) = add_mset ?f (mset (stored_frames s))"
    by (simp add: t stored_frames_def)
  then have set: "set (stored_frames t) = insert ?f (set (stored_frames s))"
    by (metis set_mset_add_mset_insert set_mset_mset)
  have ok: "record_ok fm ?r"
    using len dec by (auto simp: record_ok_def frame_holds_def)
  have "mset (map sf_message_id (stored_frames t)) =
      add_mset (env_message_id e) (mset (map sf_message_id (stored_frames s)))"
    by (simp add: ms)
  then have "distinct (map sf_message_id (stored_frames t))"
    using inv new by (metis (no_types, lifting) distinct.simps(2) dom_lookup image_set
        mset.simps(2) mset_eq_imp_distinct_iff store_inv_def)
  with inv ok show inv': "store_inv fm t"
    using set_flatten_put [OF free, of ?r] by (auto simp: store_inv_def t)
  show "env_message_id e \<notin> dom (lookup s)" by (rule new)
  have "\<forall>g \<in> set (stored_frames s). sf_message_id g \<noteq> env_message_id e"
    using new unfolding dom_lookup by (metis imageI)
  then have "{g \<in> set (stored_frames s). sf_message_id g \<noteq> env_message_id e} = set (stored_frames s)"
    by blast
  then have "set (stored_frames t) = insert ?f {g \<in> set (stored_frames s). sf_message_id g \<noteq> sf_message_id ?f}"
    using set by simp
  from lookup_cong [OF inv inv' this] show "lookup t = (lookup s)(env_message_id e \<mapsto>
      \<lparr>sf_message_id = env_message_id e, sf_created_at_ms = env_created_at_ms e,
       sf_expires_at_ms = env_expires_at_ms e, sf_bytes = frame\<rparr>)"
    by (simp add: frame_of_def)
  show "store_len t = Suc (store_len s)"
    using arg_cong [OF ms, of size] by (simp add: store_len_frames)
  show "st_policy t = st_policy s" "store_capacity t = store_capacity s"
    by (simp_all add: t store_capacity_def)
qed

text \<open>
  \<open>put_envelope\<close> and \<open>put_frame\<close> reduced to the map: the frame stored is the encoding of
  the envelope.
\<close>

definition frame_for :: "hyf_envelope \<Rightarrow> stored_frame" where
  "frame_for e =
     \<lparr>sf_message_id = env_message_id e, sf_created_at_ms = env_created_at_ms e,
      sf_expires_at_ms = env_expires_at_ms e, sf_bytes = envelope_bytes e\<rparr>"

lemma put_envelope_valid:
  assumes "wf_envelope e" and "validate_envelope e = Ok ()"
  shows "put_envelope fm e s =
    (if fm < length (envelope_bytes e)
     then (Err (StoreFrameTooLarge (length (envelope_bytes e)) fm), s)
     else put_valid_frame fm (envelope_bytes e) (metadata_for e) s)"
proof -
  from assms(2) have "\<not> is_expired_at_creation e"
    by (auto simp: validate_envelope_Ok is_expired_at_creation_def)
  then show ?thesis
    using assms encode_envelope_Ok [OF assms, of "replicate fm 0"]
    by (simp add: put_envelope_def envelope_encoded_len_Ok slice_to_def)
qed

lemma put_envelope_invalid:
  assumes "validate_envelope e = Err err"
  shows "put_envelope fm e s =
    (Err (if reject_expired_on_put (st_policy s) \<and> is_expired_at_creation e then Expired
          else InvalidEnvelope err), s)"
  using assms by (simp add: put_envelope_def envelope_encoded_len_eq)

lemma put_envelope_Ok:
  assumes "store_inv fm s" and "wf_envelope e" and "put_envelope fm e s = (Ok (), t)"
  shows "store_inv fm t" and "env_message_id e \<notin> dom (lookup s)"
    and "lookup t = (lookup s)(env_message_id e \<mapsto> frame_for e)"
    and "store_len t = Suc (store_len s)" and "st_policy t = st_policy s"
    and "store_capacity t = store_capacity s" and "validate_envelope e = Ok ()"
proof -
  show v: "validate_envelope e = Ok ()"
    using assms(3) put_envelope_invalid [of e _ fm s]
    by (cases "validate_envelope e") auto
  with assms have len: "length (envelope_bytes e) \<le> fm"
    and put: "put_valid_frame fm (envelope_bytes e) (metadata_for e) s = (Ok (), t)"
    by (auto simp: put_envelope_valid split: if_splits)
  note ok = put_valid_frame_Ok [OF assms(1) len decode_encode [OF assms(2) v] put]
  from ok show "store_inv fm t" "env_message_id e \<notin> dom (lookup s)"
    "lookup t = (lookup s)(env_message_id e \<mapsto> frame_for e)"
    "store_len t = Suc (store_len s)" "st_policy t = st_policy s"
    "store_capacity t = store_capacity s"
    by (simp_all add: frame_for_def)
qed

lemma put_valid_frame_Err: "put_valid_frame fm frame md s = (Err err, t) \<Longrightarrow> t = s"
  by (auto simp: put_valid_frame_def store_record_new_def copy_at_def split: if_splits option.splits)

lemma put_envelope_Err: "put_envelope fm e s = (Err err, t) \<Longrightarrow> t = s"
  by (auto simp: put_envelope_def split: if_splits result.splits prod.splits
      dest: put_valid_frame_Err)

lemma put_envelope_no_panic:
  assumes "wf_envelope e"
  shows "fst (put_envelope fm e s) \<noteq> Panic"
proof (cases "validate_envelope e")
  case (Ok u)
  then have "validate_envelope e = Ok ()" by simp
  then show ?thesis
    unfolding put_envelope_valid [OF assms \<open>validate_envelope e = Ok ()\<close>]
    by (cases "position is_none (st_records s)")
       (auto simp: put_valid_frame_cases simp del: position_eq_None)
qed (simp_all add: put_envelope_invalid)

lemma put_frame_Ok:
  assumes "store_inv fm s" and "length frame \<le> usize_max" and "put_frame fm frame s = (Ok (), t)"
  obtains e where "decode_envelope frame = Ok e" "frame = envelope_bytes e" "store_inv fm t"
    "env_message_id e \<notin> dom (lookup s)"
    "lookup t = (lookup s)(env_message_id e \<mapsto> frame_for e)"
proof -
  from assms(3) obtain e where len: "length frame \<le> fm" and dec: "decode_envelope frame = Ok e"
    and put: "put_valid_frame fm frame (metadata_for e) s = (Ok (), t)"
    by (auto simp: put_frame_def split: if_splits result.splits)
  from dec assms(2) have "frame = envelope_bytes e" by (simp add: decode_envelope_eq_Ok)
  with put_valid_frame_Ok [OF assms(1) len dec put] dec that show thesis
    by (simp add: frame_for_def)
qed

lemma put_frame_no_panic: "fst (put_frame fm frame s) \<noteq> Panic"
proof (cases "decode_envelope frame")
  case (Ok e)
  then show ?thesis
    by (cases "position is_none (st_records s)")
       (auto simp: put_frame_def put_valid_frame_cases simp del: position_eq_None)
qed (auto simp: put_frame_def decode_envelope_no_panic)

section \<open>Removing and expiring\<close>

lemma find_index_Some:
  assumes "find_index s mid = Some i"
  obtains r where "i < length (st_records s)" "st_records s ! i = Some r" "sr_message_id r = mid"
proof -
  have "is_some_and (\<lambda>r. sr_message_id r = mid) (st_records s ! i)" and "i < length (st_records s)"
    using assms position_nth position_length by (auto simp: find_index_def)
  with that show thesis by (cases "st_records s ! i") auto
qed

lemma store_remove_cases:
  "mid \<notin> dom (lookup s) \<Longrightarrow> store_remove mid s = (Err NotFound, s)"
  "mid \<in> dom (lookup s) \<Longrightarrow> \<exists>t. store_remove mid s = (Ok (), t)"
  using store_contains_iff [of s mid] by (auto simp: store_contains_def store_remove_def)

lemma store_remove_Ok:
  assumes "store_inv fm s" and "store_remove mid s = (Ok (), t)"
  shows "store_inv fm t" and "lookup t = (lookup s)(mid := None)" and "mid \<in> dom (lookup s)"
    and "store_len s = Suc (store_len t)" and "st_policy t = st_policy s"
    and "store_capacity t = store_capacity s"
proof -
  from assms(2) obtain i where i: "find_index s mid = Some i"
    and t: "t = s\<lparr>st_records := (st_records s)[i := None]\<rparr>"
    by (auto simp: store_remove_def split: option.splits)
  from find_index_Some [OF i] obtain r where
    r: "i < length (st_records s)" "st_records s ! i = Some r" "sr_message_id r = mid"
    by blast
  have ms: "mset (stored_frames s) = add_mset (frame_of r) (mset (stored_frames t))"
    using mset_flatten_clear [OF r(1,2)] by (simp add: stored_frames_def t)
  then have set: "set (stored_frames s) = insert (frame_of r) (set (stored_frames t))"
    by (metis set_mset_add_mset_insert set_mset_mset)
  have "mset (map sf_message_id (stored_frames s)) =
      mset (mid # map sf_message_id (stored_frames t))"
    by (simp add: ms r(3))
  then have dist: "distinct (mid # map sf_message_id (stored_frames t))"
    using assms(1) mset_eq_imp_distinct_iff unfolding store_inv_def by blast
  have sub: "set (flatten (st_records t)) \<subseteq> set (flatten (st_records s))"
    using mset_flatten_clear [OF r(1,2)]
    by (simp add: t) (metis (no_types, lifting) insertCI mset.simps(2) set_flatten set_mset_add_mset_insert
        set_mset_mset subsetI mem_Collect_eq)
  show inv: "store_inv fm t"
    using assms(1) dist sub by (auto simp: store_inv_def)
  show "lookup t = (lookup s)(mid := None)"
  proof
    fix m
    show "lookup t m = ((lookup s)(mid := None)) m"
    proof (cases "m = mid")
      case True
      with dist show ?thesis by (simp add: lookup_eq_None)
    next
      case False
      have "lookup t m = Some f \<longleftrightarrow> lookup s m = Some f" for f
        using False set r(3) by (auto simp: lookup_eq_Some [OF inv] lookup_eq_Some [OF assms(1)])
      then show ?thesis using False by (metis fun_upd_apply not_None_eq)
    qed
  qed
  show "mid \<in> dom (lookup s)" using set r(3) by (auto simp: dom_lookup)
  show "store_len s = Suc (store_len t)"
    using arg_cong [OF ms, of size] by (simp add: store_len_frames)
  show "st_policy t = st_policy s" "store_capacity t = store_capacity s"
    by (simp_all add: t store_capacity_def)
qed

lemma expire_slots_eq:
  "expire_slots now slots n =
    (n + length (filter (\<lambda>r. ms (sr_expires_at_ms r) \<le> now) (flatten slots)),
     map (\<lambda>slot. if is_some_and (\<lambda>r. ms (sr_expires_at_ms r) \<le> now) slot then None else slot) slots)"
  by (induction slots arbitrary: n) (auto split: option.splits)

lemma flatten_drop_slots:
  "flatten (map (\<lambda>slot. if is_some_and p slot then None else slot) slots) =
     filter (\<lambda>r. \<not> p r) (flatten slots)"
  by (induction slots) (auto split: option.splits)

lemma stored_frames_expire:
  "stored_frames (snd (expire_before now s)) =
     filter (\<lambda>f. \<not> ms (sf_expires_at_ms f) \<le> ms now) (stored_frames s)"
  by (simp add: expire_before_def expire_slots_eq stored_frames_def flatten_drop_slots filter_map
      comp_def)

lemma expire_before_counts:
  "store_len s = fst (expire_before now s) + store_len (snd (expire_before now s))"
proof -
  have "fst (expire_before now s) = length (filter (\<lambda>f. ms (sf_expires_at_ms f) \<le> ms now) (stored_frames s))"
    by (simp add: expire_before_def expire_slots_eq stored_frames_def filter_map comp_def)
  then show ?thesis
    unfolding store_len_frames stored_frames_expire
    using sum_length_filter_compl [of "\<lambda>f. ms (sf_expires_at_ms f) \<le> ms now" "stored_frames s"]
    by simp
qed

lemma expire_before_frame [simp]:
  "st_policy (snd (expire_before now s)) = st_policy s"
  "store_capacity (snd (expire_before now s)) = store_capacity s"
  by (simp_all add: expire_before_def expire_slots_eq store_capacity_def)

lemma expire_before_inv:
  assumes "store_inv fm s"
  shows "store_inv fm (snd (expire_before now s))"
proof -
  have "set (flatten (st_records (snd (expire_before now s)))) \<subseteq> set (flatten (st_records s))"
    by (auto simp: expire_before_def expire_slots_eq flatten_drop_slots simp del: set_flatten)
  with assms show ?thesis
    by (auto simp: store_inv_def stored_frames_expire distinct_map_filter simp del: set_flatten)
qed

lemma lookup_expire:
  assumes "store_inv fm s"
  shows "lookup (snd (expire_before now s)) mid =
    (case lookup s mid of
       None \<Rightarrow> None
     | Some f \<Rightarrow> if ms (sf_expires_at_ms f) \<le> ms now then None else Some f)"
proof -
  have *: "lookup (snd (expire_before now s)) mid = Some f \<longleftrightarrow>
      lookup s mid = Some f \<and> \<not> ms (sf_expires_at_ms f) \<le> ms now" for f
    by (auto simp: lookup_eq_Some [OF assms] lookup_eq_Some [OF expire_before_inv [OF assms]]
        stored_frames_expire)
  show ?thesis
  proof (cases "lookup s mid")
    case None
    with * show ?thesis by (metis not_None_eq option.simps(4))
  next
    case (Some f)
    show ?thesis
    proof (cases "ms (sf_expires_at_ms f) \<le> ms now")
      case True
      have "lookup (snd (expire_before now s)) mid = None"
        using Some True * by (metis not_None_eq option.inject)
      with Some True show ?thesis by simp
    next
      case False
      with Some * [of f] have "lookup (snd (expire_before now s)) mid = Some f" by blast
      with Some False show ?thesis by simp
    qed
  qed
qed

section \<open>Listing\<close>

lemma insert_pending_sorted:
  assumes "sorted (map frame_key xs)"
  shows "\<exists>ys. insert_pending (xs @ y # zs) (length xs) r = Ok (ys @ zs) \<and>
    mset ys = add_mset r (mset xs) \<and> sorted (map frame_key ys)"
  using assms
proof (induction xs arbitrary: y zs rule: rev_induct)
  case Nil
  show ?case by (intro exI [of _ "[r]"]) (simp add: set_at_def)
next
  case (snoc p xs)
  show ?case
  proof (cases "frame_precedes r p")
    case True
    from snoc.prems have "sorted (map frame_key xs)" by (simp add: sorted_append)
    from snoc.IH [OF this, of p "p # zs"] obtain ys where
      ys: "insert_pending (xs @ p # p # zs) (length xs) r = Ok (ys @ p # zs)"
      "mset ys = add_mset r (mset xs)" "sorted (map frame_key ys)"
      by blast
    have set: "set ys = insert r (set xs)"
      using ys(2) by (metis set_mset_add_mset_insert set_mset_mset)
    have "sorted (map frame_key (ys @ [p]))"
      using True snoc.prems ys(3) by (auto simp: sorted_append set frame_precedes_key)
    moreover have "insert_pending ((xs @ [p]) @ y # zs) (length (xs @ [p])) r = Ok ((ys @ [p]) @ zs)"
      using True ys(1) by (simp add: get_at_def set_at_def nth_append list_update_append)
    ultimately show ?thesis using ys(2) by (intro exI [of _ "ys @ [p]"]) simp
  next
    case False
    then have "insert_pending ((xs @ [p]) @ y # zs) (length (xs @ [p])) r = Ok ((xs @ [p, r]) @ zs)"
      by (simp add: get_at_def set_at_def nth_append list_update_append)
    moreover have "sorted (map frame_key (xs @ [p, r]))"
      using False snoc.prems by (fastforce simp: sorted_append frame_precedes_key not_less)
    ultimately show ?thesis by (intro exI [of _ "xs @ [p, r]"]) simp
  qed
qed

lemma pending_loop_sorted:
  assumes "\<forall>r \<in> set rs. record_ok fm r" and "sorted (map frame_key xs)" and "length rs \<le> length zs"
  shows "\<exists>ys. pending_loop rs (length xs) (xs @ zs) = Ok (length ys, ys @ drop (length rs) zs) \<and>
    mset ys = mset xs + mset (map frame_of rs) \<and> sorted (map frame_key ys)"
  using assms
proof (induction rs arbitrary: xs zs)
  case Nil
  then show ?case by (intro exI [of _ xs]) simp
next
  case (Cons r rs)
  from Cons.prems(3) obtain z zs' where zs: "zs = z # zs'" by (cases zs) auto
  from insert_pending_sorted [OF Cons.prems(2), of z zs' "frame_of r"] obtain ys where
    ys: "insert_pending (xs @ z # zs') (length xs) (frame_of r) = Ok (ys @ zs')"
    "mset ys = add_mset (frame_of r) (mset xs)" "sorted (map frame_key ys)"
    by blast
  then have len: "length ys = Suc (length xs)" by (metis size_add_mset size_mset)
  from Cons.IH [of ys zs'] Cons.prems zs ys(3) obtain vs where
    "pending_loop rs (length ys) (ys @ zs') = Ok (length vs, vs @ drop (length rs) zs')"
    "mset vs = mset ys + mset (map frame_of rs)" "sorted (map frame_key vs)"
    by auto
  moreover have "record_as_ref r = Ok (frame_of r)"
    using Cons.prems(1) by (auto intro: record_as_ref_ok)
  ultimately show ?case
    using ys len zs by (intro exI [of _ vs]) simp
qed

lemma pending_spec:
  assumes "store_inv fm s" and "store_len s \<le> length out"
  obtains ys where "pending s out = (Ok (length ys), ys @ drop (length ys) out)"
    "mset ys = mset (stored_frames s)" "sorted (map frame_key ys)"
proof -
  have rs: "\<forall>r \<in> set (flatten (st_records s)). record_ok fm r"
    using assms(1) by (simp add: store_inv_def)
  have n: "length (flatten (st_records s)) = store_len s"
    by (simp add: store_len_frames stored_frames_def)
  from pending_loop_sorted [OF rs, of "[]" out] assms(2) n obtain ys where
    "pending_loop (flatten (st_records s)) 0 out = Ok (length ys, ys @ drop (store_len s) out)"
    and ms: "mset ys = mset (stored_frames s)" and "sorted (map frame_key ys)"
    by (auto simp: stored_frames_def)
  moreover from ms have "length ys = store_len s"
    unfolding store_len_frames by (rule mset_eq_length)
  ultimately show thesis
    using assms(2) by (intro that [of ys]) (simp_all add: pending_def Let_def)
qed

text \<open>The scan keeps the index of a least slot among those visited.\<close>

definition least_slot :: "store_record option list \<Rightarrow> nat option \<Rightarrow> bool" where
  "least_slot slots selected \<longleftrightarrow>
     (case selected of
        None \<Rightarrow> flatten slots = []
      | Some j \<Rightarrow> \<exists>r. j < length slots \<and> slots ! j = Some r \<and>
          (\<forall>x \<in> set (flatten slots). frame_key (frame_of r) \<le> frame_key (frame_of x)))"

lemma least_slot_snoc:
  assumes "least_slot pre sel"
  shows "least_slot (pre @ [None]) sel"
    and "sel = None \<Longrightarrow> least_slot (pre @ [Some r]) (Some (length pre))"
    and "sel = Some j \<Longrightarrow> pre ! j = Some er \<Longrightarrow>
      least_slot (pre @ [Some r]) (if \<not> record_precedes r er then Some j else Some (length pre))"
  using assms
  by (force simp: least_slot_def nth_append record_precedes_key split: option.splits)+

lemma first_pending_scan_least:
  assumes "least_slot pre sel"
  shows "\<exists>sel'. first_pending_scan (pre @ slots) (length pre) slots sel = Ok (Some sel') \<and>
    least_slot (pre @ slots) sel'"
  using assms
proof (induction slots arbitrary: pre sel)
  case Nil
  then show ?case by simp
next
  case (Cons slot slots)
  note IH = Cons.IH [of "pre @ [slot]", simplified]
  show ?case
  proof (cases slot)
    case None
    with IH least_slot_snoc(1) [OF Cons.prems] show ?thesis by simp
  next
    case (Some r)
    show ?thesis
    proof (cases sel)
      case None
      with IH least_slot_snoc(2) [OF Cons.prems] Some show ?thesis by simp
    next
      case (Some j)
      with Cons.prems obtain er where "j < length pre" "pre ! j = Some er"
        by (auto simp: least_slot_def)
      with IH least_slot_snoc(3) [OF Cons.prems Some, of er r] \<open>slot = Some r\<close> Some
      show ?thesis by (simp add: get_at_def nth_append)
    qed
  qed
qed

lemma first_pending_spec:
  assumes "store_inv fm s"
  shows "stored_frames s = [] \<Longrightarrow> first_pending s = Ok None"
    and "stored_frames s \<noteq> [] \<Longrightarrow> \<exists>f \<in> set (stored_frames s). first_pending s = Ok (Some f) \<and>
      (\<forall>g \<in> set (stored_frames s). frame_key f \<le> frame_key g)"
proof -
  have "least_slot [] None" by (simp add: least_slot_def)
  from first_pending_scan_least [OF this, of "st_records s"] obtain sel where
    scan: "first_pending_scan (st_records s) 0 (st_records s) None = Ok (Some sel)"
    and least: "least_slot (st_records s) sel"
    by auto
  show "first_pending s = Ok None" if "stored_frames s = []"
  proof (cases sel)
    case (Some j)
    with least that show ?thesis
      using nth_mem by (force simp: least_slot_def stored_frames_def)
  qed (simp add: first_pending_def scan)
  show "\<exists>f \<in> set (stored_frames s). first_pending s = Ok (Some f) \<and>
      (\<forall>g \<in> set (stored_frames s). frame_key f \<le> frame_key g)" if "stored_frames s \<noteq> []"
  proof (cases sel)
    case None
    with least that show ?thesis by (simp add: least_slot_def stored_frames_def)
  next
    case (Some j)
    with least obtain r where r: "j < length (st_records s)" "st_records s ! j = Some r"
      "\<forall>x \<in> set (flatten (st_records s)). frame_key (frame_of r) \<le> frame_key (frame_of x)"
      by (auto simp: least_slot_def)
    then have mem: "r \<in> set (flatten (st_records s))" by (metis mem_Collect_eq nth_mem set_flatten)
    with assms have "record_as_ref r = Ok (frame_of r)"
      by (auto simp: store_inv_def record_as_ref_ok)
    with Some scan r mem show ?thesis
      by (intro bexI [of _ "frame_of r"])
         (auto simp: first_pending_def get_at_def stored_frames_def simp del: set_flatten)
  qed
qed

section \<open>The store interface\<close>

text \<open>
  What the gateway relies on: a bounded finite map with a least element. The lemmas are proved
  once here: draining the store by taking the first pending frame and removing it visits every
  frame exactly once, in key order, and leaves the store empty.
\<close>

locale message_store =
  fixes inv :: "'s \<Rightarrow> bool"
    and look :: "'s \<Rightarrow> message_id \<rightharpoonup> stored_frame"
    and entries :: "'s \<Rightarrow> nat"
    and first :: "'s \<Rightarrow> (stored_frame option, 'e) result"
    and remove :: "message_id \<Rightarrow> ('s, unit, 'e) stm"
  assumes entries_card: "inv s \<Longrightarrow> finite (dom (look s)) \<and> card (dom (look s)) = entries s"
    and look_id: "inv s \<Longrightarrow> look s m = Some f \<Longrightarrow> sf_message_id f = m"
    and first_None: "inv s \<Longrightarrow> look s = Map.empty \<Longrightarrow> first s = Ok None"
    and first_Some: "inv s \<Longrightarrow> look s \<noteq> Map.empty \<Longrightarrow>
      \<exists>f \<in> ran (look s). first s = Ok (Some f) \<and> (\<forall>g \<in> ran (look s). frame_key f \<le> frame_key g)"
    and remove_present: "inv s \<Longrightarrow> m \<in> dom (look s) \<Longrightarrow>
      \<exists>t. remove m s = (Ok (), t) \<and> inv t \<and> look t = (look s)(m := None)"
    and remove_absent: "inv s \<Longrightarrow> m \<notin> dom (look s) \<Longrightarrow> \<exists>e. remove m s = (Err e, s)"
begin

fun drain :: "nat \<Rightarrow> 's \<Rightarrow> stored_frame list \<times> 's" where
  "drain 0 s = ([], s)"
| "drain (Suc k) s =
     (case first s of
        Ok (Some f) \<Rightarrow>
          (case remove (sf_message_id f) s of
             (Ok _, t) \<Rightarrow> (case drain k t of (fs, u) \<Rightarrow> (f # fs, u))
           | (_, t) \<Rightarrow> ([], t))
      | _ \<Rightarrow> ([], s))"

lemma first_iff: "inv s \<Longrightarrow> first s = Ok None \<longleftrightarrow> entries s = 0"
  using first_None [of s] first_Some [of s] entries_card [of s] by fastforce

lemma first_removable:
  assumes "inv s" and "first s = Ok (Some f)"
  obtains t where "remove (sf_message_id f) s = (Ok (), t)" "inv t"
    "look t = (look s)(sf_message_id f := None)" "look s (sf_message_id f) = Some f"
    "entries s = Suc (entries t)" "\<forall>g \<in> ran (look s). frame_key f \<le> frame_key g"
proof -
  have "look s \<noteq> Map.empty" using assms first_None by force
  with first_Some [OF assms(1)] assms(2) have f: "f \<in> ran (look s)"
    "\<forall>g \<in> ran (look s). frame_key f \<le> frame_key g"
    by auto
  then have lk: "look s (sf_message_id f) = Some f"
    using look_id [OF assms(1)] by (auto simp: ran_def)
  then obtain t where t: "remove (sf_message_id f) s = (Ok (), t)" "inv t"
    "look t = (look s)(sf_message_id f := None)"
    using remove_present [OF assms(1)] by blast
  have "entries t = card (dom (look s) - {sf_message_id f})"
    using entries_card [OF t(2)] t(3) by simp
  also have "\<dots> = entries s - 1"
    using entries_card [OF assms(1)] lk by (simp add: domI)
  moreover have "dom (look s) \<noteq> {}" using lk by auto
  then have "entries s \<noteq> 0" using entries_card [OF assms(1)] by (metis card_eq_0_iff)
  ultimately have "entries s = Suc (entries t)" by simp
  with t lk f(2) show thesis by (intro that [of t])
qed

lemma drain_sorted:
  assumes "inv s"
  shows "look (snd (drain (entries s) s)) = Map.empty \<and> set (fst (drain (entries s) s)) = ran (look s) \<and>
    sorted (map frame_key (fst (drain (entries s) s))) \<and> length (fst (drain (entries s) s)) = entries s"
  using assms
proof (induction "entries s" arbitrary: s)
  case 0
  with entries_card [of s] show ?case by (auto simp: ran_def)
next
  case (Suc k)
  then have "first s \<noteq> Ok None" by (simp add: first_iff)
  with Suc.prems obtain f where f: "first s = Ok (Some f)"
    using first_None [of s] first_Some [of s] by blast
  from first_removable [OF Suc.prems f] obtain t where t: "remove (sf_message_id f) s = (Ok (), t)"
    "inv t" "look t = (look s)(sf_message_id f := None)" "look s (sf_message_id f) = Some f"
    "entries s = Suc (entries t)" "\<forall>g \<in> ran (look s). frame_key f \<le> frame_key g"
    by blast
  have "look s = (look t)(sf_message_id f \<mapsto> f)" "look t (sf_message_id f) = None"
    using t(3,4) by (simp_all add: fun_upd_idem)
  then have ran: "ran (look s) = insert f (ran (look t))" by (metis ran_map_upd)
  obtain fs u where d: "drain (entries t) t = (fs, u)" by force
  from Suc.hyps(1) [of t] Suc.hyps(2) t(2,5) d have "look u = Map.empty" "set fs = ran (look t)"
    "sorted (map frame_key fs)" "length fs = entries t"
    by auto
  with f t d ran show ?case by auto
qed

end

lemma lookup_empty_iff: "lookup s = Map.empty \<longleftrightarrow> stored_frames s = []"
  by (auto simp: lookup_def)

lemma ran_lookup: "store_inv fm s \<Longrightarrow> ran (lookup s) = set (stored_frames s)"
  by (auto simp: ran_def lookup_eq_Some)

interpretation hyf_store: message_store "store_inv fm" lookup store_len first_pending store_remove
proof unfold_locales
  fix s m f
  assume inv: "store_inv fm s"
  show "finite (dom (lookup s)) \<and> card (dom (lookup s)) = store_len s"
    using card_dom_lookup [OF inv] by (simp add: dom_lookup)
  show "lookup s m = Some f \<Longrightarrow> sf_message_id f = m"
    using inv by (simp add: lookup_eq_Some)
  show "lookup s = Map.empty \<Longrightarrow> first_pending s = Ok None"
    using first_pending_spec(1) [OF inv] by (simp add: lookup_empty_iff)
  show "lookup s \<noteq> Map.empty \<Longrightarrow> \<exists>f \<in> ran (lookup s). first_pending s = Ok (Some f) \<and>
      (\<forall>g \<in> ran (lookup s). frame_key f \<le> frame_key g)"
    using first_pending_spec(2) [OF inv] by (simp add: lookup_empty_iff ran_lookup [OF inv])
  show "m \<in> dom (lookup s) \<Longrightarrow> \<exists>t. store_remove m s = (Ok (), t) \<and> store_inv fm t \<and>
      lookup t = (lookup s)(m := None)"
    using store_remove_cases(2) [of m s] store_remove_Ok [OF inv] by blast
  show "m \<notin> dom (lookup s) \<Longrightarrow> \<exists>e. store_remove m s = (Err e, s)"
    using store_remove_cases(1) by blast
qed

section \<open>Operation sequences and the map they refine\<close>

datatype store_op =
    OpPut hyf_envelope
  | OpPutFrame "u8 list"
  | OpRemove message_id
  | OpExpire timestamp_ms

definition unit_response :: "(unit, 'e) result \<times> 's \<Rightarrow> (usize, 'e) result \<times> 's" where
  "unit_response p = (rbind (fst p) (\<lambda>_. Ok 0), snd p)"

fun store_step :: "usize \<Rightarrow> store_op \<Rightarrow> (store, usize, store_error) stm" where
  "store_step fm (OpPut e) s = unit_response (put_envelope fm e s)"
| "store_step fm (OpPutFrame frame) s = unit_response (put_frame fm frame s)"
| "store_step fm (OpRemove mid) s = unit_response (store_remove mid s)"
| "store_step fm (OpExpire now) s = (case expire_before now s of (n, t) \<Rightarrow> (Ok n, t))"

fun store_run :: "usize \<Rightarrow> store_op list \<Rightarrow> store \<Rightarrow> (usize, store_error) result list \<times> store" where
  "store_run fm [] s = ([], s)"
| "store_run fm (op # ops) s =
     (case store_step fm op s of (r, t) \<Rightarrow>
        (case store_run fm ops t of (rs, u) \<Rightarrow> (r # rs, u)))"

text \<open>The abstract store: a map, a capacity and the admission policy, without slots or bytes.\<close>

definition spec_insert ::
  "usize \<Rightarrow> usize \<Rightarrow> hyf_envelope \<Rightarrow> (message_id \<rightharpoonup> stored_frame, usize, store_error) stm" where
  "spec_insert cap fm e m =
     (if length (envelope_bytes e) > fm then (Err (StoreFrameTooLarge (length (envelope_bytes e)) fm), m)
      else if env_message_id e \<in> dom m then (Err Duplicate, m)
      else if cap \<le> card (dom m) then (Err Full, m)
      else (Ok 0, m(env_message_id e \<mapsto> frame_for e)))"

fun spec_step ::
  "usize \<Rightarrow> usize \<Rightarrow> bool \<Rightarrow> store_op \<Rightarrow> (message_id \<rightharpoonup> stored_frame, usize, store_error) stm" where
  "spec_step cap fm reject (OpPut e) m =
     (case validate_envelope e of
        Ok _ \<Rightarrow> spec_insert cap fm e m
      | Err err \<Rightarrow> (Err (if reject \<and> is_expired_at_creation e then Expired else InvalidEnvelope err), m)
      | Panic \<Rightarrow> (Panic, m))"
| "spec_step cap fm reject (OpPutFrame frame) m =
     (if length frame > fm then (Err (StoreFrameTooLarge (length frame) fm), m)
      else case decode_envelope frame of
        Ok e \<Rightarrow> spec_insert cap fm e m
      | Err err \<Rightarrow> (Err (if reject \<and> err = InvalidExpiry then Expired else InvalidEnvelope err), m)
      | Panic \<Rightarrow> (Panic, m))"
| "spec_step cap fm reject (OpRemove mid) m =
     (if mid \<in> dom m then (Ok 0, m(mid := None)) else (Err NotFound, m))"
| "spec_step cap fm reject (OpExpire now) m =
     (Ok (card {mid \<in> dom m. ms (sf_expires_at_ms (the (m mid))) \<le> ms now}),
      \<lambda>mid. case m mid of None \<Rightarrow> None
        | Some f \<Rightarrow> if ms (sf_expires_at_ms f) \<le> ms now then None else Some f)"

fun spec_run ::
  "usize \<Rightarrow> usize \<Rightarrow> bool \<Rightarrow> store_op list \<Rightarrow> (message_id \<rightharpoonup> stored_frame) \<Rightarrow>
   (usize, store_error) result list \<times> (message_id \<rightharpoonup> stored_frame)" where
  "spec_run cap fm reject [] m = ([], m)"
| "spec_run cap fm reject (op # ops) m =
     (case spec_step cap fm reject op m of (r, m') \<Rightarrow>
        (case spec_run cap fm reject ops m' of (rs, m'') \<Rightarrow> (r # rs, m'')))"

fun wf_op :: "store_op \<Rightarrow> bool" where
  "wf_op (OpPut e) = wf_envelope e"
| "wf_op (OpPutFrame frame) = (length frame \<le> usize_max)"
| "wf_op (OpRemove mid) = True"
| "wf_op (OpExpire now) = True"

text \<open>
  One step of the store is one step of the map: same response, and the map of the new store is the
  new map. The frame condition keeps policy and capacity.
\<close>

definition step_refines :: "usize \<Rightarrow> store \<Rightarrow> (usize, store_error) result \<times> store \<Rightarrow>
    (usize, store_error) result \<times> (message_id \<rightharpoonup> stored_frame) \<Rightarrow> bool" where
  "step_refines fm s p q \<longleftrightarrow> fst p = fst q \<and> lookup (snd p) = snd q \<and> store_inv fm (snd p) \<and>
     st_policy (snd p) = st_policy s \<and> store_capacity (snd p) = store_capacity s"

lemma full_iff:
  "store_inv fm s \<Longrightarrow> position is_none (st_records s) = None \<longleftrightarrow> store_capacity s \<le> card (dom (lookup s))"
  using length_flatten_le [of "st_records s"]
  by (auto simp: card_dom_lookup store_len_frames stored_frames_def store_capacity_def
      position_None_full simp del: position_eq_None)

lemma put_refines:
  assumes inv: "store_inv fm s" and wf: "wf_envelope e" and v: "validate_envelope e = Ok ()"
  shows "step_refines fm s
    (unit_response (if fm < length (envelope_bytes e)
       then (Err (StoreFrameTooLarge (length (envelope_bytes e)) fm), s)
       else put_valid_frame fm (envelope_bytes e) (metadata_for e) s))
    (spec_insert (store_capacity s) fm e (lookup s))"
proof (cases "fm < length (envelope_bytes e) \<or> env_message_id e \<in> dom (lookup s) \<or>
    store_capacity s \<le> card (dom (lookup s))")
  case True
  then show ?thesis
    using inv full_iff [OF inv]
    by (cases "position is_none (st_records s)")
       (auto simp: step_refines_def unit_response_def spec_insert_def put_valid_frame_cases
        metadata_for_def simp del: position_eq_None)
next
  case False
  then obtain t where t: "put_valid_frame fm (envelope_bytes e) (metadata_for e) s = (Ok (), t)"
    using full_iff [OF inv]
    by (auto simp: put_valid_frame_cases metadata_for_def simp del: position_eq_None)
  from False have len: "length (envelope_bytes e) \<le> fm" by simp
  from put_valid_frame_Ok [OF inv len decode_encode [OF wf v] t] t False show ?thesis
    by (simp add: step_refines_def unit_response_def spec_insert_def frame_for_def)
qed

lemma remove_refines:
  assumes "store_inv fm s"
  shows "step_refines fm s (unit_response (store_remove mid s))
    (spec_step cap fm reject (OpRemove mid) (lookup s))"
proof (cases "mid \<in> dom (lookup s)")
  case True
  from store_remove_cases(2) [OF True] obtain t where t: "store_remove mid s = (Ok (), t)" by blast
  from store_remove_Ok [OF assms t] t True show ?thesis
    by (simp add: step_refines_def unit_response_def)
qed (use assms in \<open>simp add: step_refines_def unit_response_def store_remove_cases\<close>)

lemma expire_refines:
  assumes "store_inv fm s"
  shows "step_refines fm s (store_step fm (OpExpire now) s)
    (spec_step cap fm reject (OpExpire now) (lookup s))"
proof -
  let ?t = "snd (expire_before now s)"
  let ?gone = "{mid \<in> dom (lookup s). ms (sf_expires_at_ms (the (lookup s mid))) \<le> ms now}"
  have "dom (lookup s) = dom (lookup ?t) \<union> ?gone" "dom (lookup ?t) \<inter> ?gone = {}"
    by (auto simp: lookup_expire [OF assms] split: option.splits if_splits)
  moreover have "finite (dom (lookup s))" by (simp add: dom_lookup)
  ultimately have "card (dom (lookup s)) = card (dom (lookup ?t)) + card ?gone"
    by (metis (no_types, lifting) card_Un_disjoint finite_Un)
  then have "fst (expire_before now s) = card ?gone"
    using expire_before_counts [of s now]
    by (simp add: card_dom_lookup [OF assms] card_dom_lookup [OF expire_before_inv [OF assms]])
  with lookup_expire [OF assms, of now] expire_before_inv [OF assms, of now] show ?thesis
    by (simp add: step_refines_def case_prod_beta fun_eq_iff)
qed

lemma store_step_refines:
  assumes "store_inv fm s" and "wf_op op"
  shows "step_refines fm s (store_step fm op s)
    (spec_step (store_capacity s) fm (reject_expired_on_put (st_policy s)) op (lookup s))"
proof (cases op)
  case (OpPut e)
  show ?thesis
  proof (cases "validate_envelope e")
    case (Ok u)
    then have v: "validate_envelope e = Ok ()" by simp
    from OpPut assms put_refines [OF assms(1) _ v] show ?thesis
      by (simp add: v put_envelope_valid)
  next
    case (Err err)
    with OpPut assms show ?thesis
      by (simp add: step_refines_def unit_response_def put_envelope_invalid)
  qed simp
next
  case (OpPutFrame frame)
  show ?thesis
  proof (cases "decode_envelope frame")
    case (Ok e)
    with OpPutFrame assms(2) have "wf_envelope e" "validate_envelope e = Ok ()" "frame = envelope_bytes e"
      by (auto simp: decode_envelope_eq_Ok)
    with put_refines [OF assms(1), of e] OpPutFrame Ok assms(1) show ?thesis
      by (auto simp: put_frame_def step_refines_def unit_response_def)
  next
    case (Err err)
    with OpPutFrame assms show ?thesis
      by (simp add: step_refines_def unit_response_def put_frame_def decode_error_def)
  qed (simp add: decode_envelope_no_panic)
next
  case (OpRemove mid)
  with remove_refines [OF assms(1)] show ?thesis by simp
next
  case (OpExpire now)
  with expire_refines [OF assms(1)] show ?thesis by simp
qed

lemma store_run_refines:
  assumes "store_inv fm s" and "\<forall>op \<in> set ops. wf_op op"
  shows "fst (store_run fm ops s) =
      fst (spec_run (store_capacity s) fm (reject_expired_on_put (st_policy s)) ops (lookup s)) \<and>
    lookup (snd (store_run fm ops s)) =
      snd (spec_run (store_capacity s) fm (reject_expired_on_put (st_policy s)) ops (lookup s)) \<and>
    store_inv fm (snd (store_run fm ops s)) \<and>
    store_capacity (snd (store_run fm ops s)) = store_capacity s"
  using assms
proof (induction ops arbitrary: s)
  case (Cons op ops)
  obtain r t where t: "store_step fm op s = (r, t)" by force
  from Cons.prems store_step_refines [of fm s op] t
  have "step_refines fm s (r, t)
      (spec_step (store_capacity s) fm (reject_expired_on_put (st_policy s)) op (lookup s))"
    by simp
  with t Cons.IH [of t] Cons.prems show ?case
    by (auto simp: step_refines_def split: prod.splits)
qed simp

lemma store_len_le_capacity: "store_len s \<le> store_capacity s"
  using length_flatten_le [of "st_records s"]
  by (simp add: store_len_frames stored_frames_def store_capacity_def)

definition sample_store :: store where
  "sample_store =
     snd (put_envelope 128 (sample_envelope (Node (NodeId (replicate 32 68))) 9)
       (store_new 2 store_policy_new))"

lemma sample_store_inv: "store_inv 128 sample_store"
proof -
  have "wf_op (OpPut (sample_envelope (Node (NodeId (replicate 32 68))) 9))"
    by (simp add: sample_envelope_wf wf_defs)
  from store_step_refines [OF store_new_inv this, of 128 2 store_policy_new] show ?thesis
    by (simp add: step_refines_def unit_response_def sample_store_def)
qed

text \<open>
  C8: the store refines a bounded map. Any sequence of puts, raw-frame puts, removals and expiries
  on a new store answers exactly what the map specification answers, errors included, and ends in
  a store whose contents are the specification's map; the store never holds more than its capacity
  and its invariant holds at the end.
\<close>

theorem store_refines_map:
  assumes "\<forall>op \<in> set ops. wf_op op"
  shows "let run = store_run fm ops (store_new n policy);
             spec = spec_run n fm (reject_expired_on_put policy) ops Map.empty
    in fst run = fst spec \<and> lookup (snd run) = snd spec \<and> store_inv fm (snd run) \<and>
       store_len (snd run) \<le> n"
proof -
  have "lookup (store_new n policy) = Map.empty" by (simp add: lookup_empty_iff)
  with store_run_refines [OF store_new_inv [of fm n policy] assms]
    store_len_le_capacity [of "snd (store_run fm ops (store_new n policy))"]
  show ?thesis by (simp add: Let_def store_capacity_def store_new_def)
qed

theorem store_refines_map_witness:
  "let e = sample_envelope (Node (NodeId (replicate 32 68))) 9;
       ops = [OpPut e, OpPut e, OpExpire (TimestampMs 150), OpRemove (env_message_id e)];
       run = store_run 128 ops (store_new 1 store_policy_new);
       spec = spec_run 1 128 True ops Map.empty
   in fst run = fst spec \<and> lookup (snd run) = snd spec \<and> store_inv 128 (snd run) \<and>
      store_len (snd run) \<le> 1"
  using store_refines_map [of "[OpPut (sample_envelope (Node (NodeId (replicate 32 68))) 9),
      OpPut (sample_envelope (Node (NodeId (replicate 32 68))) 9), OpExpire (TimestampMs 150),
      OpRemove (env_message_id (sample_envelope (Node (NodeId (replicate 32 68))) 9))]"
      128 1 store_policy_new]
  by (simp add: Let_def store_policy_new_def sample_envelope_wf wf_defs del: store_run.simps spec_run.simps)

text \<open>
  On a store satisfying its invariant, listing into a large enough buffer writes every stored
  frame once, in ascending order of expiry, creation time and message id, leaves the rest of the
  buffer alone, and \<open>first_pending\<close> is the head of that list; a buffer that is too short is
  reported and left untouched.
\<close>

theorem pending_sorted:
  assumes "store_inv fm s"
  shows "if store_len s \<le> length out
    then \<exists>ys. pending s out = (Ok (store_len s), ys @ drop (store_len s) out) \<and>
      mset ys = mset (stored_frames s) \<and> sorted (map frame_key ys) \<and>
      first_pending s = Ok (if ys = [] then None else Some (hd ys))
    else pending s out = (Err (StoreOutputTooSmall (length out) (store_len s)), out)"
proof (cases "store_len s \<le> length out")
  case True
  from pending_spec [OF assms True] obtain ys where
    ys: "pending s out = (Ok (length ys), ys @ drop (length ys) out)"
    "mset ys = mset (stored_frames s)" "sorted (map frame_key ys)"
    by blast
  have len: "length ys = store_len s" and set: "set ys = set (stored_frames s)"
    using mset_eq_length [OF ys(2)] mset_eq_setD [OF ys(2)] by (simp_all add: store_len_frames)
  have "first_pending s = Ok (if ys = [] then None else Some (hd ys))"
  proof (cases ys)
    case Nil
    with set first_pending_spec(1) [OF assms] show ?thesis by simp
  next
    case (Cons y ys')
    with set have "stored_frames s \<noteq> []" by auto
    from first_pending_spec(2) [OF assms this] obtain f where
      f: "f \<in> set ys" "first_pending s = Ok (Some f)" "\<forall>g \<in> set ys. frame_key f \<le> frame_key g"
      using set by auto
    moreover have "frame_key y \<le> frame_key f" using ys(3) f(1) Cons by auto
    ultimately have "frame_key f = frame_key y" using Cons by (simp add: order_antisym)
    then have "sf_message_id f = sf_message_id y" by (rule frame_key_inject)
    moreover have "distinct (map sf_message_id (stored_frames s))"
      using assms by (simp add: store_inv_def)
    ultimately have "f = y"
      using f(1) Cons set by (metis distinct_map inj_onD list.set_intros(1))
    with f(2) Cons show ?thesis by simp
  qed
  with ys True len show ?thesis by auto
qed (simp add: pending_def Let_def)

theorem pending_sorted_witness:
  "if store_len sample_store \<le> length ([] :: stored_frame list)
   then \<exists>ys. pending sample_store [] = (Ok (store_len sample_store), ys @ drop (store_len sample_store) []) \<and>
     mset ys = mset (stored_frames sample_store) \<and> sorted (map frame_key ys) \<and>
     first_pending sample_store = Ok (if ys = [] then None else Some (hd ys))
   else pending sample_store [] = (Err (StoreOutputTooSmall (length ([] :: stored_frame list)) (store_len sample_store)), [])"
  by (rule pending_sorted [OF sample_store_inv])

text \<open>
  C14: draining a store by repeatedly taking \<open>first_pending\<close> and removing it, as the gateway's
  flush does, visits every stored frame exactly once in ascending key order and empties the store.
\<close>

theorem store_drain_order:
  assumes "store_inv fm s"
  shows "let (fs, t) = hyf_store.drain (store_len s) s
    in stored_frames t = [] \<and> set fs = set (stored_frames s) \<and> length fs = store_len s \<and>
       sorted (map frame_key fs)"
proof -
  obtain fs t where "hyf_store.drain (store_len s) s = (fs, t)" by fastforce
  with hyf_store.drain_sorted [OF assms] show ?thesis
    by (simp add: lookup_empty_iff ran_lookup [OF assms])
qed

theorem store_drain_order_witness:
  "let (fs, t) = hyf_store.drain (store_len sample_store) sample_store
    in stored_frames t = [] \<and> set fs = set (stored_frames sample_store) \<and>
       length fs = store_len sample_store \<and> sorted (map frame_key fs)"
  by (rule store_drain_order [OF sample_store_inv])

end
