(* ===== verification/Hyf_Config.thy ===== *)
theory Hyf_Config
  imports Hyf_Router Hyf_Store
begin

text \<open>
  The crate \<open>hyf_config\<close>: the gateway configuration and its validation
  (\<open>src/crates/hyf_config/src/{config,error}.rs\<close>). The validators return the first error in
  the source's order; \<open>config_ok\<close> states declaratively what a valid configuration is, and the
  property shows that validation accepts exactly those.
\<close>

section \<open>Configuration\<close>

datatype config_error =
    InvalidNodeId
  | InvalidRouterLinkCapacity
  | InvalidRouterDedupeCapacity
  | InvalidStoreCapacity
  | InvalidLocalCommunity
  | DuplicateLocalCommunity community_id
  | InvalidLinkMtu link_id
  | DuplicateLinkId link_id
  | LinkCountExceedsRouter usize usize
  | LinkCountExceedsRouterCommandCapacity usize usize

record router_config =
  max_links :: usize
  max_seen_messages :: usize

record store_config =
  sc_capacity :: usize
  sc_policy :: store_policy

record link_config =
  lc_link_id :: link_id
  lc_mtu :: usize
  lc_enabled :: bool

record gateway_policy_config =
  allow_store_and_forward :: bool
  gp_local_communities :: "community_id option list"

record gateway_config =
  gc_node_id :: node_id
  gc_router :: router_config
  gc_store :: store_config
  gc_links :: "link_config option list"
  gc_policy :: gateway_policy_config

definition link_config_new :: "link_id \<Rightarrow> usize \<Rightarrow> link_config" where
  "link_config_new link_id mtu = \<lparr>lc_link_id = link_id, lc_mtu = mtu, lc_enabled = True\<rparr>"

definition link_config_disabled :: "link_id \<Rightarrow> usize \<Rightarrow> link_config" where
  "link_config_disabled link_id mtu = \<lparr>lc_link_id = link_id, lc_mtu = mtu, lc_enabled = False\<rparr>"

definition gateway_policy_config_new :: gateway_policy_config where
  "gateway_policy_config_new =
     \<lparr>allow_store_and_forward = True,
      gp_local_communities = replicate ROUTER_LOCAL_COMMUNITY_CAPACITY None\<rparr>"

definition with_local_communities :: "community_id option list \<Rightarrow> gateway_policy_config" where
  "with_local_communities cs = \<lparr>allow_store_and_forward = True, gp_local_communities = cs\<rparr>"

definition config_router_policy :: "gateway_config \<Rightarrow> router_policy" where
  "config_router_policy c =
     \<lparr>local_node_id = gc_node_id c, local_communities = gp_local_communities (gc_policy c)\<rparr>"

definition config_store_policy :: "gateway_config \<Rightarrow> store_policy" where
  "config_store_policy c = sc_policy (gc_store c)"

section \<open>Validation\<close>

definition validate_node_id :: "node_id \<Rightarrow> (unit, config_error) result" where
  "validate_node_id node_id = (if node_id = NodeId (replicate 32 0) then Err InvalidNodeId else Ok ())"

definition router_config_validate :: "router_config \<Rightarrow> (unit, config_error) result" where
  "router_config_validate r =
     (if max_links r = 0 then Err InvalidRouterLinkCapacity
      else if max_seen_messages r = 0 then Err InvalidRouterDedupeCapacity
      else Ok ())"

definition store_config_validate :: "store_config \<Rightarrow> (unit, config_error) result" where
  "store_config_validate s = (if sc_capacity s = 0 then Err InvalidStoreCapacity else Ok ())"

definition link_config_validate :: "link_config \<Rightarrow> (unit, config_error) result" where
  "link_config_validate l =
     (if lc_enabled l \<and> lc_mtu l = 0 then Err (InvalidLinkMtu (lc_link_id l)) else Ok ())"

definition enabled_count :: "link_config option list \<Rightarrow> usize" where
  "enabled_count links = length (filter (is_some_and lc_enabled) links)"

text \<open>
  The two scanning loops keep the slots after the current index (\<open>skip(index + 1)\<close>) as the
  rest of the list.
\<close>

definition has_duplicate_enabled_link :: "link_config option list \<Rightarrow> link_id \<Rightarrow> bool" where
  "has_duplicate_enabled_link rest link_id \<longleftrightarrow>
     (\<exists>other \<in> set rest. is_some_and (\<lambda>config. lc_enabled config \<and> lc_link_id config = link_id) other)"

fun link_config_set_validate :: "link_config option list \<Rightarrow> (unit, config_error) result" where
  "link_config_set_validate [] = Ok ()"
| "link_config_set_validate (None # rest) = link_config_set_validate rest"
| "link_config_set_validate (Some config # rest) =
     rbind (link_config_validate config) (\<lambda>_.
       if lc_enabled config \<and> has_duplicate_enabled_link rest (lc_link_id config)
       then Err (DuplicateLinkId (lc_link_id config))
       else link_config_set_validate rest)"

fun local_communities_validate :: "community_id option list \<Rightarrow> (unit, config_error) result" where
  "local_communities_validate [] = Ok ()"
| "local_communities_validate (None # rest) = local_communities_validate rest"
| "local_communities_validate (Some community_id # rest) =
     (if community_id = CommunityId (replicate 16 0) then Err InvalidLocalCommunity
      else if \<exists>other \<in> set rest. is_some_and (\<lambda>other_id. other_id = community_id) other
        then Err (DuplicateLocalCommunity community_id)
      else local_communities_validate rest)"

definition policy_config_validate :: "gateway_policy_config \<Rightarrow> (unit, config_error) result" where
  "policy_config_validate p = local_communities_validate (gp_local_communities p)"

definition gateway_config_validate :: "gateway_config \<Rightarrow> (unit, config_error) result" where
  "gateway_config_validate c =
     rbind (validate_node_id (gc_node_id c)) (\<lambda>_.
     rbind (router_config_validate (gc_router c)) (\<lambda>_.
     rbind (store_config_validate (gc_store c)) (\<lambda>_.
     rbind (policy_config_validate (gc_policy c)) (\<lambda>_.
     rbind (link_config_set_validate (gc_links c)) (\<lambda>_.
       let enabled_links = enabled_count (gc_links c);
           fanout_link_max = ROUTER_COMMAND_CAPACITY - 2
       in if enabled_links > max_links (gc_router c)
          then Err (LinkCountExceedsRouter enabled_links (max_links (gc_router c)))
          else if enabled_links > fanout_link_max
          then Err (LinkCountExceedsRouterCommandCapacity enabled_links fanout_link_max)
          else Ok ())))))"

section \<open>What a valid configuration is\<close>

definition enabled_links :: "gateway_config \<Rightarrow> link_config list" where
  "enabled_links c = filter lc_enabled (flatten (gc_links c))"

definition config_ok :: "gateway_config \<Rightarrow> bool" where
  "config_ok c \<longleftrightarrow>
     gc_node_id c \<noteq> NodeId (replicate 32 0) \<and>
     0 < max_links (gc_router c) \<and> 0 < max_seen_messages (gc_router c) \<and> 0 < sc_capacity (gc_store c) \<and>
     distinct (flatten (gp_local_communities (gc_policy c))) \<and>
     CommunityId (replicate 16 0) \<notin> set (flatten (gp_local_communities (gc_policy c))) \<and>
     distinct (map lc_link_id (enabled_links c)) \<and> (\<forall>l \<in> set (enabled_links c). 0 < lc_mtu l) \<and>
     length (enabled_links c) \<le> max_links (gc_router c) \<and> length (enabled_links c) \<le> 14"

lemma local_communities_validate_Ok:
  "local_communities_validate cs = Ok () \<longleftrightarrow>
     distinct (flatten cs) \<and> CommunityId (replicate 16 0) \<notin> set (flatten cs)"
proof (induction cs rule: local_communities_validate.induct)
  case (3 c rest)
  have dup: "(\<exists>other \<in> set rest. is_some_and (\<lambda>other_id. other_id = c) other) \<longleftrightarrow> c \<in> set (flatten rest)"
    by (auto simp: is_some_and_eq)
  from 3 show ?case
    unfolding local_communities_validate.simps dup by (auto simp del: set_flatten split: if_splits)
qed auto

lemma link_config_set_validate_Ok:
  "link_config_set_validate ls = Ok () \<longleftrightarrow>
     distinct (map lc_link_id (filter lc_enabled (flatten ls))) \<and>
     (\<forall>l \<in> set (filter lc_enabled (flatten ls)). 0 < lc_mtu l)"
proof (induction ls rule: link_config_set_validate.induct)
  case (3 l rest)
  have dup: "has_duplicate_enabled_link rest link \<longleftrightarrow>
      link \<in> lc_link_id ` set (filter lc_enabled (flatten rest))" for link
    by (auto simp: has_duplicate_enabled_link_def is_some_and_eq image_iff)
  from 3 show ?case
    by (cases "lc_enabled l")
       (auto simp: dup link_config_validate_def simp del: set_flatten split: if_splits)
qed auto

lemma enabled_count_length: "enabled_count ls = length (filter lc_enabled (flatten ls))"
  unfolding enabled_count_def by (induction ls) (auto split: option.splits)

lemma gateway_config_validate_Ok: "gateway_config_validate c = Ok () \<longleftrightarrow> config_ok c"
proof -
  have cap: "ROUTER_COMMAND_CAPACITY - 2 = 14" by (simp add: ROUTER_COMMAND_CAPACITY_def)
  show ?thesis
    unfolding gateway_config_validate_def config_ok_def enabled_links_def Let_def cap
    by (auto simp: validate_node_id_def router_config_validate_def store_config_validate_def
        policy_config_validate_def local_communities_validate_Ok link_config_set_validate_Ok
        enabled_count_length not_less simp del: set_flatten split: if_splits)
qed

lemma gateway_config_validate_no_panic: "gateway_config_validate c \<noteq> Panic"
proof -
  have "local_communities_validate cs \<noteq> Panic" for cs
    by (induction cs rule: local_communities_validate.induct) auto
  moreover have "link_config_set_validate ls \<noteq> Panic" for ls
    by (induction ls rule: link_config_set_validate.induct) (auto simp: link_config_validate_def)
  ultimately show ?thesis
    by (cases "local_communities_validate (gp_local_communities (gc_policy c))";
        cases "link_config_set_validate (gc_links c)")
       (auto simp: gateway_config_validate_def validate_node_id_def router_config_validate_def
        store_config_validate_def policy_config_validate_def Let_def)
qed

text \<open>
  Validation accepts exactly the configurations with a non-zero node id, positive capacities,
  distinct non-zero local communities, distinct enabled links with a positive MTU, and no more
  enabled links than the router holds and than a community fan-out plus a local delivery can
  command in one buffer. It never panics.
\<close>

theorem config_validate_iff:
  "(gateway_config_validate c = Ok () \<longleftrightarrow> config_ok c) \<and> gateway_config_validate c \<noteq> Panic"
  by (simp add: gateway_config_validate_Ok gateway_config_validate_no_panic)

end
