(* ===== verification/Hyf_Loopback.thy ===== *)
theory Hyf_Loopback
  imports Hyf_Link
begin

text \<open>
  The crate \<open>hyf_link_loopback\<close>: the in-memory link the gateway runtime drives
  (\<open>src/crates/hyf_link_loopback/src/{error,loopback}.rs\<close>). An endpoint owns a queue of
  \<open>N\<close> slots that is kept compact: frames occupy a prefix, the oldest at index 0. The queue is
  read as a FIFO list, and the driver interprets the \<open>link_driver\<close> contract.
\<close>

section \<open>Errors\<close>

datatype loopback_error =
    LoopDown link_id
  | LoopFrameTooLarge usize usize
  | InternalFrameTooLarge usize usize
  | QueueFull link_id usize
  | LoopOutputTooSmall usize usize
  | LinkMismatch link_id link_id

fun loopback_error_kind :: "loopback_error \<Rightarrow> link_driver_error_kind" where
  "loopback_error_kind (LoopDown _) = LinkDown"
| "loopback_error_kind (QueueFull _ _) = Backpressure"
| "loopback_error_kind (LoopOutputTooSmall _ _) = OutputTooSmall"
| "loopback_error_kind (LoopFrameTooLarge _ _) = KindFrameTooLarge"
| "loopback_error_kind (InternalFrameTooLarge _ _) = KindFrameTooLarge"
| "loopback_error_kind (LinkMismatch _ _) = Unsupported"

section \<open>Endpoints\<close>

definition LOOPBACK_MAX_FRAME_LEN :: usize where
  "LOOPBACK_MAX_FRAME_LEN = 2048"

definition LOOPBACK_LEFT_ID :: link_id where
  "LOOPBACK_LEFT_ID = LinkId (replicate 15 0 @ [1])"

definition LOOPBACK_RIGHT_ID :: link_id where
  "LOOPBACK_RIGHT_ID = LinkId (replicate 15 0 @ [2])"

datatype loopback_side = LeftSide | RightSide

fun side_link_id :: "loopback_side \<Rightarrow> link_id" where
  "side_link_id LeftSide = LOOPBACK_LEFT_ID"
| "side_link_id RightSide = LOOPBACK_RIGHT_ID"

fun side_peer_link_id :: "loopback_side \<Rightarrow> link_id" where
  "side_peer_link_id LeftSide = LOOPBACK_RIGHT_ID"
| "side_peer_link_id RightSide = LOOPBACK_LEFT_ID"

record queued_frame =
  qf_bytes :: "u8 list"
  qf_len :: usize
  qf_received_at_ms :: timestamp_ms

record loopback_endpoint =
  lep_link_id :: link_id
  lep_mtu :: usize
  lep_up :: bool
  lep_queue :: "queued_frame option list"

definition loopback_endpoint_new :: "usize \<Rightarrow> link_id \<Rightarrow> usize \<Rightarrow> loopback_endpoint" where
  "loopback_endpoint_new n link_id mtu =
     \<lparr>lep_link_id = link_id, lep_mtu = mtu, lep_up = True, lep_queue = replicate n None\<rparr>"

definition queued_len :: "loopback_endpoint \<Rightarrow> usize" where
  "queued_len ep = length (filter (\<lambda>frame. frame \<noteq> None) (lep_queue ep))"

definition set_up :: "bool \<Rightarrow> loopback_endpoint \<Rightarrow> link_event \<times> loopback_endpoint" where
  "set_up up ep =
     (if up then Up (lep_link_id ep) else Down (lep_link_id ep), ep\<lparr>lep_up := up\<rparr>)"

definition validate_frame_len :: "loopback_endpoint \<Rightarrow> u8 list \<Rightarrow> (unit, loopback_error) result" where
  "validate_frame_len ep bytes =
     (if length bytes > lep_mtu ep then Err (LoopFrameTooLarge (length bytes) (lep_mtu ep))
      else if length bytes > LOOPBACK_MAX_FRAME_LEN
        then Err (InternalFrameTooLarge (length bytes) LOOPBACK_MAX_FRAME_LEN)
      else Ok ())"

definition validate_send :: "loopback_endpoint \<Rightarrow> u8 list \<Rightarrow> (unit, loopback_error) result" where
  "validate_send ep bytes =
     (if \<not> lep_up ep then Err (LoopDown (lep_link_id ep)) else validate_frame_len ep bytes)"

definition validate_receive :: "loopback_endpoint \<Rightarrow> u8 list \<Rightarrow> (unit, loopback_error) result" where
  "validate_receive ep bytes =
     (if \<not> lep_up ep then Err (LoopDown (lep_link_id ep)) else validate_frame_len ep bytes)"

definition enqueue :: "u8 list \<Rightarrow> timestamp_ms \<Rightarrow> (loopback_endpoint, unit, loopback_error) stm" where
  "enqueue bytes received_at_ms ep =
     (case position is_none (lep_queue ep) of
        None \<Rightarrow> (Err (QueueFull (lep_link_id ep) (length (lep_queue ep))), ep)
      | Some index \<Rightarrow>
          (case copy_at (replicate LOOPBACK_MAX_FRAME_LEN 0) 0 bytes of
             Ok stored \<Rightarrow>
               (Ok (), ep\<lparr>lep_queue := (lep_queue ep)[index :=
                  Some \<lparr>qf_bytes = stored, qf_len = length bytes, qf_received_at_ms = received_at_ms\<rparr>]\<rparr>)
           | Err err \<Rightarrow> (Err err, ep)
           | Panic \<Rightarrow> (Panic, ep)))"

definition send_bytes_to ::
  "loopback_endpoint \<Rightarrow> u8 list \<Rightarrow> timestamp_ms \<Rightarrow> (loopback_endpoint, unit, loopback_error) stm" where
  "send_bytes_to self bytes now_ms =
     sbind (slift (validate_send self bytes)) (\<lambda>_.
     sbind (\<lambda>peer. slift (validate_receive peer bytes) peer) (\<lambda>_.
     enqueue bytes now_ms))"

definition send_command_to ::
  "loopback_endpoint \<Rightarrow> link_command \<Rightarrow> timestamp_ms \<Rightarrow> (loopback_endpoint, unit, loopback_error) stm" where
  "send_command_to self command now_ms =
     (if command_link_id command \<noteq> lep_link_id self
      then sthrow (LinkMismatch (lep_link_id self) (command_link_id command))
      else send_bytes_to self (command_bytes command) now_ms)"

text \<open>The shifting loop of \<open>shift_queue\<close>, index by index as the source writes it.\<close>

definition shift_queue :: "loopback_endpoint \<Rightarrow> loopback_endpoint" where
  "shift_queue ep =
     (let n = length (lep_queue ep) in
      if n = 0 then ep
      else ep\<lparr>lep_queue :=
        (fold (\<lambda>index queue. queue[index - 1 := queue ! index]) [1..<n] (lep_queue ep))[n - 1 := None]\<rparr>)"

definition receive_into ::
  "u8 list \<Rightarrow> loopback_endpoint \<Rightarrow>
   (link_frame option, loopback_error) result \<times> u8 list \<times> loopback_endpoint" where
  "receive_into output ep =
     (case get_at (lep_queue ep) 0 of
        Panic \<Rightarrow> (Panic, output, ep)
      | Err err \<Rightarrow> (Err err, output, ep)
      | Ok None \<Rightarrow> (Ok None, output, ep)
      | Ok (Some frame) \<Rightarrow>
          if length output < qf_len frame
          then (Err (LoopOutputTooSmall (length output) (qf_len frame)), output, ep)
          else (case rbind (slice_to (qf_bytes frame) (qf_len frame)) (copy_at output 0) of
             Ok output' \<Rightarrow>
               (Ok (Some \<lparr>frame_link_id = lep_link_id ep, frame_received_at_ms = qf_received_at_ms frame,
                  frame_bytes = take (qf_len frame) output'\<rparr>), output', shift_queue ep)
           | Err err \<Rightarrow> (Err err, output, ep)
           | Panic \<Rightarrow> (Panic, output, ep)))"

section \<open>The pair and the driver\<close>

record loopback_pair =
  lp_left :: loopback_endpoint
  lp_right :: loopback_endpoint

definition loopback_pair_new :: "usize \<Rightarrow> usize \<Rightarrow> loopback_pair" where
  "loopback_pair_new n mtu =
     \<lparr>lp_left = loopback_endpoint_new n LOOPBACK_LEFT_ID mtu,
      lp_right = loopback_endpoint_new n LOOPBACK_RIGHT_ID mtu\<rparr>"

record loopback_driver =
  ld_pair :: loopback_pair
  ld_side :: loopback_side

definition loopback_driver_new :: "usize \<Rightarrow> loopback_side \<Rightarrow> usize \<Rightarrow> loopback_driver" where
  "loopback_driver_new n side mtu = \<lparr>ld_pair = loopback_pair_new n mtu, ld_side = side\<rparr>"

definition endpoint_for_link_ref :: "loopback_pair \<Rightarrow> link_id \<Rightarrow> (loopback_endpoint, loopback_error) result" where
  "endpoint_for_link_ref pair link_id =
     (if link_id = LOOPBACK_LEFT_ID then Ok (lp_left pair)
      else if link_id = LOOPBACK_RIGHT_ID then Ok (lp_right pair)
      else Err (LinkMismatch LOOPBACK_LEFT_ID link_id))"

text \<open>\<open>&mut\<close> access to the endpoint of a link: \<open>run\<close> acts on it and it is written back.\<close>

definition endpoint_for_link_mut ::
  "link_id \<Rightarrow> (loopback_endpoint \<Rightarrow> 'a \<times> loopback_endpoint) \<Rightarrow>
   (loopback_pair, 'a, loopback_error) stm" where
  "endpoint_for_link_mut link_id run pair =
     (if link_id = LOOPBACK_LEFT_ID
      then (case run (lp_left pair) of (a, ep) \<Rightarrow> (Ok a, pair\<lparr>lp_left := ep\<rparr>))
      else if link_id = LOOPBACK_RIGHT_ID
      then (case run (lp_right pair) of (a, ep) \<Rightarrow> (Ok a, pair\<lparr>lp_right := ep\<rparr>))
      else (Err (LinkMismatch LOOPBACK_LEFT_ID link_id), pair))"

definition loopback_set_link_up :: "link_id \<Rightarrow> bool \<Rightarrow> (loopback_driver, link_event, loopback_error) stm" where
  "loopback_set_link_up link_id up d =
     (case endpoint_for_link_mut link_id (set_up up) (ld_pair d) of
        (res, pair) \<Rightarrow> (res, d\<lparr>ld_pair := pair\<rparr>))"

definition loopback_queued_len :: "loopback_driver \<Rightarrow> link_id \<Rightarrow> (usize, loopback_error) result" where
  "loopback_queued_len d link_id =
     rbind (endpoint_for_link_ref (ld_pair d) link_id) (\<lambda>ep. Ok (queued_len ep))"

definition receive_link_frame ::
  "link_id \<Rightarrow> u8 list \<Rightarrow> loopback_driver \<Rightarrow>
   (link_frame option, loopback_error) result \<times> u8 list \<times> loopback_driver" where
  "receive_link_frame link_id output d =
     (case endpoint_for_link_mut link_id
         (\<lambda>ep. case receive_into output ep of (res, out, ep') \<Rightarrow> ((res, out), ep')) (ld_pair d) of
        (Ok (res, out), pair) \<Rightarrow> (res, out, d\<lparr>ld_pair := pair\<rparr>)
      | (Err err, _) \<Rightarrow> (Err err, output, d)
      | (Panic, _) \<Rightarrow> (Panic, output, d))"

definition send_link_bytes ::
  "link_id \<Rightarrow> u8 list \<Rightarrow> timestamp_ms \<Rightarrow> (loopback_driver, unit, loopback_error) stm" where
  "send_link_bytes link_id bytes now_ms d =
     (if link_id = LOOPBACK_LEFT_ID
      then (case send_bytes_to (lp_left (ld_pair d)) bytes now_ms (lp_right (ld_pair d)) of
              (res, peer) \<Rightarrow> (res, d\<lparr>ld_pair := (ld_pair d)\<lparr>lp_right := peer\<rparr>\<rparr>))
      else if link_id = LOOPBACK_RIGHT_ID
      then (case send_bytes_to (lp_right (ld_pair d)) bytes now_ms (lp_left (ld_pair d)) of
              (res, peer) \<Rightarrow> (res, d\<lparr>ld_pair := (ld_pair d)\<lparr>lp_left := peer\<rparr>\<rparr>))
      else (Err (LinkMismatch (side_link_id (ld_side d)) link_id), d))"

definition tx_endpoint :: "loopback_driver \<Rightarrow> loopback_endpoint" where
  "tx_endpoint d = (case ld_side d of LeftSide \<Rightarrow> lp_left (ld_pair d) | RightSide \<Rightarrow> lp_right (ld_pair d))"

definition rx_endpoint :: "loopback_driver \<Rightarrow> loopback_endpoint" where
  "rx_endpoint d = (case ld_side d of LeftSide \<Rightarrow> lp_right (ld_pair d) | RightSide \<Rightarrow> lp_left (ld_pair d))"

text \<open>Writing back through \<open>rx_endpoint_mut\<close>.\<close>

definition rx_endpoint_mut :: "loopback_endpoint \<Rightarrow> loopback_driver \<Rightarrow> loopback_driver" where
  "rx_endpoint_mut ep d =
     (case ld_side d of
        LeftSide \<Rightarrow> d\<lparr>ld_pair := (ld_pair d)\<lparr>lp_right := ep\<rparr>\<rparr>
      | RightSide \<Rightarrow> d\<lparr>ld_pair := (ld_pair d)\<lparr>lp_left := ep\<rparr>\<rparr>)"

definition driver_is_up :: "loopback_driver \<Rightarrow> bool" where
  "driver_is_up d \<longleftrightarrow> lep_up (tx_endpoint d) \<and> lep_up (rx_endpoint d)"

definition driver_mtu :: "loopback_driver \<Rightarrow> usize" where
  "driver_mtu d = lep_mtu (tx_endpoint d)"

definition driver_link_id :: "loopback_driver \<Rightarrow> link_id" where
  "driver_link_id d = side_link_id (ld_side d)"

definition driver_send_bytes :: "u8 list \<Rightarrow> timestamp_ms \<Rightarrow> (loopback_driver, unit, loopback_error) stm" where
  "driver_send_bytes bytes now_ms d =
     (case send_bytes_to (tx_endpoint d) bytes now_ms (rx_endpoint d) of
        (res, rx) \<Rightarrow> (res, rx_endpoint_mut rx d))"

definition driver_poll_frame ::
  "timestamp_ms \<Rightarrow> u8 list \<Rightarrow> loopback_driver \<Rightarrow>
   (link_frame option, loopback_error) result \<times> u8 list \<times> loopback_driver" where
  "driver_poll_frame now_ms output d =
     (case receive_into output (rx_endpoint d) of
        (res, out, rx) \<Rightarrow> (res, out, rx_endpoint_mut rx d))"

section \<open>The queue as a FIFO\<close>

definition wf_queued :: "queued_frame \<Rightarrow> bool" where
  "wf_queued f \<longleftrightarrow> length (qf_bytes f) = LOOPBACK_MAX_FRAME_LEN \<and> qf_len f \<le> LOOPBACK_MAX_FRAME_LEN"

definition queue_inv :: "loopback_endpoint \<Rightarrow> bool" where
  "queue_inv ep \<longleftrightarrow> 0 < length (lep_queue ep) \<and> (\<forall>f. Some f \<in> set (lep_queue ep) \<longrightarrow> wf_queued f) \<and>
     (\<exists>fs m. lep_queue ep = map Some fs @ replicate m None)"

definition in_flight :: "loopback_endpoint \<Rightarrow> (timestamp_ms \<times> u8 list) list" where
  "in_flight ep = map (\<lambda>f. (qf_received_at_ms f, take (qf_len f) (qf_bytes f))) (flatten (lep_queue ep))"

lemma shift_fold:
  "k < length q \<Longrightarrow>
   fold (\<lambda>index queue. queue[index - 1 := queue ! index]) [1..<Suc k] q = take k (tl q) @ drop k q"
proof (induction k)
  case (Suc k)
  let ?f = "\<lambda>index queue. queue[index - 1 := queue ! index]"
  have IH: "fold ?f [1..<Suc k] q = take k (tl q) @ drop k q" using Suc by simp
  have upto: "[1..<Suc (Suc k)] = [1..<Suc k] @ [Suc k]" by simp
  have len: "length (take k (tl q)) = k" using Suc.prems by simp
  have "tl q ! k = q ! Suc k" using Suc.prems by (cases q) auto
  moreover have "k < length (tl q)" using Suc.prems by simp
  ultimately have "take (Suc k) (tl q) = take k (tl q) @ [q ! Suc k]"
    by (simp add: take_Suc_conv_app_nth)
  moreover have "(drop k q)[0 := y] = y # drop (Suc k) q" for y
    using Suc.prems by (subst Cons_nth_drop_Suc [symmetric]) simp_all
  moreover have "(drop k q) ! Suc 0 = q ! Suc k" using Suc.prems by simp
  ultimately show ?case
    using len Suc.prems
    by (simp only: upto fold_append o_apply IH fold_simps)
       (simp add: list_update_append nth_append)
qed simp

lemma shift_queue_tl:
  assumes "lep_queue ep = x # xs"
  shows "shift_queue ep = ep\<lparr>lep_queue := xs @ [None]\<rparr>"
proof -
  have "fold (\<lambda>index queue. queue[index - 1 := queue ! index]) [1..<Suc (length xs)] (x # xs) =
      take (length xs) xs @ drop (length xs) (x # xs)"
    using shift_fold [of "length xs" "x # xs"] by simp
  moreover have "drop (length xs) (x # xs) = [last (x # xs)]"
    by (cases xs rule: rev_cases) auto
  ultimately show ?thesis using assms by (simp add: shift_queue_def del: upt_Suc)
qed

lemma queue_inv_cases:
  assumes "queue_inv ep"
  obtains (empty) xs where "lep_queue ep = None # xs" "in_flight ep = []" "flatten (lep_queue ep) = []"
  | (frames) f fs m where "lep_queue ep = map Some (f # fs) @ replicate m None" "wf_queued f"
      "in_flight ep = (qf_received_at_ms f, take (qf_len f) (qf_bytes f)) #
         map (\<lambda>f. (qf_received_at_ms f, take (qf_len f) (qf_bytes f))) fs"
proof -
  from assms obtain fs m where q: "lep_queue ep = map Some fs @ replicate m None"
    and pos: "0 < length (lep_queue ep)"
    by (auto simp: queue_inv_def)
  show thesis
  proof (cases fs)
    case Nil
    with q pos obtain m' where "m = Suc m'" by (cases m) auto
    with Nil q empty show thesis by (simp add: in_flight_def)
  next
    case (Cons f gs)
    moreover from Cons q assms have "wf_queued f" by (auto simp: queue_inv_def)
    ultimately show thesis using q frames by (simp add: in_flight_def)
  qed
qed

lemma enqueue_Ok:
  assumes "queue_inv ep" and "enqueue bytes t ep = (Ok (), ep')"
  shows "queue_inv ep' \<and> in_flight ep' = in_flight ep @ [(t, bytes)] \<and>
    lep_link_id ep' = lep_link_id ep \<and> lep_mtu ep' = lep_mtu ep \<and> lep_up ep' = lep_up ep \<and>
    length (lep_queue ep') = length (lep_queue ep)"
proof -
  let ?f = "\<lparr>qf_bytes = bytes @ drop (length bytes) (replicate LOOPBACK_MAX_FRAME_LEN 0),
    qf_len = length bytes, qf_received_at_ms = t\<rparr>"
  from assms(2) obtain i where i: "position is_none (lep_queue ep) = Some i"
    by (auto simp: enqueue_def simp del: position_eq_None split: option.splits)
  with assms(2) have len: "length bytes \<le> LOOPBACK_MAX_FRAME_LEN"
    and ep': "ep' = ep\<lparr>lep_queue := (lep_queue ep)[i := Some ?f]\<rparr>"
    by (auto simp: enqueue_def copy_at_def split: if_splits)
  from assms(1) obtain fs m where q: "lep_queue ep = map Some fs @ replicate m None"
    by (auto simp: queue_inv_def)
  from position_length [OF i] position_nth [OF i] q obtain k where m: "m = Suc k"
    by (cases m) (auto simp: nth_append)
  have "position is_none (map Some fs @ None # ys) = Some (length fs)" for ys by (induction fs) auto
  with i q m have "i = length fs" by simp
  with q m have upd: "(lep_queue ep)[i := Some ?f] = map Some (fs @ [?f]) @ replicate k None"
    by (simp add: list_update_append)
  have "wf_queued ?f" using len by (simp add: wf_queued_def)
  moreover have "\<forall>f \<in> set fs. wf_queued f" using assms(1) q by (auto simp: queue_inv_def)
  ultimately have "queue_inv ep'"
    unfolding queue_inv_def ep' using upd by (auto intro!: exI [of _ "fs @ [?f]"] exI [of _ k])
  moreover have "in_flight ep' = in_flight ep @ [(t, bytes)]"
    unfolding in_flight_def ep' using upd q by simp
  ultimately show ?thesis using ep' by simp
qed

lemma validate_frame_len_Ok:
  "validate_frame_len ep bytes = Ok () \<longleftrightarrow> length bytes \<le> lep_mtu ep \<and> length bytes \<le> LOOPBACK_MAX_FRAME_LEN"
  by (auto simp: validate_frame_len_def)

text \<open>Every outcome of a send: it is accepted exactly under the four conditions of the code.\<close>

lemma send_bytes_to_cases:
  assumes "queue_inv peer"
  shows "if lep_up self \<and> lep_up peer \<and> length bytes \<le> lep_mtu self \<and> length bytes \<le> lep_mtu peer \<and>
      length bytes \<le> LOOPBACK_MAX_FRAME_LEN \<and> length (in_flight peer) < length (lep_queue peer)
    then fst (send_bytes_to self bytes t peer) = Ok ()
    else \<exists>err. send_bytes_to self bytes t peer = (Err err, peer)"
proof -
  have full: "position is_none (lep_queue peer) = None \<longleftrightarrow> length (in_flight peer) = length (lep_queue peer)"
    by (simp only: position_None_full in_flight_def length_map)
  have le: "length (in_flight peer) \<le> length (lep_queue peer)"
    by (simp add: in_flight_def length_flatten_le)
  show ?thesis
    using full le
    by (cases "position is_none (lep_queue peer)")
       (auto simp: send_bytes_to_def sbind_def slift_def validate_send_def validate_receive_def
         validate_frame_len_def enqueue_def copy_at_def simp del: position_eq_None)
qed

lemma send_bytes_to_Ok:
  assumes "queue_inv peer" and "send_bytes_to self bytes t peer = (Ok (), peer')"
  shows "queue_inv peer' \<and> in_flight peer' = in_flight peer @ [(t, bytes)] \<and>
    lep_link_id peer' = lep_link_id peer \<and> lep_mtu peer' = lep_mtu peer \<and> lep_up peer' = lep_up peer \<and>
    length (lep_queue peer') = length (lep_queue peer)"
proof -
  from assms(2) have "enqueue bytes t peer = (Ok (), peer')"
    by (auto simp: send_bytes_to_def sbind_eq_Ok)
  with assms(1) show ?thesis by (rule enqueue_Ok)
qed

lemma receive_into_empty:
  "queue_inv ep \<Longrightarrow> in_flight ep = [] \<Longrightarrow> receive_into out ep = (Ok None, out, ep)"
  by (erule queue_inv_cases) (simp_all add: receive_into_def get_at_def)

lemma receive_into_first:
  assumes "queue_inv ep" and "in_flight ep = (t, bs) # ws" and "length bs \<le> length out"
  shows "\<exists>ep'. receive_into out ep = (Ok (Some \<lparr>frame_link_id = lep_link_id ep,
      frame_received_at_ms = t, frame_bytes = bs\<rparr>), bs @ drop (length bs) out, ep') \<and>
    queue_inv ep' \<and> in_flight ep' = ws \<and> lep_link_id ep' = lep_link_id ep \<and>
    lep_mtu ep' = lep_mtu ep \<and> lep_up ep' = lep_up ep \<and> length (lep_queue ep') = length (lep_queue ep)"
  using assms(1)
proof (cases rule: queue_inv_cases)
  case (frames f fs m)
  with assms(2) have t: "t = qf_received_at_ms f" and bs: "bs = take (qf_len f) (qf_bytes f)"
    and ws: "ws = map (\<lambda>f. (qf_received_at_ms f, take (qf_len f) (qf_bytes f))) fs"
    by auto
  have len: "length bs = qf_len f" using frames(2) bs by (simp add: wf_queued_def)
  have q: "lep_queue ep = Some f # (map Some fs @ replicate m None)" using frames(1) by simp
  let ?ep = "ep\<lparr>lep_queue := (map Some fs @ replicate m None) @ [None]\<rparr>"
  have compact: "(map Some fs @ replicate m None) @ [None] = map Some fs @ replicate (Suc m) None"
    by (simp add: replicate_append_same)
  have "\<forall>g \<in> set fs. wf_queued g" using assms(1) q by (auto simp: queue_inv_def)
  then have "queue_inv ?ep"
    unfolding queue_inv_def by (auto simp: compact intro!: exI [of _ fs] exI [of _ "Suc m"] simp del: append_assoc replicate_Suc)
  moreover have "in_flight ?ep = ws" using ws by (simp add: in_flight_def)
  moreover have "receive_into out ep = (Ok (Some \<lparr>frame_link_id = lep_link_id ep,
      frame_received_at_ms = t, frame_bytes = bs\<rparr>), bs @ drop (length bs) out, ?ep)"
    using q t bs len assms(3) frames(2) shift_queue_tl [OF q]
    by (simp add: receive_into_def get_at_def slice_to_def wf_queued_def copy_at_def)
  ultimately show ?thesis using q by simp
qed (use assms(2) in simp)

lemma receive_into_short:
  assumes "queue_inv ep" and "in_flight ep = (t, bs) # ws" and "length out < length bs"
  shows "receive_into out ep = (Err (LoopOutputTooSmall (length out) (length bs)), out, ep)"
  using assms(1)
proof (cases rule: queue_inv_cases)
  case (frames f fs m)
  with assms(2) have "length bs = qf_len f" by (auto simp: wf_queued_def)
  with frames assms(2,3) show ?thesis by (simp add: receive_into_def get_at_def)
qed (use assms(2) in simp)

section \<open>The driver keeps the link contract\<close>

definition driver_inv :: "loopback_driver \<Rightarrow> bool" where
  "driver_inv d \<longleftrightarrow> queue_inv (lp_left (ld_pair d)) \<and> queue_inv (lp_right (ld_pair d)) \<and>
     lep_link_id (lp_left (ld_pair d)) = LOOPBACK_LEFT_ID \<and> lep_link_id (lp_right (ld_pair d)) = LOOPBACK_RIGHT_ID"

definition driver_wire :: "loopback_driver \<Rightarrow> (timestamp_ms \<times> u8 list) list" where
  "driver_wire d = in_flight (rx_endpoint d)"

lemma loopback_driver_new_inv:
  "0 < n \<Longrightarrow> driver_inv (loopback_driver_new n side mtu) \<and> driver_wire (loopback_driver_new n side mtu) = []"
  by (auto simp: driver_inv_def driver_wire_def loopback_driver_new_def loopback_pair_new_def
      loopback_endpoint_new_def queue_inv_def in_flight_def rx_endpoint_def
      intro!: exI [of _ "[]"] split: loopback_side.splits)

lemma rx_endpoint_mut_simps [simp]:
  "rx_endpoint (rx_endpoint_mut ep d) = ep" "tx_endpoint (rx_endpoint_mut ep d) = tx_endpoint d"
  "rx_endpoint_mut (rx_endpoint d) d = d" "ld_side (rx_endpoint_mut ep d) = ld_side d"
  by (cases "ld_side d"; simp add: rx_endpoint_mut_def rx_endpoint_def tx_endpoint_def)+

lemma driver_inv_rx:
  "driver_inv d \<longleftrightarrow> queue_inv (rx_endpoint d) \<and> queue_inv (tx_endpoint d) \<and>
     lep_link_id (tx_endpoint d) = side_link_id (ld_side d) \<and>
     lep_link_id (rx_endpoint d) = side_peer_link_id (ld_side d)"
  by (cases "ld_side d") (auto simp: driver_inv_def rx_endpoint_def tx_endpoint_def)

interpretation loopback_link: link_driver driver_inv driver_wire driver_send_bytes driver_poll_frame
proof unfold_locales
  fix d d' :: loopback_driver and bs t
  assume "driver_inv d" "driver_send_bytes bs t d = (Ok (), d')"
  with send_bytes_to_Ok [of "rx_endpoint d" "tx_endpoint d" bs t "rx_endpoint d'"]
  show "driver_inv d' \<and> driver_wire d' = driver_wire d @ [(t, bs)]"
    by (auto simp: driver_send_bytes_def driver_wire_def driver_inv_rx split: prod.splits)
next
  fix d d' :: loopback_driver and bs t e
  assume "driver_inv d" and run: "driver_send_bytes bs t d = (Err e, d')"
  then have "queue_inv (rx_endpoint d)" by (simp add: driver_inv_rx)
  from send_bytes_to_cases [OF this, of "tx_endpoint d" bs t] run show "d' = d"
    by (auto simp: driver_send_bytes_def split: prod.splits if_splits)
next
  fix d :: loopback_driver and bs t
  assume "driver_inv d"
  then have "queue_inv (rx_endpoint d)" by (simp add: driver_inv_rx)
  from send_bytes_to_cases [OF this, of "tx_endpoint d" bs t] show "fst (driver_send_bytes bs t d) \<noteq> Panic"
    by (auto simp: driver_send_bytes_def split: prod.splits if_splits)
next
  fix d :: loopback_driver and now out
  assume "driver_inv d" "driver_wire d = []"
  then show "driver_poll_frame now out d = (Ok None, out, d)"
    by (simp add: driver_poll_frame_def driver_wire_def driver_inv_rx receive_into_empty)
next
  fix d :: loopback_driver and t bs ws and out :: "u8 list" and now
  assume "driver_inv d" "driver_wire d = (t, bs) # ws" "length bs \<le> length out"
  with receive_into_first [of "rx_endpoint d" t bs ws out]
  show "\<exists>f d'. driver_poll_frame now out d = (Ok (Some f), bs @ drop (length bs) out, d') \<and>
      frame_bytes f = bs \<and> frame_received_at_ms f = t \<and> driver_inv d' \<and> driver_wire d' = ws"
    by (auto simp: driver_poll_frame_def driver_wire_def driver_inv_rx)
next
  fix d :: loopback_driver and t bs ws and out :: "u8 list" and now
  assume "driver_inv d" "driver_wire d = (t, bs) # ws" "length out < length bs"
  then show "\<exists>e. driver_poll_frame now out d = (Err e, out, d)"
    by (simp add: driver_poll_frame_def driver_wire_def driver_inv_rx receive_into_short)
qed

section \<open>Properties\<close>

text \<open>
  The source's caller, run over a list of frames: send each in turn, stopping at the first
  failure; then poll a number of times into a buffer of \<open>n\<close> bytes.
\<close>

lemma send_all_fits:
  assumes "driver_inv d" and "driver_is_up d"
    and "\<forall>(t, bs) \<in> set ws. length bs \<le> min (min (lep_mtu (tx_endpoint d)) (lep_mtu (rx_endpoint d))) LOOPBACK_MAX_FRAME_LEN"
    and "length (driver_wire d) + length ws \<le> length (lep_queue (rx_endpoint d))"
  shows "\<exists>d'. loopback_link.send_all ws d = Some d'"
  using assms
proof (induction ws arbitrary: d)
  case (Cons w ws)
  obtain t bs where w: "w = (t, bs)" by (cases w)
  have inv: "queue_inv (rx_endpoint d)" using Cons.prems(1) by (simp add: driver_inv_rx)
  from send_bytes_to_cases [OF inv, of "tx_endpoint d" bs t] Cons.prems(2-4) w obtain rx where
    rx: "send_bytes_to (tx_endpoint d) bs t (rx_endpoint d) = (Ok (), rx)"
    by (auto simp: driver_is_up_def driver_wire_def fst_eq_ex)
  let ?d = "rx_endpoint_mut rx d"
  have step: "driver_send_bytes bs t d = (Ok (), ?d)" by (simp add: driver_send_bytes_def rx)
  from send_bytes_to_Ok [OF inv rx] Cons.prems
  have "\<exists>d'. loopback_link.send_all ws ?d = Some d'"
    by (intro Cons.IH) (auto simp: driver_inv_rx driver_is_up_def driver_wire_def)
  with step w show ?case by simp
qed simp

text \<open>
  C18. The loopback link is a reliable FIFO: on a fresh driver with room for the frames, each no
  longer than the MTU, the internal maximum and the poller's buffer, every send succeeds and
  polling returns exactly the frames sent, in order, unchanged and with their timestamps.
\<close>

theorem loopback_fifo:
  assumes "0 < n" and "length ws \<le> n"
    and "\<forall>(t, bs) \<in> set ws. length bs \<le> min (min mtu LOOPBACK_MAX_FRAME_LEN) buf"
  shows "\<exists>d'. loopback_link.send_all ws (loopback_driver_new n side mtu) = Some d' \<and>
    loopback_link.poll_all (length ws) buf d' = ws"
proof -
  let ?d = "loopback_driver_new n side mtu"
  note new = loopback_driver_new_inv [OF assms(1), of side mtu]
  have ep: "lep_mtu (tx_endpoint ?d) = mtu" "lep_mtu (rx_endpoint ?d) = mtu"
    "length (lep_queue (rx_endpoint ?d)) = n" "driver_is_up ?d"
    by (cases side; simp add: tx_endpoint_def rx_endpoint_def loopback_driver_new_def
        loopback_pair_new_def loopback_endpoint_new_def driver_is_up_def)+
  from send_all_fits [of ?d ws] new ep assms(2,3) obtain d' where
    d': "loopback_link.send_all ws ?d = Some d'"
    by fastforce
  from loopback_link.fifo_delivery [OF _ _ d', of buf] new assms(3) show ?thesis
    using d' by fastforce
qed

theorem loopback_fifo_witness:
  "\<exists>d'. loopback_link.send_all [(TimestampMs 1, [1, 2, 3]), (TimestampMs 2, [4])]
      (loopback_driver_new 2 LeftSide 64) = Some d' \<and>
    loopback_link.poll_all 2 16 d' = [(TimestampMs 1, [1, 2, 3]), (TimestampMs 2, [4])]"
  using loopback_fifo [of 2 "[(TimestampMs 1, [1, 2, 3]), (TimestampMs 2, [4])]" 64 16 LeftSide]
  by (simp add: LOOPBACK_MAX_FRAME_LEN_def numeral_2_eq_2)

end
