(* ===== verification/Hyf_Gateway.thy ===== *)
theory Hyf_Gateway
  imports Hyf_Config Hyf_Loopback
begin

text \<open>
  The gateway core of the crate \<open>hyf_gateway\<close>
  (\<open>src/crates/hyf_gateway/src/{error,metrics,core}.rs\<close>): it owns the router and the store,
  executes the router's commands and flushes the store. The trait \<open>GatewayLinkExecutor\<close> is the
  parameter \<open>send\<close> of the operations, with the executor's state \<open>'x\<close> beside the core's; the
  locale \<open>link_executor\<close> states what the core relies on, and the lemmas about the core are
  proved in it. The runtime interprets it with the loopback driver.
\<close>

section \<open>Errors and metrics\<close>

datatype gateway_error =
    GwConfig config_error
  | GwRouter router_error
  | GwStore store_error
  | GwWire hyf_wire_error
  | GwLoopback loopback_error
  | UnsupportedLink link_id
  | GwDriver link_id link_driver_error_kind
  | RuntimeCapacity string usize usize

fun gw_is_recoverable_send_failure :: "gateway_error \<Rightarrow> bool" where
  "gw_is_recoverable_send_failure (GwDriver _ kind) = is_recoverable_send_failure kind"
| "gw_is_recoverable_send_failure (GwLoopback error) = is_recoverable_send_failure (loopback_error_kind error)"
| "gw_is_recoverable_send_failure _ = False"

record gateway_metrics =
  submitted :: u64
  received :: u64
  sent :: u64
  stored :: u64
  delivered :: u64
  dropped :: u64
  expired :: u64
  link_errors :: u64
  bytes_sent :: u64

definition gateway_metrics_default :: gateway_metrics where
  "gateway_metrics_default =
     \<lparr>submitted = 0, received = 0, sent = 0, stored = 0, delivered = 0, dropped = 0, expired = 0,
      link_errors = 0, bytes_sent = 0\<rparr>"

section \<open>State\<close>

definition GATEWAY_FRAME_BUFFER_LEN :: usize where
  "GATEWAY_FRAME_BUFFER_LEN = 2048"

record gateway_core =
  gw_config :: gateway_config
  gw_router :: router
  gw_store :: store
  gw_metrics :: gateway_metrics
  gw_last_now_ms :: timestamp_ms
  gw_last_delivered_message_id :: "message_id option"
  gw_last_delivered_payload_len :: usize

definition validate_runtime_capacity :: "string \<Rightarrow> usize \<Rightarrow> usize \<Rightarrow> (unit, gateway_error) result" where
  "validate_runtime_capacity name configured maximum =
     (if configured > maximum then Err (RuntimeCapacity name configured maximum) else Ok ())"

definition gateway_core_new ::
  "usize \<Rightarrow> usize \<Rightarrow> usize \<Rightarrow> gateway_config \<Rightarrow> (gateway_core, gateway_error) result" where
  "gateway_core_new MAX_LINKS MAX_SEEN STORE_CAPACITY config =
     rbind (map_err GwConfig (gateway_config_validate config)) (\<lambda>_.
     rbind (validate_runtime_capacity ''router links'' (max_links (gc_router config)) MAX_LINKS) (\<lambda>_.
     rbind (validate_runtime_capacity ''router dedupe'' (max_seen_messages (gc_router config)) MAX_SEEN) (\<lambda>_.
     rbind (validate_runtime_capacity ''store'' (sc_capacity (gc_store config)) STORE_CAPACITY) (\<lambda>_.
       Ok \<lparr>gw_config = config, gw_router = router_new MAX_LINKS MAX_SEEN (config_router_policy config),
           gw_store = store_new STORE_CAPACITY (config_store_policy config),
           gw_metrics = gateway_metrics_default, gw_last_now_ms = TimestampMs 0,
           gw_last_delivered_message_id = None, gw_last_delivered_payload_len = 0\<rparr>))))"

definition dummy_command :: router_command where
  "dummy_command = Drop (MessageId (replicate 32 0)) DropDuplicate"

definition commands_buffer :: "router_command list" where
  "commands_buffer = replicate ROUTER_COMMAND_CAPACITY dummy_command"

section \<open>Executing commands\<close>

type_synonym 'x executor = "link_id \<Rightarrow> u8 list \<Rightarrow> timestamp_ms \<Rightarrow> ('x, unit, gateway_error) stm"
type_synonym ('x, 'a) gw = "(gateway_core \<times> 'x, 'a, gateway_error) stm"

definition upd_metrics :: "(gateway_metrics \<Rightarrow> gateway_metrics) \<Rightarrow> ('x, unit) gw" where
  "upd_metrics f = (\<lambda>(g, x). (Ok (), (g\<lparr>gw_metrics := f (gw_metrics g)\<rparr>, x)))"

definition router_commit :: "hyf_envelope \<Rightarrow> ('x, unit) gw" where
  "router_commit e = (\<lambda>(g, x).
     case commit_seen e (gw_router g) of
       (res, r) \<Rightarrow> (map_err GwRouter res, (g\<lparr>gw_router := r\<rparr>, x)))"

definition send_envelope :: "'x executor \<Rightarrow> link_id \<Rightarrow> hyf_envelope \<Rightarrow> ('x, unit) gw" where
  "send_envelope send link_id e = (\<lambda>(g, x).
     case encode_envelope e (replicate GATEWAY_FRAME_BUFFER_LEN 0) of (res, frame) \<Rightarrow>
       (case map_err GwWire (rbind res (\<lambda>len. slice_to frame len)) of
          Err err \<Rightarrow> (Err err, (g, x))
        | Panic \<Rightarrow> (Panic, (g, x))
        | Ok bytes \<Rightarrow>
            (case send link_id bytes (env_created_at_ms e) x of
               (Err err, x') \<Rightarrow>
                 (Err err, (g\<lparr>gw_metrics := (gw_metrics g)\<lparr>link_errors :=
                    saturating_add (link_errors (gw_metrics g)) 1\<rparr>\<rparr>, x'))
             | (Panic, x') \<Rightarrow> (Panic, (g, x'))
             | (Ok _, x') \<Rightarrow>
                 (Ok (), (g\<lparr>gw_metrics := (gw_metrics g)
                    \<lparr>sent := saturating_add (sent (gw_metrics g)) 1,
                     bytes_sent := saturating_add (bytes_sent (gw_metrics g)) (of_nat (length bytes))\<rparr>\<rparr>, x')))))"

definition gateway_put :: "hyf_envelope \<Rightarrow> ('x, unit) gw" where
  "gateway_put e = (\<lambda>(g, x).
     case put_envelope GATEWAY_FRAME_BUFFER_LEN e (gw_store g) of
       (res, s) \<Rightarrow> (map_err GwStore res, (g\<lparr>gw_store := s\<rparr>, x)))"

definition gateway_remove :: "message_id \<Rightarrow> ('x, unit) gw" where
  "gateway_remove message_id = (\<lambda>(g, x).
     case store_remove message_id (gw_store g) of
       (res, s) \<Rightarrow> (map_err GwStore res, (g\<lparr>gw_store := s\<rparr>, x)))"

definition gateway_expire :: "timestamp_ms \<Rightarrow> ('x, unit) gw" where
  "gateway_expire now = (\<lambda>(g, x).
     case expire_before now (gw_store g) of
       (n, s) \<Rightarrow> (Ok (), (g\<lparr>gw_store := s, gw_metrics := (gw_metrics g)\<lparr>expired :=
          saturating_add (expired (gw_metrics g)) (of_nat n)\<rparr>\<rparr>, x)))"

definition deliver_local :: "hyf_envelope \<Rightarrow> ('x, unit) gw" where
  "deliver_local e = (\<lambda>(g, x).
     (Ok (), (g\<lparr>gw_last_delivered_message_id := Some (env_message_id e),
                gw_last_delivered_payload_len := length (env_payload e),
                gw_metrics := (gw_metrics g)\<lparr>delivered := saturating_add (delivered (gw_metrics g)) 1\<rparr>\<rparr>, x)))"

definition count_drop :: "('x, unit) gw" where
  "count_drop = upd_metrics (\<lambda>m. m\<lparr>dropped := saturating_add (dropped m) 1\<rparr>)"

definition execute_command :: "'x executor \<Rightarrow> router_command \<Rightarrow> ('x, unit) gw" where
  "execute_command send command = (\<lambda>(g, x).
     (case command of
        SendTo link_id e \<Rightarrow> sbind (send_envelope send link_id e) (\<lambda>_. router_commit e)
      | StoreCmd (Put e) \<Rightarrow>
          if allow_store_and_forward (gc_policy (gw_config g))
          then sbind (gateway_put e) (\<lambda>_.
               sbind (upd_metrics (\<lambda>m. m\<lparr>stored := saturating_add (stored m) 1\<rparr>)) (\<lambda>_.
               router_commit e))
          else count_drop
      | StoreCmd (Remove message_id) \<Rightarrow> gateway_remove message_id
      | StoreCmd (ExpireBefore now) \<Rightarrow> gateway_expire now
      | Drop _ _ \<Rightarrow> count_drop
      | DropFrame _ _ \<Rightarrow> count_drop
      | DeliverLocal e \<Rightarrow> sbind (deliver_local e) (\<lambda>_. router_commit e)) (g, x))"

record command_execution =
  successes :: usize
  planned_sends :: usize
  successful_sends :: usize
  first_error :: "gateway_error option"
  first_nonrecoverable_error :: "gateway_error option"

definition command_execution_default :: command_execution where
  "command_execution_default =
     \<lparr>successes = 0, planned_sends = 0, successful_sends = 0, first_error = None,
      first_nonrecoverable_error = None\<rparr>"

definition is_send :: "router_command \<Rightarrow> bool" where
  "is_send command = (case command of SendTo _ _ \<Rightarrow> True | _ \<Rightarrow> False)"

text \<open>Bookkeeping of one executed command; then the loop over the commands.\<close>

fun record_outcome :: "bool \<Rightarrow> (unit, gateway_error) result \<Rightarrow> command_execution \<Rightarrow> command_execution" where
  "record_outcome snd_cmd (Ok _) res =
     res\<lparr>successes := successes res + 1,
         successful_sends := successful_sends res + (if snd_cmd then 1 else 0)\<rparr>"
| "record_outcome snd_cmd (Err err) res =
     res\<lparr>first_error := (if first_error res = None then Some err else first_error res),
         first_nonrecoverable_error :=
           (if \<not> gw_is_recoverable_send_failure err \<and> first_nonrecoverable_error res = None
            then Some err else first_nonrecoverable_error res)\<rparr>"
| "record_outcome snd_cmd Panic res = res"

fun execute_commands_loop ::
  "'x executor \<Rightarrow> router_command list \<Rightarrow> command_execution \<Rightarrow> ('x, command_execution) gw" where
  "execute_commands_loop send [] res s = (Ok res, s)"
| "execute_commands_loop send (command # commands) res s =
     (let res1 = (if is_send command then res\<lparr>planned_sends := planned_sends res + 1\<rparr> else res) in
      case execute_command send command s of
        (Panic, s') \<Rightarrow> (Panic, s')
      | (outcome, s') \<Rightarrow>
          execute_commands_loop send commands (record_outcome (is_send command) outcome res1) s')"

definition execute_commands_record :: "'x executor \<Rightarrow> router_command list \<Rightarrow> ('x, command_execution) gw" where
  "execute_commands_record send commands =
     execute_commands_loop send commands command_execution_default"

definition execute_commands :: "'x executor \<Rightarrow> router_command list \<Rightarrow> ('x, unit) gw" where
  "execute_commands send commands =
     sbind (execute_commands_record send commands) (\<lambda>result.
       if successes result > 0 \<or> commands = [] then sret ()
       else case first_error result of Some error \<Rightarrow> sthrow error | None \<Rightarrow> sret ())"

definition execute_commands_for_flush :: "'x executor \<Rightarrow> router_command list \<Rightarrow> ('x, bool) gw" where
  "execute_commands_for_flush send commands =
     sbind (execute_commands_record send commands) (\<lambda>result.
       case first_nonrecoverable_error result of
         Some error \<Rightarrow> sthrow error
       | None \<Rightarrow>
           if planned_sends result > 0 then sret (successful_sends result = planned_sends result)
           else if successes result > 0 \<or> commands = [] then sret True
           else case first_error result of
             Some error \<Rightarrow> if gw_is_recoverable_send_failure error then sret False else sthrow error
           | None \<Rightarrow> sret True)"

section \<open>Flushing the store\<close>

text \<open>
  One iteration of the loop in \<open>flush_store\<close>: \<open>True\<close> goes on, \<open>False\<close> leaves the loop
  (no pending frame, nothing to command, or a send that has to be retried later).
\<close>

definition forward_stored_commands :: "hyf_envelope \<Rightarrow> ('x, usize \<times> router_command list) gw" where
  "forward_stored_commands e = (\<lambda>(g, x).
     case forward_stored (gw_router g) e commands_buffer of
       (res, commands) \<Rightarrow> (map_err GwRouter (rbind res (\<lambda>count. Ok (count, commands))), (g, x)))"

definition flush_step :: "'x executor \<Rightarrow> ('x, bool) gw" where
  "flush_step send =
     sbind (\<lambda>(g, x). slift (map_err GwStore (first_pending (gw_store g))) (g, x)) (\<lambda>pending.
       case pending of
         None \<Rightarrow> sret False
       | Some stored_frame \<Rightarrow>
           (let message_id = sf_message_id stored_frame;
                len = length (sf_bytes stored_frame)
            in
            sbind (slift (rbind (copy_at (replicate GATEWAY_FRAME_BUFFER_LEN 0) 0 (sf_bytes stored_frame))
                (\<lambda>frame. slice_to frame len))) (\<lambda>bytes.
            sbind (slift (map_err GwWire (decode_envelope bytes))) (\<lambda>e.
            sbind (forward_stored_commands e) (\<lambda>(count, commands).
              if count = 0 then sret False
              else
                sbind (slift (slice_to commands count)) (\<lambda>planned.
                sbind (execute_commands_for_flush send planned) (\<lambda>done.
                  if \<not> done then sret False
                  else sbind (gateway_remove message_id) (\<lambda>_. sret True))))))))"

text \<open>
  The commands of a stored envelope never touch the store, so an iteration that goes on has
  removed exactly one frame: the loop ends.
\<close>

abbreviation store_of :: "gateway_core \<times> 'x \<Rightarrow> store" where
  "store_of s \<equiv> gw_store (fst s)"

fun store_free :: "router_command \<Rightarrow> bool" where
  "store_free (StoreCmd _) = False"
| "store_free _ = True"

lemma keeps_store [judgements]:
  "keeps store_of (upd_metrics f)" "keeps store_of (router_commit e)" "keeps store_of (send_envelope send l e)"
  "keeps store_of (deliver_local e)" "keeps store_of count_drop" "keeps store_of (forward_stored_commands e)"
  by (auto simp: keeps_def upd_metrics_def router_commit_def send_envelope_def deliver_local_def
      count_drop_def forward_stored_commands_def split: prod.splits result.splits)

lemma execute_command_keeps_store: "store_free c \<Longrightarrow> keeps store_of (execute_command send c)"
proof (cases c)
  case (SendTo l e)
  have "execute_command send c = sbind (send_envelope send l e) (\<lambda>_. router_commit e)"
    by (auto simp: SendTo execute_command_def fun_eq_iff)
  then show ?thesis by (auto intro: judgements)
next
  case (Drop m r)
  have "execute_command send c = count_drop" by (auto simp: Drop execute_command_def fun_eq_iff)
  then show ?thesis by (auto intro: judgements)
next
  case (DropFrame l r)
  have "execute_command send c = count_drop" by (auto simp: DropFrame execute_command_def fun_eq_iff)
  then show ?thesis by (auto intro: judgements)
next
  case (DeliverLocal e)
  have "execute_command send c = sbind (deliver_local e) (\<lambda>_. router_commit e)"
    by (auto simp: DeliverLocal execute_command_def fun_eq_iff)
  then show ?thesis by (auto intro: judgements)
qed simp

lemma execute_loop_keeps_store:
  assumes "\<forall>c \<in> set cs. store_free c"
  shows "keeps store_of (execute_commands_loop send cs res)"
proof -
  have "store_of (snd (execute_commands_loop send cs res s)) = store_of s" for s
    using assms
  proof (induction cs arbitrary: res s)
    case (Cons c cs)
    obtain q s1 where q: "execute_command send c s = (q, s1)" by (cases "execute_command send c s")
    from Cons.prems have "store_free c" by simp
    from keepsD [OF execute_command_keeps_store [OF this] q] have "store_of s1 = store_of s" .
    with Cons q show ?case by (cases q) (simp_all add: Let_def)
  qed simp
  then show ?thesis by (simp add: keeps_def)
qed

lemma execute_for_flush_keeps_store:
  "\<forall>c \<in> set cs. store_free c \<Longrightarrow> keeps store_of (execute_commands_for_flush send cs)"
  unfolding execute_commands_for_flush_def execute_commands_record_def
  by (intro keeps_sbind execute_loop_keeps_store) (auto intro: judgements split: option.splits)

lemma forward_stored_store_free:
  assumes "forward_stored r e out = (Ok n, out')" and "c \<in> set (take n out')"
  shows "store_free c"
proof -
  from assms(1) have "stored_commands r e = Ok (take n out')"
    by (simp add: forward_stored_emits emits_result_commands)
  from stored_commands_shape [OF this assms(2)] show ?thesis by auto
qed

lemma store_len_remove: "store_remove m s = (Ok (), t) \<Longrightarrow> store_len t < store_len s"
  by (auto simp: store_remove_def store_len_frames stored_frames_def length_flatten_clear
      elim!: find_index_Some split: option.splits)

lemma flush_step_removes:
  assumes "flush_step send s = (Ok True, s')"
  shows "store_len (store_of s') < store_len (store_of s)"
proof -
  from assms obtain message_id e count cmds planned s1 where
    fwd: "forward_stored (gw_router (fst s)) e commands_buffer = (Ok count, cmds)"
    and planned: "Ok planned = (slice_to cmds count :: (_, gateway_error) result)"
    and run: "execute_commands_for_flush send planned s = (Ok True, s1)"
    and rem: "gateway_remove message_id s1 = (Ok (), s')"
    by (cases s, auto simp: flush_step_def forward_stored_commands_def sbind_eq_Ok Let_def
        split: option.splits if_splits prod.splits)
  from planned have "planned = take count cmds" by (auto simp: slice_to_def split: if_splits)
  with fwd have "\<forall>c \<in> set planned. store_free c" by (auto intro: forward_stored_store_free)
  from keepsD [OF execute_for_flush_keeps_store [OF this] run] have "store_of s1 = store_of s" .
  with rem show ?thesis
    by (cases s1) (auto simp: gateway_remove_def split: prod.splits dest: store_len_remove)
qed

function flush_loop :: "'x executor \<Rightarrow> ('x, unit) gw" where
  "flush_loop send s =
     (case flush_step send s of
        (Ok True, s') \<Rightarrow> flush_loop send s'
      | (Ok False, s') \<Rightarrow> (Ok (), s')
      | (Err err, s') \<Rightarrow> (Err err, s')
      | (Panic, s') \<Rightarrow> (Panic, s'))"
  by auto
termination
  by (relation "measure (\<lambda>(send, s). store_len (store_of s))") (auto simp: flush_step_removes)

declare flush_loop.simps [simp del]

definition flush_store :: "'x executor \<Rightarrow> ('x, unit) gw" where
  "flush_store send =
     sbind (\<lambda>(g, x). gateway_expire (gw_last_now_ms g) (g, x)) (\<lambda>_. flush_loop send)"

section \<open>Operations of the gateway\<close>

definition route_event :: "'x executor \<Rightarrow> router_event \<Rightarrow> ('x, unit) gw" where
  "route_event send event = (\<lambda>(g, x).
     case handle_event event commands_buffer (gw_router g) of
       ((res, commands), r) \<Rightarrow>
         sbind (slift (map_err GwRouter (rbind res (\<lambda>count. slice_to commands count))))
           (execute_commands send) (g\<lparr>gw_router := r\<rparr>, x))"

definition observe_time :: "'x executor \<Rightarrow> timestamp_ms \<Rightarrow> ('x, unit) gw" where
  "observe_time send now = (\<lambda>(g, x).
     if ms now \<le> ms (gw_last_now_ms g) then (Ok (), (g, x))
     else route_event send (Tick now) (g\<lparr>gw_last_now_ms := now\<rparr>, x))"

definition gateway_submit :: "'x executor \<Rightarrow> hyf_envelope \<Rightarrow> ('x, unit) gw" where
  "gateway_submit send e =
     sbind (upd_metrics (\<lambda>m. m\<lparr>submitted := saturating_add (submitted m) 1\<rparr>)) (\<lambda>_.
     sbind (route_event send (LocalSubmit e)) (\<lambda>_.
     flush_store send))"

definition ingest_link_frame :: "'x executor \<Rightarrow> link_frame \<Rightarrow> ('x, unit) gw" where
  "ingest_link_frame send frame =
     (let received_at_ms = frame_received_at_ms frame in
     sbind (upd_metrics (\<lambda>m. m\<lparr>received := saturating_add (received m) 1\<rparr>)) (\<lambda>_.
     sbind (observe_time send received_at_ms) (\<lambda>_.
     sbind (route_event send (LinkEvent (Frame frame))) (\<lambda>_.
     flush_store send))))"

definition gateway_tick :: "'x executor \<Rightarrow> timestamp_ms \<Rightarrow> ('x, unit) gw" where
  "gateway_tick send now = sbind (observe_time send now) (\<lambda>_. flush_store send)"

definition handle_link_event :: "'x executor \<Rightarrow> link_event \<Rightarrow> ('x, unit) gw" where
  "handle_link_event send event =
     (let flush_after_recovery = (case event of Up _ \<Rightarrow> True | _ \<Rightarrow> False) in
      sbind (route_event send (LinkEvent event)) (\<lambda>_.
        if flush_after_recovery then flush_store send else sret ()))"

section \<open>The clock of the core\<close>

text \<open>Only \<open>observe_time\<close> moves the clock, and only forward.\<close>

abbreviation clock_of :: "gateway_core \<times> 'x \<Rightarrow> timestamp_ms" where
  "clock_of s \<equiv> gw_last_now_ms (fst s)"

lemma keeps_clock_basic [judgements]:
  "keeps clock_of (upd_metrics f)" "keeps clock_of (router_commit e)" "keeps clock_of (send_envelope send l e)"
  "keeps clock_of (deliver_local e)" "keeps clock_of count_drop" "keeps clock_of (forward_stored_commands e)"
  "keeps clock_of (gateway_put e)" "keeps clock_of (gateway_remove m)" "keeps clock_of (gateway_expire now)"
  by (auto simp: keeps_def upd_metrics_def router_commit_def send_envelope_def deliver_local_def
      count_drop_def forward_stored_commands_def gateway_put_def gateway_remove_def gateway_expire_def
      split: prod.splits result.splits)

lemma keeps_dependent: "(\<And>s. keeps f (m s)) \<Longrightarrow> keeps f (\<lambda>s. m s s)"
  by (simp add: keeps_def)

lemma execute_command_keeps_clock: "keeps clock_of (execute_command send c)"
proof -
  have eq: "execute_command send c = (\<lambda>s. (case c of
        SendTo link_id e \<Rightarrow> sbind (send_envelope send link_id e) (\<lambda>_. router_commit e)
      | StoreCmd (Put e) \<Rightarrow>
          if allow_store_and_forward (gc_policy (gw_config (fst s)))
          then sbind (gateway_put e) (\<lambda>_.
               sbind (upd_metrics (\<lambda>m. m\<lparr>stored := saturating_add (stored m) 1\<rparr>)) (\<lambda>_.
               router_commit e))
          else count_drop
      | StoreCmd (Remove message_id) \<Rightarrow> gateway_remove message_id
      | StoreCmd (ExpireBefore now) \<Rightarrow> gateway_expire now
      | Drop _ _ \<Rightarrow> count_drop
      | DropFrame _ _ \<Rightarrow> count_drop
      | DeliverLocal e \<Rightarrow> sbind (deliver_local e) (\<lambda>_. router_commit e)) s)"
    by (auto simp: execute_command_def fun_eq_iff split: router_command.splits router_store_command.splits)
  show ?thesis
    unfolding eq
    by (rule keeps_dependent) (auto intro!: judgements split: router_command.splits router_store_command.splits)
qed

lemma execute_loop_keeps_clock: "keeps clock_of (execute_commands_loop send cs res)"
proof -
  have "clock_of (snd (execute_commands_loop send cs res s)) = clock_of s" for s
  proof (induction cs arbitrary: res s)
    case (Cons c cs)
    obtain q s1 where q: "execute_command send c s = (q, s1)" by (cases "execute_command send c s")
    from keepsD [OF execute_command_keeps_clock q] have "clock_of s1 = clock_of s" .
    with Cons q show ?case by (cases q) (simp_all add: Let_def)
  qed simp
  then show ?thesis by (simp add: keeps_def)
qed

lemma keeps_clock_commands [judgements]:
  "keeps clock_of (execute_commands send cs)" "keeps clock_of (execute_commands_for_flush send cs)"
  unfolding execute_commands_def execute_commands_for_flush_def execute_commands_record_def
  by (intro keeps_sbind execute_loop_keeps_clock; auto intro: judgements split: option.splits)+

lemma keeps_clock_flush_step: "keeps clock_of (flush_step send)"
proof -
  have "keeps clock_of (\<lambda>(g, x). slift (map_err GwStore (first_pending (gw_store g))) (g, x))"
    by (auto simp: keeps_def slift_def)
  then show ?thesis
    unfolding flush_step_def Let_def by (auto intro!: judgements split: option.splits)
qed

lemma keeps_clock_flush_store [judgements]: "keeps clock_of (flush_store send)"
proof -
  have "clock_of (snd (flush_loop send s)) = clock_of s" for s
  proof (induction send s rule: flush_loop.induct)
    case (1 send s)
    obtain q s1 where q: "flush_step send s = (q, s1)" by (cases "flush_step send s")
    from keepsD [OF keeps_clock_flush_step q] have "clock_of s1 = clock_of s" .
    with 1 q show ?case
      by (cases q) (auto simp: flush_loop.simps [of send s] split: bool.splits)
  qed
  then have "keeps clock_of (flush_loop send)" by (simp add: keeps_def)
  moreover have "keeps clock_of (\<lambda>(g, x). gateway_expire (gw_last_now_ms g) (g, x))"
    by (auto simp: keeps_def gateway_expire_def split: prod.splits)
  ultimately show ?thesis unfolding flush_store_def by (intro judgements)
qed

lemma keeps_clock_route_event [judgements]: "keeps clock_of (route_event send event)"
proof -
  have "keeps clock_of (sbind (slift r) (execute_commands send))" for r
    by (intro judgements)
  then show ?thesis by (auto simp: keeps_def route_event_def split: prod.splits)
qed

lemma observe_time_clock: "ms (clock_of s) \<le> ms (clock_of (snd (observe_time send now s)))"
proof -
  obtain g x where s: "s = (g, x)" by (cases s)
  have "clock_of (snd (route_event send (Tick now) (g\<lparr>gw_last_now_ms := now\<rparr>, x))) = now"
    using keeps_clock_route_event [of send "Tick now"] by (simp add: keeps_def)
  then show ?thesis by (auto simp: s observe_time_def not_le)
qed

definition time_le :: "gateway_core \<times> 'x \<Rightarrow> gateway_core \<times> 'x \<Rightarrow> bool" where
  "time_le s s' \<longleftrightarrow> ms (clock_of s) \<le> ms (clock_of s')"

lemma sbind_time_le:
  assumes "\<And>s. time_le s (snd (m s))" and "\<And>a s. time_le s (snd (f a s))"
  shows "time_le s (snd (sbind m f s))"
proof -
  obtain q s1 where q: "m s = (q, s1)" by (cases "m s")
  from assms(1) [of s] q have "time_le s s1" by simp
  with assms(2) [of s1] q show ?thesis
    by (cases q) (auto simp: sbind_def time_le_def intro: order_trans)
qed

lemma keeps_time_le: "keeps clock_of m \<Longrightarrow> time_le s (snd (m s))"
  by (cases s) (simp add: keeps_def time_le_def)

lemma operations_clock:
  "time_le s (snd (gateway_submit send e s))" "time_le s (snd (ingest_link_frame send frame s))"
  "time_le s (snd (gateway_tick send now s))" "time_le s (snd (handle_link_event send event s))"
proof -
  have obs: "time_le s (snd (observe_time send now s))" for s now
    unfolding time_le_def by (rule observe_time_clock)
  have ev: "keeps clock_of (if b then flush_store send else sret ())" for b by (auto intro: judgements)
  note basics = obs keeps_time_le [OF keeps_clock_flush_store] keeps_time_le [OF keeps_clock_route_event]
    keeps_time_le [OF keeps_clock_basic(1)] keeps_time_le [OF ev]
  show "time_le s (snd (gateway_submit send e s))" "time_le s (snd (ingest_link_frame send frame s))"
    "time_le s (snd (gateway_tick send now s))" "time_le s (snd (handle_link_event send event s))"
    unfolding gateway_submit_def ingest_link_frame_def gateway_tick_def handle_link_event_def Let_def
    by (intro sbind_time_le basics)+
qed

section \<open>The invariant of the core\<close>

definition gateway_inv :: "gateway_core \<Rightarrow> bool" where
  "gateway_inv g \<longleftrightarrow> router_inv (gw_router g) \<and> store_inv GATEWAY_FRAME_BUFFER_LEN (gw_store g) \<and>
     rt_now_ms (gw_router g) = gw_last_now_ms g \<and> rt_policy (gw_router g) = config_router_policy (gw_config g)"

text \<open>
  Arguments the types of the source guarantee: identifiers have their array lengths, and a slice
  is no longer than the address space.
\<close>

fun wf_command :: "router_command \<Rightarrow> bool" where
  "wf_command (SendTo _ e) \<longleftrightarrow> wf_envelope e"
| "wf_command (StoreCmd (Put e)) \<longleftrightarrow> wf_envelope e"
| "wf_command (DeliverLocal e) \<longleftrightarrow> wf_envelope e"
| "wf_command _ \<longleftrightarrow> True"

fun wf_event :: "router_event \<Rightarrow> bool" where
  "wf_event (LinkEvent (Frame f)) \<longleftrightarrow> length (frame_bytes f) \<le> usize_max"
| "wf_event (LocalSubmit e) \<longleftrightarrow> wf_envelope e"
| "wf_event _ \<longleftrightarrow> True"

lemma wf_next_hop: "wf_envelope e \<Longrightarrow> wf_envelope (next_hop_envelope e ingress)"
  by (simp add: next_hop_envelope_def wf_envelope_def split: option.splits)

lemma live_commands_wf: "wf_envelope e \<Longrightarrow> c \<in> set (live_commands r e ingress) \<Longrightarrow> wf_command c"
  by (auto simp: live_commands_def community_commands_def Let_def wf_next_hop
      split: if_splits hyf_destination.splits option.splits)

lemma admit_set:
  "admit r e cmds = Ok cs \<Longrightarrow> c \<in> set cs \<Longrightarrow> c \<in> set cmds \<or> c = Drop (env_message_id e) DropExpired"
  by (auto simp: admit_def split: result.splits hyf_wire_error.splits if_splits)

lemma handle_envelope_wf:
  assumes "wf_envelope e" and "handle_envelope r e ingress out = (Ok n, out')" and "c \<in> set (take n out')"
  shows "wf_command c"
proof -
  from assms(2) have "admit r e (live_commands r e ingress) = Ok (take n out')"
    by (simp add: handle_envelope_emits emits_result_commands envelope_commands_def)
  from admit_set [OF this assms(3)] assms(1) show ?thesis by (auto intro: live_commands_wf)
qed

lemma emit_commands: "emit out x = (Ok n, out') \<Longrightarrow> take n out' = [x]"
  by (cases out) (auto simp: emit_def)

lemma handle_event_wf:
  assumes "wf_event event" and "handle_event event out r = ((Ok n, out'), r')" and "c \<in> set (take n out')"
  shows "wf_command c"
proof (cases event)
  case (LinkEvent l)
  show ?thesis
  proof (cases l)
    case (Frame f)
    with LinkEvent assms(2) have run: "handle_frame r f out = (Ok n, out')" by (auto simp: handle_event_def)
    show ?thesis
    proof (cases "decode_envelope (frame_bytes f)")
      case (Ok e)
      with assms(1) LinkEvent Frame have "wf_envelope e" by (simp add: decode_envelope_eq_Ok)
      with Ok run assms(3) show ?thesis by (auto simp: handle_frame_def intro: handle_envelope_wf)
    next
      case (Err err)
      with run assms(3) show ?thesis by (auto simp: handle_frame_def dest: emit_commands)
    qed (simp add: decode_envelope_no_panic)
  qed (use LinkEvent assms in \<open>auto simp: handle_event_def split: prod.splits\<close>)
next
  case (LocalSubmit e)
  with assms show ?thesis by (auto simp: handle_event_def intro: handle_envelope_wf)
next
  case (Tick now)
  with assms show ?thesis by (auto simp: handle_event_def dest: emit_commands)
qed

lemma stored_commands_wf:
  assumes "wf_envelope e" and "forward_stored r e out = (Ok n, out')" and "c \<in> set (take n out')"
  shows "wf_command c"
proof -
  from assms(2) have "stored_commands r e = Ok (take n out')"
    by (simp add: forward_stored_emits emits_result_commands)
  from stored_commands_shape [OF this assms(3)] assms(1) show ?thesis by auto
qed

lemma handle_event_now:
  assumes "router_inv r" and "handle_event event out r = (p, r')"
  shows "rt_now_ms r' = (case event of Tick now \<Rightarrow> now | _ \<Rightarrow> rt_now_ms r)"
  using assms set_link_state_inv [OF assms(1)]
  by (auto simp: handle_event_def split: router_event.splits link_event.splits prod.splits)

text \<open>
  What it takes for a stored envelope to leave the store: it expired or has no hop left, or it was
  sent (a community message: on every link that is up; any other: on some link that is up), or it
  is addressed to this node.
\<close>

definition handed_over_as ::
  "(timestamp_ms \<Rightarrow> u8 list \<Rightarrow> 'q) \<Rightarrow> router \<Rightarrow> (link_id \<Rightarrow> 'q list) \<Rightarrow> hyf_envelope \<Rightarrow> bool" where
  "handed_over_as entry r q e \<longleftrightarrow> ms (env_expires_at_ms e) \<le> ms (rt_now_ms r) \<or> env_hop_limit e = 0 \<or>
     (case env_destination e of
        Community c \<Rightarrow> \<forall>s. Some s \<in> set (rt_links r) \<longrightarrow> ls_up s \<longrightarrow>
          entry (env_created_at_ms e) (envelope_bytes e) \<in> set (q (ls_link_id s))
      | d \<Rightarrow> is_local_destination r d \<or> (\<exists>s. Some s \<in> set (rt_links r) \<and> ls_up s \<and>
          entry (env_created_at_ms e) (envelope_bytes e) \<in> set (q (ls_link_id s))))"

abbreviation handed_over ::
  "router \<Rightarrow> (link_id \<Rightarrow> (timestamp_ms \<times> u8 list) list) \<Rightarrow> hyf_envelope \<Rightarrow> bool" where
  "handed_over \<equiv> handed_over_as Pair"

definition link_up :: "router \<Rightarrow> bool" where
  "link_up r \<longleftrightarrow> (\<exists>s. Some s \<in> set (rt_links r) \<and> ls_up s)"

lemma stored_commands_handed:
  assumes "stored_commands r e = Ok cs" and "validate_envelope e = Ok ()" and "cs \<noteq> []"
    and "\<forall>l. SendTo l e \<in> set cs \<longrightarrow> entry (env_created_at_ms e) (envelope_bytes e) \<in> set (q l)"
  shows "handed_over_as entry r q e"
proof -
  have up: "\<exists>s. Some s \<in> set (rt_links r) \<and> ls_up s \<and> ls_link_id s = l" if "first_up_link_except r None = Some l" for l
    using first_up_link_except_Some [OF that] by (auto simp: usable_def)
  show ?thesis
    using assms up
    by (auto simp: stored_commands_def admit_def handed_over_as_def community_commands_def usable_def
        split: if_splits hyf_destination.splits option.splits)
qed

lemma stored_commands_Nil:
  assumes "stored_commands r e = Ok []" and "validate_envelope e = Ok ()"
  shows "\<not> link_up r"
proof -
  have "find (usable None) (flatten (rt_links r)) = None \<longleftrightarrow> \<not> link_up r"
    by (auto simp: find_None_iff link_up_def usable_def)
  moreover have "filter (usable None) (flatten (rt_links r)) = [] \<longleftrightarrow> \<not> link_up r"
    by (auto simp: filter_empty_conv link_up_def usable_def)
  ultimately show ?thesis
    using assms
    by (auto simp: stored_commands_def admit_def community_commands_def first_up_link_except_def
        split: if_splits hyf_destination.splits option.splits)
qed

lemma handed_over_cong:
  "handed_over_as entry r q e \<Longrightarrow> rt_links r' = rt_links r \<Longrightarrow> rt_policy r' = rt_policy r \<Longrightarrow> rt_now_ms r' = rt_now_ms r \<Longrightarrow>
   (\<forall>l. set (q l) \<subseteq> set (q' l)) \<Longrightarrow> handed_over_as entry r' q' e"
  unfolding handed_over_as_def is_local_destination_def
  by (cases "env_destination e") (simp_all, blast+)

section \<open>The executor contract\<close>

text \<open>
  What the core relies on of a \<open>GatewayLinkExecutor\<close>: a successful send appends one entry to
  the link's outgoing queue, made of the time and the bytes as the link records them, and touches no
  other; a failed one changes no queue; no send panics.
\<close>

locale link_executor =
  fixes ex_inv :: "'x \<Rightarrow> bool"
    and entry :: "timestamp_ms \<Rightarrow> u8 list \<Rightarrow> 'q"
    and out_queue :: "link_id \<Rightarrow> 'x \<Rightarrow> 'q list"
    and send :: "'x executor"
  assumes ex_Ok: "ex_inv x \<Longrightarrow> send l bs t x = (Ok (), x') \<Longrightarrow>
      ex_inv x' \<and> out_queue l x' = out_queue l x @ [entry t bs] \<and> (\<forall>k. k \<noteq> l \<longrightarrow> out_queue k x' = out_queue k x)"
    and ex_Err: "ex_inv x \<Longrightarrow> send l bs t x = (Err err, x') \<Longrightarrow>
      ex_inv x' \<and> (\<forall>k. out_queue k x' = out_queue k x)"
    and ex_no_panic: "ex_inv x \<Longrightarrow> fst (send l bs t x) \<noteq> Panic"
begin

definition ok :: "gateway_core \<times> 'x \<Rightarrow> bool" where
  "ok s \<longleftrightarrow> gateway_inv (fst s) \<and> ex_inv (snd s)"

lemma preserves_simple [judgements]:
  "preserves ok (upd_metrics f)" "preserves ok (deliver_local e)" "preserves ok count_drop"
  by (auto simp: preserves_def ok_def upd_metrics_def deliver_local_def count_drop_def gateway_inv_def)

lemma preserves_commit [judgements]: "preserves ok (router_commit e)"
  unfolding preserves_def
proof (intro allI impI)
  fix s :: "gateway_core \<times> 'x"
  assume ok: "ok s"
  then have "router_inv (gw_router (fst s))" by (simp add: ok_def gateway_inv_def)
  from commit_seen_inv [OF this, of e] ok
  show "fst (router_commit e s) \<noteq> Panic \<and> ok (snd (router_commit e s))"
    by (cases s) (auto simp: router_commit_def ok_def gateway_inv_def)
qed

lemma preserves_put [judgements]: "wf_envelope e \<Longrightarrow> preserves ok (gateway_put e)"
  unfolding preserves_def
proof (intro allI impI)
  fix s :: "gateway_core \<times> 'x"
  assume e: "wf_envelope e" and ok: "ok s"
  then have inv: "store_inv GATEWAY_FRAME_BUFFER_LEN (store_of s)" by (simp add: ok_def gateway_inv_def)
  obtain res t where run: "put_envelope GATEWAY_FRAME_BUFFER_LEN e (store_of s) = (res, t)"
    by (cases "put_envelope GATEWAY_FRAME_BUFFER_LEN e (store_of s)")
  show "fst (gateway_put e s) \<noteq> Panic \<and> ok (snd (gateway_put e s))"
    using run ok put_envelope_Ok(1) [OF inv e, of t] put_envelope_no_panic [OF e, of GATEWAY_FRAME_BUFFER_LEN "store_of s"]
      put_envelope_Err [of GATEWAY_FRAME_BUFFER_LEN e "store_of s" _ t]
    by (cases s; cases res) (auto simp: gateway_put_def ok_def gateway_inv_def)
qed

lemma preserves_remove [judgements]: "preserves ok (gateway_remove m)"
  unfolding preserves_def
proof (intro allI impI)
  fix s :: "gateway_core \<times> 'x"
  assume ok: "ok s"
  then have inv: "store_inv GATEWAY_FRAME_BUFFER_LEN (store_of s)" by (simp add: ok_def gateway_inv_def)
  from store_remove_cases [of m "store_of s"] store_remove_Ok(1) [OF inv, of m] ok
  show "fst (gateway_remove m s) \<noteq> Panic \<and> ok (snd (gateway_remove m s))"
    by (cases "m \<in> dom (lookup (store_of s))"; cases s) (auto simp: gateway_remove_def ok_def gateway_inv_def)
qed

lemma preserves_expire [judgements]: "preserves ok (gateway_expire now)"
  unfolding preserves_def
  by (auto simp: gateway_expire_def ok_def gateway_inv_def expire_before_inv split: prod.splits)
     (metis expire_before_inv snd_conv)

lemma preserves_send [judgements]: "wf_envelope e \<Longrightarrow> preserves ok (send_envelope send l e)"
  unfolding preserves_def
proof (intro allI impI)
  fix s :: "gateway_core \<times> 'x"
  assume e: "wf_envelope e" and "ok s"
  then obtain g x where s: "s = (g, x)" and g: "gateway_inv g" and x: "ex_inv x"
    by (cases s) (auto simp: ok_def)
  let ?bs = "envelope_bytes e" and ?t = "env_created_at_ms e"
  obtain q x' where q: "send l ?bs ?t x = (q, x')" by (cases "send l ?bs ?t x")
  have "q \<noteq> Panic" using ex_no_panic [OF x, of l ?bs ?t] q by simp
  moreover have "ex_inv x'"
    using q ex_Ok [OF x, of l ?bs ?t x'] ex_Err [OF x, of l ?bs ?t _ x'] \<open>q \<noteq> Panic\<close> by (cases q) auto
  ultimately show "fst (send_envelope send l e s) \<noteq> Panic \<and> ok (snd (send_envelope send l e s))"
    using g x q s validate_envelope_no_panic [of e]
    by (cases q; cases "validate_envelope e")
       (auto simp: send_envelope_def encode_envelope_cases [OF e] slice_to_def ok_def gateway_inv_def)
qed

lemma preserves_execute_command:
  assumes "wf_command c"
  shows "preserves ok (execute_command send c)"
proof -
  have put: "preserves ok (sbind (gateway_put e) (\<lambda>_.
      sbind (upd_metrics (\<lambda>m. m\<lparr>stored := saturating_add (stored m) 1\<rparr>)) (\<lambda>_. router_commit e)))"
    if "wf_envelope e" for e
    using that by (intro judgements)
  have snd': "preserves ok (sbind (send_envelope send l e) (\<lambda>_. router_commit e))" if "wf_envelope e" for l e
    using that by (intro judgements)
  have loc: "preserves ok (sbind (deliver_local e) (\<lambda>_. router_commit e))" for e by (intro judgements)
  note all = put snd' loc preserves_simple(3) preserves_remove preserves_expire
  show ?thesis
    unfolding preserves_def
    using assms all [unfolded preserves_def]
    by (auto simp: execute_command_def split: router_command.splits router_store_command.splits)
qed

lemma preserves_loop:
  assumes "\<forall>c \<in> set cs. wf_command c"
  shows "preserves ok (execute_commands_loop send cs res)"
proof -
  have "fst (execute_commands_loop send cs res s) \<noteq> Panic \<and> ok (snd (execute_commands_loop send cs res s))"
    if "ok s" for s
    using assms that
  proof (induction cs arbitrary: res s)
    case (Cons c cs)
    obtain q s1 where q: "execute_command send c s = (q, s1)" by (cases "execute_command send c s")
    from Cons.prems have "wf_command c" by simp
    from preservesD [OF preserves_execute_command [OF this] Cons.prems(2) q] have "q \<noteq> Panic" "ok s1"
      by auto
    with Cons q show ?case by (cases q) (simp_all add: Let_def)
  qed simp
  then show ?thesis by (simp add: preserves_def)
qed

lemma preserves_execute_commands [judgements]:
  "\<forall>c \<in> set cs. wf_command c \<Longrightarrow> preserves ok (execute_commands send cs)"
  unfolding execute_commands_def execute_commands_record_def
  by (intro preserves_sbind preserves_loop) (auto intro: judgements split: option.splits)

lemma preserves_for_flush [judgements]:
  "\<forall>c \<in> set cs. wf_command c \<Longrightarrow> preserves ok (execute_commands_for_flush send cs)"
  unfolding execute_commands_for_flush_def execute_commands_record_def
  by (intro preserves_sbind preserves_loop) (auto intro: judgements split: option.splits)

text \<open>
  A flush iteration on a state of the invariant. With nothing pending it stops. Otherwise the
  first pending frame decodes to a well-formed envelope, its commands are planned, and the frame
  is removed exactly when they are all carried out.
\<close>

lemma flush_step_empty:
  assumes "ok s" and "store_len (store_of s) = 0"
  shows "flush_step send s = (Ok False, s)"
proof -
  have "store_inv GATEWAY_FRAME_BUFFER_LEN (store_of s)" using assms(1) by (simp add: ok_def gateway_inv_def)
  from hyf_store.first_iff [OF this] assms(2) show ?thesis
    by (cases s) (simp add: flush_step_def sbind_def slift_def sret_def)
qed

lemma flush_step_pending:
  assumes "ok s" and "store_len (store_of s) \<noteq> 0"
  obtains f e where "first_pending (store_of s) = Ok (Some f)" "frame_holds f e" "wf_envelope e"
    "validate_envelope e = Ok ()" "length (envelope_bytes e) \<le> GATEWAY_FRAME_BUFFER_LEN"
    "sf_bytes f = envelope_bytes e" "lookup (store_of s) (sf_message_id f) = Some f"
    "flush_step send s =
       (case forward_stored (gw_router (fst s)) e commands_buffer of
          (Ok n, commands) \<Rightarrow>
            if n = 0 then (Ok False, s)
            else sbind (execute_commands_for_flush send (take n commands)) (\<lambda>done.
              if \<not> done then sret False else sbind (gateway_remove (sf_message_id f)) (\<lambda>_. sret True)) s
        | (Err err, commands) \<Rightarrow> (Err (GwRouter err), s)
        | (Panic, commands) \<Rightarrow> (Panic, s))"
proof -
  have inv: "store_inv GATEWAY_FRAME_BUFFER_LEN (store_of s)" using assms(1) by (simp add: ok_def gateway_inv_def)
  with assms(2) have "stored_frames (store_of s) \<noteq> []" by (auto simp: store_len_frames)
  from first_pending_spec(2) [OF inv this] obtain f where f: "first_pending (store_of s) = Ok (Some f)"
    and "f \<in> set (stored_frames (store_of s))"
    by blast
  then obtain r where r: "r \<in> set (flatten (st_records (store_of s)))" and fr: "f = frame_of r"
    by (auto simp: stored_frames_def)
  with inv have rok: "record_ok GATEWAY_FRAME_BUFFER_LEN r" by (auto simp: store_inv_def)
  then obtain e where e: "frame_holds f e" and len: "length (sf_bytes f) \<le> GATEWAY_FRAME_BUFFER_LEN"
    by (auto simp: record_ok_def fr frame_of_def)
  have "length (sf_bytes f) \<le> usize_max" using len by (simp add: GATEWAY_FRAME_BUFFER_LEN_def usize_max_def)
  with e have wf: "wf_envelope e" "validate_envelope e = Ok ()" "sf_bytes f = envelope_bytes e"
    by (auto simp: frame_holds_def decode_envelope_eq_Ok)
  have look: "lookup (store_of s) (sf_message_id f) = Some f"
    using hyf_store.first_removable [OF inv f] by blast
  have fits: "fits commands_buffer (forward_stored (gw_router (fst s)) e commands_buffer)"
    by (rule forward_stored_fits)
  obtain g x where s: "s = (g, x)" by (cases s)
  have "flush_step send s =
       (case forward_stored (gw_router (fst s)) e commands_buffer of
          (Ok n, commands) \<Rightarrow>
            if n = 0 then (Ok False, s)
            else sbind (execute_commands_for_flush send (take n commands)) (\<lambda>done.
              if \<not> done then sret False else sbind (gateway_remove (sf_message_id f)) (\<lambda>_. sret True)) s
        | (Err err, commands) \<Rightarrow> (Err (GwRouter err), s)
        | (Panic, commands) \<Rightarrow> (Panic, s))"
  proof -
    obtain res cmds where fwd: "forward_stored (gw_router (fst s)) e commands_buffer = (res, cmds)"
      by (cases "forward_stored (gw_router (fst s)) e commands_buffer")
    have a: "sbind (\<lambda>(g, x). slift (map_err GwStore (first_pending (gw_store g))) (g, x)) F s = F (Some f) s"
      for F :: "_ \<Rightarrow> ('x, bool) gw"
      using f by (simp add: s slift_def sbind_def)
    have b: "rbind (copy_at (replicate GATEWAY_FRAME_BUFFER_LEN 0) 0 (sf_bytes f))
        (\<lambda>frame. slice_to frame (length (sf_bytes f))) = (Ok (sf_bytes f) :: (_, gateway_error) result)"
      using len by (simp add: copy_at_def slice_to_def)
    have c: "decode_envelope (sf_bytes f) = Ok e" using e by (simp add: frame_holds_def)
    have d: "forward_stored_commands e s = (map_err GwRouter (rbind res (\<lambda>n. Ok (n, cmds))), s)"
      using fwd by (simp add: s forward_stored_commands_def)
    have sl: "slice_to cmds n = (Ok (take n cmds) :: (_, gateway_error) result)" if "res = Ok n" for n
      using fits fwd that by (simp add: fits_def slice_to_def)
    have run: "flush_step send s = sbind (forward_stored_commands e) (\<lambda>(count, commands).
        if count = 0 then sret False
        else sbind (slift (slice_to commands count)) (\<lambda>planned.
          sbind (execute_commands_for_flush send planned) (\<lambda>done.
            if \<not> done then sret False
            else sbind (gateway_remove (sf_message_id f)) (\<lambda>_. sret True)))) s"
      unfolding flush_step_def a by (simp add: Let_def b c sbind_slift)
    show ?thesis
    proof (cases res)
      case (Ok n)
      with d have d': "forward_stored_commands e s = (Ok (n, cmds), s)" by simp
      show ?thesis
        unfolding run sbind_Ok [where m = "forward_stored_commands e", OF d'] by (simp add: fwd Ok sl [OF Ok] sbind_slift sret_def)
    next
      case (Err err)
      with d have d': "forward_stored_commands e s = (Err (GwRouter err), s)" by simp
      show ?thesis
        unfolding run sbind_Err [where m = "forward_stored_commands e", OF d'] by (simp add: fwd Err)
    qed (use fits fwd in \<open>simp add: fits_def\<close>)
  qed
  then show thesis using f e wf len look by (intro that [of f e]) (simp_all only:)
qed

lemma preserves_flush_step [judgements]: "preserves ok (flush_step send)"
  unfolding preserves_def
proof (intro allI impI)
  fix s :: "gateway_core \<times> 'x"
  assume ok: "ok s"
  show "fst (flush_step send s) \<noteq> Panic \<and> ok (snd (flush_step send s))"
  proof (cases "store_len (store_of s) = 0")
    case True
    with ok flush_step_empty [OF ok True] show ?thesis by simp
  next
    case False
    from flush_step_pending [OF ok False] obtain f e where e: "wf_envelope e"
      and run: "flush_step send s =
       (case forward_stored (gw_router (fst s)) e commands_buffer of
          (Ok n, commands) \<Rightarrow>
            if n = 0 then (Ok False, s)
            else sbind (execute_commands_for_flush send (take n commands)) (\<lambda>done.
              if \<not> done then sret False else sbind (gateway_remove (sf_message_id (f :: stored_frame))) (\<lambda>_. sret True)) s
        | (Err err, commands) \<Rightarrow> (Err (GwRouter err), s)
        | (Panic, commands) \<Rightarrow> (Panic, s))"
      by blast
    obtain res cmds where fwd: "forward_stored (gw_router (fst s)) e commands_buffer = (res, cmds)"
      by (cases "forward_stored (gw_router (fst s)) e commands_buffer")
    have np: "res \<noteq> Panic" using forward_stored_fits [of commands_buffer "gw_router (fst s)" e] fwd
      by (simp add: fits_def)
    have go: "preserves ok (sbind (execute_commands_for_flush send (take n cmds)) (\<lambda>done.
        if \<not> done then sret False else sbind (gateway_remove (sf_message_id f)) (\<lambda>_. sret True)))"
      if "res = Ok n" for n
      using stored_commands_wf [OF e] fwd that by (auto intro!: judgements)
    show ?thesis
      unfolding run using fwd np ok preserves_run [OF go ok] by (cases res) simp_all
  qed
qed

lemma preserves_flush_loop [judgements]: "preserves ok (flush_loop send)"
proof -
  have "fst (flush_loop send s) \<noteq> Panic \<and> ok (snd (flush_loop send s))" if "ok s" for s
    using that
  proof (induction "store_len (store_of s)" arbitrary: s rule: less_induct)
    case less
    obtain q s1 where q: "flush_step send s = (q, s1)" by (cases "flush_step send s")
    from preservesD [OF preserves_flush_step less.prems q] have s1: "q \<noteq> Panic" "ok s1" by auto
    show ?case
    proof (cases "q = Ok True")
      case True
      with flush_step_removes [of send s s1] q less.hyps [of s1] s1 show ?thesis
        by (simp add: flush_loop.simps [of send s])
    next
      case False
      with s1 q show ?thesis by (cases q) (auto simp: flush_loop.simps [of send s])
    qed
  qed
  then show ?thesis by (simp add: preserves_def)
qed

lemma preserves_flush_store [judgements]: "preserves ok (flush_store send)"
proof -
  have "preserves ok (\<lambda>(g, x). gateway_expire (gw_last_now_ms g) (g, x))"
    using preserves_expire by (auto simp: preserves_def)
  then show ?thesis unfolding flush_store_def by (intro judgements)
qed

text \<open>Routing an event: the router's state after the event, then its commands.\<close>

lemma route_event_ok:
  assumes "wf_event event" and "router_inv (gw_router g)" and "ex_inv x"
    and "gateway_inv (g\<lparr>gw_router := snd (handle_event event commands_buffer (gw_router g))\<rparr>)"
  shows "fst (route_event send event (g, x)) \<noteq> Panic \<and> ok (snd (route_event send event (g, x)))"
proof -
  obtain res cmds r where run: "handle_event event commands_buffer (gw_router g) = ((res, cmds), r)"
    by (metis surj_pair)
  have fit: "fits commands_buffer (res, cmds)"
    using handle_event_fits [OF assms(2), of commands_buffer event] run by simp
  have s: "ok (g\<lparr>gw_router := r\<rparr>, x)" using assms(3,4) run by (simp add: ok_def)
  show ?thesis
  proof (cases res)
    case (Ok n)
    have "preserves ok (execute_commands send (take n cmds))"
      using handle_event_wf [OF assms(1), of commands_buffer "gw_router g" n cmds r] run Ok
      by (auto intro: judgements)
    with s fit show ?thesis
      by (simp add: route_event_def run Ok fits_def slice_to_def sbind_slift preserves_def)
  next
    case (Err err)
    with s show ?thesis by (simp add: route_event_def run sbind_slift)
  qed (use fit in \<open>simp add: fits_def\<close>)
qed

lemma preserves_route_event:
  assumes "wf_event event" and "\<forall>now. event \<noteq> Tick now"
  shows "preserves ok (route_event send event)"
  unfolding preserves_def
proof (intro allI impI)
  fix s :: "gateway_core \<times> 'x"
  assume "ok s"
  then obtain g x where s: "s = (g, x)" and g: "gateway_inv g" and x: "ex_inv x"
    by (cases s) (auto simp: ok_def)
  then have r: "router_inv (gw_router g)" by (simp add: gateway_inv_def)
  obtain p r' where run: "handle_event event commands_buffer (gw_router g) = (p, r')"
    by (cases "handle_event event commands_buffer (gw_router g)")
  from handle_event_state [OF r run] handle_event_now [OF r run] assms(2)
  have "gateway_inv (g\<lparr>gw_router := snd (handle_event event commands_buffer (gw_router g))\<rparr>)"
    using g run by (auto simp: gateway_inv_def split: router_event.splits)
  from route_event_ok [OF assms(1) r x this] s
  show "fst (route_event send event s) \<noteq> Panic \<and> ok (snd (route_event send event s))" by simp
qed

lemma preserves_observe_time [judgements]: "preserves ok (observe_time send now)"
  unfolding preserves_def
proof (intro allI impI)
  fix s :: "gateway_core \<times> 'x"
  assume ok: "ok s"
  then obtain g x where s: "s = (g, x)" and g: "gateway_inv g" and x: "ex_inv x"
    by (cases s) (auto simp: ok_def)
  have "gateway_inv (g\<lparr>gw_last_now_ms := now,
      gw_router := snd (handle_event (Tick now) commands_buffer (gw_router g))\<rparr>)"
    using g by (simp add: gateway_inv_def handle_event_def router_inv_def)
  with route_event_ok [of "Tick now" "g\<lparr>gw_last_now_ms := now\<rparr>" x] g x ok s
  show "fst (observe_time send now s) \<noteq> Panic \<and> ok (snd (observe_time send now s))"
    by (auto simp: observe_time_def gateway_inv_def)
qed

lemma preserves_operations:
  "wf_envelope e \<Longrightarrow> preserves ok (gateway_submit send e)"
  "length (frame_bytes frame) \<le> usize_max \<Longrightarrow> preserves ok (ingest_link_frame send frame)"
  "preserves ok (gateway_tick send now)"
  "wf_event (LinkEvent event) \<Longrightarrow> preserves ok (handle_link_event send event)"
  unfolding gateway_submit_def ingest_link_frame_def gateway_tick_def handle_link_event_def Let_def
  by (auto intro!: judgements preserves_route_event)

section \<open>What a flush does\<close>

text \<open>
  The frames on the outgoing queues only grow; the router's links, policy and clock do not change
  while commands run; and a send that fails is counted in \<open>link_errors\<close>.
\<close>

definition errs :: "gateway_core \<times> 'x \<Rightarrow> nat" where
  "errs s = unat (link_errors (gw_metrics (fst s)))"

definition view :: "gateway_core \<times> 'x \<Rightarrow> link_state option list \<times> router_policy \<times> timestamp_ms \<times> gateway_config \<times> timestamp_ms" where
  "view s = (let r = gw_router (fst s) in
     (rt_links r, rt_policy r, rt_now_ms r, gw_config (fst s), gw_last_now_ms (fst s)))"

definition grows :: "gateway_core \<times> 'x \<Rightarrow> gateway_core \<times> 'x \<Rightarrow> bool" where
  "grows s s' \<longleftrightarrow> view s' = view s \<and> errs s \<le> errs s' \<and>
     (\<forall>l. set (out_queue l (snd s)) \<subseteq> set (out_queue l (snd s')))"

lemma grows_refl: "grows s s"
  by (simp add: grows_def)

lemma grows_trans: "grows s s' \<Longrightarrow> grows s' s'' \<Longrightarrow> grows s s''"
  unfolding grows_def by (metis order_trans)

lemma commit_grows:
  assumes "ok s" and "router_commit e s = (q, s')"
  shows "q = Ok () \<and> grows s s' \<and> snd s' = snd s"
proof -
  have "router_inv (gw_router (fst s))" using assms(1) by (simp add: ok_def gateway_inv_def)
  from commit_seen_inv [OF this, of e] assms(2) show ?thesis
    by (cases s) (auto simp: router_commit_def grows_def view_def errs_def Let_def)
qed

text \<open>A sendable envelope: its frame fits the gateway's buffer, so only the link can fail.\<close>

definition sendable :: "hyf_envelope \<Rightarrow> bool" where
  "sendable e \<longleftrightarrow> wf_envelope e \<and> validate_envelope e = Ok () \<and>
     length (envelope_bytes e) \<le> GATEWAY_FRAME_BUFFER_LEN"

lemma send_envelope_runs:
  assumes "sendable e"
  shows "send_envelope send l e (g, x) =
    (case send l (envelope_bytes e) (env_created_at_ms e) x of
       (Err err, x') \<Rightarrow> (Err err, (g\<lparr>gw_metrics := (gw_metrics g)\<lparr>link_errors :=
            saturating_add (link_errors (gw_metrics g)) 1\<rparr>\<rparr>, x'))
     | (Panic, x') \<Rightarrow> (Panic, (g, x'))
     | (Ok _, x') \<Rightarrow> (Ok (), (g\<lparr>gw_metrics := (gw_metrics g)
          \<lparr>sent := saturating_add (sent (gw_metrics g)) 1,
           bytes_sent := saturating_add (bytes_sent (gw_metrics g)) (of_nat (length (envelope_bytes e)))\<rparr>\<rparr>, x')))"
proof -
  have wf: "wf_envelope e" and v: "validate_envelope e = Ok ()"
    and len: "length (envelope_bytes e) \<le> GATEWAY_FRAME_BUFFER_LEN"
    using assms by (simp_all add: sendable_def)
  show ?thesis
    using v len by (simp add: send_envelope_def encode_envelope_cases [OF wf] slice_to_def)
qed

lemma execute_send:
  assumes "ok s" and "sendable e" and "execute_command send (SendTo l e) s = (q, s')"
  shows "grows s s' \<and> (q = Ok () \<longrightarrow> entry (env_created_at_ms e) (envelope_bytes e) \<in> set (out_queue l (snd s'))) \<and>
    (\<forall>err. q = Err err \<longrightarrow> errs s' = min (2 ^ 64 - 1) (errs s + 1))"
proof -
  obtain g x where s: "s = (g, x)" by (cases s)
  let ?bs = "envelope_bytes e" and ?t = "env_created_at_ms e"
  have x: "ex_inv x" using assms(1) s by (simp add: ok_def)
  obtain p x' where p: "send l ?bs ?t x = (p, x')" by (cases "send l ?bs ?t x")
  obtain p1 s1 where p1: "send_envelope send l e s = (p1, s1)" by (cases "send_envelope send l e s")
  have "wf_envelope e" using assms(2) by (simp add: sendable_def)
  from preservesD [OF preserves_send [OF this] assms(1) p1] have ok1: "ok s1" "p1 \<noteq> Panic" by auto
  have cmd: "execute_command send (SendTo l e) s = sbind (send_envelope send l e) (\<lambda>_. router_commit e) s"
    by (simp add: s execute_command_def)
  show ?thesis
  proof (cases p)
    case (Ok u)
    with p p1 have s1: "p1 = Ok ()" "snd s1 = x'" "view s1 = view s" "errs s1 = errs s"
      by (auto simp: s send_envelope_runs [OF assms(2)] view_def errs_def)
    from ex_Ok [OF x, of l ?bs ?t x'] p Ok have ql: "out_queue l x' = out_queue l x @ [entry ?t ?bs]"
      and qk: "\<And>k. k \<noteq> l \<Longrightarrow> out_queue k x' = out_queue k x"
      by auto
    have q: "entry ?t ?bs \<in> set (out_queue l x')" "\<forall>k. set (out_queue k x) \<subseteq> set (out_queue k x')"
    proof -
      show "\<forall>k. set (out_queue k x) \<subseteq> set (out_queue k x')"
      proof
        fix k
        show "set (out_queue k x) \<subseteq> set (out_queue k x')" by (cases "k = l") (auto simp: ql qk)
      qed
    qed (simp add: ql)
    from s1 q have "grows s s1" by (simp add: grows_def s)
    moreover have "router_commit e s1 = (q, s')"
      using assms(3) p1 s1(1) unfolding cmd by (simp add: sbind_def)
    from commit_grows [OF ok1(1) this] have "q = Ok ()" "grows s1 s'" "snd s' = x'" using s1(2) by auto
    ultimately show ?thesis using q by (auto intro: grows_trans)
  next
    case (Err err)
    with p p1 have "p1 = Err err" "snd s1 = x'" "view s1 = view s" "errs s1 = min (2 ^ 64 - 1) (errs s + 1)"
      by (auto simp: s send_envelope_runs [OF assms(2)] view_def errs_def unat_saturating_add)
    moreover from this p1 assms(3) have "q = Err err" "s' = s1" unfolding cmd by (auto simp: sbind_def)
    moreover have "errs s \<le> 2 ^ 64 - 1"
      using unsigned_less [where ?'a = nat, of "link_errors (gw_metrics (fst s))"] by (simp add: errs_def)
    moreover from ex_Err [OF x, of l ?bs ?t err x'] p Err have "out_queue k x' = out_queue k x" for k by simp
    ultimately show ?thesis by (auto simp: grows_def s)
  next
    case Panic
    with ex_no_panic [OF x, of l ?bs ?t] p show ?thesis by simp
  qed
qed

lemma execute_send_Ok:
  assumes "ok s" and "sendable e" and "send l (envelope_bytes e) (env_created_at_ms e) (snd s) = (Ok (), x')"
  shows "\<exists>s'. execute_command send (SendTo l e) s = (Ok (), s') \<and> ok s' \<and> errs s' = errs s \<and>
    view s' = view s \<and> snd s' = x' \<and> store_of s' = store_of s \<and>
    snd (commit_seen e (gw_router (fst s))) = gw_router (fst s')"
proof -
  obtain g x where s: "s = (g, x)" by (cases s)
  obtain s1 where s1: "send_envelope send l e s = (Ok (), s1)" "snd s1 = x'" "view s1 = view s" "errs s1 = errs s"
    "store_of s1 = store_of s" "gw_router (fst s1) = gw_router g"
    using assms(3) by (auto simp: s send_envelope_runs [OF assms(2)] view_def errs_def)
  have "wf_envelope e" using assms(2) by (simp add: sendable_def)
  from preservesD [OF preserves_send [OF this] assms(1) s1(1)] have ok1: "ok s1" by simp
  obtain q s2 where q: "router_commit e s1 = (q, s2)" by (cases "router_commit e s1")
  have ok2: "ok s2" using preservesD [OF preserves_commit ok1 q] by simp
  from commit_grows [OF ok1 q] have s2: "q = Ok ()" "view s2 = view s1" "snd s2 = snd s1"
    by (auto simp: grows_def)
  have rest: "errs s2 = errs s1" "store_of s2 = store_of s1" "gw_router (fst s2) = snd (commit_seen e (gw_router (fst s1)))"
    using q by (cases s1; auto simp: router_commit_def errs_def split: prod.splits)+
  have "execute_command send (SendTo l e) s = (Ok (), s2)"
    using s1(1) q s2(1) by (simp add: s execute_command_def sbind_def)
  with s1 s2 rest ok2 show ?thesis by (simp add: s)
qed

lemma for_flush_single:
  "execute_command send c s = (Ok (), s') \<Longrightarrow> execute_commands_for_flush send [c] s = (Ok True, s')"
  "execute_command send c s = (Ok (), s') \<Longrightarrow> execute_commands send [c] s = (Ok (), s')"
  by (simp_all add: execute_commands_for_flush_def execute_commands_def execute_commands_record_def
      command_execution_default_def sbind_def sret_def)

text \<open>The commands that forward the stored envelope \<open>e\<close>: sends of it, its delivery, its drop.\<close>

definition forwards :: "hyf_envelope \<Rightarrow> router_command \<Rightarrow> bool" where
  "forwards e c \<longleftrightarrow> (\<exists>l. c = SendTo l e) \<or> c = DeliverLocal e \<or> (\<exists>m r. c = Drop m r)"

lemma execute_forward:
  assumes "ok s" and "sendable e" and "forwards e c" and "execute_command send c s = (q, s')"
  shows "ok s' \<and> q \<noteq> Panic \<and> grows s s' \<and>
    (\<forall>l. c = SendTo l e \<longrightarrow> q = Ok () \<longrightarrow> entry (env_created_at_ms e) (envelope_bytes e) \<in> set (out_queue l (snd s'))) \<and>
    (\<forall>err. q = Err err \<longrightarrow> is_send c \<and> errs s' = min (2 ^ 64 - 1) (errs s + 1))"
proof -
  have "wf_command c" using assms(2,3) by (auto simp: forwards_def sendable_def)
  from preservesD [OF preserves_execute_command [OF this] assms(1,4)] have ok: "ok s'" "q \<noteq> Panic" by auto
  from assms(3) consider l where "c = SendTo l e" | "c = DeliverLocal e" | m r where "c = Drop m r"
    by (auto simp: forwards_def)
  then show ?thesis
  proof cases
    case 1
    with execute_send [OF assms(1,2), of l q s'] assms(4) ok show ?thesis by (auto simp: is_send_def)
  next
    case 2
    obtain g x where s: "s = (g, x)" by (cases s)
    let ?s1 = "snd (deliver_local e s)"
    have "ok ?s1" using preserves_run [OF preserves_simple(2) assms(1)] by blast
    moreover have run: "router_commit e ?s1 = (q, s')"
      using assms(4) 2 by (simp add: s execute_command_def sbind_def deliver_local_def)
    moreover have "grows s ?s1"
      by (simp add: s deliver_local_def grows_def view_def errs_def)
    ultimately show ?thesis using commit_grows [of ?s1 e q s'] ok 2 by (auto intro: grows_trans)
  next
    case 3
    with assms(4) ok show ?thesis
      by (cases s) (auto simp: execute_command_def count_drop_def upd_metrics_def grows_def view_def errs_def)
  qed
qed

lemma loop_forwards:
  assumes "ok s" and "sendable e" and "\<forall>c \<in> set cs. forwards e c"
    and "execute_commands_loop send cs res s = (q, s')"
  shows "ok s' \<and> grows s s' \<and> (\<exists>res'. q = Ok res' \<and>
    planned_sends res' = planned_sends res + length (filter is_send cs) \<and>
    successful_sends res' \<le> successful_sends res + length (filter is_send cs) \<and>
    (successful_sends res' = successful_sends res + length (filter is_send cs) \<longrightarrow>
      (\<forall>l. SendTo l e \<in> set cs \<longrightarrow> entry (env_created_at_ms e) (envelope_bytes e) \<in> set (out_queue l (snd s')))) \<and>
    (errs s' = errs s \<longrightarrow> errs s < 2 ^ 64 - 1 \<longrightarrow>
      successes res' = successes res + length cs \<and>
      successful_sends res' = successful_sends res + length (filter is_send cs) \<and>
      first_error res' = first_error res \<and> first_nonrecoverable_error res' = first_nonrecoverable_error res))"
  using assms(1,3,4)
proof (induction cs arbitrary: res s)
  case Nil
  then show ?case by (auto simp: grows_refl)
next
  case (Cons c cs)
  obtain p s1 where p: "execute_command send c s = (p, s1)" by (cases "execute_command send c s")
  let ?res = "record_outcome (is_send c) p
    (if is_send c then res\<lparr>planned_sends := planned_sends res + 1\<rparr> else res)"
  from execute_forward [OF Cons.prems(1) assms(2) _ p] Cons.prems(2)
  have s1: "ok s1" "p \<noteq> Panic" "grows s s1"
    and sent: "\<And>l. c = SendTo l e \<Longrightarrow> p = Ok () \<Longrightarrow>
      entry (env_created_at_ms e) (envelope_bytes e) \<in> set (out_queue l (snd s1))"
    and err: "\<And>err. p = Err err \<Longrightarrow> is_send c \<and> errs s1 = min (2 ^ 64 - 1) (errs s + 1)"
    by auto
  from Cons.prems(3) p s1(2) have "execute_commands_loop send cs ?res s1 = (q, s')"
    by (cases p) (simp_all add: Let_def)
  from Cons.IH [OF s1(1) _ this] Cons.prems(2) obtain res' where IH: "ok s'" "grows s1 s'" "q = Ok res'"
    "planned_sends res' = planned_sends ?res + length (filter is_send cs)"
    "successful_sends res' \<le> successful_sends ?res + length (filter is_send cs)"
    "successful_sends res' = successful_sends ?res + length (filter is_send cs) \<Longrightarrow>
      \<forall>l. SendTo l e \<in> set cs \<longrightarrow> entry (env_created_at_ms e) (envelope_bytes e) \<in> set (out_queue l (snd s'))"
    "errs s' = errs s1 \<Longrightarrow> errs s1 < 2 ^ 64 - 1 \<Longrightarrow> successes res' = successes ?res + length cs \<and>
      successful_sends res' = successful_sends ?res + length (filter is_send cs) \<and>
      first_error res' = first_error ?res \<and> first_nonrecoverable_error res' = first_nonrecoverable_error ?res"
    by (auto split: if_splits)
  have grow: "grows s s'" using s1(3) IH(2) by (rule grows_trans)
  have mono: "errs s \<le> errs s1" "errs s1 \<le> errs s'" "\<And>l. set (out_queue l (snd s1)) \<subseteq> set (out_queue l (snd s'))"
    using s1(3) IH(2) by (auto simp: grows_def)
  show ?case
  proof (cases p)
    case (Ok u)
    then have handed: "entry (env_created_at_ms e) (envelope_bytes e) \<in> set (out_queue l (snd s'))" if "c = SendTo l e" for l
      using sent [OF that] mono(3) by auto
    have eq: "errs s1 = errs s" "errs s' = errs s1" if "errs s' = errs s" using that mono(1,2) by auto
    have res: "successes ?res = successes res + 1" "first_error ?res = first_error res"
      "first_nonrecoverable_error ?res = first_nonrecoverable_error res"
      "planned_sends ?res = planned_sends res + (if is_send c then 1 else 0)"
      "successful_sends ?res = successful_sends res + (if is_send c then 1 else 0)"
      by (simp_all add: Ok)
    have all: "\<forall>l. SendTo l e \<in> set (c # cs) \<longrightarrow> entry (env_created_at_ms e) (envelope_bytes e) \<in> set (out_queue l (snd s'))"
      if "successful_sends res' = successful_sends ?res + length (filter is_send cs)"
      using IH(6) [OF that] handed by auto
    have len: "length (filter is_send (c # cs)) = (if is_send c then 1 else 0) + length (filter is_send cs)"
      by simp
    have clean: "successes res' = successes res + length (c # cs) \<and>
        successful_sends res' = successful_sends res + length (filter is_send (c # cs)) \<and>
        first_error res' = first_error res \<and> first_nonrecoverable_error res' = first_nonrecoverable_error res"
      if "errs s' = errs s" "errs s < 2 ^ 64 - 1"
      using IH(7) that eq [OF that(1)] unfolding res len by simp
    have sends: "\<forall>l. SendTo l e \<in> set (c # cs) \<longrightarrow> entry (env_created_at_ms e) (envelope_bytes e) \<in> set (out_queue l (snd s'))"
      if "successful_sends res' = successful_sends res + length (filter is_send (c # cs))"
      using that by (intro all) (simp only: res len)
    have "planned_sends res' = planned_sends res + length (filter is_send (c # cs))"
      "successful_sends res' \<le> successful_sends res + length (filter is_send (c # cs))"
      using IH(4,5) unfolding res len by (simp_all only: add.assoc)
    with IH(1,3) grow clean sends show ?thesis by blast
  next
    case (Err er)
    with err have c: "is_send c" and lt: "errs s < 2 ^ 64 - 1 \<Longrightarrow> errs s < errs s1" by auto
    then have "\<not> (errs s' = errs s \<and> errs s < 2 ^ 64 - 1)" using mono(2) by auto
    moreover have res: "planned_sends ?res = planned_sends res + 1" "successful_sends ?res = successful_sends res"
      by (simp_all add: Err c)
    moreover have "length (filter is_send (c # cs)) = 1 + length (filter is_send cs)" using c by simp
    ultimately show ?thesis
      using IH(1,3) grow IH(4,5) unfolding res
      by (intro conjI exI [of _ res'] impI) simp_all
  qed (use s1(2) in simp)
qed

lemma for_flush_cases:
  assumes "ok s" and "sendable e" and "\<forall>c \<in> set cs. forwards e c" and "cs \<noteq> []"
    and "execute_commands_for_flush send cs s = (q, s')"
  shows "ok s' \<and> grows s s' \<and>
    (q = Ok True \<longrightarrow> (\<forall>l. SendTo l e \<in> set cs \<longrightarrow> entry (env_created_at_ms e) (envelope_bytes e) \<in> set (out_queue l (snd s')))) \<and>
    (errs s' = errs s \<longrightarrow> errs s < 2 ^ 64 - 1 \<longrightarrow> q = Ok True)"
proof -
  obtain p s1 where p: "execute_commands_loop send cs command_execution_default s = (p, s1)"
    by (cases "execute_commands_loop send cs command_execution_default s")
  from loop_forwards [OF assms(1-3) p] obtain res where res: "ok s1" "grows s s1" "p = Ok res"
    "planned_sends res = length (filter is_send cs)"
    "successful_sends res = length (filter is_send cs) \<Longrightarrow>
      \<forall>l. SendTo l e \<in> set cs \<longrightarrow> entry (env_created_at_ms e) (envelope_bytes e) \<in> set (out_queue l (snd s1))"
    "errs s1 = errs s \<Longrightarrow> errs s < 2 ^ 64 - 1 \<Longrightarrow> successes res = length cs \<and>
      successful_sends res = length (filter is_send cs) \<and> first_nonrecoverable_error res = None"
    by (auto simp: command_execution_default_def)
  have run: "execute_commands_for_flush send cs s =
      (case first_nonrecoverable_error res of
         Some error \<Rightarrow> (Err error, s1)
       | None \<Rightarrow>
           if planned_sends res > 0 then (Ok (successful_sends res = planned_sends res), s1)
           else if successes res > 0 \<or> cs = [] then (Ok True, s1)
           else case first_error res of
             Some error \<Rightarrow> if gw_is_recoverable_send_failure error then (Ok False, s1) else (Err error, s1)
           | None \<Rightarrow> (Ok True, s1))"
    using p res(3)
    by (simp add: execute_commands_for_flush_def execute_commands_record_def sbind_def sret_def sthrow_def
        split: option.splits)
  have s': "s' = s1" using run assms(5) by (auto split: option.splits if_splits)
  have sends: "\<forall>l. SendTo l e \<in> set cs \<longrightarrow> entry (env_created_at_ms e) (envelope_bytes e) \<in> set (out_queue l (snd s1))"
    if "q = Ok True"
  proof (cases "planned_sends res > 0")
    case True
    with run assms(5) that res(4,5) show ?thesis by (auto split: option.splits)
  next
    case False
    with res(4) have "\<forall>c \<in> set cs. \<not> is_send c" by (auto simp: filter_empty_conv)
    then show ?thesis by (auto simp: is_send_def)
  qed
  have "q = Ok True" if "errs s1 = errs s" "errs s < 2 ^ 64 - 1"
    using run assms(4,5) res(4) res(6) [OF that] by (auto split: if_splits)
  with res(1,2) sends s' show ?thesis by auto
qed

lemma flush_step_cases:
  assumes "ok s" and "flush_step send s = (q, s')"
  shows "ok s' \<and> q \<noteq> Panic \<and> grows s s' \<and>
    (q \<noteq> Ok True \<longrightarrow> store_of s' = store_of s) \<and>
    (q = Ok True \<longrightarrow> (\<exists>f e. frame_holds f e \<and> lookup (store_of s) (sf_message_id f) = Some f \<and>
      lookup (store_of s') = (lookup (store_of s))(sf_message_id f := None) \<and>
      handed_over_as entry (gw_router (fst s')) (\<lambda>l. out_queue l (snd s')) e)) \<and>
    (q = Ok False \<longrightarrow> link_up (gw_router (fst s)) \<longrightarrow> errs s' = errs s \<longrightarrow> errs s < 2 ^ 64 - 1 \<longrightarrow>
      store_len (store_of s) = 0)"
proof (cases "store_len (store_of s) = 0")
  case True
  with flush_step_empty [OF assms(1) True] assms show ?thesis by (auto simp: grows_refl)
next
  case False
  from preservesD [OF preserves_flush_step assms] have ok': "ok s'" "q \<noteq> Panic" by auto
  from flush_step_pending [OF assms(1) False] obtain f e where f: "frame_holds f e"
    "lookup (store_of s) (sf_message_id f) = Some f" and e: "wf_envelope e \<and> validate_envelope e = Ok () \<and>
      length (envelope_bytes e) \<le> GATEWAY_FRAME_BUFFER_LEN"
    and run: "flush_step send s =
       (case forward_stored (gw_router (fst s)) e commands_buffer of
          (Ok n, commands) \<Rightarrow>
            if n = 0 then (Ok False, s)
            else sbind (execute_commands_for_flush send (take n commands)) (\<lambda>done.
              if \<not> done then sret False else sbind (gateway_remove (sf_message_id f)) (\<lambda>_. sret True)) s
        | (Err err, commands) \<Rightarrow> (Err (GwRouter err), s)
        | (Panic, commands) \<Rightarrow> (Panic, s))"
    by blast
  then have e: "sendable e" by (simp only: sendable_def)
  have v: "validate_envelope e = Ok ()" using e by (simp add: sendable_def)
  obtain res cmds where fwd: "forward_stored (gw_router (fst s)) e commands_buffer = (res, cmds)"
    by (cases "forward_stored (gw_router (fst s)) e commands_buffer")
  show ?thesis
  proof (cases res)
    case (Ok n)
    let ?cs = "take n cmds"
    from fwd Ok have cs: "stored_commands (gw_router (fst s)) e = Ok ?cs" and len: "n = length ?cs"
      using forward_stored_fits [of commands_buffer "gw_router (fst s)" e]
      by (auto simp: forward_stored_emits emits_result_commands fits_def)
    show ?thesis
    proof (cases "n = 0")
      case True
      with cs v stored_commands_Nil [of "gw_router (fst s)" e] have "\<not> link_up (gw_router (fst s))" by simp
      with True run fwd Ok assms ok' show ?thesis by (auto simp: grows_refl)
    next
      case n: False
      with len have ne: "?cs \<noteq> []" by (metis length_0_conv)
      have fw: "\<forall>c \<in> set ?cs. forwards e c"
        using stored_commands_shape [OF cs] by (auto simp: forwards_def)
      have "\<forall>c \<in> set ?cs. store_free c" using fw by (auto simp: forwards_def)
      note keep = execute_for_flush_keeps_store [OF this]
      obtain p s1 where p: "execute_commands_for_flush send ?cs s = (p, s1)"
        by (cases "execute_commands_for_flush send ?cs s")
      note flush = for_flush_cases [OF assms(1) e fw ne p]
      have st: "store_of s1 = store_of s" using keepsD [OF keep p] .
      have run': "flush_step send s = sbind (execute_commands_for_flush send ?cs) (\<lambda>done.
            if \<not> done then sret False else sbind (gateway_remove (sf_message_id f)) (\<lambda>_. sret True)) s"
        using run fwd Ok n by simp
      show ?thesis
      proof (cases "p = Ok True")
        case True
        have "store_inv GATEWAY_FRAME_BUFFER_LEN (store_of s1)" using flush by (simp add: ok_def gateway_inv_def)
        moreover have "sf_message_id f \<in> dom (lookup (store_of s1))" using f st by auto
        ultimately obtain t where t: "store_remove (sf_message_id f) (store_of s1) = (Ok (), t)"
          "lookup t = (lookup (store_of s1))(sf_message_id f := None)"
          using store_remove_cases(2) store_remove_Ok(2) by blast
        have s': "q = Ok True" "s' = ((fst s1)\<lparr>gw_store := t\<rparr>, snd s1)"
          using run' assms(2) p True t(1)
          by (cases s1; auto simp: sbind_def gateway_remove_def sret_def)+
        have "grows s s'" using flush s' by (auto simp: grows_def view_def errs_def)
        moreover have "handed_over_as entry (gw_router (fst s)) (\<lambda>l. out_queue l (snd s')) e"
          using stored_commands_handed [OF cs v ne, of entry "\<lambda>l. out_queue l (snd s')"] flush True s' by auto
        then have "handed_over_as entry (gw_router (fst s')) (\<lambda>l. out_queue l (snd s')) e"
          using \<open>grows s s'\<close> by (elim handed_over_cong) (auto simp: grows_def view_def Let_def)
        ultimately show ?thesis using f t st s' ok' by auto
      next
        case False
        with run' assms(2) p have "s' = s1" "q \<noteq> Ok True" "q = Ok False \<longrightarrow> p = Ok False"
          by (cases p; auto simp: sbind_def sret_def)+
        with flush st ok' False show ?thesis by auto
      qed
    qed
  next
    case (Err err)
    with run fwd assms ok' show ?thesis by (auto simp: grows_refl)
  next
    case Panic
    with forward_stored_fits [of commands_buffer "gw_router (fst s)" e] fwd show ?thesis
      by (simp add: fits_def)
  qed
qed

text \<open>
  Relation between the states around a flush: every frame still stored was stored before, every
  frame that left was handed over, and the environment only grew.
\<close>

definition flushed :: "gateway_core \<times> 'x \<Rightarrow> gateway_core \<times> 'x \<Rightarrow> bool" where
  "flushed s s' \<longleftrightarrow> grows s s' \<and>
     (\<forall>m f. lookup (store_of s') m = Some f \<longrightarrow> lookup (store_of s) m = Some f) \<and>
     (\<forall>m f. lookup (store_of s) m = Some f \<longrightarrow> lookup (store_of s') m = None \<longrightarrow>
       (\<exists>e. frame_holds f e \<and> handed_over_as entry (gw_router (fst s')) (\<lambda>l. out_queue l (snd s')) e))"

lemma handed_over_grows:
  assumes "grows s s'" and "handed_over_as entry (gw_router (fst s)) (\<lambda>l. out_queue l (snd s)) e"
  shows "handed_over_as entry (gw_router (fst s')) (\<lambda>l. out_queue l (snd s')) e"
  using assms(2,1) by (elim handed_over_cong) (auto simp: grows_def view_def Let_def)

lemma flushed_refl: "grows s s' \<Longrightarrow> store_of s' = store_of s \<Longrightarrow> flushed s s'"
  by (auto simp: flushed_def)

lemma flushed_trans:
  assumes "flushed s s1" and "flushed s1 s'"
  shows "flushed s s'"
  unfolding flushed_def
proof (intro conjI allI impI)
  show "grows s s'" using assms grows_trans unfolding flushed_def by blast
  show "lookup (store_of s) m = Some f" if "lookup (store_of s') m = Some f" for m f
    using assms that unfolding flushed_def by blast
  fix m f
  assume f: "lookup (store_of s) m = Some f" "lookup (store_of s') m = None"
  show "\<exists>e. frame_holds f e \<and> handed_over_as entry (gw_router (fst s')) (\<lambda>l. out_queue l (snd s')) e"
  proof (cases "lookup (store_of s1) m")
    case None
    with f(1) assms(1) obtain e where "frame_holds f e"
      "handed_over_as entry (gw_router (fst s1)) (\<lambda>l. out_queue l (snd s1)) e"
      unfolding flushed_def by blast
    moreover have "grows s1 s'" using assms(2) by (simp add: flushed_def)
    ultimately show ?thesis using handed_over_grows by blast
  next
    case (Some g)
    with assms(1) f(1) have "g = f" unfolding flushed_def by fastforce
    with Some f(2) assms(2) show ?thesis unfolding flushed_def by blast
  qed
qed

lemma flush_step_flushed:
  assumes "ok s" and "flush_step send s = (q, s')"
  shows "flushed s s'"
proof (cases "q = Ok True")
  case True
  from flush_step_cases [OF assms] True obtain f e where f: "grows s s'" "frame_holds f e"
    "lookup (store_of s) (sf_message_id f) = Some f"
    "lookup (store_of s') = (lookup (store_of s))(sf_message_id f := None)"
    "handed_over_as entry (gw_router (fst s')) (\<lambda>l. out_queue l (snd s')) e"
    by blast
  then show ?thesis unfolding flushed_def by (auto split: if_splits)
next
  case False
  with flush_step_cases [OF assms] show ?thesis by (intro flushed_refl) auto
qed

lemma flush_loop_flushed:
  assumes "ok s" and "flush_loop send s = (q, s')"
  shows "flushed s s' \<and> (q = Ok () \<longrightarrow> link_up (gw_router (fst s)) \<longrightarrow> errs s' = errs s \<longrightarrow>
    errs s < 2 ^ 64 - 1 \<longrightarrow> store_len (store_of s') = 0)"
  using assms
proof (induction "store_len (store_of s)" arbitrary: s rule: less_induct)
  case less
  obtain p s1 where p: "flush_step send s = (p, s1)" by (cases "flush_step send s")
  note step = flush_step_cases [OF less.prems(1) p]
  have fl: "flushed s s1" by (rule flush_step_flushed [OF less.prems(1) p])
  show ?case
  proof (cases "p = Ok True")
    case True
    with less.prems(2) p have loop: "flush_loop send s1 = (q, s')" by (simp add: flush_loop.simps [of send s])
    from True flush_step_removes [of send s s1] p have "store_len (store_of s1) < store_len (store_of s)" by simp
    from less.hyps [OF this _ loop] step
    have IH: "flushed s1 s'" "q = Ok () \<Longrightarrow> link_up (gw_router (fst s1)) \<Longrightarrow> errs s' = errs s1 \<Longrightarrow>
        errs s1 < 2 ^ 64 - 1 \<Longrightarrow> store_len (store_of s') = 0"
      by auto
    have "link_up (gw_router (fst s1)) = link_up (gw_router (fst s))"
      using step by (simp add: grows_def view_def link_up_def Let_def)
    moreover have "errs s \<le> errs s1" "errs s1 \<le> errs s'" using step IH(1) by (auto simp: grows_def flushed_def)
    ultimately show ?thesis using flushed_trans [OF fl IH(1)] IH(2) by auto
  next
    case False
    with less.prems(2) p step have "s' = s1 \<and> (q = Ok () \<longrightarrow> p = Ok False)"
      by (cases p) (auto simp: flush_loop.simps [of send s])
    with fl step False show ?thesis by auto
  qed
qed

lemma flush_store_flushed:
  assumes "ok s" and "flush_store send s = (q, s')"
  shows "flushed s s' \<and> (q = Ok () \<longrightarrow> link_up (gw_router (fst s)) \<longrightarrow> errs s' = errs s \<longrightarrow>
    errs s < 2 ^ 64 - 1 \<longrightarrow> store_len (store_of s') = 0)"
proof -
  obtain g x where s: "s = (g, x)" by (cases s)
  let ?now = "gw_last_now_ms g"
  let ?s1 = "snd (gateway_expire ?now s)"
  have inv: "store_inv GATEWAY_FRAME_BUFFER_LEN (gw_store g)" and now: "rt_now_ms (gw_router g) = ?now"
    using assms(1) by (simp_all add: s ok_def gateway_inv_def)
  have ok1: "ok ?s1" using preserves_run [OF preserves_expire assms(1)] by blast
  have loop: "flush_loop send ?s1 = (q, s')"
    using assms(2) by (auto simp: s flush_store_def sbind_def gateway_expire_def split: prod.splits)
  have st: "store_of ?s1 = snd (expire_before ?now (gw_store g))"
    by (simp add: s gateway_expire_def split: prod.splits)
  have g1: "grows s ?s1" "errs ?s1 = errs s" "gw_router (fst ?s1) = gw_router g"
    by (simp_all add: s gateway_expire_def grows_def view_def errs_def split: prod.splits)
  have "flushed s ?s1"
    unfolding flushed_def
  proof (intro conjI allI impI g1(1))
    fix m f
    show "lookup (store_of s) m = Some f" if "lookup (store_of ?s1) m = Some f"
      using that unfolding st lookup_expire [OF inv] by (auto simp: s split: option.splits if_splits)
    assume f: "lookup (store_of s) m = Some f" "lookup (store_of ?s1) m = None"
    then have "ms (sf_expires_at_ms f) \<le> ms ?now"
      unfolding st lookup_expire [OF inv] by (auto simp: s split: if_splits)
    moreover have "f \<in> set (stored_frames (gw_store g))"
      using f(1) by (simp add: s lookup_eq_Some [OF inv])
    then obtain e where "frame_holds f e"
      using inv by (auto simp: stored_frames_def store_inv_def record_ok_def)
    ultimately show "\<exists>e. frame_holds f e \<and> handed_over_as entry (gw_router (fst ?s1)) (\<lambda>l. out_queue l (snd ?s1)) e"
      using now g1(3) by (auto simp: handed_over_as_def frame_holds_def)
  qed
  with flush_loop_flushed [OF ok1 loop] g1 show ?thesis
    by (auto simp: s intro: flushed_trans)
qed

text \<open>Moving the clock expires what is due; nothing is sent and no link changes.\<close>

lemma observe_time_runs:
  "\<exists>s'. observe_time send now s = (Ok (), s') \<and> errs s' = errs s \<and> snd s' = snd s \<and>
    link_up (gw_router (fst s')) = link_up (gw_router (fst s)) \<and>
    clock_of s' = (if ms now \<le> ms (clock_of s) then clock_of s else now)"
proof -
  obtain g x where s: "s = (g, x)" by (cases s)
  let ?g = "g\<lparr>gw_last_now_ms := now, gw_router := (gw_router g)\<lparr>rt_now_ms := now\<rparr>\<rparr>"
  have emit: "emit commands_buffer (StoreCmd (ExpireBefore now)) =
      (Ok 1, commands_buffer[0 := StoreCmd (ExpireBefore now)])"
    by (simp add: emit_def commands_buffer_def ROUTER_COMMAND_CAPACITY_def)
  have slice: "slice_to (commands_buffer[0 := StoreCmd (ExpireBefore now)]) (Suc 0) =
      (Ok [StoreCmd (ExpireBefore now)] :: (_, router_error) result)"
    by (simp add: slice_to_def commands_buffer_def ROUTER_COMMAND_CAPACITY_def numeral_eq_Suc)
  obtain n t where exp: "expire_before now (gw_store g) = (n, t)" by (cases "expire_before now (gw_store g)")
  have "route_event send (Tick now) (g\<lparr>gw_last_now_ms := now\<rparr>, x) = (Ok (), snd (gateway_expire now (?g, x)))"
    using exp
    by (simp add: route_event_def handle_event_def emit slice sbind_slift execute_commands_def
        execute_commands_record_def command_execution_default_def execute_command_def is_send_def
        gateway_expire_def sbind_def slift_def sret_def)
  then show ?thesis
    using exp by (simp add: s observe_time_def gateway_expire_def errs_def link_up_def)
qed

end

section \<open>Flushing a single message\<close>

lemma set_link_state_free:
  assumes "find_link_index r l = None" and "position is_none (rt_links r) = Some i"
  shows "set_link_state l True r = (Ok (), r\<lparr>rt_links := (rt_links r)[i := Some \<lparr>ls_link_id = l, ls_up = True\<rparr>]\<rparr>)"
  using assms by (simp add: set_link_state_def del: position_eq_None)

lemma handle_link_up:
  assumes "set_link_state l True (gw_router g) = (Ok (), r)"
  shows "handle_link_event send (Up l) (g, x) = flush_store send (g\<lparr>gw_router := r\<rparr>, x)"
  using assms
  by (simp add: handle_link_event_def route_event_def handle_event_def slice_to_def execute_commands_def
      execute_commands_record_def sbind_def slift_def sret_def)

context link_executor
begin

text \<open>A flush of a single stored message whose one send succeeds: it goes out and the store is empty.\<close>

lemma flush_step_single:
  assumes "ok s" and "lookup (store_of s) = [env_message_id e \<mapsto> frame_for e]" and "sendable e"
  shows "flush_step send s =
    (case forward_stored (gw_router (fst s)) e commands_buffer of
       (Ok n, commands) \<Rightarrow>
         if n = 0 then (Ok False, s)
         else sbind (execute_commands_for_flush send (take n commands)) (\<lambda>done.
           if \<not> done then sret False else sbind (gateway_remove (env_message_id e)) (\<lambda>_. sret True)) s
     | (Err err, commands) \<Rightarrow> (Err (GwRouter err), s)
     | (Panic, commands) \<Rightarrow> (Panic, s))"
proof -
  have inv: "store_inv GATEWAY_FRAME_BUFFER_LEN (store_of s)" using assms(1) by (simp add: ok_def gateway_inv_def)
  have "store_len (store_of s) \<noteq> 0" using card_dom_lookup [OF inv] assms(2) by simp
  from flush_step_pending [OF assms(1) this] obtain f e' where
    f: "frame_holds f e'" "lookup (store_of s) (sf_message_id f) = Some f"
    and run: "flush_step send s =
       (case forward_stored (gw_router (fst s)) e' commands_buffer of
          (Ok n, commands) \<Rightarrow>
            if n = 0 then (Ok False, s)
            else sbind (execute_commands_for_flush send (take n commands)) (\<lambda>done.
              if \<not> done then sret False else sbind (gateway_remove (sf_message_id f)) (\<lambda>_. sret True)) s
        | (Err err, commands) \<Rightarrow> (Err (GwRouter err), s)
        | (Panic, commands) \<Rightarrow> (Panic, s))"
    by blast
  from f(2) assms(2) have fe: "f = frame_for e" by (simp split: if_splits)
  moreover have "decode_envelope (sf_bytes f) = Ok e'" using f(1) unfolding frame_holds_def by blast
  ultimately have "Ok e' = decode_envelope (envelope_bytes e)" by (simp only: frame_for_def stored_frame.simps)
  also have "\<dots> = Ok e" using assms(3) by (intro decode_encode) (simp_all add: sendable_def)
  finally have "e' = e" by simp
  moreover have "sf_message_id f = env_message_id e" by (simp add: fe frame_for_def)
  ultimately show ?thesis using run by (simp only:)
qed

lemma flush_single:
  assumes "ok s" and "lookup (store_of s) = [env_message_id e \<mapsto> frame_for e]" and "sendable e"
    and "stored_commands (gw_router (fst s)) e = Ok [SendTo l e]"
    and "send l (envelope_bytes e) (env_created_at_ms e) (snd s) = (Ok (), x')"
  shows "\<exists>s'. flush_loop send s = (Ok (), s') \<and> snd s' = x' \<and> errs s' = errs s \<and> store_len (store_of s') = 0"
proof -
  have inv: "store_inv GATEWAY_FRAME_BUFFER_LEN (store_of s)" using assms(1) by (simp add: ok_def gateway_inv_def)
  have len: "store_len (store_of s) = 1" using card_dom_lookup [OF inv] assms(2) by simp
  from execute_send_Ok [OF assms(1,3,5)] obtain s2 where
    s2: "execute_command send (SendTo l e) s = (Ok (), s2)" "errs s2 = errs s" "store_of s2 = store_of s" "snd s2 = x'"
    by blast
  have fwd: "forward_stored (gw_router (fst s)) e commands_buffer = emits [SendTo l e] commands_buffer"
    by (simp add: forward_stored_emits assms(4) emits_result_def)
  obtain t where t: "store_remove (env_message_id e) (store_of s2) = (Ok (), t)"
    using store_remove_cases(2) [of "env_message_id e" "store_of s2"] assms(2) s2(3) by auto
  let ?s3 = "((fst s2)\<lparr>gw_store := t\<rparr>, snd s2)"
  have step: "flush_step send s = (Ok True, ?s3)"
    using fwd flush_step_single [OF assms(1-3)] for_flush_single(1) [OF s2(1)] t
    by (cases s2) (simp add: emits_def commands_buffer_def ROUTER_COMMAND_CAPACITY_def sbind_def gateway_remove_def sret_def)
  have "ok ?s3" using preservesD [OF preserves_flush_step assms(1) step] by simp
  moreover have empty: "store_len (store_of ?s3) = 0" using flush_step_removes [OF step] len by simp
  ultimately have "flush_step send ?s3 = (Ok False, ?s3)" by (rule flush_step_empty)
  then have "flush_loop send s = (Ok (), ?s3)"
    by (simp add: flush_loop.simps [of _ s] step flush_loop.simps [of _ ?s3])
  with s2 empty show ?thesis by (auto simp: errs_def)
qed

text \<open>With nothing to command, a flush leaves the message where it is.\<close>

lemma flush_single_waits:
  assumes "ok s" and "lookup (store_of s) = [env_message_id e \<mapsto> frame_for e]" and "sendable e"
    and "stored_commands (gw_router (fst s)) e = Ok []"
  shows "flush_loop send s = (Ok (), s)"
proof -
  have "forward_stored (gw_router (fst s)) e commands_buffer = (Ok 0, commands_buffer)"
    by (simp add: forward_stored_emits assms(4) emits_result_def emits_def)
  then have "flush_step send s = (Ok False, s)" by (simp add: flush_step_single [OF assms(1-3)])
  then show ?thesis by (simp add: flush_loop.simps [of _ s])
qed

text \<open>Expiring what is due before the loop: here a message that is not due.\<close>

lemma flush_store_live:
  assumes "ok s" and "lookup (store_of s) = [env_message_id e \<mapsto> frame_for e]"
    and "ms (clock_of s) < ms (env_expires_at_ms e)"
  shows "\<exists>s'. flush_store send s = flush_loop send s' \<and> ok s' \<and> lookup (store_of s') = lookup (store_of s) \<and>
    snd s' = snd s \<and> gw_router (fst s') = gw_router (fst s) \<and> errs s' = errs s \<and> view s' = view s"
proof -
  let ?s = "snd (gateway_expire (clock_of s) s)"
  have inv: "store_inv GATEWAY_FRAME_BUFFER_LEN (store_of s)" using assms(1) by (simp add: ok_def gateway_inv_def)
  have ok': "ok ?s" using preserves_run [OF preserves_expire assms(1)] by blast
  have st: "store_of ?s = snd (expire_before (clock_of s) (store_of s))"
    by (cases s) (simp add: gateway_expire_def split: prod.splits)
  have "lookup (store_of ?s) = lookup (store_of s)"
    unfolding st fun_eq_iff lookup_expire [OF inv] using assms(2,3) by (simp add: frame_for_def)
  moreover have "flush_store send s = flush_loop send ?s"
    by (cases s) (simp add: flush_store_def sbind_def gateway_expire_def split: prod.splits)
  moreover have "snd ?s = snd s" "gw_router (fst ?s) = gw_router (fst s)" "errs ?s = errs s" "view ?s = view s"
    by (cases s; simp add: gateway_expire_def errs_def view_def split: prod.splits)+
  ultimately show ?thesis using ok' by blast
qed

lemma flush_store_empty:
  assumes "ok s" and "store_len (store_of s) = 0"
  shows "\<exists>s'. flush_store send s = (Ok (), s') \<and> store_len (store_of s') = 0 \<and> snd s' = snd s \<and>
    gw_router (fst s') = gw_router (fst s)"
proof -
  let ?s = "snd (gateway_expire (clock_of s) s)"
  have ok': "ok ?s" using preserves_run [OF preserves_expire assms(1)] by blast
  have "store_of ?s = snd (expire_before (clock_of s) (store_of s))"
    by (cases s) (simp add: gateway_expire_def split: prod.splits)
  then have len: "store_len (store_of ?s) = 0"
    using expire_before_counts [of "store_of s" "clock_of s"] assms(2) by simp
  have "flush_store send s = flush_loop send ?s"
    by (cases s) (simp add: flush_store_def sbind_def gateway_expire_def split: prod.splits)
  also have "\<dots> = (Ok (), ?s)"
    using flush_step_empty [OF ok' len] by (simp add: flush_loop.simps [of _ ?s])
  finally show ?thesis
    using len by (cases s) (auto simp: gateway_expire_def split: prod.splits)
qed

end

section \<open>Submitting while no link is up\<close>

lemma unicast_no_link:
  assumes "\<And>c. env_destination e \<noteq> Community c"
    and "\<not> is_local_destination r (env_destination e)"
    and "validate_envelope e = Ok ()" and "ms (rt_now_ms r) < ms (env_expires_at_ms e)"
    and "env_hop_limit e \<noteq> 0" and "\<not> link_up r"
  shows "stored_commands r e = Ok []"
    and "\<not> has_seen r (seen_key_for e) \<Longrightarrow> envelope_commands r e None = Ok [StoreCmd (Put e)]"
proof -
  have "find (usable None) (flatten (rt_links r)) = None"
    using assms(6) by (auto simp: find_None_iff link_up_def usable_def)
  then have "first_up_link_except r None = None" by (simp add: first_up_link_except_def)
  then show "stored_commands r e = Ok []"
    and "\<not> has_seen r (seen_key_for e) \<Longrightarrow> envelope_commands r e None = Ok [StoreCmd (Put e)]"
    using assms
    by (cases "env_destination e";
        simp add: stored_commands_def envelope_commands_def live_commands_def admit_def not_le next_hop_envelope_def)+
qed


lemma put_into_empty:
  assumes "wf_envelope e" and "validate_envelope e = Ok ()" and "length (envelope_bytes e) \<le> fm"
    and "store_len s = 0" and "0 < store_capacity s"
  shows "\<exists>t. put_envelope fm e s = (Ok (), t)"
proof -
  have fr: "stored_frames s = []" using assms(4) by (simp add: store_len_frames)
  then have "\<forall>x \<in> set (st_records s). x = None" by (simp add: stored_frames_def)
  then obtain i where "position is_none (st_records s) = Some i"
    using assms(5) by (cases "st_records s") (auto simp: store_capacity_def)
  then show ?thesis
    using assms fr
    by (simp add: put_envelope_valid put_valid_frame_cases lookup_def metadata_for_def)
qed

lemma set_link_state_links:
  "rt_links r' = rt_links r \<Longrightarrow> fst (set_link_state l up r') = fst (set_link_state l up r)"
  by (simp add: set_link_state_def find_link_index_def del: position_eq_None split: option.splits)

lemma first_link_up:
  assumes "\<not> link_up r" and "set_link_state l True r = (Ok (), r')"
  shows "first_up_link_except r' None = Some l" and "rt_policy r' = rt_policy r" and "rt_now_ms r' = rt_now_ms r"
proof -
  let ?new = "\<lparr>ls_link_id = l, ls_up = True\<rparr>"
  obtain i where i: "i < length (rt_links r)" and r': "r' = r\<lparr>rt_links := (rt_links r)[i := Some ?new]\<rparr>"
    using assms(2)
    by (auto simp: set_link_state_def simp del: position_eq_None dest: position_length
        split: option.splits elim: find_link_index_Some)
  show "rt_policy r' = rt_policy r" "rt_now_ms r' = rt_now_ms r" by (simp_all add: r')
  have no: "find (usable None) (flatten (take i (rt_links r))) = None"
    using assms(1) by (auto simp: find_None_iff link_up_def usable_def dest: in_set_takeD)
  have "find p (xs @ y # ys) = Some y" if "find p xs = None" "p y" for p :: "link_state \<Rightarrow> bool" and xs y ys
    using that by (induction xs) auto
  from this [OF no, of ?new "flatten (drop (Suc i) (rt_links r))"] show "first_up_link_except r' None = Some l"
    using i by (simp add: first_up_link_except_def r' upd_conv_take_nth_drop usable_def)
qed

lemma unicast_first_link:
  assumes "\<And>c. env_destination e \<noteq> Community c" and "\<not> is_local_destination r (env_destination e)"
    and "validate_envelope e = Ok ()" and "ms (rt_now_ms r) < ms (env_expires_at_ms e)"
    and "env_hop_limit e \<noteq> 0" and "first_up_link_except r None = Some l"
  shows "stored_commands r e = Ok [SendTo l e]"
  using assms by (cases "env_destination e"; simp add: stored_commands_def admit_def not_le)

context link_executor
begin

lemma submit_stores:
  assumes "ok s" and "sendable e" and "\<And>c. env_destination e \<noteq> Community c"
    and "\<not> is_local_destination (gw_router (fst s)) (env_destination e)"
    and "ms (clock_of s) < ms (env_expires_at_ms e)" and "env_hop_limit e \<noteq> 0"
    and "\<not> link_up (gw_router (fst s))" and "\<not> has_seen (gw_router (fst s)) (seen_key_for e)"
    and "allow_store_and_forward (gc_policy (gw_config (fst s)))"
    and "store_len (store_of s) = 0" and "0 < store_capacity (store_of s)"
  shows "\<exists>s'. gateway_submit send e s = (Ok (), s') \<and> ok s' \<and>
    lookup (store_of s') = [env_message_id e \<mapsto> frame_for e] \<and> snd s' = snd s \<and> view s' = view s"
proof -
  obtain g x where s: "s = (g, x)" by (cases s)
  let ?r = "gw_router g"
  have e: "wf_envelope e" "validate_envelope e = Ok ()" "length (envelope_bytes e) \<le> GATEWAY_FRAME_BUFFER_LEN"
    using assms(2) by (simp_all add: sendable_def)
  have now: "rt_now_ms ?r = gw_last_now_ms g" using assms(1) by (simp add: s ok_def gateway_inv_def)
  note idle = unicast_no_link [of e, OF assms(3)]
  define s1 where "s1 = snd (upd_metrics (\<lambda>m. m\<lparr>submitted := saturating_add (submitted m) 1\<rparr>) s)"
  have up1: "upd_metrics (\<lambda>m. m\<lparr>submitted := saturating_add (submitted m) 1\<rparr>) s = (Ok (), s1)"
    and s1: "view s1 = view s" "store_of s1 = store_of s" "snd s1 = snd s" "gw_router (fst s1) = ?r"
      "gw_config (fst s1) = gw_config g"
    by (simp_all add: s1_def upd_metrics_def s view_def)
  have ok1: "ok s1" using preservesD [OF preserves_simple(1) assms(1) up1] by simp
  obtain t where put: "put_envelope GATEWAY_FRAME_BUFFER_LEN e (store_of s1) = (Ok (), t)"
    using put_into_empty [OF e] assms(10,11) s1(2) by auto
  have inv1: "store_inv GATEWAY_FRAME_BUFFER_LEN (store_of s1)" using ok1 by (simp add: ok_def gateway_inv_def)
  have look: "lookup t = [env_message_id e \<mapsto> frame_for e]"
    using put_envelope_Ok(3) [OF inv1 e(1) put] assms(10) s1(2) by (simp add: lookup_def store_len_frames)
  let ?c = "StoreCmd (Put e)"
  obtain q s2 where ex: "execute_command send ?c s1 = (q, s2)" by (cases "execute_command send ?c s1")
  have "wf_command ?c" using e by simp
  from preservesD [OF preserves_execute_command [OF this] ok1 ex] have ok2: "ok s2" by simp
  have "router_inv ?r" using assms(1) by (simp add: s ok_def gateway_inv_def)
  from commit_seen_inv [OF this, of e] obtain r' where r': "commit_seen e ?r = (Ok (), r')"
    "rt_links r' = rt_links ?r" "rt_policy r' = rt_policy ?r" "rt_now_ms r' = rt_now_ms ?r"
    by auto
  have s2: "q = Ok ()" "store_of s2 = t" "snd s2 = snd s" "view s2 = view s"
  proof -
    obtain g1 where g1: "s1 = (g1, x)" using s1(3) by (cases s1) (simp add: s)
    let ?m = "(gw_metrics g1)\<lparr>stored := saturating_add (stored (gw_metrics g1)) 1\<rparr>"
    have "execute_command send ?c s1 = (Ok (), (g1\<lparr>gw_store := t, gw_metrics := ?m, gw_router := r'\<rparr>, x))"
      using put r'(1) s1(4,5) assms(9)
      by (simp add: g1 s execute_command_def sbind_def gateway_put_def upd_metrics_def router_commit_def)
    with ex have "q = Ok ()" "s2 = (g1\<lparr>gw_store := t, gw_metrics := ?m, gw_router := r'\<rparr>, x)" by simp_all
    then show "q = Ok ()" "store_of s2 = t" "snd s2 = snd s" "view s2 = view s"
      using s1(1,4) r' by (simp_all add: s g1 view_def Let_def)
  qed
  have route: "route_event send (LocalSubmit e) s1 = (Ok (), s2)"
  proof -
    have "handle_event (LocalSubmit e) commands_buffer ?r = (emits [?c] commands_buffer, ?r)"
      using idle(2) [of ?r] assms(4-8) now e(2)
      by (simp add: s handle_event_def handle_envelope_emits emits_result_def)
    moreover have "execute_commands send [?c] s1 = (Ok (), s2)"
      using for_flush_single(2) ex s2(1) by simp
    moreover obtain g1 where g1: "s1 = (g1, x)" "gw_router g1 = ?r" using s1(3,4) by (cases s1) (simp add: s)
    moreover have eq: "g1\<lparr>gw_router := ?r\<rparr> = g1" using g1(2) by (cases g1) simp
    ultimately show ?thesis
      by (simp add: eq route_event_def emits_def slice_to_def commands_buffer_def ROUTER_COMMAND_CAPACITY_def sbind_slift)
  qed
  have c2: "clock_of s2 = clock_of s" "link_up (gw_router (fst s2)) = link_up ?r" "rt_now_ms (gw_router (fst s2)) = rt_now_ms ?r"
    "is_local_destination (gw_router (fst s2)) (env_destination e) = is_local_destination ?r (env_destination e)"
    using s2(4) by (auto simp: view_def s link_up_def Let_def is_local_destination_def split: hyf_destination.splits)
  obtain s3 where s3: "flush_store send s2 = flush_loop send s3" "ok s3"
    "lookup (store_of s3) = [env_message_id e \<mapsto> frame_for e]" "snd s3 = snd s2"
    "gw_router (fst s3) = gw_router (fst s2)" "view s3 = view s2"
    using flush_store_live [OF ok2, of e] look s2(2) c2(1) assms(5) by auto
  have "flush_loop send s3 = (Ok (), s3)"
    by (rule flush_single_waits [OF s3(2,3) assms(2)])
       (use idle(1) [of "gw_router (fst s3)"] s3(5) c2 assms(4-7) now e(2) in \<open>simp add: s\<close>)
  then have "gateway_submit send e s = (Ok (), s3)"
    using up1 route s3(1) by (simp add: gateway_submit_def sbind_def)
  with s3 s2(3,4) show ?thesis by auto
qed

end

end
