(* ===== verification/Hyf_Runtime.thy ===== *)
theory Hyf_Runtime
  imports Hyf_Gateway
begin

text \<open>
  The gateway runtime of the crate \<open>hyf_gateway\<close>
  (\<open>src/crates/hyf_gateway/src/runtime.rs\<close>): the core driven over the loopback link.
  \<open>LoopbackDriver\<close> is the executor; it interprets \<open>link_executor\<close>, and the properties of
  the core become properties of the runtime.
\<close>

section \<open>The loopback driver as executor\<close>

fun map_loopback_error :: "loopback_error \<Rightarrow> gateway_error" where
  "map_loopback_error (LinkMismatch expected actual) = UnsupportedLink actual"
| "map_loopback_error error = GwLoopback error"

definition loopback_executor :: "loopback_driver executor" where
  "loopback_executor link_id bytes now_ms d =
     (case send_link_bytes link_id bytes now_ms d of (res, d') \<Rightarrow> (map_err map_loopback_error res, d'))"

definition loopback_out :: "link_id \<Rightarrow> loopback_driver \<Rightarrow> (timestamp_ms \<times> u8 list) list" where
  "loopback_out link_id d =
     (if link_id = LOOPBACK_LEFT_ID then in_flight (lp_right (ld_pair d))
      else if link_id = LOOPBACK_RIGHT_ID then in_flight (lp_left (ld_pair d))
      else [])"

lemma loopback_ids_differ [simp]: "LOOPBACK_LEFT_ID \<noteq> LOOPBACK_RIGHT_ID" "LOOPBACK_RIGHT_ID \<noteq> LOOPBACK_LEFT_ID"
  by (simp_all add: LOOPBACK_LEFT_ID_def LOOPBACK_RIGHT_ID_def)

interpretation loopback_exec: link_executor driver_inv Pair loopback_out loopback_executor
proof unfold_locales
  fix d d' :: loopback_driver and l bs t
  assume inv: "driver_inv d" and run: "loopback_executor l bs t d = (Ok (), d')"
  then show "driver_inv d' \<and> loopback_out l d' = loopback_out l d @ [(t, bs)] \<and>
      (\<forall>k. k \<noteq> l \<longrightarrow> loopback_out k d' = loopback_out k d)"
    by (auto simp: loopback_executor_def send_link_bytes_def loopback_out_def driver_inv_def
        dest: send_bytes_to_Ok split: prod.splits if_splits)
next
  fix d d' :: loopback_driver and l bs t err
  assume inv: "driver_inv d" and run: "loopback_executor l bs t d = (Err err, d')"
  from inv have q: "queue_inv (lp_left (ld_pair d))" "queue_inv (lp_right (ld_pair d))"
    by (simp_all add: driver_inv_def)
  have "d' = d"
    using run send_bytes_to_cases [OF q(2), of "lp_left (ld_pair d)" bs t]
      send_bytes_to_cases [OF q(1), of "lp_right (ld_pair d)" bs t]
    by (auto simp: loopback_executor_def send_link_bytes_def split: prod.splits if_splits)
  with inv show "driver_inv d' \<and> (\<forall>k. loopback_out k d' = loopback_out k d)" by simp
next
  fix d :: loopback_driver and l bs t
  assume inv: "driver_inv d"
  then have q: "queue_inv (lp_left (ld_pair d))" "queue_inv (lp_right (ld_pair d))"
    by (simp_all add: driver_inv_def)
  show "fst (loopback_executor l bs t d) \<noteq> Panic"
    using send_bytes_to_cases [OF q(2), of "lp_left (ld_pair d)" bs t]
      send_bytes_to_cases [OF q(1), of "lp_right (ld_pair d)" bs t]
    by (auto simp: loopback_executor_def send_link_bytes_def split: prod.splits if_splits)
qed

section \<open>The runtime\<close>

record gateway_runtime =
  grt_core :: gateway_core
  grt_loopback :: loopback_driver

text \<open>A call of the core with \<open>&mut self.loopback\<close> as its executor.\<close>

definition with_core :: "(loopback_driver, 'a) gw \<Rightarrow> (gateway_runtime, 'a, gateway_error) stm" where
  "with_core m r =
     (case m (grt_core r, grt_loopback r) of
        (res, (g, d)) \<Rightarrow> (res, r\<lparr>grt_core := g, grt_loopback := d\<rparr>))"

fun validate_supported_links :: "link_config option list \<Rightarrow> (unit, gateway_error) result" where
  "validate_supported_links [] = Ok ()"
| "validate_supported_links (None # links) = validate_supported_links links"
| "validate_supported_links (Some link # links) =
     (if lc_enabled link \<and> lc_link_id link \<noteq> LOOPBACK_LEFT_ID \<and> lc_link_id link \<noteq> LOOPBACK_RIGHT_ID
      then Err (UnsupportedLink (lc_link_id link))
      else validate_supported_links links)"

fun first_link_mtu :: "link_config option list \<Rightarrow> usize" where
  "first_link_mtu [] = LOOPBACK_MAX_FRAME_LEN"
| "first_link_mtu (None # links) = first_link_mtu links"
| "first_link_mtu (Some link # links) = (if lc_enabled link then lc_mtu link else first_link_mtu links)"

definition runtime_submit :: "hyf_envelope \<Rightarrow> (gateway_runtime, unit, gateway_error) stm" where
  "runtime_submit e = with_core (gateway_submit loopback_executor e)"

definition runtime_tick :: "timestamp_ms \<Rightarrow> (gateway_runtime, unit, gateway_error) stm" where
  "runtime_tick now = with_core (gateway_tick loopback_executor now)"

definition runtime_ingest :: "link_frame \<Rightarrow> (gateway_runtime, unit, gateway_error) stm" where
  "runtime_ingest frame = with_core (ingest_link_frame loopback_executor frame)"

definition runtime_set_link_up :: "link_id \<Rightarrow> bool \<Rightarrow> (gateway_runtime, unit, gateway_error) stm" where
  "runtime_set_link_up link_id up r =
     (case loopback_set_link_up link_id up (grt_loopback r) of
        (res, d) \<Rightarrow>
          sbind (slift (map_err map_loopback_error res)) (\<lambda>event.
            with_core (handle_link_event loopback_executor event)) (r\<lparr>grt_loopback := d\<rparr>))"

definition receive_loopback_frame ::
  "link_id \<Rightarrow> u8 list \<Rightarrow> gateway_runtime \<Rightarrow>
   (link_frame option, gateway_error) result \<times> u8 list \<times> gateway_runtime" where
  "receive_loopback_frame link_id output r =
     (case receive_link_frame link_id output (grt_loopback r) of
        (res, out, d) \<Rightarrow> (map_err map_loopback_error res, out, r\<lparr>grt_loopback := d\<rparr>))"

definition poll_loopback ::
  "link_id \<Rightarrow> u8 list \<Rightarrow> gateway_runtime \<Rightarrow> (bool, gateway_error) result \<times> u8 list \<times> gateway_runtime" where
  "poll_loopback link_id output r =
     (case receive_loopback_frame link_id output r of
        (Ok None, out, r') \<Rightarrow> (Ok False, out, r')
      | (Ok (Some frame), out, r') \<Rightarrow>
          (case runtime_ingest frame r' of
             (Ok _, r'') \<Rightarrow> (Ok True, out, r'')
           | (Err err, r'') \<Rightarrow> (Err err, out, r'')
           | (Panic, r'') \<Rightarrow> (Panic, out, r''))
      | (Err err, out, r') \<Rightarrow> (Err err, out, r')
      | (Panic, out, r') \<Rightarrow> (Panic, out, r'))"

definition runtime_loopback_queued_len :: "gateway_runtime \<Rightarrow> link_id \<Rightarrow> (usize, gateway_error) result" where
  "runtime_loopback_queued_len r link_id =
     map_err map_loopback_error (loopback_queued_len (grt_loopback r) link_id)"

fun activate_links :: "link_config option list \<Rightarrow> (gateway_runtime, unit, gateway_error) stm" where
  "activate_links [] r = (Ok (), r)"
| "activate_links (None # links) r = activate_links links r"
| "activate_links (Some link # links) r =
     (if lc_enabled link
      then sbind (runtime_set_link_up (lc_link_id link) True) (\<lambda>_. activate_links links) r
      else activate_links links r)"

definition activate_configured_links :: "(gateway_runtime, unit, gateway_error) stm" where
  "activate_configured_links r = activate_links (gc_links (gw_config (grt_core r))) r"

definition runtime_new ::
  "usize \<Rightarrow> usize \<Rightarrow> usize \<Rightarrow> usize \<Rightarrow> gateway_config \<Rightarrow> (gateway_runtime, gateway_error) result" where
  "runtime_new MAX_LINKS MAX_SEEN STORE_CAPACITY LOOPBACK_QUEUE config =
     rbind (validate_supported_links (gc_links config)) (\<lambda>_.
       let mtu = first_link_mtu (gc_links config) in
       rbind (gateway_core_new MAX_LINKS MAX_SEEN STORE_CAPACITY config) (\<lambda>core.
         let runtime = \<lparr>grt_core = core, grt_loopback = loopback_driver_new LOOPBACK_QUEUE LeftSide mtu\<rparr>
         in case activate_configured_links runtime of
              (Ok _, runtime') \<Rightarrow> Ok runtime'
            | (Err err, _) \<Rightarrow> Err err
            | (Panic, _) \<Rightarrow> Panic))"

section \<open>Invariant\<close>

definition runtime_inv :: "gateway_runtime \<Rightarrow> bool" where
  "runtime_inv r \<longleftrightarrow> gateway_inv (grt_core r) \<and> driver_inv (grt_loopback r)"

lemma with_core_preserves [judgements]:
  assumes "preserves loopback_exec.ok m"
  shows "preserves runtime_inv (with_core m)"
  unfolding preserves_def
proof (intro allI impI)
  fix r
  assume "runtime_inv r"
  then have "loopback_exec.ok (grt_core r, grt_loopback r)"
    by (simp add: runtime_inv_def loopback_exec.ok_def)
  from preserves_run [OF assms this] show "fst (with_core m r) \<noteq> Panic \<and> runtime_inv (snd (with_core m r))"
    by (auto simp: with_core_def runtime_inv_def loopback_exec.ok_def split: prod.splits)
qed

lemma queue_inv_up [simp]: "queue_inv (ep\<lparr>lep_up := up\<rparr>) = queue_inv ep"
  by (simp add: queue_inv_def)

lemma loopback_set_link_up_inv:
  assumes "driver_inv d" and "loopback_set_link_up link_id up d = (res, d')"
  shows "driver_inv d' \<and> res \<noteq> Panic \<and> (\<forall>ev. res = Ok ev \<longrightarrow> wf_event (LinkEvent ev))"
  using assms
  by (auto simp: loopback_set_link_up_def endpoint_for_link_mut_def driver_inv_def set_up_def
      split: if_splits)

lemma runtime_preserves:
  "wf_envelope e \<Longrightarrow> preserves runtime_inv (runtime_submit e)"
  "preserves runtime_inv (runtime_tick now)"
  "length (frame_bytes frame) \<le> usize_max \<Longrightarrow> preserves runtime_inv (runtime_ingest frame)"
  unfolding runtime_submit_def runtime_tick_def runtime_ingest_def
  by (simp_all add: with_core_preserves loopback_exec.preserves_operations)

lemma runtime_set_link_up_preserves: "preserves runtime_inv (runtime_set_link_up link_id up)"
  unfolding preserves_def
proof (intro allI impI)
  fix r
  assume inv: "runtime_inv r"
  obtain res d where run: "loopback_set_link_up link_id up (grt_loopback r) = (res, d)"
    by (cases "loopback_set_link_up link_id up (grt_loopback r)")
  have "driver_inv (grt_loopback r)" using inv by (simp add: runtime_inv_def)
  note set = loopback_set_link_up_inv [OF this run]
  let ?r = "r\<lparr>grt_loopback := d\<rparr>"
  have inv': "runtime_inv ?r" using inv set by (simp add: runtime_inv_def)
  show "fst (runtime_set_link_up link_id up r) \<noteq> Panic \<and> runtime_inv (snd (runtime_set_link_up link_id up r))"
  proof (cases res)
    case (Ok ev)
    with set have "preserves runtime_inv (with_core (handle_link_event loopback_executor ev))"
      by (intro judgements loopback_exec.preserves_operations) simp
    from preserves_run [OF this inv'] Ok run show ?thesis
      by (simp add: runtime_set_link_up_def sbind_slift)
  next
    case (Err err)
    with inv' run show ?thesis by (simp add: runtime_set_link_up_def sbind_slift)
  qed (use set in simp)
qed

lemma activate_links_preserves: "preserves runtime_inv (activate_links links)"
proof (induction links)
  case (Cons link links)
  have go: "preserves runtime_inv (sbind (runtime_set_link_up l True) (\<lambda>_. activate_links links))" for l
    by (intro judgements runtime_set_link_up_preserves Cons.IH)
  have "activate_links (link # links) = (case link of None \<Rightarrow> activate_links links
      | Some c \<Rightarrow> if lc_enabled c then sbind (runtime_set_link_up (lc_link_id c) True) (\<lambda>_. activate_links links)
          else activate_links links)"
    by (cases link) (auto simp: fun_eq_iff)
  with Cons.IH go show ?case by (auto split: option.splits)
qed (simp add: preserves_def)

lemma gateway_core_new_inv:
  assumes "gateway_core_new l n c config = Ok core"
  shows "gateway_inv core \<and> gw_config core = config"
  using assms
  by (auto simp: gateway_core_new_def gateway_inv_def router_new_inv store_new_inv)
     (simp_all add: router_new_def)

lemma runtime_new_inv:
  assumes "runtime_new l n c q config = Ok r" and "0 < q"
  shows "runtime_inv r"
proof -
  let ?start = "\<lambda>core. \<lparr>grt_core = core,
    grt_loopback = loopback_driver_new q LeftSide (first_link_mtu (gc_links config))\<rparr>"
  from assms(1) obtain core where core: "gateway_core_new l n c config = Ok core"
    and act: "(case activate_configured_links (?start core) of
        (Ok _, runtime') \<Rightarrow> Ok runtime' | (Err err, _) \<Rightarrow> Err err | (Panic, _) \<Rightarrow> Panic) = Ok r"
    by (auto simp: runtime_new_def Let_def)
  have "runtime_inv (?start core)"
    using gateway_core_new_inv [OF core] loopback_driver_new_inv [OF assms(2)] by (simp add: runtime_inv_def)
  from preserves_run [OF activate_links_preserves this, of "gc_links (gw_config core)"] act show ?thesis
    by (auto simp: activate_configured_links_def split: prod.splits result.splits)
qed

lemma receive_into_inv:
  assumes "queue_inv ep" and "receive_into out ep = (res, out', ep')"
  shows "queue_inv ep' \<and> lep_link_id ep' = lep_link_id ep \<and> res \<noteq> Panic \<and>
    (\<forall>f. res = Ok (Some f) \<longrightarrow> length (frame_bytes f) \<le> LOOPBACK_MAX_FRAME_LEN)"
proof (cases "in_flight ep")
  case Nil
  with receive_into_empty [OF assms(1), of out] assms show ?thesis by simp
next
  case (Cons w ws)
  obtain t bs where w: "w = (t, bs)" by (cases w)
  have "length bs \<le> LOOPBACK_MAX_FRAME_LEN"
    using assms(1) Cons w by (cases rule: queue_inv_cases [OF assms(1)]) (auto simp: wf_queued_def)
  with receive_into_first [OF assms(1), of t bs ws out] receive_into_short [OF assms(1), of t bs ws out]
    Cons w assms show ?thesis
    by (cases "length bs \<le> length out") auto
qed

lemma receive_link_frame_inv:
  assumes "driver_inv d" and "receive_link_frame link_id out d = (res, out', d')"
  shows "driver_inv d' \<and> res \<noteq> Panic \<and>
    (\<forall>f. res = Ok (Some f) \<longrightarrow> length (frame_bytes f) \<le> LOOPBACK_MAX_FRAME_LEN)"
proof -
  have q: "queue_inv (lp_left (ld_pair d))" "queue_inv (lp_right (ld_pair d))"
    using assms(1) by (simp_all add: driver_inv_def)
  obtain r1 o1 e1 where l: "receive_into out (lp_left (ld_pair d)) = (r1, o1, e1)" by (metis surj_pair)
  obtain r2 o2 e2 where r: "receive_into out (lp_right (ld_pair d)) = (r2, o2, e2)" by (metis surj_pair)
  show ?thesis
    using assms receive_into_inv [OF q(1) l] receive_into_inv [OF q(2) r] l r
    by (auto simp: receive_link_frame_def endpoint_for_link_mut_def driver_inv_def split: if_splits)
qed

lemma poll_loopback_preserves:
  assumes "runtime_inv r" and "poll_loopback link_id out r = (res, out', r')"
  shows "runtime_inv r' \<and> res \<noteq> Panic"
proof -
  obtain q o1 d where run: "receive_link_frame link_id out (grt_loopback r) = (q, o1, d)" by (metis surj_pair)
  have "driver_inv (grt_loopback r)" using assms(1) by (simp add: runtime_inv_def)
  note recv = receive_link_frame_inv [OF this run]
  let ?r = "r\<lparr>grt_loopback := d\<rparr>"
  have inv': "runtime_inv ?r" using assms(1) recv by (simp add: runtime_inv_def)
  show ?thesis
  proof (cases "\<exists>f. q = Ok (Some f)")
    case True
    then obtain f where f: "q = Ok (Some f)" by blast
    with recv have "length (frame_bytes f) \<le> usize_max"
      by (auto simp: LOOPBACK_MAX_FRAME_LEN_def usize_max_def)
    from preserves_run [OF runtime_preserves(3) [OF this] inv'] f run assms(2) show ?thesis
      by (auto simp: poll_loopback_def receive_loopback_frame_def split: prod.splits result.splits)
  next
    case False
    with run recv inv' assms(2) show ?thesis
      by (cases q) (auto simp: poll_loopback_def receive_loopback_frame_def split: option.splits)
  qed
qed

section \<open>Properties of the runtime\<close>

datatype runtime_op =
    OpSubmit hyf_envelope
  | OpTick timestamp_ms
  | OpIngest link_frame
  | OpReceive link_id "u8 list"
  | OpPoll link_id "u8 list"
  | OpSetLinkUp link_id bool

fun runtime_step :: "runtime_op \<Rightarrow> (gateway_runtime, unit, gateway_error) stm" where
  "runtime_step (OpSubmit e) r = runtime_submit e r"
| "runtime_step (OpTick now) r = runtime_tick now r"
| "runtime_step (OpIngest frame) r = runtime_ingest frame r"
| "runtime_step (OpReceive link_id out) r =
     (case receive_loopback_frame link_id out r of (res, _, r') \<Rightarrow> (rbind res (\<lambda>_. Ok ()), r'))"
| "runtime_step (OpPoll link_id out) r =
     (case poll_loopback link_id out r of (res, _, r') \<Rightarrow> (rbind res (\<lambda>_. Ok ()), r'))"
| "runtime_step (OpSetLinkUp link_id up) r = runtime_set_link_up link_id up r"

fun wf_runtime_op :: "runtime_op \<Rightarrow> bool" where
  "wf_runtime_op (OpSubmit e) = wf_envelope e"
| "wf_runtime_op (OpIngest frame) = (length (frame_bytes frame) \<le> usize_max)"
| "wf_runtime_op _ = True"

lemma receive_loopback_frame_preserves:
  assumes "runtime_inv r" and "receive_loopback_frame link_id out r = (res, out', r')"
  shows "runtime_inv r' \<and> res \<noteq> Panic"
proof -
  obtain q o1 d where run: "receive_link_frame link_id out (grt_loopback r) = (q, o1, d)" by (metis surj_pair)
  have "driver_inv (grt_loopback r)" using assms(1) by (simp add: runtime_inv_def)
  from receive_link_frame_inv [OF this run] assms run show ?thesis
    by (cases q) (auto simp: receive_loopback_frame_def runtime_inv_def)
qed

lemma runtime_step_preserves: "wf_runtime_op op \<Longrightarrow> preserves runtime_inv (runtime_step op)"
proof (cases op)
  case (OpReceive link_id out)
  have "runtime_inv r' \<and> rbind res (\<lambda>_. Ok ()) \<noteq> Panic"
    if "runtime_inv r" "receive_loopback_frame link_id out r = (res, o', r')" for r res o' r'
    using receive_loopback_frame_preserves [OF that] by (cases res) auto
  with OpReceive show ?thesis by (auto simp: preserves_def split: prod.splits)
next
  case (OpPoll link_id out)
  have "runtime_inv r' \<and> rbind res (\<lambda>_. Ok ()) \<noteq> Panic"
    if "runtime_inv r" "poll_loopback link_id out r = (res, o', r')" for r res o' r'
    using poll_loopback_preserves [OF that] by (cases res) auto
  with OpPoll show ?thesis by (auto simp: preserves_def split: prod.splits)
qed (use runtime_preserves [unfolded preserves_def] runtime_set_link_up_preserves [unfolded preserves_def]
  in \<open>auto simp: preserves_def\<close>)

lemma with_core_clock:
  assumes "\<And>s. time_le s (snd (m s))"
  shows "ms (gw_last_now_ms (grt_core r)) \<le> ms (gw_last_now_ms (grt_core (snd (with_core m r))))"
  using assms [of "(grt_core r, grt_loopback r)"]
  by (auto simp: with_core_def time_le_def split: prod.splits)

lemma runtime_step_clock:
  "ms (gw_last_now_ms (grt_core r)) \<le> ms (gw_last_now_ms (grt_core (snd (runtime_step op r))))"
proof (cases op)
  case (OpPoll link_id out)
  have "ms (gw_last_now_ms (grt_core r')) \<le> ms (gw_last_now_ms (grt_core (snd (runtime_ingest f r'))))" for f r'
    unfolding runtime_ingest_def by (intro with_core_clock operations_clock)
  from this [of "r\<lparr>grt_loopback := _\<rparr>"] OpPoll show ?thesis
    by (auto simp: poll_loopback_def receive_loopback_frame_def split: prod.splits result.splits option.splits)
       (metis gateway_runtime.select_convs(1) snd_conv gateway_runtime.update_convs(2) gateway_runtime.surjective)+
next
  case (OpSetLinkUp link_id up)
  have "ms (gw_last_now_ms (grt_core r')) \<le> ms (gw_last_now_ms (grt_core (snd (with_core (handle_link_event loopback_executor ev) r'))))"
    for ev r'
    by (intro with_core_clock operations_clock)
  from this [of "r\<lparr>grt_loopback := _\<rparr>"] OpSetLinkUp show ?thesis
    by (auto simp: runtime_set_link_up_def sbind_def slift_def split: prod.splits result.splits)
qed (auto simp: runtime_submit_def runtime_tick_def runtime_ingest_def receive_loopback_frame_def intro: with_core_clock operations_clock
  split: prod.splits)

lemma runtime_run_inv:
  "runtime_inv r \<Longrightarrow> \<forall>op \<in> set ops. wf_runtime_op op \<Longrightarrow>
   runtime_inv (fold (\<lambda>op r. snd (runtime_step op r)) ops r)"
proof (induction ops arbitrary: r)
  case (Cons op ops)
  from preserves_run [OF runtime_step_preserves Cons.prems(1), of op] Cons show ?case by simp
qed simp

text \<open>
  C3. A runtime that starts with at least one loopback slot keeps its invariant through every
  sequence of its public operations on typed arguments: the router's and the store's invariants
  hold, the router's clock is the core's, the loopback queues are compact. No operation panics,
  whatever the previous ones did, and time never runs backwards. (With no slot at all the runtime
  starts as well, and then receiving a frame panics.)
\<close>

theorem runtime_run_safe:
  assumes "runtime_new MAX_LINKS MAX_SEEN STORE_CAPACITY LOOPBACK_QUEUE config = Ok r0" and "0 < LOOPBACK_QUEUE"
    and "\<forall>op \<in> set ops. wf_runtime_op op" and "wf_runtime_op op"
    and "r = fold (\<lambda>op r. snd (runtime_step op r)) ops r0"
  shows "runtime_inv r \<and> fst (runtime_step op r) \<noteq> Panic \<and>
    ms (gw_last_now_ms (grt_core r)) \<le> ms (gw_last_now_ms (grt_core (snd (runtime_step op r))))"
  using runtime_run_inv [OF runtime_new_inv [OF assms(1,2)] assms(3)] assms(5)
    preserves_run [OF runtime_step_preserves [OF assms(4)], of r] runtime_step_clock [of r op]
  by simp

text \<open>
  C2. A flush loses nothing: a stored message that is no longer stored afterwards has expired, has
  no hop left, is addressed to this node, or its exact frame is on the outgoing queue of a link
  that is up (a community message: of every link that is up). Frames that stay are unchanged and
  none is invented, whether the flush succeeds or fails.
\<close>

theorem flush_loses_nothing:
  assumes "runtime_inv r" and "flush_store loopback_executor (grt_core r, grt_loopback r) = (res, (g, d))"
  shows "lookup (gw_store g) \<subseteq>\<^sub>m lookup (gw_store (grt_core r)) \<and>
    (\<forall>m f. lookup (gw_store (grt_core r)) m = Some f \<longrightarrow> lookup (gw_store g) m = None \<longrightarrow>
      (\<exists>e. frame_holds f e \<and> handed_over (gw_router g) (\<lambda>l. loopback_out l d) e))"
proof -
  have "loopback_exec.ok (grt_core r, grt_loopback r)"
    using assms(1) by (simp add: runtime_inv_def loopback_exec.ok_def)
  from loopback_exec.flush_store_flushed [OF this assms(2)] show ?thesis
    by (auto simp: loopback_exec.flushed_def map_le_def)
qed

text \<open>
  C13. Progress: on a runtime of the invariant, a tick that returns success while some link is up,
  and during which no link error is counted (by a counter that is not yet at its maximum), leaves
  the store empty.
\<close>

theorem tick_empties_store:
  assumes "runtime_inv r" and "runtime_tick now r = (Ok (), r')"
    and "link_up (gw_router (grt_core r))"
    and "link_errors (gw_metrics (grt_core r')) = link_errors (gw_metrics (grt_core r))"
    and "link_errors (gw_metrics (grt_core r)) \<noteq> - 1"
  shows "store_is_empty (gw_store (grt_core r'))"
proof -
  let ?s = "(grt_core r, grt_loopback r)"
  have ok: "loopback_exec.ok ?s" using assms(1) by (simp add: runtime_inv_def loopback_exec.ok_def)
  from loopback_exec.observe_time_runs [of now ?s] obtain s1 where
    s1: "observe_time loopback_executor now ?s = (Ok (), s1)" "loopback_exec.errs s1 = loopback_exec.errs ?s"
      "link_up (gw_router (fst s1))"
    using assms(3) by auto
  have ok1: "loopback_exec.ok s1" using preservesD [OF loopback_exec.preserves_observe_time ok s1(1)] by simp
  obtain q g d where fl: "flush_store loopback_executor s1 = (q, (g, d))" by (metis surj_pair)
  with assms(2) s1(1) have q: "q = Ok ()" "grt_core r' = g"
    by (auto simp: runtime_tick_def with_core_def gateway_tick_def sbind_def)
  have "unat (link_errors (gw_metrics (grt_core r))) < 2 ^ 64 - 1"
    using assms(5) by (rule u64_not_max)
  with loopback_exec.flush_store_flushed [OF ok1 fl] q s1 assms(4) show ?thesis
    by (simp add: loopback_exec.errs_def store_is_empty_def)
qed

text \<open>A frame that fits, sent on the left link right after it came up, is on the wire.\<close>

lemma left_up_sends:
  assumes "driver_inv d0" and "right = lp_right (ld_pair d0)" and "lep_up right" and "queued_len right < length (lep_queue right)"
    and "length bytes \<le> GATEWAY_FRAME_BUFFER_LEN" and "length bytes \<le> lep_mtu right" and "length bytes \<le> lep_mtu (lp_left (ld_pair d0))"
  obtains d d' where "loopback_set_link_up LOOPBACK_LEFT_ID True d0 = (Ok (Up LOOPBACK_LEFT_ID), d)" "driver_inv d"
    "loopback_executor LOOPBACK_LEFT_ID bytes t d = (Ok (), d')"
    "loopback_out LOOPBACK_LEFT_ID d' = loopback_out LOOPBACK_LEFT_ID d0 @ [(t, bytes)]"
proof -
  define d where "d = d0\<lparr>ld_pair := (ld_pair d0)\<lparr>lp_left := (lp_left (ld_pair d0))\<lparr>lep_up := True\<rparr>\<rparr>\<rparr>"
  have set_up: "loopback_set_link_up LOOPBACK_LEFT_ID True d0 = (Ok (Up LOOPBACK_LEFT_ID), d)"
    using assms(1) by (simp add: loopback_set_link_up_def endpoint_for_link_mut_def set_up_def d_def driver_inv_def)
  have inv': "driver_inv d" and q: "queue_inv right"
    using assms(1,2) by (simp_all add: driver_inv_def d_def)
  have "length (in_flight right) < length (lep_queue right)"
    using assms(4) by (simp add: queued_len_def in_flight_def length_flatten_filter del: not_None_eq)
  with send_bytes_to_cases [OF q, of "lp_left (ld_pair d)" bytes t] assms(3,6,7)
  have "fst (send_bytes_to (lp_left (ld_pair d)) bytes t right) = Ok ()"
    using assms(5) by (simp add: d_def LOOPBACK_MAX_FRAME_LEN_def GATEWAY_FRAME_BUFFER_LEN_def)
  then obtain d' where send: "loopback_executor LOOPBACK_LEFT_ID bytes t d = (Ok (), d')"
    using assms(2) by (auto simp: loopback_executor_def send_link_bytes_def d_def fst_eq_ex split: prod.splits)
  have "loopback_out LOOPBACK_LEFT_ID d' = loopback_out LOOPBACK_LEFT_ID d0 @ [(t, bytes)]"
    using loopback_exec.ex_Ok [OF inv' send] by (simp add: loopback_out_def d_def)
  with set_up inv' send show thesis by (rule that)
qed

text \<open>
  C1. Store and forward, end to end. An envelope is submitted while no link is up: it is valid and
  fits the gateway's buffer, addressed neither to a community nor to this node, not expired, with
  hops left, not seen before; the policy allows store and forward, and the store is empty and has
  room for one. Then it is accepted and stored, and nothing is sent. When the left loopback link
  then comes up (the router has an entry or a free slot for it, the right end is up with a free slot
  in its queue, and the frame fits both MTUs), the very frame that encodes the envelope is on the wire behind what was there before, and
  the store is empty again.
\<close>

theorem store_and_forward:
  assumes "runtime_inv r" and "wf_envelope e" and "validate_envelope e = Ok ()"
    and "length (envelope_bytes e) \<le> GATEWAY_FRAME_BUFFER_LEN"
    and "\<forall>c. env_destination e \<noteq> Community c"
    and "\<not> is_local_destination (gw_router (grt_core r)) (env_destination e)"
    and "ms (gw_last_now_ms (grt_core r)) < ms (env_expires_at_ms e)" and "env_hop_limit e \<noteq> 0"
    and "\<not> link_up (gw_router (grt_core r))" and "\<not> has_seen (gw_router (grt_core r)) (seen_key_for e)"
    and "allow_store_and_forward (gc_policy (gw_config (grt_core r)))"
    and "store_is_empty (gw_store (grt_core r))" and "0 < store_capacity (gw_store (grt_core r))"
    and "fst (set_link_state LOOPBACK_LEFT_ID True (gw_router (grt_core r))) = Ok ()"
    and "right = lp_right (ld_pair (grt_loopback r))" and "lep_up right" and "queued_len right < length (lep_queue right)"
    and "length (envelope_bytes e) \<le> lep_mtu right"
    and "length (envelope_bytes e) \<le> lep_mtu (lp_left (ld_pair (grt_loopback r)))"
  shows "\<exists>r1 r2. runtime_submit e r = (Ok (), r1) \<and>
    lookup (gw_store (grt_core r1)) = [env_message_id e \<mapsto> frame_for e] \<and> grt_loopback r1 = grt_loopback r \<and>
    runtime_set_link_up LOOPBACK_LEFT_ID True r1 = (Ok (), r2) \<and> store_is_empty (gw_store (grt_core r2)) \<and>
    loopback_out LOOPBACK_LEFT_ID (grt_loopback r2) =
      loopback_out LOOPBACK_LEFT_ID (grt_loopback r) @ [(env_created_at_ms e, envelope_bytes e)]"
proof -
  let ?s = "(grt_core r, grt_loopback r)" and ?d = "grt_loopback r"
  have ok: "loopback_exec.ok ?s" using assms(1) by (simp add: runtime_inv_def loopback_exec.ok_def)
  have e: "loopback_exec.sendable e" using assms(2-4) by (simp add: loopback_exec.sendable_def)
  from loopback_exec.submit_stores [OF ok e] assms(5-13) obtain s1 where
    s1: "gateway_submit loopback_executor e ?s = (Ok (), s1)" "loopback_exec.ok s1"
      "lookup (store_of s1) = [env_message_id e \<mapsto> frame_for e]" "snd s1 = ?d"
      "loopback_exec.view s1 = loopback_exec.view ?s"
    by (auto simp: store_is_empty_def)
  let ?g1 = "fst s1"
  have v: "rt_links (gw_router ?g1) = rt_links (gw_router (grt_core r))"
    "rt_policy (gw_router ?g1) = rt_policy (gw_router (grt_core r))"
    "rt_now_ms (gw_router ?g1) = rt_now_ms (gw_router (grt_core r))" "clock_of s1 = gw_last_now_ms (grt_core r)"
    using s1(5) by (simp_all add: loopback_exec.view_def Let_def)
  have now: "rt_now_ms (gw_router (grt_core r)) = gw_last_now_ms (grt_core r)"
    using assms(1) by (simp add: runtime_inv_def gateway_inv_def)
  obtain rt where rt: "set_link_state LOOPBACK_LEFT_ID True (gw_router ?g1) = (Ok (), rt)"
    using assms(14) set_link_state_links [OF v(1)] by (metis fst_eq_ex)
  have "\<not> link_up (gw_router ?g1)" using assms(9) v(1) by (simp add: link_up_def)
  note up = first_link_up [OF this rt]
  have inv: "driver_inv ?d" using assms(1) by (simp add: runtime_inv_def)
  obtain d d' where set_up: "loopback_set_link_up LOOPBACK_LEFT_ID True ?d = (Ok (Up LOOPBACK_LEFT_ID), d)" and inv': "driver_inv d"
    and send: "loopback_executor LOOPBACK_LEFT_ID (envelope_bytes e) (env_created_at_ms e) d = (Ok (), d')"
    and out: "loopback_out LOOPBACK_LEFT_ID d' = loopback_out LOOPBACK_LEFT_ID ?d @ [(env_created_at_ms e, envelope_bytes e)]"
    by (rule left_up_sends [OF inv assms(15-17,4,18,19)])
  let ?s2 = "(?g1\<lparr>gw_router := rt\<rparr>, d)"
  have ok2: "loopback_exec.ok ?s2"
    using s1(2) inv' set_link_state_inv [OF _ rt] by (simp add: loopback_exec.ok_def gateway_inv_def)
  have "ms (clock_of ?s2) < ms (env_expires_at_ms e)" using v(4) assms(7) by simp
  from loopback_exec.flush_store_live [OF ok2 _ this] s1(3) obtain s3 where
    s3: "flush_store loopback_executor ?s2 = flush_loop loopback_executor s3" "loopback_exec.ok s3"
      "lookup (store_of s3) = [env_message_id e \<mapsto> frame_for e]" "snd s3 = d" "gw_router (fst s3) = rt"
    by auto
  have "stored_commands rt e = Ok [SendTo LOOPBACK_LEFT_ID e]"
    using assms(3,5,6,7,8) up v now
    by (intro unicast_first_link) (auto simp: is_local_destination_def split: hyf_destination.splits)
  with loopback_exec.flush_single [OF s3(2,3) e] send s3(4,5) obtain s4 where
    s4: "flush_loop loopback_executor s3 = (Ok (), s4)" "snd s4 = d'" "store_len (store_of s4) = 0"
    by metis
  let ?r1 = "r\<lparr>grt_core := ?g1, grt_loopback := ?d\<rparr>" and ?r2 = "r\<lparr>grt_core := fst s4, grt_loopback := d'\<rparr>"
  have "runtime_submit e r = (Ok (), ?r1)"
    using s1(1,4) by (cases s1) (simp add: runtime_submit_def with_core_def)
  moreover have "runtime_set_link_up LOOPBACK_LEFT_ID True ?r1 = (Ok (), ?r2)"
    using set_up s3(1) s4 handle_link_up [OF rt, of loopback_executor d]
    by (cases s4) (simp add: runtime_set_link_up_def sbind_slift with_core_def)
  ultimately show ?thesis using s1(3) s4(3) out by (auto simp: store_is_empty_def)
qed

section \<open>A sample runtime\<close>

text \<open>
  Two link slots, one of them configured with the left loopback end; one message stored that is
  addressed elsewhere. The witnesses run on it.
\<close>

definition sample_config :: gateway_config where
  "sample_config = \<lparr>gc_node_id = NodeId (replicate 32 7), gc_router = \<lparr>max_links = 2, max_seen_messages = 4\<rparr>,
     gc_store = \<lparr>sc_capacity = 3, sc_policy = store_policy_new\<rparr>,
     gc_links = [Some (link_config_new LOOPBACK_LEFT_ID 256), None],
     gc_policy = gateway_policy_config_new\<rparr>"

definition sample_message :: hyf_envelope where
  "sample_message = sample_envelope (Node (NodeId (replicate 32 68))) 9"

definition sample_core :: gateway_core where
  "sample_core = \<lparr>gw_config = sample_config,
     gw_router = snd (set_link_state LOOPBACK_LEFT_ID True (router_new 2 4 (config_router_policy sample_config))),
     gw_store = snd (put_envelope GATEWAY_FRAME_BUFFER_LEN sample_message (store_new 3 store_policy_new)),
     gw_metrics = gateway_metrics_default, gw_last_now_ms = TimestampMs 0,
     gw_last_delivered_message_id = None, gw_last_delivered_payload_len = 0\<rparr>"

definition sample_runtime :: gateway_runtime where
  "sample_runtime = \<lparr>grt_core = sample_core, grt_loopback = loopback_driver_new 2 LeftSide 256\<rparr>"

lemma sample_message_sendable:
  "wf_envelope sample_message" "validate_envelope sample_message = Ok ()"
  "length (envelope_bytes sample_message) = 120" "loopback_exec.sendable sample_message"
proof -
  show wf: "wf_envelope sample_message" and v: "validate_envelope sample_message = Ok ()"
    by (simp_all add: sample_message_def sample_envelope_wf sample_envelope_valid wf_defs)
  from wf show len: "length (envelope_bytes sample_message) = 120"
    by (simp add: length_envelope_bytes sample_message_def)
       (simp add: destination_encoded_len_def sample_envelope_def)
  from wf v len show "loopback_exec.sendable sample_message"
    by (simp add: loopback_exec.sendable_def GATEWAY_FRAME_BUFFER_LEN_def)
qed

lemma sample_store_put:
  "put_envelope GATEWAY_FRAME_BUFFER_LEN sample_message (store_new 3 store_policy_new) = (Ok (), gw_store sample_core)"
proof -
  have "fst (put_envelope GATEWAY_FRAME_BUFFER_LEN sample_message (store_new 3 store_policy_new)) = Ok ()"
    using sample_message_sendable
    by (simp add: put_envelope_valid put_valid_frame_cases GATEWAY_FRAME_BUFFER_LEN_def lookup_def
        stored_frames_def store_new_def position_replicate_None)
  then show ?thesis by (simp add: sample_core_def prod_eq_iff)
qed

lemma sample_store_facts:
  "store_inv GATEWAY_FRAME_BUFFER_LEN (gw_store sample_core)"
  "lookup (gw_store sample_core) = [env_message_id sample_message \<mapsto> frame_for sample_message]"
  "store_len (gw_store sample_core) = 1"
  using put_envelope_Ok [OF store_new_inv sample_message_sendable(1) sample_store_put]
  by (simp_all add: lookup_def store_len_frames)

lemma sample_links:
  "gw_router sample_core = (router_new 2 4 (config_router_policy sample_config))
     \<lparr>rt_links := [Some \<lparr>ls_link_id = LOOPBACK_LEFT_ID, ls_up = True\<rparr>, None]\<rparr>"
  by (simp add: sample_core_def set_link_state_def find_link_index_def router_new_def numeral_eq_Suc)

lemma sample_runtime_inv: "runtime_inv sample_runtime"
proof -
  let ?r = "router_new 2 4 (config_router_policy sample_config)"
  have "set_link_state LOOPBACK_LEFT_ID True ?r = (fst (set_link_state LOOPBACK_LEFT_ID True ?r), gw_router sample_core)"
    by (simp add: sample_core_def)
  from set_link_state_inv [OF router_new_inv this] have "gateway_inv sample_core"
    using sample_store_facts(1) by (simp add: gateway_inv_def) (simp add: sample_core_def router_new_def)
  then show ?thesis
    using loopback_driver_new_inv [of 2 LeftSide 256] by (simp add: runtime_inv_def sample_runtime_def)
qed

lemma sample_send:
  "\<exists>d. loopback_executor LOOPBACK_LEFT_ID (envelope_bytes sample_message) t (loopback_driver_new 2 LeftSide 256) =
     (Ok (), d)"
proof -
  let ?p = "loopback_pair_new 2 256"
  have inv: "queue_inv (lp_right ?p)"
    using loopback_driver_new_inv [of 2 LeftSide 256] by (simp add: driver_inv_def loopback_driver_new_def)
  have "fst (send_bytes_to (lp_left ?p) (envelope_bytes sample_message) t (lp_right ?p)) = Ok ()"
    using send_bytes_to_cases [OF inv, of "lp_left ?p" "envelope_bytes sample_message" t] sample_message_sendable(3)
    by (simp add: loopback_pair_new_def loopback_endpoint_new_def in_flight_def LOOPBACK_MAX_FRAME_LEN_def)
  then show ?thesis
    by (auto simp: loopback_executor_def send_link_bytes_def loopback_driver_new_def fst_eq_ex split: prod.splits)
qed

lemma sample_stored_commands:
  "stored_commands (gw_router sample_core) sample_message = Ok [SendTo LOOPBACK_LEFT_ID sample_message]"
proof -
  have "first_up_link_except (gw_router sample_core) None = Some LOOPBACK_LEFT_ID"
    by (simp add: first_up_link_except_def sample_links usable_def)
  moreover have "\<not> is_local_destination (gw_router sample_core) (Node (NodeId (replicate 32 68)))"
    by (simp add: is_local_destination_def sample_links router_new_def config_router_policy_def sample_config_def)
  moreover have "rt_now_ms (gw_router sample_core) = TimestampMs 0" by (simp add: sample_links router_new_def)
  ultimately show ?thesis
    using sample_message_sendable(2)
    by (simp add: stored_commands_def admit_def) (simp add: sample_message_def)
qed

lemma sample_flush:
  "\<exists>s'. flush_store loopback_executor (sample_core, loopback_driver_new 2 LeftSide 256) = (Ok (), s') \<and>
     loopback_exec.errs s' = 0"
proof -
  let ?s0 = "(sample_core, loopback_driver_new 2 LeftSide 256)"
  have ok0: "loopback_exec.ok ?s0"
    using sample_runtime_inv by (simp add: runtime_inv_def sample_runtime_def loopback_exec.ok_def)
  have "ms (clock_of ?s0) < ms (env_expires_at_ms sample_message)"
    by (simp add: sample_core_def sample_message_def)
  from loopback_exec.flush_store_live [OF ok0 _ this] sample_store_facts(2) obtain s1 where
    s1: "flush_store loopback_executor ?s0 = flush_loop loopback_executor s1" "loopback_exec.ok s1"
      "lookup (store_of s1) = [env_message_id sample_message \<mapsto> frame_for sample_message]"
      "snd s1 = loopback_driver_new 2 LeftSide 256" "gw_router (fst s1) = gw_router sample_core"
      "loopback_exec.errs s1 = loopback_exec.errs ?s0"
    by auto
  obtain d where "loopback_executor LOOPBACK_LEFT_ID (envelope_bytes sample_message)
      (env_created_at_ms sample_message) (snd s1) = (Ok (), d)"
    unfolding s1(4) using sample_send by blast
  from loopback_exec.flush_single [OF s1(2,3) sample_message_sendable(4) _ this] sample_stored_commands s1(1,5,6)
  show ?thesis by (auto simp: loopback_exec.errs_def sample_core_def gateway_metrics_default_def)
qed

theorem flush_loses_nothing_witness:
  "\<exists>g d. flush_store loopback_executor (grt_core sample_runtime, grt_loopback sample_runtime) = (Ok (), (g, d)) \<and>
     lookup (gw_store (grt_core sample_runtime)) (env_message_id sample_message) = Some (frame_for sample_message) \<and>
     (lookup (gw_store g) (env_message_id sample_message) = None \<longrightarrow>
       (\<exists>e. frame_holds (frame_for sample_message) e \<and> handed_over (gw_router g) (\<lambda>l. loopback_out l d) e))"
proof -
  obtain g d where run: "flush_store loopback_executor (grt_core sample_runtime, grt_loopback sample_runtime) = (Ok (), (g, d))"
    using sample_flush by (auto simp: sample_runtime_def)
  from flush_loses_nothing [OF sample_runtime_inv run] run sample_store_facts(2) show ?thesis
    by (auto simp: sample_runtime_def)
qed

theorem tick_empties_store_witness:
  "\<exists>r'. runtime_tick (TimestampMs 0) sample_runtime = (Ok (), r') \<and>
     store_len (gw_store (grt_core sample_runtime)) = 1 \<and> store_is_empty (gw_store (grt_core r'))"
proof -
  obtain g d where fl: "flush_store loopback_executor (sample_core, loopback_driver_new 2 LeftSide 256) = (Ok (), (g, d))"
    and errs: "link_errors (gw_metrics g) = 0"
    using sample_flush by (auto simp: loopback_exec.errs_def unsigned_eq_0_iff)
  let ?r = "sample_runtime\<lparr>grt_core := g, grt_loopback := d\<rparr>"
  have "runtime_tick (TimestampMs 0) sample_runtime = (Ok (), ?r)"
    using fl by (simp add: runtime_tick_def with_core_def gateway_tick_def observe_time_def sbind_def sample_runtime_def
        sample_core_def)
  moreover have "link_up (gw_router (grt_core sample_runtime))"
    by (simp add: link_up_def sample_runtime_def sample_links)
  moreover have "link_errors (gw_metrics (grt_core sample_runtime)) = 0"
    by (simp add: sample_runtime_def sample_core_def gateway_metrics_default_def)
  ultimately show ?thesis
    using tick_empties_store [OF sample_runtime_inv, of "TimestampMs 0" ?r] errs sample_store_facts(3)
    by (simp add: sample_runtime_def)
qed


lemma sample_config_valid: "gateway_config_validate sample_config = Ok ()"
  by (simp add: gateway_config_validate_Ok config_ok_def enabled_links_def sample_config_def link_config_new_def
      gateway_policy_config_new_def)

lemma sample_runtime_starts: "\<exists>r0. runtime_new 2 4 3 2 sample_config = Ok r0"
proof -
  obtain core where core: "gateway_core_new 2 4 3 sample_config = Ok core"
    and g: "gw_config core = sample_config" "store_len (gw_store core) = 0"
      "gw_router core = router_new 2 4 (config_router_policy sample_config)"
    using sample_config_valid
    by (auto simp: gateway_core_new_def validate_runtime_capacity_def) (simp_all add: sample_config_def store_len_frames)
  obtain d where up: "loopback_set_link_up LOOPBACK_LEFT_ID True (loopback_driver_new 2 LeftSide 256) =
      (Ok (Up LOOPBACK_LEFT_ID), d)"
    by (simp add: loopback_set_link_up_def endpoint_for_link_mut_def set_up_def loopback_driver_new_def
        loopback_pair_new_def loopback_endpoint_new_def)
  have inv: "driver_inv d"
    using loopback_set_link_up_inv [OF _ up] loopback_driver_new_inv [of 2 LeftSide 256] by simp
  obtain r where r: "set_link_state LOOPBACK_LEFT_ID True (gw_router core) = (Ok (), r)"
    by (simp add: g(3) set_link_state_def find_link_index_def router_new_def numeral_eq_Suc)
  have "gateway_inv core" using gateway_core_new_inv [OF core] by simp
  then have "loopback_exec.ok (core\<lparr>gw_router := r\<rparr>, d)"
    using set_link_state_inv [OF _ r] inv by (simp add: loopback_exec.ok_def gateway_inv_def)
  from loopback_exec.flush_store_empty [OF this] g(2) obtain s' where
    "flush_store loopback_executor (core\<lparr>gw_router := r\<rparr>, d) = (Ok (), s')"
    by auto
  then have "fst (runtime_set_link_up LOOPBACK_LEFT_ID True
      \<lparr>grt_core = core, grt_loopback = loopback_driver_new 2 LeftSide 256\<rparr>) = Ok ()"
    using up by (simp add: runtime_set_link_up_def sbind_slift with_core_def handle_link_up [OF r] split: prod.splits)
  then obtain r1 where act: "activate_configured_links \<lparr>grt_core = core, grt_loopback = loopback_driver_new 2 LeftSide 256\<rparr> = (Ok (), r1)"
    by (auto simp: activate_configured_links_def g(1) sample_config_def link_config_new_def sbind_def fst_eq_ex)
  have links: "gc_links sample_config = [Some (link_config_new LOOPBACK_LEFT_ID 256), None]"
    by (simp add: sample_config_def)
  show ?thesis
    using core act by (simp add: runtime_new_def links link_config_new_def)
qed

theorem runtime_run_safe_witness:
  "\<exists>r0. runtime_new 2 4 3 2 sample_config = Ok r0 \<and>
     runtime_inv (fold (\<lambda>op r. snd (runtime_step op r)) [OpSubmit sample_message, OpReceive LOOPBACK_RIGHT_ID [0], OpPoll LOOPBACK_RIGHT_ID [0]] r0) \<and>
     fst (runtime_step (OpTick (TimestampMs 7))
       (fold (\<lambda>op r. snd (runtime_step op r)) [OpSubmit sample_message, OpReceive LOOPBACK_RIGHT_ID [0], OpPoll LOOPBACK_RIGHT_ID [0]] r0)) \<noteq> Panic"
proof -
  obtain r0 where r0: "runtime_new 2 4 3 2 sample_config = Ok r0" using sample_runtime_starts by blast
  show ?thesis
    using runtime_run_safe [OF r0, of "[OpSubmit sample_message, OpReceive LOOPBACK_RIGHT_ID [0], OpPoll LOOPBACK_RIGHT_ID [0]]" "OpTick (TimestampMs 7)"]
      sample_message_sendable(1) r0
    by (simp del: fold_simps runtime_step.simps)
qed

text \<open>The same runtime before any link is up and before anything is stored.\<close>

definition idle_runtime :: gateway_runtime where
  "idle_runtime = \<lparr>grt_core = \<lparr>gw_config = sample_config,
       gw_router = router_new 2 4 (config_router_policy sample_config),
       gw_store = store_new 3 store_policy_new,
       gw_metrics = gateway_metrics_default, gw_last_now_ms = TimestampMs 0,
       gw_last_delivered_message_id = None, gw_last_delivered_payload_len = 0\<rparr>,
     grt_loopback = loopback_driver_new 2 LeftSide 256\<rparr>"

lemma idle_runtime_inv: "runtime_inv idle_runtime"
  using loopback_driver_new_inv [of 2 LeftSide 256]
  by (simp add: runtime_inv_def idle_runtime_def gateway_inv_def router_new_inv store_new_inv)
     (simp add: router_new_def)

theorem store_and_forward_witness:
  "\<exists>r1 r2. runtime_submit sample_message idle_runtime = (Ok (), r1) \<and>
     lookup (gw_store (grt_core r1)) = [env_message_id sample_message \<mapsto> frame_for sample_message] \<and>
     runtime_set_link_up LOOPBACK_LEFT_ID True r1 = (Ok (), r2) \<and>
     loopback_out LOOPBACK_LEFT_ID (grt_loopback r2) = [(TimestampMs 100, envelope_bytes sample_message)]"
proof -
  let ?g = "grt_core idle_runtime" and ?d = "grt_loopback idle_runtime"
  have msg: "env_destination sample_message = Node (NodeId (replicate 32 68))" "env_hop_limit sample_message = 9"
    "env_expires_at_ms sample_message = TimestampMs 200" "env_created_at_ms sample_message = TimestampMs 100"
    by (simp_all add: sample_message_def) (simp add: sample_envelope_def)
  have router: "\<not> is_local_destination (gw_router ?g) (Node (NodeId (replicate 32 68)))"
    "\<not> link_up (gw_router ?g)" "\<not> has_seen (gw_router ?g) (seen_key_for sample_message)"
    by (simp_all add: idle_runtime_def router_new_def is_local_destination_def config_router_policy_def
        sample_config_def link_up_def has_seen_def)
  have free: "fst (set_link_state LOOPBACK_LEFT_ID True (gw_router ?g)) = Ok ()"
    by (simp add: idle_runtime_def router_new_def set_link_state_def find_link_index_def numeral_2_eq_2)
  have core: "gw_last_now_ms ?g = TimestampMs 0" "allow_store_and_forward (gc_policy (gw_config ?g))"
    "store_is_empty (gw_store ?g)" "0 < store_capacity (gw_store ?g)"
    by (simp_all add: idle_runtime_def sample_config_def gateway_policy_config_new_def store_is_empty_def
        store_len_frames store_new_def store_capacity_def stored_frames_def)
  have loop: "lep_up (lp_right (ld_pair ?d))" "queued_len (lp_right (ld_pair ?d)) < length (lep_queue (lp_right (ld_pair ?d)))"
    "lep_mtu (lp_right (ld_pair ?d)) = 256" "lep_mtu (lp_left (ld_pair ?d)) = 256"
    "loopback_out LOOPBACK_LEFT_ID ?d = []"
    by (simp_all add: idle_runtime_def loopback_driver_new_def loopback_pair_new_def loopback_endpoint_new_def
        queued_len_def loopback_out_def in_flight_def)
  show ?thesis
    using store_and_forward [OF idle_runtime_inv sample_message_sendable(1,2)] sample_message_sendable(3) msg router free core loop
    by (simp add: GATEWAY_FRAME_BUFFER_LEN_def) blast
qed

end
