(* ===== verification/Hyf_Kiss.thy ===== *)
theory Hyf_Kiss
  imports Hyf_Prelude
begin

text \<open>
  The crate \<open>hyf_link_kiss\<close>: KISS framing of byte payloads
  (\<open>src/crates/hyf_link_kiss/src/{constants,error,encode,decode}.rs\<close>). The encoder writes a
  frame with its delimiters and escapes into the caller's buffer; the decoder is a state machine
  fed byte by byte that hands complete frames to a callback. The callback \<open>on_frame\<close> is a
  parameter with its own state \<open>'c\<close>. The lemmas show that the encoder writes exactly the
  specified bytes and that the decoder recovers frames from any state of its invariant.
\<close>

section \<open>Constants and errors\<close>

definition KISS_FEND :: u8 where "KISS_FEND = 0xC0"
definition KISS_FESC :: u8 where "KISS_FESC = 0xDB"
definition KISS_TFEND :: u8 where "KISS_TFEND = 0xDC"
definition KISS_TFESC :: u8 where "KISS_TFESC = 0xDD"
definition KISS_CMD_DATA :: u8 where "KISS_CMD_DATA = 0x00"
definition KISS_CMD_READY :: u8 where "KISS_CMD_READY = 0x0F"

lemmas kiss_constants = KISS_FEND_def KISS_FESC_def KISS_TFEND_def KISS_TFESC_def

datatype kiss_error =
    EncodedLengthOverflow
  | KissOutputBufferTooShort usize usize
  | KissFrameTooLarge usize usize
  | MalformedEscape u8

section \<open>Encoder\<close>

definition max_encoded_command_len :: "usize \<Rightarrow> (usize, kiss_error) result" where
  "max_encoded_command_len payload_len =
     ok_or EncodedLengthOverflow
       (Option.bind (checked_mul payload_len 2) (\<lambda>len. checked_add len 3))"

definition max_encoded_data_len :: "usize \<Rightarrow> (usize, kiss_error) result" where
  "max_encoded_data_len payload_len = max_encoded_command_len payload_len"

text \<open>The loop of \<open>encoded_len\<close>, with the running length as an argument.\<close>

fun encoded_len_from :: "usize \<Rightarrow> u8 list \<Rightarrow> (usize, kiss_error) result" where
  "encoded_len_from len [] = Ok len"
| "encoded_len_from len (byte # payload) =
     (let increment = (if byte = KISS_FEND \<or> byte = KISS_FESC then 2 else 1) in
      case checked_add len increment of
        None \<Rightarrow> Err EncodedLengthOverflow
      | Some len' \<Rightarrow> encoded_len_from len' payload)"

definition encoded_len :: "u8 list \<Rightarrow> (usize, kiss_error) result" where
  "encoded_len payload = encoded_len_from 3 payload"

text \<open>The loop of \<open>encode_command_frame\<close>; a store outside the buffer is a panic.\<close>

fun encode_payload :: "u8 list \<Rightarrow> usize \<Rightarrow> u8 list \<Rightarrow> (usize \<times> u8 list, kiss_error) result" where
  "encode_payload [] offset out = Ok (offset, out)"
| "encode_payload (byte # payload) offset out =
     (if byte = KISS_FEND then
        rbind (set_at out offset KISS_FESC) (\<lambda>out.
        rbind (set_at out (offset + 1) KISS_TFEND) (\<lambda>out. encode_payload payload (offset + 2) out))
      else if byte = KISS_FESC then
        rbind (set_at out offset KISS_FESC) (\<lambda>out.
        rbind (set_at out (offset + 1) KISS_TFESC) (\<lambda>out. encode_payload payload (offset + 2) out))
      else
        rbind (set_at out offset byte) (\<lambda>out. encode_payload payload (offset + 1) out))"

definition encode_command_frame :: "u8 \<Rightarrow> u8 list \<Rightarrow> u8 list \<Rightarrow> (usize, kiss_error) result \<times> u8 list" where
  "encode_command_frame command payload out =
     (case encoded_len payload of
        Err err \<Rightarrow> (Err err, out)
      | Panic \<Rightarrow> (Panic, out)
      | Ok required \<Rightarrow>
          if length out < required then (Err (KissOutputBufferTooShort (length out) required), out)
          else case
            rbind (set_at out 0 KISS_FEND) (\<lambda>out1.
            rbind (set_at out1 1 command) (\<lambda>out2.
            rbind (encode_payload payload 2 out2) (\<lambda>(offset, out3).
            rbind (set_at out3 offset KISS_FEND) (\<lambda>out4. Ok (offset + 1, out4)))))
          of
            Ok (n, out') \<Rightarrow> (Ok n, out')
          | Err err \<Rightarrow> (Err err, out)
          | Panic \<Rightarrow> (Panic, out))"

definition encode_data_frame :: "u8 list \<Rightarrow> u8 list \<Rightarrow> (usize, kiss_error) result \<times> u8 list" where
  "encode_data_frame payload out = encode_command_frame KISS_CMD_DATA payload out"

section \<open>Decoder\<close>

record kiss_frame =
  kf_command :: u8
  kf_payload :: "u8 list"

record kiss_decoder =
  kd_buffer :: "u8 list"
  kd_len :: usize
  kd_in_frame :: bool
  kd_escape_pending :: bool

definition kiss_decoder_new :: "usize \<Rightarrow> kiss_decoder" where
  "kiss_decoder_new n =
     \<lparr>kd_buffer = replicate n 0, kd_len = 0, kd_in_frame = False, kd_escape_pending = False\<rparr>"

definition kiss_reset :: "kiss_decoder \<Rightarrow> kiss_decoder" where
  "kiss_reset d = d\<lparr>kd_len := 0, kd_in_frame := False, kd_escape_pending := False\<rparr>"

definition push_decoded_byte :: "u8 \<Rightarrow> (kiss_decoder, unit, kiss_error) stm" where
  "push_decoded_byte byte d =
     (let n = length (kd_buffer d) in
      if kd_len d = n then (Err (KissFrameTooLarge (kd_len d + 1) n), kiss_reset d)
      else case set_at (kd_buffer d) (kd_len d) byte of
        Ok buffer \<Rightarrow> (Ok (), d\<lparr>kd_buffer := buffer, kd_len := kd_len d + 1\<rparr>)
      | Err err \<Rightarrow> (Err err, d)
      | Panic \<Rightarrow> (Panic, d))"

type_synonym 'c on_frame = "kiss_frame \<Rightarrow> ('c, unit, kiss_error) stm"

definition finish_frame :: "'c on_frame \<Rightarrow> (kiss_decoder \<times> 'c, unit, kiss_error) stm" where
  "finish_frame on_frame = (\<lambda>(d, c).
     if kd_len d = 0 then (Ok (), (d, c))
     else case rbind (get_at (kd_buffer d) 0) (\<lambda>command.
            rbind (slice (kd_buffer d) 1 (kd_len d)) (\<lambda>payload.
              Ok \<lparr>kf_command = command, kf_payload = payload\<rparr>)) of
       Ok frame \<Rightarrow>
         (case on_frame frame c of
            (result, c') \<Rightarrow> (result, (d\<lparr>kd_len := 0, kd_escape_pending := False\<rparr>, c')))
     | Err err \<Rightarrow> (Err err, (d, c))
     | Panic \<Rightarrow> (Panic, (d, c)))"

definition on_decoder :: "(kiss_decoder, unit, kiss_error) stm \<Rightarrow> (kiss_decoder \<times> 'c, unit, kiss_error) stm" where
  "on_decoder m = (\<lambda>(d, c). case m d of (res, d') \<Rightarrow> (res, (d', c)))"

definition push_byte :: "'c on_frame \<Rightarrow> u8 \<Rightarrow> (kiss_decoder \<times> 'c, unit, kiss_error) stm" where
  "push_byte on_frame byte = (\<lambda>(d, c).
     if byte = KISS_FEND then
       sbind (if kd_in_frame d then finish_frame on_frame else sret ()) (\<lambda>_ (d, c).
         (Ok (), (d\<lparr>kd_in_frame := True, kd_escape_pending := False\<rparr>, c))) (d, c)
     else if \<not> kd_in_frame d then (Ok (), (d, c))
     else if kd_escape_pending d then
       (let d' = d\<lparr>kd_escape_pending := False\<rparr> in
        if byte = KISS_TFEND then on_decoder (push_decoded_byte KISS_FEND) (d', c)
        else if byte = KISS_TFESC then on_decoder (push_decoded_byte KISS_FESC) (d', c)
        else (Err (MalformedEscape byte), (kiss_reset d', c)))
     else if byte = KISS_FESC then (Ok (), (d\<lparr>kd_escape_pending := True\<rparr>, c))
     else on_decoder (push_decoded_byte byte) (d, c))"

fun push_bytes :: "'c on_frame \<Rightarrow> u8 list \<Rightarrow> (kiss_decoder \<times> 'c, unit, kiss_error) stm" where
  "push_bytes on_frame [] s = (Ok (), s)"
| "push_bytes on_frame (byte # input) s =
     sbind (push_byte on_frame byte) (\<lambda>_. push_bytes on_frame input) s"

section \<open>What the encoder writes\<close>

definition kiss_escape :: "u8 \<Rightarrow> u8 list" where
  "kiss_escape byte =
     (if byte = KISS_FEND then [KISS_FESC, KISS_TFEND]
      else if byte = KISS_FESC then [KISS_FESC, KISS_TFESC]
      else [byte])"

definition kiss_escaped :: "u8 list \<Rightarrow> u8 list" where
  "kiss_escaped payload = concat (map kiss_escape payload)"

definition kiss_bytes :: "u8 \<Rightarrow> u8 list \<Rightarrow> u8 list" where
  "kiss_bytes command payload = KISS_FEND # command # kiss_escaped payload @ [KISS_FEND]"

lemma kiss_escaped_simps [simp]:
  "kiss_escaped [] = []" "kiss_escaped (b # bs) = kiss_escape b @ kiss_escaped bs"
  by (simp_all add: kiss_escaped_def)

lemma length_kiss_bytes [simp]: "length (kiss_bytes command payload) = 3 + length (kiss_escaped payload)"
  by (simp add: kiss_bytes_def)

lemma length_kiss_escaped: "length payload \<le> length (kiss_escaped payload)"
  "length (kiss_escaped payload) \<le> 2 * length payload"
  by (induction payload) (auto simp: kiss_escape_def)

lemma encoded_len_from_eq:
  "len \<le> usize_max \<Longrightarrow> encoded_len_from len payload =
     (if len + length (kiss_escaped payload) \<le> usize_max then Ok (len + length (kiss_escaped payload))
      else Err EncodedLengthOverflow)"
proof (induction payload arbitrary: len)
  case (Cons b payload)
  then show ?case
    by (cases "b = KISS_FEND \<or> b = KISS_FESC")
       (auto simp: checked_add_def kiss_escape_def Let_def)
qed simp

lemma encoded_len_eq:
  "encoded_len payload =
     (if 3 + length (kiss_escaped payload) \<le> usize_max then Ok (3 + length (kiss_escaped payload))
      else Err EncodedLengthOverflow)"
  unfolding encoded_len_def by (rule encoded_len_from_eq) (simp add: usize_max_def)

lemma list_update_at: "length as = i \<Longrightarrow> i < length xs \<Longrightarrow> take i xs = as \<Longrightarrow>
  xs[i := x] = as @ x # drop (Suc i) xs"
  by (simp add: upd_conv_take_nth_drop)

lemma encode_payload_eq:
  "offset + length (kiss_escaped payload) \<le> length out \<Longrightarrow>
   encode_payload payload offset out =
     Ok (offset + length (kiss_escaped payload),
         take offset out @ kiss_escaped payload @ drop (offset + length (kiss_escaped payload)) out)"
proof (induction payload arbitrary: offset out)
  case (Cons b payload)
  define ys where "ys = kiss_escape b"
  have ys: "length ys = 1 \<or> length ys = 2" by (simp add: ys_def kiss_escape_def)
  let ?out = "take offset out @ ys @ drop (offset + length ys) out"
  have len: "offset + length ys \<le> length out" using Cons.prems by (simp add: ys_def)
  have step: "encode_payload (b # payload) offset out = encode_payload payload (offset + length ys) ?out"
  proof (cases "b = KISS_FEND \<or> b = KISS_FESC")
    case True
    then have two: "length ys = 2" by (auto simp: ys_def kiss_escape_def)
    have "out[offset := x, offset + 1 := y] = take offset out @ [x, y] @ drop (offset + 2) out"
      if "offset + 2 \<le> length out" for x y
    proof -
      have "out[offset := x] = take offset out @ x # drop (Suc offset) out"
        using that by (simp add: upd_conv_take_nth_drop)
      then show ?thesis using that
        by (simp add: list_update_append Cons_nth_drop_Suc [symmetric] drop_Suc_Cons)
    qed
    with True len two show ?thesis
      by (auto simp: set_at_def ys_def kiss_escape_def)
  next
    case False
    then have "ys = [b]" by (simp add: ys_def kiss_escape_def)
    with False len show ?thesis by (simp add: set_at_def upd_conv_take_nth_drop)
  qed
  have "(offset + length ys) + length (kiss_escaped payload) \<le> length ?out"
    using Cons.prems by (simp add: ys_def)
  from Cons.IH [OF this] show ?case
    unfolding step using len by (simp add: ys_def [symmetric] ac_simps)
qed simp

lemma encode_command_frame_cases:
  "encode_command_frame command payload out =
     (if usize_max < length (kiss_bytes command payload) then (Err EncodedLengthOverflow, out)
      else if length out < length (kiss_bytes command payload)
      then (Err (KissOutputBufferTooShort (length out) (length (kiss_bytes command payload))), out)
      else (Ok (length (kiss_bytes command payload)),
            kiss_bytes command payload @ drop (length (kiss_bytes command payload)) out))"
proof (cases "length (kiss_bytes command payload) \<le> usize_max \<and> length (kiss_bytes command payload) \<le> length out")
  case True
  let ?k = "length (kiss_escaped payload)"
  obtain a b rest where out: "out = a # b # rest" using True by (cases out; cases "tl out") auto
  have "2 + ?k \<le> length (KISS_FEND # command # rest)" using True out by simp
  note enc = encode_payload_eq [OF this]
  have "set_at (KISS_FEND # command # kiss_escaped payload @ drop ?k rest) (2 + ?k) KISS_FEND =
      (Ok (KISS_FEND # command # kiss_escaped payload @ KISS_FEND # drop (Suc ?k) rest) :: (_, kiss_error) result)"
    using True out by (auto simp: set_at_def list_update_append Cons_nth_drop_Suc [symmetric] numeral_2_eq_2)
  with True out enc show ?thesis
    by (simp add: encode_command_frame_def encoded_len_eq set_at_def kiss_bytes_def numeral_2_eq_2 numeral_3_eq_3)
next
  case False
  then show ?thesis by (auto simp: encode_command_frame_def encoded_len_eq)
qed

lemma max_encoded_command_len_enough:
  "max_encoded_command_len (length payload) = Ok n \<Longrightarrow> n \<le> length out \<Longrightarrow>
   \<exists>m \<le> n. encode_command_frame command payload out = (Ok m, kiss_bytes command payload @ drop m out)"
  using length_kiss_escaped(2) [of payload]
  by (auto simp: max_encoded_command_len_def encode_command_frame_cases bind_eq_Some_conv)

section \<open>The decoder's invariant\<close>

text \<open>
  The bytes collected so far are a prefix of the buffer; outside a frame nothing is collected and
  no escape is pending.
\<close>

definition kiss_decoder_inv :: "kiss_decoder \<Rightarrow> bool" where
  "kiss_decoder_inv d \<longleftrightarrow> kd_len d \<le> length (kd_buffer d) \<and>
     (\<not> kd_in_frame d \<longrightarrow> kd_len d = 0 \<and> \<not> kd_escape_pending d)"

definition kiss_content :: "kiss_decoder \<Rightarrow> u8 list" where
  "kiss_content d = take (kd_len d) (kd_buffer d)"

definition kiss_collecting :: "usize \<Rightarrow> u8 list \<Rightarrow> kiss_decoder \<Rightarrow> bool" where
  "kiss_collecting n bs d \<longleftrightarrow> kiss_decoder_inv d \<and> length (kd_buffer d) = n \<and> kd_in_frame d \<and>
     \<not> kd_escape_pending d \<and> kiss_content d = bs"

text \<open>The frame an interrupted sender has left in the decoder, if any.\<close>

definition kiss_leftover :: "kiss_decoder \<Rightarrow> kiss_frame list" where
  "kiss_leftover d =
     (case kiss_content d of [] \<Rightarrow> [] | command # payload \<Rightarrow>
        [\<lparr>kf_command = command, kf_payload = payload\<rparr>])"

lemma length_kiss_leftover: "length (kiss_leftover d) \<le> 1"
  by (simp add: kiss_leftover_def split: list.splits)

lemma kiss_decoder_new_inv: "kiss_decoder_inv (kiss_decoder_new n)" "length (kd_buffer (kiss_decoder_new n)) = n"
  "kiss_leftover (kiss_decoder_new n) = []"
  by (simp_all add: kiss_decoder_inv_def kiss_decoder_new_def kiss_leftover_def kiss_content_def)

lemma kiss_leftover_collecting: "kiss_collecting n [] d \<Longrightarrow> kiss_leftover d = []"
  by (simp add: kiss_collecting_def kiss_leftover_def)

lemma kiss_collecting_inv: "kiss_collecting n bs d \<Longrightarrow> kiss_decoder_inv d \<and> length (kd_buffer d) = n"
  by (simp add: kiss_collecting_def)

lemma push_decoded_byte_inv:
  "kiss_decoder_inv d \<Longrightarrow> kd_in_frame d \<Longrightarrow> push_decoded_byte b d = (r, d') \<Longrightarrow>
   r \<noteq> Panic \<and> kiss_decoder_inv d' \<and> length (kd_buffer d') = length (kd_buffer d)"
  by (auto simp: push_decoded_byte_def kiss_decoder_inv_def kiss_reset_def set_at_def Let_def
      split: if_splits)

lemma finish_frame_eq:
  assumes "kiss_decoder_inv d" and "kd_in_frame d"
  shows "finish_frame on_frame (d, c) =
    (case kiss_content d of
       [] \<Rightarrow> (Ok (), (d, c))
     | command # payload \<Rightarrow>
         (case on_frame \<lparr>kf_command = command, kf_payload = payload\<rparr> c of
            (r, c') \<Rightarrow> (r, (d\<lparr>kd_len := 0, kd_escape_pending := False\<rparr>, c'))))"
proof (cases "kd_len d")
  case 0
  then show ?thesis by (simp add: finish_frame_def kiss_content_def)
next
  case (Suc k)
  with assms obtain b bs where "kd_buffer d = b # bs" by (cases "kd_buffer d") (auto simp: kiss_decoder_inv_def)
  with assms Suc show ?thesis
    by (auto simp: finish_frame_def kiss_content_def kiss_decoder_inv_def get_at_def slice_def)
qed

text \<open>
  No byte makes the decoder panic or leave its invariant, whatever the callback answers short of
  a panic of its own.
\<close>

abbreviation kiss_state_ok :: "usize \<Rightarrow> kiss_decoder \<times> 'c \<Rightarrow> bool" where
  "kiss_state_ok n s \<equiv> kiss_decoder_inv (fst s) \<and> length (kd_buffer (fst s)) = n"

lemma push_byte_preserves:
  assumes "\<And>frame c. fst (on_frame frame c) \<noteq> Panic"
  shows "preserves (kiss_state_ok n) (push_byte on_frame byte)"
  unfolding preserves_def
proof (intro allI impI)
  fix s :: "kiss_decoder \<times> 'a"
  assume ok: "kiss_state_ok n s"
  obtain d c where s: "s = (d, c)" by (cases s)
  consider "byte = KISS_FEND" | "byte \<noteq> KISS_FEND" by blast
  then show "fst (push_byte on_frame byte s) \<noteq> Panic \<and> kiss_state_ok n (snd (push_byte on_frame byte s))"
  proof cases
    case 1
    show ?thesis
    proof (cases "kd_in_frame d")
      case True
      with ok s 1 assms show ?thesis
        by (auto simp: push_byte_def sbind_def finish_frame_eq kiss_decoder_inv_def kiss_content_def
            split: prod.splits result.splits list.splits) (metis fst_conv)+
    next
      case False
      with ok s 1 show ?thesis
        by (auto simp: push_byte_def sbind_def sret_def kiss_decoder_inv_def)
    qed
  next
    case 2
    show ?thesis
    proof (cases "kd_in_frame d")
      case True
      have esc: "kiss_decoder_inv (d\<lparr>kd_escape_pending := e\<rparr>)" for e
        using ok s True by (simp add: kiss_decoder_inv_def)
      have reset: "kiss_decoder_inv (kiss_reset d')" "kd_buffer (kiss_reset d') = kd_buffer d'" for d'
        by (simp_all add: kiss_decoder_inv_def kiss_reset_def)
      have push: "fst (push_decoded_byte b d') \<noteq> Panic \<and> kiss_decoder_inv (snd (push_decoded_byte b d')) \<and>
          length (kd_buffer (snd (push_decoded_byte b d'))) = length (kd_buffer d')"
        if "kiss_decoder_inv d'" "kd_in_frame d'" for b d'
        using push_decoded_byte_inv [OF that] by (metis prod.collapse)
      show ?thesis
        using 2 s ok True esc reset push [OF esc] push [of d]
        by (auto simp: push_byte_def on_decoder_def Let_def split_beta)
    next
      case False
      with 2 s ok show ?thesis by (simp add: push_byte_def)
    qed
  qed
qed

lemma push_bytes_preserves:
  assumes "\<And>frame c. fst (on_frame frame c) \<noteq> Panic"
  shows "preserves (kiss_state_ok n) (push_bytes on_frame input)"
proof (induction input)
  case Nil
  then show ?case by (simp add: preserves_def)
next
  case (Cons b input)
  have "push_bytes on_frame (b # input) = sbind (push_byte on_frame b) (\<lambda>_. push_bytes on_frame input)"
    by (rule ext) simp
  with Cons push_byte_preserves [OF assms] show ?case by (simp add: preserves_sbind)
qed

section \<open>Decoding what the encoder writes\<close>

lemma push_bytes_append:
  "push_bytes on_frame (xs @ ys) s = sbind (push_bytes on_frame xs) (\<lambda>_. push_bytes on_frame ys) s"
  by (induction xs arbitrary: s) (auto simp: sbind_def split: prod.splits result.splits)

lemma push_bytes_single [simp]: "push_bytes on_frame [b] s = push_byte on_frame b s"
  by (auto simp: sbind_def split: prod.splits result.splits)

text \<open>Splitting the input into chunks does not change what the decoder does.\<close>

lemma push_bytes_concat:
  "push_bytes on_frame (concat chunks) s = foldr (\<lambda>chunk k. sbind (push_bytes on_frame chunk) (\<lambda>_. k)) chunks (\<lambda>s. (Ok (), s)) s"
  by (induction chunks arbitrary: s) (simp_all add: push_bytes_append sbind_def split: prod.splits result.splits)

lemma push_decoded_byte_collecting:
  assumes "kiss_collecting n bs d" and "length bs < n"
  shows "\<exists>d'. push_decoded_byte b d = (Ok (), d') \<and> kiss_collecting n (bs @ [b]) d'"
proof -
  have len: "kd_len d = length bs" "take (length bs) (kd_buffer d) = bs" "length (kd_buffer d) = n"
    using assms by (auto simp: kiss_collecting_def kiss_decoder_inv_def kiss_content_def)
  then have "take (Suc (length bs)) ((kd_buffer d)[length bs := b]) = bs @ [b]"
    using assms(2) by (simp add: take_Suc_conv_app_nth)
  with assms len show ?thesis
    by (simp add: push_decoded_byte_def set_at_def kiss_collecting_def kiss_decoder_inv_def kiss_content_def)
qed

lemma push_escape_collecting:
  assumes "kiss_collecting n bs d" and "length bs < n"
  shows "\<exists>d'. push_bytes on_frame (kiss_escape b) (d, c) = (Ok (), (d', c)) \<and> kiss_collecting n (bs @ [b]) d'"
proof -
  define e where "e = d\<lparr>kd_escape_pending := True\<rparr>"
  have e: "e\<lparr>kd_escape_pending := False\<rparr> = d" "kd_in_frame e" "kd_escape_pending e"
    using assms(1) by (simp_all add: e_def kiss_collecting_def)
  have "kd_in_frame d" "\<not> kd_escape_pending d" using assms(1) by (simp_all add: kiss_collecting_def)
  with push_decoded_byte_collecting [OF assms, of b] e show ?thesis
    by (auto simp: kiss_escape_def push_byte_def sbind_def on_decoder_def kiss_constants e_def [symmetric])
qed

lemma push_escaped_collecting:
  "kiss_collecting n bs d \<Longrightarrow> length bs + length payload \<le> n \<Longrightarrow>
   \<exists>d'. push_bytes on_frame (kiss_escaped payload) (d, c) = (Ok (), (d', c)) \<and>
        kiss_collecting n (bs @ payload) d'"
proof (induction payload arbitrary: bs d)
  case (Cons b payload)
  then obtain d1 where d1: "push_bytes on_frame (kiss_escape b) (d, c) = (Ok (), (d1, c))"
    "kiss_collecting n (bs @ [b]) d1"
    using push_escape_collecting [of n bs d on_frame b c] by fastforce
  with Cons.IH [OF d1(2)] Cons.prems show ?case
    by (fastforce simp: push_bytes_append sbind_def)
qed simp

definition record_frame :: "kiss_frame list on_frame" where
  "record_frame frame frames = (Ok (), frames @ [frame])"

lemma push_fend:
  assumes "kiss_decoder_inv d" and "length (kd_buffer d) = n"
  shows "\<exists>d'. push_byte record_frame KISS_FEND (d, c) = (Ok (), (d', c @ kiss_leftover d)) \<and> kiss_collecting n [] d'"
proof (cases "kd_in_frame d")
  case True
  with assms show ?thesis
    by (auto simp: push_byte_def sbind_def finish_frame_eq kiss_leftover_def record_frame_def
        kiss_collecting_def kiss_decoder_inv_def kiss_content_def split: list.splits)
next
  case False
  with assms show ?thesis
    by (auto simp: push_byte_def sbind_def sret_def kiss_leftover_def kiss_content_def
        kiss_collecting_def kiss_decoder_inv_def)
qed

text \<open>
  The frames the round trip is stated for: a command byte that is not a KISS control byte (the
  encoder does not escape it) and a payload that fits the decoder's buffer with its command.
\<close>

definition kiss_sendable :: "usize \<Rightarrow> kiss_frame \<Rightarrow> bool" where
  "kiss_sendable n frame \<longleftrightarrow> kf_command frame \<noteq> KISS_FEND \<and> kf_command frame \<noteq> KISS_FESC \<and>
     1 + length (kf_payload frame) \<le> n"

abbreviation kiss_frame_bytes :: "kiss_frame \<Rightarrow> u8 list" where
  "kiss_frame_bytes frame \<equiv> kiss_bytes (kf_command frame) (kf_payload frame)"

lemma push_kiss_bytes:
  assumes "kiss_decoder_inv d" and "length (kd_buffer d) = n" and "kiss_sendable n frame"
  shows "\<exists>d'. push_bytes record_frame (kiss_frame_bytes frame) (d, c) = (Ok (), (d', c @ kiss_leftover d @ [frame])) \<and>
    kiss_collecting n [] d'"
proof -
  let ?cmd = "kf_command frame" and ?payload = "kf_payload frame"
  have cmd: "kiss_escape ?cmd = [?cmd]" and fits: "length ([] :: u8 list) < n" "length [?cmd] + length ?payload \<le> n"
    using assms(3) by (auto simp: kiss_sendable_def kiss_escape_def)
  obtain d1 where d1: "push_byte record_frame KISS_FEND (d, c) = (Ok (), (d1, c @ kiss_leftover d))"
    "kiss_collecting n [] d1" using push_fend [OF assms(1,2)] by blast
  obtain d2 where d2: "push_bytes record_frame [?cmd] (d1, c @ kiss_leftover d) = (Ok (), (d2, c @ kiss_leftover d))"
    "kiss_collecting n [?cmd] d2"
    using push_escape_collecting [OF d1(2) fits(1), of record_frame ?cmd] cmd by fastforce
  obtain d3 where d3: "push_bytes record_frame (kiss_escaped ?payload) (d2, c @ kiss_leftover d) = (Ok (), (d3, c @ kiss_leftover d))"
    "kiss_collecting n (?cmd # ?payload) d3"
    using push_escaped_collecting [OF d2(2) fits(2), of record_frame] by fastforce
  from d3(2) have "kiss_leftover d3 = [frame]" by (simp add: kiss_collecting_def kiss_leftover_def)
  with push_fend [of d3 n "c @ kiss_leftover d"] d3(2) obtain d4 where
    d4: "push_byte record_frame KISS_FEND (d3, c @ kiss_leftover d) = (Ok (), (d4, c @ kiss_leftover d @ [frame]))"
    "kiss_collecting n [] d4" by (auto simp: kiss_collecting_def)
  have "kiss_frame_bytes frame = KISS_FEND # [?cmd] @ kiss_escaped ?payload @ [KISS_FEND]" by (simp add: kiss_bytes_def)
  with d1(1) d2(1) d3(1) d4 show ?thesis
    by (simp add: push_bytes_append sbind_def del: append.simps push_bytes.simps(2) add: push_bytes.simps(2) [of _ KISS_FEND])
qed

lemma push_kiss_stream:
  "kiss_decoder_inv d \<Longrightarrow> length (kd_buffer d) = n \<Longrightarrow> list_all (kiss_sendable n) frames \<Longrightarrow> frames \<noteq> [] \<Longrightarrow>
   \<exists>d'. push_bytes record_frame (concat (map kiss_frame_bytes frames)) (d, c) =
          (Ok (), (d', c @ kiss_leftover d @ frames)) \<and> kiss_collecting n [] d'"
proof (induction frames arbitrary: d c)
  case (Cons frame frames)
  then obtain d1 where d1: "push_bytes record_frame (kiss_frame_bytes frame) (d, c) = (Ok (), (d1, c @ kiss_leftover d @ [frame]))"
    "kiss_collecting n [] d1" using push_kiss_bytes [of d n frame c] by auto
  show ?case
  proof (cases frames)
    case Nil
    with d1 show ?thesis by (simp add: sbind_def)
  next
    case (Cons f fs)
    with Cons.IH [of d1 "c @ kiss_leftover d @ [frame]"] Cons.prems d1 show ?thesis
      by (auto simp: push_bytes_append sbind_def kiss_leftover_collecting kiss_collecting_inv)
  qed
qed simp

section \<open>What is pending after arbitrary bytes\<close>

text \<open>
  A reading of the raw bytes that does not mention the decoder: what follows the last delimiter,
  with the escapes undone (\<open>esc\<close>: the byte before was an escape).
\<close>

fun kiss_unescape :: "bool \<Rightarrow> u8 list \<Rightarrow> u8 list" where
  "kiss_unescape esc [] = []"
| "kiss_unescape esc (byte # bytes) =
     (if esc then (if byte = KISS_TFEND then KISS_FEND else KISS_FESC) # kiss_unescape False bytes
      else if byte = KISS_FESC then kiss_unescape True bytes
      else byte # kiss_unescape False bytes)"

fun kiss_escaping :: "bool \<Rightarrow> u8 list \<Rightarrow> bool" where
  "kiss_escaping esc [] = esc"
| "kiss_escaping esc (byte # bytes) = kiss_escaping (\<not> esc \<and> byte = KISS_FESC) bytes"

definition kiss_tail :: "u8 list \<Rightarrow> u8 list" where
  "kiss_tail bytes = rev (takeWhile (\<lambda>byte. byte \<noteq> KISS_FEND) (rev bytes))"

definition kiss_unfinished :: "u8 list \<Rightarrow> kiss_frame list" where
  "kiss_unfinished bytes =
     (if KISS_FEND \<in> set bytes
      then (case kiss_unescape False (kiss_tail bytes) of [] \<Rightarrow> [] | command # payload \<Rightarrow>
        [\<lparr>kf_command = command, kf_payload = payload\<rparr>])
      else [])"

lemma kiss_unescape_snoc:
  "kiss_unescape esc (bytes @ [byte]) = kiss_unescape esc bytes @ kiss_unescape (kiss_escaping esc bytes) [byte]"
  by (induction esc bytes rule: kiss_unescape.induct) auto

lemma kiss_escaping_snoc:
  "kiss_escaping esc (bytes @ [byte]) \<longleftrightarrow> \<not> kiss_escaping esc bytes \<and> byte = KISS_FESC"
  by (induction esc bytes rule: kiss_escaping.induct) auto

lemma kiss_tail_snoc: "kiss_tail (bytes @ [byte]) = (if byte = KISS_FEND then [] else kiss_tail bytes @ [byte])"
  by (simp add: kiss_tail_def)

text \<open>The decoder holds exactly this, as long as no byte was refused.\<close>

definition kiss_reads :: "usize \<Rightarrow> u8 list \<Rightarrow> kiss_decoder \<Rightarrow> bool" where
  "kiss_reads n bytes d \<longleftrightarrow> kiss_decoder_inv d \<and> length (kd_buffer d) = n \<and> (kd_in_frame d \<longleftrightarrow> KISS_FEND \<in> set bytes) \<and>
     (kd_in_frame d \<longrightarrow> kiss_content d = kiss_unescape False (kiss_tail bytes) \<and>
        kd_escape_pending d = kiss_escaping False (kiss_tail bytes))"

lemma push_decoded_byte_content:
  assumes "kiss_decoder_inv d" and "kd_in_frame d" and "push_decoded_byte b d = (r, d')"
  shows "case r of
      Ok u \<Rightarrow> kiss_content d' = kiss_content d @ [b] \<and> kd_escape_pending d' = kd_escape_pending d \<and> kd_in_frame d'
    | Err e \<Rightarrow> kiss_content d' = []
    | Panic \<Rightarrow> False"
  using assms by (auto simp: push_decoded_byte_def kiss_decoder_inv_def kiss_content_def kiss_reset_def set_at_def Let_def
      take_Suc_conv_app_nth split: if_splits)

lemma push_byte_reads:
  assumes "kiss_reads n bytes d" and run: "push_byte record_frame byte (d, c) = (r, (d', c'))"
  shows "case r of Ok u \<Rightarrow> kiss_reads n (bytes @ [byte]) d' | Err e \<Rightarrow> kiss_content d' = [] | Panic \<Rightarrow> False"
proof -
  have inv: "kiss_decoder_inv d" "length (kd_buffer d) = n" using assms(1) by (simp_all add: kiss_reads_def)
  consider (fend) "byte = KISS_FEND" | (outside) "byte \<noteq> KISS_FEND" "\<not> kd_in_frame d"
    | (escaped) "byte \<noteq> KISS_FEND" "kd_in_frame d" "kd_escape_pending d"
    | (escape) "byte = KISS_FESC" "kd_in_frame d" "\<not> kd_escape_pending d"
    | (plain) "byte \<noteq> KISS_FEND" "byte \<noteq> KISS_FESC" "kd_in_frame d" "\<not> kd_escape_pending d"
    by (auto simp: kiss_constants)
  then show ?thesis
  proof cases
    case fend
    with push_fend [OF inv, of c] run show ?thesis
      by (auto simp: kiss_reads_def kiss_collecting_def kiss_tail_snoc)
  next
    case outside
    with assms run show ?thesis by (auto simp: push_byte_def kiss_reads_def)
  next
    case escaped
    let ?d = "d\<lparr>kd_escape_pending := False\<rparr>"
    have d: "kiss_decoder_inv ?d" "kd_in_frame ?d" "kiss_content ?d = kiss_content d"
      using inv escaped by (simp_all add: kiss_decoder_inv_def kiss_content_def)
    obtain q e where push: "push_decoded_byte (if byte = KISS_TFEND then KISS_FEND else KISS_FESC) ?d = (q, e)" by fastforce
    note content = push_decoded_byte_content [OF d(1,2) push] push_decoded_byte_inv [OF d(1,2) push]
    show ?thesis
    proof (cases "byte = KISS_TFEND \<or> byte = KISS_TFESC")
      case True
      then have "(r, d') = (q, e)" using run push escaped by (auto simp: push_byte_def on_decoder_def kiss_constants)
      then show ?thesis using content assms(1) escaped d(3)
        by (cases q) (auto simp: kiss_reads_def kiss_tail_snoc kiss_unescape_snoc kiss_escaping_snoc)
    qed (use run escaped in \<open>auto simp: push_byte_def kiss_content_def kiss_reset_def kiss_constants\<close>)
  next
    case escape
    with assms run show ?thesis
      by (auto simp: push_byte_def kiss_reads_def kiss_decoder_inv_def kiss_content_def kiss_tail_snoc kiss_unescape_snoc
          kiss_escaping_snoc kiss_constants)
  next
    case plain
    obtain q e where push: "push_decoded_byte byte d = (q, e)" by fastforce
    note content = push_decoded_byte_content [OF inv(1) plain(3) push] push_decoded_byte_inv [OF inv(1) plain(3) push]
    have "(r, d') = (q, e)" using run push plain by (auto simp: push_byte_def on_decoder_def)
    then show ?thesis using content assms(1) plain
      by (cases q) (auto simp: kiss_reads_def kiss_tail_snoc kiss_unescape_snoc kiss_escaping_snoc)
  qed
qed

lemma push_bytes_reads:
  "push_bytes record_frame bytes (kiss_decoder_new n, []) = (r, (d, c)) \<Longrightarrow>
   case r of Ok u \<Rightarrow> kiss_reads n bytes d | Err e \<Rightarrow> kiss_content d = [] | Panic \<Rightarrow> False"
proof (induction bytes arbitrary: r d c rule: rev_induct)
  case Nil
  then show ?case
    by (auto simp: kiss_reads_def kiss_decoder_new_inv) (simp_all add: kiss_decoder_new_def)
next
  case (snoc byte bytes)
  obtain r1 d1 c1 where run: "push_bytes record_frame bytes (kiss_decoder_new n, []) = (r1, (d1, c1))"
    by (metis surj_pair)
  from snoc.IH [OF this] snoc.prems run push_byte_reads [of n bytes d1 byte c1 r d c] show ?case
    by (cases r1) (auto simp: push_bytes_append sbind_def simp del: push_bytes.simps(2) split: prod.splits)
qed

lemma kiss_reads_leftover: "kiss_reads n bytes d \<Longrightarrow> kiss_leftover d = kiss_unfinished bytes"
  by (cases "kd_in_frame d") (auto simp: kiss_reads_def kiss_leftover_def kiss_unfinished_def kiss_decoder_inv_def kiss_content_def)

section \<open>Properties\<close>

text \<open>
  KISS framing round trip. When the encoder succeeds on a frame whose command is not a control
  byte, feeding the bytes it wrote to a fresh decoder with room for the frame delivers exactly that
  frame, once, without an error; and the encoder does succeed whenever the caller's buffer has the
  length \<open>max_encoded_command_len\<close> promises.\<close>

theorem kiss_roundtrip:
  assumes "kiss_sendable n \<lparr>kf_command = command, kf_payload = payload\<rparr>"
    and "max_encoded_command_len (length payload) = Ok k" and "k \<le> length out"
  shows "\<exists>m out' d. encode_command_frame command payload out = (Ok m, out') \<and> m \<le> k \<and>
    push_bytes record_frame (take m out') (kiss_decoder_new n, []) =
      (Ok (), (d, [\<lparr>kf_command = command, kf_payload = payload\<rparr>]))"
proof -
  obtain m where m: "m \<le> k" "encode_command_frame command payload out = (Ok m, kiss_bytes command payload @ drop m out)"
    using max_encoded_command_len_enough [OF assms(2,3)] by blast
  then have "take m (kiss_bytes command payload @ drop m out) = kiss_bytes command payload"
    by (auto simp: encode_command_frame_cases split: if_splits)
  with push_kiss_bytes [OF kiss_decoder_new_inv(1,2) assms(1), of "[]"] m
  show ?thesis by (auto simp: kiss_decoder_new_inv)
qed

theorem kiss_roundtrip_witness:
  "\<exists>m out' d. encode_command_frame 0 [0xC0, 7] (replicate 7 0) = (Ok m, out') \<and> m \<le> 7 \<and>
     push_bytes record_frame (take m out') (kiss_decoder_new 8, []) =
       (Ok (), (d, [\<lparr>kf_command = 0, kf_payload = [0xC0, 7]\<rparr>]))"
proof -
  have "kiss_sendable 8 \<lparr>kf_command = 0, kf_payload = [0xC0, 7]\<rparr>"
    by (simp add: kiss_sendable_def kiss_constants)
  moreover have "max_encoded_command_len (length [0xC0, 7 :: u8]) = Ok 7"
    by (simp add: max_encoded_command_len_def checked_mul_def checked_add_def usize_max_def)
  moreover have "7 \<le> length (replicate 7 (0 :: u8))" by simp
  ultimately show ?thesis by (rule kiss_roundtrip)
qed

text \<open>
  C27. The KISS decoder resynchronises. Feed a fresh decoder any bytes: it does not panic. Then feed it
  a stream of encoded frames that fit its buffer and whose command bytes are not KISS control bytes:
  all of them are delivered, in order, without an error. Before them comes at most one other frame,
  and it is determined by the bytes: none if the decoder had reported an error or had seen no
  delimiter, otherwise what followed the last delimiter with its escapes undone, if that is not
  empty.\<close>

theorem kiss_resynchronises:
  assumes "push_bytes record_frame junk (kiss_decoder_new n, []) = (r, (d, c))"
    and "list_all (kiss_sendable n) frames" and "frames \<noteq> []"
  shows "r \<noteq> Panic \<and> (\<exists>d' pending. length pending \<le> 1 \<and> pending = (if r = Ok () then kiss_unfinished junk else []) \<and>
    push_bytes record_frame (concat (map kiss_frame_bytes frames)) (d, c) = (Ok (), (d', c @ pending @ frames)))"
proof -
  have "preserves (kiss_state_ok n) (push_bytes record_frame junk)"
    by (rule push_bytes_preserves) (simp add: record_frame_def)
  from preservesD [OF this _ assms(1)] have d: "r \<noteq> Panic" "kiss_decoder_inv d" "length (kd_buffer d) = n"
    by (simp_all add: kiss_decoder_new_inv)
  have "kiss_leftover d = (if r = Ok () then kiss_unfinished junk else [])"
    using push_bytes_reads [OF assms(1)] kiss_reads_leftover by (cases r) (auto simp: kiss_leftover_def)
  with push_kiss_stream [OF d(2,3) assms(2,3), of c] length_kiss_leftover [of d] d(1) show ?thesis by metis
qed

theorem kiss_resynchronises_witness:
  "\<exists>d c d'. push_bytes record_frame [9, 0xC0, 0, 0xDB, 0xDC, 5] (kiss_decoder_new 4, []) = (Ok (), (d, c)) \<and>
     push_bytes record_frame (concat (map kiss_frame_bytes [\<lparr>kf_command = 0, kf_payload = [1]\<rparr>])) (d, c) =
       (Ok (), (d', c @ [\<lparr>kf_command = 0, kf_payload = [0xC0, 5]\<rparr>, \<lparr>kf_command = 0, kf_payload = [1]\<rparr>]))"
proof -
  have "fst (push_bytes record_frame [9, 0xC0, 0, 0xDB, 0xDC, 5] (kiss_decoder_new 4, [])) = Ok ()" by code_simp
  then obtain d c where d: "push_bytes record_frame [9, 0xC0, 0, 0xDB, 0xDC, 5] (kiss_decoder_new 4, []) = (Ok (), (d, c))"
    by (cases "push_bytes record_frame [9, 0xC0, 0, 0xDB, 0xDC, 5] (kiss_decoder_new 4, [])") auto
  have "list_all (kiss_sendable 4) [\<lparr>kf_command = 0, kf_payload = [1]\<rparr>]"
    by (simp add: kiss_sendable_def kiss_constants)
  moreover have "kiss_unfinished [9, 0xC0, 0, 0xDB, 0xDC, 5] = [\<lparr>kf_command = 0, kf_payload = [0xC0, 5]\<rparr>]"
    by (simp add: kiss_unfinished_def kiss_tail_def kiss_constants)
  ultimately show ?thesis
    using kiss_resynchronises [OF d, of "[\<lparr>kf_command = 0, kf_payload = [1]\<rparr>]"] d by auto
qed

end
