(* ===== verification/Hyf_RNode.thy ===== *)
theory Hyf_RNode
  imports Hyf_Kiss
begin

text \<open>
  The crate \<open>hyf_link_rnode\<close>: the host protocol of an RNode radio modem
  (\<open>src/crates/hyf_link_rnode/src/{constants,error,config,command,state}.rs\<close>). Commands are
  validated and framed with KISS, frames from the modem are parsed to events, and \<open>rnode_state\<close>
  tracks the flow control that decides when the host may transmit. The lemmas show that a
  configuration command comes back as the report of the same value through the KISS decoder, and
  that the host never transmits between a transmission and the modem's next \<open>Ready\<close>.
\<close>

section \<open>Constants and errors\<close>

definition RNODE_CMD_DATA :: u8 where "RNODE_CMD_DATA = 0x00"
definition RNODE_CMD_FREQUENCY :: u8 where "RNODE_CMD_FREQUENCY = 0x01"
definition RNODE_CMD_BANDWIDTH :: u8 where "RNODE_CMD_BANDWIDTH = 0x02"
definition RNODE_CMD_TXPOWER :: u8 where "RNODE_CMD_TXPOWER = 0x03"
definition RNODE_CMD_SF :: u8 where "RNODE_CMD_SF = 0x04"
definition RNODE_CMD_CR :: u8 where "RNODE_CMD_CR = 0x05"
definition RNODE_CMD_RADIO_STATE :: u8 where "RNODE_CMD_RADIO_STATE = 0x06"
definition RNODE_CMD_DETECT :: u8 where "RNODE_CMD_DETECT = 0x08"
definition RNODE_CMD_LEAVE :: u8 where "RNODE_CMD_LEAVE = 0x0A"
definition RNODE_CMD_READY :: u8 where "RNODE_CMD_READY = 0x0F"
definition RNODE_CMD_STAT_RX :: u8 where "RNODE_CMD_STAT_RX = 0x21"
definition RNODE_CMD_STAT_TX :: u8 where "RNODE_CMD_STAT_TX = 0x22"
definition RNODE_CMD_STAT_RSSI :: u8 where "RNODE_CMD_STAT_RSSI = 0x23"
definition RNODE_CMD_STAT_SNR :: u8 where "RNODE_CMD_STAT_SNR = 0x24"
definition RNODE_CMD_PLATFORM :: u8 where "RNODE_CMD_PLATFORM = 0x48"
definition RNODE_CMD_MCU :: u8 where "RNODE_CMD_MCU = 0x49"
definition RNODE_CMD_FW_VERSION :: u8 where "RNODE_CMD_FW_VERSION = 0x50"
definition RNODE_CMD_ERROR :: u8 where "RNODE_CMD_ERROR = 0x90"

lemmas rnode_commands = RNODE_CMD_DATA_def RNODE_CMD_FREQUENCY_def RNODE_CMD_BANDWIDTH_def
  RNODE_CMD_TXPOWER_def RNODE_CMD_SF_def RNODE_CMD_CR_def RNODE_CMD_RADIO_STATE_def
  RNODE_CMD_DETECT_def RNODE_CMD_LEAVE_def RNODE_CMD_READY_def RNODE_CMD_STAT_RX_def
  RNODE_CMD_STAT_TX_def RNODE_CMD_STAT_RSSI_def RNODE_CMD_STAT_SNR_def RNODE_CMD_PLATFORM_def
  RNODE_CMD_MCU_def RNODE_CMD_FW_VERSION_def RNODE_CMD_ERROR_def

definition RNODE_DETECT_REQUEST :: u8 where "RNODE_DETECT_REQUEST = 0x73"
definition RNODE_LEAVE_REQUEST :: u8 where "RNODE_LEAVE_REQUEST = 0xFF"
definition RNODE_RADIO_STATE_OFF :: u8 where "RNODE_RADIO_STATE_OFF = 0x00"
definition RNODE_RADIO_STATE_ON :: u8 where "RNODE_RADIO_STATE_ON = 0x01"
definition RNODE_RADIO_STATE_ASK :: u8 where "RNODE_RADIO_STATE_ASK = 0xFF"
definition RNODE_ERROR_INITRADIO :: u8 where "RNODE_ERROR_INITRADIO = 0x01"
definition RNODE_ERROR_TXFAILED :: u8 where "RNODE_ERROR_TXFAILED = 0x02"
definition RNODE_ERROR_EEPROM_LOCKED :: u8 where "RNODE_ERROR_EEPROM_LOCKED = 0x03"
definition RNODE_ERROR_QUEUE_FULL :: u8 where "RNODE_ERROR_QUEUE_FULL = 0x04"
definition RNODE_ERROR_MEMORY_LOW :: u8 where "RNODE_ERROR_MEMORY_LOW = 0x05"
definition RNODE_ERROR_MODEM_TIMEOUT :: u8 where "RNODE_ERROR_MODEM_TIMEOUT = 0x06"
definition RNODE_FREQUENCY_MIN_HZ :: u32 where "RNODE_FREQUENCY_MIN_HZ = 137000000"
definition RNODE_FREQUENCY_MAX_HZ :: u32 where "RNODE_FREQUENCY_MAX_HZ = 3000000000"
definition RNODE_BANDWIDTH_MIN_HZ :: u32 where "RNODE_BANDWIDTH_MIN_HZ = 7800"
definition RNODE_BANDWIDTH_MAX_HZ :: u32 where "RNODE_BANDWIDTH_MAX_HZ = 1625000"
definition RNODE_TX_POWER_MAX_DBM :: u8 where "RNODE_TX_POWER_MAX_DBM = 37"
definition RNODE_SPREADING_FACTOR_MIN :: u8 where "RNODE_SPREADING_FACTOR_MIN = 5"
definition RNODE_SPREADING_FACTOR_MAX :: u8 where "RNODE_SPREADING_FACTOR_MAX = 12"
definition RNODE_CODING_RATE_MIN :: u8 where "RNODE_CODING_RATE_MIN = 5"
definition RNODE_CODING_RATE_MAX :: u8 where "RNODE_CODING_RATE_MAX = 8"
definition RNODE_RSSI_OFFSET :: "16 word" where "RNODE_RSSI_OFFSET = 157"
definition RNODE_REQUIRED_FW_MAJOR :: u8 where "RNODE_REQUIRED_FW_MAJOR = 1"
definition RNODE_REQUIRED_FW_MINOR :: u8 where "RNODE_REQUIRED_FW_MINOR = 52"

lemmas rnode_ranges = RNODE_FREQUENCY_MIN_HZ_def RNODE_FREQUENCY_MAX_HZ_def
  RNODE_BANDWIDTH_MIN_HZ_def RNODE_BANDWIDTH_MAX_HZ_def RNODE_TX_POWER_MAX_DBM_def
  RNODE_SPREADING_FACTOR_MIN_def RNODE_SPREADING_FACTOR_MAX_def RNODE_CODING_RATE_MIN_def
  RNODE_CODING_RATE_MAX_def

lemmas rnode_radio_bytes = RNODE_RADIO_STATE_OFF_def RNODE_RADIO_STATE_ON_def RNODE_RADIO_STATE_ASK_def

datatype rnode_error =
    RNodeKiss kiss_error
  | InvalidFrequencyHz u32 u32 u32
  | InvalidBandwidthHz u32 u32 u32
  | InvalidTxPowerDbm u8 u8
  | InvalidSpreadingFactor u8 u8 u8
  | InvalidCodingRate u8 u8 u8
  | InvalidPayloadLength u8 usize usize

section \<open>Configuration ranges\<close>

record rnode_config =
  rc_frequency_hz :: u32
  rc_bandwidth_hz :: u32
  rc_tx_power_dbm :: u8
  rc_spreading_factor :: u8
  rc_coding_rate :: u8
  rc_flow_control :: bool

definition validate_frequency_hz :: "u32 \<Rightarrow> (unit, rnode_error) result" where
  "validate_frequency_hz v =
     (if RNODE_FREQUENCY_MIN_HZ \<le> v \<and> v \<le> RNODE_FREQUENCY_MAX_HZ then Ok ()
      else Err (InvalidFrequencyHz v RNODE_FREQUENCY_MIN_HZ RNODE_FREQUENCY_MAX_HZ))"

definition validate_bandwidth_hz :: "u32 \<Rightarrow> (unit, rnode_error) result" where
  "validate_bandwidth_hz v =
     (if RNODE_BANDWIDTH_MIN_HZ \<le> v \<and> v \<le> RNODE_BANDWIDTH_MAX_HZ then Ok ()
      else Err (InvalidBandwidthHz v RNODE_BANDWIDTH_MIN_HZ RNODE_BANDWIDTH_MAX_HZ))"

definition validate_tx_power_dbm :: "u8 \<Rightarrow> (unit, rnode_error) result" where
  "validate_tx_power_dbm v =
     (if v \<le> RNODE_TX_POWER_MAX_DBM then Ok () else Err (InvalidTxPowerDbm v RNODE_TX_POWER_MAX_DBM))"

definition validate_spreading_factor :: "u8 \<Rightarrow> (unit, rnode_error) result" where
  "validate_spreading_factor v =
     (if RNODE_SPREADING_FACTOR_MIN \<le> v \<and> v \<le> RNODE_SPREADING_FACTOR_MAX then Ok ()
      else Err (InvalidSpreadingFactor v RNODE_SPREADING_FACTOR_MIN RNODE_SPREADING_FACTOR_MAX))"

definition validate_coding_rate :: "u8 \<Rightarrow> (unit, rnode_error) result" where
  "validate_coding_rate v =
     (if RNODE_CODING_RATE_MIN \<le> v \<and> v \<le> RNODE_CODING_RATE_MAX then Ok ()
      else Err (InvalidCodingRate v RNODE_CODING_RATE_MIN RNODE_CODING_RATE_MAX))"

definition validate_config :: "rnode_config \<Rightarrow> (unit, rnode_error) result" where
  "validate_config config =
     rbind (validate_frequency_hz (rc_frequency_hz config)) (\<lambda>_.
     rbind (validate_bandwidth_hz (rc_bandwidth_hz config)) (\<lambda>_.
     rbind (validate_tx_power_dbm (rc_tx_power_dbm config)) (\<lambda>_.
     rbind (validate_spreading_factor (rc_spreading_factor config)) (\<lambda>_.
     rbind (validate_coding_rate (rc_coding_rate config)) (\<lambda>_. Ok ())))))"

section \<open>Commands and events\<close>

datatype rnode_radio_state = RadioOff | RadioOn | RadioAsk

fun radio_state_as_byte :: "rnode_radio_state \<Rightarrow> u8" where
  "radio_state_as_byte RadioOff = RNODE_RADIO_STATE_OFF"
| "radio_state_as_byte RadioOn = RNODE_RADIO_STATE_ON"
| "radio_state_as_byte RadioAsk = RNODE_RADIO_STATE_ASK"

datatype rnode_command =
    SetFrequencyHz u32
  | SetBandwidthHz u32
  | SetTxPowerDbm u8
  | SetSpreadingFactor u8
  | SetCodingRate u8
  | SetRadioState rnode_radio_state
  | Detect
  | Leave
  | SetReady bool

datatype rnode_hardware_error =
    InitRadio
  | TxFailed
  | EepromLocked
  | HwQueueFull
  | MemoryLow
  | ModemTimeout
  | UnknownError u8

record rnode_firmware_version =
  fw_major :: u8
  fw_minor :: u8
  fw_supported :: bool

datatype rnode_config_report =
    ReportFrequencyHz u32
  | ReportBandwidthHz u32
  | ReportTxPowerDbm u8
  | ReportSpreadingFactor u8
  | ReportCodingRate u8
  | ReportRadioState rnode_radio_state
  | ReportPlatform u8
  | ReportMcu u8

datatype rnode_stat =
    RxBytes u32
  | TxBytes u32
  | RssiDbm "16 word"
  | SnrQuarterDb "8 word"

datatype rnode_event =
    EvData "u8 list"
  | EvReady
  | EvError rnode_hardware_error
  | EvFirmwareVersion rnode_firmware_version
  | EvConfigReport rnode_config_report
  | EvStat rnode_stat
  | EvUnknown u8 "u8 list"

text \<open>The match of \<open>encode_command\<close>: the command byte and its payload, or a range error.\<close>

fun command_payload :: "rnode_command \<Rightarrow> (u8 \<times> u8 list, rnode_error) result" where
  "command_payload (SetFrequencyHz v) =
     rbind (validate_frequency_hz v) (\<lambda>_. Ok (RNODE_CMD_FREQUENCY, be_bytes 4 (unat v)))"
| "command_payload (SetBandwidthHz v) =
     rbind (validate_bandwidth_hz v) (\<lambda>_. Ok (RNODE_CMD_BANDWIDTH, be_bytes 4 (unat v)))"
| "command_payload (SetTxPowerDbm v) = rbind (validate_tx_power_dbm v) (\<lambda>_. Ok (RNODE_CMD_TXPOWER, [v]))"
| "command_payload (SetSpreadingFactor v) = rbind (validate_spreading_factor v) (\<lambda>_. Ok (RNODE_CMD_SF, [v]))"
| "command_payload (SetCodingRate v) = rbind (validate_coding_rate v) (\<lambda>_. Ok (RNODE_CMD_CR, [v]))"
| "command_payload (SetRadioState st) = Ok (RNODE_CMD_RADIO_STATE, [radio_state_as_byte st])"
| "command_payload Detect = Ok (RNODE_CMD_DETECT, [RNODE_DETECT_REQUEST])"
| "command_payload Leave = Ok (RNODE_CMD_LEAVE, [RNODE_LEAVE_REQUEST])"
| "command_payload (SetReady enabled) = Ok (RNODE_CMD_READY, [if enabled then 1 else 0])"

definition encode_command :: "rnode_command \<Rightarrow> u8 list \<Rightarrow> (usize, rnode_error) result \<times> u8 list" where
  "encode_command command out =
     (case command_payload command of
        Ok (command_byte, payload) \<Rightarrow>
          (case encode_command_frame command_byte payload out of
             (res, out') \<Rightarrow> (map_err RNodeKiss res, out'))
      | Err err \<Rightarrow> (Err err, out)
      | Panic \<Rightarrow> (Panic, out))"

definition invalid_len :: "u8 \<Rightarrow> usize \<Rightarrow> usize \<Rightarrow> rnode_error" where
  "invalid_len command actual expected = InvalidPayloadLength command actual expected"

definition expect_len :: "u8 \<Rightarrow> u8 list \<Rightarrow> usize \<Rightarrow> (unit, rnode_error) result" where
  "expect_len command payload expected =
     (if length payload = expected then Ok () else Err (invalid_len command (length payload) expected))"

definition firmware_supported :: "u8 \<Rightarrow> u8 \<Rightarrow> bool" where
  "firmware_supported major minor \<longleftrightarrow>
     RNODE_REQUIRED_FW_MAJOR < major \<or> major = RNODE_REQUIRED_FW_MAJOR \<and> RNODE_REQUIRED_FW_MINOR \<le> minor"

definition parse_u32 :: "u8 \<Rightarrow> u8 list \<Rightarrow> (u32, rnode_error) result" where
  "parse_u32 command payload =
     rbind (expect_len command payload 4) (\<lambda>_.
     rbind (get_at payload 0) (\<lambda>b0. rbind (get_at payload 1) (\<lambda>b1.
     rbind (get_at payload 2) (\<lambda>b2. rbind (get_at payload 3) (\<lambda>b3.
       Ok (word_of_nat (be_value [b0, b1, b2, b3])))))))"

definition parse_ready :: "u8 list \<Rightarrow> (rnode_event, rnode_error) result" where
  "parse_ready payload =
     (if length payload \<le> 1 then Ok EvReady else Err (invalid_len RNODE_CMD_READY (length payload) 1))"

definition hardware_error_of :: "u8 \<Rightarrow> rnode_hardware_error" where
  "hardware_error_of b =
     (if b = RNODE_ERROR_INITRADIO then InitRadio
      else if b = RNODE_ERROR_TXFAILED then TxFailed
      else if b = RNODE_ERROR_EEPROM_LOCKED then EepromLocked
      else if b = RNODE_ERROR_QUEUE_FULL then HwQueueFull
      else if b = RNODE_ERROR_MEMORY_LOW then MemoryLow
      else if b = RNODE_ERROR_MODEM_TIMEOUT then ModemTimeout
      else UnknownError b)"

definition parse_error :: "u8 \<Rightarrow> u8 list \<Rightarrow> (rnode_event, rnode_error) result" where
  "parse_error command payload =
     rbind (expect_len command payload 1) (\<lambda>_.
     rbind (get_at payload 0) (\<lambda>b. Ok (EvError (hardware_error_of b))))"

definition parse_firmware_version :: "u8 \<Rightarrow> u8 list \<Rightarrow> (rnode_event, rnode_error) result" where
  "parse_firmware_version command payload =
     rbind (expect_len command payload 2) (\<lambda>_.
     rbind (get_at payload 0) (\<lambda>major. rbind (get_at payload 1) (\<lambda>minor.
       Ok (EvFirmwareVersion \<lparr>fw_major = major, fw_minor = minor,
             fw_supported = firmware_supported major minor\<rparr>))))"

definition parse_u32_stat :: "u8 \<Rightarrow> u8 list \<Rightarrow> (u32 \<Rightarrow> rnode_stat) \<Rightarrow> (rnode_event, rnode_error) result" where
  "parse_u32_stat command payload build =
     rbind (parse_u32 command payload) (\<lambda>v. Ok (EvStat (build v)))"

definition parse_rssi :: "u8 \<Rightarrow> u8 list \<Rightarrow> (rnode_event, rnode_error) result" where
  "parse_rssi command payload =
     rbind (expect_len command payload 1) (\<lambda>_.
     rbind (get_at payload 0) (\<lambda>b. Ok (EvStat (RssiDbm (ucast b - RNODE_RSSI_OFFSET)))))"

definition parse_snr :: "u8 \<Rightarrow> u8 list \<Rightarrow> (rnode_event, rnode_error) result" where
  "parse_snr command payload =
     rbind (expect_len command payload 1) (\<lambda>_.
     rbind (get_at payload 0) (\<lambda>b. Ok (EvStat (SnrQuarterDb b))))"

definition parse_u32_config ::
  "u8 \<Rightarrow> u8 list \<Rightarrow> (u32 \<Rightarrow> rnode_config_report) \<Rightarrow> (rnode_event, rnode_error) result" where
  "parse_u32_config command payload build =
     rbind (parse_u32 command payload) (\<lambda>v. Ok (EvConfigReport (build v)))"

definition parse_u8_config ::
  "u8 \<Rightarrow> u8 list \<Rightarrow> (u8 \<Rightarrow> rnode_config_report) \<Rightarrow> (rnode_event, rnode_error) result" where
  "parse_u8_config command payload build =
     rbind (expect_len command payload 1) (\<lambda>_.
     rbind (get_at payload 0) (\<lambda>b. Ok (EvConfigReport (build b))))"

definition parse_radio_state :: "u8 \<Rightarrow> u8 list \<Rightarrow> (rnode_event, rnode_error) result" where
  "parse_radio_state command payload =
     rbind (expect_len command payload 1) (\<lambda>_.
     rbind (get_at payload 0) (\<lambda>b.
       if b = RNODE_RADIO_STATE_OFF then Ok (EvConfigReport (ReportRadioState RadioOff))
       else if b = RNODE_RADIO_STATE_ON then Ok (EvConfigReport (ReportRadioState RadioOn))
       else if b = RNODE_RADIO_STATE_ASK then Ok (EvConfigReport (ReportRadioState RadioAsk))
       else Ok (EvUnknown command payload)))"

definition parse_command_frame :: "kiss_frame \<Rightarrow> (rnode_event, rnode_error) result" where
  "parse_command_frame frame =
     (let command = kf_command frame; payload = kf_payload frame in
      if command = RNODE_CMD_DATA then Ok (EvData payload)
      else if command = RNODE_CMD_READY then parse_ready payload
      else if command = RNODE_CMD_ERROR then parse_error command payload
      else if command = RNODE_CMD_FW_VERSION then parse_firmware_version command payload
      else if command = RNODE_CMD_STAT_RX then parse_u32_stat command payload RxBytes
      else if command = RNODE_CMD_STAT_TX then parse_u32_stat command payload TxBytes
      else if command = RNODE_CMD_STAT_RSSI then parse_rssi command payload
      else if command = RNODE_CMD_STAT_SNR then parse_snr command payload
      else if command = RNODE_CMD_FREQUENCY then parse_u32_config command payload ReportFrequencyHz
      else if command = RNODE_CMD_BANDWIDTH then parse_u32_config command payload ReportBandwidthHz
      else if command = RNODE_CMD_TXPOWER then parse_u8_config command payload ReportTxPowerDbm
      else if command = RNODE_CMD_SF then parse_u8_config command payload ReportSpreadingFactor
      else if command = RNODE_CMD_CR then parse_u8_config command payload ReportCodingRate
      else if command = RNODE_CMD_RADIO_STATE then parse_radio_state command payload
      else if command = RNODE_CMD_PLATFORM then parse_u8_config command payload ReportPlatform
      else if command = RNODE_CMD_MCU then parse_u8_config command payload ReportMcu
      else Ok (EvUnknown command payload))"

section \<open>Flow control\<close>

record rnode_state =
  rs_flow_control :: bool
  rs_interface_ready :: bool
  rs_last_error :: "rnode_hardware_error option"

definition rnode_state_new :: "bool \<Rightarrow> rnode_state" where
  "rnode_state_new flow_control =
     \<lparr>rs_flow_control = flow_control, rs_interface_ready = (\<not> flow_control), rs_last_error = None\<rparr>"

definition can_transmit :: "rnode_state \<Rightarrow> bool" where
  "can_transmit st \<longleftrightarrow> \<not> rs_flow_control st \<or> rs_interface_ready st"

definition mark_tx_started :: "rnode_state \<Rightarrow> rnode_state" where
  "mark_tx_started st = (if rs_flow_control st then st\<lparr>rs_interface_ready := False\<rparr> else st)"

fun apply_event :: "rnode_event \<Rightarrow> rnode_state \<Rightarrow> rnode_state" where
  "apply_event EvReady st = st\<lparr>rs_interface_ready := True\<rparr>"
| "apply_event (EvError err) st = st\<lparr>rs_last_error := Some err, rs_interface_ready := False\<rparr>"
| "apply_event _ st = st"

section \<open>Lemmas\<close>

lemmas validate_defs = validate_frequency_hz_def validate_bandwidth_hz_def validate_tx_power_dbm_def
  validate_spreading_factor_def validate_coding_rate_def

lemma length_4: "length xs = 4 \<Longrightarrow> \<exists>a b c d. xs = [a, b, c, d]"
  by (auto simp: numeral_eq_Suc length_Suc_conv)

lemma parse_u32_be_bytes: "parse_u32 command (be_bytes 4 (unat v)) = Ok v"
proof -
  obtain a b c d where bs: "be_bytes 4 (unat v) = [a, b, c, d]"
    using length_4 [OF length_be_bytes] by metis
  have "be_value (be_bytes 4 (unat v)) = unat v"
    using unsigned_less [where ?'a = nat, of v] by (simp add: be_value_be_bytes)
  then show ?thesis by (simp add: parse_u32_def expect_len_def get_at_def bs)
qed

text \<open>The report that echoes a configuration command; the other commands have none.\<close>

fun echoed_event :: "rnode_command \<Rightarrow> rnode_event" where
  "echoed_event (SetFrequencyHz v) = EvConfigReport (ReportFrequencyHz v)"
| "echoed_event (SetBandwidthHz v) = EvConfigReport (ReportBandwidthHz v)"
| "echoed_event (SetTxPowerDbm v) = EvConfigReport (ReportTxPowerDbm v)"
| "echoed_event (SetSpreadingFactor v) = EvConfigReport (ReportSpreadingFactor v)"
| "echoed_event (SetCodingRate v) = EvConfigReport (ReportCodingRate v)"
| "echoed_event (SetRadioState st) = EvConfigReport (ReportRadioState st)"
| "echoed_event Detect = EvUnknown RNODE_CMD_DETECT [RNODE_DETECT_REQUEST]"
| "echoed_event Leave = EvUnknown RNODE_CMD_LEAVE [RNODE_LEAVE_REQUEST]"
| "echoed_event (SetReady enabled) = EvReady"

lemma parse_command_payload:
  assumes "command_payload command = Ok (b, payload)"
  shows "parse_command_frame \<lparr>kf_command = b, kf_payload = payload\<rparr> = Ok (echoed_event command)"
proof (cases command)
  case (SetRadioState st)
  with assms show ?thesis
    by (cases st) (auto simp: parse_command_frame_def rnode_commands parse_radio_state_def
        expect_len_def get_at_def rnode_radio_bytes)
qed (use assms in \<open>auto simp: parse_command_frame_def rnode_commands parse_u32_config_def
        parse_u32_be_bytes parse_u8_config_def expect_len_def get_at_def parse_ready_def\<close>)

lemma command_payload_sendable:
  "command_payload command = Ok (b, payload) \<Longrightarrow> kiss_sendable 5 \<lparr>kf_command = b, kf_payload = payload\<rparr>"
  by (cases command) (auto simp: kiss_sendable_def kiss_constants rnode_commands)

lemma command_payload_no_panic: "command_payload command \<noteq> Panic"
  by (cases command) (auto simp: validate_defs)

text \<open>The longest command frame has a payload of four bytes, each possibly escaped.\<close>

lemma command_payload_length: "command_payload command = Ok (b, payload) \<Longrightarrow> length payload \<le> 4"
  by (cases command) auto

lemma kiss_sendable_mono: "kiss_sendable m frame \<Longrightarrow> m \<le> n \<Longrightarrow> kiss_sendable n frame"
  by (auto simp: kiss_sendable_def)

lemma length_kiss_bytes_le: "length (kiss_bytes command payload) \<le> 3 + 2 * length payload"
  using length_kiss_escaped(2) [of payload] by simp

lemma encode_command_eq:
  assumes "command_payload command = Ok (b, payload)" and "11 \<le> length out"
  shows "encode_command command out = (Ok (length (kiss_bytes b payload)),
    kiss_bytes b payload @ drop (length (kiss_bytes b payload)) out)"
proof -
  have "length (kiss_bytes b payload) \<le> 11"
    using length_kiss_bytes_le [of b payload] command_payload_length [OF assms(1)] by linarith
  moreover have "11 \<le> usize_max" by (simp add: usize_max_def)
  ultimately have "length (kiss_bytes b payload) \<le> usize_max" "length (kiss_bytes b payload) \<le> length out"
    using assms(2) by linarith+
  then show ?thesis
    by (simp add: encode_command_def assms(1) encode_command_frame_cases)
qed

section \<open>Properties\<close>

text \<open>
  Commands survive the trip through KISS. A command whose value is in range is encoded into any
  buffer of at least eleven bytes; feeding the bytes written to a fresh decoder of capacity five or
  more delivers one frame, and parsing that frame yields the report of the same setting and value
  (the modem's echo of the command), \<open>Ready\<close> for a ready command, and the uninterpreted frame
  for detect and leave. A value out of range is rejected before anything is written.\<close>

theorem rnode_command_roundtrip:
  assumes "11 \<le> length out" and "5 \<le> n"
  shows "case command_payload command of
      Ok _ \<Rightarrow> \<exists>m out' d frame. encode_command command out = (Ok m, out') \<and>
        push_bytes record_frame (take m out') (kiss_decoder_new n, []) = (Ok (), (d, [frame])) \<and>
        parse_command_frame frame = Ok (echoed_event command)
    | Err err \<Rightarrow> encode_command command out = (Err err, out)
    | Panic \<Rightarrow> False"
proof (cases "command_payload command")
  case (Ok p)
  then obtain b payload where p: "command_payload command = Ok (b, payload)" by (cases p) auto
  let ?frame = "\<lparr>kf_command = b, kf_payload = payload\<rparr>"
  have "kiss_sendable n ?frame" using kiss_sendable_mono [OF command_payload_sendable [OF p] assms(2)] .
  from push_kiss_bytes [OF kiss_decoder_new_inv(1,2) this, of "[]"] obtain d where
    "push_bytes record_frame (kiss_bytes b payload) (kiss_decoder_new n, []) = (Ok (), (d, [?frame]))"
    by (auto simp: kiss_decoder_new_inv)
  with p encode_command_eq [OF p assms(1)] parse_command_payload [OF p] show ?thesis
    by (auto simp del: length_kiss_bytes)
qed (auto simp: encode_command_def command_payload_no_panic)

theorem rnode_command_roundtrip_witness:
  "\<exists>m out' d frame. encode_command (SetTxPowerDbm 17) (replicate 11 0) = (Ok m, out') \<and>
     push_bytes record_frame (take m out') (kiss_decoder_new 5, []) = (Ok (), (d, [frame])) \<and>
     parse_command_frame frame = Ok (EvConfigReport (ReportTxPowerDbm 17))"
proof -
  have "command_payload (SetTxPowerDbm 17) = Ok (RNODE_CMD_TXPOWER, [17])"
    by (simp add: validate_tx_power_dbm_def RNODE_TX_POWER_MAX_DBM_def)
  with rnode_command_roundtrip [of "replicate 11 0" 5 "SetTxPowerDbm 17"] show ?thesis by simp
qed

text \<open>
  A host's interaction with the modem: it starts a transmission, which it may do only when
  \<open>can_transmit\<close> allows it, or applies an event.
\<close>

datatype rnode_action = StartTx | Apply rnode_event

fun rnode_run :: "rnode_action list \<Rightarrow> rnode_state \<Rightarrow> rnode_state option" where
  "rnode_run [] st = Some st"
| "rnode_run (StartTx # acts) st = (if can_transmit st then rnode_run acts (mark_tx_started st) else None)"
| "rnode_run (Apply ev # acts) st = rnode_run acts (apply_event ev st)"

lemma apply_event_flow_control [simp]: "rs_flow_control (apply_event ev st) = rs_flow_control st"
  by (cases ev) auto

lemma apply_event_ready: "rs_interface_ready (apply_event ev st) \<Longrightarrow> ev = EvReady \<or> rs_interface_ready st"
  by (cases ev) auto

lemma rnode_run_credit:
  "rnode_run acts st = Some st' \<Longrightarrow> rs_flow_control st \<Longrightarrow>
   count_list acts StartTx + of_bool (rs_interface_ready st') \<le>
   count_list acts (Apply EvReady) + of_bool (rs_interface_ready st)"
proof (induction acts st rule: rnode_run.induct)
  case (2 acts st)
  then show ?case by (fastforce simp: can_transmit_def mark_tx_started_def split: if_splits)
next
  case (3 ev acts st)
  then show ?case using apply_event_ready [of ev st]
    by (cases "ev = EvReady"; cases "rs_interface_ready (apply_event ev st)") fastforce+
qed simp

lemma rnode_run_flow_control: "rnode_run acts st = Some st' \<Longrightarrow> rs_flow_control st' = rs_flow_control st"
  by (induction acts st rule: rnode_run.induct) (auto simp: mark_tx_started_def split: if_splits)

lemma rnode_run_open: "\<not> rs_flow_control st \<Longrightarrow> \<exists>st'. rnode_run acts st = Some st'"
  by (induction acts st rule: rnode_run.induct) (auto simp: can_transmit_def mark_tx_started_def)

text \<open>
  C40. Flow control. Under flow control, in every run from a new state, the transmissions the host
  starts never outnumber the \<open>Ready\<close> events of the modem, so that each transmission has its own
  \<open>Ready\<close> and none starts before the first; without flow control no transmission is refused.\<close>

theorem rnode_flow_control:
  "if flow_control
   then \<forall>st. rnode_run acts (rnode_state_new flow_control) = Some st \<longrightarrow>
          count_list acts StartTx + of_bool (can_transmit st) \<le> count_list acts (Apply EvReady)
   else \<exists>st. rnode_run acts (rnode_state_new flow_control) = Some st"
proof (cases flow_control)
  case True
  have "count_list acts StartTx + of_bool (can_transmit st) \<le> count_list acts (Apply EvReady)"
    if run: "rnode_run acts (rnode_state_new True) = Some st" for st
  proof -
    have "rs_flow_control st" using rnode_run_flow_control [OF run] by (simp add: rnode_state_new_def)
    with rnode_run_credit [OF run] show ?thesis by (simp add: rnode_state_new_def can_transmit_def)
  qed
  with True show ?thesis by simp
next
  case False
  then show ?thesis using rnode_run_open [of "rnode_state_new False" acts] by (simp add: rnode_state_new_def)
qed

theorem rnode_flow_control_witness:
  "\<exists>st. rnode_run [Apply EvReady, StartTx, Apply EvReady] (rnode_state_new True) = Some st \<and>
     count_list [Apply EvReady, StartTx, Apply EvReady] StartTx + of_bool (can_transmit st) \<le> 2"
  using rnode_flow_control [of True "[Apply EvReady, StartTx, Apply EvReady]"]
  by (simp add: rnode_state_new_def can_transmit_def mark_tx_started_def)

lemma sint_rssi: "sint (ucast b - RNODE_RSSI_OFFSET) = uint b - 157" for b :: u8
proof -
  have less: "uint b < 256" using uint_lt2p [of b] by simp
  have "ucast b - RNODE_RSSI_OFFSET = word_of_int (uint b - 157)"
    by (simp only: RNODE_RSSI_OFFSET_def ucast_eq of_int_diff of_int_numeral)
  then have "sint (ucast b - RNODE_RSSI_OFFSET) = signed_take_bit 15 (uint b - 157)"
    by (simp only: sint_sbintrunc') simp
  also have "\<dots> = uint b - 157"
  proof (rule signed_take_bit_int_eq_self)
    have pow: "(2 :: int) ^ 15 = 32768" by simp
    show "- (2 ^ 15) \<le> uint b - 157" unfolding pow using uint_ge_0 [of b] by linarith
    show "uint b - 157 < 2 ^ 15" unfolding pow using less by linarith
  qed
  finally show ?thesis .
qed

lemma parse_u32_no_panic: "parse_u32 command payload \<noteq> Panic"
  by (auto simp: parse_u32_def expect_len_def get_at_def)

lemma parse_command_frame_no_panic: "parse_command_frame frame \<noteq> Panic"
proof -
  have "parse_u32_stat c p b \<noteq> Panic" "parse_u32_config c p b' \<noteq> Panic" for c p b b'
    using parse_u32_no_panic [of c p] by (cases "parse_u32 c p"; simp add: parse_u32_stat_def parse_u32_config_def)+
  moreover have "parse_ready p \<noteq> Panic" "parse_error c p \<noteq> Panic" "parse_firmware_version c p \<noteq> Panic"
    "parse_rssi c p \<noteq> Panic" "parse_snr c p \<noteq> Panic" "parse_u8_config c p b \<noteq> Panic" "parse_radio_state c p \<noteq> Panic"
    for c p b
    by (auto simp: parse_ready_def parse_error_def parse_firmware_version_def parse_rssi_def parse_snr_def
        parse_u8_config_def parse_radio_state_def expect_len_def get_at_def)
  ultimately show ?thesis by (simp add: parse_command_frame_def Let_def)
qed

text \<open>
  Parsing is total and keeps numbers exact. No frame makes the parser panic, and the RSSI of a
  status frame is the byte minus 157 as a signed 16-bit number, without wrap-around.\<close>

theorem parse_command_frame_total:
  "parse_command_frame frame \<noteq> Panic \<and>
   (kf_command frame = RNODE_CMD_STAT_RSSI \<longrightarrow>
     (case kf_payload frame of
        [b] \<Rightarrow> \<exists>dbm. parse_command_frame frame = Ok (EvStat (RssiDbm dbm)) \<and> sint dbm = uint b - 157
      | _ \<Rightarrow> parse_command_frame frame = Err (InvalidPayloadLength RNODE_CMD_STAT_RSSI (length (kf_payload frame)) 1)))"
proof -
  have "parse_command_frame frame = parse_rssi RNODE_CMD_STAT_RSSI (kf_payload frame)"
    if "kf_command frame = RNODE_CMD_STAT_RSSI"
    using that by (simp add: parse_command_frame_def rnode_commands)
  then show ?thesis
    using parse_command_frame_no_panic [of frame] sint_rssi
    by (auto simp: parse_rssi_def expect_len_def invalid_len_def get_at_def split: list.splits)
qed

theorem parse_command_frame_total_witness:
  "\<exists>dbm. parse_command_frame \<lparr>kf_command = RNODE_CMD_STAT_RSSI, kf_payload = [57]\<rparr> =
     Ok (EvStat (RssiDbm dbm)) \<and> sint dbm = - 100"
  using parse_command_frame_total [of "\<lparr>kf_command = RNODE_CMD_STAT_RSSI, kf_payload = [57]\<rparr>"] by simp

end
