(* ===== verification/Hyf_RNS_Crypto.thy ===== *)
theory Hyf_RNS_Crypto
  imports Hyf_Prelude
begin

text \<open>
  The crates \<open>hyf_rns_core\<close> and \<open>hyf_rns_crypto\<close>: Reticulum names and hashes, PKCS#7
  padding, encrypted tokens and single-packet encryption
  (\<open>src/crates/hyf_rns_core/src\<close>, \<open>src/crates/hyf_rns_crypto/src\<close>).

  The primitives of third-party crates (SHA-256, HKDF, HMAC, AES-CBC, Ed25519, X25519) are the
  fields of the record \<open>crypto\<close>, an argument of every definition that calls them. What the code
  relies on is stated as named predicates on that record (\<open>cipher_laws\<close>, \<open>hmac_laws\<close>,
  \<open>hkdf_laws\<close>, \<open>dh_laws\<close>, \<open>signature_laws\<close>, \<open>hash_laws\<close>): lengths, that
  decryption inverts encryption, that Diffie-Hellman commutes. No secrecy property is claimed.
  A random source is a function that fills a buffer or fails, with its own state.
\<close>

section \<open>Buffers written in place\<close>

text \<open>
  Code that writes through \<open>&mut [u8]\<close> is state passing over the buffer: \<open>on_slice i j m\<close>
  runs \<open>m\<close> on \<open>&mut buf[i..j]\<close>, \<open>write_at i src\<close> is \<open>copy_from_slice\<close>.
\<close>

definition on_slice :: "usize \<Rightarrow> usize \<Rightarrow> ('a list, 'b, 'e) stm \<Rightarrow> ('a list, 'b, 'e) stm" where
  "on_slice i j m buf =
     (if i \<le> j \<and> j \<le> length buf
      then (case m (take (j - i) (drop i buf)) of (r, part) \<Rightarrow> (r, take i buf @ part @ drop j buf))
      else (Panic, buf))"

definition write_at :: "usize \<Rightarrow> 'a list \<Rightarrow> ('a list, unit, 'e) stm" where
  "write_at i src buf =
     (case copy_at buf i src of Ok buf' \<Rightarrow> (Ok (), buf') | Err e \<Rightarrow> (Err e, buf) | Panic \<Rightarrow> (Panic, buf))"

definition peek_slice :: "usize \<Rightarrow> usize \<Rightarrow> ('a list, 'a list, 'e) stm" where
  "peek_slice i j buf = (slice buf i j, buf)"

lemma write_at_eq:
  "i + length src \<le> length buf \<Longrightarrow> write_at i src buf = (Ok (), take i buf @ src @ drop (i + length src) buf)"
  by (simp add: write_at_def copy_at_def)

section \<open>Third-party primitives\<close>

datatype token_key_kind = Aes128 | Aes256

record crypto =
  cr_sha256 :: "u8 list \<Rightarrow> u8 list"
  cr_hkdf :: "u8 list \<Rightarrow> u8 list \<Rightarrow> u8 list \<Rightarrow> usize \<Rightarrow> u8 list option"
  cr_hmac_key_ok :: "u8 list \<Rightarrow> bool"
  cr_hmac :: "u8 list \<Rightarrow> u8 list \<Rightarrow> u8 list"
  cr_hmac_verify :: "u8 list \<Rightarrow> u8 list \<Rightarrow> u8 list \<Rightarrow> bool"
  cr_cbc_encrypt :: "token_key_kind \<Rightarrow> u8 list \<Rightarrow> u8 list \<Rightarrow> u8 list \<Rightarrow> bool \<times> u8 list"
  cr_cbc_decrypt :: "token_key_kind \<Rightarrow> u8 list \<Rightarrow> u8 list \<Rightarrow> u8 list \<Rightarrow> bool \<times> u8 list"
  cr_ed_public :: "u8 list \<Rightarrow> u8 list"
  cr_ed_key_ok :: "u8 list \<Rightarrow> bool"
  cr_ed_sign :: "u8 list \<Rightarrow> u8 list \<Rightarrow> u8 list"
  cr_ed_verify :: "u8 list \<Rightarrow> u8 list \<Rightarrow> u8 list \<Rightarrow> bool"
  cr_x_public :: "u8 list \<Rightarrow> u8 list"
  cr_x_dh :: "u8 list \<Rightarrow> u8 list \<Rightarrow> u8 list"
  cr_x_contributory :: "u8 list \<Rightarrow> bool"

text \<open>\<open>rng.try_fill_bytes(&mut buf)\<close>: fills a buffer of the given length, or fails.\<close>

type_synonym 'g rng = "usize \<Rightarrow> 'g \<Rightarrow> u8 list option \<times> 'g"

definition aes_key_len :: "token_key_kind \<Rightarrow> usize" where
  "aes_key_len kind = (case kind of Aes128 \<Rightarrow> 16 | Aes256 \<Rightarrow> 32)"

definition hash_laws :: "crypto \<Rightarrow> bool" where
  "hash_laws c \<longleftrightarrow> (\<forall>m. length (cr_sha256 c m) = 32)"

definition hkdf_laws :: "crypto \<Rightarrow> bool" where
  "hkdf_laws c \<longleftrightarrow> (\<forall>salt ikm info n. n \<le> 255 * 32 \<longrightarrow>
     (\<exists>okm. cr_hkdf c salt ikm info n = Some okm \<and> length okm = n))"

definition hmac_laws :: "crypto \<Rightarrow> bool" where
  "hmac_laws c \<longleftrightarrow> (\<forall>key m. cr_hmac_key_ok c key \<and> length (cr_hmac c key m) = 32 \<and>
     (\<forall>tag. cr_hmac_verify c key m tag \<longleftrightarrow> tag = cr_hmac c key m))"

definition cipher_laws :: "crypto \<Rightarrow> bool" where
  "cipher_laws c \<longleftrightarrow>
     (\<forall>kind key iv buf. length (snd (cr_cbc_decrypt c kind key iv buf)) = length buf) \<and>
     (\<forall>kind key iv buf. length key = aes_key_len kind \<longrightarrow> length iv = 16 \<longrightarrow> length buf mod 16 = 0 \<longrightarrow>
     (\<exists>enc. cr_cbc_encrypt c kind key iv buf = (True, enc) \<and> length enc = length buf \<and>
            cr_cbc_decrypt c kind key iv enc = (True, buf)))"

definition dh_laws :: "crypto \<Rightarrow> bool" where
  "dh_laws c \<longleftrightarrow> (\<forall>a b. length (cr_x_public c a) = 32 \<and> length (cr_x_dh c a b) = 32 \<and>
     cr_x_dh c a (cr_x_public c b) = cr_x_dh c b (cr_x_public c a))"

definition signature_laws :: "crypto \<Rightarrow> bool" where
  "signature_laws c \<longleftrightarrow> (\<forall>secret m. length (cr_ed_sign c secret m) = 64 \<and>
     length (cr_ed_public c secret) = 32 \<and> cr_ed_key_ok c (cr_ed_public c secret) \<and>
     cr_ed_verify c (cr_ed_public c secret) m (cr_ed_sign c secret m))"

section \<open>Names and hashes\<close>

definition RNS_MTU :: usize where "RNS_MTU = 500"
definition RNS_TRUNCATED_HASH_LEN :: usize where "RNS_TRUNCATED_HASH_LEN = 16"
definition RNS_NAME_HASH_LEN :: usize where "RNS_NAME_HASH_LEN = 10"
definition RNS_HEADER_1_LEN :: usize where "RNS_HEADER_1_LEN = 19"
definition RNS_HEADER_2_LEN :: usize where "RNS_HEADER_2_LEN = 35"

lemmas rns_lengths = RNS_MTU_def RNS_TRUNCATED_HASH_LEN_def RNS_NAME_HASH_LEN_def
  RNS_HEADER_1_LEN_def RNS_HEADER_2_LEN_def

datatype rns_core_error = DestinationAppNameContainsDot | DestinationAspectContainsDot

definition dot :: u8 where "dot = 46"

text \<open>A \<open>&str\<close> is its UTF-8 bytes; \<open>contains('.')\<close> looks for the byte of the dot.\<close>

fun aspects_ok :: "u8 list list \<Rightarrow> (unit, rns_core_error) result" where
  "aspects_ok [] = Ok ()"
| "aspects_ok (aspect # aspects) =
     (if dot \<in> set aspect then Err DestinationAspectContainsDot else aspects_ok aspects)"

definition validate_destination_name :: "u8 list \<Rightarrow> u8 list list \<Rightarrow> (unit, rns_core_error) result" where
  "validate_destination_name app_name aspects =
     (if dot \<in> set app_name then Err DestinationAppNameContainsDot else aspects_ok aspects)"

definition full_hash :: "crypto \<Rightarrow> u8 list \<Rightarrow> u8 list" where
  "full_hash c data = cr_sha256 c data"

definition truncated_hash :: "crypto \<Rightarrow> u8 list \<Rightarrow> (u8 list, 'e) result" where
  "truncated_hash c data = slice_to (full_hash c data) RNS_TRUNCATED_HASH_LEN"

definition name_hash_input :: "u8 list \<Rightarrow> u8 list list \<Rightarrow> u8 list" where
  "name_hash_input app_name aspects = app_name @ concat (map (\<lambda>aspect. dot # aspect) aspects)"

definition destination_name_hash :: "crypto \<Rightarrow> u8 list \<Rightarrow> u8 list list \<Rightarrow> (u8 list, rns_core_error) result" where
  "destination_name_hash c app_name aspects =
     rbind (validate_destination_name app_name aspects) (\<lambda>_.
       slice_to (cr_sha256 c (name_hash_input app_name aspects)) RNS_NAME_HASH_LEN)"

definition destination_hash :: "crypto \<Rightarrow> u8 list \<Rightarrow> u8 list option \<Rightarrow> (u8 list, 'e) result" where
  "destination_hash c name_hash identity_hash =
     slice_to (cr_sha256 c (name_hash @ (case identity_hash of None \<Rightarrow> [] | Some h \<Rightarrow> h))) RNS_TRUNCATED_HASH_LEN"

section \<open>Errors\<close>

datatype rns_crypto_error =
    CryptoInvalidPublicIdentity
  | InvalidSecretIdentity
  | CryptoInvalidSignature
  | EmptyHkdfOutput
  | EmptyHkdfInputKeyMaterial
  | InvalidHkdfLength
  | LengthOverflow
  | CryptoOutputBufferTooShort usize usize
  | InvalidPadding
  | InvalidToken
  | InvalidTokenKeyLength usize
  | AuthenticationFailed
  | CryptoRandomSourceFailed
  | CipherFailed

section \<open>Key derivation, identities and signatures\<close>

definition rns_hkdf_sha256 ::
  "crypto \<Rightarrow> u8 list \<Rightarrow> u8 list option \<Rightarrow> u8 list option \<Rightarrow> (u8 list, unit, rns_crypto_error) stm" where
  "rns_hkdf_sha256 c input_key_material salt context output =
     (if output = [] then (Err EmptyHkdfOutput, output)
      else if input_key_material = [] then (Err EmptyHkdfInputKeyMaterial, output)
      else
        let salt' = (case salt of None \<Rightarrow> replicate 32 0 | Some [] \<Rightarrow> replicate 32 0 | Some s \<Rightarrow> s);
            context' = (case context of None \<Rightarrow> [] | Some x \<Rightarrow> x) in
        case cr_hkdf c salt' input_key_material context' (length output) of
          Some okm \<Rightarrow> (Ok (), okm)
        | None \<Rightarrow> (Err InvalidHkdfLength, output))"

definition RNS_IDENTITY_KEY_LEN :: usize where "RNS_IDENTITY_KEY_LEN = 32"
definition RNS_PUBLIC_IDENTITY_LEN :: usize where "RNS_PUBLIC_IDENTITY_LEN = 64"

record rns_public_identity =
  x25519_public :: "u8 list"
  ed25519_public :: "u8 list"

record rns_secret_identity =
  x25519_secret :: "u8 list"
  ed25519_secret :: "u8 list"

definition public_identity :: "crypto \<Rightarrow> rns_secret_identity \<Rightarrow> (rns_public_identity, rns_crypto_error) result" where
  "public_identity c identity =
     Ok \<lparr>x25519_public = cr_x_public c (x25519_secret identity),
         ed25519_public = cr_ed_public c (ed25519_secret identity)\<rparr>"

definition public_identity_from_bytes :: "crypto \<Rightarrow> u8 list \<Rightarrow> (rns_public_identity, rns_crypto_error) result" where
  "public_identity_from_bytes c bytes =
     rbind (slice_to bytes RNS_IDENTITY_KEY_LEN) (\<lambda>x.
     rbind (slice_from bytes RNS_IDENTITY_KEY_LEN) (\<lambda>ed.
       if cr_ed_key_ok c ed then Ok \<lparr>x25519_public = x, ed25519_public = ed\<rparr>
       else Err CryptoInvalidPublicIdentity))"

definition secret_identity_from_bytes :: "u8 list \<Rightarrow> (rns_secret_identity, rns_crypto_error) result" where
  "secret_identity_from_bytes bytes =
     rbind (slice_to bytes RNS_IDENTITY_KEY_LEN) (\<lambda>x.
     rbind (slice_from bytes RNS_IDENTITY_KEY_LEN) (\<lambda>ed.
       Ok \<lparr>x25519_secret = x, ed25519_secret = ed\<rparr>))"

definition public_identity_to_bytes :: "rns_public_identity \<Rightarrow> u8 list" where
  "public_identity_to_bytes identity = x25519_public identity @ ed25519_public identity"

definition identity_hash :: "crypto \<Rightarrow> rns_public_identity \<Rightarrow> (u8 list, 'e) result" where
  "identity_hash c identity = truncated_hash c (public_identity_to_bytes identity)"

definition sign :: "crypto \<Rightarrow> rns_secret_identity \<Rightarrow> u8 list \<Rightarrow> (u8 list, rns_crypto_error) result" where
  "sign c identity message = Ok (cr_ed_sign c (ed25519_secret identity) message)"

definition verify :: "crypto \<Rightarrow> rns_public_identity \<Rightarrow> u8 list \<Rightarrow> u8 list \<Rightarrow> (unit, rns_crypto_error) result" where
  "verify c identity message signature =
     (if \<not> cr_ed_key_ok c (ed25519_public identity) then Err CryptoInvalidPublicIdentity
      else if cr_ed_verify c (ed25519_public identity) message signature then Ok ()
      else Err CryptoInvalidSignature)"

section \<open>PKCS#7 padding\<close>

definition PKCS7_BLOCK_LEN :: usize where "PKCS7_BLOCK_LEN = 16"

definition pkcs7_padded_len :: "usize \<Rightarrow> (usize, rns_crypto_error) result" where
  "pkcs7_padded_len input_len =
     (let padding_len = PKCS7_BLOCK_LEN - input_len mod PKCS7_BLOCK_LEN in
      ok_or LengthOverflow (checked_add input_len padding_len))"

definition pkcs7_pad :: "u8 list \<Rightarrow> (u8 list, usize, rns_crypto_error) stm" where
  "pkcs7_pad input =
     sbind (slift (pkcs7_padded_len (length input))) (\<lambda>padded_len out.
       if length out < padded_len then (Err (CryptoOutputBufferTooShort (length out) padded_len), out)
       else
         sbind (write_at 0 input) (\<lambda>_.
         let padding_len = padded_len - length input in
         sbind (on_slice (length input) padded_len (\<lambda>part. (Ok (), replicate (length part) (word_of_nat padding_len)))) (\<lambda>_.
           sret padded_len)) out)"

definition pkcs7_unpad :: "u8 list \<Rightarrow> (u8 list, rns_crypto_error) result" where
  "pkcs7_unpad input =
     (if input = [] \<or> length input mod PKCS7_BLOCK_LEN \<noteq> 0 then Err InvalidPadding
      else rbind (get_at input (length input - 1)) (\<lambda>last_byte.
        let padding_len = unat last_byte in
        if padding_len = 0 \<or> PKCS7_BLOCK_LEN < padding_len \<or> length input < padding_len then Err InvalidPadding
        else
          let padding_start = length input - padding_len in
          rbind (slice_from input padding_start) (\<lambda>padding.
            if list_ex (\<lambda>byte. unat byte \<noteq> padding_len) padding then Err InvalidPadding
            else slice_to input padding_start)))"

section \<open>Tokens\<close>

definition RNS_TOKEN_IV_LEN :: usize where "RNS_TOKEN_IV_LEN = 16"
definition RNS_TOKEN_HMAC_LEN :: usize where "RNS_TOKEN_HMAC_LEN = 32"
definition RNS_TOKEN_OVERHEAD :: usize where "RNS_TOKEN_OVERHEAD = RNS_TOKEN_IV_LEN + RNS_TOKEN_HMAC_LEN"

lemmas token_lengths = RNS_TOKEN_OVERHEAD_def RNS_TOKEN_IV_LEN_def RNS_TOKEN_HMAC_LEN_def PKCS7_BLOCK_LEN_def

record token_keys =
  tk_kind :: token_key_kind
  tk_key_len :: usize
  tk_signing_key :: "u8 list"
  tk_encryption_key :: "u8 list"

definition token_keys_split :: "u8 list \<Rightarrow> (token_keys, rns_crypto_error) result" where
  "token_keys_split key =
     (if length key = 32 then
        Ok \<lparr>tk_kind = Aes128, tk_key_len = 16,
            tk_signing_key = take 16 key @ replicate 16 0, tk_encryption_key = drop 16 key @ replicate 16 0\<rparr>
      else if length key = 64 then
        Ok \<lparr>tk_kind = Aes256, tk_key_len = 32,
            tk_signing_key = take 32 key, tk_encryption_key = drop 32 key\<rparr>
      else Err (InvalidTokenKeyLength (length key)))"

definition signing_key :: "token_keys \<Rightarrow> (u8 list, rns_crypto_error) result" where
  "signing_key keys = slice_to (tk_signing_key keys) (tk_key_len keys)"

definition encryption_key :: "token_keys \<Rightarrow> (u8 list, rns_crypto_error) result" where
  "encryption_key keys = slice_to (tk_encryption_key keys) (tk_key_len keys)"

definition token_len_for_ciphertext :: "usize \<Rightarrow> (usize, rns_crypto_error) result" where
  "token_len_for_ciphertext ciphertext_len = ok_or LengthOverflow (checked_add RNS_TOKEN_OVERHEAD ciphertext_len)"

definition hmac_sha256 :: "crypto \<Rightarrow> u8 list \<Rightarrow> u8 list \<Rightarrow> (u8 list, rns_crypto_error) result" where
  "hmac_sha256 c key message = (if cr_hmac_key_ok c key then Ok (cr_hmac c key message) else Err CipherFailed)"

definition verify_hmac_sha256 :: "crypto \<Rightarrow> u8 list \<Rightarrow> u8 list \<Rightarrow> u8 list \<Rightarrow> (unit, rns_crypto_error) result" where
  "verify_hmac_sha256 c key message tag =
     (if \<not> cr_hmac_key_ok c key then Err CipherFailed
      else if cr_hmac_verify c key message tag then Ok () else Err AuthenticationFailed)"

definition encrypt_cbc :: "crypto \<Rightarrow> token_keys \<Rightarrow> u8 list \<Rightarrow> (u8 list, unit, rns_crypto_error) stm" where
  "encrypt_cbc c keys iv =
     sbind (slift (encryption_key keys)) (\<lambda>key buffer.
       case cr_cbc_encrypt c (tk_kind keys) key iv buffer of
         (True, buffer') \<Rightarrow> (Ok (), buffer') | (False, buffer') \<Rightarrow> (Err CipherFailed, buffer'))"

definition decrypt_cbc :: "crypto \<Rightarrow> token_keys \<Rightarrow> u8 list \<Rightarrow> (u8 list, unit, rns_crypto_error) stm" where
  "decrypt_cbc c keys iv =
     sbind (slift (encryption_key keys)) (\<lambda>key buffer.
       case cr_cbc_decrypt c (tk_kind keys) key iv buffer of
         (True, buffer') \<Rightarrow> (Ok (), buffer') | (False, buffer') \<Rightarrow> (Err CipherFailed, buffer'))"

definition token_encrypt_with_iv ::
  "crypto \<Rightarrow> u8 list \<Rightarrow> u8 list \<Rightarrow> u8 list \<Rightarrow> (u8 list, usize, rns_crypto_error) stm" where
  "token_encrypt_with_iv c key plaintext iv =
     sbind (slift (token_keys_split key)) (\<lambda>keys.
     sbind (slift (pkcs7_padded_len (length plaintext))) (\<lambda>ciphertext_len.
     sbind (slift (token_len_for_ciphertext ciphertext_len)) (\<lambda>required out.
       if length out < required then (Err (CryptoOutputBufferTooShort (length out) required), out)
       else
         let ciphertext_start = RNS_TOKEN_IV_LEN; ciphertext_end = ciphertext_start + ciphertext_len in
         sbind (write_at 0 iv) (\<lambda>_.
         sbind (on_slice ciphertext_start ciphertext_end (pkcs7_pad plaintext)) (\<lambda>padded_len.
         sbind (on_slice ciphertext_start ciphertext_end (encrypt_cbc c keys iv)) (\<lambda>_.
         sbind (slift (signing_key keys)) (\<lambda>mac_key.
         sbind (peek_slice 0 ciphertext_end) (\<lambda>signed.
         sbind (slift (hmac_sha256 c mac_key signed)) (\<lambda>tag.
         sbind (write_at ciphertext_end tag) (\<lambda>_. sret required))))))) out)))"

definition token_encrypt ::
  "crypto \<Rightarrow> 'g rng \<Rightarrow> u8 list \<Rightarrow> u8 list \<Rightarrow> ('g \<times> u8 list, usize, rns_crypto_error) stm" where
  "token_encrypt c rng key plaintext = (\<lambda>(g, out).
     case rng RNS_TOKEN_IV_LEN g of
       (None, g') \<Rightarrow> (Err CryptoRandomSourceFailed, (g', out))
     | (Some iv, g') \<Rightarrow>
         (case token_encrypt_with_iv c key plaintext iv out of (r, out') \<Rightarrow> (r, (g', out'))))"

definition zeroize :: "usize \<Rightarrow> usize \<Rightarrow> (u8 list, unit, 'e) stm" where
  "zeroize i j = on_slice i j (\<lambda>part. (Ok (), replicate (length part) 0))"

text \<open>\<open>token_decrypt\<close> after the tag has been checked (from the length check of \<open>out\<close> on).\<close>

definition token_open :: "crypto \<Rightarrow> token_keys \<Rightarrow> u8 list \<Rightarrow> (u8 list, usize, rns_crypto_error) stm" where
  "token_open c keys token out =
     (let ciphertext_len = length token - RNS_TOKEN_OVERHEAD; tag_start = length token - RNS_TOKEN_HMAC_LEN in
      if length out < ciphertext_len then (Err (CryptoOutputBufferTooShort (length out) ciphertext_len), out)
      else
        sbind (slift (slice_to token RNS_TOKEN_IV_LEN)) (\<lambda>iv.
        sbind (slift (slice token RNS_TOKEN_IV_LEN tag_start)) (\<lambda>ciphertext.
        sbind (write_at 0 ciphertext) (\<lambda>_ out1.
          case on_slice 0 ciphertext_len (decrypt_cbc c keys iv) out1 of
            (Err error, out2) \<Rightarrow> sbind (zeroize 0 ciphertext_len) (\<lambda>_. sthrow error) out2
          | (Panic, out2) \<Rightarrow> (Panic, out2)
          | (Ok _, out2) \<Rightarrow>
              (case pkcs7_unpad (take ciphertext_len out2) of
                 Err error \<Rightarrow> sbind (zeroize 0 ciphertext_len) (\<lambda>_. sthrow error) out2
               | Panic \<Rightarrow> (Panic, out2)
               | Ok plaintext \<Rightarrow>
                   sbind (zeroize (length plaintext) ciphertext_len) (\<lambda>_. sret (length plaintext)) out2)))) out)"

definition token_decrypt :: "crypto \<Rightarrow> u8 list \<Rightarrow> u8 list \<Rightarrow> (u8 list, usize, rns_crypto_error) stm" where
  "token_decrypt c key token =
     sbind (slift (token_keys_split key)) (\<lambda>keys.
     if length token \<le> RNS_TOKEN_OVERHEAD then sthrow InvalidToken
     else
       let ciphertext_len = length token - RNS_TOKEN_OVERHEAD in
       if ciphertext_len mod RNS_TOKEN_IV_LEN \<noteq> 0 then sthrow InvalidToken
       else
         let tag_start = length token - RNS_TOKEN_HMAC_LEN in
         sbind (slift (signing_key keys)) (\<lambda>mac_key.
         sbind (slift (slice_to token tag_start)) (\<lambda>signed.
         sbind (slift (slice_from token tag_start)) (\<lambda>tag.
         sbind (slift (verify_hmac_sha256 c mac_key signed tag)) (\<lambda>_. token_open c keys token)))))"

section \<open>Single-packet encryption\<close>

definition RNS_SINGLE_PACKET_EPHEMERAL_PUBLIC_LEN :: usize where
  "RNS_SINGLE_PACKET_EPHEMERAL_PUBLIC_LEN = RNS_IDENTITY_KEY_LEN"
definition RNS_SINGLE_PACKET_DERIVED_KEY_LEN :: usize where "RNS_SINGLE_PACKET_DERIVED_KEY_LEN = 64"

record rns_decrypt_outcome =
  do_plaintext :: "u8 list"
  do_ratchet_index :: "usize option"

definition derive_token_key :: "crypto \<Rightarrow> u8 list \<Rightarrow> rns_public_identity \<Rightarrow> (u8 list, rns_crypto_error) result" where
  "derive_token_key c shared recipient =
     (if \<not> cr_x_contributory c shared then Err CryptoInvalidPublicIdentity
      else rbind (identity_hash c recipient) (\<lambda>salt.
        case rns_hkdf_sha256 c shared (Some salt) None (replicate RNS_SINGLE_PACKET_DERIVED_KEY_LEN 0) of
          (Ok _, key) \<Rightarrow> Ok key
        | (Err error, key) \<Rightarrow> Err error
        | (Panic, key) \<Rightarrow> Panic))"

definition single_packet_len_for_plaintext :: "usize \<Rightarrow> (usize, rns_crypto_error) result" where
  "single_packet_len_for_plaintext plaintext_len =
     rbind (pkcs7_padded_len plaintext_len) (\<lambda>token_ciphertext_len.
     rbind (ok_or LengthOverflow (checked_add RNS_TOKEN_OVERHEAD token_ciphertext_len)) (\<lambda>token_len.
       ok_or LengthOverflow (checked_add RNS_SINGLE_PACKET_EPHEMERAL_PUBLIC_LEN token_len)))"

text \<open>The token encryptor is the closure over the random source, whose state it threads.\<close>

definition encrypt_with_secret ::
  "crypto \<Rightarrow> rns_public_identity \<Rightarrow> u8 list \<Rightarrow> u8 list \<Rightarrow>
   (u8 list \<Rightarrow> u8 list \<Rightarrow> ('g \<times> u8 list, usize, rns_crypto_error) stm) \<Rightarrow>
   ('g \<times> u8 list, usize, rns_crypto_error) stm" where
  "encrypt_with_secret c recipient plaintext ephemeral_secret token_encryptor = (\<lambda>(g, out).
     case single_packet_len_for_plaintext (length plaintext) of
       Err error \<Rightarrow> (Err error, (g, out))
     | Panic \<Rightarrow> (Panic, (g, out))
     | Ok required \<Rightarrow>
         if length out < required then (Err (CryptoOutputBufferTooShort (length out) required), (g, out))
         else
           let ephemeral_public = cr_x_public c ephemeral_secret;
               shared = cr_x_dh c ephemeral_secret (x25519_public recipient) in
           (case derive_token_key c shared recipient of
              Err error \<Rightarrow> (Err error, (g, out))
            | Panic \<Rightarrow> (Panic, (g, out))
            | Ok key \<Rightarrow>
                (case (write_at 0 ephemeral_public out :: (unit, rns_crypto_error) result \<times> u8 list) of
                   (Ok _, out1) \<Rightarrow>
                     let start = RNS_SINGLE_PACKET_EPHEMERAL_PUBLIC_LEN in
                     (case token_encryptor key plaintext (g, take (required - start) (drop start out1)) of
                        (r, (g', part)) \<Rightarrow>
                          (rbind r (\<lambda>token_len. Ok (start + token_len)),
                           (g', take start out1 @ part @ drop required out1)))
                 | (_, out1) \<Rightarrow> (Panic, (g, out1)))))"

definition encrypt_for_identity ::
  "crypto \<Rightarrow> 'g rng \<Rightarrow> rns_public_identity \<Rightarrow> u8 list \<Rightarrow> ('g \<times> u8 list, usize, rns_crypto_error) stm" where
  "encrypt_for_identity c rng recipient plaintext = (\<lambda>(g, out).
     case rng RNS_IDENTITY_KEY_LEN g of
       (None, g') \<Rightarrow> (Err CryptoRandomSourceFailed, (g', out))
     | (Some ephemeral_secret, g') \<Rightarrow>
         encrypt_with_secret c recipient plaintext ephemeral_secret (token_encrypt c rng) (g', out))"

definition decrypt_with_secret_len ::
  "crypto \<Rightarrow> u8 list \<Rightarrow> rns_public_identity \<Rightarrow> u8 list \<Rightarrow> u8 list \<Rightarrow> (u8 list, usize, rns_crypto_error) stm" where
  "decrypt_with_secret_len c secret recipient ephemeral_public token =
     sbind (slift (derive_token_key c (cr_x_dh c secret ephemeral_public) recipient)) (\<lambda>key.
       token_decrypt c key token)"

text \<open>The loop over the ratchets: \<open>Ok None\<close> when every one fails to authenticate.\<close>

fun try_ratchets ::
  "crypto \<Rightarrow> rns_public_identity \<Rightarrow> u8 list \<Rightarrow> u8 list \<Rightarrow> usize \<Rightarrow> u8 list list \<Rightarrow>
   (u8 list, rns_decrypt_outcome option, rns_crypto_error) stm" where
  "try_ratchets c recipient ephemeral_public token index [] out = (Ok None, out)"
| "try_ratchets c recipient ephemeral_public token index (ratchet # ratchets) out =
     (case decrypt_with_secret_len c ratchet recipient ephemeral_public token out of
        (Ok plaintext_len, out') \<Rightarrow>
          (rbind (slice_to out' plaintext_len) (\<lambda>plaintext.
             Ok (Some \<lparr>do_plaintext = plaintext, do_ratchet_index = Some index\<rparr>)), out')
      | (Err AuthenticationFailed, out') \<Rightarrow>
          try_ratchets c recipient ephemeral_public token (index + 1) ratchets out'
      | (Err error, out') \<Rightarrow> (Err error, out')
      | (Panic, out') \<Rightarrow> (Panic, out'))"

definition decrypt_for_identity ::
  "crypto \<Rightarrow> rns_secret_identity \<Rightarrow> u8 list \<Rightarrow> u8 list list \<Rightarrow> bool \<Rightarrow>
   (u8 list, rns_decrypt_outcome, rns_crypto_error) stm" where
  "decrypt_for_identity c recipient ciphertext_token ratchets enforce_ratchets =
     (if length ciphertext_token \<le> RNS_SINGLE_PACKET_EPHEMERAL_PUBLIC_LEN then sthrow InvalidToken
      else
        sbind (slift (public_identity c recipient)) (\<lambda>recipient_public.
        sbind (slift (slice_to ciphertext_token RNS_SINGLE_PACKET_EPHEMERAL_PUBLIC_LEN)) (\<lambda>ephemeral_public.
        sbind (slift (slice_from ciphertext_token RNS_SINGLE_PACKET_EPHEMERAL_PUBLIC_LEN)) (\<lambda>token.
        sbind (try_ratchets c recipient_public ephemeral_public token 0 ratchets) (\<lambda>found.
          case found of
            Some outcome \<Rightarrow> sret outcome
          | None \<Rightarrow>
              if enforce_ratchets then sthrow AuthenticationFailed
              else
                sbind (decrypt_with_secret_len c (x25519_secret recipient) recipient_public ephemeral_public token)
                  (\<lambda>plaintext_len out.
                    (rbind (slice_to out plaintext_len) (\<lambda>plaintext.
                       Ok \<lparr>do_plaintext = plaintext, do_ratchet_index = None\<rparr>), out)))))))"

section \<open>Padding\<close>

definition pkcs7_padding :: "u8 list \<Rightarrow> u8 list" where
  "pkcs7_padding xs = (let k = 16 - length xs mod 16 in replicate k (word_of_nat k))"

abbreviation padded :: "u8 list \<Rightarrow> u8 list" where
  "padded xs \<equiv> xs @ pkcs7_padding xs"

lemma length_pkcs7_padding: "length (pkcs7_padding xs) = 16 - length xs mod 16"
  by (simp add: pkcs7_padding_def Let_def)

lemma padded_multiple: "(length xs + (16 - length xs mod 16)) mod 16 = 0" for xs :: "'a list"
proof -
  have "length xs + (16 - length xs mod 16) = 16 * (length xs div 16 + 1)"
    by (smt (verit, ccfv_threshold) add_mult_distrib2 div_mult_mod_eq le_add_diff_inverse2 less_or_eq_imp_le
        mod_less_divisor mult.commute nat_mult_1_right add.assoc add.commute zero_less_numeral)
  then show ?thesis by simp
qed

lemma unat_word_of_nat_small: "k \<le> 16 \<Longrightarrow> unat (word_of_nat k :: u8) = k"
  by (simp add: unat_of_nat)

lemma pkcs7_padded_len_eq:
  "pkcs7_padded_len (length xs) =
     (if length (padded xs) \<le> usize_max then Ok (length (padded xs)) else Err LengthOverflow)"
  by (simp add: pkcs7_padded_len_def PKCS7_BLOCK_LEN_def length_pkcs7_padding checked_add_def Let_def)

lemma pkcs7_pad_eq:
  assumes "length (padded xs) \<le> usize_max" and "length (padded xs) \<le> length out"
  shows "pkcs7_pad xs out = (Ok (length (padded xs)), padded xs @ drop (length (padded xs)) out)"
proof -
  define k where "k = 16 - length xs mod 16"
  have pad: "pkcs7_padding xs = replicate k (word_of_nat k)" by (simp add: pkcs7_padding_def k_def Let_def)
  have len: "length xs + k \<le> length out" "length xs + k \<le> usize_max" using assms by (simp_all add: pad)
  show ?thesis
    using len by (simp add: pkcs7_pad_def sbind_def slift_def sret_def pkcs7_padded_len_eq pad write_at_eq on_slice_def Let_def add.commute)
qed

lemma pkcs7_unpad_padded: "pkcs7_unpad (padded p) = Ok p"
proof -
  define k where "k = 16 - length p mod 16"
  have pad: "pkcs7_padding p = replicate k (word_of_nat k)" by (simp add: pkcs7_padding_def k_def Let_def)
  have k: "0 < k" "k \<le> 16" by (auto simp: k_def)
  then have last: "(p @ replicate k (word_of_nat k)) ! (length p + k - 1) = (word_of_nat k :: u8)"
    using nth_append_length_plus [of p "replicate k (word_of_nat k)" "k - 1"] by (simp del: nth_append_length_plus)
  have "(length p + k) mod 16 = 0" using padded_multiple [of p] by (simp add: k_def)
  with k last show ?thesis
    by (simp add: pkcs7_unpad_def pad PKCS7_BLOCK_LEN_def get_at_def slice_from_def slice_to_def
        unat_word_of_nat_small Let_def list_ex_iff)
qed

lemma pkcs7_unpad_Ok:
  assumes "pkcs7_unpad input = Ok p"
  shows "input = padded p"
proof -
  define k where "k = unat (input ! (length input - 1))"
  let ?n = "length input - k"
  have "pkcs7_unpad input =
      (if input = [] \<or> length input mod 16 \<noteq> 0 then Err InvalidPadding
       else if k = 0 \<or> 16 < k \<or> length input < k then Err InvalidPadding
       else if \<exists>b \<in> set (drop ?n input). unat b \<noteq> k then Err InvalidPadding
       else Ok (take ?n input))"
  proof (cases "input = [] \<or> length input mod 16 \<noteq> 0")
    case False
    then have "get_at input (length input - 1) = (Ok (input ! (length input - 1)) :: (u8, rns_crypto_error) result)"
      by (cases input) (simp_all add: get_at_def)
    with False show ?thesis
      unfolding pkcs7_unpad_def PKCS7_BLOCK_LEN_def Let_def
      by (simp only: if_False rbind.simps k_def [symmetric] slice_from_def slice_to_def list_ex_iff diff_le_self if_True)
  qed (simp add: pkcs7_unpad_def PKCS7_BLOCK_LEN_def)
  with assms have k: "0 < k" "k \<le> 16" "k \<le> length input" and m: "length input mod 16 = 0"
    and p: "p = take ?n input" and all: "\<And>b. b \<in> set (drop ?n input) \<Longrightarrow> unat b = k"
    by (simp_all split: if_splits)
  have "drop ?n input = replicate k (word_of_nat k)"
  proof (rule replicate_eqI)
    show "length (drop ?n input) = k" using k by simp
    show "b = word_of_nat k" if "b \<in> set (drop ?n input)" for b
      using all [OF that] by (metis of_nat_unat ucast_id)
  qed
  moreover have "16 - ?n mod 16 = k"
  proof -
    obtain q where q: "length input = 16 * q" using m by (metis mod_0_imp_dvd dvdE)
    then have "?n = 16 * (q - 1) + (16 - k)" using k by (cases q) auto
    then have "?n mod 16 = (16 - k) mod 16" by simp
    also have "\<dots> = 16 - k" using k by (intro mod_less) simp
    finally show ?thesis using k by simp
  qed
  ultimately have "pkcs7_padding p = drop ?n input" using k by (simp add: pkcs7_padding_def p Let_def)
  then show ?thesis unfolding p by (metis append_take_drop_id)
qed

lemma pkcs7_unpad_iff: "pkcs7_unpad input = Ok p \<longleftrightarrow> input = padded p"
  using pkcs7_unpad_Ok pkcs7_unpad_padded by blast

lemma pkcs7_unpad_no_panic: "pkcs7_unpad input \<noteq> Panic"
  by (auto simp: pkcs7_unpad_def get_at_def slice_from_def slice_to_def Let_def)

section \<open>Tokens round trip\<close>

lemma token_keys_split_Ok:
  assumes "length key = 32 \<or> length key = 64"
  obtains keys mk ek where "token_keys_split key = Ok keys" "signing_key keys = Ok mk" "encryption_key keys = Ok ek"
    "length ek = aes_key_len (tk_kind keys)"
  using assms by (auto simp: token_keys_split_def signing_key_def encryption_key_def slice_to_def aes_key_len_def)

text \<open>The bytes of a token: the vector, the ciphertext, and the tag over both.\<close>

definition token_bytes :: "crypto \<Rightarrow> token_key_kind \<Rightarrow> u8 list \<Rightarrow> u8 list \<Rightarrow> u8 list \<Rightarrow> u8 list \<Rightarrow> u8 list" where
  "token_bytes c kind mk ek iv plaintext =
     (let body = iv @ snd (cr_cbc_encrypt c kind ek iv (padded plaintext)) in body @ cr_hmac c mk body)"

lemma length_padded_mod: "length (padded xs) mod 16 = 0"
  using padded_multiple [of xs] by (simp add: length_pkcs7_padding)

lemma cipher_lawsD:
  assumes "cipher_laws c" "length key = aes_key_len kind" "length iv = 16" "length buf mod 16 = 0"
  shows "cr_cbc_encrypt c kind key iv buf = (True, snd (cr_cbc_encrypt c kind key iv buf))"
    "length (snd (cr_cbc_encrypt c kind key iv buf)) = length buf"
    "cr_cbc_decrypt c kind key iv (snd (cr_cbc_encrypt c kind key iv buf)) = (True, buf)"
proof -
  obtain enc where "cr_cbc_encrypt c kind key iv buf = (True, enc)" "length enc = length buf"
    "cr_cbc_decrypt c kind key iv enc = (True, buf)"
    using assms unfolding cipher_laws_def by metis
  then show "cr_cbc_encrypt c kind key iv buf = (True, snd (cr_cbc_encrypt c kind key iv buf))"
    "length (snd (cr_cbc_encrypt c kind key iv buf)) = length buf"
    "cr_cbc_decrypt c kind key iv (snd (cr_cbc_encrypt c kind key iv buf)) = (True, buf)" by simp_all
qed

lemma length_token_bytes:
  assumes "cipher_laws c" "hmac_laws c" "length ek = aes_key_len kind" "length iv = 16"
  shows "length (token_bytes c kind mk ek iv plaintext) = 48 + length (padded plaintext)"
  using assms cipher_lawsD(2) [OF assms(1,3,4) length_padded_mod, of plaintext]
  by (simp add: token_bytes_def hmac_laws_def Let_def)

lemma token_encrypt_with_iv_eq:
  assumes laws: "cipher_laws c" "hmac_laws c" and iv: "length iv = 16"
    and keys: "token_keys_split key = Ok keys" "signing_key keys = Ok mk" "encryption_key keys = Ok ek"
      "length ek = aes_key_len (tk_kind keys)"
    and room: "48 + length (padded plaintext) \<le> usize_max" "48 + length (padded plaintext) \<le> length out"
  shows "token_encrypt_with_iv c key plaintext iv out =
    (Ok (48 + length (padded plaintext)),
     token_bytes c (tk_kind keys) mk ek iv plaintext @ drop (48 + length (padded plaintext)) out)"
proof -
  define n where "n = length (padded plaintext)"
  define enc where "enc = snd (cr_cbc_encrypt c (tk_kind keys) ek iv (padded plaintext))"
  have enc: "cr_cbc_encrypt c (tk_kind keys) ek iv (padded plaintext) = (True, enc)" "length enc = n"
    using cipher_lawsD [OF laws(1) keys(4) iv length_padded_mod, of plaintext] by (simp_all add: enc_def n_def)
  have tag: "cr_hmac_key_ok c mk" "length (cr_hmac c mk m) = 32" for m using laws(2) by (simp_all add: hmac_laws_def)
  have n: "48 + n \<le> usize_max" "48 + n \<le> length out" using room by (simp_all add: n_def)
  have lens: "pkcs7_padded_len (length plaintext) = Ok n" "token_len_for_ciphertext n = Ok (48 + n)"
    using n by (simp_all add: pkcs7_padded_len_eq n_def token_len_for_ciphertext_def token_lengths)
  have s1: "write_at 0 iv out = (Ok (), iv @ drop 16 out)" using iv n by (simp add: write_at_eq)
  have "pkcs7_pad plaintext (take n (drop 16 out)) = (Ok n, padded plaintext)"
    using pkcs7_pad_eq [of plaintext "take n (drop 16 out)"] n by (simp add: n_def)
  then have s2: "on_slice 16 (16 + n) (pkcs7_pad plaintext) (iv @ drop 16 out) =
      (Ok n, iv @ padded plaintext @ drop (16 + n) out)"
    using iv n by (simp add: on_slice_def add.commute)
  have "encrypt_cbc c keys iv (padded plaintext) = (Ok (), enc)"
    using enc(1) by (simp add: encrypt_cbc_def sbind_def slift_def keys(3))
  then have s3: "on_slice 16 (16 + n) (encrypt_cbc c keys iv) (iv @ padded plaintext @ drop (16 + n) out) =
      (Ok (), iv @ enc @ drop (16 + n) out)"
    using iv n by (simp add: on_slice_def n_def)
  have s4: "peek_slice 0 (16 + n) (iv @ enc @ drop (16 + n) out) = (Ok (iv @ enc), iv @ enc @ drop (16 + n) out)"
    using iv n enc(2) by (simp add: peek_slice_def slice_def)
  have s5: "write_at (16 + n) (cr_hmac c mk (iv @ enc)) (iv @ enc @ drop (16 + n) out) =
      (Ok (), iv @ enc @ cr_hmac c mk (iv @ enc) @ drop (48 + n) out)"
    using iv n enc(2) tag by (simp add: write_at_eq)
  show ?thesis
    unfolding n_def [symmetric] using n tag
    by (simp add: token_encrypt_with_iv_def keys lens token_lengths hmac_sha256_def Let_def
        token_bytes_def enc_def [symmetric] sret_def sbind_def slift_def s1 s2 [simplified] s3 [simplified] s4 s5)
qed

lemma token_decrypt_eq:
  assumes laws: "cipher_laws c" "hmac_laws c" and iv: "length iv = 16"
    and keys: "token_keys_split key = Ok keys" "signing_key keys = Ok mk" "encryption_key keys = Ok ek"
      "length ek = aes_key_len (tk_kind keys)"
    and room: "length (padded plaintext) \<le> length out"
  shows "token_decrypt c key (token_bytes c (tk_kind keys) mk ek iv plaintext) out =
    (Ok (length plaintext),
     plaintext @ replicate (length (pkcs7_padding plaintext)) 0 @ drop (length (padded plaintext)) out)"
proof -
  define n where "n = length (padded plaintext)"
  define enc where "enc = snd (cr_cbc_encrypt c (tk_kind keys) ek iv (padded plaintext))"
  have enc: "cr_cbc_decrypt c (tk_kind keys) ek iv enc = (True, padded plaintext)" "length enc = n"
    using cipher_lawsD [OF laws(1) keys(4) iv length_padded_mod, of plaintext] by (simp_all add: enc_def n_def)
  define tag where "tag = cr_hmac c mk (iv @ enc)"
  have tag: "length tag = 32" "cr_hmac_key_ok c mk" "cr_hmac_verify c mk (iv @ enc) tag"
    using laws(2) by (simp_all add: hmac_laws_def tag_def)
  have token: "token_bytes c (tk_kind keys) mk ek iv plaintext = iv @ enc @ tag"
    by (simp add: token_bytes_def enc_def tag_def Let_def)
  have n: "0 < n" "n mod 16 = 0" "n \<le> length out"
    using length_padded_mod [of plaintext] room by (simp_all add: n_def length_pkcs7_padding)
  have s1: "write_at 0 enc out = (Ok (), enc @ drop n out)" using enc(2) n by (simp add: write_at_eq)
  have "decrypt_cbc c keys iv enc = (Ok (), padded plaintext)"
    using enc(1) by (simp add: decrypt_cbc_def sbind_def slift_def keys(3))
  then have s2: "on_slice 0 n (decrypt_cbc c keys iv) (enc @ drop n out) = (Ok (), padded plaintext @ drop n out)"
    using enc(2) by (simp add: on_slice_def)
  have s3: "zeroize (length plaintext) n (padded plaintext @ drop n out) =
      (Ok (), plaintext @ replicate (length (pkcs7_padding plaintext)) 0 @ drop n out)"
    by (simp add: zeroize_def on_slice_def n_def)
  have s4: "pkcs7_unpad (take n (padded plaintext @ drop n out)) = Ok plaintext"
    using pkcs7_unpad_padded [of plaintext] by (simp add: n_def)
  have slices: "slice_to (iv @ enc @ tag) (16 + n) = (Ok (iv @ enc) :: (_, rns_crypto_error) result)"
    "slice_from (iv @ enc @ tag) (16 + n) = (Ok tag :: (_, rns_crypto_error) result)"
    "slice_to (iv @ enc @ tag) 16 = (Ok iv :: (_, rns_crypto_error) result)"
    "slice (iv @ enc @ tag) 16 (16 + n) = (Ok enc :: (_, rns_crypto_error) result)"
    using iv enc(2) by (simp_all add: slice_to_def slice_from_def slice_def)
  show ?thesis
    unfolding n_def [symmetric] token using n tag iv enc(2)
    by (simp add: token_decrypt_def token_open_def keys token_lengths verify_hmac_sha256_def Let_def sret_def sbind_def slift_def
        slices s1 s2 [simplified] s3 [simplified] s4 [simplified])
qed

text \<open>What a failing or successful decryption says about the token and leaves in the buffer.\<close>

definition token_tag_ok :: "crypto \<Rightarrow> u8 list \<Rightarrow> u8 list \<Rightarrow> bool" where
  "token_tag_ok c key token \<longleftrightarrow> (\<exists>keys mk. token_keys_split key = Ok keys \<and> signing_key keys = Ok mk \<and>
     48 < length token \<and> (length token - 48) mod 16 = 0 \<and>
     drop (length token - 32) token = cr_hmac c mk (take (length token - 32) token))"

lemma decrypt_cbc_length:
  "cipher_laws c \<Longrightarrow> decrypt_cbc c keys iv buf = (r, buf') \<Longrightarrow> length buf' = length buf"
  by (auto simp: decrypt_cbc_def sbind_def slift_def cipher_laws_def split: result.splits prod.splits bool.splits)
     (metis snd_conv)+

lemma zeroize_eq:
  "i \<le> j \<Longrightarrow> j \<le> length buf \<Longrightarrow> zeroize i j buf = (Ok (), take i buf @ replicate (j - i) 0 @ drop j buf)"
  by (simp add: zeroize_def on_slice_def)

lemma token_keys_split_parts:
  assumes "token_keys_split key = Ok keys"
  obtains mk ek where "signing_key keys = Ok mk" "encryption_key keys = Ok ek" "length ek = aes_key_len (tk_kind keys)"
  using assms by (auto simp: token_keys_split_def signing_key_def encryption_key_def slice_to_def aes_key_len_def
      split: if_splits)

lemma token_open_cases:
  assumes laws: "cipher_laws c" and key: "encryption_key keys = Ok ek" and len: "length token = 48 + n"
    and run: "token_open c keys token out = (r, out')"
  shows "if length out < n then r = Err (CryptoOutputBufferTooShort (length out) n) \<and> out' = out
    else length out' = length out \<and> drop n out' = drop n out \<and>
      ((\<exists>e. r = Err e \<and> e \<noteq> AuthenticationFailed \<and> take n out' = replicate n 0) \<or>
       (\<exists>k. r = Ok k \<and> k < n \<and> drop k (take n out') = replicate (n - k) 0))"
proof (cases "length out < n")
  case True
  with run len show ?thesis by (auto simp: token_open_def token_lengths)
next
  case False
  define iv where "iv = take 16 token"
  define ct where "ct = take n (drop 16 token)"
  obtain ok buf where dec: "cr_cbc_decrypt c (tk_kind keys) ek iv ct = (ok, buf)" by (cases "cr_cbc_decrypt c (tk_kind keys) ek iv ct")
  have "length ct = n" using len by (simp add: ct_def)
  with laws dec have buf: "length buf = n" unfolding cipher_laws_def by (metis snd_conv)
  have slices: "slice_to token 16 = (Ok iv :: (_, rns_crypto_error) result)"
    "slice token 16 (16 + n) = (Ok ct :: (_, rns_crypto_error) result)"
    using len by (simp_all add: slice_to_def slice_def iv_def ct_def)
  have s1: "write_at 0 ct out = (Ok (), ct @ drop n out)" using False \<open>length ct = n\<close> by (simp add: write_at_eq)
  have s2: "on_slice 0 n (decrypt_cbc c keys iv) (ct @ drop n out) =
      (if ok then Ok () else Err CipherFailed, buf @ drop n out)"
    using False \<open>length ct = n\<close> dec by (simp add: on_slice_def decrypt_cbc_def sbind_def slift_def key)
  have zero: "zeroize 0 n (buf @ drop n out) = (Ok (), replicate n 0 @ drop n out)"
    using False buf by (simp add: zeroize_eq)
  have eq: "token_open c keys token out =
      (if \<not> ok then (Err CipherFailed, replicate n 0 @ drop n out)
       else case pkcs7_unpad buf of
         Err error \<Rightarrow> (Err error, replicate n 0 @ drop n out)
       | Panic \<Rightarrow> (Panic, buf @ drop n out)
       | Ok plaintext \<Rightarrow> sbind (zeroize (length plaintext) n) (\<lambda>_. sret (length plaintext)) (buf @ drop n out))"
    using False len buf by (simp add: token_open_def token_lengths Let_def slift_def sbind_def slices s1 s2 zero
        sthrow_def split: result.splits)
  show ?thesis
  proof (cases "pkcs7_unpad buf")
    case (Ok plaintext)
    then have "length plaintext < n" using buf by (auto simp: pkcs7_unpad_iff length_pkcs7_padding)
    with Ok eq run buf False show ?thesis
      by (auto simp: sbind_def zeroize_eq sret_def split: if_splits)
  next
    case (Err e)
    then have "e \<noteq> AuthenticationFailed"
      by (auto simp: pkcs7_unpad_def get_at_def slice_from_def slice_to_def Let_def split: if_splits)
    with Err eq run buf False show ?thesis by (auto split: if_splits)
  qed (simp add: pkcs7_unpad_no_panic)
qed

lemma token_decrypt_split:
  assumes laws: "cipher_laws c" "hmac_laws c" and run: "token_decrypt c key token out = (r, out')"
  shows "if \<not> token_tag_ok c key token then (\<exists>e. r = Err e) \<and> out' = out
    else if length out < length token - 48
    then r = Err (CryptoOutputBufferTooShort (length out) (length token - 48)) \<and> out' = out
    else length out' = length out \<and> drop (length token - 48) out' = drop (length token - 48) out \<and>
      ((\<exists>e. r = Err e \<and> e \<noteq> AuthenticationFailed \<and> take (length token - 48) out' = replicate (length token - 48) 0) \<or>
       (\<exists>k. r = Ok k \<and> k < length token - 48 \<and> drop k (take (length token - 48) out') = replicate (length token - 48 - k) 0))"
proof (cases "token_keys_split key")
  case (Ok keys)
  obtain mk ek where keys: "signing_key keys = Ok mk" "encryption_key keys = Ok ek"
    using token_keys_split_parts [OF Ok] by metis
  show ?thesis
  proof (cases "length token \<le> 48 \<or> (length token - 48) mod 16 \<noteq> 0")
    case True
    then have "token_decrypt c key token out = (Err InvalidToken, out)"
      by (cases "length token \<le> 48")
         (simp_all add: token_decrypt_def Ok sbind_def slift_def sthrow_def token_lengths Let_def)
    moreover have "\<not> token_tag_ok c key token" using True by (auto simp: token_tag_ok_def)
    ultimately show ?thesis using run by auto
  next
    case False
    let ?tag_ok = "drop (length token - 32) token = cr_hmac c mk (take (length token - 32) token)"
    have eq: "token_decrypt c key token out =
        (if ?tag_ok then token_open c keys token out else (Err AuthenticationFailed, out))"
      using False laws(2) Ok keys
      by (auto simp: token_decrypt_def sbind_def slift_def token_lengths Let_def slice_to_def slice_from_def
          verify_hmac_sha256_def hmac_laws_def)
    have tag: "token_tag_ok c key token \<longleftrightarrow> ?tag_ok" using False Ok keys by (simp add: token_tag_ok_def)
    show ?thesis
    proof (cases ?tag_ok)
      case True
      with eq run have "token_open c keys token out = (r, out')" by simp
      from token_open_cases [OF laws(1) keys(2) _ this, of "length token - 48"] False True tag show ?thesis by simp
    next
      case False
      with eq run tag show ?thesis by auto
    qed
  qed
qed (use run in \<open>auto simp: token_decrypt_def sbind_def slift_def token_keys_split_def token_tag_ok_def split: if_splits\<close>)

lemma token_decrypt_unauthenticated:
  "cipher_laws c \<Longrightarrow> hmac_laws c \<Longrightarrow> token_decrypt c key token out = (Err AuthenticationFailed, out') \<Longrightarrow> out' = out"
  using token_decrypt_split [of c key token out "Err AuthenticationFailed" out'] by (auto split: if_splits)

lemma derive_token_key_length:
  assumes "hkdf_laws c" and "derive_token_key c shared recipient = Ok key"
  shows "length key = 64"
proof -
  have "length okm = 64" if "cr_hkdf c salt shared info 64 = Some okm" for salt info okm
  proof -
    have "(64 :: nat) \<le> 255 * 32" by simp
    then obtain okm' where "cr_hkdf c salt shared info 64 = Some okm'" "length okm' = 64"
      using assms(1) unfolding hkdf_laws_def by blast
    with that show ?thesis by simp
  qed
  with assms(2) show ?thesis
    by (auto simp: derive_token_key_def rns_hkdf_sha256_def RNS_SINGLE_PACKET_DERIVED_KEY_LEN_def Let_def
        split: if_splits option.splits)
qed

lemma derive_token_key_Ok:
  assumes "hkdf_laws c" "hash_laws c" "dh_laws c" and "cr_x_contributory c (cr_x_dh c secret public)"
  obtains key where "derive_token_key c (cr_x_dh c secret public) recipient = Ok key" "length key = 64"
proof -
  have "(64 :: nat) \<le> 255 * 32" by simp
  then have hkdf: "\<exists>okm. cr_hkdf c salt ikm info 64 = Some okm" for salt ikm info
    using assms(1) unfolding hkdf_laws_def by blast
  have "length (cr_x_dh c secret public) = 32" using assms(3) by (simp add: dh_laws_def)
  then have ne: "cr_x_dh c secret public \<noteq> []" by auto
  have "length (cr_sha256 c m) = 32" for m using assms(2) by (simp add: hash_laws_def)
  then have "\<exists>key. derive_token_key c (cr_x_dh c secret public) recipient = Ok key"
    using assms(4) ne hkdf
    by (auto simp: derive_token_key_def identity_hash_def truncated_hash_def full_hash_def slice_to_def
        RNS_TRUNCATED_HASH_LEN_def rns_hkdf_sha256_def RNS_SINGLE_PACKET_DERIVED_KEY_LEN_def Let_def
        split: option.splits result.splits)
  with derive_token_key_length [OF assms(1)] that show thesis by blast
qed

lemma decrypt_with_secret_len_unauthenticated:
  assumes "cipher_laws c" "hmac_laws c"
    and "decrypt_with_secret_len c secret recipient ephemeral token out = (Err AuthenticationFailed, out')"
  shows "out' = out"
proof (cases "derive_token_key c (cr_x_dh c secret ephemeral) recipient")
  case (Ok key)
  with assms show ?thesis using token_decrypt_unauthenticated
    by (auto simp: decrypt_with_secret_len_def sbind_def slift_def)
qed (use assms in \<open>auto simp: decrypt_with_secret_len_def sbind_def slift_def\<close>)

lemma try_ratchets_none:
  assumes "cipher_laws c" "hmac_laws c"
    and "\<forall>ratchet \<in> set ratchets. fst (decrypt_with_secret_len c ratchet recipient ephemeral token out) = Err AuthenticationFailed"
  shows "try_ratchets c recipient ephemeral token index ratchets out = (Ok None, out)"
  using assms(3)
proof (induction ratchets arbitrary: index)
  case (Cons ratchet ratchets)
  then obtain out' where run: "decrypt_with_secret_len c ratchet recipient ephemeral token out = (Err AuthenticationFailed, out')"
    by (metis list.set_intros(1) prod.collapse)
  with decrypt_with_secret_len_unauthenticated [OF assms(1,2) run] Cons show ?case by simp
qed simp

lemma try_ratchets_found:
  assumes laws: "cipher_laws c" "hmac_laws c"
    and "try_ratchets c recipient ephemeral token index ratchets out = (Ok (Some outcome), out')"
  shows "\<exists>i < length ratchets. do_ratchet_index outcome = Some (index + i) \<and>
    (\<exists>n. decrypt_with_secret_len c (ratchets ! i) recipient ephemeral token out = (Ok n, out') \<and>
         do_plaintext outcome = take n out') \<and>
    (\<forall>j < i. fst (decrypt_with_secret_len c (ratchets ! j) recipient ephemeral token out) = Err AuthenticationFailed)"
  using assms(3)
proof (induction ratchets arbitrary: index)
  case (Cons ratchet ratchets)
  obtain r out1 where run: "decrypt_with_secret_len c ratchet recipient ephemeral token out = (r, out1)" by fastforce
  consider n where "r = Ok n" | "r = Err AuthenticationFailed"
    using Cons.prems run by (cases r) (auto split: rns_crypto_error.splits)
  then show ?case
  proof cases
    case 1
    with Cons.prems run show ?thesis
      by (intro exI [of _ 0]) (auto simp: slice_to_def split: if_splits)
  next
    case 2
    with run decrypt_with_secret_len_unauthenticated [OF laws] have "out1 = out" by blast
    with 2 run Cons.prems Cons.IH [of "index + 1"] obtain i where
      i: "i < length ratchets" "do_ratchet_index outcome = Some (index + 1 + i)"
        "\<exists>n. decrypt_with_secret_len c (ratchets ! i) recipient ephemeral token out = (Ok n, out') \<and> do_plaintext outcome = take n out'"
        "\<forall>j < i. fst (decrypt_with_secret_len c (ratchets ! j) recipient ephemeral token out) = Err AuthenticationFailed"
      by auto
    with 2 run show ?thesis by (intro exI [of _ "Suc i"]) (auto simp: less_Suc_eq_0_disj)
  qed
qed simp

lemma encrypt_for_identity_eq:
  assumes laws: "cipher_laws c" "hmac_laws c" "dh_laws c"
    and rng: "rng 32 g = (Some ephemeral, g1)" "rng 16 g1 = (Some iv, g2)" "length iv = 16"
    and key: "derive_token_key c (cr_x_dh c ephemeral (x25519_public recipient)) recipient = Ok key"
    and keys: "token_keys_split key = Ok keys" "signing_key keys = Ok mk" "encryption_key keys = Ok ek"
      "length ek = aes_key_len (tk_kind keys)"
    and room: "single_packet_len_for_plaintext (length plaintext) = Ok required" "required \<le> length out"
  shows "required = 80 + length (padded plaintext) \<and>
    encrypt_for_identity c rng recipient plaintext (g, out) =
      (Ok required, (g2, cr_x_public c ephemeral @ token_bytes c (tk_kind keys) mk ek iv plaintext @ drop required out))"
proof -
  define n where "n = length (padded plaintext)"
  have req: "required = 80 + n" "80 + n \<le> usize_max"
    using room(1) by (auto simp: single_packet_len_for_plaintext_def pkcs7_padded_len_eq token_lengths
        RNS_SINGLE_PACKET_EPHEMERAL_PUBLIC_LEN_def RNS_IDENTITY_KEY_LEN_def n_def split: if_splits)
  have eph: "length (cr_x_public c ephemeral) = 32" using laws(3) by (simp add: dh_laws_def)
  have s1: "write_at 0 (cr_x_public c ephemeral) out = (Ok (), cr_x_public c ephemeral @ drop 32 out)"
    using eph req room(2) by (simp add: write_at_eq)
  have s2: "token_encrypt_with_iv c key plaintext iv (take (48 + n) (drop 32 out)) =
      (Ok (48 + n), token_bytes c (tk_kind keys) mk ek iv plaintext)"
    using token_encrypt_with_iv_eq [OF laws(1,2) rng(3) keys, of plaintext "take (48 + n) (drop 32 out)"] req room(2)
    by (simp add: n_def)
  have "encrypt_for_identity c rng recipient plaintext (g, out) =
      (Ok (80 + n), (g2, cr_x_public c ephemeral @ token_bytes c (tk_kind keys) mk ek iv plaintext @ drop (80 + n) out))"
    using req room eph
    by (simp add: encrypt_for_identity_def encrypt_with_secret_def token_encrypt_def rng RNS_IDENTITY_KEY_LEN_def
        RNS_SINGLE_PACKET_EPHEMERAL_PUBLIC_LEN_def RNS_TOKEN_IV_LEN_def key Let_def s1 s2 [simplified])
  with req show ?thesis by (simp add: n_def)
qed

section \<open>Properties\<close>

text \<open>
  Padding is exact. Unpadding succeeds on exactly the padded messages and returns the message;
  on every other input it reports an error and never panics; and padding writes the padded message
  into any buffer that holds it.\<close>

theorem pkcs7_exact:
  "(pkcs7_unpad input = Ok p \<longleftrightarrow> input = padded p) \<and> pkcs7_unpad input \<noteq> Panic \<and>
   (length (padded p) \<le> min usize_max (length out) \<longrightarrow>
     pkcs7_pad p out = (Ok (length (padded p)), padded p @ drop (length (padded p)) out) \<and>
     length (padded p) mod PKCS7_BLOCK_LEN = 0)"
  using pkcs7_pad_eq [of p out] pkcs7_unpad_iff pkcs7_unpad_no_panic length_padded_mod [of p]
  by (simp add: PKCS7_BLOCK_LEN_def)

theorem pkcs7_exact_witness:
  "pkcs7_unpad ([1, 2, 3] @ replicate 13 13) = Ok [1, 2, 3] \<and>
   pkcs7_pad [] (replicate 16 0) = (Ok 16, replicate 16 16)"
proof -
  have "pkcs7_padding [1, 2, 3] = replicate 13 13" "pkcs7_padding [] = replicate 16 16"
    by (simp_all add: pkcs7_padding_def)
  moreover have "16 \<le> usize_max" by (simp add: usize_max_def)
  ultimately show ?thesis
    using pkcs7_exact [of "[1, 2, 3] @ replicate 13 13" "[1, 2, 3]" "[]"]
      pkcs7_exact [of "[]" "[]" "replicate 16 0"] by simp
qed

text \<open>
  A trivial instance of the primitives, for the concrete applications below: constant hashes and
  keys, the identity as cipher.
\<close>

definition null_crypto :: crypto where
  "null_crypto = \<lparr>
     cr_sha256 = (\<lambda>m. replicate 32 0),
     cr_hkdf = (\<lambda>salt ikm info n. if n \<le> 255 * 32 then Some (replicate n 0) else None),
     cr_hmac_key_ok = (\<lambda>key. True),
     cr_hmac = (\<lambda>key m. replicate 32 (word_of_nat (length m))),
     cr_hmac_verify = (\<lambda>key m tag. tag = replicate 32 (word_of_nat (length m))),
     cr_cbc_encrypt = (\<lambda>kind key iv buf. (True, buf)),
     cr_cbc_decrypt = (\<lambda>kind key iv buf. (True, buf)),
     cr_ed_public = (\<lambda>s. replicate 32 0), cr_ed_key_ok = (\<lambda>key. True),
     cr_ed_sign = (\<lambda>s m. replicate 64 (word_of_nat (length m))),
     cr_ed_verify = (\<lambda>key m sig. sig = replicate 64 (word_of_nat (length m))),
     cr_x_public = (\<lambda>s. replicate 32 0), cr_x_dh = (\<lambda>s p. replicate 32 1), cr_x_contributory = (\<lambda>s. True)\<rparr>"

lemma null_crypto_laws:
  "cipher_laws null_crypto" "hmac_laws null_crypto" "hkdf_laws null_crypto" "hash_laws null_crypto"
  "dh_laws null_crypto" "signature_laws null_crypto"
  by (simp_all add: null_crypto_def cipher_laws_def hmac_laws_def hkdf_laws_def hash_laws_def dh_laws_def
      signature_laws_def)

text \<open>
  Tokens round trip. With a key of 32 or 64 bytes, encrypting succeeds whenever the buffer holds
  the token, and decrypting the bytes written with the same key returns the plaintext, with the
  padding that followed it in the output buffer erased.\<close>

theorem token_roundtrip:
  assumes "cipher_laws c" and "hmac_laws c"
    and "length key = 32 \<or> length key = 64" and "length iv = 16"
    and "48 + length (padded plaintext) \<le> min usize_max (length out)"
    and "length (padded plaintext) \<le> length out2"
  shows "\<exists>n out'. token_encrypt_with_iv c key plaintext iv out = (Ok n, out') \<and>
    token_decrypt c key (take n out') out2 =
      (Ok (length plaintext),
       plaintext @ replicate (length (padded plaintext) - length plaintext) 0 @ drop (length (padded plaintext)) out2)"
proof -
  obtain keys mk ek where keys: "token_keys_split key = Ok keys" "signing_key keys = Ok mk"
    "encryption_key keys = Ok ek" "length ek = aes_key_len (tk_kind keys)"
    using token_keys_split_Ok [OF assms(3)] by metis
  note len = length_token_bytes [OF assms(1,2) keys(4) assms(4), of mk plaintext]
  show ?thesis
    using token_encrypt_with_iv_eq [OF assms(1,2,4) keys, of plaintext out] assms(5) len
      token_decrypt_eq [OF assms(1,2,4) keys assms(6)]
    by auto
qed

theorem token_roundtrip_witness:
  "\<exists>n out'. token_encrypt_with_iv null_crypto (replicate 32 7) [1, 2] (replicate 16 9) (replicate 64 0) = (Ok n, out') \<and>
     token_decrypt null_crypto (replicate 32 7) (take n out') (replicate 16 3) = (Ok 2, [1, 2] @ replicate 14 0)"
proof -
  have "48 + length (padded [1, 2]) \<le> min usize_max (length (replicate 64 (0 :: u8)))"
    by (simp add: length_pkcs7_padding usize_max_def)
  from token_roundtrip [OF null_crypto_laws(1,2) _ _ this, of "replicate 32 7" "replicate 16 9" "replicate 16 3"]
  show ?thesis by (simp add: length_pkcs7_padding numeral_2_eq_2)
qed

text \<open>
  C21. Tokens are authenticated before they are opened. A token whose length or key length is wrong,
  or whose tag is not the HMAC of the rest of it, is rejected and the output buffer is untouched. So
  is any token when the buffer is shorter than its ciphertext. Otherwise nothing behind the
  ciphertext area of the buffer changes, and decryption either succeeds, with the area behind the
  plaintext zeroed, or fails, with the whole area zeroed: no failure leaves decrypted bytes behind.
  Decryption never panics.\<close>

theorem token_authenticated:
  assumes "cipher_laws c" and "hmac_laws c" and "token_decrypt c key token out = (r, out')"
  shows "if \<not> token_tag_ok c key token then (\<exists>e. r = Err e) \<and> out' = out
    else if length out < length token - 48
    then r = Err (CryptoOutputBufferTooShort (length out) (length token - 48)) \<and> out' = out
    else length out' = length out \<and> drop (length token - 48) out' = drop (length token - 48) out \<and>
      ((\<exists>e. r = Err e \<and> e \<noteq> AuthenticationFailed \<and> take (length token - 48) out' = replicate (length token - 48) 0) \<or>
       (\<exists>k. r = Ok k \<and> k < length token - 48 \<and> drop k (take (length token - 48) out') = replicate (length token - 48 - k) 0))"
  using token_decrypt_split [OF assms] .

theorem token_authenticated_witness:
  "\<exists>e. token_decrypt null_crypto (replicate 32 7) (replicate 64 5) (replicate 16 3) = (Err e, replicate 16 3)"
proof -
  obtain r out' where run: "token_decrypt null_crypto (replicate 32 7) (replicate 64 5) (replicate 16 3) = (r, out')" by fastforce
  have "\<not> token_tag_ok null_crypto (replicate 32 7) (replicate 64 5)"
    by (simp add: token_tag_ok_def null_crypto_def replicate_eq_replicate)
  with token_authenticated [OF null_crypto_laws(1,2) run] run show ?thesis by auto
qed

text \<open>
  C20. Single packets round trip. A packet encrypted to an identity, with any ephemeral secret whose
  key exchange is contributory and with room in both buffers, is decrypted by the holder of the
  identity when ratchets are not enforced and none of the ratchets it tries first claims the packet,
  that is, under each of them decryption fails to authenticate it.\<close>

theorem single_packet_roundtrip:
  assumes laws: "cipher_laws c" "hmac_laws c" "hkdf_laws c" "hash_laws c" "dh_laws c"
    and rng: "rng 32 g = (Some ephemeral, g1)" "rng 16 g1 = (Some iv, g2)" "length iv = 16"
    and recipient: "public_identity c secret = Ok recipient"
    and contributory: "cr_x_contributory c (cr_x_dh c ephemeral (x25519_public recipient))"
    and room: "single_packet_len_for_plaintext (length plaintext) = Ok required" "required \<le> length out"
      "length (padded plaintext) \<le> length out2"
  shows "\<exists>out'. encrypt_for_identity c rng recipient plaintext (g, out) = (Ok required, (g2, out')) \<and>
    (\<forall>ratchets.
      (\<forall>ratchet \<in> set ratchets. fst (decrypt_with_secret_len c ratchet recipient (take 32 out')
         (drop 32 (take required out')) out2) = Err AuthenticationFailed) \<longrightarrow>
      fst (decrypt_for_identity c secret (take required out') ratchets False out2) =
        Ok \<lparr>do_plaintext = plaintext, do_ratchet_index = None\<rparr>)"
proof -
  obtain key where key: "derive_token_key c (cr_x_dh c ephemeral (x25519_public recipient)) recipient = Ok key" "length key = 64"
    using derive_token_key_Ok [OF laws(3-5) contributory] by metis
  obtain keys mk ek where keys: "token_keys_split key = Ok keys" "signing_key keys = Ok mk"
    "encryption_key keys = Ok ek" "length ek = aes_key_len (tk_kind keys)"
    using token_keys_split_Ok [of key] key(2) by metis
  let ?eph = "cr_x_public c ephemeral" and ?token = "token_bytes c (tk_kind keys) mk ek iv plaintext"
  have eph: "length ?eph = 32" using laws(5) by (simp add: dh_laws_def)
  have len: "length ?token = 48 + length (padded plaintext)"
    using length_token_bytes [OF laws(1,2) keys(4) rng(3)] by simp
  note enc = encrypt_for_identity_eq [OF laws(1,2,5) rng key(1) keys room(1,2)]
  have "cr_x_dh c (x25519_secret secret) ?eph = cr_x_dh c ephemeral (x25519_public recipient)"
    using recipient laws(5) by (auto simp: public_identity_def dh_laws_def)
  then have dec: "decrypt_with_secret_len c (x25519_secret secret) recipient ?eph ?token out2 =
      (Ok (length plaintext), plaintext @ replicate (length (pkcs7_padding plaintext)) 0 @ drop (length (padded plaintext)) out2)"
    using token_decrypt_eq [OF laws(1,2) rng(3) keys room(3)] key(1)
    by (simp add: decrypt_with_secret_len_def sbind_def slift_def)
  have "fst (decrypt_for_identity c secret (?eph @ ?token) ratchets False out2) =
      Ok \<lparr>do_plaintext = plaintext, do_ratchet_index = None\<rparr>"
    if "\<forall>ratchet \<in> set ratchets. fst (decrypt_with_secret_len c ratchet recipient ?eph ?token out2) = Err AuthenticationFailed"
    for ratchets
    using try_ratchets_none [OF laws(1,2) that, of 0] dec eph len recipient
    by (simp add: decrypt_for_identity_def RNS_SINGLE_PACKET_EPHEMERAL_PUBLIC_LEN_def RNS_IDENTITY_KEY_LEN_def
        slice_to_def slice_from_def sbind_def slift_def)
  with enc eph len show ?thesis by auto
qed

theorem single_packet_roundtrip_witness:
  "\<exists>out'. encrypt_for_identity null_crypto (\<lambda>n g. (Some (replicate n g), g)) \<lparr>x25519_public = replicate 32 0,
       ed25519_public = replicate 32 0\<rparr> [1, 2] (5, replicate 100 0) = (Ok 96, (5, out')) \<and>
     fst (decrypt_for_identity null_crypto \<lparr>x25519_secret = [], ed25519_secret = []\<rparr> (take 96 out') [] False (replicate 16 0)) =
       Ok \<lparr>do_plaintext = [1, 2], do_ratchet_index = None\<rparr>"
proof -
  let ?secret = "\<lparr>x25519_secret = [], ed25519_secret = []\<rparr>"
  let ?public = "\<lparr>x25519_public = replicate 32 0, ed25519_public = replicate 32 0\<rparr>"
  have "public_identity null_crypto ?secret = Ok ?public" by (simp add: public_identity_def null_crypto_def)
  moreover have "cr_x_contributory null_crypto s" for s by (simp add: null_crypto_def)
  moreover have "single_packet_len_for_plaintext (length [1, 2 :: u8]) = Ok 96"
    unfolding single_packet_len_for_plaintext_def pkcs7_padded_len_eq
    by (simp add: length_pkcs7_padding usize_max_def token_lengths
        RNS_SINGLE_PACKET_EPHEMERAL_PUBLIC_LEN_def RNS_IDENTITY_KEY_LEN_def)
  ultimately show ?thesis
    using single_packet_roundtrip [OF null_crypto_laws(1-5), of "\<lambda>n g. (Some (replicate n g), g)" 5 "replicate 32 5" 5
        "replicate 16 5" 5 ?secret ?public "[1, 2]" 96 "replicate 100 0" "replicate 16 0"]
    by (fastforce simp: length_pkcs7_padding)
qed

text \<open>
  C28. Ratchet enforcement. When the recipient enforces ratchets, a packet is only ever decrypted
  under one of them: the reported index is the first ratchet that does not fail to authenticate the
  packet, the token carries a valid tag for the key derived from that ratchet, and the identity's
  own key is never used.\<close>

theorem ratchets_enforced:
  assumes "cipher_laws c" and "hmac_laws c" and "public_identity c secret = Ok recipient"
    and "decrypt_for_identity c secret packet ratchets True out = (Ok outcome, out')"
  shows "\<exists>i key. i < length ratchets \<and> do_ratchet_index outcome = Some i \<and>
    derive_token_key c (cr_x_dh c (ratchets ! i) (take 32 packet)) recipient = Ok key \<and>
    token_tag_ok c key (drop 32 packet) \<and>
    (\<forall>j < i. fst (decrypt_with_secret_len c (ratchets ! j) recipient (take 32 packet) (drop 32 packet) out) =
       Err AuthenticationFailed)"
proof -
  have len: "32 < length packet"
    using assms(4) by (auto simp: decrypt_for_identity_def RNS_SINGLE_PACKET_EPHEMERAL_PUBLIC_LEN_def
        RNS_IDENTITY_KEY_LEN_def sthrow_def split: if_splits)
  then have "try_ratchets c recipient (take 32 packet) (drop 32 packet) 0 ratchets out = (Ok (Some outcome), out')"
    using assms(3,4) by (auto simp: decrypt_for_identity_def RNS_SINGLE_PACKET_EPHEMERAL_PUBLIC_LEN_def
        RNS_IDENTITY_KEY_LEN_def slice_to_def slice_from_def sbind_eq_Ok split: option.splits if_splits)
  from try_ratchets_found [OF assms(1,2) this] obtain i n where
    i: "i < length ratchets" "do_ratchet_index outcome = Some i"
      "decrypt_with_secret_len c (ratchets ! i) recipient (take 32 packet) (drop 32 packet) out = (Ok n, out')"
      "\<forall>j < i. fst (decrypt_with_secret_len c (ratchets ! j) recipient (take 32 packet) (drop 32 packet) out) = Err AuthenticationFailed"
    by auto
  from i(3) obtain key where "derive_token_key c (cr_x_dh c (ratchets ! i) (take 32 packet)) recipient = Ok key"
    "token_decrypt c key (drop 32 packet) out = (Ok n, out')"
    by (auto simp: decrypt_with_secret_len_def sbind_eq_Ok dest: sym)
  with i token_decrypt_split [OF assms(1,2), of key "drop 32 packet" out "Ok n" out'] show ?thesis by (auto split: if_splits)
qed

theorem ratchets_enforced_witness:
  "\<exists>packet outcome out' key. decrypt_for_identity null_crypto \<lparr>x25519_secret = [], ed25519_secret = []\<rparr> packet
       [replicate 32 1] True (replicate 16 0) = (Ok outcome, out') \<and> do_ratchet_index outcome = Some 0 \<and>
     token_tag_ok null_crypto key (drop 32 packet)"
proof -
  let ?secret = "\<lparr>x25519_secret = [], ed25519_secret = []\<rparr>"
  let ?public = "\<lparr>x25519_public = replicate 32 0, ed25519_public = replicate 32 0\<rparr>"
  let ?key = "replicate 64 0 :: u8 list"
  have public: "public_identity null_crypto ?secret = Ok ?public" by (simp add: public_identity_def null_crypto_def)
  have key: "derive_token_key null_crypto (cr_x_dh null_crypto s e) ?public = Ok ?key" for s e
    by (simp add: derive_token_key_def null_crypto_def identity_hash_def truncated_hash_def full_hash_def slice_to_def
        RNS_TRUNCATED_HASH_LEN_def rns_hkdf_sha256_def RNS_SINGLE_PACKET_DERIVED_KEY_LEN_def)
  obtain keys mk ek where keys: "token_keys_split ?key = Ok keys" "signing_key keys = Ok mk"
    "encryption_key keys = Ok ek" "length ek = aes_key_len (tk_kind keys)"
    using token_keys_split_Ok [of ?key] by auto
  define token where "token = token_bytes null_crypto (tk_kind keys) mk ek (replicate 16 0) []"
  define packet where "packet = replicate 32 0 @ token"
  have "token_decrypt null_crypto ?key token (replicate 16 0) = (Ok 0, replicate 16 0)"
    using token_decrypt_eq [OF null_crypto_laws(1,2) _ keys, of "replicate 16 0" "[]" "replicate 16 0"]
    by (simp add: token_def length_pkcs7_padding)
  moreover have "length token = 64"
    using length_token_bytes [OF null_crypto_laws(1,2) keys(4), of "replicate 16 0" mk "[]"]
    by (simp add: token_def length_pkcs7_padding)
  ultimately have run: "decrypt_for_identity null_crypto ?secret packet [replicate 32 1] True (replicate 16 0) =
      (Ok \<lparr>do_plaintext = [], do_ratchet_index = Some 0\<rparr>, replicate 16 0)"
    by (simp add: decrypt_for_identity_def packet_def RNS_SINGLE_PACKET_EPHEMERAL_PUBLIC_LEN_def
        RNS_IDENTITY_KEY_LEN_def slice_to_def slice_from_def sbind_def slift_def public key decrypt_with_secret_len_def sret_def)
  from ratchets_enforced [OF null_crypto_laws(1,2) public run] obtain key where
    "token_tag_ok null_crypto key (drop 32 packet)" by auto
  with run show ?thesis
    by (intro exI [of _ packet] exI [of _ "\<lparr>do_plaintext = [], do_ratchet_index = Some 0\<rparr>"]
        exI [of _ "replicate 16 0"] exI [of _ key]) simp
qed

end
