(* ===== verification/Hyf_RNS_Wire.thy ===== *)
theory Hyf_RNS_Wire
  imports Hyf_RNS_Crypto Hyf_Wire
begin

text \<open>
  The crates \<open>hyf_rns_wire\<close> and \<open>hyf_link_rns\<close>: the Reticulum packet codec, the packet hash,
  announces, interface access codes, and the carriage of RNS packets in HYF envelopes
  (\<open>src/crates/hyf_rns_wire/src/{flags,packet,packet_hash,announce,ifac}.rs\<close>,
  \<open>src/crates/hyf_link_rns/src/{packet,wrap}.rs\<close>). Hashes, signatures and key derivation are those
  of \<open>Hyf_RNS_Crypto\<close>. The lemmas show that the codec is a bijection between well-formed packets
  and accepted byte strings, that the packet hash does not see what transport changes, that
  announces and access codes verify exactly what was signed, and that wrapping round trips.
\<close>

unbundle bit_operations_syntax

section \<open>Errors\<close>

datatype rns_wire_error =
    UnsupportedPacketAccessCode
  | InvalidFlags
  | InvalidHeaderType
  | InvalidTransportType
  | InvalidDestinationType
  | InvalidPacketType
  | PacketTooShort usize usize
  | PacketTooLarge usize usize
  | MissingTransportId
  | UnexpectedTransportId
  | RnsOutputBufferTooShort usize usize
  | MalformedAnnounce
  | RnsInvalidPublicIdentity
  | RnsInvalidSignature
  | CryptoFailed
  | InvalidIfacSize usize usize
  | InvalidIfacKey
  | MissingPacketAccessCode
  | InvalidPacketAccessCode
  | DestinationMismatch
  | TimestampOverflow
  | RnsRandomSourceFailed
  | InvalidDestinationName

fun map_crypto_error :: "rns_crypto_error \<Rightarrow> rns_wire_error" where
  "map_crypto_error CryptoInvalidPublicIdentity = RnsInvalidPublicIdentity"
| "map_crypto_error InvalidSecretIdentity = RnsInvalidSignature"
| "map_crypto_error CryptoInvalidSignature = RnsInvalidSignature"
| "map_crypto_error _ = CryptoFailed"

section \<open>Flags\<close>

definition IFAC_FLAG :: u8 where "IFAC_FLAG = 0b10000000"
definition HEADER_TYPE_MASK :: u8 where "HEADER_TYPE_MASK = 0b01000000"
definition CONTEXT_FLAG_MASK :: u8 where "CONTEXT_FLAG_MASK = 0b00100000"
definition TRANSPORT_TYPE_MASK :: u8 where "TRANSPORT_TYPE_MASK = 0b00010000"
definition DESTINATION_TYPE_MASK :: u8 where "DESTINATION_TYPE_MASK = 0b00001100"
definition PACKET_TYPE_MASK :: u8 where "PACKET_TYPE_MASK = 0b00000011"

lemmas flag_masks = IFAC_FLAG_def HEADER_TYPE_MASK_def CONTEXT_FLAG_MASK_def TRANSPORT_TYPE_MASK_def
  DESTINATION_TYPE_MASK_def PACKET_TYPE_MASK_def

datatype rns_header_type = Header1 | Header2
datatype rns_transport_type = RnsBroadcast | RnsTransport
datatype rns_destination_type = RnsSingle | RnsGroup | RnsPlain | RnsLink
datatype rns_packet_type = RnsData | RnsAnnounce | RnsLinkRequest | RnsProof

fun header_type_to_bits :: "rns_header_type \<Rightarrow> u8" where
  "header_type_to_bits Header1 = 0" | "header_type_to_bits Header2 = 1"

definition header_type_from_bits :: "u8 \<Rightarrow> (rns_header_type, rns_wire_error) result" where
  "header_type_from_bits bits =
     (if bits = 0 then Ok Header1 else if bits = 1 then Ok Header2 else Err InvalidHeaderType)"

fun transport_type_to_bits :: "rns_transport_type \<Rightarrow> u8" where
  "transport_type_to_bits RnsBroadcast = 0" | "transport_type_to_bits RnsTransport = 1"

definition transport_type_from_bits :: "u8 \<Rightarrow> (rns_transport_type, rns_wire_error) result" where
  "transport_type_from_bits bits =
     (if bits = 0 then Ok RnsBroadcast else if bits = 1 then Ok RnsTransport else Err InvalidTransportType)"

fun destination_type_to_bits :: "rns_destination_type \<Rightarrow> u8" where
  "destination_type_to_bits RnsSingle = 0" | "destination_type_to_bits RnsGroup = 1"
| "destination_type_to_bits RnsPlain = 2" | "destination_type_to_bits RnsLink = 3"

definition destination_type_from_bits :: "u8 \<Rightarrow> (rns_destination_type, rns_wire_error) result" where
  "destination_type_from_bits bits =
     (if bits = 0 then Ok RnsSingle else if bits = 1 then Ok RnsGroup
      else if bits = 2 then Ok RnsPlain else if bits = 3 then Ok RnsLink else Err InvalidDestinationType)"

fun packet_type_to_bits :: "rns_packet_type \<Rightarrow> u8" where
  "packet_type_to_bits RnsData = 0" | "packet_type_to_bits RnsAnnounce = 1"
| "packet_type_to_bits RnsLinkRequest = 2" | "packet_type_to_bits RnsProof = 3"

definition packet_type_from_bits :: "u8 \<Rightarrow> (rns_packet_type, rns_wire_error) result" where
  "packet_type_from_bits bits =
     (if bits = 0 then Ok RnsData else if bits = 1 then Ok RnsAnnounce
      else if bits = 2 then Ok RnsLinkRequest else if bits = 3 then Ok RnsProof else Err InvalidPacketType)"

record rns_packet_flags =
  fl_header_type :: rns_header_type
  fl_context_flag :: bool
  fl_transport_type :: rns_transport_type
  fl_destination_type :: rns_destination_type
  fl_packet_type :: rns_packet_type

definition encode_flags :: "rns_packet_flags \<Rightarrow> u8" where
  "encode_flags flags =
     push_bit 6 (header_type_to_bits (fl_header_type flags))
     OR push_bit 5 (if fl_context_flag flags then 1 else 0)
     OR push_bit 4 (transport_type_to_bits (fl_transport_type flags))
     OR push_bit 2 (destination_type_to_bits (fl_destination_type flags))
     OR packet_type_to_bits (fl_packet_type flags)"

definition decode_flags :: "u8 \<Rightarrow> (rns_packet_flags, rns_wire_error) result" where
  "decode_flags byte =
     (if byte AND IFAC_FLAG \<noteq> 0 then Err UnsupportedPacketAccessCode
      else
        rbind (header_type_from_bits (drop_bit 6 (byte AND HEADER_TYPE_MASK))) (\<lambda>header_type.
        rbind (transport_type_from_bits (drop_bit 4 (byte AND TRANSPORT_TYPE_MASK))) (\<lambda>transport_type.
        rbind (destination_type_from_bits (drop_bit 2 (byte AND DESTINATION_TYPE_MASK))) (\<lambda>destination_type.
        rbind (packet_type_from_bits (byte AND PACKET_TYPE_MASK)) (\<lambda>packet_type.
          Ok \<lparr>fl_header_type = header_type, fl_context_flag = (byte AND CONTEXT_FLAG_MASK \<noteq> 0),
              fl_transport_type = transport_type, fl_destination_type = destination_type,
              fl_packet_type = packet_type\<rparr>)))))"

section \<open>Packets\<close>

record rns_packet =
  pk_flags :: rns_packet_flags
  pk_hops :: u8
  pk_transport_id :: "u8 list option"
  pk_destination_hash :: "u8 list"
  pk_context :: u8
  pk_data :: "u8 list"

fun header_len :: "rns_header_type \<Rightarrow> usize" where
  "header_len Header1 = RNS_HEADER_1_LEN" | "header_len Header2 = RNS_HEADER_2_LEN"

definition decode_header_1_packet :: "u8 list \<Rightarrow> rns_packet_flags \<Rightarrow> (rns_packet, rns_wire_error) result" where
  "decode_header_1_packet input flags =
     rbind (get_at input 1) (\<lambda>hops.
     rbind (slice input 2 18) (\<lambda>destination_hash.
     rbind (get_at input 18) (\<lambda>context.
     rbind (slice_from input 19) (\<lambda>data.
       Ok \<lparr>pk_flags = flags, pk_hops = hops, pk_transport_id = None,
           pk_destination_hash = destination_hash, pk_context = context, pk_data = data\<rparr>))))"

definition decode_header_2_packet :: "u8 list \<Rightarrow> rns_packet_flags \<Rightarrow> (rns_packet, rns_wire_error) result" where
  "decode_header_2_packet input flags =
     rbind (get_at input 1) (\<lambda>hops.
     rbind (slice input 2 18) (\<lambda>transport_id.
     rbind (slice input 18 34) (\<lambda>destination_hash.
     rbind (get_at input 34) (\<lambda>context.
     rbind (slice_from input 35) (\<lambda>data.
       Ok \<lparr>pk_flags = flags, pk_hops = hops, pk_transport_id = Some transport_id,
           pk_destination_hash = destination_hash, pk_context = context, pk_data = data\<rparr>)))))"

definition decode_packet :: "u8 list \<Rightarrow> (rns_packet, rns_wire_error) result" where
  "decode_packet input =
     (if RNS_MTU < length input then Err (PacketTooLarge (length input) RNS_MTU)
      else if input = [] then Err (PacketTooShort (length input) 1)
      else
        rbind (get_at input 0) (\<lambda>byte.
        rbind (decode_flags byte) (\<lambda>flags.
          let minimum = header_len (fl_header_type flags) in
          if length input < minimum then Err (PacketTooShort (length input) minimum)
          else case fl_header_type flags of
            Header1 \<Rightarrow> decode_header_1_packet input flags
          | Header2 \<Rightarrow> decode_header_2_packet input flags)))"

definition packet_encoded_len :: "rns_packet \<Rightarrow> (usize, rns_wire_error) result" where
  "packet_encoded_len packet =
     (case checked_add (header_len (fl_header_type (pk_flags packet))) (length (pk_data packet)) of
        None \<Rightarrow> Err (PacketTooLarge (length (pk_data packet)) RNS_MTU)
      | Some required \<Rightarrow>
          if RNS_MTU < required then Err (PacketTooLarge required RNS_MTU) else Ok required)"

definition validate_transport_id :: "rns_packet \<Rightarrow> (u8 list option, rns_wire_error) result" where
  "validate_transport_id packet =
     (case (fl_header_type (pk_flags packet), pk_transport_id packet) of
        (Header1, None) \<Rightarrow> Ok None
      | (Header2, Some transport_id) \<Rightarrow> Ok (Some transport_id)
      | (Header1, Some _) \<Rightarrow> Err UnexpectedTransportId
      | (Header2, None) \<Rightarrow> Err MissingTransportId)"

definition set_byte :: "usize \<Rightarrow> u8 \<Rightarrow> (u8 list, unit, rns_wire_error) stm" where
  "set_byte i b = write_at i [b]"

definition encode_header_1_packet :: "rns_packet \<Rightarrow> (u8 list, unit, rns_wire_error) stm" where
  "encode_header_1_packet packet =
     sbind (write_at 2 (pk_destination_hash packet)) (\<lambda>_.
     sbind (set_byte 18 (pk_context packet)) (\<lambda>_.
       write_at 19 (pk_data packet)))"

definition encode_header_2_packet :: "rns_packet \<Rightarrow> u8 list \<Rightarrow> (u8 list, unit, rns_wire_error) stm" where
  "encode_header_2_packet packet transport_id =
     sbind (write_at 2 transport_id) (\<lambda>_.
     sbind (write_at 18 (pk_destination_hash packet)) (\<lambda>_.
     sbind (set_byte 34 (pk_context packet)) (\<lambda>_.
       write_at 35 (pk_data packet))))"

definition encode_packet :: "rns_packet \<Rightarrow> (u8 list, usize, rns_wire_error) stm" where
  "encode_packet packet =
     sbind (slift (packet_encoded_len packet)) (\<lambda>required output.
       if length output < required then (Err (RnsOutputBufferTooShort (length output) required), output)
       else
         sbind (slift (validate_transport_id packet)) (\<lambda>transport_id.
         sbind (set_byte 0 (encode_flags (pk_flags packet))) (\<lambda>_.
         sbind (set_byte 1 (pk_hops packet)) (\<lambda>_.
         sbind (case fl_header_type (pk_flags packet) of
                  Header1 \<Rightarrow> encode_header_1_packet packet
                | Header2 \<Rightarrow>
                    (case transport_id of
                       None \<Rightarrow> sthrow MissingTransportId
                     | Some tid \<Rightarrow> encode_header_2_packet packet tid)) (\<lambda>_.
           sret required)))) output)"

section \<open>Packet hash\<close>

definition HASHABLE_FLAGS_MASK :: u8 where "HASHABLE_FLAGS_MASK = 0b00001111"

fun packet_hashable_len :: "usize \<Rightarrow> rns_header_type \<Rightarrow> usize" where
  "packet_hashable_len input_len Header1 = input_len - 1"
| "packet_hashable_len input_len Header2 = input_len - RNS_TRUNCATED_HASH_LEN - 1"

fun hashable_rest_start :: "rns_header_type \<Rightarrow> usize" where
  "hashable_rest_start Header1 = 2"
| "hashable_rest_start Header2 = 2 + RNS_TRUNCATED_HASH_LEN"

definition write_packet_hashable_part :: "u8 list \<Rightarrow> (u8 list, usize, rns_wire_error) stm" where
  "write_packet_hashable_part input =
     sbind (slift (decode_packet input)) (\<lambda>packet output.
       let header_type = fl_header_type (pk_flags packet);
           hashable_len = packet_hashable_len (length input) header_type in
       if length output < hashable_len then (Err (RnsOutputBufferTooShort (length output) hashable_len), output)
       else
         sbind (slift (get_at input 0)) (\<lambda>byte.
         sbind (set_byte 0 (byte AND HASHABLE_FLAGS_MASK)) (\<lambda>_.
         sbind (slift (slice_from input (hashable_rest_start header_type))) (\<lambda>rest.
         sbind (if length rest = hashable_len - 1 then write_at 1 rest else slift Panic) (\<lambda>_.
           sret hashable_len)))) output)"

definition packet_hash :: "crypto \<Rightarrow> u8 list \<Rightarrow> (u8 list, rns_wire_error) result" where
  "packet_hash c input =
     (case write_packet_hashable_part input (replicate (RNS_MTU - 1) 0) of
        (Ok hashable_len, hashable) \<Rightarrow> rbind (slice_to hashable hashable_len) (\<lambda>part. Ok (full_hash c part))
      | (Err error, _) \<Rightarrow> Err error
      | (Panic, _) \<Rightarrow> Panic)"

definition packet_truncated_hash :: "crypto \<Rightarrow> u8 list \<Rightarrow> (u8 list, rns_wire_error) result" where
  "packet_truncated_hash c input =
     rbind (packet_hash c input) (\<lambda>full. slice_to full RNS_TRUNCATED_HASH_LEN)"

section \<open>Announces\<close>

definition RNS_ANNOUNCE_RANDOM_HASH_LEN :: usize where "RNS_ANNOUNCE_RANDOM_HASH_LEN = 10"
definition RNS_ANNOUNCE_RATCHET_LEN :: usize where "RNS_ANNOUNCE_RATCHET_LEN = 32"
definition RNS_ANNOUNCE_SIGNATURE_LEN :: usize where "RNS_ANNOUNCE_SIGNATURE_LEN = 64"
definition ANNOUNCE_NO_RATCHET_MIN_LEN :: usize where "ANNOUNCE_NO_RATCHET_MIN_LEN = 148"
definition ANNOUNCE_RATCHET_MIN_LEN :: usize where "ANNOUNCE_RATCHET_MIN_LEN = 180"
definition MAX_RETICULUM_RANDOM_HASH_TIMESTAMP :: u64 where "MAX_RETICULUM_RANDOM_HASH_TIMESTAMP = 0xFFFFFFFFFF"
definition RNS_CONTEXT_NONE :: u8 where "RNS_CONTEXT_NONE = 0"

lemmas announce_lengths = RNS_ANNOUNCE_RANDOM_HASH_LEN_def RNS_ANNOUNCE_RATCHET_LEN_def
  RNS_ANNOUNCE_SIGNATURE_LEN_def ANNOUNCE_NO_RATCHET_MIN_LEN_def ANNOUNCE_RATCHET_MIN_LEN_def
  RNS_PUBLIC_IDENTITY_LEN_def

record rns_announce =
  an_destination_hash :: "u8 list"
  an_public_identity :: "u8 list"
  an_name_hash :: "u8 list"
  an_random_hash :: "u8 list"
  an_ratchet :: "u8 list option"
  an_signature :: "u8 list"
  an_app_data :: "u8 list"

record announce_params =
  ap_secret_identity :: rns_secret_identity
  ap_public_identity :: rns_public_identity
  ap_app_name :: "u8 list"
  ap_aspects :: "u8 list list"
  ap_app_data :: "u8 list"

definition decode_no_ratchet_announce :: "rns_packet \<Rightarrow> (rns_announce, rns_wire_error) result" where
  "decode_no_ratchet_announce packet =
     (let data = pk_data packet in
      if length data < ANNOUNCE_NO_RATCHET_MIN_LEN then Err MalformedAnnounce
      else
        rbind (slice data 0 64) (\<lambda>public_identity.
        rbind (slice data 64 74) (\<lambda>name_hash.
        rbind (slice data 74 84) (\<lambda>random_hash.
        rbind (slice data 84 148) (\<lambda>signature.
        rbind (slice_from data 148) (\<lambda>app_data.
          Ok \<lparr>an_destination_hash = pk_destination_hash packet, an_public_identity = public_identity,
              an_name_hash = name_hash, an_random_hash = random_hash, an_ratchet = None,
              an_signature = signature, an_app_data = app_data\<rparr>))))))"

definition decode_ratchet_announce :: "rns_packet \<Rightarrow> (rns_announce, rns_wire_error) result" where
  "decode_ratchet_announce packet =
     (let data = pk_data packet in
      if length data < ANNOUNCE_RATCHET_MIN_LEN then Err MalformedAnnounce
      else
        rbind (slice data 0 64) (\<lambda>public_identity.
        rbind (slice data 64 74) (\<lambda>name_hash.
        rbind (slice data 74 84) (\<lambda>random_hash.
        rbind (slice data 84 116) (\<lambda>ratchet.
        rbind (slice data 116 180) (\<lambda>signature.
        rbind (slice_from data 180) (\<lambda>app_data.
          Ok \<lparr>an_destination_hash = pk_destination_hash packet, an_public_identity = public_identity,
              an_name_hash = name_hash, an_random_hash = random_hash, an_ratchet = Some ratchet,
              an_signature = signature, an_app_data = app_data\<rparr>)))))))"

definition decode_announce_packet :: "rns_packet \<Rightarrow> (rns_announce, rns_wire_error) result" where
  "decode_announce_packet packet =
     (if fl_packet_type (pk_flags packet) \<noteq> RnsAnnounce then Err InvalidPacketType
      else if fl_destination_type (pk_flags packet) \<noteq> RnsSingle then Err InvalidDestinationType
      else if fl_context_flag (pk_flags packet) then decode_ratchet_announce packet
      else decode_no_ratchet_announce packet)"

definition checked_signed_data_len_add :: "usize \<Rightarrow> usize \<Rightarrow> (usize, rns_wire_error) result" where
  "checked_signed_data_len_add len addend = ok_or (PacketTooLarge len RNS_MTU) (checked_add len addend)"

definition announce_signed_data_len :: "rns_announce \<Rightarrow> (usize, rns_wire_error) result" where
  "announce_signed_data_len announce =
     rbind (checked_signed_data_len_add 16 RNS_PUBLIC_IDENTITY_LEN) (\<lambda>len.
     rbind (checked_signed_data_len_add len RNS_NAME_HASH_LEN) (\<lambda>len.
     rbind (checked_signed_data_len_add len RNS_ANNOUNCE_RANDOM_HASH_LEN) (\<lambda>len.
     rbind (if an_ratchet announce \<noteq> None then checked_signed_data_len_add len RNS_ANNOUNCE_RATCHET_LEN else Ok len) (\<lambda>len.
       checked_signed_data_len_add len (length (an_app_data announce))))))"

text \<open>\<open>write_part\<close> copies \<open>input\<close> at the offset and returns the offset behind it.\<close>

definition write_part :: "usize \<Rightarrow> u8 list \<Rightarrow> (u8 list, usize, rns_wire_error) stm" where
  "write_part offset input = sbind (write_at offset input) (\<lambda>_. sret (offset + length input))"

definition build_announce_signed_data :: "rns_announce \<Rightarrow> (u8 list, usize, rns_wire_error) stm" where
  "build_announce_signed_data announce =
     sbind (slift (announce_signed_data_len announce)) (\<lambda>required output.
       if length output < required then (Err (RnsOutputBufferTooShort (length output) required), output)
       else
         sbind (write_part 0 (an_destination_hash announce)) (\<lambda>offset.
         sbind (write_part offset (an_public_identity announce)) (\<lambda>offset.
         sbind (write_part offset (an_name_hash announce)) (\<lambda>offset.
         sbind (write_part offset (an_random_hash announce)) (\<lambda>offset.
         sbind (case an_ratchet announce of None \<Rightarrow> sret offset | Some ratchet \<Rightarrow> write_part offset ratchet) (\<lambda>offset.
           write_part offset (an_app_data announce)))))) output)"

text \<open>The signed bytes as the callers read them back: \<open>&signed_data[..signed_data_len]\<close>.\<close>

definition signed_data_of :: "rns_announce \<Rightarrow> (u8 list, rns_wire_error) result" where
  "signed_data_of announce =
     (case build_announce_signed_data announce (replicate RNS_MTU 0) of
        (Ok len, buf) \<Rightarrow> slice_to buf len
      | (Err error, _) \<Rightarrow> Err error
      | (Panic, _) \<Rightarrow> Panic)"

definition validate_announce_packet :: "crypto \<Rightarrow> rns_packet \<Rightarrow> (rns_announce, rns_wire_error) result" where
  "validate_announce_packet c packet =
     rbind (decode_announce_packet packet) (\<lambda>announce.
     rbind (map_err map_crypto_error (public_identity_from_bytes c (an_public_identity announce))) (\<lambda>public_identity.
     rbind (identity_hash c public_identity) (\<lambda>id_hash.
     rbind (destination_hash c (an_name_hash announce) (Some id_hash)) (\<lambda>expected.
       if expected \<noteq> an_destination_hash announce then Err DestinationMismatch
       else
         rbind (signed_data_of announce) (\<lambda>signed_data.
         rbind (map_err map_crypto_error (verify c public_identity signed_data (an_signature announce))) (\<lambda>_.
           Ok announce))))))"

definition announce_encode_data_len :: "usize \<Rightarrow> (usize, rns_wire_error) result" where
  "announce_encode_data_len app_data_len =
     ok_or (PacketTooLarge app_data_len RNS_MTU) (checked_add ANNOUNCE_NO_RATCHET_MIN_LEN app_data_len)"

definition packet_len_for_announce_data :: "usize \<Rightarrow> (usize, rns_wire_error) result" where
  "packet_len_for_announce_data announce_data_len =
     rbind (ok_or (PacketTooLarge announce_data_len RNS_MTU) (checked_add RNS_HEADER_1_LEN announce_data_len)) (\<lambda>packet_len.
       if RNS_MTU < packet_len then Err (PacketTooLarge packet_len RNS_MTU) else Ok packet_len)"

definition reticulum_random_hash :: "'g rng \<Rightarrow> u64 \<Rightarrow> ('g, u8 list, rns_wire_error) stm" where
  "reticulum_random_hash rng timestamp g =
     (if MAX_RETICULUM_RANDOM_HASH_TIMESTAMP < timestamp then (Err TimestampOverflow, g)
      else case rng 5 g of
        (None, g') \<Rightarrow> (Err RnsRandomSourceFailed, g')
      | (Some random, g') \<Rightarrow> (Ok (random @ drop 3 (u64_to_be_bytes timestamp)), g'))"

definition announce_flags :: rns_packet_flags where
  "announce_flags = \<lparr>fl_header_type = Header1, fl_context_flag = False, fl_transport_type = RnsBroadcast,
     fl_destination_type = RnsSingle, fl_packet_type = RnsAnnounce\<rparr>"

text \<open>
  The body of \<open>encode_announce_packet\<close> once the random hash is drawn: it builds and signs the
  announce and writes the packet.
\<close>

definition encode_announce_with ::
  "crypto \<Rightarrow> announce_params \<Rightarrow> u8 list \<Rightarrow> u8 list \<Rightarrow> u8 list \<Rightarrow> (u8 list, usize, rns_wire_error) stm" where
  "encode_announce_with c params name_hash dest_hash random_hash output =
     (let public_bytes = public_identity_to_bytes (ap_public_identity params);
          unsigned_announce = \<lparr>an_destination_hash = dest_hash, an_public_identity = public_bytes,
            an_name_hash = name_hash, an_random_hash = random_hash, an_ratchet = None,
            an_signature = replicate RNS_ANNOUNCE_SIGNATURE_LEN 0, an_app_data = ap_app_data params\<rparr> in
      case rbind (signed_data_of unsigned_announce) (\<lambda>signed_data.
             map_err map_crypto_error (sign c (ap_secret_identity params) signed_data)) of
        Err error \<Rightarrow> (Err error, output)
      | Panic \<Rightarrow> (Panic, output)
      | Ok signature \<Rightarrow>
          (case sbind (write_part 0 public_bytes) (\<lambda>offset.
                sbind (write_part offset name_hash) (\<lambda>offset.
                sbind (write_part offset random_hash) (\<lambda>offset.
                sbind (write_part offset signature) (\<lambda>offset.
                  write_part offset (ap_app_data params))))) (replicate (RNS_MTU - RNS_HEADER_1_LEN) 0) of
             (Ok offset, announce_data) \<Rightarrow>
               sbind (slift (slice_to announce_data offset)) (\<lambda>data.
                 encode_packet \<lparr>pk_flags = announce_flags, pk_hops = 0, pk_transport_id = None,
                   pk_destination_hash = dest_hash, pk_context = RNS_CONTEXT_NONE, pk_data = data\<rparr>) output
           | (Err error, _) \<Rightarrow> (Err error, output)
           | (Panic, _) \<Rightarrow> (Panic, output)))"

definition encode_announce_packet ::
  "crypto \<Rightarrow> announce_params \<Rightarrow> 'g rng \<Rightarrow> u64 \<Rightarrow> ('g \<times> u8 list, usize, rns_wire_error) stm" where
  "encode_announce_packet c params rng now_unix_secs = (\<lambda>(g, output).
     case rbind (announce_encode_data_len (length (ap_app_data params))) packet_len_for_announce_data of
       Err error \<Rightarrow> (Err error, (g, output))
     | Panic \<Rightarrow> (Panic, (g, output))
     | Ok packet_len \<Rightarrow>
         if length output < packet_len then (Err (RnsOutputBufferTooShort (length output) packet_len), (g, output))
         else case rbind (map_err (\<lambda>_. InvalidDestinationName)
                     (destination_name_hash c (ap_app_name params) (ap_aspects params))) (\<lambda>name_hash.
                rbind (identity_hash c (ap_public_identity params)) (\<lambda>id_hash.
                rbind (destination_hash c name_hash (Some id_hash)) (\<lambda>dest_hash. Ok (name_hash, dest_hash)))) of
           Err error \<Rightarrow> (Err error, (g, output))
         | Panic \<Rightarrow> (Panic, (g, output))
         | Ok (name_hash, dest_hash) \<Rightarrow>
             (case reticulum_random_hash rng now_unix_secs g of
                (Err error, g') \<Rightarrow> (Err error, (g', output))
              | (Panic, g') \<Rightarrow> (Panic, (g', output))
              | (Ok random_hash, g') \<Rightarrow>
                  (case encode_announce_with c params name_hash dest_hash random_hash output of
                     (r, output') \<Rightarrow> (r, (g', output')))))"

section \<open>Interface access codes\<close>

definition RNS_IFAC_MIN_SIZE :: usize where "RNS_IFAC_MIN_SIZE = 1"
definition RNS_IFAC_MAX_SIZE :: usize where "RNS_IFAC_MAX_SIZE = 64"
definition HEADER_LEN :: usize where "HEADER_LEN = 2"

definition validate_ifac_size :: "usize \<Rightarrow> (unit, rns_wire_error) result" where
  "validate_ifac_size ifac_size =
     (if RNS_IFAC_MIN_SIZE \<le> ifac_size \<and> ifac_size \<le> RNS_IFAC_MAX_SIZE then Ok ()
      else Err (InvalidIfacSize ifac_size RNS_IFAC_MAX_SIZE))"

definition validate_ifac_key :: "u8 list \<Rightarrow> (unit, rns_wire_error) result" where
  "validate_ifac_key ifac_key = (if ifac_key = [] then Err InvalidIfacKey else Ok ())"

definition validate_wire_len :: "usize \<Rightarrow> (unit, rns_wire_error) result" where
  "validate_wire_len len = (if RNS_MTU < len then Err (PacketTooLarge len RNS_MTU) else Ok ())"

definition validate_raw_packet_len :: "usize \<Rightarrow> (unit, rns_wire_error) result" where
  "validate_raw_packet_len len =
     (if len \<le> HEADER_LEN then Err (PacketTooShort len (HEADER_LEN + 1)) else validate_wire_len len)"

definition constant_time_eq :: "u8 list \<Rightarrow> u8 list \<Rightarrow> bool" where
  "constant_time_eq left right =
     (if length left \<noteq> length right then False
      else fold (\<lambda>(l, r) diff. diff OR (l XOR r)) (zip left right) 0 = (0 :: u8))"

text \<open>\<open>&signature[signature.len() - ifac_size..]\<close>.\<close>

definition ifac_of :: "crypto \<Rightarrow> rns_secret_identity \<Rightarrow> usize \<Rightarrow> u8 list \<Rightarrow> (u8 list, rns_wire_error) result" where
  "ifac_of c ifac_identity ifac_size packet =
     rbind (map_err map_crypto_error (sign c ifac_identity packet)) (\<lambda>signature.
       if ifac_size \<le> length signature then slice_from signature (length signature - ifac_size) else Panic)"

definition ifac_mask :: "crypto \<Rightarrow> u8 list \<Rightarrow> u8 list \<Rightarrow> usize \<Rightarrow> (u8 list, rns_wire_error) result" where
  "ifac_mask c ifac ifac_key n =
     (case rns_hkdf_sha256 c ifac (Some ifac_key) None (replicate n 0) of
        (Ok _, keystream) \<Rightarrow> Ok keystream
      | (Err error, _) \<Rightarrow> Err (map_crypto_error error)
      | (Panic, _) \<Rightarrow> Panic)"

text \<open>The masked bytes \<open>out[..required]\<close>, from the raw packet, the code and the keystream.\<close>

definition ifac_masked :: "u8 list \<Rightarrow> u8 list \<Rightarrow> u8 list \<Rightarrow> u8 list" where
  "ifac_masked raw_packet ifac keystream =
     (let ifac_size = length ifac in
      [((raw_packet ! 0 OR IFAC_FLAG) XOR keystream ! 0) OR IFAC_FLAG, keystream ! 1 XOR raw_packet ! 1] @ ifac @
      map (\<lambda>index. raw_packet ! (index - ifac_size) XOR keystream ! index)
        [HEADER_LEN + ifac_size ..< length raw_packet + ifac_size])"

definition ifac_apply_outbound ::
  "crypto \<Rightarrow> u8 list \<Rightarrow> rns_secret_identity \<Rightarrow> u8 list \<Rightarrow> usize \<Rightarrow> (u8 list, usize, rns_wire_error) stm" where
  "ifac_apply_outbound c raw_packet ifac_identity ifac_key ifac_size =
     sbind (slift (validate_ifac_size ifac_size)) (\<lambda>_.
     sbind (slift (validate_ifac_key ifac_key)) (\<lambda>_.
     sbind (slift (validate_raw_packet_len (length raw_packet))) (\<lambda>_.
     sbind (slift (get_at raw_packet 0)) (\<lambda>byte.
     if byte AND IFAC_FLAG \<noteq> 0 then sthrow UnsupportedPacketAccessCode
     else
       sbind (slift (ok_or (PacketTooLarge (length raw_packet) RNS_MTU) (checked_add (length raw_packet) ifac_size))) (\<lambda>required.
       sbind (slift (validate_wire_len required)) (\<lambda>_ out.
         if length out < required then (Err (RnsOutputBufferTooShort (length out) required), out)
         else
           sbind (slift (ifac_of c ifac_identity ifac_size raw_packet)) (\<lambda>ifac.
           sbind (slift (ifac_mask c ifac ifac_key required)) (\<lambda>keystream.
           sbind (write_at 0 (ifac_masked raw_packet ifac keystream)) (\<lambda>_. sret required))) out))))))"

definition ifac_unmasked :: "u8 list \<Rightarrow> usize \<Rightarrow> u8 list \<Rightarrow> u8 list" where
  "ifac_unmasked masked_packet ifac_size keystream =
     [(masked_packet ! 0 XOR keystream ! 0) AND NOT IFAC_FLAG, masked_packet ! 1 XOR keystream ! 1] @
     map (\<lambda>output_index. masked_packet ! (output_index + ifac_size) XOR keystream ! (output_index + ifac_size))
       [HEADER_LEN ..< length masked_packet - ifac_size]"

definition ifac_verify_inbound ::
  "crypto \<Rightarrow> u8 list \<Rightarrow> rns_secret_identity \<Rightarrow> u8 list \<Rightarrow> usize \<Rightarrow> (u8 list, usize, rns_wire_error) stm" where
  "ifac_verify_inbound c masked_packet ifac_identity ifac_key ifac_size =
     sbind (slift (validate_ifac_size ifac_size)) (\<lambda>_.
     sbind (slift (validate_ifac_key ifac_key)) (\<lambda>_.
     sbind (slift (validate_wire_len (length masked_packet))) (\<lambda>_.
     if length masked_packet \<le> HEADER_LEN + ifac_size
     then sthrow (PacketTooShort (length masked_packet) (HEADER_LEN + ifac_size + 1))
     else
       sbind (slift (get_at masked_packet 0)) (\<lambda>byte.
       if byte AND IFAC_FLAG = 0 then sthrow MissingPacketAccessCode
       else (\<lambda>out.
         let required = length masked_packet - ifac_size in
         if length out < required then (Err (RnsOutputBufferTooShort (length out) required), out)
         else
           sbind (slift (slice masked_packet HEADER_LEN (HEADER_LEN + ifac_size))) (\<lambda>ifac.
           sbind (slift (ifac_mask c ifac ifac_key (length masked_packet))) (\<lambda>keystream.
           let unmasked = ifac_unmasked masked_packet ifac_size keystream in
           sbind (slift (ifac_of c ifac_identity ifac_size unmasked)) (\<lambda>expected_ifac.
             if constant_time_eq ifac expected_ifac
             then sbind (write_at 0 unmasked) (\<lambda>_. sret required)
             else sthrow InvalidPacketAccessCode))) out)))))"

section \<open>Carriage in HYF envelopes\<close>

datatype hyf_link_rns_error =
    RnsWire rns_wire_error
  | RnsHyfWire hyf_wire_error
  | NotForeignRnsPacket

record rns_packet_ref =
  rp_raw :: "u8 list"
  rp_destination_hash :: "u8 list"

record rns_wrap_params =
  wp_source_node :: node_id
  wp_destination :: hyf_destination
  wp_created_at_ms :: timestamp_ms
  wp_expires_at_ms :: timestamp_ms
  wp_hop_limit :: u8
  wp_message_id :: message_id

definition validate_rns_packet :: "u8 list \<Rightarrow> (rns_packet_ref, hyf_link_rns_error) result" where
  "validate_rns_packet raw =
     rbind (map_err RnsWire (decode_packet raw)) (\<lambda>packet.
       Ok \<lparr>rp_raw = raw, rp_destination_hash = pk_destination_hash packet\<rparr>)"

definition wrap_rns_packet :: "rns_packet_ref \<Rightarrow> rns_wrap_params \<Rightarrow> (hyf_envelope, hyf_link_rns_error) result" where
  "wrap_rns_packet packet params =
     rbind (validate_rns_packet (rp_raw packet)) (\<lambda>_.
       let envelope = \<lparr>env_version = HYF_WIRE_VERSION_0, env_message_id = wp_message_id params,
             env_source = wp_source_node params, env_destination = wp_destination params,
             env_created_at_ms = wp_created_at_ms params, env_expires_at_ms = wp_expires_at_ms params,
             env_hop_limit = wp_hop_limit params, env_payload_kind = ForeignRnsPacket,
             env_payload = rp_raw packet\<rparr> in
       rbind (map_err RnsHyfWire (validate_envelope envelope)) (\<lambda>_. Ok envelope))"

definition unwrap_rns_packet :: "hyf_envelope \<Rightarrow> (u8 list, hyf_link_rns_error) result" where
  "unwrap_rns_packet envelope =
     rbind (map_err RnsHyfWire (validate_envelope envelope)) (\<lambda>_.
       if env_payload_kind envelope \<noteq> ForeignRnsPacket then Err NotForeignRnsPacket
       else rbind (validate_rns_packet (env_payload envelope)) (\<lambda>packet. Ok (rp_raw packet)))"

section \<open>Flags are a bijection\<close>

definition flags_canonical :: "u8 \<Rightarrow> bool" where
  "flags_canonical b \<longleftrightarrow> (case decode_flags b of Ok f \<Rightarrow> encode_flags f = b | Err e \<Rightarrow> True | Panic \<Rightarrow> False)"

lemma flags_canonical_all: "list_all (\<lambda>n. flags_canonical (word_of_nat n)) [0..<256]"
  by code_simp

lemma decode_encode_flags: "decode_flags (encode_flags f) = Ok f"
proof (cases f)
  case (fields ht cf tt dt pt)
  then show ?thesis by (cases ht; cases cf; cases tt; cases dt; cases pt)
    (simp_all add: decode_flags_def encode_flags_def flag_masks header_type_from_bits_def transport_type_from_bits_def
       destination_type_from_bits_def packet_type_from_bits_def)
qed

lemma decode_flags_canonical: "decode_flags b = Ok f \<Longrightarrow> encode_flags f = b"
proof -
  have "flags_canonical b"
    by (rule u8_cases [of flags_canonical b]) (use flags_canonical_all in \<open>simp add: list_all_iff\<close>)
  then show "decode_flags b = Ok f \<Longrightarrow> encode_flags f = b" by (simp add: flags_canonical_def)
qed

lemma decode_flags_no_panic: "decode_flags b \<noteq> Panic"
proof -
  have "flags_canonical b"
    by (rule u8_cases [of flags_canonical b]) (use flags_canonical_all in \<open>simp add: list_all_iff\<close>)
  then show ?thesis by (auto simp: flags_canonical_def)
qed

section \<open>The packet codec is a bijection\<close>

definition wf_rns_packet :: "rns_packet \<Rightarrow> bool" where
  "wf_rns_packet p \<longleftrightarrow> length (pk_destination_hash p) = 16 \<and>
     (case fl_header_type (pk_flags p) of
        Header1 \<Rightarrow> pk_transport_id p = None
      | Header2 \<Rightarrow> (\<exists>tid. pk_transport_id p = Some tid \<and> length tid = 16))"

definition rns_packet_bytes :: "rns_packet \<Rightarrow> u8 list" where
  "rns_packet_bytes p = [encode_flags (pk_flags p), pk_hops p] @
     (case pk_transport_id p of None \<Rightarrow> [] | Some tid \<Rightarrow> tid) @
     pk_destination_hash p @ [pk_context p] @ pk_data p"

lemma length_rns_packet_bytes:
  "wf_rns_packet p \<Longrightarrow> length (rns_packet_bytes p) = header_len (fl_header_type (pk_flags p)) + length (pk_data p)"
  by (auto simp: wf_rns_packet_def rns_packet_bytes_def RNS_HEADER_1_LEN_def RNS_HEADER_2_LEN_def
      split: rns_header_type.splits)

lemma header_1_split:
  assumes "19 \<le> length xs"
  shows "xs ! 0 # xs ! 1 # take 16 (drop 2 xs) @ xs ! 18 # drop 19 xs = xs"
proof -
  have "xs = take 2 xs @ take 16 (drop 2 xs) @ drop 18 xs"
    using append_take_drop_id [of 16 "drop 2 xs"] append_take_drop_id [of 2 xs] by simp
  moreover have "take 2 xs = [xs ! 0, xs ! 1]" using assms by (cases xs; cases "tl xs") auto
  moreover have "drop 18 xs = xs ! 18 # drop 19 xs"
    using assms Cons_nth_drop_Suc [of 18 xs] by simp
  ultimately show ?thesis by (metis append_Cons append_Nil)
qed

lemma header_2_split:
  assumes "35 \<le> length xs"
  shows "xs ! 0 # xs ! 1 # take 16 (drop 2 xs) @ take 16 (drop 18 xs) @ xs ! 34 # drop 35 xs = xs"
proof -
  have "drop 18 xs = xs ! 18 # drop 19 xs"
    using assms Cons_nth_drop_Suc [of 18 xs] by simp
  moreover have "drop 18 xs = take 16 (drop 18 xs) @ drop 34 xs"
    using append_take_drop_id [of 16 "drop 18 xs"] by simp
  moreover have "drop 34 xs = xs ! 34 # drop 35 xs"
    using assms Cons_nth_drop_Suc [of 34 xs] by simp
  moreover have "19 \<le> length xs" using assms by simp
  ultimately show ?thesis using header_1_split [of xs] by metis
qed

lemma decode_packet_sound:
  assumes "decode_packet input = Ok p"
  shows "wf_rns_packet p \<and> length input \<le> RNS_MTU \<and> rns_packet_bytes p = input"
proof -
  obtain flags where flags: "decode_flags (input ! 0) = Ok flags" and ne: "input \<noteq> []" and mtu: "length input \<le> RNS_MTU"
    and min: "header_len (fl_header_type flags) \<le> length input"
    and dec: "(case fl_header_type flags of Header1 \<Rightarrow> decode_header_1_packet input flags
      | Header2 \<Rightarrow> decode_header_2_packet input flags) = Ok p"
    using assms by (auto simp: decode_packet_def get_at_def Let_def split: if_splits)
  note enc = decode_flags_canonical [OF flags]
  show ?thesis
  proof (cases "fl_header_type flags")
    case Header1
    with dec min header_1_split [of input] enc mtu show ?thesis
      by (auto simp: decode_header_1_packet_def wf_rns_packet_def rns_packet_bytes_def get_at_def slice_def
          slice_from_def RNS_HEADER_1_LEN_def)
  next
    case Header2
    with dec min header_2_split [of input] enc mtu show ?thesis
      by (auto simp: decode_header_2_packet_def wf_rns_packet_def rns_packet_bytes_def get_at_def slice_def
          slice_from_def RNS_HEADER_2_LEN_def)
  qed
qed

lemma decode_packet_complete:
  assumes wf: "wf_rns_packet p" and mtu: "length (rns_packet_bytes p) \<le> RNS_MTU"
  shows "decode_packet (rns_packet_bytes p) = Ok p"
proof (cases "fl_header_type (pk_flags p)")
  case Header1
  with wf have tid: "pk_transport_id p = None" and dest: "length (pk_destination_hash p) = 16"
    by (simp_all add: wf_rns_packet_def)
  with Header1 mtu show ?thesis
    by (simp add: decode_packet_def rns_packet_bytes_def get_at_def slice_def slice_from_def decode_encode_flags
        decode_header_1_packet_def RNS_HEADER_1_LEN_def nth_append nth_Cons')
next
  case Header2
  with wf obtain tid where tid: "pk_transport_id p = Some tid" "length tid = 16"
    and dest: "length (pk_destination_hash p) = 16" by (auto simp: wf_rns_packet_def)
  with Header2 mtu show ?thesis
    by (simp add: decode_packet_def rns_packet_bytes_def get_at_def slice_def slice_from_def decode_encode_flags
        decode_header_2_packet_def RNS_HEADER_2_LEN_def nth_append nth_Cons')
qed

lemma decode_packet_no_panic: "decode_packet input \<noteq> Panic"
proof (cases "decode_flags (input ! 0)")
  case (Ok flags)
  then show ?thesis
    by (cases "fl_header_type flags")
       (auto simp: decode_packet_def get_at_def slice_def slice_from_def decode_header_1_packet_def
        decode_header_2_packet_def RNS_HEADER_1_LEN_def RNS_HEADER_2_LEN_def Let_def)
qed (auto simp: decode_packet_def get_at_def decode_flags_no_panic)

lemma write_at_append:
  "length done = i \<Longrightarrow> length src \<le> length rest \<Longrightarrow>
   write_at i src (done @ rest) = (Ok (), done @ src @ drop (length src) rest)"
  by (simp add: write_at_eq)

lemma encode_packet_eq:
  assumes wf: "wf_rns_packet p" and mtu: "length (rns_packet_bytes p) \<le> RNS_MTU"
    and room: "length (rns_packet_bytes p) \<le> length out"
  shows "encode_packet p out = (Ok (length (rns_packet_bytes p)),
    rns_packet_bytes p @ drop (length (rns_packet_bytes p)) out)"
proof -
  let ?n = "length (rns_packet_bytes p)" and ?f = "encode_flags (pk_flags p)"
  note len = length_rns_packet_bytes [OF wf]
  have "RNS_MTU \<le> usize_max" by (simp add: RNS_MTU_def usize_max_def)
  with mtu have required: "packet_encoded_len p = Ok ?n"
    unfolding packet_encoded_len_def len by (simp add: checked_add_def)
  have two: "2 \<le> length out" using room len by (cases "fl_header_type (pk_flags p)") (simp_all add: rns_lengths)
  have s1: "set_byte 0 ?f out = (Ok (), [?f] @ drop 1 out)"
    using two by (simp add: set_byte_def write_at_eq)
  have s2: "set_byte 1 (pk_hops p) ([?f] @ drop 1 out) = (Ok (), [?f, pk_hops p] @ drop 2 out)"
    using two by (simp add: set_byte_def write_at_eq numeral_2_eq_2)
  have dest: "length (pk_destination_hash p) = 16" using wf by (simp add: wf_rns_packet_def)
  show ?thesis
  proof (cases "fl_header_type (pk_flags p)")
    case Header1
    with wf have tid: "pk_transport_id p = None" by (simp add: wf_rns_packet_def)
    let ?head = "[?f, pk_hops p] @ pk_destination_hash p @ [pk_context p]"
    have "write_at 19 (pk_data p) (?head @ drop 19 out) = 
        ((Ok (), ?head @ pk_data p @ drop (length (pk_data p)) (drop 19 out)) :: (unit, rns_wire_error) result \<times> u8 list)"
      using room len Header1 dest by (intro write_at_append) (auto simp: RNS_HEADER_1_LEN_def)
    then have "encode_header_1_packet p ([?f, pk_hops p] @ drop 2 out) = (Ok (), rns_packet_bytes p @ drop ?n out)"
      using room len Header1 dest tid
      by (simp add: encode_header_1_packet_def sbind_def set_byte_def write_at_eq rns_packet_bytes_def
          RNS_HEADER_1_LEN_def add.commute)
    with Header1 tid required s1 s2 room show ?thesis
      by (simp add: encode_packet_def sbind_def slift_def sret_def validate_transport_id_def)
  next
    case Header2
    with wf obtain tid where tid: "pk_transport_id p = Some tid" "length tid = 16" by (auto simp: wf_rns_packet_def)
    let ?head = "[?f, pk_hops p] @ tid @ pk_destination_hash p @ [pk_context p]"
    have "write_at 35 (pk_data p) (?head @ drop 35 out) = 
        ((Ok (), ?head @ pk_data p @ drop (length (pk_data p)) (drop 35 out)) :: (unit, rns_wire_error) result \<times> u8 list)"
      using room len Header2 dest tid by (intro write_at_append) (auto simp: RNS_HEADER_2_LEN_def)
    then have "encode_header_2_packet p tid ([?f, pk_hops p] @ drop 2 out) = (Ok (), rns_packet_bytes p @ drop ?n out)"
      using room len Header2 dest tid
      by (simp add: encode_header_2_packet_def sbind_def set_byte_def write_at_eq rns_packet_bytes_def
          RNS_HEADER_2_LEN_def add.commute)
    with Header2 tid required s1 s2 room show ?thesis
      by (simp add: encode_packet_def sbind_def slift_def sret_def validate_transport_id_def)
  qed
qed

section \<open>The packet hash\<close>

text \<open>What the hash covers: the destination and packet types, the destination, context and data.\<close>

definition hashable_part :: "rns_packet \<Rightarrow> u8 list" where
  "hashable_part p =
     (encode_flags (pk_flags p) AND HASHABLE_FLAGS_MASK) # pk_destination_hash p @ [pk_context p] @ pk_data p"

lemma write_packet_hashable_part_eq:
  assumes dec: "decode_packet input = Ok p" and room: "RNS_MTU - 1 \<le> length output"
  shows "write_packet_hashable_part input output =
    (Ok (length (hashable_part p)), hashable_part p @ drop (length (hashable_part p)) output)"
proof -
  note sound = decode_packet_sound [OF dec]
  have input: "input = rns_packet_bytes p" and wf: "wf_rns_packet p" and mtu: "length input \<le> 500"
    using sound by (simp_all add: RNS_MTU_def)
  have len: "length (hashable_part p) = packet_hashable_len (length input) (fl_header_type (pk_flags p))"
    and rest: "drop (hashable_rest_start (fl_header_type (pk_flags p))) input =
      pk_destination_hash p @ [pk_context p] @ pk_data p"
    and start: "hashable_rest_start (fl_header_type (pk_flags p)) \<le> length input"
    and le: "length (hashable_part p) \<le> 499"
    using wf mtu unfolding input
    by (auto simp: wf_rns_packet_def rns_packet_bytes_def hashable_part_def RNS_TRUNCATED_HASH_LEN_def
        split: rns_header_type.splits)
  have first: "input ! 0 = encode_flags (pk_flags p)" "input \<noteq> []" unfolding input by (simp_all add: rns_packet_bytes_def)
  let ?h = "encode_flags (pk_flags p) AND HASHABLE_FLAGS_MASK" and ?rest = "pk_destination_hash p @ [pk_context p] @ pk_data p"
  have part: "hashable_part p = [?h] @ ?rest" by (simp add: hashable_part_def)
  have s1: "set_byte 0 ?h output = (Ok (), [?h] @ drop 1 output)"
    using room by (simp add: set_byte_def write_at_eq RNS_MTU_def)
  have s2: "write_at 1 ?rest ([?h] @ drop 1 output) = 
      ((Ok (), [?h] @ ?rest @ drop (length ?rest) (drop 1 output)) :: (unit, rns_wire_error) result \<times> u8 list)"
    using room le part by (intro write_at_append) (auto simp: RNS_MTU_def)
  have "length ?rest = length (hashable_part p) - 1" by (simp add: part)
  with first len [symmetric] rest start le room dec s1 s2 show ?thesis
    unfolding write_packet_hashable_part_def
    by (simp add: sbind_def slift_def sret_def get_at_def slice_from_def RNS_MTU_def Let_def hashable_part_def)
qed

lemma packet_hash_eq:
  assumes "decode_packet input = Ok p"
  shows "packet_hash c input = Ok (full_hash c (hashable_part p))"
  using write_packet_hashable_part_eq [OF assms, of "replicate (RNS_MTU - 1) 0"]
  by (simp add: packet_hash_def slice_to_def)

section \<open>Announces\<close>

abbreviation ratchet_bytes :: "rns_announce \<Rightarrow> u8 list" where
  "ratchet_bytes a \<equiv> (case an_ratchet a of None \<Rightarrow> [] | Some ratchet \<Rightarrow> ratchet)"

definition announce_data :: "rns_announce \<Rightarrow> u8 list" where
  "announce_data a = an_public_identity a @ an_name_hash a @ an_random_hash a @ ratchet_bytes a @
     an_signature a @ an_app_data a"

definition announce_signed_bytes :: "rns_announce \<Rightarrow> u8 list" where
  "announce_signed_bytes a = an_destination_hash a @ an_public_identity a @ an_name_hash a @
     an_random_hash a @ ratchet_bytes a @ an_app_data a"

definition wf_announce :: "rns_announce \<Rightarrow> bool" where
  "wf_announce a \<longleftrightarrow> length (an_destination_hash a) = 16 \<and> length (an_public_identity a) = 64 \<and>
     length (an_name_hash a) = 10 \<and> length (an_random_hash a) = 10 \<and> length (an_signature a) = 64 \<and>
     (\<forall>ratchet. an_ratchet a = Some ratchet \<longrightarrow> length ratchet = 32)"

lemma write_part_append:
  "length done = i \<Longrightarrow> length src \<le> length rest \<Longrightarrow>
   write_part i src (done @ rest) = (Ok (i + length src), (done @ src) @ drop (length src) rest)"
  by (simp add: write_part_def sbind_def sret_def write_at_append)

lemma announce_signed_data_len_eq:
  assumes "wf_announce a" and "length (announce_signed_bytes a) \<le> usize_max"
  shows "announce_signed_data_len a = Ok (length (announce_signed_bytes a))"
  using assms by (cases "an_ratchet a")
    (auto simp: announce_signed_data_len_def checked_signed_data_len_add_def checked_add_def wf_announce_def
      announce_signed_bytes_def announce_lengths RNS_NAME_HASH_LEN_def)

lemma build_announce_signed_data_eq:
  assumes wf: "wf_announce a" and room: "length (announce_signed_bytes a) \<le> length out" "length out \<le> usize_max"
  shows "build_announce_signed_data a out =
    (Ok (length (announce_signed_bytes a)), announce_signed_bytes a @ drop (length (announce_signed_bytes a)) out)"
proof -
  let ?d = "an_destination_hash a" and ?p = "an_public_identity a" and ?n = "an_name_hash a" and ?r = "an_random_hash a"
  let ?t = "ratchet_bytes a"
  have lens: "length ?d = 16" "length ?p = 64" "length ?n = 10" "length ?r = 10" using wf by (simp_all add: wf_announce_def)
  have total: "100 + length ?t + length (an_app_data a) \<le> length out" using room(1) lens by (simp add: announce_signed_bytes_def)
  have "announce_signed_data_len a = Ok (length (announce_signed_bytes a))"
    using room by (intro announce_signed_data_len_eq [OF wf]) simp
  moreover have "write_part 0 ?d out = (Ok 16, ?d @ drop 16 out)"
    using write_part_append [of "[]" 0 ?d out] lens total by simp
  moreover have "write_part 16 ?p (?d @ drop 16 out) = (Ok 80, ?d @ ?p @ drop 80 out)"
    using write_part_append [of ?d 16 ?p "drop 16 out"] lens total by simp
  moreover have "write_part 80 ?n (?d @ ?p @ drop 80 out) = (Ok 90, ?d @ ?p @ ?n @ drop 90 out)"
    using write_part_append [of "?d @ ?p" 80 ?n "drop 80 out"] lens total by simp
  moreover have "write_part 90 ?r (?d @ ?p @ ?n @ drop 90 out) = (Ok 100, ?d @ ?p @ ?n @ ?r @ drop 100 out)"
    using write_part_append [of "?d @ ?p @ ?n" 90 ?r "drop 90 out"] lens total by simp
  moreover have "(case an_ratchet a of None \<Rightarrow> sret 100 | Some ratchet \<Rightarrow> write_part 100 ratchet) (?d @ ?p @ ?n @ ?r @ drop 100 out) =
      (Ok (100 + length ?t), ?d @ ?p @ ?n @ ?r @ ?t @ drop (100 + length ?t) out)"
    using write_part_append [of "?d @ ?p @ ?n @ ?r" 100 ?t "drop 100 out"] lens total
    by (simp add: sret_def add.commute split: option.splits)
  moreover have "write_part (100 + length ?t) (an_app_data a) (?d @ ?p @ ?n @ ?r @ ?t @ drop (100 + length ?t) out) =
      (Ok (length (announce_signed_bytes a)), announce_signed_bytes a @ drop (length (announce_signed_bytes a)) out)"
    using write_part_append [of "?d @ ?p @ ?n @ ?r @ ?t" "100 + length ?t" "an_app_data a" "drop (100 + length ?t) out"] lens total
    by (simp add: announce_signed_bytes_def ac_simps)
  ultimately show ?thesis
    using room(1) by (simp add: build_announce_signed_data_def sbind_def slift_def)
qed

lemma signed_data_of_eq:
  assumes "wf_announce a" and "length (announce_signed_bytes a) \<le> RNS_MTU"
  shows "signed_data_of a = Ok (announce_signed_bytes a)"
proof -
  have "RNS_MTU \<le> usize_max" by (simp add: RNS_MTU_def usize_max_def)
  with build_announce_signed_data_eq [OF assms(1), of "replicate RNS_MTU 0"] assms(2) show ?thesis
    by (simp add: signed_data_of_def slice_to_def)
qed

lemma slice_whole: "i + length ys = j \<Longrightarrow> length xs = i \<Longrightarrow> slice (xs @ ys @ zs) i j = Ok ys"
  by (auto simp: slice_def)

lemma slice_parts: "i \<le> j \<Longrightarrow> j \<le> length xs \<Longrightarrow> take (j - i) (drop i xs) @ drop j xs = drop i xs"
  by (metis append_take_drop_id drop_drop le_add_diff_inverse2)

lemma decode_announce_packet_sound:
  assumes "decode_announce_packet packet = Ok a"
  shows "pk_data packet = announce_data a \<and> an_destination_hash a = pk_destination_hash packet \<and>
    (length (pk_destination_hash packet) = 16 \<longrightarrow> wf_announce a)"
proof (cases "fl_context_flag (pk_flags packet)")
  case True
  let ?d = "pk_data packet"
  have "180 \<le> length ?d" using True assms
    by (auto simp: decode_announce_packet_def decode_ratchet_announce_def ANNOUNCE_RATCHET_MIN_LEN_def Let_def split: if_splits)
  then have "?d = take 64 ?d @ take 10 (drop 64 ?d) @ take 10 (drop 74 ?d) @ take 32 (drop 84 ?d) @
      take 64 (drop 116 ?d) @ drop 180 ?d"
    using slice_parts [of 116 180 ?d] slice_parts [of 84 116 ?d] slice_parts [of 74 84 ?d] slice_parts [of 64 74 ?d]
      append_take_drop_id [of 64 ?d] by simp
  with True assms \<open>180 \<le> length ?d\<close> show ?thesis
    by (auto simp: decode_announce_packet_def decode_ratchet_announce_def announce_data_def wf_announce_def
        slice_def slice_from_def Let_def split: if_splits)
next
  case False
  let ?d = "pk_data packet"
  have "148 \<le> length ?d" using False assms
    by (auto simp: decode_announce_packet_def decode_no_ratchet_announce_def ANNOUNCE_NO_RATCHET_MIN_LEN_def Let_def split: if_splits)
  then have "?d = take 64 ?d @ take 10 (drop 64 ?d) @ take 10 (drop 74 ?d) @ take 64 (drop 84 ?d) @ drop 148 ?d"
    using slice_parts [of 84 148 ?d] slice_parts [of 74 84 ?d] slice_parts [of 64 74 ?d]
      append_take_drop_id [of 64 ?d] by simp
  with False assms \<open>148 \<le> length ?d\<close> show ?thesis
    by (auto simp: decode_announce_packet_def decode_no_ratchet_announce_def announce_data_def wf_announce_def
        slice_def slice_from_def Let_def split: if_splits)
qed

lemma decode_announce_packet_complete:
  assumes "wf_announce a" and "an_ratchet a = None"
  shows "decode_announce_packet \<lparr>pk_flags = announce_flags, pk_hops = hops, pk_transport_id = None,
    pk_destination_hash = an_destination_hash a, pk_context = ctx, pk_data = announce_data a\<rparr> = Ok a"
  using assms
  by (simp add: decode_announce_packet_def announce_flags_def decode_no_ratchet_announce_def announce_data_def
      wf_announce_def slice_def slice_from_def ANNOUNCE_NO_RATCHET_MIN_LEN_def)

text \<open>The announce that \<open>encode_announce_packet\<close> signs and sends.\<close>

definition announce_of :: "crypto \<Rightarrow> announce_params \<Rightarrow> u8 list \<Rightarrow> u8 list \<Rightarrow> u8 list \<Rightarrow> rns_announce" where
  "announce_of c params name_hash dest_hash random_hash =
     (let unsigned = \<lparr>an_destination_hash = dest_hash,
            an_public_identity = public_identity_to_bytes (ap_public_identity params), an_name_hash = name_hash,
            an_random_hash = random_hash, an_ratchet = None, an_signature = replicate RNS_ANNOUNCE_SIGNATURE_LEN 0,
            an_app_data = ap_app_data params\<rparr> in
      unsigned\<lparr>an_signature := cr_ed_sign c (ed25519_secret (ap_secret_identity params)) (announce_signed_bytes unsigned)\<rparr>)"

definition announce_packet :: "rns_announce \<Rightarrow> rns_packet" where
  "announce_packet a = \<lparr>pk_flags = announce_flags, pk_hops = 0, pk_transport_id = None,
     pk_destination_hash = an_destination_hash a, pk_context = RNS_CONTEXT_NONE, pk_data = announce_data a\<rparr>"

lemma write_announce_parts:
  assumes lens: "length p = 64" "length n = 10" "length r = 10" "length s = 64"
    and room: "148 + length app \<le> length out"
  shows "sbind (write_part 0 p) (\<lambda>offset. sbind (write_part offset n) (\<lambda>offset.
    sbind (write_part offset r) (\<lambda>offset. sbind (write_part offset s) (\<lambda>offset. write_part offset app)))) out =
    (Ok (148 + length app), p @ n @ r @ s @ app @ drop (148 + length app) out)"
proof -
  have "write_part 0 p out = (Ok 64, p @ drop 64 out)"
    using write_part_append [of "[]" 0 p out] lens room by simp
  moreover have "write_part 64 n (p @ drop 64 out) = (Ok 74, p @ n @ drop 74 out)"
    using write_part_append [of p 64 n "drop 64 out"] lens room by simp
  moreover have "write_part 74 r (p @ n @ drop 74 out) = (Ok 84, p @ n @ r @ drop 84 out)"
    using write_part_append [of "p @ n" 74 r "drop 74 out"] lens room by simp
  moreover have "write_part 84 s (p @ n @ r @ drop 84 out) = (Ok 148, p @ n @ r @ s @ drop 148 out)"
    using write_part_append [of "p @ n @ r" 84 s "drop 84 out"] lens room by simp
  moreover have "write_part 148 app (p @ n @ r @ s @ drop 148 out) =
      (Ok (148 + length app), p @ n @ r @ s @ app @ drop (148 + length app) out)"
    using write_part_append [of "p @ n @ r @ s" 148 app "drop 148 out"] lens room by (simp add: add.commute)
  ultimately show ?thesis by (simp add: sbind_def)
qed

lemma encode_announce_with_eq:
  fixes params :: announce_params
  defines "app \<equiv> ap_app_data params"
  assumes laws: "signature_laws c"
    and lens: "length (public_identity_to_bytes (ap_public_identity params)) = 64" "length name_hash = 10"
      "length dest_hash = 16" "length random_hash = 10"
    and room: "167 + length app \<le> RNS_MTU" "167 + length app \<le> length out"
  shows "wf_announce (announce_of c params name_hash dest_hash random_hash) \<and>
    length (rns_packet_bytes (announce_packet (announce_of c params name_hash dest_hash random_hash))) = 167 + length app \<and>
    encode_announce_with c params name_hash dest_hash random_hash out =
      (Ok (167 + length app),
       rns_packet_bytes (announce_packet (announce_of c params name_hash dest_hash random_hash)) @ drop (167 + length app) out)"
proof -
  let ?a = "announce_of c params name_hash dest_hash random_hash"
  let ?u = "?a\<lparr>an_signature := replicate RNS_ANNOUNCE_SIGNATURE_LEN 0\<rparr>"
  have sig: "an_signature ?a = cr_ed_sign c (ed25519_secret (ap_secret_identity params)) (announce_signed_bytes ?u)"
    "length (an_signature ?a) = 64" using laws
    by (simp_all add: announce_of_def announce_signed_bytes_def signature_laws_def Let_def)
  have wf: "wf_announce ?a" "wf_announce ?u" using lens sig(2)
    by (simp_all add: wf_announce_def announce_of_def RNS_ANNOUNCE_SIGNATURE_LEN_def Let_def)
  have fields: "an_destination_hash ?a = dest_hash" "an_name_hash ?a = name_hash" "an_random_hash ?a = random_hash"
    "an_ratchet ?a = None" "an_app_data ?a = app" "an_public_identity ?a = public_identity_to_bytes (ap_public_identity params)"
    by (simp_all add: announce_of_def app_def Let_def)
  have data: "announce_data ?a = public_identity_to_bytes (ap_public_identity params) @ name_hash @ random_hash @ an_signature ?a @ app"
    by (simp add: announce_data_def fields)
  have "length (announce_signed_bytes ?u) \<le> RNS_MTU"
    using room(1) lens fields by (simp add: announce_signed_bytes_def)
  note signed = signed_data_of_eq [OF wf(2) this]
  have u: "\<lparr>an_destination_hash = dest_hash, an_public_identity = public_identity_to_bytes (ap_public_identity params),
      an_name_hash = name_hash, an_random_hash = random_hash, an_ratchet = None,
      an_signature = replicate RNS_ANNOUNCE_SIGNATURE_LEN 0, an_app_data = ap_app_data params\<rparr> = ?u"
    by (simp add: announce_of_def Let_def)
  have wfp: "wf_rns_packet (announce_packet ?a)"
    using lens by (simp add: wf_rns_packet_def announce_packet_def announce_flags_def fields)
  have len: "length (rns_packet_bytes (announce_packet ?a)) = 167 + length app"
    using length_rns_packet_bytes [OF wfp] lens sig(2)
    by (simp add: announce_packet_def announce_flags_def data RNS_HEADER_1_LEN_def)
  have enc: "encode_packet (announce_packet ?a) out = (Ok (167 + length app),
      rns_packet_bytes (announce_packet ?a) @ drop (167 + length app) out)"
    using encode_packet_eq [OF wfp, of out] room len by simp
  have parts: "sbind (write_part 0 (public_identity_to_bytes (ap_public_identity params))) (\<lambda>offset. sbind (write_part offset name_hash)
      (\<lambda>offset. sbind (write_part offset random_hash) (\<lambda>offset. sbind (write_part offset (an_signature ?a)) (\<lambda>offset. write_part offset app))))
      (replicate (RNS_MTU - RNS_HEADER_1_LEN) 0) =
      (Ok (148 + length app), announce_data ?a @ drop (148 + length app) (replicate (RNS_MTU - RNS_HEADER_1_LEN) 0))"
    using write_announce_parts [OF lens(1,2,4) sig(2), of app "replicate (RNS_MTU - RNS_HEADER_1_LEN) 0"] room(1)
    by (simp add: data rns_lengths)
  have "length (announce_data ?a) = 148 + length app" using lens sig(2) by (simp add: data)
  then have "encode_announce_with c params name_hash dest_hash random_hash out = encode_packet (announce_packet ?a) out"
    unfolding encode_announce_with_def Let_def u
    by (simp add: signed sign_def sig(1) [symmetric] parts app_def [symmetric] sbind_slift slice_to_def
        announce_packet_def fields)
  with enc wf len show ?thesis by simp
qed

lemma public_identity_fields:
  assumes "public_identity c secret = Ok public"
  shows "x25519_public public = cr_x_public c (x25519_secret secret)"
    "ed25519_public public = cr_ed_public c (ed25519_secret secret)"
  using assms by (auto simp: public_identity_def)

lemma validate_announce_of:
  assumes laws: "signature_laws c" "hash_laws c" "dh_laws c"
    and public: "public_identity c (ap_secret_identity params) = Ok (ap_public_identity params)"
    and a: "a = announce_of c params name_hash dest_hash random_hash" "wf_announce a"
      "length (rns_packet_bytes (announce_packet a)) \<le> RNS_MTU"
    and dest: "dest_hash = take 16 (cr_sha256 c (name_hash @ take 16 (cr_sha256 c (public_identity_to_bytes (ap_public_identity params)))))"
  shows "validate_announce_packet c (announce_packet a) = Ok a"
proof -
  let ?pub = "ap_public_identity params"
  have keys: "ed25519_public ?pub = cr_ed_public c (ed25519_secret (ap_secret_identity params))"
    "length (x25519_public ?pub) = 32" "length (ed25519_public ?pub) = 32"
    using public_identity_fields [OF public] laws by (simp_all add: dh_laws_def signature_laws_def)
  have fields: "an_destination_hash a = dest_hash" "an_name_hash a = name_hash" "an_ratchet a = None"
    "an_public_identity a = public_identity_to_bytes ?pub"
    "an_signature a = cr_ed_sign c (ed25519_secret (ap_secret_identity params)) (announce_signed_bytes a)"
    by (simp_all add: a(1) announce_of_def announce_signed_bytes_def Let_def)
  have dec: "decode_announce_packet (announce_packet a) = Ok a"
    using decode_announce_packet_complete [OF a(2) fields(3)] by (simp add: announce_packet_def)
  have "length (announce_signed_bytes a) \<le> RNS_MTU"
    using a(3) by (simp add: rns_packet_bytes_def announce_packet_def announce_data_def announce_signed_bytes_def)
  note signed = signed_data_of_eq [OF a(2) this]
  have pub: "public_identity_from_bytes c (an_public_identity a) = Ok ?pub"
    using keys laws(1) by (simp add: fields public_identity_from_bytes_def public_identity_to_bytes_def slice_to_def
        slice_from_def RNS_IDENTITY_KEY_LEN_def signature_laws_def)
  have "length (cr_sha256 c m) = 32" for m using laws(2) by (simp add: hash_laws_def)
  with dec pub signed keys(1) laws(1) show ?thesis
    by (simp add: validate_announce_packet_def identity_hash_def truncated_hash_def full_hash_def destination_hash_def
        slice_to_def RNS_TRUNCATED_HASH_LEN_def fields dest verify_def signature_laws_def)
qed

lemma encode_announce_packet_eq:
  assumes laws: "signature_laws c" "hash_laws c" "dh_laws c"
    and public: "public_identity c (ap_secret_identity params) = Ok (ap_public_identity params)"
    and name: "validate_destination_name (ap_app_name params) (ap_aspects params) = Ok ()"
    and time: "now \<le> MAX_RETICULUM_RANDOM_HASH_TIMESTAMP" and rng: "rng 5 g = (Some random, g1)" "length random = 5"
    and room: "167 + length (ap_app_data params) \<le> RNS_MTU" "167 + length (ap_app_data params) \<le> length out"
  defines "name_hash \<equiv> take 10 (cr_sha256 c (name_hash_input (ap_app_name params) (ap_aspects params)))"
  defines "dest_hash \<equiv> take 16 (cr_sha256 c (name_hash @ take 16 (cr_sha256 c (public_identity_to_bytes (ap_public_identity params)))))"
  defines "a \<equiv> announce_of c params name_hash dest_hash (random @ drop 3 (u64_to_be_bytes now))"
  shows "wf_announce a \<and> length (rns_packet_bytes (announce_packet a)) = 167 + length (ap_app_data params) \<and>
    encode_announce_packet c params rng now (g, out) =
      (Ok (167 + length (ap_app_data params)),
       (g1, rns_packet_bytes (announce_packet a) @ drop (167 + length (ap_app_data params)) out))"
proof -
  have sha: "length (cr_sha256 c m) = 32" for m using laws(2) by (simp add: hash_laws_def)
  have lens: "length (public_identity_to_bytes (ap_public_identity params)) = 64" "length name_hash = 10"
    "length dest_hash = 16" "length (random @ drop 3 (u64_to_be_bytes now)) = 10"
    using public_identity_fields [OF public] laws(1,3) rng(2)
    by (simp_all add: public_identity_to_bytes_def dh_laws_def signature_laws_def name_hash_def dest_hash_def sha)
  note enc = encode_announce_with_eq [OF laws(1) lens room]
  have "RNS_MTU \<le> usize_max" by (simp add: RNS_MTU_def usize_max_def)
  then have len: "rbind (announce_encode_data_len (length (ap_app_data params))) packet_len_for_announce_data =
      Ok (167 + length (ap_app_data params))"
    using room(1) by (simp add: announce_encode_data_len_def packet_len_for_announce_data_def checked_add_def
        ANNOUNCE_NO_RATCHET_MIN_LEN_def RNS_HEADER_1_LEN_def)
  have hashes: "rbind (map_err (\<lambda>_. InvalidDestinationName) (destination_name_hash c (ap_app_name params) (ap_aspects params)))
      (\<lambda>name_hash. rbind (identity_hash c (ap_public_identity params)) (\<lambda>id_hash.
        rbind (destination_hash c name_hash (Some id_hash)) (\<lambda>dest_hash. Ok (name_hash, dest_hash)))) = Ok (name_hash, dest_hash)"
    using name by (simp add: destination_name_hash_def identity_hash_def truncated_hash_def full_hash_def destination_hash_def
        slice_to_def RNS_TRUNCATED_HASH_LEN_def RNS_NAME_HASH_LEN_def sha name_hash_def dest_hash_def)
  have random: "reticulum_random_hash rng now g = (Ok (random @ drop 3 (u64_to_be_bytes now)), g1)"
    using time rng(1) by (simp add: reticulum_random_hash_def)
  from enc room(2) show ?thesis
    by (simp add: encode_announce_packet_def a_def len hashes random)
qed

section \<open>Access codes\<close>

lemma xor_eq_0_iff_u8: "a XOR b = 0 \<longleftrightarrow> a = b" for a b :: u8
  by (metis xor.right_neutral xor_self_eq xor.assoc)

lemma xor_cancel_u8: "(k XOR a) XOR k = a" for a k :: u8
  by (metis xor.assoc xor.commute xor.right_neutral xor_self_eq)

lemma constant_time_eq_iff: "constant_time_eq left right \<longleftrightarrow> left = right"
proof -
  have "fold (\<lambda>(l, r) diff. diff OR (l XOR r)) (zip left right) acc = 0 \<longleftrightarrow> acc = 0 \<and> left = right"
    if "length left = length right" for acc :: u8
    using that
    by (induction left right arbitrary: acc rule: list_induct2) (auto simp: or_eq_0_iff xor_eq_0_iff_u8)
  then show ?thesis by (auto simp: constant_time_eq_def)
qed

lemma ifac_first_byte:
  assumes "a AND IFAC_FLAG = 0"
  shows "(((a OR IFAC_FLAG) XOR k) OR IFAC_FLAG) AND IFAC_FLAG \<noteq> 0"
    and "((((a OR IFAC_FLAG) XOR k) OR IFAC_FLAG) XOR k) AND NOT IFAC_FLAG = a"
proof -
  have "((x OR IFAC_FLAG) AND IFAC_FLAG) = IFAC_FLAG" for x by (simp add: and.commute)
  moreover have "IFAC_FLAG \<noteq> 0" by (simp add: IFAC_FLAG_def)
  ultimately show "(((a OR IFAC_FLAG) XOR k) OR IFAC_FLAG) AND IFAC_FLAG \<noteq> 0" by metis
  have "bit a n \<Longrightarrow> \<not> bit IFAC_FLAG n" for n using assms by (metis bit_0_eq bit_and_iff bot_apply bot_bool_def)
  then show "((((a OR IFAC_FLAG) XOR k) OR IFAC_FLAG) XOR k) AND NOT IFAC_FLAG = a"
    by (intro bit_eqI) (auto simp: bit_simps)
qed

lemma length_ifac_masked: "2 < length raw \<Longrightarrow> length (ifac_masked raw ifac ks) = length raw + length ifac"
  by (simp add: ifac_masked_def HEADER_LEN_def Let_def)

lemma ifac_unmasked_masked:
  assumes "2 < length raw" and "raw ! 0 AND IFAC_FLAG = 0"
  shows "ifac_unmasked (ifac_masked raw ifac ks) (length ifac) ks = raw"
proof (rule nth_equalityI)
  let ?m = "ifac_masked raw ifac ks"
  have len: "length ?m = length raw + length ifac" using length_ifac_masked [OF assms(1)] .
  show "length (ifac_unmasked ?m (length ifac) ks) = length raw"
    using assms(1) by (simp add: ifac_unmasked_def len HEADER_LEN_def)
  fix j assume "j < length (ifac_unmasked ?m (length ifac) ks)"
  then have j: "j < length raw" using assms(1) by (simp add: ifac_unmasked_def len HEADER_LEN_def)
  have m0: "?m ! 0 = ((raw ! 0 OR IFAC_FLAG) XOR ks ! 0) OR IFAC_FLAG" "?m ! 1 = ks ! 1 XOR raw ! 1"
    by (simp_all add: ifac_masked_def Let_def)
  have m: "?m ! (i + length ifac) = raw ! i XOR ks ! (i + length ifac)" if "2 \<le> i" "i < length raw" for i
  proof -
    define k where "k = i - 2"
    then have k: "i = k + 2" using that(1) by simp
    have "?m ! (i + length ifac) = map (\<lambda>index. raw ! (index - length ifac) XOR ks ! index)
        [HEADER_LEN + length ifac ..< length raw + length ifac] ! k"
      unfolding ifac_masked_def Let_def k by (simp add: nth_append)
    with that k show ?thesis by (simp add: HEADER_LEN_def add.commute)
  qed
  consider "j = 0" | "j = 1" | "2 \<le> j" by linarith
  then show "ifac_unmasked ?m (length ifac) ks ! j = raw ! j"
  proof cases
    case 1
    then show ?thesis using ifac_first_byte(2) [OF assms(2)] by (simp add: ifac_unmasked_def m0)
  next
    case 2
    then show ?thesis using m0(2) xor_cancel_u8 [of "ks ! 1" "raw ! 1"] by (simp add: ifac_unmasked_def)
  next
    case 3
    then have "[2..<length raw] ! (j - Suc (Suc 0)) = j" using j by simp
    with 3 have "ifac_unmasked ?m (length ifac) ks ! j = ?m ! (j + length ifac) XOR ks ! (j + length ifac)"
      using j len by (simp add: ifac_unmasked_def HEADER_LEN_def nth_append)
    with m [of j] 3 j show ?thesis by (simp add: xor.assoc)
  qed
qed

lemma ifac_mask_Ok:
  assumes "hkdf_laws c" and "ifac \<noteq> []" and "0 < n" and "n \<le> RNS_MTU"
  shows "\<exists>ks. ifac_mask c ifac key n = Ok ks \<and> length ks = n"
proof -
  let ?salt = "case Some key of None \<Rightarrow> replicate 32 0 | Some [] \<Rightarrow> replicate 32 0 | Some s \<Rightarrow> s"
  have "n \<le> 255 * 32" using assms(4) by (simp add: RNS_MTU_def)
  then obtain okm where "cr_hkdf c ?salt ifac [] n = Some okm" "length okm = n"
    using assms(1) unfolding hkdf_laws_def by blast
  with assms(2,3) show ?thesis by (simp add: ifac_mask_def rns_hkdf_sha256_def Let_def)
qed

lemma ifac_of_eq:
  assumes "signature_laws c" and "n \<le> RNS_IFAC_MAX_SIZE"
  shows "ifac_of c identity n packet = Ok (drop (64 - n) (cr_ed_sign c (ed25519_secret identity) packet))"
    "length (drop (64 - n) (cr_ed_sign c (ed25519_secret identity) packet)) = n"
  using assms by (simp_all add: ifac_of_def sign_def signature_laws_def slice_from_def RNS_IFAC_MAX_SIZE_def)

lemma ifac_apply_outbound_eq:
  assumes laws: "signature_laws c" "hkdf_laws c"
    and size: "1 \<le> n" "n \<le> RNS_IFAC_MAX_SIZE" and key: "key \<noteq> []"
    and raw: "2 < length raw" "length raw + n \<le> RNS_MTU" "raw ! 0 AND IFAC_FLAG = 0" "length raw + n \<le> length out"
  obtains ifac ks where "ifac_of c identity n raw = Ok ifac" "length ifac = n"
    "ifac_mask c ifac key (length raw + n) = Ok ks" "length ks = length raw + n"
    "ifac_apply_outbound c raw identity key n out =
       (Ok (length raw + n), ifac_masked raw ifac ks @ drop (length raw + n) out)"
proof -
  obtain ifac where ifac: "ifac_of c identity n raw = Ok ifac" "length ifac = n"
    using ifac_of_eq [OF laws(1) size(2), of identity raw] by metis
  have "ifac \<noteq> []" using ifac(2) size(1) by auto
  then obtain ks where ks: "ifac_mask c ifac key (length raw + n) = Ok ks" "length ks = length raw + n"
    using ifac_mask_Ok [OF laws(2) _ _ raw(2), of ifac key] size(1) by auto
  have "RNS_MTU \<le> usize_max" by (simp add: RNS_MTU_def usize_max_def)
  moreover have "length (ifac_masked raw ifac ks) = length raw + n" using length_ifac_masked [OF raw(1)] ifac(2) by simp
  ultimately have "ifac_apply_outbound c raw identity key n out =
      (Ok (length raw + n), ifac_masked raw ifac ks @ drop (length raw + n) out)"
    using size key raw ifac ks
    by (auto simp: ifac_apply_outbound_def validate_ifac_size_def RNS_IFAC_MIN_SIZE_def validate_ifac_key_def
        validate_raw_packet_len_def validate_wire_len_def HEADER_LEN_def get_at_def checked_add_def
        sbind_def slift_def sret_def write_at_eq)
  with ifac ks that show thesis by blast
qed

lemma ifac_verify_inbound_run:
  assumes size: "1 \<le> n" "n \<le> RNS_IFAC_MAX_SIZE" and key: "key \<noteq> []"
    and masked: "n + 2 < length packet" "length packet \<le> RNS_MTU" "packet ! 0 AND IFAC_FLAG \<noteq> 0"
    and room: "length packet - n \<le> length out"
    and ks: "ifac_mask c (take n (drop 2 packet)) key (length packet) = Ok ks"
    and expected: "ifac_of c identity n (ifac_unmasked packet n ks) = Ok expected"
  shows "ifac_verify_inbound c packet identity key n out =
    (if take n (drop 2 packet) = expected
     then (Ok (length packet - n), ifac_unmasked packet n ks @ drop (length packet - n) out)
     else (Err InvalidPacketAccessCode, out))"
proof -
  have slice: "slice packet 2 (2 + n) = (Ok (take n (drop 2 packet)) :: (_, rns_wire_error) result)"
    using masked(1) by (simp add: slice_def)
  have "length (ifac_unmasked packet n ks) = length packet - n"
    using masked(1) by (simp add: ifac_unmasked_def HEADER_LEN_def)
  with size key masked room ks expected slice show ?thesis
    by (auto simp: ifac_verify_inbound_def validate_ifac_size_def RNS_IFAC_MIN_SIZE_def validate_ifac_key_def
        validate_wire_len_def HEADER_LEN_def get_at_def sbind_def slift_def sret_def sthrow_def write_at_eq
        constant_time_eq_iff Let_def)
qed

section \<open>Properties\<close>

text \<open>
  C19. The RNS packet codec is a bijection. Decoding accepts exactly the encodings of well-formed
  packets up to the MTU, and each byte string of at most one packet; it never panics. Encoding a
  well-formed packet that fits writes that encoding and nothing behind it.\<close>

theorem rns_packet_codec:
  "(decode_packet input = Ok p \<longleftrightarrow> wf_rns_packet p \<and> length input \<le> RNS_MTU \<and> input = rns_packet_bytes p) \<and>
   decode_packet input \<noteq> Panic \<and>
   (wf_rns_packet p \<longrightarrow> length (rns_packet_bytes p) \<le> min RNS_MTU (length out) \<longrightarrow>
     encode_packet p out =
       (Ok (length (rns_packet_bytes p)), rns_packet_bytes p @ drop (length (rns_packet_bytes p)) out))"
  using decode_packet_sound [of input p] decode_packet_complete [of p] decode_packet_no_panic [of input]
    encode_packet_eq [of p out] by auto

definition sample_rns_packet :: rns_packet where
  "sample_rns_packet = \<lparr>pk_flags = announce_flags, pk_hops = 3, pk_transport_id = None,
     pk_destination_hash = replicate 16 7, pk_context = 0, pk_data = [1, 2]\<rparr>"

lemma sample_rns_packet_wf: "wf_rns_packet sample_rns_packet" "length (rns_packet_bytes sample_rns_packet) = 21"
  by (simp_all add: wf_rns_packet_def sample_rns_packet_def announce_flags_def rns_packet_bytes_def)

theorem rns_packet_codec_witness:
  "decode_packet (rns_packet_bytes sample_rns_packet) = Ok sample_rns_packet \<and>
   encode_packet sample_rns_packet (replicate 30 0) = (Ok 21, rns_packet_bytes sample_rns_packet @ replicate 9 0)"
  using rns_packet_codec [of "rns_packet_bytes sample_rns_packet" sample_rns_packet "replicate 30 0"]
    sample_rns_packet_wf by (simp add: RNS_MTU_def)

text \<open>
  The packet hash identifies a packet across transport. Two accepted packets have the same
  hashable part exactly when they agree on the destination type, packet type, destination hash,
  context and data; the hop count, the header type with its transport id, the transport type and the
  context flag, which relays rewrite, do not enter, so such packets have the same hash.\<close>

theorem packet_hash_transport_invariant:
  assumes "decode_packet input = Ok p" and "decode_packet input' = Ok p'"
  shows "(hashable_part p = hashable_part p' \<longleftrightarrow>
      fl_destination_type (pk_flags p) = fl_destination_type (pk_flags p') \<and>
      fl_packet_type (pk_flags p) = fl_packet_type (pk_flags p') \<and>
      pk_destination_hash p = pk_destination_hash p' \<and> pk_context p = pk_context p' \<and> pk_data p = pk_data p') \<and>
    packet_hash c input = Ok (full_hash c (hashable_part p)) \<and>
    packet_hash c input' = Ok (full_hash c (hashable_part p'))"
proof -
  have low: "encode_flags f AND HASHABLE_FLAGS_MASK =
      push_bit 2 (destination_type_to_bits (fl_destination_type f)) OR packet_type_to_bits (fl_packet_type f)" for f
  proof (cases f)
    case (fields ht cf tt dt pt)
    then show ?thesis by (cases ht; cases cf; cases tt; cases dt; cases pt)
      (simp_all add: encode_flags_def HASHABLE_FLAGS_MASK_def)
  qed
  have inj: "push_bit 2 (destination_type_to_bits dt) OR packet_type_to_bits pt =
      push_bit 2 (destination_type_to_bits dt') OR packet_type_to_bits pt' \<longleftrightarrow> dt = dt' \<and> pt = pt'" for dt pt dt' pt'
    by (cases dt; cases pt; cases dt'; cases pt') simp_all
  have "length (pk_destination_hash p) = length (pk_destination_hash p')"
    using decode_packet_sound [OF assms(1)] decode_packet_sound [OF assms(2)] by (simp add: wf_rns_packet_def)
  with packet_hash_eq [OF assms(1), of c] packet_hash_eq [OF assms(2), of c] show ?thesis
    by (auto simp: hashable_part_def low inj)
qed

theorem packet_hash_transport_invariant_witness:
  "packet_hash null_crypto (rns_packet_bytes sample_rns_packet) = Ok (replicate 32 0)"
proof -
  have dec: "decode_packet (rns_packet_bytes sample_rns_packet) = Ok sample_rns_packet"
    using decode_packet_complete sample_rns_packet_wf by (simp add: RNS_MTU_def)
  show ?thesis using packet_hash_transport_invariant [OF dec dec, of null_crypto]
    by (simp add: full_hash_def null_crypto_def)
qed

text \<open>
  C23. A validated announce is what its identity signed. When validation accepts a packet, the packet's
  data is exactly the announce's fields, its destination hash is the hash of the announced name and
  of the hash of the announced public key, and the signature verifies under that key over
  destination, key, name, random hash, ratchet and application data.\<close>

theorem validated_announce_is_signed:
  assumes "decode_packet input = Ok packet" and "validate_announce_packet c packet = Ok a"
  shows "pk_data packet = announce_data a \<and> wf_announce a \<and>
    an_destination_hash a = pk_destination_hash packet \<and>
    an_destination_hash a = take 16 (cr_sha256 c (an_name_hash a @ take 16 (cr_sha256 c (an_public_identity a)))) \<and>
    cr_ed_verify c (drop 32 (an_public_identity a)) (announce_signed_bytes a) (an_signature a)"
proof -
  have pk: "length (pk_destination_hash packet) = 16" "length (pk_data packet) \<le> 481"
    using decode_packet_sound [OF assms(1)]
    by (auto simp: wf_rns_packet_def rns_packet_bytes_def RNS_MTU_def split: option.splits)
  obtain pub where dec: "decode_announce_packet packet = Ok a"
    and pub: "public_identity_from_bytes c (an_public_identity a) = Ok pub"
    and rest: "rbind (identity_hash c pub) (\<lambda>id_hash. rbind (destination_hash c (an_name_hash a) (Some id_hash)) (\<lambda>expected.
       if expected \<noteq> an_destination_hash a then Err DestinationMismatch
       else rbind (signed_data_of a) (\<lambda>signed_data.
         rbind (map_err map_crypto_error (verify c pub signed_data (an_signature a))) (\<lambda>_. Ok a)))) = Ok a"
    using assms(2) by (auto simp: validate_announce_packet_def split: if_splits)
  note sound = decode_announce_packet_sound [OF dec]
  with pk have wf: "wf_announce a" by simp
  have "length (announce_signed_bytes a) \<le> RNS_MTU"
    using sound pk wf by (auto simp: announce_data_def announce_signed_bytes_def wf_announce_def RNS_MTU_def)
  note signed = signed_data_of_eq [OF wf this]
  have "public_identity_to_bytes pub = an_public_identity a" "ed25519_public pub = drop 32 (an_public_identity a)"
    using pub by (auto simp: public_identity_from_bytes_def public_identity_to_bytes_def slice_to_def slice_from_def
        RNS_IDENTITY_KEY_LEN_def split: if_splits)
  with rest signed sound wf pk show ?thesis
    by (auto simp: identity_hash_def truncated_hash_def full_hash_def destination_hash_def slice_to_def
        RNS_TRUNCATED_HASH_LEN_def verify_def split: if_splits)
qed

theorem validated_announce_is_signed_witness:
  "\<exists>input packet a. decode_packet input = Ok packet \<and> validate_announce_packet null_crypto packet = Ok a \<and>
     an_app_data a = [5] \<and> pk_data packet = announce_data a \<and>
     an_signature a = replicate 64 (word_of_nat (length (announce_signed_bytes a)))"
proof -
  let ?params = "\<lparr>ap_secret_identity = \<lparr>x25519_secret = [], ed25519_secret = []\<rparr>,
    ap_public_identity = \<lparr>x25519_public = replicate 32 0, ed25519_public = replicate 32 0\<rparr>,
    ap_app_name = [], ap_aspects = [], ap_app_data = [5]\<rparr>"
  let ?a = "announce_of null_crypto ?params (replicate 10 0) (replicate 16 0) (replicate 10 0)"
  have a: "wf_announce ?a" "length (rns_packet_bytes (announce_packet ?a)) = 168"
    using encode_announce_with_eq [OF null_crypto_laws(6), of ?params "replicate 10 0" "replicate 16 0" "replicate 10 0" "replicate 168 0"]
    by (simp_all add: public_identity_to_bytes_def RNS_MTU_def)
  have "wf_rns_packet (announce_packet ?a)"
    by (simp add: wf_rns_packet_def announce_packet_def announce_flags_def announce_of_def Let_def)
  then have dec: "decode_packet (rns_packet_bytes (announce_packet ?a)) = Ok (announce_packet ?a)"
    using decode_packet_complete a(2) by (simp add: RNS_MTU_def)
  have valid: "validate_announce_packet null_crypto (announce_packet ?a) = Ok ?a"
    by (rule validate_announce_of [OF null_crypto_laws(6,4,5) _ refl a(1)])
       (use a(2) in \<open>simp_all add: RNS_MTU_def public_identity_def null_crypto_def\<close>)
  have "an_app_data ?a = [5]" by (simp add: announce_of_def Let_def)
  with validated_announce_is_signed [OF dec valid] dec valid show ?thesis
    by (intro exI conjI) (assumption | simp add: null_crypto_def)+
qed

text \<open>
  C22. Announces round trip. An announce made for an identity with its own secret, a name without dots,
  a timestamp of at most forty bits and application data that fits the MTU is encoded; the packet
  decodes and validates, and carries the identity, the name hash, the application data and the
  timestamp in the random hash.\<close>

theorem announce_roundtrip:
  assumes laws: "signature_laws c" "hash_laws c" "dh_laws c"
    and public: "public_identity c (ap_secret_identity params) = Ok (ap_public_identity params)"
    and name: "validate_destination_name (ap_app_name params) (ap_aspects params) = Ok ()"
    and time: "now \<le> MAX_RETICULUM_RANDOM_HASH_TIMESTAMP" and rng: "rng 5 g = (Some random, g1)" "length random = 5"
    and room: "167 + length (ap_app_data params) \<le> min RNS_MTU (length out)"
  shows "\<exists>n out' packet a. encode_announce_packet c params rng now (g, out) = (Ok n, (g1, out')) \<and>
    decode_packet (take n out') = Ok packet \<and> validate_announce_packet c packet = Ok a \<and>
    an_public_identity a = public_identity_to_bytes (ap_public_identity params) \<and>
    destination_name_hash c (ap_app_name params) (ap_aspects params) = Ok (an_name_hash a) \<and>
    an_app_data a = ap_app_data params \<and> drop 5 (an_random_hash a) = drop 3 (u64_to_be_bytes now)"
proof -
  have room': "167 + length (ap_app_data params) \<le> RNS_MTU" "167 + length (ap_app_data params) \<le> length out"
    using room by simp_all
  define name_hash where "name_hash = take 10 (cr_sha256 c (name_hash_input (ap_app_name params) (ap_aspects params)))"
  define dest_hash where "dest_hash =
    take 16 (cr_sha256 c (name_hash @ take 16 (cr_sha256 c (public_identity_to_bytes (ap_public_identity params)))))"
  define a where "a = announce_of c params name_hash dest_hash (random @ drop 3 (u64_to_be_bytes now))"
  note enc = encode_announce_packet_eq [where rng = rng and g = g, OF laws public name time rng room', folded name_hash_def, folded dest_hash_def, folded a_def]
  have sha: "length (cr_sha256 c m) = 32" for m using laws(2) by (simp add: hash_laws_def)
  have "validate_announce_packet c (announce_packet a) = Ok a"
    using enc room'(1) by (intro validate_announce_of [OF laws public a_def _ _ dest_hash_def]) simp_all
  moreover have "decode_packet (rns_packet_bytes (announce_packet a)) = Ok (announce_packet a)"
    using enc room'(1) by (intro decode_packet_complete)
      (simp_all add: wf_rns_packet_def announce_packet_def announce_flags_def wf_announce_def)
  moreover have "destination_name_hash c (ap_app_name params) (ap_aspects params) = Ok (an_name_hash a)"
    using name sha by (simp add: destination_name_hash_def slice_to_def RNS_NAME_HASH_LEN_def a_def announce_of_def
        name_hash_def Let_def)
  moreover have "an_public_identity a = public_identity_to_bytes (ap_public_identity params)"
    "an_app_data a = ap_app_data params" "drop 5 (an_random_hash a) = drop 3 (u64_to_be_bytes now)"
    using rng(2) by (simp_all add: a_def announce_of_def Let_def)
  ultimately show ?thesis using enc by auto
qed

theorem announce_roundtrip_witness:
  "\<exists>n out' packet a. encode_announce_packet null_crypto
      \<lparr>ap_secret_identity = \<lparr>x25519_secret = [], ed25519_secret = []\<rparr>,
       ap_public_identity = \<lparr>x25519_public = replicate 32 0, ed25519_public = replicate 32 0\<rparr>,
       ap_app_name = [104], ap_aspects = [[105]], ap_app_data = [5]\<rparr> (\<lambda>n g. (Some (replicate n g), g)) 7 (3, replicate 200 0) =
      (Ok n, (3, out')) \<and>
    decode_packet (take n out') = Ok packet \<and> validate_announce_packet null_crypto packet = Ok a \<and> an_app_data a = [5]"
proof -
  let ?params = "\<lparr>ap_secret_identity = \<lparr>x25519_secret = [], ed25519_secret = []\<rparr>,
       ap_public_identity = \<lparr>x25519_public = replicate 32 0, ed25519_public = replicate 32 0\<rparr>,
       ap_app_name = [104], ap_aspects = [[105]], ap_app_data = [5]\<rparr>"
  have "public_identity null_crypto (ap_secret_identity ?params) = Ok (ap_public_identity ?params)"
    by (simp add: public_identity_def null_crypto_def)
  moreover have "validate_destination_name (ap_app_name ?params) (ap_aspects ?params) = Ok ()"
    by (simp add: validate_destination_name_def dot_def)
  moreover have "(7 :: u64) \<le> MAX_RETICULUM_RANDOM_HASH_TIMESTAMP" by (simp add: MAX_RETICULUM_RANDOM_HASH_TIMESTAMP_def)
  moreover have "167 + length (ap_app_data ?params) \<le> min RNS_MTU (length (replicate 200 (0 :: u8)))" by (simp add: RNS_MTU_def)
  ultimately show ?thesis
    using announce_roundtrip [OF null_crypto_laws(6,4,5), of ?params 7 "\<lambda>n g. (Some (replicate n g), g)" 3
        "replicate 5 3" 3 "replicate 200 0"] by fastforce
qed

text \<open>
  Access codes round trip. A packet of more than two bytes without an access code, which fits the
  MTU with one, is masked by the sender; a receiver with the same identity, key and code size recovers
  it byte for byte.\<close>

theorem ifac_roundtrip:
  assumes laws: "signature_laws c" "hkdf_laws c"
    and size: "1 \<le> n" "n \<le> RNS_IFAC_MAX_SIZE" and key: "key \<noteq> []"
    and raw: "2 < length raw" "length raw + n \<le> min RNS_MTU (length out)" "raw ! 0 AND IFAC_FLAG = 0"
    and room: "length raw \<le> length out2"
  shows "\<exists>m out'. ifac_apply_outbound c raw identity key n out = (Ok m, out') \<and>
    ifac_verify_inbound c (take m out') identity key n out2 = (Ok (length raw), raw @ drop (length raw) out2)"
proof -
  have raw': "length raw + n \<le> RNS_MTU" "length raw + n \<le> length out" using raw(2) by simp_all
  from ifac_apply_outbound_eq [OF laws size key raw(1) raw'(1) raw(3) raw'(2), of identity] obtain ifac ks where
    i: "ifac_of c identity n raw = Ok ifac" "length ifac = n"
      "ifac_mask c ifac key (length raw + n) = Ok ks"
      "ifac_apply_outbound c raw identity key n out = (Ok (length raw + n), ifac_masked raw ifac ks @ drop (length raw + n) out)"
    by metis
  let ?m = "ifac_masked raw ifac ks"
  have len: "length ?m = length raw + n" using length_ifac_masked [OF raw(1)] i(2) by simp
  have first: "?m ! 0 AND IFAC_FLAG \<noteq> 0" "take n (drop 2 ?m) = ifac"
    using ifac_first_byte(1) [OF raw(3)] i(2) by (simp_all add: ifac_masked_def Let_def)
  have un: "ifac_unmasked ?m n ks = raw" using ifac_unmasked_masked [OF raw(1,3), of ifac ks] i(2) by simp
  have "ifac_verify_inbound c ?m identity key n out2 = (Ok (length raw), raw @ drop (length raw) out2)"
    using ifac_verify_inbound_run [OF size key _ _ first(1), of out2 c ks identity ifac]
    by (simp add: first(2) len un i raw'(1) raw(1) room)
  with i len show ?thesis by simp
qed

theorem ifac_roundtrip_witness:
  "\<exists>m out'. ifac_apply_outbound null_crypto [1, 2, 3] \<lparr>x25519_secret = [], ed25519_secret = []\<rparr> [9] 4 (replicate 7 0) = (Ok m, out') \<and>
    ifac_verify_inbound null_crypto (take m out') \<lparr>x25519_secret = [], ed25519_secret = []\<rparr> [9] 4 (replicate 3 0) = (Ok 3, [1, 2, 3])"
  using ifac_roundtrip [OF null_crypto_laws(6,3), of 4 "[9]" "[1, 2, 3]" "replicate 7 0" "replicate 3 0"
      "\<lparr>x25519_secret = [], ed25519_secret = []\<rparr>"]
  by (simp add: RNS_IFAC_MAX_SIZE_def RNS_MTU_def IFAC_FLAG_def numeral_3_eq_3)

text \<open>
  C29. Access codes authenticate. An accepted packet is one whose code is the tail of the interface
  identity's signature over the unmasked packet that is delivered; a rejected one leaves the output
  buffer untouched; verification never panics.\<close>

theorem ifac_authenticates:
  assumes "signature_laws c" and "hkdf_laws c" and run: "ifac_verify_inbound c packet identity key n out = (r, out')"
  shows "r \<noteq> Panic \<and> (\<forall>e. r = Err e \<longrightarrow> out' = out) \<and>
    (\<forall>m. r = Ok m \<longrightarrow> m + n = length packet \<and>
       take n (drop 2 packet) = drop (64 - n) (cr_ed_sign c (ed25519_secret identity) (take m out')))"
proof (cases "1 \<le> n \<and> n \<le> RNS_IFAC_MAX_SIZE \<and> key \<noteq> [] \<and> n + 2 < length packet \<and> length packet \<le> RNS_MTU \<and>
    packet ! 0 AND IFAC_FLAG \<noteq> 0 \<and> length packet - n \<le> length out")
  case True
  then have "take n (drop 2 packet) \<noteq> []" "packet \<noteq> []" by auto
  then obtain ks where ks: "ifac_mask c (take n (drop 2 packet)) key (length packet) = Ok ks"
    using ifac_mask_Ok [OF assms(2), of "take n (drop 2 packet)" "length packet" key] True by auto
  let ?u = "ifac_unmasked packet n ks"
  have u: "length ?u = length packet - n" using True by (auto simp: ifac_unmasked_def HEADER_LEN_def)
  have "ifac_of c identity n ?u = Ok (drop (64 - n) (cr_ed_sign c (ed25519_secret identity) ?u))"
    using ifac_of_eq(1) [OF assms(1)] True by simp
  from ifac_verify_inbound_run [OF _ _ _ _ _ _ _ ks this, of out] True run u show ?thesis
    by (auto split: if_splits)
next
  case False
  then have "\<exists>e. ifac_verify_inbound c packet identity key n out = (Err e, out)"
    by (auto simp: ifac_verify_inbound_def validate_ifac_size_def RNS_IFAC_MIN_SIZE_def validate_ifac_key_def
        validate_wire_len_def HEADER_LEN_def get_at_def sbind_def slift_def sthrow_def Let_def)
  with run show ?thesis by auto
qed

theorem ifac_authenticates_witness:
  "\<exists>m out'. ifac_apply_outbound null_crypto [1, 2, 3] \<lparr>x25519_secret = [], ed25519_secret = []\<rparr> [9] 4 (replicate 7 0) = (Ok m, out') \<and>
     fst (ifac_verify_inbound null_crypto (take m out') \<lparr>x25519_secret = [], ed25519_secret = []\<rparr> [9] 4 (replicate 3 0)) = Ok 3 \<and>
     take 4 (drop 2 (take m out')) = replicate 4 3"
proof -
  obtain m out' where sent: "ifac_apply_outbound null_crypto [1, 2, 3] \<lparr>x25519_secret = [], ed25519_secret = []\<rparr> [9] 4 (replicate 7 0) = (Ok m, out')"
    and received: "ifac_verify_inbound null_crypto (take m out') \<lparr>x25519_secret = [], ed25519_secret = []\<rparr> [9] 4 (replicate 3 0) = (Ok 3, [1, 2, 3])"
    using ifac_roundtrip_witness by blast
  have "take 4 (drop 2 (take m out')) = drop (64 - 4) (cr_ed_sign null_crypto [] (take 3 [1, 2, 3]))"
    using ifac_authenticates [OF null_crypto_laws(6,3) received] by simp
  with sent received show ?thesis by (intro exI conjI) (assumption | simp add: null_crypto_def)+
qed

text \<open>
  RNS packets survive carriage in an HYF envelope. A packet that wraps is unwrapped to the same
  bytes; and when the wrapped envelope is encoded, any receiver decodes an envelope that unwraps to
  them. A packet is wrapped exactly when it decodes as an RNS packet and the envelope's expiry is
  after its creation.\<close>

theorem rns_carriage_roundtrip:
  assumes "wf_message_id (wp_message_id params)" and "wf_node_id (wp_source_node params)"
    and "wf_destination (wp_destination params)"
  shows "if (\<exists>p. decode_packet raw = Ok p) \<and> ms (wp_created_at_ms params) < ms (wp_expires_at_ms params)
    then \<exists>envelope. wrap_rns_packet \<lparr>rp_raw = raw, rp_destination_hash = dest\<rparr> params = Ok envelope \<and>
      (\<forall>n out out'. encode_envelope envelope out = (Ok n, out') \<longrightarrow>
         rbind (map_err RnsHyfWire (decode_envelope (take n out'))) unwrap_rns_packet = Ok raw)
    else \<exists>e. wrap_rns_packet \<lparr>rp_raw = raw, rp_destination_hash = dest\<rparr> params = Err e"
proof (cases "(\<exists>p. decode_packet raw = Ok p) \<and> ms (wp_created_at_ms params) < ms (wp_expires_at_ms params)")
  case True
  then obtain p where p: "decode_packet raw = Ok p" by blast
  then have "length raw \<le> HYF_ENVELOPE_MAX_PAYLOAD_LEN"
    using decode_packet_sound by (fastforce simp: RNS_MTU_def HYF_ENVELOPE_MAX_PAYLOAD_LEN_def)
  define envelope where "envelope = \<lparr>env_version = HYF_WIRE_VERSION_0, env_message_id = wp_message_id params,
    env_source = wp_source_node params, env_destination = wp_destination params,
    env_created_at_ms = wp_created_at_ms params, env_expires_at_ms = wp_expires_at_ms params,
    env_hop_limit = wp_hop_limit params, env_payload_kind = ForeignRnsPacket, env_payload = raw\<rparr>"
  have valid: "validate_envelope envelope = Ok ()"
    using True \<open>length raw \<le> HYF_ENVELOPE_MAX_PAYLOAD_LEN\<close> by (simp add: validate_envelope_def envelope_def not_le)
  have wf: "wf_envelope envelope" using assms by (simp add: wf_envelope_def envelope_def)
  have "wrap_rns_packet \<lparr>rp_raw = raw, rp_destination_hash = dest\<rparr> params = Ok envelope"
    using valid p by (simp add: wrap_rns_packet_def validate_rns_packet_def envelope_def [symmetric])
  moreover have "unwrap_rns_packet envelope = Ok raw"
    using valid p by (simp add: unwrap_rns_packet_def validate_rns_packet_def) (simp add: envelope_def)
  moreover have "take n out' = envelope_bytes envelope" if "encode_envelope envelope out = (Ok n, out')" for n out out'
    using that encode_envelope_cases [OF wf, of out] valid by (auto split: if_splits)
  ultimately show ?thesis using True decode_encode [OF wf valid] by auto
next
  case False
  then show ?thesis
    using decode_packet_no_panic [of raw]
    by (cases "decode_packet raw")
       (auto simp: wrap_rns_packet_def validate_rns_packet_def validate_envelope_def not_less Let_def)
qed

theorem rns_carriage_roundtrip_witness:
  "\<exists>envelope. wrap_rns_packet \<lparr>rp_raw = rns_packet_bytes sample_rns_packet, rp_destination_hash = []\<rparr>
     \<lparr>wp_source_node = NodeId (replicate 32 1), wp_destination = Node (NodeId (replicate 32 2)),
      wp_created_at_ms = TimestampMs 1, wp_expires_at_ms = TimestampMs 9, wp_hop_limit = 3,
      wp_message_id = MessageId (replicate 32 4)\<rparr> = Ok envelope"
proof -
  have "decode_packet (rns_packet_bytes sample_rns_packet) = Ok sample_rns_packet"
    using decode_packet_complete sample_rns_packet_wf by (simp add: RNS_MTU_def)
  then show ?thesis
    using rns_carriage_roundtrip [of "\<lparr>wp_source_node = NodeId (replicate 32 1), wp_destination = Node (NodeId (replicate 32 2)),
      wp_created_at_ms = TimestampMs 1, wp_expires_at_ms = TimestampMs 9, wp_hop_limit = 3,
      wp_message_id = MessageId (replicate 32 4)\<rparr>" "rns_packet_bytes sample_rns_packet" "[]"]
    by (auto simp: wf_message_id_def wf_node_id_def)
qed

end
