(* ===== verification/Hyf_RNode_Serial.thy ===== *)
theory Hyf_RNode_Serial
  imports Hyf_RNode Hyf_RNS_Wire Hyf_Link
begin

text \<open>
  The crate \<open>hyf_link_rnode_serial\<close>: the link that carries HYF envelopes or raw RNS packets
  through an RNode modem on a serial port
  (\<open>src/crates/hyf_link_rnode_serial/src/{config,error,event,io,link}.rs\<close>). It composes the KISS
  decoder, the RNode command parser and flow control, the envelope codec and the RNS carriage.

  The port is the trait \<open>SerialIo\<close>: a record \<open>serial_io\<close> of the two methods over a port state
  \<open>'io\<close>, an argument of the link's operations; the laws a port obeys are the locale
  \<open>serial_port\<close>, interpreted on the crate's \<open>FakeSerial\<close>. The loops that read until a frame
  is complete need not end on a port that never runs dry; they are partial functions to
  \<open>option\<close>, where \<open>None\<close> is not returning, and the lemmas show that they return.
\<close>

section \<open>Configuration, errors, events\<close>

datatype rnode_data_mode = HyfEnvelopeMode | RawRnsPacketMode

record rnode_serial_config =
  rsc_link_id :: link_id
  rsc_mtu :: usize
  rsc_flow_control :: bool
  rsc_data_mode :: rnode_data_mode

datatype rnode_serial_error =
    InvalidMtu usize
  | InvalidFrameCapacity usize usize
  | SerialFrameTooLarge usize usize
  | ReadBufferTooSmall usize usize
  | WriteBufferFull usize usize
  | InjectedReadFailure
  | InjectedWriteFailure
  | SerialOpenFailure
  | SerialReadFailure
  | SerialWriteFailure
  | FlowControlBlocked
  | RawRnsModeRequired
  | RnsWrapParamsRequired
  | RnsWrapParamsUnexpected
  | RnsWrapParamsUnavailable
  | SerialKiss kiss_error
  | SerialRNode rnode_error
  | SerialRns hyf_link_rns_error
  | SerialHyfWire hyf_wire_error

fun serial_error_kind :: "rnode_serial_error \<Rightarrow> link_driver_error_kind" where
  "serial_error_kind (InvalidMtu _) = Fatal"
| "serial_error_kind (InvalidFrameCapacity _ _) = Fatal"
| "serial_error_kind (SerialFrameTooLarge _ _) = KindFrameTooLarge"
| "serial_error_kind (ReadBufferTooSmall _ _) = OutputTooSmall"
| "serial_error_kind (WriteBufferFull _ _) = Backpressure"
| "serial_error_kind FlowControlBlocked = Backpressure"
| "serial_error_kind InjectedReadFailure = TransientReceive"
| "serial_error_kind InjectedWriteFailure = TransientSend"
| "serial_error_kind SerialOpenFailure = Fatal"
| "serial_error_kind SerialReadFailure = TransientReceive"
| "serial_error_kind SerialWriteFailure = TransientSend"
| "serial_error_kind RawRnsModeRequired = Unsupported"
| "serial_error_kind RnsWrapParamsRequired = Unsupported"
| "serial_error_kind RnsWrapParamsUnexpected = Unsupported"
| "serial_error_kind RnsWrapParamsUnavailable = Unsupported"
| "serial_error_kind (SerialKiss (KissFrameTooLarge _ _)) = KindFrameTooLarge"
| "serial_error_kind (SerialKiss (KissOutputBufferTooShort _ _)) = OutputTooSmall"
| "serial_error_kind (SerialKiss EncodedLengthOverflow) = Protocol"
| "serial_error_kind (SerialKiss (MalformedEscape _)) = Protocol"
| "serial_error_kind (SerialRNode _) = Protocol"
| "serial_error_kind (SerialRns _) = Protocol"
| "serial_error_kind (SerialHyfWire _) = Protocol"

definition serial_config_new :: "link_id \<Rightarrow> usize \<Rightarrow> rnode_data_mode \<Rightarrow> rnode_serial_config" where
  "serial_config_new link_id mtu data_mode =
     \<lparr>rsc_link_id = link_id, rsc_mtu = mtu, rsc_flow_control = True, rsc_data_mode = data_mode\<rparr>"

definition without_flow_control :: "rnode_serial_config \<Rightarrow> rnode_serial_config" where
  "without_flow_control config = config\<lparr>rsc_flow_control := False\<rparr>"

definition serial_config_validate :: "rnode_serial_config \<Rightarrow> (unit, rnode_serial_error) result" where
  "serial_config_validate config = (if rsc_mtu config = 0 then Err (InvalidMtu (rsc_mtu config)) else Ok ())"

datatype rnode_serial_event =
    SerialFrame link_frame
  | SerialReady
  | SerialError rnode_hardware_error
  | SerialFirmwareVersion rnode_firmware_version
  | SerialConfigReport rnode_config_report
  | SerialStat rnode_stat
  | SerialUnknown u8 usize

fun serial_event_from_rnode :: "rnode_event \<Rightarrow> rnode_serial_event" where
  "serial_event_from_rnode (EvData _) = SerialUnknown 0 0"
| "serial_event_from_rnode EvReady = SerialReady"
| "serial_event_from_rnode (EvError error) = SerialError error"
| "serial_event_from_rnode (EvFirmwareVersion version) = SerialFirmwareVersion version"
| "serial_event_from_rnode (EvConfigReport report) = SerialConfigReport report"
| "serial_event_from_rnode (EvStat stat) = SerialStat stat"
| "serial_event_from_rnode (EvUnknown command payload) = SerialUnknown command (length payload)"

section \<open>The port\<close>

record 'io serial_io =
  sio_read :: "u8 list \<Rightarrow> 'io \<Rightarrow> (usize, rnode_serial_error) result \<times> u8 list \<times> 'io"
  sio_write_all :: "u8 list \<Rightarrow> ('io, unit, rnode_serial_error) stm"

record fake_serial =
  fs_read_buf :: "u8 list"
  fs_read_len :: usize
  fs_written :: "u8 list"
  fs_written_len :: usize
  fs_next_read_error :: "rnode_serial_error option"
  fs_next_write_error :: "rnode_serial_error option"

definition fake_serial_new :: "usize \<Rightarrow> usize \<Rightarrow> fake_serial" where
  "fake_serial_new rx_max tx_max =
     \<lparr>fs_read_buf = replicate rx_max 0, fs_read_len = 0, fs_written = replicate tx_max 0, fs_written_len = 0,
      fs_next_read_error = None, fs_next_write_error = None\<rparr>"

definition push_read_bytes :: "u8 list \<Rightarrow> (fake_serial, unit, rnode_serial_error) stm" where
  "push_read_bytes input s =
     (let rx_max = length (fs_read_buf s) in
      case checked_add (fs_read_len s) (length input) of
        None \<Rightarrow> (Err (WriteBufferFull usize_max rx_max), s)
      | Some required \<Rightarrow>
          if rx_max < required then (Err (WriteBufferFull required rx_max), s)
          else case copy_at (fs_read_buf s) (fs_read_len s) input of
            Ok buf \<Rightarrow> (Ok (), s\<lparr>fs_read_buf := buf, fs_read_len := required\<rparr>)
          | Err e \<Rightarrow> (Err e, s)
          | Panic \<Rightarrow> (Panic, s))"

definition with_read_bytes :: "usize \<Rightarrow> usize \<Rightarrow> u8 list \<Rightarrow> (fake_serial, rnode_serial_error) result" where
  "with_read_bytes rx_max tx_max input =
     (case push_read_bytes input (fake_serial_new rx_max tx_max) of
        (Ok _, s) \<Rightarrow> Ok s | (Err e, _) \<Rightarrow> Err e | (Panic, _) \<Rightarrow> Panic)"

definition fake_written :: "fake_serial \<Rightarrow> (u8 list, rnode_serial_error) result" where
  "fake_written s = slice_to (fs_written s) (fs_written_len s)"

definition clear_written :: "fake_serial \<Rightarrow> fake_serial" where
  "clear_written s = s\<lparr>fs_written_len := 0\<rparr>"

definition fail_next_read :: "fake_serial \<Rightarrow> fake_serial" where
  "fail_next_read s = s\<lparr>fs_next_read_error := Some InjectedReadFailure\<rparr>"

definition fail_next_write :: "fake_serial \<Rightarrow> fake_serial" where
  "fail_next_write s = s\<lparr>fs_next_write_error := Some InjectedWriteFailure\<rparr>"

text \<open>The loop \<open>for index in 0..remaining\<close> that moves the unread bytes to the front.\<close>

definition shift_down :: "usize \<Rightarrow> usize \<Rightarrow> u8 list \<Rightarrow> u8 list" where
  "shift_down nread remaining buf = foldl (\<lambda>b index. b[index := b ! (nread + index)]) buf [0..<remaining]"

definition fake_read :: "u8 list \<Rightarrow> fake_serial \<Rightarrow> (usize, rnode_serial_error) result \<times> u8 list \<times> fake_serial" where
  "fake_read output s =
     (case fs_next_read_error s of
        Some error \<Rightarrow> (Err error, output, s\<lparr>fs_next_read_error := None\<rparr>)
      | None \<Rightarrow>
          if fs_read_len s = 0 then (Ok 0, output, s)
          else if output = [] then (Err (ReadBufferTooSmall 0 1), output, s)
          else
            let nread = min (length output) (fs_read_len s) in
            case rbind (slice_to (fs_read_buf s) nread) (copy_at output 0) of
              Ok output' \<Rightarrow>
                let remaining = fs_read_len s - nread in
                if nread + remaining \<le> length (fs_read_buf s)
                then (Ok nread, output',
                      s\<lparr>fs_read_buf := shift_down nread remaining (fs_read_buf s), fs_read_len := remaining\<rparr>)
                else (Panic, output', s)
            | Err e \<Rightarrow> (Err e, output, s)
            | Panic \<Rightarrow> (Panic, output, s))"

definition fake_write_all :: "u8 list \<Rightarrow> (fake_serial, unit, rnode_serial_error) stm" where
  "fake_write_all input s =
     (case fs_next_write_error s of
        Some error \<Rightarrow> (Err error, s\<lparr>fs_next_write_error := None\<rparr>)
      | None \<Rightarrow>
          let tx_max = length (fs_written s) in
          (case checked_add (fs_written_len s) (length input) of
             None \<Rightarrow> (Err (WriteBufferFull usize_max tx_max), s)
           | Some required \<Rightarrow>
               if tx_max < required then (Err (WriteBufferFull required tx_max), s)
               else case copy_at (fs_written s) (fs_written_len s) input of
                 Ok buf \<Rightarrow> (Ok (), s\<lparr>fs_written := buf, fs_written_len := required\<rparr>)
               | Err e \<Rightarrow> (Err e, s)
               | Panic \<Rightarrow> (Panic, s)))"

definition fake_io :: "fake_serial serial_io" where
  "fake_io = \<lparr>sio_read = fake_read, sio_write_all = fake_write_all\<rparr>"

section \<open>The link\<close>

record pending_frame =
  pf_command :: u8
  pf_payload :: "u8 list"
  pf_payload_len :: usize
  pf_received_at_ms :: timestamp_ms

record 'io serial_link =
  sl_config :: rnode_serial_config
  sl_io :: 'io
  sl_state :: rnode_state
  sl_decoder :: kiss_decoder
  sl_pending :: "pending_frame option"

definition serial_link_new :: "usize \<Rightarrow> rnode_serial_config \<Rightarrow> 'io \<Rightarrow> ('io serial_link, rnode_serial_error) result" where
  "serial_link_new frame_max config io =
     rbind (serial_config_validate config) (\<lambda>_.
     rbind (ok_or (InvalidFrameCapacity (rsc_mtu config) frame_max) (checked_add (rsc_mtu config) 1)) (\<lambda>required_capacity.
       if frame_max < required_capacity then Err (InvalidFrameCapacity (rsc_mtu config) frame_max)
       else Ok \<lparr>sl_config = config, sl_io = io, sl_state = rnode_state_new (rsc_flow_control config),
                sl_decoder = kiss_decoder_new frame_max, sl_pending = None\<rparr>))"

definition payload_for_send :: "'io serial_link \<Rightarrow> u8 list \<Rightarrow> (u8 list, rnode_serial_error) result" where
  "payload_for_send link bytes =
     (case rsc_data_mode (sl_config link) of
        HyfEnvelopeMode \<Rightarrow> rbind (map_err SerialHyfWire (decode_envelope bytes)) (\<lambda>_. Ok bytes)
      | RawRnsPacketMode \<Rightarrow>
          rbind (map_err SerialHyfWire (decode_envelope bytes)) (\<lambda>envelope.
            map_err SerialRns (unwrap_rns_packet envelope)))"

fun write_kiss_payload :: "'io serial_io \<Rightarrow> u8 list \<Rightarrow> ('io, unit, rnode_serial_error) stm" where
  "write_kiss_payload sio [] io = (Ok (), io)"
| "write_kiss_payload sio (byte # payload) io =
     sbind (if byte = KISS_FEND then sio_write_all sio [KISS_FESC, KISS_TFEND]
            else if byte = KISS_FESC then sio_write_all sio [KISS_FESC, KISS_TFESC]
            else sio_write_all sio [byte]) (\<lambda>_. write_kiss_payload sio payload) io"

definition write_kiss_frame :: "'io serial_io \<Rightarrow> u8 \<Rightarrow> u8 list \<Rightarrow> ('io, unit, rnode_serial_error) stm" where
  "write_kiss_frame sio command payload =
     sbind (sio_write_all sio [KISS_FEND, command]) (\<lambda>_.
     sbind (write_kiss_payload sio payload) (\<lambda>_.
       sio_write_all sio [KISS_FEND]))"

definition send_gateway_bytes :: "'io serial_io \<Rightarrow> u8 list \<Rightarrow> timestamp_ms \<Rightarrow> ('io serial_link, unit, rnode_serial_error) stm" where
  "send_gateway_bytes sio bytes now_ms link =
     (case payload_for_send link bytes of
        Err error \<Rightarrow> (Err error, link)
      | Panic \<Rightarrow> (Panic, link)
      | Ok payload \<Rightarrow>
          if rsc_mtu (sl_config link) < length payload
          then (Err (SerialFrameTooLarge (length payload) (rsc_mtu (sl_config link))), link)
          else if \<not> can_transmit (sl_state link) then (Err FlowControlBlocked, link)
          else case write_kiss_frame sio KISS_CMD_DATA payload (sl_io link) of
            (Ok _, io) \<Rightarrow> (Ok (), link\<lparr>sl_io := io, sl_state := mark_tx_started (sl_state link)\<rparr>)
          | (Err error, io) \<Rightarrow> (Err error, link\<lparr>sl_io := io\<rparr>)
          | (Panic, io) \<Rightarrow> (Panic, link\<lparr>sl_io := io\<rparr>))"

definition try_from_kiss_frame :: "usize \<Rightarrow> kiss_frame \<Rightarrow> timestamp_ms \<Rightarrow> (pending_frame, kiss_error) result" where
  "try_from_kiss_frame n frame received_at_ms =
     (let payload_len = length (kf_payload frame) in
      if n < payload_len then Err (KissFrameTooLarge payload_len n)
      else rbind (copy_at (replicate n 0) 0 (kf_payload frame)) (\<lambda>payload.
        Ok \<lparr>pf_command = kf_command frame, pf_payload = payload, pf_payload_len = payload_len,
            pf_received_at_ms = received_at_ms\<rparr>))"

text \<open>The closure given to the decoder: it fills the local \<open>pending\<close>.\<close>

definition store_pending :: "usize \<Rightarrow> timestamp_ms \<Rightarrow> pending_frame option on_frame" where
  "store_pending n now_ms frame pending =
     (case try_from_kiss_frame n frame now_ms of
        Ok p \<Rightarrow> (Ok (), Some p)
      | Err e \<Rightarrow> (Err e, pending)
      | Panic \<Rightarrow> (Panic, pending))"

text \<open>
  One turn of the loop of \<open>read_until_pending\<close>: it ends with a result and the link, or goes round
  with the byte buffer and the link.
\<close>

datatype ('r, 's) turn = Done 'r | Again 's

definition read_turn ::
  "'io serial_io \<Rightarrow> timestamp_ms \<Rightarrow> u8 list \<times> 'io serial_link \<Rightarrow>
   ((bool, rnode_serial_error) result \<times> 'io serial_link, u8 list \<times> 'io serial_link) turn" where
  "read_turn sio now_ms = (\<lambda>(byte, link).
     case sio_read sio byte (sl_io link) of
       (Err error, byte', io) \<Rightarrow> Done (Err error, link\<lparr>sl_io := io\<rparr>)
     | (Panic, byte', io) \<Rightarrow> Done (Panic, link\<lparr>sl_io := io\<rparr>)
     | (Ok nread, byte', io) \<Rightarrow>
         let link = link\<lparr>sl_io := io\<rparr> in
         if nread = 0 then Done (Ok False, link)
         else if length byte' < nread then Done (Err (ReadBufferTooSmall (length byte') nread), link)
         else case push_bytes (store_pending (length (kd_buffer (sl_decoder link))) now_ms) (take nread byte')
                (sl_decoder link, None) of
           (Err error, (decoder, pending)) \<Rightarrow> Done (Err (SerialKiss error), link\<lparr>sl_decoder := decoder\<rparr>)
         | (Panic, (decoder, pending)) \<Rightarrow> Done (Panic, link\<lparr>sl_decoder := decoder\<rparr>)
         | (Ok _, (decoder, pending)) \<Rightarrow>
             (case pending of
                Some frame \<Rightarrow> Done (Ok True, link\<lparr>sl_decoder := decoder, sl_pending := Some frame\<rparr>)
              | None \<Rightarrow> Again (byte', link\<lparr>sl_decoder := decoder\<rparr>)))"

partial_function (option) read_loop ::
  "'io serial_io \<Rightarrow> timestamp_ms \<Rightarrow> u8 list \<times> 'io serial_link \<Rightarrow>
   ((bool, rnode_serial_error) result \<times> 'io serial_link) option" where
  "read_loop sio now_ms s =
     (case read_turn sio now_ms s of Done r \<Rightarrow> Some r | Again s' \<Rightarrow> read_loop sio now_ms s')"

declare read_loop.simps [code]

definition read_until_pending ::
  "'io serial_io \<Rightarrow> timestamp_ms \<Rightarrow> 'io serial_link \<Rightarrow> ((bool, rnode_serial_error) result \<times> 'io serial_link) option" where
  "read_until_pending sio now_ms link = read_loop sio now_ms ([0], link)"

definition pending_bytes :: "pending_frame \<Rightarrow> (u8 list, 'e) result" where
  "pending_bytes p = slice_to (pf_payload p) (pf_payload_len p)"

text \<open>Results of the polling methods: the outcome, the output buffer and the link.\<close>

type_synonym ('io, 'a) polled = "('a option, rnode_serial_error) result \<times> u8 list \<times> 'io serial_link"

definition copy_out :: "u8 list \<Rightarrow> u8 list \<Rightarrow> (u8 list, rnode_serial_error) result" where
  "copy_out output bytes = copy_at output 0 bytes"

definition deliver_pending ::
  "(u8 list \<Rightarrow> (unit, rnode_serial_error) result) \<Rightarrow> u8 list \<Rightarrow> 'io serial_link \<Rightarrow> ('io, link_frame) polled" where
  "deliver_pending check output link =
     (case sl_pending link of
        None \<Rightarrow> (Ok None, output, link)
      | Some pending \<Rightarrow>
          if pf_command pending \<noteq> KISS_CMD_DATA then (Ok None, output, link)
          else if length output < pf_payload_len pending
          then (Err (ReadBufferTooSmall (length output) (pf_payload_len pending)), output, link)
          else case pending_bytes pending of
            Err e \<Rightarrow> (Err e, output, link)
          | Panic \<Rightarrow> (Panic, output, link)
          | Ok bytes \<Rightarrow>
              (case check bytes of
                 Err error \<Rightarrow> (Err error, output, link\<lparr>sl_pending := None\<rparr>)
               | Panic \<Rightarrow> (Panic, output, link)
               | Ok _ \<Rightarrow>
                   (case copy_out output bytes of
                      Ok output' \<Rightarrow>
                        (Ok (Some \<lparr>frame_link_id = rsc_link_id (sl_config link),
                                   frame_received_at_ms = pf_received_at_ms pending,
                                   frame_bytes = take (pf_payload_len pending) output'\<rparr>),
                         output', link\<lparr>sl_pending := None\<rparr>)
                    | Err e \<Rightarrow> (Err e, output, link)
                    | Panic \<Rightarrow> (Panic, output, link))))"

definition drain_pending_frame :: "u8 list \<Rightarrow> 'io serial_link \<Rightarrow> ('io, link_frame) polled" where
  "drain_pending_frame = deliver_pending (\<lambda>_. Ok ())"

definition drain_pending_hyf_frame :: "u8 list \<Rightarrow> 'io serial_link \<Rightarrow> ('io, link_frame) polled" where
  "drain_pending_hyf_frame =
     deliver_pending (\<lambda>bytes. rbind (map_err SerialHyfWire (decode_envelope bytes)) (\<lambda>_. Ok ()))"

definition drain_pending_command :: "('io serial_link, rnode_serial_event option, rnode_serial_error) stm" where
  "drain_pending_command link =
     (case sl_pending link of
        None \<Rightarrow> (Ok None, link)
      | Some pending \<Rightarrow>
          if pf_command pending = KISS_CMD_DATA then (Ok None, link)
          else case rbind (pending_bytes pending) (\<lambda>payload.
                 map_err SerialRNode (parse_command_frame \<lparr>kf_command = pf_command pending, kf_payload = payload\<rparr>)) of
            Err error \<Rightarrow> (Err error, link)
          | Panic \<Rightarrow> (Panic, link)
          | Ok rnode_event \<Rightarrow>
              (Ok (Some (serial_event_from_rnode rnode_event)),
               link\<lparr>sl_state := apply_event rnode_event (sl_state link), sl_pending := None\<rparr>))"

definition drain_pending :: "u8 list \<Rightarrow> 'io serial_link \<Rightarrow> ('io, rnode_serial_event) polled" where
  "drain_pending output link =
     (case sl_pending link of
        None \<Rightarrow> (Ok None, output, link)
      | Some pending \<Rightarrow>
          if pf_command pending = KISS_CMD_DATA
          then (case drain_pending_frame output link of
                  (r, output', link') \<Rightarrow> (rbind r (\<lambda>frame. Ok (map_option SerialFrame frame)), output', link'))
          else (case drain_pending_command link of (r, link') \<Rightarrow> (r, output, link')))"

definition poll_event_at ::
  "'io serial_io \<Rightarrow> timestamp_ms \<Rightarrow> u8 list \<Rightarrow> 'io serial_link \<Rightarrow> ('io, rnode_serial_event) polled option" where
  "poll_event_at sio now_ms output link =
     (if sl_pending link = None
      then Option.bind (read_until_pending sio now_ms link) (\<lambda>(r, link').
        case r of
          Ok True \<Rightarrow> Some (drain_pending output link')
        | Ok False \<Rightarrow> Some (Ok None, output, link')
        | Err error \<Rightarrow> Some (Err error, output, link')
        | Panic \<Rightarrow> Some (Panic, output, link'))
      else Some (drain_pending output link))"

text \<open>
  The loop shared by the four polling methods for gateway frames: read until a frame is pending,
  hand a data frame to \<open>drain\<close>, consume a command frame and go round. \<open>exit\<close> builds the
  method's result when it leaves the loop without a data frame.
\<close>

definition poll_turn ::
  "'io serial_io \<Rightarrow> timestamp_ms \<Rightarrow> ((link_frame option, rnode_serial_error) result \<Rightarrow> 'io serial_link \<Rightarrow> 'r) \<Rightarrow>
   ('io serial_link \<Rightarrow> 'r option) \<Rightarrow> 'io serial_link \<Rightarrow> ('r, 'io serial_link) turn option" where
  "poll_turn sio now_ms exit drain link =
     Option.bind (if sl_pending link = None then read_until_pending sio now_ms link else Some (Ok True, link)) (\<lambda>(r, link).
       case r of
         Err error \<Rightarrow> Some (Done (exit (Err error) link))
       | Panic \<Rightarrow> Some (Done (exit Panic link))
       | Ok False \<Rightarrow> Some (Done (exit (Ok None) link))
       | Ok True \<Rightarrow>
           (case sl_pending link of
              None \<Rightarrow> Some (Done (exit (Ok None) link))
            | Some pending \<Rightarrow>
                if pf_command pending = KISS_CMD_DATA then map_option Done (drain link)
                else (case drain_pending_command link of
                        (Ok _, link') \<Rightarrow> Some (Again link')
                      | (Err error, link') \<Rightarrow> Some (Done (exit (Err error) link'))
                      | (Panic, link') \<Rightarrow> Some (Done (exit Panic link')))))"

partial_function (option) poll_loop ::
  "'io serial_io \<Rightarrow> timestamp_ms \<Rightarrow> ((link_frame option, rnode_serial_error) result \<Rightarrow> 'io serial_link \<Rightarrow> 'r) \<Rightarrow>
   ('io serial_link \<Rightarrow> 'r option) \<Rightarrow> 'io serial_link \<Rightarrow> 'r option" where
  "poll_loop sio now_ms exit drain link =
     Option.bind (poll_turn sio now_ms exit drain link) (\<lambda>t.
       case t of Done r \<Rightarrow> Some r | Again link' \<Rightarrow> poll_loop sio now_ms exit drain link')"

declare poll_loop.simps [code]

definition poll_hyf_gateway_frame ::
  "'io serial_io \<Rightarrow> timestamp_ms \<Rightarrow> u8 list \<Rightarrow> 'io serial_link \<Rightarrow> ('io, link_frame) polled option" where
  "poll_hyf_gateway_frame sio now_ms output =
     poll_loop sio now_ms (\<lambda>r link. (r, output, link)) (\<lambda>link. Some (drain_pending_hyf_frame output link))"

definition poll_gateway_frame_at ::
  "'io serial_io \<Rightarrow> timestamp_ms \<Rightarrow> u8 list \<Rightarrow> 'io serial_link \<Rightarrow> ('io, link_frame) polled option" where
  "poll_gateway_frame_at sio now_ms output link =
     (if rsc_data_mode (sl_config link) = RawRnsPacketMode then Some (Err RnsWrapParamsRequired, output, link)
      else poll_hyf_gateway_frame sio now_ms output link)"

text \<open>
  The raw RNS paths: validate the packet (an invalid one is dropped), obtain the wrap parameters
  (given by the caller, or asked of the provider), wrap and encode into the output buffer.
\<close>

definition drain_raw_rns ::
  "(rns_packet_ref \<Rightarrow> timestamp_ms \<Rightarrow> 'p \<Rightarrow> (rns_wrap_params, rnode_serial_error) result \<times> 'p) \<Rightarrow>
   u8 list \<Rightarrow> 'io serial_link \<Rightarrow> 'p \<Rightarrow> ('io, link_frame) polled \<times> 'p" where
  "drain_raw_rns params_for output link prov =
     (case sl_pending link of
        None \<Rightarrow> ((Ok None, output, link), prov)
      | Some pending \<Rightarrow>
          if pf_command pending \<noteq> KISS_CMD_DATA then ((Ok None, output, link), prov)
          else case pending_bytes pending of
            Err e \<Rightarrow> ((Err e, output, link), prov)
          | Panic \<Rightarrow> ((Panic, output, link), prov)
          | Ok raw \<Rightarrow>
              (case validate_rns_packet raw of
                 Err error \<Rightarrow> ((Err (SerialRns error), output, link\<lparr>sl_pending := None\<rparr>), prov)
               | Panic \<Rightarrow> ((Panic, output, link), prov)
               | Ok packet \<Rightarrow>
                   (case params_for packet (pf_received_at_ms pending) prov of
                      (Err error, prov') \<Rightarrow> ((Err error, output, link), prov')
                    | (Panic, prov') \<Rightarrow> ((Panic, output, link), prov')
                    | (Ok params, prov') \<Rightarrow>
                        (case wrap_rns_packet packet params of
                           Err error \<Rightarrow> ((Err (SerialRns error), output, link), prov')
                         | Panic \<Rightarrow> ((Panic, output, link), prov')
                         | Ok envelope \<Rightarrow>
                             (case encode_envelope envelope output of
                                (Err error, output') \<Rightarrow> ((Err (SerialHyfWire error), output', link), prov')
                              | (Panic, output') \<Rightarrow> ((Panic, output', link), prov')
                              | (Ok len, output') \<Rightarrow>
                                  ((Ok (Some \<lparr>frame_link_id = rsc_link_id (sl_config link),
                                             frame_received_at_ms = pf_received_at_ms pending,
                                             frame_bytes = take len output'\<rparr>),
                                    output', link\<lparr>sl_pending := None\<rparr>), prov'))))))"

definition drain_pending_raw_rns_frame :: "u8 list \<Rightarrow> rns_wrap_params \<Rightarrow> 'io serial_link \<Rightarrow> ('io, link_frame) polled" where
  "drain_pending_raw_rns_frame output params link =
     fst (drain_raw_rns (\<lambda>packet now prov. (Ok params, prov)) output link ())"

type_synonym 'p wrap_provider = "rns_packet_ref \<Rightarrow> timestamp_ms \<Rightarrow> 'p \<Rightarrow> rns_wrap_params option \<times> 'p"

definition drain_pending_raw_rns_frame_with_provider ::
  "'p wrap_provider \<Rightarrow> u8 list \<Rightarrow> 'p \<Rightarrow> 'io serial_link \<Rightarrow> ('io, link_frame) polled \<times> 'p" where
  "drain_pending_raw_rns_frame_with_provider wrap_params output prov link =
     drain_raw_rns (\<lambda>packet now prov.
       case wrap_params packet now prov of (params, prov') \<Rightarrow> (ok_or RnsWrapParamsUnavailable params, prov')) output link prov"

definition poll_raw_rns_gateway_frame ::
  "'io serial_io \<Rightarrow> timestamp_ms \<Rightarrow> u8 list \<Rightarrow> rns_wrap_params \<Rightarrow> 'io serial_link \<Rightarrow> ('io, link_frame) polled option" where
  "poll_raw_rns_gateway_frame sio now_ms output params =
     poll_loop sio now_ms (\<lambda>r link. (r, output, link)) (\<lambda>link. Some (drain_pending_raw_rns_frame output params link))"

definition poll_gateway_frame_with_rns_params_at ::
  "'io serial_io \<Rightarrow> timestamp_ms \<Rightarrow> u8 list \<Rightarrow> rns_wrap_params \<Rightarrow> 'io serial_link \<Rightarrow> ('io, link_frame) polled option" where
  "poll_gateway_frame_with_rns_params_at sio now_ms output params link =
     (if rsc_data_mode (sl_config link) = HyfEnvelopeMode then Some (Err RnsWrapParamsUnexpected, output, link)
      else poll_raw_rns_gateway_frame sio now_ms output params link)"

definition poll_raw_rns_gateway_frame_with_provider ::
  "'p wrap_provider \<Rightarrow> 'io serial_io \<Rightarrow> timestamp_ms \<Rightarrow> u8 list \<Rightarrow> 'p \<Rightarrow> 'io serial_link \<Rightarrow>
   (('io, link_frame) polled \<times> 'p) option" where
  "poll_raw_rns_gateway_frame_with_provider wrap_params sio now_ms output prov =
     poll_loop sio now_ms (\<lambda>r link. ((r, output, link), prov))
       (\<lambda>link. Some (drain_pending_raw_rns_frame_with_provider wrap_params output prov link))"

text \<open>The implementation of \<open>LinkDriver\<close> by the link.\<close>

definition serial_is_up :: "'io serial_link \<Rightarrow> bool" where
  "serial_is_up link = can_transmit (sl_state link)"

definition serial_send_bytes :: "'io serial_io \<Rightarrow> u8 list \<Rightarrow> timestamp_ms \<Rightarrow> ('io serial_link, unit, rnode_serial_error) stm" where
  "serial_send_bytes sio bytes now_ms = send_gateway_bytes sio bytes now_ms"

definition serial_poll_frame ::
  "'io serial_io \<Rightarrow> timestamp_ms \<Rightarrow> u8 list \<Rightarrow> 'io serial_link \<Rightarrow> ('io, link_frame) polled option" where
  "serial_poll_frame sio now_ms output =
     poll_loop sio now_ms (\<lambda>r link. (r, output, link)) (\<lambda>link. poll_gateway_frame_at sio now_ms output link)"

text \<open>The driver for raw RNS packets: the link with a provider of wrap parameters.\<close>

record ('io, 'p) raw_rns_driver =
  rd_link :: "'io serial_link"
  rd_provider :: 'p

definition raw_rns_driver_new :: "'io serial_link \<Rightarrow> 'p \<Rightarrow> (('io, 'p) raw_rns_driver, rnode_serial_error) result" where
  "raw_rns_driver_new link provider =
     (if rsc_data_mode (sl_config link) \<noteq> RawRnsPacketMode then Err RawRnsModeRequired
      else Ok \<lparr>rd_link = link, rd_provider = provider\<rparr>)"

definition raw_rns_send_bytes ::
  "'io serial_io \<Rightarrow> u8 list \<Rightarrow> timestamp_ms \<Rightarrow> (('io, 'p) raw_rns_driver, unit, rnode_serial_error) stm" where
  "raw_rns_send_bytes sio bytes now_ms d =
     (case serial_send_bytes sio bytes now_ms (rd_link d) of (r, link) \<Rightarrow> (r, d\<lparr>rd_link := link\<rparr>))"

definition raw_rns_poll_frame ::
  "'p wrap_provider \<Rightarrow> 'io serial_io \<Rightarrow> timestamp_ms \<Rightarrow> u8 list \<Rightarrow> ('io, 'p) raw_rns_driver \<Rightarrow>
   ((link_frame option, rnode_serial_error) result \<times> u8 list \<times> ('io, 'p) raw_rns_driver) option" where
  "raw_rns_poll_frame wrap_params sio now_ms output d =
     map_option (\<lambda>((r, output', link), prov). (r, output', \<lparr>rd_link = link, rd_provider = prov\<rparr>))
       (poll_raw_rns_gateway_frame_with_provider wrap_params sio now_ms output (rd_provider d) (rd_link d))"

section \<open>The contract of a port\<close>

text \<open>
  A port in a good state delivers its incoming bytes one at a time, reports 0 when there are none,
  and appends what it accepts to its outgoing bytes; a rejected write sends nothing.
\<close>

locale serial_port =
  fixes sio :: "'io serial_io" and port_ok :: "'io \<Rightarrow> bool"
    and incoming :: "'io \<Rightarrow> u8 list" and outgoing :: "'io \<Rightarrow> u8 list"
  assumes read_empty: "port_ok io \<Longrightarrow> incoming io = [] \<Longrightarrow> sio_read sio [b] io = (Ok 0, [b], io)"
    and read_next: "port_ok io \<Longrightarrow> incoming io = x # xs \<Longrightarrow>
      \<exists>io'. sio_read sio [b] io = (Ok 1, [x], io') \<and> port_ok io' \<and> incoming io' = xs \<and> outgoing io' = outgoing io"
    and write_cases: "port_ok io \<Longrightarrow> sio_write_all sio bs io = (r, io') \<Longrightarrow>
      port_ok io' \<and> incoming io' = incoming io \<and>
      (r = Ok () \<and> outgoing io' = outgoing io @ bs \<or> (\<exists>e. r = Err e) \<and> outgoing io' = outgoing io)"
begin

lemma write_kiss_payload_sends:
  "port_ok io \<Longrightarrow> write_kiss_payload sio payload io = (r, io') \<Longrightarrow>
   port_ok io' \<and> incoming io' = incoming io \<and> r \<noteq> Panic \<and>
   (r = Ok () \<longrightarrow> outgoing io' = outgoing io @ kiss_escaped payload)"
proof (induction payload arbitrary: io)
  case (Cons byte payload)
  obtain r1 io1 where w: "sio_write_all sio (kiss_escape byte) io = (r1, io1)" by fastforce
  then have run: "write_kiss_payload sio (byte # payload) io =
      (case r1 of Ok _ \<Rightarrow> write_kiss_payload sio payload io1 | Err e \<Rightarrow> (Err e, io1) | Panic \<Rightarrow> (Panic, io1))"
    by (auto simp: kiss_escape_def sbind_def split: result.splits)
  from write_cases [OF Cons.prems(1) w] run Cons.IH [of io1] Cons.prems(2) show ?case
    by (auto split: result.splits)
qed auto

lemma write_kiss_frame_sends:
  assumes "port_ok io" and "write_kiss_frame sio command payload io = (r, io')"
  shows "port_ok io' \<and> incoming io' = incoming io \<and> r \<noteq> Panic \<and>
    (r = Ok () \<longrightarrow> outgoing io' = outgoing io @ kiss_bytes command payload)"
proof -
  obtain r1 io1 where w1: "sio_write_all sio [KISS_FEND, command] io = (r1, io1)" by fastforce
  obtain r2 io2 where w2: "write_kiss_payload sio payload io1 = (r2, io2)" by fastforce
  obtain r3 io3 where w3: "sio_write_all sio [KISS_FEND] io2 = (r3, io3)" by fastforce
  note c1 = write_cases [OF assms(1) w1]
  have c2: "port_ok io2 \<and> incoming io2 = incoming io1 \<and> r2 \<noteq> Panic \<and>
      (r2 = Ok () \<longrightarrow> outgoing io2 = outgoing io1 @ kiss_escaped payload)"
    using write_kiss_payload_sends [OF _ w2] c1 by blast
  have c3: "port_ok io3 \<and> incoming io3 = incoming io2 \<and>
      (r3 = Ok () \<and> outgoing io3 = outgoing io2 @ [KISS_FEND] \<or> (\<exists>e. r3 = Err e) \<and> outgoing io3 = outgoing io2)"
    using write_cases [OF _ w3] c2 by blast
  from assms(2) w1 w2 w3 have "(r, io') = (case r1 of Ok _ \<Rightarrow> (case r2 of Ok _ \<Rightarrow> (r3, io3) | Err e \<Rightarrow> (Err e, io2) | Panic \<Rightarrow> (Panic, io2))
      | Err e \<Rightarrow> (Err e, io1) | Panic \<Rightarrow> (Panic, io1))"
    by (auto simp: write_kiss_frame_def sbind_def split: result.splits)
  with c1 c2 c3 show ?thesis by (auto simp: kiss_bytes_def split: result.splits)
qed

end

text \<open>The fake port obeys the contract as long as no failure is injected.\<close>

definition fake_ok :: "fake_serial \<Rightarrow> bool" where
  "fake_ok s \<longleftrightarrow> fs_next_read_error s = None \<and> fs_next_write_error s = None \<and>
     fs_read_len s \<le> length (fs_read_buf s) \<and> fs_written_len s \<le> length (fs_written s)"

definition fake_incoming :: "fake_serial \<Rightarrow> u8 list" where
  "fake_incoming s = take (fs_read_len s) (fs_read_buf s)"

definition fake_outgoing :: "fake_serial \<Rightarrow> u8 list" where
  "fake_outgoing s = take (fs_written_len s) (fs_written s)"

lemma shift_down_step:
  assumes "c + k \<le> length buf"
  shows "length (foldl (\<lambda>b index. b[index := b ! (c + index)]) buf [0..<k]) = length buf \<and>
    (\<forall>i < length buf. foldl (\<lambda>b index. b[index := b ! (c + index)]) buf [0..<k] ! i =
       (if i < k then buf ! (c + i) else buf ! i))"
  using assms
proof (induction k)
  case (Suc k)
  then show ?case by (auto simp: nth_list_update less_Suc_eq)
qed simp

lemma shift_down_take:
  assumes "c + k \<le> length buf"
  shows "length (shift_down c k buf) = length buf" "take k (shift_down c k buf) = take k (drop c buf)"
  using shift_down_step [OF assms] assms
  by (auto simp: shift_down_def intro!: nth_equalityI)

interpretation fake_port: serial_port fake_io fake_ok fake_incoming fake_outgoing
proof
  fix io b assume "fake_ok io" "fake_incoming io = []"
  then have "fs_read_len io = 0" by (auto simp: fake_ok_def fake_incoming_def)
  with \<open>fake_ok io\<close> show "sio_read fake_io [b] io = (Ok 0, [b], io)"
    by (simp add: fake_io_def fake_read_def fake_ok_def)
next
  fix io b x xs assume ok: "fake_ok io" and inc: "fake_incoming io = x # xs"
  define n where "n = fs_read_len io - 1"
  define buf where "buf = fs_read_buf io"
  have "fs_read_len io \<noteq> 0" using inc by (cases "fs_read_len io") (simp_all add: fake_incoming_def)
  then have n: "fs_read_len io = Suc n" "Suc n \<le> length buf" using ok
    by (auto simp: fake_ok_def n_def buf_def)
  have buf: "buf ! 0 = x" "take n (drop 1 buf) = xs" "take 1 buf = [x]"
    using inc n by (cases buf; auto simp: fake_incoming_def buf_def [symmetric])+
  have shift: "length (shift_down 1 n buf) = length buf" "take n (shift_down 1 n buf) = xs"
    using shift_down_take [of 1 n buf] n buf(2) by simp_all
  have "fake_read [b] io = (Ok 1, [x], io\<lparr>fs_read_buf := shift_down 1 n buf, fs_read_len := n\<rparr>)"
    using ok n buf by (simp add: fake_read_def fake_ok_def buf_def [symmetric] slice_to_def copy_at_def Let_def)
  with ok n shift show "\<exists>io'. sio_read fake_io [b] io = (Ok 1, [x], io') \<and> fake_ok io' \<and>
      fake_incoming io' = xs \<and> fake_outgoing io' = fake_outgoing io"
    by (simp add: fake_io_def fake_ok_def fake_incoming_def fake_outgoing_def)
next
  fix io bs r io' assume ok: "fake_ok io" and "sio_write_all fake_io bs io = (r, io')"
  then have "fake_write_all bs io = (r, io')" by (simp add: fake_io_def)
  with ok show "fake_ok io' \<and> fake_incoming io' = fake_incoming io \<and>
      (r = Ok () \<and> fake_outgoing io' = fake_outgoing io @ bs \<or> (\<exists>e. r = Err e) \<and> fake_outgoing io' = fake_outgoing io)"
    by (auto simp: fake_write_all_def fake_ok_def fake_incoming_def fake_outgoing_def copy_at_def Let_def
        split: option.splits if_splits)
qed

section \<open>Reading frames\<close>

text \<open>Two facts on the decoder with an arbitrary callback.\<close>

lemma push_fend_silent:
  assumes "kiss_decoder_inv d" and "length (kd_buffer d) = n" and "kiss_leftover d = []"
  shows "\<exists>d'. push_byte on_frame KISS_FEND (d, c) = (Ok (), (d', c)) \<and> kiss_collecting n [] d'"
proof -
  have content: "kiss_content d = []" using assms(3) by (simp add: kiss_leftover_def split: list.splits)
  show ?thesis
  proof (cases "kd_in_frame d")
    case True
    with assms content show ?thesis
      by (auto simp: push_byte_def sbind_def finish_frame_eq kiss_collecting_def kiss_decoder_inv_def kiss_content_def)
  next
    case False
    with assms content show ?thesis
      by (auto simp: push_byte_def sbind_def sret_def kiss_collecting_def kiss_decoder_inv_def kiss_content_def)
  qed
qed

lemma push_fend_frame:
  assumes "kiss_collecting n (command # payload) d"
    and "on_frame \<lparr>kf_command = command, kf_payload = payload\<rparr> c = (Ok (), c')"
  shows "\<exists>d'. push_byte on_frame KISS_FEND (d, c) = (Ok (), (d', c')) \<and> kiss_collecting n [] d'"
  using assms by (auto simp: push_byte_def sbind_def finish_frame_eq kiss_collecting_def kiss_decoder_inv_def kiss_content_def)

lemma push_frame_prefix:
  assumes "kiss_decoder_inv d" and "length (kd_buffer d) = n" and "kiss_leftover d = []"
    and "kiss_sendable n \<lparr>kf_command = command, kf_payload = payload\<rparr>"
  shows "\<exists>d'. push_bytes on_frame (KISS_FEND # command # kiss_escaped payload) (d, c) = (Ok (), (d', c)) \<and>
    kiss_collecting n (command # payload) d'"
proof -
  obtain d1 where d1: "push_byte on_frame KISS_FEND (d, c) = (Ok (), (d1, c))" "kiss_collecting n [] d1"
    using push_fend_silent [OF assms(1-3), of on_frame c] by blast
  have esc: "kiss_escape command = [command]" "length ([] :: u8 list) < n" "length [command] + length payload \<le> n"
    using assms(4) by (auto simp: kiss_sendable_def kiss_escape_def)
  obtain d2 where d2: "push_byte on_frame command (d1, c) = (Ok (), (d2, c))" "kiss_collecting n [command] d2"
    using push_escape_collecting [OF d1(2) esc(2), of on_frame command c] esc(1) by (auto simp del: push_bytes.simps)
  obtain d3 where d3: "push_bytes on_frame (kiss_escaped payload) (d2, c) = (Ok (), (d3, c))"
    "kiss_collecting n (command # payload) d3"
    using push_escaped_collecting [OF d2(2) esc(3), of on_frame c] by auto
  with d1 d2 show ?thesis by (auto simp: sbind_def)
qed

text \<open>The closure never forgets a frame, so a run that ends without one had none on the way.\<close>

lemma store_pending_keeps:
  "push_byte (store_pending n now) b (d, Some p) = (Ok (), (d', c)) \<Longrightarrow> c \<noteq> None"
  by (auto simp: push_byte_def finish_frame_def on_decoder_def store_pending_def sbind_def sret_def Let_def
      split: if_splits prod.splits result.splits)

lemma store_pending_keeps_all:
  "push_bytes (store_pending n now) bs (d, Some p) = (Ok (), (d', c)) \<Longrightarrow> c \<noteq> None"
proof (induction bs arbitrary: d p)
  case (Cons b bs)
  then obtain d1 c1 where s: "push_byte (store_pending n now) b (d, Some p) = (Ok (), (d1, c1))"
    "push_bytes (store_pending n now) bs (d1, c1) = (Ok (), (d', c))"
    by (auto simp: sbind_eq_Ok)
  with store_pending_keeps [OF s(1)] Cons.IH show ?case by auto
qed auto

lemma push_bytes_store_none:
  assumes "push_bytes (store_pending n now) (b # bs) (d, None) = (Ok (), (d', None))"
  obtains d1 where "push_byte (store_pending n now) b (d, None) = (Ok (), (d1, None))"
    "push_bytes (store_pending n now) bs (d1, None) = (Ok (), (d', None))"
proof -
  from assms obtain d1 c1 where s: "push_byte (store_pending n now) b (d, None) = (Ok (), (d1, c1))"
    "push_bytes (store_pending n now) bs (d1, c1) = (Ok (), (d', None))"
    by (auto simp: sbind_eq_Ok)
  with store_pending_keeps_all have "c1 = None" by (cases c1) blast+
  with s that show thesis by simp
qed

lemma store_pending_Ok:
  assumes "length payload \<le> n"
  shows "store_pending n now \<lparr>kf_command = command, kf_payload = payload\<rparr> c =
    (Ok (), Some \<lparr>pf_command = command, pf_payload = payload @ replicate (n - length payload) 0,
                  pf_payload_len = length payload, pf_received_at_ms = now\<rparr>)"
  using assms by (simp add: store_pending_def try_from_kiss_frame_def copy_at_def Let_def)

lemma store_pending_no_panic: "fst (store_pending n now frame c) \<noteq> Panic"
  by (auto simp: store_pending_def try_from_kiss_frame_def copy_at_def Let_def)

abbreviation decoder_size :: "'io serial_link \<Rightarrow> usize" where
  "decoder_size link \<equiv> length (kd_buffer (sl_decoder link))"

context serial_port
begin

lemma read_loop_next:
  assumes "port_ok (sl_io link)" and "incoming (sl_io link) = x # xs"
  shows "\<exists>io. port_ok io \<and> incoming io = xs \<and> outgoing io = outgoing (sl_io link) \<and>
    read_loop sio now ([b], link) =
      (case push_byte (store_pending (decoder_size link) now) x (sl_decoder link, None) of
         (Err error, (decoder, pending)) \<Rightarrow> Some (Err (SerialKiss error), link\<lparr>sl_io := io, sl_decoder := decoder\<rparr>)
       | (Panic, (decoder, pending)) \<Rightarrow> Some (Panic, link\<lparr>sl_io := io, sl_decoder := decoder\<rparr>)
       | (Ok _, (decoder, pending)) \<Rightarrow>
           (case pending of
              Some frame \<Rightarrow> Some (Ok True, link\<lparr>sl_io := io, sl_decoder := decoder, sl_pending := Some frame\<rparr>)
            | None \<Rightarrow> read_loop sio now ([x], link\<lparr>sl_io := io, sl_decoder := decoder\<rparr>)))"
proof -
  obtain io where io: "sio_read sio [b] (sl_io link) = (Ok 1, [x], io)" "port_ok io" "incoming io = xs"
    "outgoing io = outgoing (sl_io link)" using read_next [OF assms] by blast
  obtain r d p where pb: "push_byte (store_pending (decoder_size link) now) x (sl_decoder link, None) = (r, (d, p))"
    using prod_cases3 by blast
  from io show ?thesis
    by (intro exI [of _ io], subst read_loop.simps) (cases r; cases p; simp add: read_turn_def Let_def pb del: push_bytes.simps)
qed

lemma read_loop_empty:
  assumes "port_ok (sl_io link)" and "incoming (sl_io link) = []"
  shows "read_loop sio now ([b], link) = Some (Ok False, link)"
  using read_empty [OF assms] by (subst read_loop.simps) (simp add: read_turn_def)

lemma read_loop_silent:
  "push_bytes (store_pending (decoder_size link) now) pre (sl_decoder link, None) = (Ok (), (d', None)) \<Longrightarrow>
   kiss_decoder_inv (sl_decoder link) \<Longrightarrow> port_ok (sl_io link) \<Longrightarrow> incoming (sl_io link) = pre @ xs \<Longrightarrow>
   \<exists>io b'. port_ok io \<and> incoming io = xs \<and> outgoing io = outgoing (sl_io link) \<and>
     read_loop sio now ([b], link) = read_loop sio now ([b'], link\<lparr>sl_io := io, sl_decoder := d'\<rparr>)"
proof (induction pre arbitrary: link b)
  case Nil
  then have "link\<lparr>sl_io := sl_io link, sl_decoder := d'\<rparr> = link" by simp
  with Nil show ?case by (metis append_Nil)
next
  case (Cons x pre)
  let ?n = "decoder_size link"
  obtain d1 where d1: "push_byte (store_pending ?n now) x (sl_decoder link, None) = (Ok (), (d1, None))"
    "push_bytes (store_pending ?n now) pre (d1, None) = (Ok (), (d', None))"
    using push_bytes_store_none [OF Cons.prems(1)] by blast
  have "preserves (kiss_state_ok ?n) (push_byte (store_pending ?n now) x)"
    by (rule push_byte_preserves) (rule store_pending_no_panic)
  from preservesD [OF this _ d1(1)] Cons.prems(2) have inv: "kiss_decoder_inv d1" "length (kd_buffer d1) = ?n" by simp_all
  obtain io where io: "port_ok io" "incoming io = pre @ xs" "outgoing io = outgoing (sl_io link)"
    "read_loop sio now ([b], link) = read_loop sio now ([x], link\<lparr>sl_io := io, sl_decoder := d1\<rparr>)"
    using read_loop_next [OF Cons.prems(3), of x "pre @ xs" now b] Cons.prems(4) d1(1) by auto
  with Cons.IH [of "link\<lparr>sl_io := io, sl_decoder := d1\<rparr>" x] d1(2) inv show ?case by auto
qed

lemma reads_frame:
  assumes port: "port_ok (sl_io link)" "incoming (sl_io link) = kiss_bytes command payload @ xs"
    and dec: "kiss_decoder_inv (sl_decoder link)" "kiss_leftover (sl_decoder link) = []"
    and frame: "kiss_sendable (decoder_size link) \<lparr>kf_command = command, kf_payload = payload\<rparr>"
  shows "\<exists>io d. port_ok io \<and> incoming io = xs \<and> outgoing io = outgoing (sl_io link) \<and>
    kiss_collecting (decoder_size link) [] d \<and>
    read_until_pending sio now link = Some (Ok True, link\<lparr>sl_io := io, sl_decoder := d, sl_pending :=
      Some \<lparr>pf_command = command, pf_payload = payload @ replicate (decoder_size link - length payload) 0,
            pf_payload_len = length payload, pf_received_at_ms = now\<rparr>\<rparr>)"
proof -
  let ?n = "decoder_size link" and ?cb = "store_pending (decoder_size link) now"
  obtain d1 where d1: "push_bytes ?cb (KISS_FEND # command # kiss_escaped payload) (sl_decoder link, None) = (Ok (), (d1, None))"
    "kiss_collecting ?n (command # payload) d1"
    using push_frame_prefix [OF dec(1) refl dec(2) frame, of ?cb None] by blast
  have "incoming (sl_io link) = (KISS_FEND # command # kiss_escaped payload) @ KISS_FEND # xs"
    using port(2) by (simp add: kiss_bytes_def)
  from read_loop_silent [OF d1(1) dec(1) port(1) this, of 0] obtain io b where
    io: "port_ok io" "incoming io = KISS_FEND # xs" "outgoing io = outgoing (sl_io link)"
      "read_loop sio now ([0], link) = read_loop sio now ([b], link\<lparr>sl_io := io, sl_decoder := d1\<rparr>)" by blast
  have "length payload \<le> ?n" using frame by (simp add: kiss_sendable_def)
  from push_fend_frame [of ?n command payload d1 ?cb None, OF d1(2) store_pending_Ok [OF this]] obtain d2 where
    d2: "push_byte ?cb KISS_FEND (d1, None) = (Ok (), (d2, Some \<lparr>pf_command = command,
      pf_payload = payload @ replicate (?n - length payload) 0, pf_payload_len = length payload, pf_received_at_ms = now\<rparr>))"
      "kiss_collecting ?n [] d2" by blast
  have size: "length (kd_buffer d1) = ?n" using d1(2) by (simp add: kiss_collecting_def)
  from read_loop_next [of "link\<lparr>sl_io := io, sl_decoder := d1\<rparr>" KISS_FEND xs now b] io(1,2) d2(1) size obtain io' where
    "port_ok io'" "incoming io' = xs" "outgoing io' = outgoing io"
    "read_loop sio now ([b], link\<lparr>sl_io := io, sl_decoder := d1\<rparr>) = Some (Ok True, link\<lparr>sl_io := io', sl_decoder := d2, sl_pending :=
      Some \<lparr>pf_command = command, pf_payload = payload @ replicate (?n - length payload) 0,
            pf_payload_len = length payload, pf_received_at_ms = now\<rparr>\<rparr>)"
    by auto
  with io d2(2) show ?thesis unfolding read_until_pending_def by auto
qed

end

section \<open>The loops return\<close>

text \<open>The link's invariant: its port is good, its decoder consistent, a pending payload within its buffer.\<close>

definition pending_ok :: "pending_frame option \<Rightarrow> bool" where
  "pending_ok pending \<longleftrightarrow> (\<forall>p. pending = Some p \<longrightarrow> pf_payload_len p \<le> length (pf_payload p))"

lemma pending_ok_None [simp]: "pending_ok None"
  by (simp add: pending_ok_def)

definition link_inv :: "('io \<Rightarrow> bool) \<Rightarrow> 'io serial_link \<Rightarrow> bool" where
  "link_inv port_ok link \<longleftrightarrow> port_ok (sl_io link) \<and> kiss_decoder_inv (sl_decoder link) \<and>
     rsc_mtu (sl_config link) < decoder_size link \<and> pending_ok (sl_pending link)"

lemma store_pending_ok:
  assumes "push_byte (store_pending n now) b (d, None) = (r, (d', c))"
  shows "pending_ok c"
  using assms
  by (auto simp: pending_ok_def push_byte_def finish_frame_def on_decoder_def store_pending_def try_from_kiss_frame_def
      copy_at_def sbind_def sret_def Let_def split: if_splits prod.splits result.splits)

lemma push_byte_store_inv:
  assumes "push_byte (store_pending n now) b (d, None) = (r, (d', c))" and "kiss_decoder_inv d" and "length (kd_buffer d) = n"
  shows "r \<noteq> Panic \<and> kiss_decoder_inv d' \<and> length (kd_buffer d') = n"
proof -
  have "preserves (kiss_state_ok n) (push_byte (store_pending n now) b)"
    by (rule push_byte_preserves) (rule store_pending_no_panic)
  from preservesD [OF this _ assms(1)] assms(2,3) show ?thesis by simp
qed

lemma pending_bytes_Ok: "pending_ok (Some p) \<Longrightarrow> pending_bytes p = Ok (take (pf_payload_len p) (pf_payload p))"
  by (simp add: pending_ok_def pending_bytes_def slice_to_def)

text \<open>What a run of the link keeps.\<close>

definition link_kept :: "('io \<Rightarrow> u8 list) \<Rightarrow> ('io \<Rightarrow> u8 list) \<Rightarrow> 'io serial_link \<Rightarrow> 'io serial_link \<Rightarrow> bool" where
  "link_kept incoming outgoing link link' \<longleftrightarrow> sl_config link' = sl_config link \<and>
     outgoing (sl_io link') = outgoing (sl_io link) \<and>
     length (incoming (sl_io link')) \<le> length (incoming (sl_io link))"

lemma link_kept_refl [simp]: "link_kept inc out link link"
  by (simp add: link_kept_def)

lemma link_kept_trans [trans]: "link_kept inc out a b \<Longrightarrow> link_kept inc out b c \<Longrightarrow> link_kept inc out a c"
  by (auto simp: link_kept_def)

context serial_port
begin

lemma read_loop_returns:
  "link_inv port_ok link \<Longrightarrow> sl_pending link = None \<Longrightarrow>
   \<exists>r link'. read_loop sio now ([b], link) = Some (r, link') \<and> r \<noteq> Panic \<and> link_inv port_ok link' \<and>
     link_kept incoming outgoing link link' \<and> (r = Ok True \<longleftrightarrow> sl_pending link' \<noteq> None) \<and>
     (sl_pending link' \<noteq> None \<longrightarrow> length (incoming (sl_io link')) < length (incoming (sl_io link)))"
proof (induction "incoming (sl_io link)" arbitrary: link b)
  case Nil
  then show ?case using read_loop_empty [of link now b] by (auto simp: link_inv_def)
next
  case (Cons x xs)
  have ok: "port_ok (sl_io link)" "kiss_decoder_inv (sl_decoder link)" "rsc_mtu (sl_config link) < decoder_size link"
    using Cons.prems by (auto simp: link_inv_def)
  obtain r d c where pb: "push_byte (store_pending (decoder_size link) now) x (sl_decoder link, None) = (r, (d, c))"
    using prod_cases3 by blast
  note dec = push_byte_store_inv [OF pb ok(2) refl] store_pending_ok [OF pb]
  obtain io where io: "port_ok io" "incoming io = xs" "outgoing io = outgoing (sl_io link)"
    and run: "read_loop sio now ([b], link) =
      (case push_byte (store_pending (decoder_size link) now) x (sl_decoder link, None) of
         (Err error, (decoder, pending)) \<Rightarrow> Some (Err (SerialKiss error), link\<lparr>sl_io := io, sl_decoder := decoder\<rparr>)
       | (Panic, (decoder, pending)) \<Rightarrow> Some (Panic, link\<lparr>sl_io := io, sl_decoder := decoder\<rparr>)
       | (Ok _, (decoder, pending)) \<Rightarrow>
           (case pending of
              Some frame \<Rightarrow> Some (Ok True, link\<lparr>sl_io := io, sl_decoder := decoder, sl_pending := Some frame\<rparr>)
            | None \<Rightarrow> read_loop sio now ([x], link\<lparr>sl_io := io, sl_decoder := decoder\<rparr>)))"
    using read_loop_next [OF ok(1) Cons.hyps(2) [symmetric], of now b] by blast
  let ?link = "link\<lparr>sl_io := io, sl_decoder := d\<rparr>"
  have inv: "link_inv port_ok ?link" "link_kept incoming outgoing link ?link"
    using Cons.prems ok dec io Cons.hyps(2) [symmetric] by (auto simp: link_inv_def link_kept_def pending_ok_def)
  consider e where "r = Err e" | "r = Ok ()" "c = None" | p where "r = Ok ()" "c = Some p"
    using dec(1) by (cases r; cases c) auto
  then show ?case
  proof cases
    case 1
    with run pb inv Cons.prems(2) show ?thesis by simp
  next
    case 2
    then have "read_loop sio now ([b], link) = read_loop sio now ([x], ?link)" using run pb by simp
    moreover have "xs = incoming (sl_io ?link)" using io by simp
    from Cons.hyps(1) [OF this inv(1), of x] obtain r' link' where
      "read_loop sio now ([x], ?link) = Some (r', link')" "r' \<noteq> Panic" "link_inv port_ok link'"
      "link_kept incoming outgoing ?link link'" "r' = Ok True \<longleftrightarrow> sl_pending link' \<noteq> None"
      using Cons.prems(2) by auto
    moreover from this(4) have "link_kept incoming outgoing link link'" by (rule link_kept_trans [OF inv(2)])
    moreover have "length (incoming (sl_io link')) < length (incoming (sl_io link))"
      using \<open>link_kept incoming outgoing ?link link'\<close> io Cons.hyps(2) [symmetric] by (simp add: link_kept_def)
    ultimately show ?thesis by auto
  next
    case 3
    then have "read_loop sio now ([b], link) = Some (Ok True, ?link\<lparr>sl_pending := Some p\<rparr>)" using run pb by simp
    moreover have "link_inv port_ok (?link\<lparr>sl_pending := Some p\<rparr>)" "link_kept incoming outgoing link (?link\<lparr>sl_pending := Some p\<rparr>)"
      using inv dec(2) 3(2) by (auto simp: link_inv_def link_kept_def)
    ultimately show ?thesis using io Cons.hyps(2) [symmetric] by simp
  qed
qed

lemma drain_command_step:
  assumes "link_inv port_ok link" and "sl_pending link = Some p" and "pf_command p \<noteq> KISS_CMD_DATA"
    and "drain_pending_command link = (r, link')"
  shows "r \<noteq> Panic \<and> link_inv port_ok link' \<and> link_kept incoming outgoing link link' \<and> r \<noteq> Ok None \<and>
    sl_io link' = sl_io link \<and> (\<forall>ev. r = Ok ev \<longrightarrow> sl_pending link' = None)"
proof -
  let ?frame = "\<lparr>kf_command = pf_command p, kf_payload = take (pf_payload_len p) (pf_payload p)\<rparr>"
  have ok: "pending_ok (Some p)" using assms(1,2) by (simp add: link_inv_def)
  show ?thesis using assms parse_command_frame_no_panic [of ?frame]
    by (cases "parse_command_frame ?frame")
      (auto simp: drain_pending_command_def pending_bytes_Ok [OF ok] link_inv_def link_kept_def pending_ok_def)
qed

text \<open>
  The polling loop returns: every turn that goes round has consumed a frame. What holds of every
  way out of the loop holds of its result.
\<close>

definition link_work :: "'io serial_link \<Rightarrow> nat" where
  "link_work link = 2 * length (incoming (sl_io link)) + of_bool (sl_pending link \<noteq> None)"

lemma next_pending:
  assumes "link_inv port_ok link"
  obtains r link1 where "(if sl_pending link = None then read_until_pending sio now link else Some (Ok True, link)) = Some (r, link1)"
    "r \<noteq> Panic" "link_inv port_ok link1" "link_kept incoming outgoing link link1" "r = Ok True \<longleftrightarrow> sl_pending link1 \<noteq> None"
    "link_work link1 \<le> link_work link"
proof (cases "sl_pending link")
  case None
  from read_loop_returns [OF assms None, of now 0] obtain r link' where
    *: "read_loop sio now ([0], link) = Some (r, link')" "r \<noteq> Panic" "link_inv port_ok link'"
    "link_kept incoming outgoing link link'" "r = Ok True \<longleftrightarrow> sl_pending link' \<noteq> None"
    "sl_pending link' \<noteq> None \<longrightarrow> length (incoming (sl_io link')) < length (incoming (sl_io link))" by blast
  then have "length (incoming (sl_io link')) \<le> length (incoming (sl_io link))" by (simp add: link_kept_def)
  with * None show thesis by (intro that [of r link']) (auto simp: read_until_pending_def link_work_def)
next
  case (Some p)
  with assms show thesis by (intro that [of "Ok True" link]) auto
qed

lemma poll_turn_cases:
  assumes link: "link_inv port_ok link"
    and exit: "\<And>r link1. link_inv port_ok link1 \<Longrightarrow> link_kept incoming outgoing link link1 \<Longrightarrow> r \<noteq> Panic \<Longrightarrow>
      (\<And>f. r \<noteq> Ok (Some f)) \<Longrightarrow> Q (exit r link1)"
    and drain: "\<And>link1 p. link_inv port_ok link1 \<Longrightarrow> link_kept incoming outgoing link link1 \<Longrightarrow> sl_pending link1 = Some p \<Longrightarrow>
      pf_command p = KISS_CMD_DATA \<Longrightarrow> \<exists>q. drain link1 = Some q \<and> Q q"
  obtains (fin) q where "poll_turn sio now exit drain link = Some (Done q)" "Q q"
  | (again) link2 where "poll_turn sio now exit drain link = Some (Again link2)" "link_inv port_ok link2"
      "link_kept incoming outgoing link link2" "link_work link2 < link_work link"
proof -
  obtain r link1 where rd: "(if sl_pending link = None then read_until_pending sio now link else Some (Ok True, link)) = Some (r, link1)"
    "r \<noteq> Panic" "link_inv port_ok link1" "link_kept incoming outgoing link link1" "r = Ok True \<longleftrightarrow> sl_pending link1 \<noteq> None"
    "link_work link1 \<le> link_work link" using next_pending [OF link] by metis
  note turn = poll_turn_def [of sio now exit drain link, unfolded rd(1), simplified]
  show thesis
  proof (cases r)
    case (Err e)
    with turn exit [OF rd(3,4), of "Err e"] show thesis by (intro fin) auto
  next
    case (Ok v)
    show thesis
    proof (cases "sl_pending link1")
      case None
      with rd(5) Ok have "r = Ok False" by (cases v) auto
      with turn exit [OF rd(3,4), of "Ok None"] show thesis by (intro fin) auto
    next
      case (Some p)
      with rd(5) have r: "r = Ok True" by simp
      obtain r2 link2 where dr: "drain_pending_command link1 = (r2, link2)" by fastforce
      show thesis
      proof (cases "pf_command p = KISS_CMD_DATA")
        case True
        with drain [OF rd(3,4) Some] r turn Some show thesis by (auto intro: fin)
      next
        case False
        note st = drain_command_step [OF rd(3) Some False dr]
        have kept: "link_kept incoming outgoing link link2" using st link_kept_trans [OF rd(4)] by blast
        show thesis
        proof (cases r2)
          case (Ok ev)
          with st Some rd(6) have "link_work link2 < link_work link" by (auto simp: link_work_def)
          with Ok turn r Some False dr st kept show thesis by (intro again) auto
        next
          case (Err e)
          with turn r Some False dr exit [OF _ kept, of "Err e"] st show thesis by (intro fin) auto
        qed (use st in simp)
      qed
    qed
  qed (use rd(2) in simp)
qed

lemma poll_loop_returns:
  assumes "link_inv port_ok link"
    and "\<And>r link1. link_inv port_ok link1 \<Longrightarrow> link_kept incoming outgoing link link1 \<Longrightarrow> r \<noteq> Panic \<Longrightarrow>
      (\<And>f. r \<noteq> Ok (Some f)) \<Longrightarrow> Q (exit r link1)"
    and "\<And>link1 p. link_inv port_ok link1 \<Longrightarrow> link_kept incoming outgoing link link1 \<Longrightarrow> sl_pending link1 = Some p \<Longrightarrow>
      pf_command p = KISS_CMD_DATA \<Longrightarrow> \<exists>q. drain link1 = Some q \<and> Q q"
  shows "\<exists>q. poll_loop sio now exit drain link = Some q \<and> Q q"
  using assms
proof (induction "link_work link" arbitrary: link rule: less_induct)
  case less
  consider (fin) q where "poll_turn sio now exit drain link = Some (Done q)" "Q q"
    | (again) link2 where "poll_turn sio now exit drain link = Some (Again link2)" "link_inv port_ok link2"
        "link_kept incoming outgoing link link2" "link_work link2 < link_work link"
    by (rule poll_turn_cases [of link Q exit drain now]) (use less.prems in blast)+
  then show ?case
  proof cases
    case (fin q)
    then show ?thesis by (subst poll_loop.simps) simp
  next
    case (again link2)
    have "\<exists>q. poll_loop sio now exit drain link2 = Some q \<and> Q q"
      by (rule less.hyps [OF again(4,2)]) (use less.prems link_kept_trans [OF again(3)] in blast)+
    with again(1) show ?thesis by (subst poll_loop.simps) simp
  qed
qed

text \<open>A data frame that passes its check is copied out, one that does not is dropped.\<close>

definition delivered :: "u8 list \<Rightarrow> 'io serial_link \<Rightarrow> ('io, link_frame) polled \<Rightarrow> bool" where
  "delivered output link = (\<lambda>(r, out, link'). r \<noteq> Panic \<and> link_inv port_ok link' \<and>
     link_kept incoming outgoing link link' \<and> length out = length output \<and>
     (\<forall>f. r = Ok (Some f) \<longrightarrow> frame_link_id f = rsc_link_id (sl_config link) \<and>
        frame_bytes f = take (length (frame_bytes f)) out \<and> (\<exists>e. decode_envelope (frame_bytes f) = Ok e)))"

lemma delivered_trans:
  "delivered output link1 q \<Longrightarrow> link_kept incoming outgoing link link1 \<Longrightarrow> delivered output link q"
  by (cases q) (auto simp: delivered_def link_kept_def)

lemma drain_hyf_delivered:
  assumes "link_inv port_ok link" and "sl_pending link = Some p"
  shows "delivered output link (drain_pending_hyf_frame output link)"
proof -
  let ?bytes = "take (pf_payload_len p) (pf_payload p)"
  have ok: "pending_ok (Some p)" using assms by (simp add: link_inv_def)
  have none: "link_inv port_ok (link\<lparr>sl_pending := None\<rparr>)" using assms(1) by (simp add: link_inv_def pending_ok_def)
  have len: "length ?bytes = pf_payload_len p" using ok by (simp add: pending_ok_def)
  show ?thesis
    using assms none len decode_envelope_no_panic [of ?bytes]
    by (cases "decode_envelope ?bytes")
      (auto simp: drain_pending_hyf_frame_def deliver_pending_def pending_bytes_Ok [OF ok] delivered_def copy_out_def
        copy_at_0 link_kept_def)
qed

lemma poll_gateway_delivered:
  assumes "link_inv port_ok link"
  shows "\<exists>q. poll_gateway_frame_at sio now output link = Some q \<and> delivered output link q"
proof (cases "rsc_data_mode (sl_config link) = RawRnsPacketMode")
  case True
  with assms show ?thesis by (auto simp: poll_gateway_frame_at_def delivered_def)
next
  case False
  have "\<exists>q. poll_hyf_gateway_frame sio now output link = Some q \<and> delivered output link q"
    unfolding poll_hyf_gateway_frame_def
  proof (rule poll_loop_returns [OF assms])
    fix link1 p assume "link_inv port_ok link1" "link_kept incoming outgoing link link1" "sl_pending link1 = Some p"
    then show "\<exists>q. Some (drain_pending_hyf_frame output link1) = Some q \<and> delivered output link q"
      using drain_hyf_delivered delivered_trans by blast
  qed (auto simp: delivered_def)
  with False show ?thesis by (simp add: poll_gateway_frame_at_def)
qed

lemma serial_poll_delivered:
  assumes "link_inv port_ok link"
  shows "\<exists>q. serial_poll_frame sio now output link = Some q \<and> delivered output link q"
  unfolding serial_poll_frame_def
proof (rule poll_loop_returns [OF assms])
  fix link1 p assume "link_inv port_ok link1" "link_kept incoming outgoing link link1" "sl_pending link1 = Some p"
  then show "\<exists>q. poll_gateway_frame_at sio now output link1 = Some q \<and> delivered output link q"
    using poll_gateway_delivered delivered_trans by blast
qed (auto simp: delivered_def)

text \<open>An idle link is between frames.\<close>

definition link_idle :: "'io serial_link \<Rightarrow> bool" where
  "link_idle link \<longleftrightarrow> link_inv port_ok link \<and> sl_pending link = None \<and> kiss_leftover (sl_decoder link) = []"

lemma idle_reads_frame:
  assumes "link_idle link" and "incoming (sl_io link) = kiss_frame_bytes frame @ xs"
    and "kiss_sendable (decoder_size link) frame"
  obtains io d where "port_ok io" "incoming io = xs" "outgoing io = outgoing (sl_io link)"
    "kiss_decoder_inv d" "length (kd_buffer d) = decoder_size link" "kiss_leftover d = []"
    "read_until_pending sio now link = Some (Ok True, link\<lparr>sl_io := io, sl_decoder := d, sl_pending :=
      Some \<lparr>pf_command = kf_command frame,
            pf_payload = kf_payload frame @ replicate (decoder_size link - length (kf_payload frame)) 0,
            pf_payload_len = length (kf_payload frame), pf_received_at_ms = now\<rparr>\<rparr>)"
proof -
  have "port_ok (sl_io link)" "kiss_decoder_inv (sl_decoder link)" "kiss_leftover (sl_decoder link) = []"
    using assms(1) by (auto simp: link_idle_def link_inv_def)
  moreover have "kiss_sendable (decoder_size link) \<lparr>kf_command = kf_command frame, kf_payload = kf_payload frame\<rparr>"
    using assms(3) by (cases frame) simp
  ultimately show thesis
    using reads_frame [of link "kf_command frame" "kf_payload frame" xs now] assms(2) that
      kiss_collecting_inv kiss_leftover_collecting by (metis (no_types, lifting))
qed

lemma poll_loop_command:
  assumes idle: "link_idle link" and inc: "incoming (sl_io link) = kiss_frame_bytes frame @ xs"
    and frame: "kiss_sendable (decoder_size link) frame" "kf_command frame \<noteq> KISS_CMD_DATA"
      "parse_command_frame frame = Ok ev"
  obtains link' where "poll_loop sio now exit drain link = poll_loop sio now exit drain link'" "link_idle link'"
    "incoming (sl_io link') = xs" "outgoing (sl_io link') = outgoing (sl_io link)" "sl_config link' = sl_config link"
    "decoder_size link' = decoder_size link" "sl_state link' = apply_event ev (sl_state link)"
proof -
  obtain io d where io: "port_ok io" "incoming io = xs" "outgoing io = outgoing (sl_io link)"
    "kiss_decoder_inv d" "length (kd_buffer d) = decoder_size link" "kiss_leftover d = []"
    and rd: "read_until_pending sio now link = Some (Ok True, link\<lparr>sl_io := io, sl_decoder := d, sl_pending :=
      Some \<lparr>pf_command = kf_command frame,
            pf_payload = kf_payload frame @ replicate (decoder_size link - length (kf_payload frame)) 0,
            pf_payload_len = length (kf_payload frame), pf_received_at_ms = now\<rparr>\<rparr>)"
    using idle_reads_frame [OF idle inc frame(1)] by blast
  let ?link = "link\<lparr>sl_io := io, sl_decoder := d, sl_state := apply_event ev (sl_state link), sl_pending := None\<rparr>"
  have "parse_command_frame \<lparr>kf_command = kf_command frame, kf_payload = kf_payload frame\<rparr> = Ok ev"
    using frame(3) by (cases frame) simp
  then have "poll_turn sio now exit drain link = Some (Again ?link)"
    using idle rd frame
    by (simp add: poll_turn_def link_idle_def drain_pending_command_def pending_bytes_def slice_to_def)
  then have "poll_loop sio now exit drain link = poll_loop sio now exit drain ?link"
    by (subst poll_loop.simps) simp
  moreover have "link_idle ?link" using idle io by (simp add: link_idle_def link_inv_def)
  ultimately show thesis using io by (intro that [of ?link]) simp_all
qed

lemma poll_loop_commands:
  assumes "link_idle link" and "incoming (sl_io link) = concat (map kiss_frame_bytes frames) @ xs"
    and "\<forall>f \<in> set frames. kiss_sendable (decoder_size link) f \<and> kf_command f \<noteq> KISS_CMD_DATA"
    and "map parse_command_frame frames = map Ok events"
  shows "\<exists>link'. poll_loop sio now exit drain link = poll_loop sio now exit drain link' \<and> link_idle link' \<and>
    incoming (sl_io link') = xs \<and> outgoing (sl_io link') = outgoing (sl_io link) \<and> sl_config link' = sl_config link \<and>
    decoder_size link' = decoder_size link \<and> sl_state link' = fold apply_event events (sl_state link)"
  using assms
proof (induction frames arbitrary: link events)
  case Nil
  then show ?case by auto
next
  case (Cons frame frames)
  from Cons.prems(4) obtain ev evs where ev: "events = ev # evs" "parse_command_frame frame = Ok ev"
    "map parse_command_frame frames = map Ok evs" by (cases events) auto
  from Cons.prems have inc: "incoming (sl_io link) = kiss_frame_bytes frame @ concat (map kiss_frame_bytes frames) @ xs"
    and fr: "kiss_sendable (decoder_size link) frame" "kf_command frame \<noteq> KISS_CMD_DATA" by simp_all
  obtain link1 where l1: "poll_loop sio now exit drain link = poll_loop sio now exit drain link1" "link_idle link1"
    "incoming (sl_io link1) = concat (map kiss_frame_bytes frames) @ xs" "outgoing (sl_io link1) = outgoing (sl_io link)"
    "sl_config link1 = sl_config link" "decoder_size link1 = decoder_size link" "sl_state link1 = apply_event ev (sl_state link)"
    using poll_loop_command [OF Cons.prems(1) inc fr ev(2)] by blast
  have "\<forall>f \<in> set frames. kiss_sendable (decoder_size link1) f \<and> kf_command f \<noteq> KISS_CMD_DATA"
    using Cons.prems(3) l1(6) by simp
  from Cons.IH [OF l1(2,3) this ev(3)] l1 show ?case by (simp add: ev(1))
qed

text \<open>A data frame that is an envelope is delivered by the next poll.\<close>

lemma serial_poll_data:
  assumes idle: "link_idle link" and inc: "incoming (sl_io link) = kiss_bytes KISS_CMD_DATA bytes @ xs"
    and size: "length bytes < decoder_size link" and mode: "rsc_data_mode (sl_config link) = HyfEnvelopeMode"
    and dec: "decode_envelope bytes = Ok e" and out: "length bytes \<le> length output"
  obtains link' where "serial_poll_frame sio now output link =
      Some (Ok (Some \<lparr>frame_link_id = rsc_link_id (sl_config link), frame_received_at_ms = now, frame_bytes = bytes\<rparr>),
            bytes @ drop (length bytes) output, link')"
    "link_idle link'" "incoming (sl_io link') = xs" "outgoing (sl_io link') = outgoing (sl_io link)"
    "sl_state link' = sl_state link" "sl_config link' = sl_config link"
proof -
  let ?p = "\<lparr>pf_command = KISS_CMD_DATA, pf_payload = bytes @ replicate (decoder_size link - length bytes) 0,
      pf_payload_len = length bytes, pf_received_at_ms = now\<rparr>"
  have "kiss_sendable (decoder_size link) \<lparr>kf_command = KISS_CMD_DATA, kf_payload = bytes\<rparr>"
    using size by (simp add: kiss_sendable_def kiss_constants KISS_CMD_DATA_def)
  from idle_reads_frame [OF idle _ this, of xs now] inc obtain io d where
    io: "port_ok io" "incoming io = xs" "outgoing io = outgoing (sl_io link)"
      "kiss_decoder_inv d" "length (kd_buffer d) = decoder_size link" "kiss_leftover d = []"
    and rd: "read_until_pending sio now link = Some (Ok True, link\<lparr>sl_io := io, sl_decoder := d, sl_pending := Some ?p\<rparr>)"
    by auto
  let ?link1 = "link\<lparr>sl_io := io, sl_decoder := d, sl_pending := Some ?p\<rparr>"
  let ?res = "(Ok (Some \<lparr>frame_link_id = rsc_link_id (sl_config link), frame_received_at_ms = now, frame_bytes = bytes\<rparr>),
      bytes @ drop (length bytes) output, link\<lparr>sl_io := io, sl_decoder := d, sl_pending := None\<rparr>)"
  have "drain_pending_hyf_frame output ?link1 = ?res"
    using dec out
    by (simp add: drain_pending_hyf_frame_def deliver_pending_def pending_bytes_def slice_to_def copy_out_def copy_at_0)
  then have "poll_gateway_frame_at sio now output ?link1 = Some ?res"
    using mode by (simp add: poll_gateway_frame_at_def poll_hyf_gateway_frame_def)
      (subst poll_loop.simps, simp add: poll_turn_def)
  moreover have "sl_pending link = None" using idle by (simp add: link_idle_def)
  ultimately have "serial_poll_frame sio now output link = Some ?res"
    unfolding serial_poll_frame_def using rd by (subst poll_loop.simps) (simp add: poll_turn_def)
  moreover have "link_idle (link\<lparr>sl_io := io, sl_decoder := d, sl_pending := None\<rparr>)"
    using idle io by (simp add: link_idle_def link_inv_def)
  ultimately show thesis using io by (intro that [of "link\<lparr>sl_io := io, sl_decoder := d, sl_pending := None\<rparr>"]) simp_all
qed

lemma send_cases:
  assumes "link_inv port_ok link" and "send_gateway_bytes sio bytes now link = (r, link')"
  shows "r \<noteq> Panic \<and> link_inv port_ok link' \<and> incoming (sl_io link') = incoming (sl_io link) \<and>
    (case r of
       Ok _ \<Rightarrow> \<exists>payload. payload_for_send link bytes = Ok payload \<and> length payload \<le> rsc_mtu (sl_config link) \<and>
         can_transmit (sl_state link) \<and> outgoing (sl_io link') = outgoing (sl_io link) @ kiss_bytes KISS_CMD_DATA payload \<and>
         link' = link\<lparr>sl_io := sl_io link', sl_state := mark_tx_started (sl_state link)\<rparr>
     | _ \<Rightarrow> (can_transmit (sl_state link) \<or> link' = link) \<and> link' = link\<lparr>sl_io := sl_io link'\<rparr>)"
proof -
  have "payload_for_send link bytes \<noteq> Panic"
    using decode_envelope_no_panic [of bytes] decode_packet_no_panic
    by (auto simp: payload_for_send_def unwrap_rns_packet_def validate_rns_packet_def rbind_eq_Panic
        split: rnode_data_mode.splits if_splits)
  then consider e where "payload_for_send link bytes = Err e" | payload where "payload_for_send link bytes = Ok payload"
    by (cases "payload_for_send link bytes") auto
  then show ?thesis
  proof cases
    case 1
    with assms show ?thesis by (auto simp: send_gateway_bytes_def)
  next
    case 2
    obtain r1 io where w: "write_kiss_frame sio KISS_CMD_DATA payload (sl_io link) = (r1, io)" by fastforce
    with write_kiss_frame_sends [OF _ w] 2 assms show ?thesis
      by (cases r1) (auto simp: send_gateway_bytes_def link_inv_def split: if_splits)
  qed
qed

end

section \<open>A link on the fake port\<close>

lemma fake_write_room:
  assumes "fake_ok io" and "length (fake_outgoing io) + length bs \<le> length (fs_written io)" and "length (fs_written io) \<le> usize_max"
  shows "\<exists>io'. fake_write_all bs io = (Ok (), io') \<and> fake_ok io' \<and> fake_outgoing io' = fake_outgoing io @ bs \<and>
    length (fs_written io') = length (fs_written io)"
  using assms
  by (auto simp: fake_write_all_def fake_ok_def fake_outgoing_def checked_add_def copy_at_def Let_def min_absorb2)

lemma fake_write_payload_room:
  "fake_ok io \<Longrightarrow> length (fake_outgoing io) + length (kiss_escaped payload) \<le> length (fs_written io) \<Longrightarrow>
   length (fs_written io) \<le> usize_max \<Longrightarrow>
   \<exists>io'. write_kiss_payload fake_io payload io = (Ok (), io') \<and> fake_ok io' \<and>
     fake_outgoing io' = fake_outgoing io @ kiss_escaped payload \<and> length (fs_written io') = length (fs_written io)"
proof (induction payload arbitrary: io)
  case (Cons byte payload)
  from Cons.prems obtain io1 where w: "fake_write_all (kiss_escape byte) io = (Ok (), io1)" "fake_ok io1"
    "fake_outgoing io1 = fake_outgoing io @ kiss_escape byte" "length (fs_written io1) = length (fs_written io)"
    using fake_write_room [of io "kiss_escape byte"] by auto
  then have "write_kiss_payload fake_io (byte # payload) io = write_kiss_payload fake_io payload io1"
    by (auto simp: kiss_escape_def sbind_def fake_io_def)
  with Cons.IH [of io1] Cons.prems w show ?case by auto
qed auto

lemma fake_write_frame_room:
  assumes "fake_ok io" and "length (fake_outgoing io) + length (kiss_bytes command payload) \<le> length (fs_written io)"
    and "length (fs_written io) \<le> usize_max"
  shows "\<exists>io'. write_kiss_frame fake_io command payload io = (Ok (), io') \<and> fake_outgoing io' = fake_outgoing io @ kiss_bytes command payload"
proof -
  note bytes = kiss_bytes_def [of command payload]
  obtain io1 where w1: "fake_write_all [KISS_FEND, command] io = (Ok (), io1)" "fake_ok io1"
    "fake_outgoing io1 = fake_outgoing io @ [KISS_FEND, command]" "length (fs_written io1) = length (fs_written io)"
    using fake_write_room [OF assms(1) _ assms(3), of "[KISS_FEND, command]"] assms(2) bytes by auto
  obtain io2 where w2: "write_kiss_payload fake_io payload io1 = (Ok (), io2)" "fake_ok io2"
    "fake_outgoing io2 = fake_outgoing io1 @ kiss_escaped payload" "length (fs_written io2) = length (fs_written io)"
    using fake_write_payload_room [OF w1(2), of payload] w1 assms(2,3) bytes by auto
  obtain io3 where w3: "fake_write_all [KISS_FEND] io2 = (Ok (), io3)" "fake_outgoing io3 = fake_outgoing io2 @ [KISS_FEND]"
    using fake_write_room [OF w2(2), of "[KISS_FEND]"] w1 w2 assms(2,3) bytes by auto
  from w1 w2 w3 bytes show ?thesis
    by (auto simp: write_kiss_frame_def sbind_def fake_io_def)
qed

definition sample_serial_config :: rnode_serial_config where
  "sample_serial_config = serial_config_new (LinkId (replicate 16 7)) 256 HyfEnvelopeMode"

definition sample_serial_link :: "u8 list \<Rightarrow> bool \<Rightarrow> fake_serial serial_link" where
  "sample_serial_link input ready =
     \<lparr>sl_config = sample_serial_config,
      sl_io = (fake_serial_new 0 600)\<lparr>fs_read_buf := input, fs_read_len := length input\<rparr>,
      sl_state = (rnode_state_new True)\<lparr>rs_interface_ready := ready\<rparr>, sl_decoder = kiss_decoder_new 300, sl_pending = None\<rparr>"

lemma sample_serial_link_idle: "fake_port.link_idle (sample_serial_link input ready)"
  by (simp add: fake_port.link_idle_def link_inv_def sample_serial_link_def fake_ok_def fake_serial_new_def
      sample_serial_config_def serial_config_new_def kiss_decoder_new_inv)

lemma sample_serial_link_inv: "link_inv fake_ok (sample_serial_link input ready)"
  using sample_serial_link_idle by (simp add: fake_port.link_idle_def)

lemma sample_serial_link_simps [simp]:
  "fake_incoming (sl_io (sample_serial_link input ready)) = input"
  "fake_outgoing (sl_io (sample_serial_link input ready)) = []"
  "sl_config (sample_serial_link input ready) = sample_serial_config"
  "sl_pending (sample_serial_link input ready) = None"
  "decoder_size (sample_serial_link input ready) = 300"
  by (simp_all add: sample_serial_link_def fake_incoming_def fake_outgoing_def fake_serial_new_def kiss_decoder_new_inv)

definition sample_frame :: "u8 list" where
  "sample_frame = envelope_bytes (sample_envelope (Node (NodeId (replicate 32 68))) 9)"

lemma sample_frame_decodes: "decode_envelope sample_frame = Ok (sample_envelope (Node (NodeId (replicate 32 68))) 9)"
  unfolding sample_frame_def by (rule decode_encode) (simp_all add: sample_envelope_wf sample_envelope_valid wf_defs)

lemma length_sample_frame: "length sample_frame = 120"
  by (simp add: sample_frame_def sample_envelope_def envelope_bytes_def length_be_bytes)

lemma sample_sends:
  "\<exists>link'. serial_send_bytes fake_io sample_frame now (sample_serial_link input True) = (Ok (), link') \<and>
     fake_outgoing (sl_io link') = kiss_bytes KISS_CMD_DATA sample_frame"
proof -
  let ?io = "sl_io (sample_serial_link input True)"
  have "fake_ok ?io" using sample_serial_link_inv by (auto simp: link_inv_def)
  moreover have "length (fs_written ?io) = 600" by (simp add: sample_serial_link_def fake_serial_new_def)
  moreover have "600 \<le> usize_max" by (simp add: usize_max_def)
  moreover have "length (kiss_bytes KISS_CMD_DATA sample_frame) \<le> 600"
    using length_kiss_bytes_le [of KISS_CMD_DATA sample_frame] length_sample_frame by linarith
  ultimately obtain io where "write_kiss_frame fake_io KISS_CMD_DATA sample_frame ?io = (Ok (), io)"
    "fake_outgoing io = kiss_bytes KISS_CMD_DATA sample_frame"
    using fake_write_frame_room [of ?io KISS_CMD_DATA sample_frame] by (auto simp del: length_kiss_bytes)
  moreover have "payload_for_send (sample_serial_link input True) sample_frame = Ok sample_frame"
    by (simp add: payload_for_send_def sample_serial_config_def serial_config_new_def sample_frame_decodes)
  moreover have "can_transmit (sl_state (sample_serial_link input True))"
    by (simp add: sample_serial_link_def can_transmit_def)
  ultimately show ?thesis
    by (simp add: serial_send_bytes_def send_gateway_bytes_def length_sample_frame sample_serial_config_def serial_config_new_def)
qed

section \<open>Properties\<close>

text \<open>
  C24. What one link sends, another receives. If \<open>send_bytes\<close> succeeds on a link in envelope mode
  and the bytes it put on its port arrive at an idle link in envelope mode whose MTU is no smaller,
  possibly after any number of well-formed command frames of the modem, then one poll with a large
  enough buffer returns exactly the frame that was sent, leaves what follows on the port, and has
  applied the events of the command frames in order.\<close>

theorem serial_end_to_end:
  assumes ports: "serial_port sioA okA incA outA" "serial_port sioB okB incB outB"
    and send: "link_inv okA a" "rsc_data_mode (sl_config a) = HyfEnvelopeMode"
      "serial_send_bytes sioA bytes sent_ms a = (Ok (), a')" "outA (sl_io a') = outA (sl_io a) @ wire"
    and recv: "link_inv okB b" "sl_pending b = None" "kiss_leftover (sl_decoder b) = []"
      "rsc_data_mode (sl_config b) = HyfEnvelopeMode" "rsc_mtu (sl_config a) \<le> rsc_mtu (sl_config b)"
      "incB (sl_io b) = concat (map kiss_frame_bytes commands) @ wire @ rest"
    and commands: "\<forall>f \<in> set commands. kiss_sendable (decoder_size b) f \<and> kf_command f \<noteq> KISS_CMD_DATA"
      "map parse_command_frame commands = map Ok events"
    and room: "length bytes \<le> length output"
  shows "\<exists>b'. serial_poll_frame sioB now output b =
      Some (Ok (Some \<lparr>frame_link_id = rsc_link_id (sl_config b), frame_received_at_ms = now, frame_bytes = bytes\<rparr>),
            bytes @ drop (length bytes) output, b') \<and>
    link_inv okB b' \<and> incB (sl_io b') = rest \<and> sl_pending b' = None \<and>
    sl_state b' = fold apply_event events (sl_state b)"
proof -
  from serial_port.send_cases [OF ports(1) send(1)] send(2-4) obtain e where
    wire: "wire = kiss_bytes KISS_CMD_DATA bytes" "decode_envelope bytes = Ok e" "length bytes \<le> rsc_mtu (sl_config a)"
    by (fastforce simp: serial_send_bytes_def payload_for_send_def)
  have idle: "serial_port.link_idle okB b" using recv by (simp add: serial_port.link_idle_def [OF ports(2)])
  from serial_port.poll_loop_commands [OF ports(2) idle recv(6) commands] obtain b1 where
    b1: "serial_poll_frame sioB now output b = serial_poll_frame sioB now output b1" "serial_port.link_idle okB b1"
      "incB (sl_io b1) = wire @ rest" "sl_config b1 = sl_config b" "decoder_size b1 = decoder_size b"
      "sl_state b1 = fold apply_event events (sl_state b)"
    unfolding serial_poll_frame_def by blast
  have "length bytes < decoder_size b1" using wire(3) recv(1,5) b1(5) by (simp add: link_inv_def)
  from serial_port.serial_poll_data [OF ports(2) b1(2) _ this _ wire(2) room] b1 wire(1) recv(4) show ?thesis
    by (metis serial_port.link_idle_def [OF ports(2)])
qed

theorem serial_end_to_end_witness:
  "\<exists>a' wire b'. serial_send_bytes fake_io sample_frame (TimestampMs 5) (sample_serial_link [] True) = (Ok (), a') \<and>
     fake_outgoing (sl_io a') = wire \<and>
     serial_poll_frame fake_io (TimestampMs 9) (replicate 128 0) (sample_serial_link (kiss_bytes RNODE_CMD_READY [] @ wire) False) =
       Some (Ok (Some \<lparr>frame_link_id = LinkId (replicate 16 7), frame_received_at_ms = TimestampMs 9, frame_bytes = sample_frame\<rparr>),
             sample_frame @ replicate 8 0, b') \<and>
     fake_incoming (sl_io b') = [] \<and> can_transmit (sl_state b')"
proof -
  let ?a = "sample_serial_link [] True" and ?ready = "\<lparr>kf_command = RNODE_CMD_READY, kf_payload = []\<rparr> :: kiss_frame"
  obtain a' where a': "serial_send_bytes fake_io sample_frame (TimestampMs 5) ?a = (Ok (), a')"
    "fake_outgoing (sl_io a') = kiss_bytes KISS_CMD_DATA sample_frame" using sample_sends by blast
  let ?wire = "kiss_bytes KISS_CMD_DATA sample_frame"
  let ?b = "sample_serial_link (kiss_bytes RNODE_CMD_READY [] @ ?wire) False"
  have idle: "fake_port.link_idle ?b" by (rule sample_serial_link_idle)
  have ready: "kiss_sendable 300 ?ready" "RNODE_CMD_READY \<noteq> KISS_CMD_DATA" "parse_command_frame ?ready = Ok EvReady"
    by (simp_all add: kiss_sendable_def rnode_commands kiss_constants KISS_CMD_DATA_def parse_command_frame_def parse_ready_def)
  have "\<exists>b'. serial_poll_frame fake_io (TimestampMs 9) (replicate 128 0) ?b =
      Some (Ok (Some \<lparr>frame_link_id = rsc_link_id (sl_config ?b), frame_received_at_ms = TimestampMs 9, frame_bytes = sample_frame\<rparr>),
            sample_frame @ drop (length sample_frame) (replicate 128 0), b') \<and>
    link_inv fake_ok b' \<and> fake_incoming (sl_io b') = [] \<and> sl_pending b' = None \<and>
    sl_state b' = fold apply_event [EvReady] (sl_state ?b)"
    by (rule serial_end_to_end [OF fake_port.serial_port_axioms fake_port.serial_port_axioms sample_serial_link_inv _ a'(1),
          where wire = ?wire and commands = "[?ready]"])
      (use a'(2) idle ready in \<open>simp_all add: fake_port.link_idle_def sample_serial_config_def serial_config_new_def length_sample_frame\<close>)
  with a' show ?thesis
    by (auto simp: sample_serial_config_def serial_config_new_def length_sample_frame can_transmit_def
        sample_serial_link_def)
qed

text \<open>
  Sending is exact. On every port and in every state, \<open>send_bytes\<close> returns without a panic
  and keeps the link's invariant and the incoming bytes. If it succeeds, the modem was ready, the
  payload is within the MTU and is an envelope (or the RNS packet inside one), the port has got
  exactly its KISS data frame, and under flow control the link refuses to send again until the
  modem reports ready. While the modem is not ready nothing is written and nothing changes.\<close>

theorem serial_send_exact:
  assumes "serial_port sio port_ok incoming outgoing" and "link_inv port_ok link"
    and "serial_send_bytes sio bytes now link = (r, link')"
  shows "r \<noteq> Panic \<and> link_inv port_ok link' \<and> incoming (sl_io link') = incoming (sl_io link) \<and>
    (r = Ok () \<longrightarrow> can_transmit (sl_state link) \<and> rs_flow_control (sl_state link') = rs_flow_control (sl_state link) \<and>
       (rs_flow_control (sl_state link) \<longrightarrow> \<not> serial_is_up link') \<and>
       (\<exists>e payload. decode_envelope bytes = Ok e \<and>
          payload = (if rsc_data_mode (sl_config link) = HyfEnvelopeMode then bytes else env_payload e) \<and>
          length payload \<le> rsc_mtu (sl_config link) \<and>
          outgoing (sl_io link') = outgoing (sl_io link) @ kiss_bytes KISS_CMD_DATA payload)) \<and>
    (\<not> can_transmit (sl_state link) \<longrightarrow> link' = link)"
proof -
  note cases = serial_port.send_cases [OF assms(1,2) assms(3) [unfolded serial_send_bytes_def]]
  have payload: "\<exists>e. decode_envelope bytes = Ok e \<and>
      payload = (if rsc_data_mode (sl_config link) = HyfEnvelopeMode then bytes else env_payload e)"
    if "payload_for_send link bytes = Ok payload" for payload
    using that by (auto simp: payload_for_send_def unwrap_rns_packet_def validate_rns_packet_def
        split: rnode_data_mode.splits if_splits)
  show ?thesis
  proof (cases r)
    case (Ok u)
    with cases obtain payload where p: "payload_for_send link bytes = Ok payload" "length payload \<le> rsc_mtu (sl_config link)"
      "can_transmit (sl_state link)" "outgoing (sl_io link') = outgoing (sl_io link) @ kiss_bytes KISS_CMD_DATA payload"
      "link' = link\<lparr>sl_io := sl_io link', sl_state := mark_tx_started (sl_state link)\<rparr>" by auto
    have "sl_state link' = mark_tx_started (sl_state link)" by (subst p(5)) simp
    then have "rs_flow_control (sl_state link') = rs_flow_control (sl_state link)"
      "rs_flow_control (sl_state link) \<longrightarrow> \<not> serial_is_up link'"
      by (simp_all add: mark_tx_started_def serial_is_up_def can_transmit_def)
    with p payload [OF p(1)] cases Ok show ?thesis by blast
  qed (use cases in auto)
qed

theorem serial_send_exact_witness:
  "\<exists>link'. serial_send_bytes fake_io sample_frame (TimestampMs 5) (sample_serial_link [] True) = (Ok (), link') \<and>
     \<not> serial_is_up link' \<and> fake_outgoing (sl_io link') = kiss_bytes KISS_CMD_DATA sample_frame"
proof -
  obtain link' where run: "serial_send_bytes fake_io sample_frame (TimestampMs 5) (sample_serial_link [] True) = (Ok (), link')"
    using sample_sends by blast
  have "rs_flow_control (sl_state (sample_serial_link [] True))" "rsc_data_mode sample_serial_config = HyfEnvelopeMode"
    by (simp_all add: sample_serial_link_def rnode_state_new_def sample_serial_config_def serial_config_new_def)
  with serial_send_exact [OF fake_port.serial_port_axioms sample_serial_link_inv run] run show ?thesis by auto
qed

text \<open>
  C25. Polling returns. On a port that runs dry, whatever bytes are on it (malformed frames,
  commands, noise), \<open>poll_frame\<close> returns: it does not loop and does not panic, it keeps the
  link's invariant and configuration, writes nothing to the port, and a frame it delivers carries
  the link's id, lies at the start of the caller's buffer and is an envelope that decodes.\<close>

theorem serial_poll_returns:
  assumes "serial_port sio port_ok incoming outgoing" and "link_inv port_ok link"
  shows "\<exists>r out link'. serial_poll_frame sio now output link = Some (r, out, link') \<and> r \<noteq> Panic \<and>
    link_inv port_ok link' \<and> sl_config link' = sl_config link \<and> outgoing (sl_io link') = outgoing (sl_io link) \<and>
    length (incoming (sl_io link')) \<le> length (incoming (sl_io link)) \<and> length out = length output \<and>
    (\<forall>f. r = Ok (Some f) \<longrightarrow> frame_link_id f = rsc_link_id (sl_config link) \<and>
       frame_bytes f = take (length (frame_bytes f)) out \<and> (\<exists>e. decode_envelope (frame_bytes f) = Ok e))"
  using serial_port.serial_poll_delivered [OF assms, of now "output"]
  by (auto simp: serial_port.delivered_def [OF assms(1)] link_kept_def)

theorem serial_poll_returns_witness:
  "\<exists>r out link'. serial_poll_frame fake_io (TimestampMs 9) (replicate 8 0)
     (sample_serial_link [0xC0, 0x24, 0xDB, 0xC0, 0xDB, 0x17, 0xC0, 0x00, 0x01] True) = Some (r, out, link') \<and> r \<noteq> Panic \<and> length out = 8"
  using serial_poll_returns [OF fake_port.serial_port_axioms sample_serial_link_inv,
      of "TimestampMs 9" "replicate 8 0" "[0xC0, 0x24, 0xDB, 0xC0, 0xDB, 0x17, 0xC0, 0x00, 0x01]" True]
  by auto

lemma poll_loop_stops:
  assumes "sl_pending link = Some p" and "pf_command p \<noteq> KISS_CMD_DATA" and "drain_pending_command link = (Err e, link')"
  shows "poll_loop sio now exit drain link = Some (exit (Err e) link')"
  using assms by (subst poll_loop.simps) (simp add: poll_turn_def)

text \<open>
  C26. A malformed command frame wedges the link. When the pending frame is a command that the
  parser rejects, every way of polling the link fails and leaves the buffer and the link exactly as
  they were: the frame stays pending and nothing is read from the port, so the same holds of the next
  poll, whatever it is, at any time and with any buffer. The error is the parser's, except that the
  two gateway polls first refuse to be called in the other data mode.\<close>

theorem malformed_command_wedges:
  assumes "sl_pending link = Some p" and "pf_command p \<noteq> KISS_CMD_DATA" and "pf_payload_len p \<le> length (pf_payload p)"
    and "parse_command_frame \<lparr>kf_command = pf_command p, kf_payload = take (pf_payload_len p) (pf_payload p)\<rparr> = Err e"
  shows "serial_poll_frame sio now output link = Some (Err (SerialRNode e), output, link) \<and>
    poll_event_at sio now output link = Some (Err (SerialRNode e), output, link) \<and>
    poll_raw_rns_gateway_frame_with_provider wrap_params sio now output prov link =
      Some ((Err (SerialRNode e), output, link), prov) \<and>
    poll_gateway_frame_at sio now output link =
      Some (Err (if rsc_data_mode (sl_config link) = RawRnsPacketMode then RnsWrapParamsRequired else SerialRNode e), output, link) \<and>
    poll_gateway_frame_with_rns_params_at sio now output params link =
      Some (Err (if rsc_data_mode (sl_config link) = HyfEnvelopeMode then RnsWrapParamsUnexpected else SerialRNode e), output, link)"
proof -
  have drain: "drain_pending_command link = (Err (SerialRNode e), link)"
    using assms by (simp add: drain_pending_command_def pending_bytes_def slice_to_def)
  with assms(1,2) show ?thesis
    by (simp add: poll_loop_stops [OF assms(1,2) drain] serial_poll_frame_def poll_event_at_def drain_pending_def
        poll_raw_rns_gateway_frame_with_provider_def poll_gateway_frame_at_def poll_hyf_gateway_frame_def
        poll_gateway_frame_with_rns_params_at_def poll_raw_rns_gateway_frame_def)
qed

theorem malformed_command_wedges_witness:
  "\<exists>link. fst (the (poll_event_at fake_io (TimestampMs 1) (replicate 8 0) (sample_serial_link [0xC0, 0x23, 0xC0] True))) =
       Err (SerialRNode (InvalidPayloadLength 0x23 0 1)) \<and>
     link = snd (snd (the (poll_event_at fake_io (TimestampMs 1) (replicate 8 0) (sample_serial_link [0xC0, 0x23, 0xC0] True)))) \<and>
     serial_poll_frame fake_io (TimestampMs 2) (replicate 600 0) link =
       Some (Err (SerialRNode (InvalidPayloadLength 0x23 0 1)), replicate 600 0, link)"
proof -
  let ?frame = "\<lparr>kf_command = 0x23, kf_payload = []\<rparr> :: kiss_frame" and ?link = "sample_serial_link [0xC0, 0x23, 0xC0] True"
  have "fake_incoming (sl_io ?link) = kiss_frame_bytes ?frame @ []" "kiss_sendable (decoder_size ?link) ?frame"
    by (simp_all add: kiss_bytes_def kiss_constants kiss_sendable_def)
  from fake_port.idle_reads_frame [OF sample_serial_link_idle this, of "TimestampMs 1"] obtain io d where
    "read_until_pending fake_io (TimestampMs 1) ?link = Some (Ok True, ?link\<lparr>sl_io := io, sl_decoder := d, sl_pending :=
      Some \<lparr>pf_command = kf_command ?frame,
            pf_payload = kf_payload ?frame @ replicate (decoder_size ?link - length (kf_payload ?frame)) 0,
            pf_payload_len = length (kf_payload ?frame), pf_received_at_ms = TimestampMs 1\<rparr>\<rparr>)" by blast
  moreover define link where "link = ?link\<lparr>sl_io := io, sl_decoder := d, sl_pending :=
      Some \<lparr>pf_command = 0x23, pf_payload = replicate 300 0, pf_payload_len = 0, pf_received_at_ms = TimestampMs 1\<rparr>\<rparr>"
  moreover have "parse_command_frame ?frame = Err (InvalidPayloadLength 0x23 0 1)"
    by (simp add: parse_command_frame_def rnode_commands parse_rssi_def expect_len_def invalid_len_def)
  ultimately have "poll_event_at fake_io (TimestampMs 1) (replicate 8 0) ?link =
      Some (Err (SerialRNode (InvalidPayloadLength 0x23 0 1)), replicate 8 0, link)"
    by (simp add: poll_event_at_def drain_pending_def drain_pending_command_def pending_bytes_def slice_to_def KISS_CMD_DATA_def)
  moreover have "serial_poll_frame fake_io (TimestampMs 2) (replicate 600 0) link =
       Some (Err (SerialRNode (InvalidPayloadLength 0x23 0 1)), replicate 600 0, link)"
    by (rule malformed_command_wedges [where p = "\<lparr>pf_command = 0x23, pf_payload = replicate 300 0, pf_payload_len = 0,
          pf_received_at_ms = TimestampMs 1\<rparr>", THEN conjunct1])
      (use \<open>parse_command_frame ?frame = _\<close> in \<open>simp_all add: link_def KISS_CMD_DATA_def\<close>)
  ultimately show ?thesis by simp
qed

end
