(* ===== verification/Hyf_Bridge.thy ===== *)
theory Hyf_Bridge
  imports Hyf_Wire
begin

text \<open>
  The crate \<open>hyf_bridge_core\<close>: the bridge message, the neutral form in which a message crosses
  from one network to another, its byte format and its carriage in a HYF envelope
  (\<open>src/crates/hyf_bridge_core/src/{constants,types,error,codec,wrap}.rs\<close>). The lemmas show that
  the codec is a bijection between valid messages and accepted byte strings, and that an envelope
  carries a bridge message only under its own message id and room.
\<close>

section \<open>Constants, errors and types\<close>

definition HYF_BRIDGE_MESSAGE_VERSION_0 :: u8 where "HYF_BRIDGE_MESSAGE_VERSION_0 = 0"
definition HYF_BRIDGE_HYF_NODE_AUTHOR_ID_LEN :: usize where "HYF_BRIDGE_HYF_NODE_AUTHOR_ID_LEN = 32"
definition HYF_BRIDGE_BITCHAT_AUTHOR_ID_LEN :: usize where "HYF_BRIDGE_BITCHAT_AUTHOR_ID_LEN = 8"
definition HYF_BRIDGE_LXMF_AUTHOR_ID_LEN :: usize where "HYF_BRIDGE_LXMF_AUTHOR_ID_LEN = 16"
definition HYF_BRIDGE_NOSTR_AUTHOR_ID_LEN :: usize where "HYF_BRIDGE_NOSTR_AUTHOR_ID_LEN = 32"
definition HYF_BRIDGE_PAYLOAD_MAX_LEN :: usize where "HYF_BRIDGE_PAYLOAD_MAX_LEN = 1024"
definition HYF_BRIDGE_MESSAGE_MAX_LEN :: usize where "HYF_BRIDGE_MESSAGE_MAX_LEN = 1536"

definition ROOM_ID_LEN :: usize where "ROOM_ID_LEN = 16"
definition MESSAGE_ID_LEN :: usize where "MESSAGE_ID_LEN = 32"
definition FIXED_PREFIX_LEN :: usize where "FIXED_PREFIX_LEN = 1 + ROOM_ID_LEN + MESSAGE_ID_LEN + 1 + 1 + 1"
definition FIXED_SUFFIX_LEN :: usize where "FIXED_SUFFIX_LEN = 8 + 1 + 2"
definition AUTHOR_KIND_HYF_NODE :: u8 where "AUTHOR_KIND_HYF_NODE = 0"
definition AUTHOR_KIND_FOREIGN :: u8 where "AUTHOR_KIND_FOREIGN = 1"
definition HYF_AUTHOR_NETWORK_TAG :: u8 where "HYF_AUTHOR_NETWORK_TAG = 0"

lemmas bridge_constants = HYF_BRIDGE_MESSAGE_VERSION_0_def HYF_BRIDGE_HYF_NODE_AUTHOR_ID_LEN_def
  HYF_BRIDGE_BITCHAT_AUTHOR_ID_LEN_def HYF_BRIDGE_LXMF_AUTHOR_ID_LEN_def HYF_BRIDGE_NOSTR_AUTHOR_ID_LEN_def
  HYF_BRIDGE_PAYLOAD_MAX_LEN_def HYF_BRIDGE_MESSAGE_MAX_LEN_def ROOM_ID_LEN_def MESSAGE_ID_LEN_def
  FIXED_PREFIX_LEN_def FIXED_SUFFIX_LEN_def AUTHOR_KIND_HYF_NODE_def AUTHOR_KIND_FOREIGN_def HYF_AUTHOR_NETWORK_TAG_def

datatype bridge_error =
    BrInvalidVersion u8
  | ZeroRoomId
  | ZeroMessageId
  | UnknownAuthorKind u8
  | UnexpectedHyfAuthorNetworkTag u8
  | InvalidForeignNetworkTag u8
  | UnsupportedAuthorNetwork foreign_network_kind
  | InvalidAuthorIdLen usize
  | UnknownPayloadKind u8
  | InvalidTextUtf8
  | BrPayloadTooLarge usize usize
  | BrMessageTooLarge usize usize
  | BrInputTooShort usize usize
  | BrTrailingBytes usize usize
  | BrOutputTooSmall usize usize
  | BrWrongPayloadKind payload_kind
  | EnvelopeMessageIdMismatch
  | EnvelopeRoomMismatch
  | BrHyfWire hyf_wire_error

datatype bridge_endpoint_kind = HyfNode | ForeignAuthor foreign_network_kind

record bridge_endpoint =
  be_kind :: bridge_endpoint_kind
  be_id :: "u8 list"

datatype bridge_payload_kind = TextUtf8 | OpaqueBytes

fun bridge_payload_wire_tag :: "bridge_payload_kind \<Rightarrow> u8" where
  "bridge_payload_wire_tag TextUtf8 = 1"
| "bridge_payload_wire_tag OpaqueBytes = 255"

record bridge_message =
  bm_version :: u8
  bm_room_id :: community_id
  bm_message_id :: message_id
  bm_author :: bridge_endpoint
  bm_created_at_ms :: timestamp_ms
  bm_payload_kind :: bridge_payload_kind
  bm_payload :: "u8 list"

datatype bridge_protocol = HyfProtocol | BitChatProtocol | LxmfProtocol | NostrProtocol

datatype bridge_verification_state = Unverified | TransportSigned | PolicyVerified

record bridge_ingress_meta =
  origin_protocol :: bridge_protocol
  verification_state :: bridge_verification_state

record bridge_message_key =
  bk_room_id :: community_id
  bk_message_id :: message_id

section \<open>Validation\<close>

fun expected_author_id_len :: "bridge_endpoint_kind \<Rightarrow> (usize, bridge_error) result" where
  "expected_author_id_len HyfNode = Ok HYF_BRIDGE_HYF_NODE_AUTHOR_ID_LEN"
| "expected_author_id_len (ForeignAuthor BitChat) = Ok HYF_BRIDGE_BITCHAT_AUTHOR_ID_LEN"
| "expected_author_id_len (ForeignAuthor Lxmf) = Ok HYF_BRIDGE_LXMF_AUTHOR_ID_LEN"
| "expected_author_id_len (ForeignAuthor Nostr) = Ok HYF_BRIDGE_NOSTR_AUTHOR_ID_LEN"
| "expected_author_id_len (ForeignAuthor network) = Err (UnsupportedAuthorNetwork network)"

definition validate_author_id_len :: "bridge_endpoint_kind \<Rightarrow> usize \<Rightarrow> (unit, bridge_error) result" where
  "validate_author_id_len kind len =
     rbind (expected_author_id_len kind) (\<lambda>expected. if len \<noteq> expected then Err (InvalidAuthorIdLen len) else Ok ())"

definition validate_bridge_payload :: "bridge_payload_kind \<Rightarrow> u8 list \<Rightarrow> (unit, bridge_error) result" where
  "validate_bridge_payload kind payload =
     (if kind = TextUtf8 \<and> \<not> utf8_valid payload then Err InvalidTextUtf8 else Ok ())"

definition validate_bridge_message_ref :: "bridge_message \<Rightarrow> (unit, bridge_error) result" where
  "validate_bridge_message_ref m =
     (if bm_version m \<noteq> HYF_BRIDGE_MESSAGE_VERSION_0 then Err (BrInvalidVersion (bm_version m))
      else if community_id_bytes (bm_room_id m) = replicate ROOM_ID_LEN 0 then Err ZeroRoomId
      else if message_id_bytes (bm_message_id m) = replicate MESSAGE_ID_LEN 0 then Err ZeroMessageId
      else rbind (validate_author_id_len (be_kind (bm_author m)) (length (be_id (bm_author m)))) (\<lambda>_.
        if HYF_BRIDGE_PAYLOAD_MAX_LEN < length (bm_payload m)
        then Err (BrPayloadTooLarge (length (bm_payload m)) HYF_BRIDGE_PAYLOAD_MAX_LEN)
        else validate_bridge_payload (bm_payload_kind m) (bm_payload m)))"

section \<open>Encoding\<close>

definition bridge_message_encoded_len :: "bridge_message \<Rightarrow> (usize, bridge_error) result" where
  "bridge_message_encoded_len m =
     rbind (validate_bridge_message_ref m) (\<lambda>_.
       ok_or (BrMessageTooLarge (length (bm_payload m)) HYF_BRIDGE_MESSAGE_MAX_LEN)
         (case Option.bind (checked_add FIXED_PREFIX_LEN (length (be_id (bm_author m)))) (\<lambda>len.
               Option.bind (checked_add len FIXED_SUFFIX_LEN) (\<lambda>len.
                 checked_add len (length (bm_payload m)))) of
            Some len \<Rightarrow> if len \<le> HYF_BRIDGE_MESSAGE_MAX_LEN then Some len else None
          | None \<Rightarrow> None))"

definition write_author_kind :: "bridge_endpoint_kind \<Rightarrow> (write_cursor, unit, bridge_error) stm" where
  "write_author_kind kind =
     (case kind of
        HyfNode \<Rightarrow> sbind (write_u8 AUTHOR_KIND_HYF_NODE) (\<lambda>_. write_u8 HYF_AUTHOR_NETWORK_TAG)
      | ForeignAuthor network \<Rightarrow>
          sbind (write_u8 AUTHOR_KIND_FOREIGN) (\<lambda>_. write_u8 (network_wire_tag network)))"

definition write_bridge_message :: "bridge_message \<Rightarrow> (write_cursor, unit, bridge_error) stm" where
  "write_bridge_message m =
     sbind (write_u8 (bm_version m)) (\<lambda>_.
     sbind (write_array (community_id_bytes (bm_room_id m))) (\<lambda>_.
     sbind (write_array (message_id_bytes (bm_message_id m))) (\<lambda>_.
     sbind (write_author_kind (be_kind (bm_author m))) (\<lambda>_.
     sbind (write_u8 (word_of_nat (length (be_id (bm_author m))))) (\<lambda>_.
     sbind (write_array (be_id (bm_author m))) (\<lambda>_.
     sbind (write_u64 (ms (bm_created_at_ms m))) (\<lambda>_.
     sbind (write_u8 (bridge_payload_wire_tag (bm_payload_kind m))) (\<lambda>_.
     sbind (write_u16 (word_of_nat (length (bm_payload m)))) (\<lambda>_.
       write_array (bm_payload m))))))))))"

definition encode_bridge_message :: "bridge_message \<Rightarrow> (u8 list, usize, bridge_error) stm" where
  "encode_bridge_message m output =
     (case bridge_message_encoded_len m of
        Err err \<Rightarrow> (Err err, output)
      | Panic \<Rightarrow> (Panic, output)
      | Ok required \<Rightarrow>
          if length output < required then (Err (BrOutputTooSmall (length output) required), output)
          else (case write_bridge_message m (write_new output) of
                  (Ok _, c) \<Rightarrow> (Ok required, wc_output c)
                | (Err err, c) \<Rightarrow> (Err err, wc_output c)
                | (Panic, c) \<Rightarrow> (Panic, wc_output c)))"

section \<open>Decoding\<close>

definition br_read_slice :: "bridge_error slice_read" where
  "br_read_slice len c =
     (case checked_add (rc_index c) len of
        None \<Rightarrow> (Err (BrInputTooShort (length (rc_input c)) (rc_index c)), c)
      | Some end_ix \<Rightarrow>
          if length (rc_input c) < end_ix
          then (Err (BrInputTooShort (length (rc_input c)) end_ix), c)
          else (case slice (rc_input c) (rc_index c) end_ix of
                  Ok bs \<Rightarrow> (Ok bs, c\<lparr>rc_index := end_ix\<rparr>)
                | Err err \<Rightarrow> (Err err, c)
                | Panic \<Rightarrow> (Panic, c)))"

definition br_read_u8 :: "(read_cursor, u8, bridge_error) stm" where
  "br_read_u8 = cursor_u8 br_read_slice"

definition br_read_u16 :: "(read_cursor, u16, bridge_error) stm" where
  "br_read_u16 = cursor_u16 br_read_slice"

definition br_read_u64 :: "(read_cursor, u64, bridge_error) stm" where
  "br_read_u64 = cursor_u64 br_read_slice"

definition br_read_array :: "usize \<Rightarrow> (read_cursor, u8 list, bridge_error) stm" where
  "br_read_array n = cursor_array br_read_slice n"

definition br_finish :: "(read_cursor, unit, bridge_error) stm" where
  "br_finish c =
     (if rc_index c \<noteq> length (rc_input c)
      then (Err (BrTrailingBytes (length (rc_input c)) (rc_index c)), c) else (Ok (), c))"

definition decode_author_kind :: "u8 \<Rightarrow> u8 \<Rightarrow> (bridge_endpoint_kind, bridge_error) result" where
  "decode_author_kind author_kind_tag author_network_tag =
     (if author_kind_tag = AUTHOR_KIND_HYF_NODE then
        (if author_network_tag \<noteq> HYF_AUTHOR_NETWORK_TAG
         then Err (UnexpectedHyfAuthorNetworkTag author_network_tag) else Ok HyfNode)
      else if author_kind_tag = AUTHOR_KIND_FOREIGN then
        rbind (map_err (\<lambda>_. InvalidForeignNetworkTag author_network_tag) (network_from_wire_tag author_network_tag))
          (\<lambda>network. if network = Fips \<or> network = Rns then Err (UnsupportedAuthorNetwork network)
             else Ok (ForeignAuthor network))
      else Err (UnknownAuthorKind author_kind_tag))"

definition decode_bridge_payload_kind :: "u8 \<Rightarrow> (bridge_payload_kind, bridge_error) result" where
  "decode_bridge_payload_kind tag =
     (if tag = 1 then Ok TextUtf8 else if tag = 255 then Ok OpaqueBytes else Err (UnknownPayloadKind tag))"

text \<open>The body of \<open>decode_bridge_message\<close> up to the check for trailing bytes.\<close>

definition read_bridge_message :: "(read_cursor, bridge_message, bridge_error) stm" where
  "read_bridge_message =
     sbind br_read_u8 (\<lambda>version.
       if version \<noteq> HYF_BRIDGE_MESSAGE_VERSION_0 then sthrow (BrInvalidVersion version) else
     sbind (br_read_array ROOM_ID_LEN) (\<lambda>room_id.
       if room_id = replicate ROOM_ID_LEN 0 then sthrow ZeroRoomId else
     sbind (br_read_array MESSAGE_ID_LEN) (\<lambda>message_id.
       if message_id = replicate MESSAGE_ID_LEN 0 then sthrow ZeroMessageId else
     sbind br_read_u8 (\<lambda>author_kind_tag.
     sbind br_read_u8 (\<lambda>author_network_tag.
     sbind br_read_u8 (\<lambda>author_id_len.
     sbind (slift (decode_author_kind author_kind_tag author_network_tag)) (\<lambda>author_kind.
     sbind (slift (validate_author_id_len author_kind (unat author_id_len))) (\<lambda>_.
     sbind (br_read_slice (unat author_id_len)) (\<lambda>author_id.
     sbind br_read_u64 (\<lambda>created_at_ms.
     sbind br_read_u8 (\<lambda>kind_tag.
     sbind (slift (decode_bridge_payload_kind kind_tag)) (\<lambda>payload_kind.
     sbind br_read_u16 (\<lambda>payload_len.
       if HYF_BRIDGE_PAYLOAD_MAX_LEN < unat payload_len
       then sthrow (BrPayloadTooLarge (unat payload_len) HYF_BRIDGE_PAYLOAD_MAX_LEN) else
     sbind (br_read_slice (unat payload_len)) (\<lambda>payload.
     sbind (slift (validate_bridge_payload payload_kind payload)) (\<lambda>_.
       sret \<lparr>bm_version = version, bm_room_id = CommunityId room_id, bm_message_id = MessageId message_id,
             bm_author = \<lparr>be_kind = author_kind, be_id = author_id\<rparr>,
             bm_created_at_ms = TimestampMs created_at_ms, bm_payload_kind = payload_kind,
             bm_payload = payload\<rparr>)))))))))))))))"

definition decode_bridge_message :: "u8 list \<Rightarrow> (bridge_message, bridge_error) result" where
  "decode_bridge_message input =
     (if HYF_BRIDGE_MESSAGE_MAX_LEN < length input
      then Err (BrMessageTooLarge (length input) HYF_BRIDGE_MESSAGE_MAX_LEN)
      else fst (sbind read_bridge_message (\<lambda>m. sbind br_finish (\<lambda>_. sret m)) (read_new input)))"

section \<open>Carriage in envelopes\<close>

record bridge_wrap_params =
  bw_source_node :: node_id
  bw_created_at_ms :: timestamp_ms
  bw_expires_at_ms :: timestamp_ms
  bw_hop_limit :: u8

definition validate_bridge_message :: "u8 list \<Rightarrow> (bridge_message, bridge_error) result" where
  "validate_bridge_message raw = decode_bridge_message raw"

definition wrap_bridge_message :: "u8 list \<Rightarrow> bridge_wrap_params \<Rightarrow> (hyf_envelope, bridge_error) result" where
  "wrap_bridge_message raw params =
     rbind (validate_bridge_message raw) (\<lambda>message.
       let envelope = \<lparr>env_version = HYF_WIRE_VERSION_0, env_message_id = bm_message_id message,
             env_source = bw_source_node params, env_destination = Community (bm_room_id message),
             env_created_at_ms = bw_created_at_ms params, env_expires_at_ms = bw_expires_at_ms params,
             env_hop_limit = bw_hop_limit params, env_payload_kind = HyfBridgeMessageV0, env_payload = raw\<rparr>
       in rbind (map_err BrHyfWire (validate_envelope envelope)) (\<lambda>_. Ok envelope))"

definition unwrap_bridge_message :: "hyf_envelope \<Rightarrow> (u8 list, bridge_error) result" where
  "unwrap_bridge_message envelope =
     rbind (map_err BrHyfWire (validate_envelope envelope)) (\<lambda>_.
       if env_payload_kind envelope \<noteq> HyfBridgeMessageV0
       then Err (BrWrongPayloadKind (env_payload_kind envelope))
       else rbind (validate_bridge_message (env_payload envelope)) (\<lambda>message.
         if env_message_id envelope \<noteq> bm_message_id message then Err EnvelopeMessageIdMismatch
         else if env_destination envelope \<noteq> Community (bm_room_id message) then Err EnvelopeRoomMismatch
         else Ok (env_payload envelope)))"

section \<open>The byte format\<close>

definition wf_bridge_message :: "bridge_message \<Rightarrow> bool" where
  "wf_bridge_message m \<longleftrightarrow> wf_community_id (bm_room_id m) \<and> wf_message_id (bm_message_id m)"

fun author_kind_bytes :: "bridge_endpoint_kind \<Rightarrow> u8 list" where
  "author_kind_bytes HyfNode = [0, 0]"
| "author_kind_bytes (ForeignAuthor network) = [1, network_wire_tag network]"

definition bridge_bytes :: "bridge_message \<Rightarrow> u8 list" where
  "bridge_bytes m =
     bm_version m # community_id_bytes (bm_room_id m) @ message_id_bytes (bm_message_id m) @
     author_kind_bytes (be_kind (bm_author m)) @ [word_of_nat (length (be_id (bm_author m)))] @ be_id (bm_author m) @
     u64_to_be_bytes (ms (bm_created_at_ms m)) @ [bridge_payload_wire_tag (bm_payload_kind m)] @
     u16_to_be_bytes (word_of_nat (length (bm_payload m))) @ bm_payload m"

abbreviation bridge_ok :: "bridge_message \<Rightarrow> bool" where
  "bridge_ok m \<equiv> wf_bridge_message m \<and> validate_bridge_message_ref m = Ok ()"

lemma expected_author_id_len_le: "expected_author_id_len kind = Ok n \<Longrightarrow> n \<le> 32"
  by (cases kind rule: expected_author_id_len.cases) (auto simp: bridge_constants)

lemma validate_author_id_len_Ok:
  "validate_author_id_len kind n = Ok () \<longleftrightarrow> expected_author_id_len kind = Ok n"
  by (auto simp: validate_author_id_len_def split: if_splits)

lemma validate_bridge_message_Ok:
  "validate_bridge_message_ref m = Ok () \<longleftrightarrow>
     bm_version m = 0 \<and> community_id_bytes (bm_room_id m) \<noteq> replicate 16 0 \<and>
     message_id_bytes (bm_message_id m) \<noteq> replicate 32 0 \<and>
     expected_author_id_len (be_kind (bm_author m)) = Ok (length (be_id (bm_author m))) \<and>
     length (bm_payload m) \<le> 1024 \<and> (bm_payload_kind m = TextUtf8 \<longrightarrow> utf8_valid (bm_payload m))"
  by (auto simp: validate_bridge_message_ref_def validate_bridge_payload_def validate_author_id_len_Ok bridge_constants
      split: if_splits)

lemma expected_author_id_len_no_panic [simp]: "expected_author_id_len kind \<noteq> Panic"
  by (cases kind rule: expected_author_id_len.cases) auto

lemma bridge_validators_no_panic [simp]:
  "validate_author_id_len kind n \<noteq> Panic" "validate_bridge_payload pk payload \<noteq> Panic"
  "decode_author_kind a b \<noteq> Panic" "decode_bridge_payload_kind t \<noteq> Panic" "validate_bridge_message_ref m \<noteq> Panic"
  by (auto simp: validate_author_id_len_def validate_bridge_payload_def decode_author_kind_def
      decode_bridge_payload_kind_def validate_bridge_message_ref_def rbind_eq_Panic)

lemma length_author_kind_bytes [simp]: "length (author_kind_bytes kind) = 2"
  by (cases kind) auto

lemma length_bridge_bytes:
  "wf_bridge_message m \<Longrightarrow> length (bridge_bytes m) = 63 + length (be_id (bm_author m)) + length (bm_payload m)"
  by (simp add: bridge_bytes_def wf_bridge_message_def wf_defs)

lemma bridge_bytes_le: "bridge_ok m \<Longrightarrow> length (bridge_bytes m) \<le> 1119"
  using expected_author_id_len_le [of "be_kind (bm_author m)" "length (be_id (bm_author m))"]
  by (simp add: length_bridge_bytes validate_bridge_message_Ok)

lemma bridge_message_encoded_len_Ok:
  assumes "bridge_ok m"
  shows "bridge_message_encoded_len m = Ok (length (bridge_bytes m))"
  using assms bridge_bytes_le [OF assms]
  by (simp add: bridge_message_encoded_len_def length_bridge_bytes checked_add_def usize_max_def bridge_constants)

section \<open>The codec\<close>

interpretation bridge: slice_reader br_read_slice
  by unfold_locales (auto simp: br_read_slice_def slice_def checked_add_def add.commute)

lemmas br_reads = bridge.slice_reads bridge.array_reads [folded br_read_array_def] bridge.u8_reads [folded br_read_u8_def]
  bridge.u16_reads [folded br_read_u16_def] bridge.u64_reads [folded br_read_u64_def]
lemmas br_accepts = bridge.slice_accepts bridge.array_accepts [folded br_read_array_def] bridge.u8_accepts [folded br_read_u8_def]
  bridge.u16_accepts [folded br_read_u16_def] bridge.u64_accepts [folded br_read_u64_def]
lemmas br_safe = bridge.slice_safe bridge.array_safe [folded br_read_array_def] bridge.u8_safe [folded br_read_u8_def]
  bridge.u16_safe [folded br_read_u16_def] bridge.u64_safe [folded br_read_u64_def]

lemma decode_author_kind_bytes:
  "expected_author_id_len kind = Ok n \<Longrightarrow> \<exists>a b. author_kind_bytes kind = [a, b] \<and> decode_author_kind a b = Ok kind"
  by (cases kind rule: expected_author_id_len.cases) (auto simp: decode_author_kind_def bridge_constants network_from_wire_tag_def)

lemma decode_author_kind_Ok: "decode_author_kind a b = Ok kind \<Longrightarrow> author_kind_bytes kind = [a, b]"
  by (auto simp: decode_author_kind_def bridge_constants network_from_wire_tag_Ok split: if_splits)

lemma decode_bridge_payload_kind_iff: "decode_bridge_payload_kind t = Ok k \<longleftrightarrow> t = bridge_payload_wire_tag k"
  by (cases k) (auto simp: decode_bridge_payload_kind_def)

lemma writes_bridge_message: "writes (write_bridge_message m) (bridge_bytes m)"
proof -
  have "writes (write_author_kind kind) (author_kind_bytes kind)" for kind
    by (cases kind) (auto simp: write_author_kind_def bridge_constants intro!: writes_bind_Cons writes_u8)
  then show ?thesis
    unfolding write_bridge_message_def bridge_bytes_def append_Cons append_Nil
    by (intro writes_bind writes_bind_Cons writes_u8 writes_u16 writes_u64 writes_array)
qed

lemma bridge_with_payload:
  "\<lparr>bm_version = bm_version m, bm_room_id = CommunityId (community_id_bytes (bm_room_id m)),
    bm_message_id = MessageId (message_id_bytes (bm_message_id m)),
    bm_author = \<lparr>be_kind = be_kind (bm_author m), be_id = be_id (bm_author m)\<rparr>,
    bm_created_at_ms = TimestampMs (ms (bm_created_at_ms m)), bm_payload_kind = bm_payload_kind m,
    bm_payload = p\<rparr> = m\<lparr>bm_payload := p\<rparr>"
  by (cases m; cases "bm_author m") simp

lemma reads_bridge_message:
  assumes "bridge_ok m"
  shows "reads read_bridge_message (bridge_bytes m) m"
proof -
  have wf: "length (community_id_bytes (bm_room_id m)) = ROOM_ID_LEN" "length (message_id_bytes (bm_message_id m)) = MESSAGE_ID_LEN"
    and v: "bm_version m = 0" "community_id_bytes (bm_room_id m) \<noteq> replicate ROOM_ID_LEN 0"
      "message_id_bytes (bm_message_id m) \<noteq> replicate MESSAGE_ID_LEN 0"
      "expected_author_id_len (be_kind (bm_author m)) = Ok (length (be_id (bm_author m)))"
      "length (bm_payload m) \<le> 1024" "bm_payload_kind m = TextUtf8 \<longrightarrow> utf8_valid (bm_payload m)"
    using assms by (auto simp: wf_bridge_message_def wf_defs bridge_constants validate_bridge_message_Ok)
  obtain a b where tags: "author_kind_bytes (be_kind (bm_author m)) = [a, b]" "decode_author_kind a b = Ok (be_kind (bm_author m))"
    using decode_author_kind_bytes [OF v(4)] by blast
  have n: "unat (word_of_nat (length (be_id (bm_author m))) :: u8) = length (be_id (bm_author m))"
    "unat (word_of_nat (length (bm_payload m)) :: u16) = length (bm_payload m)"
    using expected_author_id_len_le [OF v(4)] v(5) by (simp_all add: unat_of_nat)
  have "validate_bridge_payload (bm_payload_kind m) (bm_payload m) = Ok ()"
    using v(6) by (simp add: validate_bridge_payload_def)
  then have payload: "reads (sbind (br_read_slice (length (bm_payload m))) (\<lambda>payload.
      sbind (slift (validate_bridge_payload (bm_payload_kind m) payload)) (\<lambda>_. sret (m\<lparr>bm_payload := payload\<rparr>))))
      (bm_payload m @ []) m"
    by (intro reads_bind [OF br_reads(1) [OF refl]]) (simp add: reads_lift reads_ret)
  show ?thesis
    unfolding read_bridge_message_def bridge_bytes_def append_Cons append_Nil tags(1)
    apply (rule reads_bind_Cons [OF br_reads(3)], subst if_not_P, simp add: v bridge_constants)
    apply (rule reads_bind [OF br_reads(2) [OF wf(1)]], subst if_not_P, rule v)
    apply (rule reads_bind [OF br_reads(2) [OF wf(2)]], subst if_not_P, rule v)
    apply (rule reads_bind_Cons [OF br_reads(3)], rule reads_bind_Cons [OF br_reads(3)], rule reads_bind_Cons [OF br_reads(3)])
    apply (simp add: tags(2), rule reads_lift, simp add: validate_author_id_len_def v(4) n, rule reads_lift)
    apply (rule reads_bind [OF br_reads(1) [OF refl]], rule reads_bind [OF br_reads(5)], rule reads_bind_Cons [OF br_reads(3)])
    apply (simp add: decode_bridge_payload_kind_iff [THEN iffD2], rule reads_lift)
    apply (rule reads_bind [OF br_reads(4)], subst if_not_P, simp add: n v(5) bridge_constants not_less)
    using payload by (simp only: n append_Nil2 bridge_with_payload)
qed

lemma accepts_bridge_message: "accepts read_bridge_message (\<lambda>m bs. bridge_ok m \<and> bs = bridge_bytes m)"
proof -
  have len8: "length xs \<le> 255 \<and> word_of_nat (length xs) = n" if "length xs = unat n" for xs :: "u8 list" and n :: u8
    using that unsigned_less [where ?'a = nat, of n] by simp
  have len16: "length xs \<le> 65535 \<and> word_of_nat (length xs) = n" if "length xs = unat n" for xs :: "u8 list" and n :: u16
    using that unsigned_less [where ?'a = nat, of n] by simp
  show ?thesis
    unfolding read_bridge_message_def
    apply (rule accepts_mono)
     apply (rule accepts_bind accepts_guard br_accepts accepts_lift accepts_ret)+
    apply (clarsimp simp: decode_bridge_payload_kind_iff validate_author_id_len_Ok)
    apply (drule decode_author_kind_Ok, drule len8, drule len16)
    by (auto simp: bridge_bytes_def wf_bridge_message_def wf_defs validate_bridge_message_Ok validate_bridge_payload_def
        bridge_constants unat_of_nat not_less split: if_splits)
qed

lemma safe_bridge_message: "safe read_bridge_message"
  unfolding read_bridge_message_def by (intro safe_bind safe_if safe_throw safe_ret safe_lift br_safe) auto

interpretation bridge_codec: wire_codec write_bridge_message read_bridge_message bridge_bytes "\<lambda>m. bridge_ok m"
  by unfold_locales (rule writes_bridge_message accepts_bridge_message safe_bridge_message | erule reads_bridge_message)+

lemma decode_bridge_message_iff: "decode_bridge_message input = Ok m \<longleftrightarrow> bridge_ok m \<and> input = bridge_bytes m"
proof (cases "length input \<le> 1536")
  case True
  then have len: "length input \<le> usize_max" by (simp add: usize_max_def)
  have "decode_bridge_message input = Ok m \<longleftrightarrow>
      (\<exists>c. read_bridge_message (read_new input) = (Ok m, c) \<and> rc_index c = length (rc_input c))"
    using True
    by (auto simp: decode_bridge_message_def bridge_constants fst_eq_ex sbind_eq_Ok br_finish_def split: if_splits)
  also have "\<dots> \<longleftrightarrow> bridge_ok m \<and> input = bridge_bytes m"
    using bridge_codec.get_Ok_iff [OF len, of m] by (auto simp: rcur_def)
  finally show ?thesis .
next
  case False
  then show ?thesis using bridge_bytes_le [of m] by (auto simp: decode_bridge_message_def bridge_constants)
qed

lemma decode_bridge_message_no_panic: "decode_bridge_message input \<noteq> Panic"
proof -
  have "safe (sbind br_finish (\<lambda>_. sret m))" for m :: bridge_message
    by (auto simp: safe_def br_finish_def sbind_def sret_def)
  from safe_bind [OF safe_bridge_message this] show ?thesis
    by (auto simp: decode_bridge_message_def safe_def in_range_def read_new_def)
qed

lemma encode_bridge_message_cases:
  assumes "wf_bridge_message m"
  shows "encode_bridge_message m out =
    (case validate_bridge_message_ref m of
       Err err \<Rightarrow> (Err err, out)
     | Panic \<Rightarrow> (Panic, out)
     | Ok _ \<Rightarrow>
         if length out < length (bridge_bytes m)
         then (Err (BrOutputTooSmall (length out) (length (bridge_bytes m))), out)
         else (Ok (length (bridge_bytes m)), bridge_bytes m @ drop (length (bridge_bytes m)) out))"
proof (cases "validate_bridge_message_ref m")
  case (Ok u)
  then have ok: "bridge_ok m" using assms by simp
  have "write_bridge_message m (wcur [] out) = (Ok (), wcur (bridge_bytes m) (drop (length (bridge_bytes m)) out))"
    if "length (bridge_bytes m) \<le> length out"
    using writes_bridge_message [of m] that by (auto simp: writes_def)
  then show ?thesis
    using Ok by (auto simp: encode_bridge_message_def bridge_message_encoded_len_Ok [OF ok] write_new_def wcur_def not_less)
qed (simp_all add: encode_bridge_message_def bridge_message_encoded_len_def)

section \<open>Properties\<close>

text \<open>
  C30. The bridge message codec is exact. Encoding a message whose fields have the lengths of their
  types either fails as validation says, or fails for lack of room, and in both cases leaves the
  buffer alone, or writes the message's bytes and nothing else; decoding accepts a byte string
  exactly when it is the encoding of a valid message and returns that message; neither panics, and
  a valid message is at most 1119 bytes long, below the maximum the code checks for.\<close>

theorem bridge_message_codec:
  "(wf_bridge_message m \<longrightarrow>
     (case encode_bridge_message m out of
        (Ok n, out') \<Rightarrow> validate_bridge_message_ref m = Ok () \<and> n \<le> 1119 \<and> take n out' = bridge_bytes m \<and>
          length out' = length out \<and> drop n out' = drop n out \<and> decode_bridge_message (take n out') = Ok m
      | (Err e, out') \<Rightarrow> out' = out \<and> (validate_bridge_message_ref m = Err e \<or>
          validate_bridge_message_ref m = Ok () \<and> e = BrOutputTooSmall (length out) (length (bridge_bytes m)) \<and>
          length out < length (bridge_bytes m))
      | (Panic, out') \<Rightarrow> False)) \<and>
   (decode_bridge_message input = Ok m \<longleftrightarrow>
      wf_bridge_message m \<and> validate_bridge_message_ref m = Ok () \<and> input = bridge_bytes m) \<and>
   decode_bridge_message input \<noteq> Panic"
  using decode_bridge_message_iff [of "bridge_bytes m" m] decode_bridge_message_iff [of input m]
    decode_bridge_message_no_panic [of input] bridge_bytes_le [of m]
  by (auto simp: encode_bridge_message_cases not_less split: result.splits)

definition sample_bridge_message :: bridge_message where
  "sample_bridge_message =
     \<lparr>bm_version = 0, bm_room_id = CommunityId (replicate 16 1), bm_message_id = MessageId (replicate 32 2),
      bm_author = \<lparr>be_kind = ForeignAuthor BitChat, be_id = replicate 8 3\<rparr>, bm_created_at_ms = TimestampMs 5000,
      bm_payload_kind = TextUtf8, bm_payload = [104, 105]\<rparr>"

lemma sample_bridge_ok: "bridge_ok sample_bridge_message"
  by (simp add: sample_bridge_message_def wf_bridge_message_def wf_defs validate_bridge_message_Ok bridge_constants
      replicate_eq_replicate)

theorem bridge_message_codec_witness:
  "\<exists>out'. encode_bridge_message sample_bridge_message (replicate 100 0) = (Ok 73, out') \<and>
     decode_bridge_message (take 73 out') = Ok sample_bridge_message \<and> drop 73 out' = replicate 27 0"
proof -
  have len: "length (bridge_bytes sample_bridge_message) = 73"
    using sample_bridge_ok by (simp add: length_bridge_bytes) (simp add: sample_bridge_message_def)
  then have "encode_bridge_message sample_bridge_message (replicate 100 0) =
      (Ok 73, bridge_bytes sample_bridge_message @ replicate 27 0)"
    using sample_bridge_ok by (simp add: encode_bridge_message_cases)
  with bridge_message_codec [of sample_bridge_message "replicate 100 0" "[]"] sample_bridge_ok show ?thesis
    by (simp add: len)
qed

text \<open>
  Carriage binds the message. Wrapping raw bytes succeeds exactly for a valid bridge message and
  a valid envelope, and the envelope carries the bytes under the message's own id, addressed to the
  message's room; unwrapping it gives the bytes back. Unwrapping accepts only envelopes of that
  shape: whoever forwards a bridge message cannot change its id or its room, so the router's
  duplicate suppression and community delivery act on the identity inside the message.\<close>

theorem bridge_carriage:
  "(wrap_bridge_message raw params = Ok e \<longrightarrow> unwrap_bridge_message e = Ok raw) \<and>
   (unwrap_bridge_message e = Ok raw \<longleftrightarrow>
      (\<exists>m. decode_bridge_message raw = Ok m \<and> validate_envelope e = Ok () \<and> env_payload_kind e = HyfBridgeMessageV0 \<and>
         env_payload e = raw \<and> env_message_id e = bm_message_id m \<and> env_destination e = Community (bm_room_id m))) \<and>
   ((\<exists>e. wrap_bridge_message raw params = Ok e) \<longleftrightarrow>
      (\<exists>m. decode_bridge_message raw = Ok m) \<and> ms (bw_created_at_ms params) < ms (bw_expires_at_ms params))"
proof -
  have len: "length raw \<le> 65535" if "decode_bridge_message raw = Ok m" for m
    using that bridge_bytes_le [of m] by (auto simp: decode_bridge_message_iff)
  show ?thesis
    by (auto simp: wrap_bridge_message_def unwrap_bridge_message_def validate_bridge_message_def Let_def
        validate_envelope_Ok HYF_WIRE_VERSION_0_def dest: len split: if_splits)
qed

theorem bridge_carriage_witness:
  "\<exists>e. wrap_bridge_message (bridge_bytes sample_bridge_message)
        \<lparr>bw_source_node = NodeId (replicate 32 9), bw_created_at_ms = TimestampMs 10, bw_expires_at_ms = TimestampMs 20, bw_hop_limit = 4\<rparr> = Ok e \<and>
     env_destination e = Community (CommunityId (replicate 16 1)) \<and>
     unwrap_bridge_message e = Ok (bridge_bytes sample_bridge_message)"
proof -
  let ?raw = "bridge_bytes sample_bridge_message"
  let ?params = "\<lparr>bw_source_node = NodeId (replicate 32 9), bw_created_at_ms = TimestampMs 10, bw_expires_at_ms = TimestampMs 20, bw_hop_limit = 4\<rparr>"
  have dec: "decode_bridge_message ?raw = Ok sample_bridge_message" using sample_bridge_ok decode_bridge_message_iff by blast
  then obtain e where e: "wrap_bridge_message ?raw ?params = Ok e"
    using bridge_carriage [of ?raw ?params] by auto
  with bridge_carriage [of ?raw ?params e] have "unwrap_bridge_message e = Ok ?raw" by blast
  moreover from this bridge_carriage [of ?raw ?params e] dec have "env_destination e = Community (bm_room_id sample_bridge_message)" by auto
  ultimately show ?thesis using e by (auto simp: sample_bridge_message_def)
qed

end
