(* ===== verification/Hyf_BitChat.thy ===== *)
theory Hyf_BitChat
  imports Hyf_Bridge
begin

text \<open>
  The crates \<open>hyf_bitchat_core\<close> and \<open>hyf_link_bitchat\<close>: the BitChat packet codec (versions 1
  and 2, with recipient, route, compressed payload and signature) and the carriage of BitChat
  packets in HYF envelopes (\<open>src/crates/hyf_bitchat_core/src/{constants,types,flags,packet,error,codec}.rs\<close>,
  \<open>src/crates/hyf_link_bitchat/src/{error,params,wrap}.rs\<close>). The lemmas show that decoding is a
  bijection between consistent packets and the byte strings it accepts, and that what the encoder
  writes decodes to the packet with its flags made consistent.
\<close>

unbundle bit_operations_syntax

section \<open>Constants, errors and types\<close>

definition BITCHAT_V1_HEADER_LEN :: usize where "BITCHAT_V1_HEADER_LEN = 14"
definition BITCHAT_V2_HEADER_LEN :: usize where "BITCHAT_V2_HEADER_LEN = 16"
definition BITCHAT_PEER_ID_LEN :: usize where "BITCHAT_PEER_ID_LEN = 8"
definition BITCHAT_SIGNATURE_LEN :: usize where "BITCHAT_SIGNATURE_LEN = 64"
definition BITCHAT_ROUTE_MAX_HOPS :: usize where "BITCHAT_ROUTE_MAX_HOPS = 16"
definition BITCHAT_CORE_PACKET_MAX_LEN :: usize where "BITCHAT_CORE_PACKET_MAX_LEN = 2048"
definition BITCHAT_CARRIER_PACKET_MAX_LEN :: usize where "BITCHAT_CARRIER_PACKET_MAX_LEN = 1536"
definition BITCHAT_PAYLOAD_MAX_LEN :: usize where "BITCHAT_PAYLOAD_MAX_LEN = 1536"

lemmas bitchat_constants = BITCHAT_V1_HEADER_LEN_def BITCHAT_V2_HEADER_LEN_def BITCHAT_PEER_ID_LEN_def
  BITCHAT_SIGNATURE_LEN_def BITCHAT_ROUTE_MAX_HOPS_def BITCHAT_CORE_PACKET_MAX_LEN_def
  BITCHAT_CARRIER_PACKET_MAX_LEN_def BITCHAT_PAYLOAD_MAX_LEN_def

datatype bitchat_error =
    BcPacketTooShort usize usize
  | BcPacketTooLarge usize usize
  | UnknownVersion u8
  | ReservedFlags u8
  | V1RouteFlag
  | BcPayloadTooLarge usize usize
  | RouteTooManyHops usize usize
  | MissingField string usize usize
  | BcTrailingBytes usize
  | CompressedOriginalLenMissing usize usize
  | CompressedOriginalLenZero
  | CompressedOriginalLenTooLarge usize usize
  | CompressedBodyEmpty
  | UnsupportedEncodeVersion u8
  | UnsupportedCompressedEncode
  | InvalidRouteByteLength u8 usize usize
  | LengthOverflow
  | BcOutputTooSmall usize usize

datatype bitchat_version = V1 | V2

definition version_from_wire_value :: "u8 \<Rightarrow> (bitchat_version, bitchat_error) result" where
  "version_from_wire_value version =
     (if version = 1 then Ok V1 else if version = 2 then Ok V2 else Err (UnknownVersion version))"

fun version_wire_value :: "bitchat_version \<Rightarrow> u8" where
  "version_wire_value V1 = 1"
| "version_wire_value V2 = 2"

definition FLAG_HAS_RECIPIENT :: u8 where "FLAG_HAS_RECIPIENT = 0x01"
definition FLAG_HAS_SIGNATURE :: u8 where "FLAG_HAS_SIGNATURE = 0x02"
definition FLAG_IS_COMPRESSED :: u8 where "FLAG_IS_COMPRESSED = 0x04"
definition FLAG_HAS_ROUTE :: u8 where "FLAG_HAS_ROUTE = 0x08"
definition FLAG_IS_RSR :: u8 where "FLAG_IS_RSR = 0x10"
definition FLAG_RESERVED_MASK :: u8 where "FLAG_RESERVED_MASK = 0xE0"

lemmas bitchat_flags = FLAG_HAS_RECIPIENT_def FLAG_HAS_SIGNATURE_def FLAG_IS_COMPRESSED_def FLAG_HAS_ROUTE_def
  FLAG_IS_RSR_def FLAG_RESERVED_MASK_def

record bitchat_flags =
  has_recipient :: bool
  has_signature :: bool
  is_compressed :: bool
  has_route :: bool
  is_rsr :: bool

definition bitchat_flags_empty :: bitchat_flags where
  "bitchat_flags_empty = \<lparr>has_recipient = False, has_signature = False, is_compressed = False, has_route = False, is_rsr = False\<rparr>"

definition flags_from_wire_byte :: "u8 \<Rightarrow> (bitchat_flags, bitchat_error) result" where
  "flags_from_wire_byte flags =
     (if flags AND FLAG_RESERVED_MASK \<noteq> 0 then Err (ReservedFlags flags)
      else Ok \<lparr>has_recipient = (flags AND FLAG_HAS_RECIPIENT \<noteq> 0), has_signature = (flags AND FLAG_HAS_SIGNATURE \<noteq> 0),
              is_compressed = (flags AND FLAG_IS_COMPRESSED \<noteq> 0), has_route = (flags AND FLAG_HAS_ROUTE \<noteq> 0),
              is_rsr = (flags AND FLAG_IS_RSR \<noteq> 0)\<rparr>)"

definition bool_flag :: "bool \<Rightarrow> u8 \<Rightarrow> u8" where
  "bool_flag b flag = (if b then flag else 0)"

definition flags_to_wire_byte :: "bitchat_flags \<Rightarrow> u8" where
  "flags_to_wire_byte f =
     bool_flag (has_recipient f) FLAG_HAS_RECIPIENT OR bool_flag (has_signature f) FLAG_HAS_SIGNATURE OR
     bool_flag (is_compressed f) FLAG_IS_COMPRESSED OR bool_flag (has_route f) FLAG_HAS_ROUTE OR
     bool_flag (is_rsr f) FLAG_IS_RSR"

text \<open>The fixed types \<open>BitchatPeerId\<close> and \<open>BitchatSignature\<close> are their byte arrays.\<close>

type_synonym bitchat_peer_id = "u8 list"
type_synonym bitchat_signature = "u8 list"

record bitchat_route =
  hop_count :: u8
  raw_hops :: "u8 list"

datatype bitchat_payload = Plain "u8 list" | Compressed usize "u8 list"

record bitchat_packet =
  bp_version :: bitchat_version
  bp_packet_type :: u8
  bp_ttl :: u8
  bp_timestamp :: u64
  bp_flags :: bitchat_flags
  bp_sender_id :: bitchat_peer_id
  bp_recipient_id :: "bitchat_peer_id option"
  bp_route :: "bitchat_route option"
  bp_payload :: bitchat_payload
  bp_signature :: "bitchat_signature option"

section \<open>Reading\<close>

text \<open>The read cursor names the field it was reading in its error.\<close>

definition bc_read_slice :: "string \<Rightarrow> bitchat_error slice_read" where
  "bc_read_slice field len c =
     (case checked_add (rc_index c) len of
        None \<Rightarrow> (Err LengthOverflow, c)
      | Some end_ix \<Rightarrow>
          if length (rc_input c) < end_ix
          then (Err (MissingField field len (length (rc_input c) - rc_index c)), c)
          else (case slice (rc_input c) (rc_index c) end_ix of
                  Ok bs \<Rightarrow> (Ok bs, c\<lparr>rc_index := end_ix\<rparr>)
                | Err err \<Rightarrow> (Err err, c)
                | Panic \<Rightarrow> (Panic, c)))"

definition bc_read_u8 :: "string \<Rightarrow> (read_cursor, u8, bitchat_error) stm" where
  "bc_read_u8 field = cursor_u8 (bc_read_slice field)"

definition bc_read_u16 :: "string \<Rightarrow> (read_cursor, u16, bitchat_error) stm" where
  "bc_read_u16 field = cursor_u16 (bc_read_slice field)"

definition bc_read_u32 :: "string \<Rightarrow> (read_cursor, u32, bitchat_error) stm" where
  "bc_read_u32 field = cursor_u32 (bc_read_slice field)"

definition bc_read_u64 :: "string \<Rightarrow> (read_cursor, u64, bitchat_error) stm" where
  "bc_read_u64 field = cursor_u64 (bc_read_slice field)"

definition bc_read_array :: "string \<Rightarrow> usize \<Rightarrow> (read_cursor, u8 list, bitchat_error) stm" where
  "bc_read_array field n = cursor_array (bc_read_slice field) n"

definition bc_finish :: "(read_cursor, unit, bitchat_error) stm" where
  "bc_finish c =
     (let remaining = length (rc_input c) - rc_index c in
      if remaining = 0 then (Ok (), c) else (Err (BcTrailingBytes remaining), c))"

definition decode_version :: "u8 list \<Rightarrow> (bitchat_version, bitchat_error) result" where
  "decode_version input =
     (case input of [] \<Rightarrow> Err (BcPacketTooShort 0 1) | version # _ \<Rightarrow> version_from_wire_value version)"

definition fixed_header_len :: "bitchat_version \<Rightarrow> usize" where
  "fixed_header_len version = (case version of V1 \<Rightarrow> BITCHAT_V1_HEADER_LEN | V2 \<Rightarrow> BITCHAT_V2_HEADER_LEN)"

definition read_payload_len :: "bitchat_version \<Rightarrow> (read_cursor, usize, bitchat_error) stm" where
  "read_payload_len version =
     (case version of
        V1 \<Rightarrow> sbind (bc_read_u16 ''payload length'') (\<lambda>n. sret (unat n))
      | V2 \<Rightarrow> sbind (bc_read_u32 ''payload length'') (\<lambda>n. sret (unat n)))"

definition read_optional :: "bool \<Rightarrow> string \<Rightarrow> usize \<Rightarrow> (read_cursor, u8 list option, bitchat_error) stm" where
  "read_optional present field n =
     (if present then sbind (bc_read_array field n) (\<lambda>bs. sret (Some bs)) else sret None)"

definition decode_route :: "bitchat_version \<Rightarrow> bitchat_flags \<Rightarrow> (read_cursor, bitchat_route option, bitchat_error) stm" where
  "decode_route version flags =
     (if \<not> has_route flags then sret None
      else if version = V1 then sthrow V1RouteFlag
      else sbind (bc_read_u8 ''route hop count'') (\<lambda>hops.
        let hop_count_usize = unat hops in
        if BITCHAT_ROUTE_MAX_HOPS < hop_count_usize
        then sthrow (RouteTooManyHops hop_count_usize BITCHAT_ROUTE_MAX_HOPS)
        else sbind (slift (ok_or LengthOverflow (checked_mul hop_count_usize BITCHAT_PEER_ID_LEN))) (\<lambda>route_len.
             sbind (bc_read_slice ''route hops'' route_len) (\<lambda>hops_bytes.
               sret (Some \<lparr>hop_count = hops, raw_hops = hops_bytes\<rparr>)))))"

definition compressed_preamble_len :: "bitchat_version \<Rightarrow> usize" where
  "compressed_preamble_len version = (case version of V1 \<Rightarrow> 2 | V2 \<Rightarrow> 4)"

definition original_len_of :: "bitchat_version \<Rightarrow> u8 list \<Rightarrow> (usize, bitchat_error) result" where
  "original_len_of version bytes =
     (case version of
        V1 \<Rightarrow> rbind (slice_to bytes 2) (\<lambda>bs. Ok (unat (u16_from_be_bytes bs)))
      | V2 \<Rightarrow> rbind (slice_to bytes 4) (\<lambda>bs. Ok (unat (u32_from_be_bytes bs))))"

definition decode_payload :: "bitchat_version \<Rightarrow> bitchat_flags \<Rightarrow> u8 list \<Rightarrow> (bitchat_payload, bitchat_error) result" where
  "decode_payload version flags payload_bytes =
     (if \<not> is_compressed flags then Ok (Plain payload_bytes)
      else
        let preamble_len = compressed_preamble_len version in
        if length payload_bytes < preamble_len
        then Err (CompressedOriginalLenMissing (length payload_bytes) preamble_len)
        else rbind (original_len_of version payload_bytes) (\<lambda>original_len.
          if original_len = 0 then Err CompressedOriginalLenZero
          else if BITCHAT_PAYLOAD_MAX_LEN < original_len
          then Err (CompressedOriginalLenTooLarge original_len BITCHAT_PAYLOAD_MAX_LEN)
          else rbind (slice_from payload_bytes preamble_len) (\<lambda>compressed_bytes.
            if compressed_bytes = [] then Err CompressedBodyEmpty
            else Ok (Compressed original_len compressed_bytes))))"

definition read_bitchat_packet :: "bitchat_version \<Rightarrow> (read_cursor, bitchat_packet, bitchat_error) stm" where
  "read_bitchat_packet version =
     sbind (bc_read_u8 ''version'') (\<lambda>_.
     sbind (bc_read_u8 ''packet type'') (\<lambda>packet_type.
     sbind (bc_read_u8 ''ttl'') (\<lambda>ttl.
     sbind (bc_read_u64 ''timestamp'') (\<lambda>timestamp.
     sbind (bc_read_u8 ''flags'') (\<lambda>flag_byte.
     sbind (slift (flags_from_wire_byte flag_byte)) (\<lambda>flags.
       if version = V1 \<and> has_route flags then sthrow V1RouteFlag else
     sbind (read_payload_len version) (\<lambda>payload_len.
       if BITCHAT_PAYLOAD_MAX_LEN < payload_len
       then sthrow (BcPayloadTooLarge payload_len BITCHAT_PAYLOAD_MAX_LEN) else
     sbind (bc_read_array ''sender ID'' BITCHAT_PEER_ID_LEN) (\<lambda>sender_id.
     sbind (read_optional (has_recipient flags) ''recipient ID'' BITCHAT_PEER_ID_LEN) (\<lambda>recipient_id.
     sbind (decode_route version flags) (\<lambda>route.
     sbind (bc_read_slice ''payload'' payload_len) (\<lambda>payload_bytes.
     sbind (slift (decode_payload version flags payload_bytes)) (\<lambda>payload.
     sbind (read_optional (has_signature flags) ''signature'' BITCHAT_SIGNATURE_LEN) (\<lambda>signature.
       sret \<lparr>bp_version = version, bp_packet_type = packet_type, bp_ttl = ttl, bp_timestamp = timestamp,
             bp_flags = flags, bp_sender_id = sender_id, bp_recipient_id = recipient_id, bp_route = route,
             bp_payload = payload, bp_signature = signature\<rparr>)))))))))))))"

definition decode_bitchat_packet :: "u8 list \<Rightarrow> (bitchat_packet, bitchat_error) result" where
  "decode_bitchat_packet input =
     (if BITCHAT_CORE_PACKET_MAX_LEN < length input
      then Err (BcPacketTooLarge (length input) BITCHAT_CORE_PACKET_MAX_LEN)
      else rbind (decode_version input) (\<lambda>version.
        let minimum_header_len = fixed_header_len version in
        if length input < minimum_header_len then Err (BcPacketTooShort (length input) minimum_header_len)
        else fst (sbind (read_bitchat_packet version) (\<lambda>p. sbind bc_finish (\<lambda>_. sret p)) (read_new input))))"

section \<open>Writing\<close>

definition bc_write_slice :: "u8 list \<Rightarrow> (write_cursor, unit, bitchat_error) stm" where
  "bc_write_slice bytes c =
     (case checked_add (wc_index c) (length bytes) of
        None \<Rightarrow> (Err LengthOverflow, c)
      | Some end_ix \<Rightarrow>
          if length (wc_output c) < end_ix then (Err (BcOutputTooSmall end_ix (length (wc_output c))), c)
          else (case copy_at (wc_output c) (wc_index c) bytes of
                  Ok output \<Rightarrow> (Ok (), c\<lparr>wc_output := output, wc_index := end_ix\<rparr>)
                | Err err \<Rightarrow> (Err err, c)
                | Panic \<Rightarrow> (Panic, c)))"

definition bc_write_u8 :: "u8 \<Rightarrow> (write_cursor, unit, bitchat_error) stm" where
  "bc_write_u8 v = bc_write_slice [v]"

definition encode_plain_payload_len :: "bitchat_packet \<Rightarrow> (usize, bitchat_error) result" where
  "encode_plain_payload_len packet =
     (if bp_version packet \<noteq> V2 then Err (UnsupportedEncodeVersion (version_wire_value (bp_version packet)))
      else case bp_payload packet of
        Compressed _ _ \<Rightarrow> Err UnsupportedCompressedEncode
      | Plain payload \<Rightarrow>
          if BITCHAT_PAYLOAD_MAX_LEN < length payload
          then Err (BcPayloadTooLarge (length payload) BITCHAT_PAYLOAD_MAX_LEN) else Ok (length payload))"

definition encoded_route_len :: "bitchat_route option \<Rightarrow> (usize, bitchat_error) result" where
  "encoded_route_len route =
     (case route of
        None \<Rightarrow> Ok 0
      | Some route \<Rightarrow>
          let hops = unat (hop_count route) in
          if BITCHAT_ROUTE_MAX_HOPS < hops then Err (RouteTooManyHops hops BITCHAT_ROUTE_MAX_HOPS)
          else rbind (ok_or LengthOverflow (checked_mul hops BITCHAT_PEER_ID_LEN)) (\<lambda>expected.
            if length (raw_hops route) \<noteq> expected
            then Err (InvalidRouteByteLength (hop_count route) (length (raw_hops route)) expected)
            else ok_or LengthOverflow (checked_add expected 1)))"

definition canonical_encode_flags :: "bitchat_packet \<Rightarrow> bitchat_flags" where
  "canonical_encode_flags packet =
     \<lparr>has_recipient = (bp_recipient_id packet \<noteq> None), has_signature = (bp_signature packet \<noteq> None),
      is_compressed = False, has_route = (bp_route packet \<noteq> None), is_rsr = is_rsr (bp_flags packet)\<rparr>"

definition bitchat_packet_encoded_len_v2 :: "bitchat_packet \<Rightarrow> (usize, bitchat_error) result" where
  "bitchat_packet_encoded_len_v2 packet =
     rbind (encode_plain_payload_len packet) (\<lambda>payload_len.
     rbind (encoded_route_len (bp_route packet)) (\<lambda>route_len.
     rbind (ok_or LengthOverflow (checked_add BITCHAT_V2_HEADER_LEN BITCHAT_PEER_ID_LEN)) (\<lambda>len.
     rbind (if bp_recipient_id packet \<noteq> None then ok_or LengthOverflow (checked_add len BITCHAT_PEER_ID_LEN) else Ok len) (\<lambda>len.
     rbind (ok_or LengthOverflow (checked_add len route_len)) (\<lambda>len.
     rbind (ok_or LengthOverflow (checked_add len payload_len)) (\<lambda>len.
     rbind (if bp_signature packet \<noteq> None then ok_or LengthOverflow (checked_add len BITCHAT_SIGNATURE_LEN) else Ok len) (\<lambda>len.
       if BITCHAT_CORE_PACKET_MAX_LEN < len then Err (BcPacketTooLarge len BITCHAT_CORE_PACKET_MAX_LEN)
       else Ok len)))))))"

definition bc_write_option :: "u8 list option \<Rightarrow> (write_cursor, unit, bitchat_error) stm" where
  "bc_write_option value = (case value of None \<Rightarrow> sret () | Some bytes \<Rightarrow> bc_write_slice bytes)"

definition write_bitchat_packet_v2 :: "bitchat_packet \<Rightarrow> u8 list \<Rightarrow> (write_cursor, unit, bitchat_error) stm" where
  "write_bitchat_packet_v2 packet payload =
     sbind (bc_write_u8 2) (\<lambda>_.
     sbind (bc_write_u8 (bp_packet_type packet)) (\<lambda>_.
     sbind (bc_write_u8 (bp_ttl packet)) (\<lambda>_.
     sbind (bc_write_slice (u64_to_be_bytes (bp_timestamp packet))) (\<lambda>_.
     sbind (bc_write_u8 (flags_to_wire_byte (canonical_encode_flags packet))) (\<lambda>_.
     sbind (bc_write_slice (u32_to_be_bytes (word_of_nat (length payload)))) (\<lambda>_.
     sbind (bc_write_slice (bp_sender_id packet)) (\<lambda>_.
     sbind (bc_write_option (bp_recipient_id packet)) (\<lambda>_.
     sbind (case bp_route packet of
              None \<Rightarrow> sret ()
            | Some route \<Rightarrow> sbind (bc_write_u8 (hop_count route)) (\<lambda>_. bc_write_slice (raw_hops route))) (\<lambda>_.
     sbind (bc_write_slice payload) (\<lambda>_.
       bc_write_option (bp_signature packet)))))))))))"

definition encode_bitchat_packet_v2 :: "bitchat_packet \<Rightarrow> (u8 list, usize, bitchat_error) stm" where
  "encode_bitchat_packet_v2 packet output =
     (case bitchat_packet_encoded_len_v2 packet of
        Err err \<Rightarrow> (Err err, output)
      | Panic \<Rightarrow> (Panic, output)
      | Ok needed \<Rightarrow>
          if length output < needed then (Err (BcOutputTooSmall needed (length output)), output)
          else case bp_payload packet of
            Compressed _ _ \<Rightarrow> (Err UnsupportedCompressedEncode, output)
          | Plain payload \<Rightarrow>
              (case write_bitchat_packet_v2 packet payload (write_new output) of
                 (Ok _, c) \<Rightarrow> (Ok (wc_index c), wc_output c)
               | (Err err, c) \<Rightarrow> (Err err, wc_output c)
               | (Panic, c) \<Rightarrow> (Panic, wc_output c)))"

section \<open>Carriage in envelopes\<close>

datatype hyf_link_bitchat_error =
    LinkBitchat bitchat_error
  | BitchatHyfWire hyf_wire_error
  | PacketTooLargeForCarrier usize usize
  | BitchatWrongPayloadKind payload_kind

record bitchat_wrap_params =
  bcw_message_id :: message_id
  bcw_source_node :: node_id
  bcw_destination :: hyf_destination
  bcw_created_at_ms :: timestamp_ms
  bcw_expires_at_ms :: timestamp_ms
  bcw_hop_limit :: u8

definition enforce_carrier_packet_len :: "u8 list \<Rightarrow> (unit, hyf_link_bitchat_error) result" where
  "enforce_carrier_packet_len raw =
     (if BITCHAT_CARRIER_PACKET_MAX_LEN < length raw
      then Err (PacketTooLargeForCarrier (length raw) BITCHAT_CARRIER_PACKET_MAX_LEN) else Ok ())"

definition validate_bitchat_packet :: "u8 list \<Rightarrow> (bitchat_packet, hyf_link_bitchat_error) result" where
  "validate_bitchat_packet raw =
     rbind (enforce_carrier_packet_len raw) (\<lambda>_. map_err LinkBitchat (decode_bitchat_packet raw))"

definition wrap_bitchat_packet :: "u8 list \<Rightarrow> bitchat_wrap_params \<Rightarrow> (hyf_envelope, hyf_link_bitchat_error) result" where
  "wrap_bitchat_packet raw params =
     rbind (validate_bitchat_packet raw) (\<lambda>_.
       let envelope = \<lparr>env_version = HYF_WIRE_VERSION_0, env_message_id = bcw_message_id params,
             env_source = bcw_source_node params, env_destination = bcw_destination params,
             env_created_at_ms = bcw_created_at_ms params, env_expires_at_ms = bcw_expires_at_ms params,
             env_hop_limit = bcw_hop_limit params, env_payload_kind = ForeignBitChatPacket, env_payload = raw\<rparr>
       in rbind (map_err BitchatHyfWire (validate_envelope envelope)) (\<lambda>_. Ok envelope))"

definition unwrap_bitchat_packet :: "hyf_envelope \<Rightarrow> (u8 list, hyf_link_bitchat_error) result" where
  "unwrap_bitchat_packet envelope =
     rbind (map_err BitchatHyfWire (validate_envelope envelope)) (\<lambda>_.
       if env_payload_kind envelope \<noteq> ForeignBitChatPacket
       then Err (BitchatWrongPayloadKind (env_payload_kind envelope))
       else rbind (validate_bitchat_packet (env_payload envelope)) (\<lambda>_. Ok (env_payload envelope)))"

section \<open>The byte format\<close>

definition len_bytes :: "bitchat_version \<Rightarrow> usize \<Rightarrow> u8 list" where
  "len_bytes version n =
     (case version of V1 \<Rightarrow> u16_to_be_bytes (word_of_nat n) | V2 \<Rightarrow> u32_to_be_bytes (word_of_nat n))"

fun payload_wire :: "bitchat_version \<Rightarrow> bitchat_payload \<Rightarrow> u8 list" where
  "payload_wire version (Plain bytes) = bytes"
| "payload_wire version (Compressed n bytes) = len_bytes version n @ bytes"

fun payload_ok :: "bitchat_payload \<Rightarrow> bool" where
  "payload_ok (Plain bytes) = True"
| "payload_ok (Compressed n bytes) = (0 < n \<and> n \<le> 1536 \<and> bytes \<noteq> [])"

fun compressed :: "bitchat_payload \<Rightarrow> bool" where
  "compressed (Plain bytes) = False"
| "compressed (Compressed n bytes) = True"

definition option_bytes :: "u8 list option \<Rightarrow> u8 list" where
  "option_bytes x = (case x of None \<Rightarrow> [] | Some bytes \<Rightarrow> bytes)"

definition option_len :: "usize \<Rightarrow> u8 list option \<Rightarrow> bool" where
  "option_len n x \<longleftrightarrow> (\<forall>bytes. x = Some bytes \<longrightarrow> length bytes = n)"

definition route_bytes :: "bitchat_route option \<Rightarrow> u8 list" where
  "route_bytes r = (case r of None \<Rightarrow> [] | Some r \<Rightarrow> hop_count r # raw_hops r)"

definition route_ok :: "bitchat_route option \<Rightarrow> bool" where
  "route_ok r \<longleftrightarrow> (\<forall>x. r = Some x \<longrightarrow> unat (hop_count x) \<le> 16 \<and> length (raw_hops x) = unat (hop_count x) * 8)"

definition bitchat_bytes :: "bitchat_packet \<Rightarrow> u8 list" where
  "bitchat_bytes p =
     version_wire_value (bp_version p) # bp_packet_type p # bp_ttl p # u64_to_be_bytes (bp_timestamp p) @
     flags_to_wire_byte (bp_flags p) # len_bytes (bp_version p) (length (payload_wire (bp_version p) (bp_payload p))) @
     bp_sender_id p @ option_bytes (bp_recipient_id p) @ route_bytes (bp_route p) @
     payload_wire (bp_version p) (bp_payload p) @ option_bytes (bp_signature p)"

text \<open>What the Rust types guarantee, and the limits and consistency a decoded packet has beyond them.\<close>

definition wf_bitchat :: "bitchat_packet \<Rightarrow> bool" where
  "wf_bitchat p \<longleftrightarrow> length (bp_sender_id p) = 8 \<and> option_len 8 (bp_recipient_id p) \<and> option_len 64 (bp_signature p)"

definition bitchat_ok :: "bitchat_packet \<Rightarrow> bool" where
  "bitchat_ok p \<longleftrightarrow> wf_bitchat p \<and> route_ok (bp_route p) \<and> payload_ok (bp_payload p) \<and>
     length (payload_wire (bp_version p) (bp_payload p)) \<le> 1536 \<and>
     (bp_version p = V1 \<longrightarrow> bp_route p = None) \<and>
     has_recipient (bp_flags p) = (bp_recipient_id p \<noteq> None) \<and> has_signature (bp_flags p) = (bp_signature p \<noteq> None) \<and>
     has_route (bp_flags p) = (bp_route p \<noteq> None) \<and> is_compressed (bp_flags p) = compressed (bp_payload p)"

section \<open>Flags\<close>

definition flags_canonical_byte :: "u8 \<Rightarrow> bool" where
  "flags_canonical_byte b \<longleftrightarrow>
     (case flags_from_wire_byte b of Ok f \<Rightarrow> flags_to_wire_byte f = b | Err e \<Rightarrow> True | Panic \<Rightarrow> False)"

lemma flags_canonical_bytes: "list_all (\<lambda>n. flags_canonical_byte (word_of_nat n)) [0..<256]"
  by code_simp

lemma flags_roundtrip [simp]: "flags_from_wire_byte (flags_to_wire_byte f) = Ok f"
proof (cases f)
  case (fields a b c d e)
  then show ?thesis by (cases a; cases b; cases c; cases d; cases e)
    (simp_all add: flags_from_wire_byte_def flags_to_wire_byte_def bool_flag_def bitchat_flags)
qed

lemma flags_from_wire_byte_Ok: "flags_from_wire_byte b = Ok f \<Longrightarrow> flags_to_wire_byte f = b"
proof -
  have "flags_canonical_byte b"
    by (rule u8_cases [of flags_canonical_byte b]) (use flags_canonical_bytes in \<open>simp add: list_all_iff\<close>)
  then show "flags_from_wire_byte b = Ok f \<Longrightarrow> flags_to_wire_byte f = b" by (simp add: flags_canonical_byte_def)
qed

lemma flags_from_wire_byte_no_panic [simp]: "flags_from_wire_byte b \<noteq> Panic"
  by (simp add: flags_from_wire_byte_def)

section \<open>Reading what is written\<close>

interpretation bitchat: slice_reader "bc_read_slice field" for field
  by unfold_locales (auto simp: bc_read_slice_def slice_def checked_add_def add.commute)

lemmas bc_reads = bitchat.slice_reads bitchat.array_reads [folded bc_read_array_def] bitchat.u8_reads [folded bc_read_u8_def]
  bitchat.u16_reads [folded bc_read_u16_def] bitchat.u32_reads [folded bc_read_u32_def] bitchat.u64_reads [folded bc_read_u64_def]
lemmas bc_accepts = bitchat.slice_accepts bitchat.array_accepts [folded bc_read_array_def] bitchat.u8_accepts [folded bc_read_u8_def]
  bitchat.u16_accepts [folded bc_read_u16_def] bitchat.u32_accepts [folded bc_read_u32_def] bitchat.u64_accepts [folded bc_read_u64_def]
lemmas bc_safe = bitchat.slice_safe bitchat.array_safe [folded bc_read_array_def] bitchat.u8_safe [folded bc_read_u8_def]
  bitchat.u16_safe [folded bc_read_u16_def] bitchat.u32_safe [folded bc_read_u32_def] bitchat.u64_safe [folded bc_read_u64_def]

lemma length_len_bytes [simp]: "length (len_bytes version n) = compressed_preamble_len version"
  by (cases version) (simp_all add: len_bytes_def compressed_preamble_len_def)

lemma unat_len: "n \<le> 1536 \<Longrightarrow> unat (word_of_nat n :: u16) = n" "n \<le> 1536 \<Longrightarrow> unat (word_of_nat n :: u32) = n"
  by (simp_all add: unat_of_nat)

lemma reads_payload_len:
  assumes "n \<le> 1536"
  shows "reads (read_payload_len version) (len_bytes version n) n"
proof -
  have "reads (sbind (bc_read_u16 ''payload length'') (\<lambda>n. sret (unat n))) (u16_to_be_bytes w @ []) (unat w)" for w
    by (rule reads_bind [OF bc_reads(4) reads_ret])
  moreover have "reads (sbind (bc_read_u32 ''payload length'') (\<lambda>n. sret (unat n))) (u32_to_be_bytes w @ []) (unat w)" for w
    by (rule reads_bind [OF bc_reads(5) reads_ret])
  ultimately show ?thesis
    using assms unat_len [of n]
    by (cases version) (simp_all add: read_payload_len_def len_bytes_def, metis+)
qed

lemma accepts_payload_len: "accepts (read_payload_len version) (\<lambda>n bs. bs = len_bytes version n)"
proof (cases version)
  case V1
  then show ?thesis
    by (auto simp: read_payload_len_def len_bytes_def intro!: accepts_mono [OF accepts_bind [OF bc_accepts(4) accepts_ret]])
next
  case V2
  then show ?thesis
    by (auto simp: read_payload_len_def len_bytes_def intro!: accepts_mono [OF accepts_bind [OF bc_accepts(5) accepts_ret]])
qed

lemma reads_optional:
  assumes "option_len n x" and "b = (x \<noteq> None)"
  shows "reads (read_optional b field n) (option_bytes x) x"
proof (cases x)
  case (Some bs)
  have "reads (sbind (bc_read_array field n) (\<lambda>bs. sret (Some bs))) (bs @ []) (Some bs)"
    by (rule reads_bind [OF bc_reads(2) reads_ret]) (use assms Some in \<open>simp add: option_len_def\<close>)
  with Some assms show ?thesis by (simp add: read_optional_def option_bytes_def)
qed (use assms in \<open>simp add: read_optional_def option_bytes_def reads_ret\<close>)

lemma accepts_optional:
  "accepts (read_optional b field n) (\<lambda>x bs. b = (x \<noteq> None) \<and> bs = option_bytes x \<and> option_len n x)"
proof -
  have "accepts (sbind (bc_read_array field n) (\<lambda>bs. sret (Some bs))) (\<lambda>x bs. x \<noteq> None \<and> bs = option_bytes x \<and> option_len n x)"
    by (rule accepts_mono [OF accepts_bind [OF bc_accepts(2) accepts_ret]]) (auto simp: option_bytes_def option_len_def)
  moreover have "accepts (sret None) (\<lambda>x bs. x = None \<and> bs = option_bytes x \<and> option_len n x)"
    by (rule accepts_mono [OF accepts_ret]) (auto simp: option_bytes_def option_len_def)
  ultimately show ?thesis by (cases b) (simp_all add: read_optional_def)
qed

lemma route_len: "n \<le> 16 \<Longrightarrow> checked_mul n BITCHAT_PEER_ID_LEN = Some (n * 8)"
  by (simp add: checked_mul_def usize_max_def bitchat_constants)

lemma reads_route:
  assumes "route_ok r" and "has_route flags = (r \<noteq> None)" and "version = V1 \<longrightarrow> r = None"
  shows "reads (decode_route version flags) (route_bytes r) r"
proof (cases r)
  case (Some x)
  then have x: "unat (hop_count x) \<le> 16" "length (raw_hops x) = unat (hop_count x) * 8" "version \<noteq> V1" "has_route flags"
    using assms by (auto simp: route_ok_def)
  have "reads (sbind (bc_read_slice ''route hops'' (unat (hop_count x) * 8)) (\<lambda>hs. sret (Some \<lparr>hop_count = hop_count x, raw_hops = hs\<rparr>)))
      (raw_hops x @ []) (Some \<lparr>hop_count = hop_count x, raw_hops = raw_hops x\<rparr>)"
    using x(2) by (intro reads_bind [OF bc_reads(1)]) (auto intro: reads_ret)
  then have "reads (sbind (bc_read_slice ''route hops'' (unat (hop_count x) * 8)) (\<lambda>hs. sret (Some \<lparr>hop_count = hop_count x, raw_hops = hs\<rparr>)))
      (raw_hops x) (Some x)"
    by (cases x) simp
  then show ?thesis
    using x
    by (auto simp: Some decode_route_def route_bytes_def Let_def route_len [OF x(1)] BITCHAT_ROUTE_MAX_HOPS_def
        intro!: reads_bind_Cons [OF bc_reads(3)] reads_lift)
qed (use assms in \<open>auto simp: decode_route_def route_bytes_def reads_ret\<close>)

lemma accepts_route:
  "accepts (decode_route version flags)
     (\<lambda>r bs. has_route flags = (r \<noteq> None) \<and> bs = route_bytes r \<and> route_ok r \<and> (version = V1 \<longrightarrow> r = None))"
proof -
  have none: "accepts (sret None) (\<lambda>r bs. r = None \<and> bs = route_bytes r \<and> route_ok r)"
    by (rule accepts_mono [OF accepts_ret]) (auto simp: route_bytes_def route_ok_def)
  have some: "accepts (sbind (bc_read_u8 ''route hop count'') (\<lambda>hops.
        if BITCHAT_ROUTE_MAX_HOPS < unat hops then sthrow (RouteTooManyHops (unat hops) BITCHAT_ROUTE_MAX_HOPS)
        else sbind (slift (ok_or LengthOverflow (checked_mul (unat hops) BITCHAT_PEER_ID_LEN))) (\<lambda>route_len.
             sbind (bc_read_slice ''route hops'' route_len) (\<lambda>hops_bytes.
               sret (Some \<lparr>hop_count = hops, raw_hops = hops_bytes\<rparr>))))) (\<lambda>r bs. r \<noteq> None \<and> bs = route_bytes r \<and> route_ok r)"
    apply (rule accepts_mono)
     apply (rule accepts_bind accepts_guard bc_accepts accepts_lift accepts_ret)+
    by (auto simp: route_bytes_def route_ok_def checked_mul_def bitchat_constants split: if_splits)
  have none': "accepts (sret None) (\<lambda>r bs. r = None \<and> bs = route_bytes r \<and> route_ok r \<and> r = None)"
    by (rule accepts_mono [OF none]) auto
  show ?thesis
    using none none' some
    by (cases "has_route flags"; cases version) (simp_all add: decode_route_def Let_def accepts_throw)
qed

lemma original_len_of_wire:
  "original_len_of version (len_bytes version n @ bs) = Ok m \<longleftrightarrow>
     m = (case version of V1 \<Rightarrow> unat (word_of_nat n :: u16) | V2 \<Rightarrow> unat (word_of_nat n :: u32))"
  by (cases version) (auto simp: original_len_of_def slice_to_def len_bytes_def)

lemma decode_payload_wire:
  assumes "payload_ok payload" and "is_compressed flags = compressed payload"
  shows "decode_payload version flags (payload_wire version payload) = Ok payload"
proof (cases payload)
  case (Compressed n bytes)
  with assms have "original_len_of version (len_bytes version n @ bytes) = Ok n"
    by (auto simp: original_len_of_wire unat_len split: bitchat_version.splits)
  with Compressed assms show ?thesis
    by (auto simp: decode_payload_def Let_def slice_from_def bitchat_constants)
qed (use assms in \<open>simp add: decode_payload_def\<close>)

lemma decode_payload_Ok:
  assumes "decode_payload version flags bytes = Ok payload"
  shows "bytes = payload_wire version payload \<and> payload_ok payload \<and> is_compressed flags = compressed payload"
proof (cases "is_compressed flags")
  case True
  with assms obtain n where n: "compressed_preamble_len version \<le> length bytes" "original_len_of version bytes = Ok n"
    "payload = Compressed n (drop (compressed_preamble_len version) bytes)" "0 < n" "n \<le> 1536"
    "drop (compressed_preamble_len version) bytes \<noteq> []"
    by (auto simp: decode_payload_def Let_def slice_from_def bitchat_constants split: if_splits)
  have "len_bytes version n = take (compressed_preamble_len version) bytes"
    using n(1,2) by (cases version)
      (auto simp: original_len_of_def slice_to_def len_bytes_def compressed_preamble_len_def u16_to_from_be u32_to_from_be)
  then have "bytes = len_bytes version n @ drop (compressed_preamble_len version) bytes"
    by (metis append_take_drop_id)
  with n True show ?thesis by simp
qed (use assms in \<open>auto simp: decode_payload_def\<close>)

lemma original_len_of_no_panic: "compressed_preamble_len version \<le> length bs \<Longrightarrow> original_len_of version bs \<noteq> Panic"
  by (cases version) (auto simp: original_len_of_def slice_to_def compressed_preamble_len_def)

lemma decode_payload_no_panic [simp]: "decode_payload version flags bytes \<noteq> Panic"
  using original_len_of_no_panic [of version bytes]
  by (auto simp: decode_payload_def Let_def rbind_eq_Panic slice_from_def split: if_splits)

lemma packet_eta:
  "\<lparr>bp_version = bp_version p, bp_packet_type = bp_packet_type p, bp_ttl = bp_ttl p, bp_timestamp = bp_timestamp p,
    bp_flags = bp_flags p, bp_sender_id = bp_sender_id p, bp_recipient_id = bp_recipient_id p, bp_route = bp_route p,
    bp_payload = bp_payload p, bp_signature = x\<rparr> = p\<lparr>bp_signature := x\<rparr>"
  by simp

lemma reads_bitchat_packet:
  assumes "bitchat_ok p"
  shows "reads (read_bitchat_packet (bp_version p)) (bitchat_bytes p) p"
proof -
  let ?payload = "payload_wire (bp_version p) (bp_payload p)"
  have wf: "length (bp_sender_id p) = BITCHAT_PEER_ID_LEN" "option_len BITCHAT_PEER_ID_LEN (bp_recipient_id p)"
    "option_len BITCHAT_SIGNATURE_LEN (bp_signature p)" "length ?payload \<le> 1536"
    "route_ok (bp_route p)" "bp_version p = V1 \<longrightarrow> bp_route p = None" "has_recipient (bp_flags p) = (bp_recipient_id p \<noteq> None)"
    "has_signature (bp_flags p) = (bp_signature p \<noteq> None)" "has_route (bp_flags p) = (bp_route p \<noteq> None)"
    using assms by (simp_all add: bitchat_ok_def wf_bitchat_def bitchat_constants)
  have payload: "decode_payload (bp_version p) (bp_flags p) ?payload = Ok (bp_payload p)"
    using assms by (intro decode_payload_wire) (simp_all add: bitchat_ok_def)
  have "reads (sbind (read_optional (has_signature (bp_flags p)) ''signature'' BITCHAT_SIGNATURE_LEN)
      (\<lambda>sig. sret (p\<lparr>bp_signature := sig\<rparr>))) (option_bytes (bp_signature p) @ []) (p\<lparr>bp_signature := bp_signature p\<rparr>)"
    by (rule reads_bind [OF reads_optional [OF wf(3) wf(8)] reads_ret])
  then have sig: "reads (sbind (read_optional (has_signature (bp_flags p)) ''signature'' BITCHAT_SIGNATURE_LEN)
      (\<lambda>sig. sret (p\<lparr>bp_signature := sig\<rparr>))) (option_bytes (bp_signature p)) p" by simp
  show ?thesis
    unfolding read_bitchat_packet_def bitchat_bytes_def
    apply (rule reads_bind_Cons [OF bc_reads(3)], rule reads_bind_Cons [OF bc_reads(3)], rule reads_bind_Cons [OF bc_reads(3)])
    apply (rule reads_bind [OF bc_reads(6)], rule reads_bind_Cons [OF bc_reads(3)], simp only: flags_roundtrip, rule reads_lift)
    apply (subst if_not_P, use wf in blast)
    apply (rule reads_bind [OF reads_payload_len [OF wf(4)]], subst if_not_P, simp add: wf(4) bitchat_constants not_less)
    apply (rule reads_bind [OF bc_reads(2) [OF wf(1)]], rule reads_bind [OF reads_optional [OF wf(2,7)]])
    apply (rule reads_bind [OF reads_route [OF wf(5,9,6)]], rule reads_bind [OF bc_reads(1) [OF refl]])
    apply (simp only: payload, rule reads_lift)
    using sig by (simp only: packet_eta)
qed

lemma accepts_bitchat_packet:
  "accepts (read_bitchat_packet version)
     (\<lambda>p bs. bp_version p = version \<and> bitchat_ok p \<and> (\<exists>b. bs = b # tl (bitchat_bytes p)))"
  unfolding read_bitchat_packet_def
  apply (rule accepts_mono)
   apply (rule accepts_bind accepts_guard bc_accepts accepts_lift accepts_ret accepts_payload_len accepts_optional accepts_route)+
  apply clarify
  apply (drule decode_payload_Ok, drule flags_from_wire_byte_Ok)
  by (auto simp: bitchat_bytes_def bitchat_ok_def wf_bitchat_def bitchat_constants not_less)

lemma safe_bitchat_packet: "safe (read_bitchat_packet version)"
proof -
  have "safe (read_payload_len version)"
    by (cases version) (auto simp: read_payload_len_def intro!: safe_bind safe_ret bc_safe)
  moreover have "safe (read_optional b field n)" for b field n
    by (auto simp: read_optional_def intro!: safe_bind safe_ret bc_safe)
  moreover have "safe (decode_route version flags)" for flags
    unfolding decode_route_def Let_def
    by (intro safe_bind safe_if safe_throw safe_ret safe_lift bc_safe) (auto simp: checked_mul_def)
  ultimately show ?thesis
    unfolding read_bitchat_packet_def
    by (intro safe_bind safe_if safe_throw safe_ret safe_lift bc_safe) auto
qed

lemma length_option_bytes_le: "option_len n x \<Longrightarrow> length (option_bytes x) \<le> n"
  by (auto simp: option_len_def option_bytes_def split: option.splits)

lemma length_route_bytes_le: "route_ok r \<Longrightarrow> length (route_bytes r) \<le> 129"
  by (auto simp: route_ok_def route_bytes_def split: option.splits)

lemma bitchat_bytes_length:
  assumes "bitchat_ok p"
  shows "length (bitchat_bytes p) \<le> 1761" "fixed_header_len (bp_version p) \<le> length (bitchat_bytes p)"
proof -
  have "length (option_bytes (bp_recipient_id p)) \<le> 8" "length (option_bytes (bp_signature p)) \<le> 64"
    "length (route_bytes (bp_route p)) \<le> 129" "length (bp_sender_id p) = 8"
    "length (payload_wire (bp_version p) (bp_payload p)) \<le> 1536"
    using assms length_option_bytes_le length_route_bytes_le by (auto simp: bitchat_ok_def wf_bitchat_def)
  then show "length (bitchat_bytes p) \<le> 1761" "fixed_header_len (bp_version p) \<le> length (bitchat_bytes p)"
    by (cases "bp_version p"; simp add: bitchat_bytes_def compressed_preamble_len_def fixed_header_len_def bitchat_constants)+
qed

lemma decode_version_bytes [simp]: "decode_version (bitchat_bytes p) = Ok (bp_version p)"
  by (cases "bp_version p") (simp_all add: decode_version_def bitchat_bytes_def version_from_wire_value_def)

lemma decode_version_Ok: "decode_version input = Ok v \<Longrightarrow> \<exists>rest. input = version_wire_value v # rest"
  by (auto simp: decode_version_def version_from_wire_value_def split: list.splits if_splits)

lemma decode_version_no_panic [simp]: "decode_version input \<noteq> Panic"
  by (auto simp: decode_version_def version_from_wire_value_def split: list.splits)

lemma decode_bitchat_packet_iff: "decode_bitchat_packet input = Ok p \<longleftrightarrow> bitchat_ok p \<and> input = bitchat_bytes p"
proof
  assume run: "decode_bitchat_packet input = Ok p"
  then obtain v c where v: "decode_version input = Ok v" and rd: "read_bitchat_packet v (rcur [] input) = (Ok p, c)"
    and c: "length (rc_input c) \<le> rc_index c"
    by (auto simp: decode_bitchat_packet_def Let_def fst_eq_ex sbind_eq_Ok bc_finish_def read_new_def rcur_def split: if_splits)
  have "\<exists>bs rest. input = bs @ rest \<and> c = rcur ([] @ bs) rest \<and> bp_version p = v \<and> bitchat_ok p \<and>
      (\<exists>b. bs = b # tl (bitchat_bytes p))"
    using accepts_bitchat_packet [of v] rd unfolding accepts_def by blast
  then obtain bs rest b where
    *: "input = bs @ rest" "c = rcur bs rest" "bp_version p = v" "bitchat_ok p" "bs = b # tl (bitchat_bytes p)" by auto
  from * c have "rest = []" by (simp add: rcur_def)
  moreover obtain r where "input = version_wire_value v # r" using decode_version_Ok [OF v] by blast
  ultimately show "bitchat_ok p \<and> input = bitchat_bytes p" using * by (auto simp: bitchat_bytes_def)
next
  assume ok: "bitchat_ok p \<and> input = bitchat_bytes p"
  then have len: "length input \<le> 1761" "fixed_header_len (bp_version p) \<le> length input"
    using bitchat_bytes_length by auto
  have "read_bitchat_packet (bp_version p) (rcur [] input) = (Ok p, rcur input [])"
    using reads_bitchat_packet [of p, unfolded reads_def, rule_format, of "[]" "[]"] ok len by (simp add: usize_max_def)
  with ok len show "decode_bitchat_packet input = Ok p"
    by (simp add: decode_bitchat_packet_def bitchat_constants Let_def read_new_def rcur_def sbind_def bc_finish_def sret_def)
qed

lemma decode_bitchat_packet_no_panic: "decode_bitchat_packet input \<noteq> Panic"
proof -
  have "safe (sbind bc_finish (\<lambda>_. sret m))" for m :: bitchat_packet
    by (auto simp: safe_def bc_finish_def sbind_def sret_def Let_def)
  from safe_bind [OF safe_bitchat_packet this] show ?thesis
    by (auto simp: decode_bitchat_packet_def safe_def in_range_def read_new_def rbind_eq_Panic Let_def)
qed

section \<open>Encoding\<close>

lemma within_slice: "writes_within (bc_write_slice bs) bs"
  by (simp add: writes_within_def bc_write_slice_def checked_add_def copy_at_def wcur_def)

lemma within_u8: "writes_within (bc_write_u8 v) [v]"
  using within_slice [of "[v]"] by (simp add: bc_write_u8_def)

lemma within_option: "writes_within (bc_write_option x) (option_bytes x)"
  by (cases x) (simp_all add: bc_write_option_def option_bytes_def within_slice writes_within_ret)

text \<open>The packet the encoder writes: the given one with its flags made consistent.\<close>

definition canonical_packet :: "bitchat_packet \<Rightarrow> bitchat_packet" where
  "canonical_packet p = p\<lparr>bp_flags := canonical_encode_flags p\<rparr>"

definition encodable :: "bitchat_packet \<Rightarrow> bool" where
  "encodable p \<longleftrightarrow> bp_version p = V2 \<and> route_ok (bp_route p) \<and> (\<exists>payload. bp_payload p = Plain payload \<and> length payload \<le> 1536)"

lemma within_packet:
  assumes "bp_version p = V2" and "bp_payload p = Plain payload"
  shows "writes_within (write_bitchat_packet_v2 p payload) (bitchat_bytes (canonical_packet p))"
proof -
  have route: "writes_within (case bp_route p of None \<Rightarrow> sret () | Some route \<Rightarrow>
      sbind (bc_write_u8 (hop_count route)) (\<lambda>_. bc_write_slice (raw_hops route))) (route_bytes (bp_route p))"
    by (cases "bp_route p") (auto simp: route_bytes_def writes_within_ret intro!: writes_within_bind_Cons within_u8 within_slice)
  show ?thesis
    unfolding write_bitchat_packet_v2_def bitchat_bytes_def canonical_packet_def
    using route assms
    by (auto simp: len_bytes_def intro!: writes_within_bind writes_within_bind_Cons within_u8 within_slice within_option)
qed

lemma canonical_packet_ok: "wf_bitchat p \<Longrightarrow> encodable p \<Longrightarrow> bitchat_ok (canonical_packet p)"
  by (auto simp: bitchat_ok_def wf_bitchat_def encodable_def canonical_packet_def canonical_encode_flags_def)

lemma encoded_route_len_Ok: "encoded_route_len r = Ok n \<longleftrightarrow> route_ok r \<and> n = length (route_bytes r)"
  by (auto simp: encoded_route_len_def route_ok_def route_bytes_def Let_def checked_mul_def checked_add_def usize_max_def
      bitchat_constants split: option.splits if_splits)

lemma encode_plain_payload_len_Ok:
  "encode_plain_payload_len p = Ok n \<longleftrightarrow>
     bp_version p = V2 \<and> (\<exists>payload. bp_payload p = Plain payload \<and> length payload \<le> 1536 \<and> n = length payload)"
  by (auto simp: encode_plain_payload_len_def bitchat_constants split: bitchat_payload.splits if_splits)

lemma encode_lens_no_panic [simp]: "encoded_route_len r \<noteq> Panic" "encode_plain_payload_len p \<noteq> Panic"
  by (auto simp: encoded_route_len_def Let_def encode_plain_payload_len_def checked_mul_def checked_add_def
      split: option.splits bitchat_payload.splits)

lemma bitchat_packet_encoded_len:
  assumes "wf_bitchat p"
  shows "if encodable p then bitchat_packet_encoded_len_v2 p = Ok (length (bitchat_bytes (canonical_packet p)))
    else \<exists>e. bitchat_packet_encoded_len_v2 p = Err e"
proof (cases "encodable p")
  case True
  then obtain payload where p: "bp_version p = V2" "bp_payload p = Plain payload" "length payload \<le> 1536" "route_ok (bp_route p)"
    by (auto simp: encodable_def)
  have lens: "encode_plain_payload_len p = Ok (length payload)" "encoded_route_len (bp_route p) = Ok (length (route_bytes (bp_route p)))"
    using p by (auto simp: encode_plain_payload_len_Ok encoded_route_len_Ok)
  have opt: "length (option_bytes (bp_recipient_id p)) = (if bp_recipient_id p = None then 0 else 8)"
    "length (option_bytes (bp_signature p)) = (if bp_signature p = None then 0 else 64)"
    using assms by (auto simp: wf_bitchat_def option_bytes_def option_len_def split: option.splits)
  have "length (bitchat_bytes (canonical_packet p)) = 16 + 8 + length (option_bytes (bp_recipient_id p)) +
      length (route_bytes (bp_route p)) + length payload + length (option_bytes (bp_signature p))"
    using p assms by (simp add: bitchat_bytes_def canonical_packet_def wf_bitchat_def compressed_preamble_len_def)
  with True lens opt p(3) length_route_bytes_le [OF p(4)] show ?thesis
    by (simp add: bitchat_packet_encoded_len_v2_def checked_add_def usize_max_def bitchat_constants)
next
  case False
  then have "encode_plain_payload_len p = Ok n \<Longrightarrow> \<exists>e. encoded_route_len (bp_route p) = Err e" for n
    by (cases "encoded_route_len (bp_route p)")
      (auto simp: encodable_def encode_plain_payload_len_Ok encoded_route_len_Ok)
  with False show ?thesis
    by (cases "encode_plain_payload_len p") (auto simp: bitchat_packet_encoded_len_v2_def)
qed

lemma encode_bitchat_packet_cases:
  assumes "wf_bitchat p" and "length out \<le> usize_max"
  shows "if encodable p
    then encode_bitchat_packet_v2 p out =
      (let bytes = bitchat_bytes (canonical_packet p) in
       if length out < length bytes then (Err (BcOutputTooSmall (length bytes) (length out)), out)
       else (Ok (length bytes), bytes @ drop (length bytes) out))
    else \<exists>e. encode_bitchat_packet_v2 p out = (Err e, out)"
proof (cases "encodable p")
  case True
  then obtain payload where p: "bp_version p = V2" "bp_payload p = Plain payload" by (auto simp: encodable_def)
  let ?bytes = "bitchat_bytes (canonical_packet p)"
  have len: "bitchat_packet_encoded_len_v2 p = Ok (length ?bytes)" using bitchat_packet_encoded_len [OF assms(1)] True by simp
  have "write_bitchat_packet_v2 p payload (wcur [] out) = (Ok (), wcur ?bytes (drop (length ?bytes) out))"
    if "length ?bytes \<le> length out"
    using within_packet [OF p] that assms(2) by (simp add: writes_within_def)
  with True len p show ?thesis
    by (auto simp: encode_bitchat_packet_v2_def Let_def write_new_def wcur_def not_less)
next
  case False
  with bitchat_packet_encoded_len [OF assms(1)] show ?thesis by (auto simp: encode_bitchat_packet_v2_def)
qed

section \<open>Properties\<close>

text \<open>
  C35. The BitChat codec. Decoding accepts a byte string exactly when it is the wire form of a packet
  whose flags say which optional fields are present and whose fields are within their limits, and
  returns that packet, for both versions, plain or compressed; no input makes it panic. The encoder
  accepts exactly version 2 packets with a plain payload within the limit and a route of matching
  length; whatever flags the caller put in the packet, the bytes decode to the same packet with the
  flags recomputed from its fields, and they fit in 1761 bytes, below the 2048 the decoder accepts.\<close>

theorem bitchat_codec:
  "decode_bitchat_packet input \<noteq> Panic \<and>
   (decode_bitchat_packet input = Ok p \<longleftrightarrow> bitchat_ok p \<and> input = bitchat_bytes p) \<and>
   (wf_bitchat p \<longrightarrow> length out \<le> usize_max \<longrightarrow>
     (case encode_bitchat_packet_v2 p out of
        (Ok n, out') \<Rightarrow> encodable p \<and> n \<le> 1761 \<and> length out' = length out \<and> drop n out' = drop n out \<and>
          decode_bitchat_packet (take n out') = Ok (p\<lparr>bp_flags := canonical_encode_flags p\<rparr>)
      | (Err e, out') \<Rightarrow> out' = out \<and> (encodable p \<longrightarrow> length out < length (bitchat_bytes (canonical_packet p)))
      | (Panic, out') \<Rightarrow> False))"
proof -
  have enc: "case encode_bitchat_packet_v2 p out of
        (Ok n, out') \<Rightarrow> encodable p \<and> n \<le> 1761 \<and> length out' = length out \<and> drop n out' = drop n out \<and>
          decode_bitchat_packet (take n out') = Ok (p\<lparr>bp_flags := canonical_encode_flags p\<rparr>)
      | (Err e, out') \<Rightarrow> out' = out \<and> (encodable p \<longrightarrow> length out < length (bitchat_bytes (canonical_packet p)))
      | (Panic, out') \<Rightarrow> False" if "wf_bitchat p" "length out \<le> usize_max"
  proof (cases "encodable p")
    case True
    have ok: "bitchat_ok (canonical_packet p)" by (rule canonical_packet_ok [OF that(1) True])
    then have "decode_bitchat_packet (bitchat_bytes (canonical_packet p)) = Ok (canonical_packet p)"
      by (simp add: decode_bitchat_packet_iff)
    with encode_bitchat_packet_cases [OF that] True bitchat_bytes_length(1) [OF ok] show ?thesis
      by (auto simp: Let_def canonical_packet_def not_less)
  qed (use encode_bitchat_packet_cases [OF that] in auto)
  with decode_bitchat_packet_no_panic [of input] decode_bitchat_packet_iff [of input p] show ?thesis by blast
qed

definition sample_bitchat :: bitchat_packet where
  "sample_bitchat =
     \<lparr>bp_version = V2, bp_packet_type = 2, bp_ttl = 7, bp_timestamp = 5000, bp_flags = bitchat_flags_empty,
      bp_sender_id = replicate 8 3, bp_recipient_id = Some (replicate 8 4),
      bp_route = Some \<lparr>hop_count = 1, raw_hops = replicate 8 5\<rparr>, bp_payload = Plain [104, 105], bp_signature = None\<rparr>"

theorem bitchat_codec_witness:
  "\<exists>n out'. encode_bitchat_packet_v2 sample_bitchat (replicate 64 0) = (Ok n, out') \<and>
     decode_bitchat_packet (take n out') = Ok (sample_bitchat\<lparr>bp_flags := bitchat_flags_empty\<lparr>has_recipient := True, has_route := True\<rparr>\<rparr>)"
proof -
  have ok: "wf_bitchat sample_bitchat" "encodable sample_bitchat"
    by (simp_all add: sample_bitchat_def wf_bitchat_def option_len_def encodable_def route_ok_def)
  have "length (bitchat_bytes (canonical_packet sample_bitchat)) \<le> 64"
    by (simp add: bitchat_bytes_def canonical_packet_def sample_bitchat_def compressed_preamble_len_def option_bytes_def route_bytes_def)
  with ok encode_bitchat_packet_cases [of sample_bitchat "replicate 64 0"] obtain n out' where
    run: "encode_bitchat_packet_v2 sample_bitchat (replicate 64 0) = (Ok n, out')"
    by (auto simp: Let_def usize_max_def)
  have "canonical_encode_flags sample_bitchat = bitchat_flags_empty\<lparr>has_recipient := True, has_route := True\<rparr>"
    by (simp add: canonical_encode_flags_def sample_bitchat_def bitchat_flags_empty_def)
  with bitchat_codec [of "[]" sample_bitchat "replicate 64 0"] run ok show ?thesis by (simp add: usize_max_def)
qed

end
