(* ===== verification/Hyf_LXMF.thy ===== *)
theory Hyf_LXMF
  imports Hyf_Bridge Hyf_RNS_Crypto
begin

text \<open>
  The crates \<open>hyf_lxmf_core\<close> and \<open>hyf_link_lxmf\<close>: LXMF messages, whose payload is a
  MessagePack array, their message id and signature input, and their carriage in HYF envelopes
  (\<open>src/crates/hyf_lxmf_core/src/{constants,error,types,msgpack,payload,message,hash}.rs\<close>,
  \<open>src/crates/hyf_link_lxmf/src/{error,params,wrap}.rs\<close>). The MessagePack walker recurses into
  arrays and maps up to a fixed depth; its recursion terminates because the depth does.

  An \<open>f64\<close> is its 64 bits: the crate reads and writes it with \<open>from_bits\<close> and
  \<open>to_bits\<close> and asks only whether it is finite. SHA-256, of a third-party crate, is a field of the
  parameter \<open>crypto\<close>.
\<close>

unbundle bit_operations_syntax

section \<open>Constants, errors and types\<close>

definition LXMF_DESTINATION_HASH_LEN :: usize where "LXMF_DESTINATION_HASH_LEN = 16"
definition LXMF_SOURCE_HASH_LEN :: usize where "LXMF_SOURCE_HASH_LEN = 16"
definition LXMF_SIGNATURE_LEN :: usize where "LXMF_SIGNATURE_LEN = 64"
definition LXMF_MESSAGE_ID_LEN :: usize where "LXMF_MESSAGE_ID_LEN = 32"
definition LXMF_FIXED_HEADER_LEN :: usize where
  "LXMF_FIXED_HEADER_LEN = LXMF_DESTINATION_HASH_LEN + LXMF_SOURCE_HASH_LEN + LXMF_SIGNATURE_LEN"
definition LXMF_MESSAGE_MAX_LEN :: usize where "LXMF_MESSAGE_MAX_LEN = 4096"
definition LXMF_PAYLOAD_MAX_LEN :: usize where "LXMF_PAYLOAD_MAX_LEN = LXMF_MESSAGE_MAX_LEN - LXMF_FIXED_HEADER_LEN"
definition LXMF_MSGPACK_MAX_DEPTH :: usize where "LXMF_MSGPACK_MAX_DEPTH = 16"
definition LXMF_TITLE_MAX_LEN :: usize where "LXMF_TITLE_MAX_LEN = 2048"
definition LXMF_CONTENT_MAX_LEN :: usize where "LXMF_CONTENT_MAX_LEN = 2048"
definition LXMF_FIELDS_MAX_LEN :: usize where "LXMF_FIELDS_MAX_LEN = 1024"
definition LXMF_STAMP_MAX_LEN :: usize where "LXMF_STAMP_MAX_LEN = 128"
definition LXMF_PAYLOAD_ARRAY_LEN :: usize where "LXMF_PAYLOAD_ARRAY_LEN = 4"
definition LXMF_PAYLOAD_ARRAY_WITH_STAMP_LEN :: usize where "LXMF_PAYLOAD_ARRAY_WITH_STAMP_LEN = 5"

lemmas lxmf_constants = LXMF_DESTINATION_HASH_LEN_def LXMF_SOURCE_HASH_LEN_def LXMF_SIGNATURE_LEN_def
  LXMF_MESSAGE_ID_LEN_def LXMF_FIXED_HEADER_LEN_def LXMF_MESSAGE_MAX_LEN_def LXMF_PAYLOAD_MAX_LEN_def
  LXMF_MSGPACK_MAX_DEPTH_def LXMF_TITLE_MAX_LEN_def LXMF_CONTENT_MAX_LEN_def LXMF_FIELDS_MAX_LEN_def
  LXMF_STAMP_MAX_LEN_def LXMF_PAYLOAD_ARRAY_LEN_def LXMF_PAYLOAD_ARRAY_WITH_STAMP_LEN_def

datatype lxmf_error =
    LxMessageTooShort usize usize
  | LxMessageTooLarge usize usize
  | LxPayloadTooLarge usize usize
  | InvalidPayloadArrayLen usize
  | UnsupportedMsgpackType u8
  | MsgpackTruncated
  | MsgpackTrailingBytes
  | MsgpackDepthExceeded usize
  | InvalidTimestamp
  | TitleTooLarge usize usize
  | ContentTooLarge usize usize
  | FieldsTooLarge usize usize
  | StampTooLarge usize usize
  | LxOutputTooSmall usize usize

type_synonym f64 = u64

definition f64_is_finite :: "f64 \<Rightarrow> bool" where
  "f64_is_finite bits \<longleftrightarrow> drop_bit 52 bits AND 0x7FF \<noteq> 0x7FF"

record lxmf_payload =
  lp_timestamp_secs :: f64
  lp_title :: "u8 list"
  lp_content :: "u8 list"
  lp_fields :: "u8 list"
  lp_stamp :: "u8 list option"

record lxmf_message =
  lm_destination_hash :: "u8 list"
  lm_source_hash :: "u8 list"
  lm_signature :: "u8 list"
  lm_packed_payload :: "u8 list"
  lm_payload :: lxmf_payload

section \<open>MessagePack (msgpack.rs)\<close>

definition lx_read_slice :: "lxmf_error slice_read" where
  "lx_read_slice len c =
     (case checked_add (rc_index c) len of
        None \<Rightarrow> (Err (LxPayloadTooLarge len LXMF_PAYLOAD_MAX_LEN), c)
      | Some end_ix \<Rightarrow>
          if length (rc_input c) < end_ix then (Err MsgpackTruncated, c)
          else (case slice (rc_input c) (rc_index c) end_ix of
                  Ok bs \<Rightarrow> (Ok bs, c\<lparr>rc_index := end_ix\<rparr>)
                | Err err \<Rightarrow> (Err err, c)
                | Panic \<Rightarrow> (Panic, c)))"

definition lx_read_u8 :: "(read_cursor, u8, lxmf_error) stm" where
  "lx_read_u8 = cursor_u8 lx_read_slice"

definition lx_read_u16 :: "(read_cursor, u16, lxmf_error) stm" where
  "lx_read_u16 = cursor_u16 lx_read_slice"

definition lx_read_u32 :: "(read_cursor, u32, lxmf_error) stm" where
  "lx_read_u32 = cursor_u32 lx_read_slice"

definition lx_read_u64 :: "(read_cursor, u64, lxmf_error) stm" where
  "lx_read_u64 = cursor_u64 lx_read_slice"

definition read_u32_as_usize :: "(read_cursor, usize, lxmf_error) stm" where
  "read_u32_as_usize =
     sbind lx_read_u32 (\<lambda>v. let value = unat v in
       if usize_max < value then sthrow (LxPayloadTooLarge usize_max LXMF_PAYLOAD_MAX_LEN) else sret value)"

definition peek_u8 :: "(read_cursor, u8, lxmf_error) stm" where
  "peek_u8 c = (if rc_index c < length (rc_input c) then (Ok (rc_input c ! rc_index c), c) else (Err MsgpackTruncated, c))"

definition lx_finish :: "(read_cursor, unit, lxmf_error) stm" where
  "lx_finish c = (if rc_index c = length (rc_input c) then (Ok (), c) else (Err MsgpackTrailingBytes, c))"

definition read_array_len :: "(read_cursor, usize, lxmf_error) stm" where
  "read_array_len =
     sbind lx_read_u8 (\<lambda>marker.
       if 0x90 \<le> marker \<and> marker \<le> 0x9F then sret (unat (marker AND 0x0F))
       else if marker = 0xDC then sbind lx_read_u16 (\<lambda>n. sret (unat n))
       else if marker = 0xDD then read_u32_as_usize
       else sthrow (UnsupportedMsgpackType marker))"

definition read_float64 :: "(read_cursor, f64, lxmf_error) stm" where
  "read_float64 =
     sbind lx_read_u8 (\<lambda>marker.
       if marker \<noteq> 0xCB then sthrow (UnsupportedMsgpackType marker) else lx_read_u64)"

definition read_bin_or_str_len :: "u8 \<Rightarrow> (read_cursor, usize, lxmf_error) stm" where
  "read_bin_or_str_len marker =
     (if 0xA0 \<le> marker \<and> marker \<le> 0xBF then sret (unat (marker AND 0x1F))
      else if marker = 0xC4 \<or> marker = 0xD9 then sbind lx_read_u8 (\<lambda>n. sret (unat n))
      else if marker = 0xC5 \<or> marker = 0xDA then sbind lx_read_u16 (\<lambda>n. sret (unat n))
      else if marker = 0xC6 \<or> marker = 0xDB then read_u32_as_usize
      else sthrow (UnsupportedMsgpackType marker))"

definition read_bin_or_str_bytes :: "(read_cursor, u8 list, lxmf_error) stm" where
  "read_bin_or_str_bytes = sbind lx_read_u8 (\<lambda>marker. sbind (read_bin_or_str_len marker) lx_read_slice)"

definition skip_len :: "usize \<Rightarrow> (read_cursor, unit, lxmf_error) stm" where
  "skip_len len = sbind (lx_read_slice len) (\<lambda>_. sret ())"

definition skip_ext :: "usize \<Rightarrow> (read_cursor, unit, lxmf_error) stm" where
  "skip_ext len = sbind (skip_len 1) (\<lambda>_. skip_len len)"

text \<open>
  The loops over elements and pairs take the walker for the elements, one level deeper, as their
  argument.
\<close>

definition skip_array :: "(read_cursor, unit, lxmf_error) stm \<Rightarrow> usize \<Rightarrow> (read_cursor, unit, lxmf_error) stm" where
  "skip_array skip_element len = repeat_n len skip_element"

definition skip_map :: "(read_cursor, unit, lxmf_error) stm \<Rightarrow> usize \<Rightarrow> (read_cursor, unit, lxmf_error) stm" where
  "skip_map skip_element len = repeat_n len (sbind skip_element (\<lambda>_. skip_element))"

definition skip_marker :: "(read_cursor, unit, lxmf_error) stm \<Rightarrow> u8 \<Rightarrow> (read_cursor, unit, lxmf_error) stm" where
  "skip_marker skip_element marker =
     (if marker \<le> 0x7F \<or> 0xE0 \<le> marker \<or> marker = 0xC0 \<or> marker = 0xC2 \<or> marker = 0xC3 then sret ()
      else if 0x80 \<le> marker \<and> marker \<le> 0x8F then skip_map skip_element (unat (marker AND 0x0F))
      else if 0x90 \<le> marker \<and> marker \<le> 0x9F then skip_array skip_element (unat (marker AND 0x0F))
      else if 0xA0 \<le> marker \<and> marker \<le> 0xBF then skip_len (unat (marker AND 0x1F))
      else if marker = 0xC4 \<or> marker = 0xD9 then sbind lx_read_u8 (\<lambda>n. skip_len (unat n))
      else if marker = 0xC5 \<or> marker = 0xDA then sbind lx_read_u16 (\<lambda>n. skip_len (unat n))
      else if marker = 0xC6 \<or> marker = 0xDB then sbind read_u32_as_usize skip_len
      else if marker = 0xC7 then sbind lx_read_u8 (\<lambda>n. skip_ext (unat n))
      else if marker = 0xC8 then sbind lx_read_u16 (\<lambda>n. skip_ext (unat n))
      else if marker = 0xC9 then sbind read_u32_as_usize skip_ext
      else if marker = 0xCA \<or> marker = 0xCE \<or> marker = 0xD2 then skip_len 4
      else if marker = 0xCB \<or> marker = 0xCF \<or> marker = 0xD3 then skip_len 8
      else if marker = 0xCC \<or> marker = 0xD0 then skip_len 1
      else if marker = 0xCD \<or> marker = 0xD1 then skip_len 2
      else if marker = 0xD4 then skip_ext 1
      else if marker = 0xD5 then skip_ext 2
      else if marker = 0xD6 then skip_ext 4
      else if marker = 0xD7 then skip_ext 8
      else if marker = 0xD8 then skip_ext 16
      else if marker = 0xDC then sbind lx_read_u16 (\<lambda>n. skip_array skip_element (unat n))
      else if marker = 0xDD then sbind read_u32_as_usize (skip_array skip_element)
      else if marker = 0xDE then sbind lx_read_u16 (\<lambda>n. skip_map skip_element (unat n))
      else if marker = 0xDF then sbind read_u32_as_usize (skip_map skip_element)
      else sthrow (UnsupportedMsgpackType marker))"

function skip_value :: "usize \<Rightarrow> (read_cursor, unit, lxmf_error) stm" where
  "skip_value depth =
     (if LXMF_MSGPACK_MAX_DEPTH < depth then sthrow (MsgpackDepthExceeded LXMF_MSGPACK_MAX_DEPTH)
      else sbind lx_read_u8 (skip_marker (skip_value (depth + 1))))"
  by pat_completeness auto

termination
  by (relation "measure (\<lambda>depth. Suc LXMF_MSGPACK_MAX_DEPTH - depth)") auto

declare skip_value.simps [simp del]

definition is_map_marker :: "u8 \<Rightarrow> bool" where
  "is_map_marker marker \<longleftrightarrow> 0x80 \<le> marker \<and> marker \<le> 0x8F \<or> marker = 0xDE \<or> marker = 0xDF"

definition read_raw_value :: "(read_cursor, u8 list, lxmf_error) stm" where
  "read_raw_value c = sbind (skip_value 1) (\<lambda>_ c'. (slice (rc_input c') (rc_index c) (rc_index c'), c')) c"

definition read_raw_map :: "(read_cursor, u8 list, lxmf_error) stm" where
  "read_raw_map = sbind peek_u8 (\<lambda>marker.
     if \<not> is_map_marker marker then sthrow (UnsupportedMsgpackType marker) else read_raw_value)"

section \<open>Payloads (payload.rs)\<close>

definition read_stamp :: "usize \<Rightarrow> (read_cursor, u8 list option, lxmf_error) stm" where
  "read_stamp array_len =
     (if array_len = LXMF_PAYLOAD_ARRAY_WITH_STAMP_LEN then
        sbind read_raw_value (\<lambda>bytes.
          if LXMF_STAMP_MAX_LEN < length bytes then sthrow (StampTooLarge (length bytes) LXMF_STAMP_MAX_LEN)
          else sret (Some bytes))
      else sret None)"

definition read_lxmf_payload :: "(read_cursor, lxmf_payload, lxmf_error) stm" where
  "read_lxmf_payload =
     sbind read_array_len (\<lambda>array_len.
       if array_len \<noteq> LXMF_PAYLOAD_ARRAY_LEN \<and> array_len \<noteq> LXMF_PAYLOAD_ARRAY_WITH_STAMP_LEN
       then sthrow (InvalidPayloadArrayLen array_len) else
     sbind read_float64 (\<lambda>timestamp_secs.
       if \<not> f64_is_finite timestamp_secs then sthrow InvalidTimestamp else
     sbind read_bin_or_str_bytes (\<lambda>title.
       if LXMF_TITLE_MAX_LEN < length title then sthrow (TitleTooLarge (length title) LXMF_TITLE_MAX_LEN) else
     sbind read_bin_or_str_bytes (\<lambda>content.
       if LXMF_CONTENT_MAX_LEN < length content then sthrow (ContentTooLarge (length content) LXMF_CONTENT_MAX_LEN) else
     sbind read_raw_map (\<lambda>fields.
       if LXMF_FIELDS_MAX_LEN < length fields then sthrow (FieldsTooLarge (length fields) LXMF_FIELDS_MAX_LEN) else
     sbind (read_stamp array_len) (\<lambda>stamp.
       sret \<lparr>lp_timestamp_secs = timestamp_secs, lp_title = title, lp_content = content, lp_fields = fields,
             lp_stamp = stamp\<rparr>))))))"

definition decode_lxmf_payload :: "u8 list \<Rightarrow> (lxmf_payload, lxmf_error) result" where
  "decode_lxmf_payload input =
     (if LXMF_PAYLOAD_MAX_LEN < length input then Err (LxPayloadTooLarge (length input) LXMF_PAYLOAD_MAX_LEN)
      else fst (sbind read_lxmf_payload (\<lambda>p. sbind lx_finish (\<lambda>_. sret p)) (read_new input)))"

definition validate_raw_map :: "u8 list \<Rightarrow> (unit, lxmf_error) result" where
  "validate_raw_map input = fst (sbind read_raw_map (\<lambda>_. lx_finish) (read_new input))"

definition validate_payload_for_encode :: "lxmf_payload \<Rightarrow> (unit, lxmf_error) result" where
  "validate_payload_for_encode p =
     (if \<not> f64_is_finite (lp_timestamp_secs p) then Err InvalidTimestamp
      else if LXMF_TITLE_MAX_LEN < length (lp_title p) then Err (TitleTooLarge (length (lp_title p)) LXMF_TITLE_MAX_LEN)
      else if LXMF_CONTENT_MAX_LEN < length (lp_content p)
      then Err (ContentTooLarge (length (lp_content p)) LXMF_CONTENT_MAX_LEN)
      else rbind (validate_raw_map (lp_fields p)) (\<lambda>_.
        if LXMF_FIELDS_MAX_LEN < length (lp_fields p) then Err (FieldsTooLarge (length (lp_fields p)) LXMF_FIELDS_MAX_LEN)
        else case lp_stamp p of
          Some stamp \<Rightarrow> if LXMF_STAMP_MAX_LEN < length stamp then Err (StampTooLarge (length stamp) LXMF_STAMP_MAX_LEN) else Ok ()
        | None \<Rightarrow> Ok ()))"

definition bin_encoded_len :: "usize \<Rightarrow> usize" where
  "bin_encoded_len len = (if len \<le> 255 then 2 + len else 3 + len)"

definition lxmf_payload_encoded_len :: "lxmf_payload \<Rightarrow> (usize, lxmf_error) result" where
  "lxmf_payload_encoded_len p =
     rbind (validate_payload_for_encode p) (\<lambda>_.
     rbind (ok_or (LxPayloadTooLarge (length (lp_fields p)) LXMF_PAYLOAD_MAX_LEN)
       (Option.bind (checked_add 1 9) (\<lambda>len.
        Option.bind (checked_add len (bin_encoded_len (length (lp_title p)))) (\<lambda>len.
        Option.bind (checked_add len (bin_encoded_len (length (lp_content p)))) (\<lambda>len.
          checked_add len (length (lp_fields p))))))) (\<lambda>required.
       if LXMF_PAYLOAD_MAX_LEN < required then Err (LxPayloadTooLarge required LXMF_PAYLOAD_MAX_LEN) else Ok required))"

definition write_bin :: "u8 list \<Rightarrow> (write_cursor, unit, lxmf_error) stm" where
  "write_bin bytes =
     sbind (if length bytes \<le> 255 then sbind (write_u8 0xC4) (\<lambda>_. write_u8 (word_of_nat (length bytes)))
            else if length bytes \<le> 65535 then
              sbind (write_u8 0xC5) (\<lambda>_. write_array (u16_to_be_bytes (word_of_nat (length bytes))))
            else sthrow (LxPayloadTooLarge (length bytes) LXMF_PAYLOAD_MAX_LEN)) (\<lambda>_.
       write_array bytes)"

definition write_lxmf_payload :: "lxmf_payload \<Rightarrow> (write_cursor, unit, lxmf_error) stm" where
  "write_lxmf_payload p =
     sbind (write_u8 (0x90 OR word_of_nat LXMF_PAYLOAD_ARRAY_LEN)) (\<lambda>_.
     sbind (write_u8 0xCB) (\<lambda>_.
     sbind (write_array (u64_to_be_bytes (lp_timestamp_secs p))) (\<lambda>_.
     sbind (write_bin (lp_title p)) (\<lambda>_.
     sbind (write_bin (lp_content p)) (\<lambda>_.
       write_array (lp_fields p))))))"

definition encode_lxmf_payload :: "lxmf_payload \<Rightarrow> (u8 list, usize, lxmf_error) stm" where
  "encode_lxmf_payload p output =
     (case lxmf_payload_encoded_len p of
        Err err \<Rightarrow> (Err err, output)
      | Panic \<Rightarrow> (Panic, output)
      | Ok required \<Rightarrow>
          if length output < required then (Err (LxOutputTooSmall required (length output)), output)
          else (case write_lxmf_payload p (write_new output) of
                  (Ok _, c) \<Rightarrow> (Ok required, wc_output c)
                | (Err err, c) \<Rightarrow> (Err err, wc_output c)
                | (Panic, c) \<Rightarrow> (Panic, wc_output c)))"

section \<open>Messages (message.rs)\<close>

definition decode_lxmf_message :: "u8 list \<Rightarrow> (lxmf_message, lxmf_error) result" where
  "decode_lxmf_message input =
     (if length input < LXMF_FIXED_HEADER_LEN then Err (LxMessageTooShort (length input) LXMF_FIXED_HEADER_LEN)
      else if LXMF_MESSAGE_MAX_LEN < length input then Err (LxMessageTooLarge (length input) LXMF_MESSAGE_MAX_LEN)
      else
        rbind (slice_to input LXMF_DESTINATION_HASH_LEN) (\<lambda>destination_hash.
        let source_start = LXMF_DESTINATION_HASH_LEN; source_end = source_start + LXMF_SOURCE_HASH_LEN in
        rbind (slice input source_start source_end) (\<lambda>source_hash.
        let signature_end = source_end + LXMF_SIGNATURE_LEN in
        rbind (slice input source_end signature_end) (\<lambda>signature.
        rbind (slice_from input LXMF_FIXED_HEADER_LEN) (\<lambda>packed_payload.
        rbind (decode_lxmf_payload packed_payload) (\<lambda>payload.
          Ok \<lparr>lm_destination_hash = destination_hash, lm_source_hash = source_hash, lm_signature = signature,
              lm_packed_payload = packed_payload, lm_payload = payload\<rparr>))))))"

definition encode_lxmf_message ::
  "u8 list \<Rightarrow> u8 list \<Rightarrow> u8 list \<Rightarrow> lxmf_payload \<Rightarrow> (u8 list, usize, lxmf_error) stm" where
  "encode_lxmf_message destination source signature payload output =
     (case rbind (lxmf_payload_encoded_len payload) (\<lambda>payload_len.
           rbind (ok_or (LxMessageTooLarge payload_len LXMF_MESSAGE_MAX_LEN)
             (checked_add LXMF_FIXED_HEADER_LEN payload_len)) (\<lambda>required.
             if LXMF_MESSAGE_MAX_LEN < required then Err (LxMessageTooLarge required LXMF_MESSAGE_MAX_LEN)
             else if length output < required then Err (LxOutputTooSmall required (length output))
             else Ok required)) of
        Err err \<Rightarrow> (Err err, output)
      | Panic \<Rightarrow> (Panic, output)
      | Ok required \<Rightarrow>
          (let source_start = LXMF_DESTINATION_HASH_LEN; source_end = source_start + LXMF_SOURCE_HASH_LEN in
           sbind (write_at 0 destination) (\<lambda>_.
           sbind (write_at source_start source) (\<lambda>_.
           sbind (write_at source_end signature) (\<lambda>_.
           sbind (on_slice LXMF_FIXED_HEADER_LEN required (encode_lxmf_payload payload)) (\<lambda>written.
             sret (LXMF_FIXED_HEADER_LEN + written))))) output))"

section \<open>Message id and signature input (hash.rs)\<close>

datatype signing_payload = Original "u8 list" | CanonicalArray4 "u8 list list" usize

definition FIXED_ARRAY4_MARKER :: u8 where
  "FIXED_ARRAY4_MARKER = 0x90 OR word_of_nat LXMF_PAYLOAD_ARRAY_LEN"

fun canonical_array4_len_from :: "usize \<Rightarrow> u8 list list \<Rightarrow> (usize, lxmf_error) result" where
  "canonical_array4_len_from len [] = Ok len"
| "canonical_array4_len_from len (element # elements) =
     rbind (ok_or (LxPayloadTooLarge usize_max LXMF_PAYLOAD_MAX_LEN) (checked_add len (length element)))
       (\<lambda>len. canonical_array4_len_from len elements)"

definition canonical_array4_len :: "u8 list list \<Rightarrow> (usize, lxmf_error) result" where
  "canonical_array4_len elements = canonical_array4_len_from 1 elements"

definition read_signing_payload :: "u8 list \<Rightarrow> (read_cursor, signing_payload, lxmf_error) stm" where
  "read_signing_payload packed_payload =
     sbind read_array_len (\<lambda>array_len.
       if array_len = LXMF_PAYLOAD_ARRAY_LEN then
         sbind (repeat_n LXMF_PAYLOAD_ARRAY_LEN (sbind read_raw_value (\<lambda>_. sret ()))) (\<lambda>_.
         sbind lx_finish (\<lambda>_. sret (Original packed_payload)))
       else if array_len = LXMF_PAYLOAD_ARRAY_WITH_STAMP_LEN then
         sbind read_raw_value (\<lambda>timestamp.
         sbind read_raw_value (\<lambda>title.
         sbind read_raw_value (\<lambda>content.
         sbind read_raw_value (\<lambda>fields.
         sbind read_raw_value (\<lambda>_.
         sbind lx_finish (\<lambda>_.
         sbind (slift (canonical_array4_len [timestamp, title, content, fields])) (\<lambda>len.
           sret (CanonicalArray4 [timestamp, title, content, fields] len))))))))
       else sthrow (InvalidPayloadArrayLen array_len))"

definition signing_payload_parse :: "u8 list \<Rightarrow> (signing_payload, lxmf_error) result" where
  "signing_payload_parse packed_payload = fst (read_signing_payload packed_payload (read_new packed_payload))"

fun signing_payload_len :: "signing_payload \<Rightarrow> usize" where
  "signing_payload_len (Original bytes) = length bytes"
| "signing_payload_len (CanonicalArray4 elements len) = len"

text \<open>What \<open>update_hasher\<close> feeds to the hash and \<open>write_to\<close> to the output.\<close>

fun signing_bytes :: "signing_payload \<Rightarrow> u8 list" where
  "signing_bytes (Original bytes) = bytes"
| "signing_bytes (CanonicalArray4 elements len) = FIXED_ARRAY4_MARKER # concat elements"

definition message_id_with_signing_payload :: "crypto \<Rightarrow> lxmf_message \<Rightarrow> signing_payload \<Rightarrow> u8 list" where
  "message_id_with_signing_payload c m sp =
     cr_sha256 c (lm_destination_hash m @ lm_source_hash m @ signing_bytes sp)"

definition lxmf_message_id :: "crypto \<Rightarrow> lxmf_message \<Rightarrow> (u8 list, lxmf_error) result" where
  "lxmf_message_id c m =
     rbind (signing_payload_parse (lm_packed_payload m)) (\<lambda>sp. Ok (message_id_with_signing_payload c m sp))"

definition lxmf_signature_input_len :: "lxmf_message \<Rightarrow> (usize, lxmf_error) result" where
  "lxmf_signature_input_len m =
     rbind (signing_payload_parse (lm_packed_payload m)) (\<lambda>sp.
       Ok (LXMF_DESTINATION_HASH_LEN + LXMF_SOURCE_HASH_LEN + signing_payload_len sp + LXMF_MESSAGE_ID_LEN))"

definition write_signing_payload :: "signing_payload \<Rightarrow> (write_cursor, unit, lxmf_error) stm" where
  "write_signing_payload sp =
     (case sp of
        Original bytes \<Rightarrow> write_array bytes
      | CanonicalArray4 elements len \<Rightarrow>
          sbind (write_array [FIXED_ARRAY4_MARKER]) (\<lambda>_. foldr (\<lambda>element m. sbind (write_array element) (\<lambda>_. m)) elements (sret ())))"

definition write_lxmf_signature_input :: "crypto \<Rightarrow> lxmf_message \<Rightarrow> (u8 list, usize, lxmf_error) stm" where
  "write_lxmf_signature_input c m output =
     (case rbind (signing_payload_parse (lm_packed_payload m)) (\<lambda>sp.
           rbind (ok_or (LxOutputTooSmall usize_max (length output))
             (Option.bind (checked_add LXMF_DESTINATION_HASH_LEN LXMF_SOURCE_HASH_LEN) (\<lambda>len.
              Option.bind (checked_add len (signing_payload_len sp)) (\<lambda>len.
                checked_add len LXMF_MESSAGE_ID_LEN)))) (\<lambda>required.
             if length output < required then Err (LxOutputTooSmall required (length output)) else Ok (sp, required))) of
        Err err \<Rightarrow> (Err err, output)
      | Panic \<Rightarrow> (Panic, output)
      | Ok (sp, required) \<Rightarrow>
          (case (sbind (write_array (lm_destination_hash m)) (\<lambda>_.
                 sbind (write_array (lm_source_hash m)) (\<lambda>_.
                 sbind (write_signing_payload sp) (\<lambda>_.
                   write_array (message_id_with_signing_payload c m sp))))) (write_new output) of
             (Ok _, cur) \<Rightarrow> (Ok required, wc_output cur)
           | (Err err, cur) \<Rightarrow> (Err err, wc_output cur)
           | (Panic, cur) \<Rightarrow> (Panic, wc_output cur)))"

section \<open>Carriage in envelopes\<close>

datatype hyf_link_lxmf_error =
    LinkLxmf lxmf_error
  | LxmfHyfWire hyf_wire_error
  | LxmfWrongPayloadKind payload_kind

record lxmf_wrap_params =
  lxw_message_id :: message_id
  lxw_source_node :: node_id
  lxw_created_at_ms :: timestamp_ms
  lxw_expires_at_ms :: timestamp_ms
  lxw_hop_limit :: u8

definition validate_lxmf_message :: "u8 list \<Rightarrow> (lxmf_message, hyf_link_lxmf_error) result" where
  "validate_lxmf_message raw = map_err LinkLxmf (decode_lxmf_message raw)"

definition wrap_lxmf_message :: "u8 list \<Rightarrow> lxmf_wrap_params \<Rightarrow> (hyf_envelope, hyf_link_lxmf_error) result" where
  "wrap_lxmf_message raw params =
     rbind (validate_lxmf_message raw) (\<lambda>message.
       case endpoint_from_fixed_16 Lxmf (lm_destination_hash message) of
         Ok endpoint \<Rightarrow>
           (let envelope = \<lparr>env_version = HYF_WIRE_VERSION_0, env_message_id = lxw_message_id params,
                  env_source = lxw_source_node params, env_destination = Foreign endpoint,
                  env_created_at_ms = lxw_created_at_ms params, env_expires_at_ms = lxw_expires_at_ms params,
                  env_hop_limit = lxw_hop_limit params, env_payload_kind = ForeignLxmfMessage, env_payload = raw\<rparr>
            in rbind (map_err LxmfHyfWire (validate_envelope envelope)) (\<lambda>_. Ok envelope))
       | _ \<Rightarrow> Panic)"

definition unwrap_lxmf_message :: "hyf_envelope \<Rightarrow> (u8 list, hyf_link_lxmf_error) result" where
  "unwrap_lxmf_message envelope =
     rbind (map_err LxmfHyfWire (validate_envelope envelope)) (\<lambda>_.
       if env_payload_kind envelope \<noteq> ForeignLxmfMessage then Err (LxmfWrongPayloadKind (env_payload_kind envelope))
       else rbind (validate_lxmf_message (env_payload envelope)) (\<lambda>_. Ok (env_payload envelope)))"


section \<open>The MessagePack walker\<close>

interpretation lxmf: slice_reader lx_read_slice
  by unfold_locales (auto simp: lx_read_slice_def slice_def checked_add_def add.commute)

lemmas lx_reads = lxmf.slice_reads lxmf.u8_reads [folded lx_read_u8_def] lxmf.u16_reads [folded lx_read_u16_def]
  lxmf.u32_reads [folded lx_read_u32_def] lxmf.u64_reads [folded lx_read_u64_def]
lemmas lx_accepts = lxmf.slice_accepts lxmf.u8_accepts [folded lx_read_u8_def] lxmf.u16_accepts [folded lx_read_u16_def]
  lxmf.u32_accepts [folded lx_read_u32_def] lxmf.u64_accepts [folded lx_read_u64_def]
lemmas lx_safe = lxmf.slice_safe lxmf.u8_safe [folded lx_read_u8_def] lxmf.u16_safe [folded lx_read_u16_def]
  lxmf.u32_safe [folded lx_read_u32_def] lxmf.u64_safe [folded lx_read_u64_def]
lemmas lx_local = lxmf.slice_local lxmf.u8_local [folded lx_read_u8_def] lxmf.u16_local [folded lx_read_u16_def]
  lxmf.u32_local [folded lx_read_u32_def] lxmf.u64_local [folded lx_read_u64_def]

lemma u32_as_usize_eq: "read_u32_as_usize = sbind lx_read_u32 (\<lambda>v. sret (unat v))"
proof -
  have "unat (v :: u32) \<le> usize_max" for v
    using unsigned_less [of v, where ?'a = nat] by (simp add: usize_max_def)
  then show ?thesis by (simp add: read_u32_as_usize_def Let_def not_less [symmetric])
qed

lemma skip_marker_local:
  assumes "local_reader se"
  shows "local_reader (skip_marker se marker)"
  unfolding skip_marker_def skip_map_def skip_array_def skip_ext_def skip_len_def u32_as_usize_eq
  by (intro local_if local_bind local_ret local_throw local_repeat lx_local assms)

lemma skip_marker_safe:
  assumes "safe se"
  shows "safe (skip_marker se marker)"
  unfolding skip_marker_def skip_map_def skip_array_def skip_ext_def skip_len_def u32_as_usize_eq
  by (intro safe_if safe_bind safe_ret safe_throw safe_repeat lx_safe assms)

lemma skip_value_local: "local_reader (skip_value depth)"
  by (induction depth rule: skip_value.induct)
    (subst skip_value.simps, auto intro!: local_throw local_bind lx_local skip_marker_local)

lemma skip_value_safe: "safe (skip_value depth)"
  by (induction depth rule: skip_value.induct)
    (subst skip_value.simps, auto intro!: safe_throw safe_bind lx_safe skip_marker_safe)

text \<open>A byte string is one MessagePack value when the walker passes over it.\<close>

definition msgpack_value :: "u8 list \<Rightarrow> bool" where
  "msgpack_value bs \<longleftrightarrow> reads (skip_value 1) bs ()"

lemma skip_value_1: "skip_value 1 = sbind lx_read_u8 (skip_marker (skip_value 2))"
  by (subst skip_value.simps) (simp add: LXMF_MSGPACK_MAX_DEPTH_def numeral_2_eq_2)

lemma msgpack_value_Cons: "reads (skip_marker (skip_value 2) marker) bs () \<Longrightarrow> msgpack_value (marker # bs)"
  unfolding msgpack_value_def skip_value_1 by (rule reads_bind_Cons [OF lx_reads(2)])

lemma msgpack_value_nonempty: "msgpack_value bs \<Longrightarrow> bs \<noteq> []"
proof
  assume "msgpack_value bs" "bs = []"
  then have "skip_value 1 (rcur [] []) = (Ok (), rcur [] [])"
    using reads_run [of "skip_value 1" "[]" "()"] by (simp add: msgpack_value_def)
  moreover have "lx_read_u8 (rcur [] []) = (Err MsgpackTruncated, rcur [] [])"
    by (simp add: lx_read_u8_def cursor_u8_def sbind_def lx_read_slice_def rcur_def checked_add_def usize_max_def)
  ultimately show False unfolding skip_value_1 by (simp add: sbind_def)
qed

lemma reads_raw_value: "msgpack_value bs \<Longrightarrow> reads read_raw_value bs bs"
  by (simp add: msgpack_value_def reads_def read_raw_value_def sbind_def slice_def rcur_def)

lemma accepts_raw_value: "accepts read_raw_value (\<lambda>a bs. a = bs \<and> msgpack_value bs)"
  unfolding accepts_def
proof (intro allI impI)
  fix pre inp a c
  assume run: "read_raw_value (rcur pre inp) = (Ok a, c)"
  then have skip: "skip_value 1 (rcur pre inp) = (Ok (), c)"
    by (auto simp: read_raw_value_def sbind_eq_Ok)
  obtain bs rest where bs: "inp = bs @ rest" "c = rcur (pre @ bs) rest" "reads (skip_value 1) bs ()"
    by (rule local_reads [OF skip_value_local skip])
  from run skip bs(2) have "a = bs"
    by (auto simp: read_raw_value_def sbind_def slice_def rcur_def split: if_splits)
  with bs show "\<exists>bs rest. inp = bs @ rest \<and> c = rcur (pre @ bs) rest \<and> a = bs \<and> msgpack_value bs"
    unfolding msgpack_value_def by blast
qed

lemma skip_value_advances:
  assumes "in_range c" "skip_value d c = (Ok (), c')"
  shows "rc_input c' = rc_input c \<and> rc_index c \<le> rc_index c' \<and> rc_index c' \<le> length (rc_input c)"
proof -
  have c: "c = rcur (take (rc_index c) (rc_input c)) (drop (rc_index c) (rc_input c))"
    using assms(1) by (simp add: rcur_def in_range_def)
  obtain bs rest where bs: "drop (rc_index c) (rc_input c) = bs @ rest" "c' = rcur (take (rc_index c) (rc_input c) @ bs) rest"
    using local_reads [OF skip_value_local, of d] assms(2) c by metis
  have "rc_input c = take (rc_index c) (rc_input c) @ bs @ rest" unfolding bs(1) [symmetric] by simp
  with bs(2) assms(1) show ?thesis
    by (metis in_range_def length_append length_take min_absorb2 le_add1 rcur_def append_assoc
        read_cursor.select_convs)
qed

lemma safe_raw_value: "safe read_raw_value"
  unfolding safe_def
proof (intro allI impI)
  fix c assume c: "in_range c"
  show "fst (read_raw_value c) \<noteq> Panic \<and> in_range (snd (read_raw_value c))"
  proof (cases "skip_value 1 c")
    case (Pair r c')
    with c skip_value_safe [of 1] have "r \<noteq> Panic" "in_range c'" by (auto simp: safe_def)
    with Pair skip_value_advances [OF c, of 1 c'] show ?thesis
      by (cases r) (auto simp: read_raw_value_def sbind_def slice_def)
  qed
qed

text \<open>A raw map is a value that starts with a map marker.\<close>

definition msgpack_map :: "u8 list \<Rightarrow> bool" where
  "msgpack_map bs \<longleftrightarrow> msgpack_value bs \<and> is_map_marker (hd bs)"

lemma reads_raw_map: "msgpack_map bs \<Longrightarrow> reads read_raw_map bs bs"
  using msgpack_value_nonempty [of bs] reads_raw_value [of bs]
  by (auto simp: msgpack_map_def reads_def read_raw_map_def sbind_def peek_u8_def rcur_def nth_append hd_append2 hd_conv_nth)

lemma accepts_raw_map: "accepts read_raw_map (\<lambda>a bs. a = bs \<and> msgpack_map bs)"
  unfolding accepts_def
proof (intro allI impI)
  fix pre inp a c
  assume run: "read_raw_map (rcur pre inp) = (Ok a, c)"
  then have inp: "inp \<noteq> []" and hd: "is_map_marker (hd inp)" and raw: "read_raw_value (rcur pre inp) = (Ok a, c)"
    by (auto simp: read_raw_map_def sbind_eq_Ok peek_u8_def rcur_def nth_append hd_conv_nth split: if_splits)
  from raw accepts_raw_value obtain bs rest where bs: "inp = bs @ rest" "c = rcur (pre @ bs) rest" "a = bs" "msgpack_value bs"
    unfolding accepts_def by blast
  with hd msgpack_value_nonempty [of bs] show "\<exists>bs rest. inp = bs @ rest \<and> c = rcur (pre @ bs) rest \<and> a = bs \<and> msgpack_map bs"
    by (auto simp: msgpack_map_def)
qed

lemma safe_raw_map: "safe read_raw_map"
proof -
  have "safe peek_u8" by (auto simp: safe_def peek_u8_def)
  then show ?thesis
    unfolding read_raw_map_def by (intro safe_bind safe_if safe_throw safe_raw_value)
qed

section \<open>Payloads\<close>

definition bin_bytes :: "u8 list \<Rightarrow> u8 list" where
  "bin_bytes bs =
     (if length bs \<le> 255 then [0xC4, word_of_nat (length bs)] else 0xC5 # u16_to_be_bytes (word_of_nat (length bs))) @ bs"

definition lxmf_payload_bytes :: "lxmf_payload \<Rightarrow> u8 list" where
  "lxmf_payload_bytes p =
     0x94 # 0xCB # u64_to_be_bytes (lp_timestamp_secs p) @ bin_bytes (lp_title p) @ bin_bytes (lp_content p) @ lp_fields p"

text \<open>The limits every decoded payload is within.\<close>

definition lxmf_payload_ok :: "lxmf_payload \<Rightarrow> bool" where
  "lxmf_payload_ok p \<longleftrightarrow> f64_is_finite (lp_timestamp_secs p) \<and> length (lp_title p) \<le> 2048 \<and> length (lp_content p) \<le> 2048 \<and>
     msgpack_map (lp_fields p) \<and> length (lp_fields p) \<le> 1024 \<and>
     (\<forall>stamp. lp_stamp p = Some stamp \<longrightarrow> length stamp \<le> 128)"

lemma length_bin_bytes: "length (bin_bytes bs) = bin_encoded_len (length bs)"
  by (simp add: bin_bytes_def bin_encoded_len_def)

lemma writes_bin:
  assumes "length bs \<le> 65535"
  shows "writes (write_bin bs) (bin_bytes bs)"
proof -
  have "writes (write_bin bs) ([0xC4, word_of_nat (length bs)] @ bs)" if "length bs \<le> 255"
    using that unfolding write_bin_def
    by (auto simp del: append_Cons intro!: writes_bind writes_bind_Cons writes_u8 writes_array)
  moreover have "writes (write_bin bs) ((0xC5 # u16_to_be_bytes (word_of_nat (length bs))) @ bs)" if "\<not> length bs \<le> 255"
    using that assms unfolding write_bin_def
    by (auto simp del: append_Cons intro!: writes_bind writes_bind_Cons writes_u8 writes_array)
  ultimately show ?thesis by (simp add: bin_bytes_def)
qed

lemma reads_bin:
  assumes "length bs \<le> 65535"
  shows "reads read_bin_or_str_bytes (bin_bytes bs) bs"
proof (cases "length bs \<le> 255")
  case True
  have "reads (sbind lx_read_u8 (\<lambda>n. sret (unat n))) ([word_of_nat (length bs)] @ []) (unat (word_of_nat (length bs) :: u8))"
    by (rule reads_bind [OF lx_reads(2) reads_ret])
  with True have "reads (read_bin_or_str_len 0xC4) [word_of_nat (length bs)] (length bs)"
    by (simp add: read_bin_or_str_len_def unat_of_nat)
  with True show ?thesis
    by (auto simp: bin_bytes_def read_bin_or_str_bytes_def intro!: reads_bind_Cons lx_reads)
next
  case False
  have "reads (sbind lx_read_u16 (\<lambda>n. sret (unat n))) (u16_to_be_bytes (word_of_nat (length bs)) @ []) (unat (word_of_nat (length bs) :: u16))"
    by (rule reads_bind [OF lx_reads(3) reads_ret])
  with assms have "reads (read_bin_or_str_len 0xC5) (u16_to_be_bytes (word_of_nat (length bs))) (length bs)"
    by (simp add: read_bin_or_str_len_def unat_of_nat)
  with False show ?thesis
    by (auto simp: bin_bytes_def read_bin_or_str_bytes_def intro!: reads_bind_Cons reads_bind lx_reads)
qed

lemma writes_lxmf_payload:
  assumes "length (lp_title p) \<le> 65535" "length (lp_content p) \<le> 65535"
  shows "writes (write_lxmf_payload p) (lxmf_payload_bytes p)"
  using assms unfolding write_lxmf_payload_def lxmf_payload_bytes_def LXMF_PAYLOAD_ARRAY_LEN_def
  by (auto intro!: writes_bind writes_bind_Cons writes_u8 writes_array writes_bin)

lemma reads_array4: "reads read_array_len [0x94] 4"
proof -
  have "reads read_array_len ([0x94] @ []) 4"
    unfolding read_array_len_def by (rule reads_bind [OF lx_reads(2)]) (simp add: reads_ret)
  then show ?thesis by simp
qed

lemma reads_float64: "reads read_float64 (0xCB # u64_to_be_bytes x) x"
  unfolding read_float64_def by (rule reads_bind_Cons [OF lx_reads(2)]) (simp add: lx_reads)

text \<open>
  The parts of a packed payload. The decoder takes several forms of each part (a binary or a string
  of any length class); the parts of a decoded payload are values for the walker too.
\<close>

definition payload_parts ::
  "lxmf_payload \<Rightarrow> u8 list \<Rightarrow> u8 list \<Rightarrow> u8 list \<Rightarrow> u8 list \<Rightarrow> u8 list \<Rightarrow> bool" where
  "payload_parts p hdr t ti co st \<longleftrightarrow>
     reads read_array_len hdr (case lp_stamp p of None \<Rightarrow> 4 | Some _ \<Rightarrow> 5) \<and>
     reads read_float64 t (lp_timestamp_secs p) \<and> msgpack_value t \<and>
     reads read_bin_or_str_bytes ti (lp_title p) \<and> msgpack_value ti \<and>
     reads read_bin_or_str_bytes co (lp_content p) \<and> msgpack_value co \<and>
     st = (case lp_stamp p of None \<Rightarrow> [] | Some stamp \<Rightarrow> stamp) \<and> (lp_stamp p \<noteq> None \<longrightarrow> msgpack_value st)"

lemma reads_payload_parts:
  assumes ok: "lxmf_payload_ok p" and p: "lp_stamp p = None"
    and parts: "reads read_array_len hdr 4" "reads read_float64 t (lp_timestamp_secs p)"
      "reads read_bin_or_str_bytes ti (lp_title p)" "reads read_bin_or_str_bytes co (lp_content p)"
  shows "reads read_lxmf_payload (hdr @ t @ ti @ co @ lp_fields p) p"
proof -
  have lim: "f64_is_finite (lp_timestamp_secs p)" "length (lp_title p) \<le> 2048" "length (lp_content p) \<le> 2048"
    "length (lp_fields p) \<le> 1024" and fields: "reads read_raw_map (lp_fields p) (lp_fields p)"
    using ok reads_raw_map by (simp_all add: lxmf_payload_ok_def)
  have "reads read_lxmf_payload (hdr @ t @ ti @ co @ lp_fields p @ []) (p\<lparr>lp_stamp := None\<rparr>)"
    unfolding read_lxmf_payload_def
    apply (rule reads_bind [OF parts(1)], subst if_not_P, simp add: lxmf_constants)
    apply (rule reads_bind [OF parts(2)], subst if_not_P, simp add: lim)
    apply (rule reads_bind [OF parts(3)], subst if_not_P, simp add: lim lxmf_constants not_less)
    apply (rule reads_bind [OF parts(4)], subst if_not_P, simp add: lim lxmf_constants not_less)
    apply (rule reads_bind [OF fields], subst if_not_P, simp add: lim lxmf_constants not_less)
    by (simp add: read_stamp_def lxmf_constants reads_def sbind_def sret_def)
  with p show ?thesis by (cases p) simp
qed

lemma reads_lxmf_payload:
  assumes "lxmf_payload_ok p"
  shows "reads read_lxmf_payload (lxmf_payload_bytes p) (p\<lparr>lp_stamp := None\<rparr>)"
proof -
  have "reads read_lxmf_payload ([0x94] @ (0xCB # u64_to_be_bytes (lp_timestamp_secs p)) @ bin_bytes (lp_title p) @
      bin_bytes (lp_content p) @ lp_fields (p\<lparr>lp_stamp := None\<rparr>)) (p\<lparr>lp_stamp := None\<rparr>)"
    by (rule reads_payload_parts) (use assms in \<open>auto simp: lxmf_payload_ok_def intro!: reads_array4 reads_float64 reads_bin\<close>)
  then show ?thesis by (simp add: lxmf_payload_bytes_def)
qed

lemma float64_value: "accepts read_float64 (\<lambda>x bs. reads read_float64 bs x \<and> msgpack_value bs)"
proof -
  have "reads (skip_marker (skip_value 2) 0xCB) (u64_to_be_bytes x @ []) ()" for x
    unfolding skip_marker_def by (simp add: skip_len_def del: append_Nil2) (rule reads_bind [OF lx_reads(1) reads_ret], simp)
  then have "msgpack_value (0xCB # u64_to_be_bytes x)" for x by (intro msgpack_value_Cons) simp
  moreover have "accepts read_float64 (\<lambda>x bs. bs = 0xCB # u64_to_be_bytes x)"
    unfolding read_float64_def
    by (rule accepts_mono [OF accepts_bind [OF lx_accepts(2) accepts_guard [OF lx_accepts(5)]]]) auto
  ultimately show ?thesis by (auto intro: accepts_mono reads_float64)
qed

lemma skip_marker_str: "0xA0 \<le> marker \<Longrightarrow> marker \<le> 0xBF \<Longrightarrow> skip_marker se marker = skip_len (unat (marker AND 0x1F))"
proof -
  assume m: "0xA0 \<le> marker" "marker \<le> 0xBF"
  then have "\<not> marker \<le> 0x7F" "\<not> 0xE0 \<le> marker" "\<not> marker \<le> 0x8F" "\<not> marker \<le> 0x9F"
    "marker \<noteq> 0xC0" "marker \<noteq> 0xC2" "marker \<noteq> 0xC3" by (auto simp: word_le_nat_alt)
  with m show ?thesis by (simp add: skip_marker_def)
qed

lemma skip_marker_sized:
  "marker \<in> {0xC4, 0xD9} \<Longrightarrow> skip_marker se marker = sbind lx_read_u8 (\<lambda>n. skip_len (unat n))"
  "marker \<in> {0xC5, 0xDA} \<Longrightarrow> skip_marker se marker = sbind lx_read_u16 (\<lambda>n. skip_len (unat n))"
  "marker \<in> {0xC6, 0xDB} \<Longrightarrow> skip_marker se marker = sbind lx_read_u32 (\<lambda>n. skip_len (unat n))"
  by (elim insertE emptyE; simp add: skip_marker_def u32_as_usize_eq sbind_sret)+

lemma bin_or_str_len_skip:
  "accepts (read_bin_or_str_len marker) (\<lambda>n bs. \<forall>data. length data = n \<longrightarrow> reads (skip_marker se marker) (bs @ data) ())"
proof -
  have skip: "reads (skip_len n) data ()" if "length data = n" for n data
    using reads_bind [OF lx_reads(1) [OF that] reads_ret, of "\<lambda>_. ()"] by (simp add: skip_len_def)
  have u8: "accepts (sbind lx_read_u8 (\<lambda>n. sret (unat n)))
      (\<lambda>n bs. \<forall>data. length data = n \<longrightarrow> reads (sbind lx_read_u8 (\<lambda>n. skip_len (unat n))) (bs @ data) ())"
    by (rule accepts_mono [OF accepts_bind [OF lx_accepts(2) accepts_ret]]) (auto intro!: reads_bind_Cons [OF lx_reads(2)] simp: skip)
  have u16: "accepts (sbind lx_read_u16 (\<lambda>n. sret (unat n)))
      (\<lambda>n bs. \<forall>data. length data = n \<longrightarrow> reads (sbind lx_read_u16 (\<lambda>n. skip_len (unat n))) (bs @ data) ())"
    by (rule accepts_mono [OF accepts_bind [OF lx_accepts(3) accepts_ret]]) (auto intro!: reads_bind [OF lx_reads(3)] simp: skip)
  have u32: "accepts (sbind lx_read_u32 (\<lambda>n. sret (unat n)))
      (\<lambda>n bs. \<forall>data. length data = n \<longrightarrow> reads (sbind lx_read_u32 (\<lambda>n. skip_len (unat n))) (bs @ data) ())"
    by (rule accepts_mono [OF accepts_bind [OF lx_accepts(4) accepts_ret]]) (auto intro!: reads_bind [OF lx_reads(4)] simp: skip)
  have fixed: "accepts (sret n) (\<lambda>n bs. \<forall>data. length data = n \<longrightarrow> reads (skip_len n) (bs @ data) ())" for n
    by (rule accepts_mono [OF accepts_ret]) (auto simp: skip)
  consider "0xA0 \<le> marker \<and> marker \<le> 0xBF" | "marker \<in> {0xC4, 0xD9}" | "marker \<in> {0xC5, 0xDA}" | "marker \<in> {0xC6, 0xDB}"
    | "\<not> (0xA0 \<le> marker \<and> marker \<le> 0xBF)" "marker \<notin> {0xC4, 0xD9, 0xC5, 0xDA, 0xC6, 0xDB}"
    by blast
  then show ?thesis
  proof cases
    case 1
    then show ?thesis using fixed [of "unat (marker AND 0x1F)"]
      by (auto simp: read_bin_or_str_len_def skip_marker_str accepts_def)
  next
    case 2
    then show ?thesis using u8 by (auto simp: read_bin_or_str_len_def skip_marker_sized)
  next
    case 3
    then show ?thesis using u16 by (auto simp: read_bin_or_str_len_def skip_marker_sized)
  next
    case 4
    then show ?thesis using u32 by (auto simp: read_bin_or_str_len_def skip_marker_sized u32_as_usize_eq)
  next
    case 5
    then have "read_bin_or_str_len marker = sthrow (UnsupportedMsgpackType marker)"
      by (auto simp: read_bin_or_str_len_def)
    then show ?thesis by (simp add: accepts_throw)
  qed
qed

lemma bin_or_str_value: "accepts read_bin_or_str_bytes (\<lambda>a bs. reads read_bin_or_str_bytes bs a \<and> msgpack_value bs)"
proof -
  have "accepts read_bin_or_str_bytes (\<lambda>a bs. msgpack_value bs)"
    unfolding read_bin_or_str_bytes_def
    by (rule accepts_mono, rule accepts_bind [OF lx_accepts(2) accepts_bind [OF bin_or_str_len_skip lx_accepts(1)]])
      (auto intro!: msgpack_value_Cons)
  moreover have "local_reader read_bin_or_str_bytes"
    unfolding read_bin_or_str_bytes_def read_bin_or_str_len_def u32_as_usize_eq
    by (intro local_bind local_if local_throw local_ret lx_local)
  ultimately show ?thesis unfolding local_reader_def by (rule accepts_both [rotated])
qed

lemma safe_array_len: "safe read_array_len" and safe_float64: "safe read_float64"
  and safe_bin_or_str: "safe read_bin_or_str_bytes"
  unfolding read_array_len_def read_float64_def read_bin_or_str_bytes_def read_bin_or_str_len_def u32_as_usize_eq
  by (intro safe_bind safe_if safe_throw safe_ret lx_safe)+

lemma safe_lxmf_payload: "safe read_lxmf_payload"
  unfolding read_lxmf_payload_def read_stamp_def
  by (intro safe_bind safe_if safe_throw safe_ret safe_array_len safe_float64 safe_bin_or_str safe_raw_map safe_raw_value)

lemma safe_lx_finish: "safe lx_finish"
  by (auto simp: safe_def lx_finish_def)

lemma safe_run: "safe m \<Longrightarrow> fst (m (read_new input)) \<noteq> Panic"
  by (simp add: safe_def in_range_def read_new_def)

lemma decode_lxmf_payload_no_panic [simp]: "decode_lxmf_payload input \<noteq> Panic"
proof -
  have "safe (sbind read_lxmf_payload (\<lambda>p. sbind lx_finish (\<lambda>_. sret p)))"
    by (intro safe_bind safe_lxmf_payload safe_lx_finish safe_ret)
  from safe_run [OF this] show ?thesis by (simp add: decode_lxmf_payload_def)
qed

lemma decode_lxmf_payload_bytes:
  assumes "lxmf_payload_ok p" and "length (lxmf_payload_bytes p) \<le> 4000"
  shows "decode_lxmf_payload (lxmf_payload_bytes p) = Ok (p\<lparr>lp_stamp := None\<rparr>)"
  using reads_run [OF reads_lxmf_payload [OF assms(1)]] assms(2)
  by (simp add: decode_lxmf_payload_def lxmf_constants usize_max_def read_new_def rcur_def sbind_def lx_finish_def sret_def)

lemma raw_map_validation:
  "validate_raw_map bs \<noteq> Panic" "length bs \<le> usize_max \<Longrightarrow> validate_raw_map bs = Ok () \<longleftrightarrow> msgpack_map bs"
proof -
  have "safe (sbind read_raw_map (\<lambda>_. lx_finish))" by (intro safe_bind safe_raw_map safe_lx_finish)
  from safe_run [OF this] show "validate_raw_map bs \<noteq> Panic" by (simp add: validate_raw_map_def)
next
  assume len: "length bs \<le> usize_max"
  show "validate_raw_map bs = Ok () \<longleftrightarrow> msgpack_map bs"
  proof
    assume "validate_raw_map bs = Ok ()"
    then obtain a c where "read_raw_map (rcur [] bs) = (Ok a, c)" "rc_index c = length (rc_input c)"
      by (auto simp: validate_raw_map_def fst_eq_ex sbind_eq_Ok lx_finish_def read_new_def rcur_def split: if_splits)
    moreover from this(1) accepts_raw_map obtain cs rest where "bs = cs @ rest" "c = rcur ([] @ cs) rest" "msgpack_map cs"
      unfolding accepts_def by blast
    ultimately show "msgpack_map bs" by (simp add: rcur_def)
  next
    assume "msgpack_map bs"
    from reads_run [OF reads_raw_map [OF this] len] show "validate_raw_map bs = Ok ()"
      by (simp add: validate_raw_map_def sbind_def read_new_def rcur_def lx_finish_def)
  qed
qed

lemma validate_payload_iff:
  assumes "length (lp_fields p) \<le> usize_max"
  shows "validate_payload_for_encode p \<noteq> Panic" "validate_payload_for_encode p = Ok () \<longleftrightarrow> lxmf_payload_ok p"
  using raw_map_validation [of "lp_fields p"] assms
  by (auto simp: validate_payload_for_encode_def lxmf_payload_ok_def lxmf_constants rbind_eq_Panic split: option.splits)

lemma lxmf_payload_encoded_len_iff:
  assumes "length (lp_fields p) \<le> usize_max"
  shows "lxmf_payload_encoded_len p \<noteq> Panic"
    "lxmf_payload_encoded_len p = Ok n \<longleftrightarrow>
       lxmf_payload_ok p \<and> n = length (lxmf_payload_bytes p) \<and> length (lxmf_payload_bytes p) \<le> 4000"
proof -
  have len: "length (lxmf_payload_bytes p) = 10 + bin_encoded_len (length (lp_title p)) + bin_encoded_len (length (lp_content p)) + length (lp_fields p)"
    by (simp add: lxmf_payload_bytes_def length_bin_bytes)
  show "lxmf_payload_encoded_len p \<noteq> Panic"
    using validate_payload_iff [OF assms]
    by (auto simp: lxmf_payload_encoded_len_def rbind_eq_Panic checked_add_def)
  have "lxmf_payload_encoded_len p = (if length (lxmf_payload_bytes p) \<le> 4000 then Ok (length (lxmf_payload_bytes p))
      else Err (LxPayloadTooLarge (length (lxmf_payload_bytes p)) 4000))" if "lxmf_payload_ok p"
    using that validate_payload_iff(2) [OF assms] unfolding len
    by (auto simp: lxmf_payload_encoded_len_def checked_add_def usize_max_def bin_encoded_len_def lxmf_constants lxmf_payload_ok_def)
  then show "lxmf_payload_encoded_len p = Ok n \<longleftrightarrow>
       lxmf_payload_ok p \<and> n = length (lxmf_payload_bytes p) \<and> length (lxmf_payload_bytes p) \<le> 4000"
    using validate_payload_iff(2) [OF assms]
    by (cases "lxmf_payload_ok p") (auto simp: lxmf_payload_encoded_len_def)
qed

lemma accepts_stamp:
  "array_len = 4 \<or> array_len = 5 \<Longrightarrow> accepts (read_stamp array_len)
     (\<lambda>x bs. array_len = (case x of None \<Rightarrow> 4 | Some _ \<Rightarrow> 5) \<and> bs = (case x of None \<Rightarrow> [] | Some stamp \<Rightarrow> stamp) \<and>
        (x \<noteq> None \<longrightarrow> msgpack_value bs) \<and> (\<forall>stamp. x = Some stamp \<longrightarrow> length stamp \<le> 128))"
proof -
  assume "array_len = 4 \<or> array_len = 5"
  moreover have "accepts (sbind read_raw_value (\<lambda>bytes.
        if LXMF_STAMP_MAX_LEN < length bytes then sthrow (StampTooLarge (length bytes) LXMF_STAMP_MAX_LEN) else sret (Some bytes)))
      (\<lambda>x bs. x = Some bs \<and> msgpack_value bs \<and> length bs \<le> 128)"
    by (rule accepts_mono [OF accepts_bind [OF accepts_raw_value accepts_guard [OF accepts_ret]]]) (auto simp: lxmf_constants)
  ultimately show ?thesis
    by (auto simp: read_stamp_def lxmf_constants elim!: accepts_mono intro: accepts_mono [OF accepts_ret])
qed

lemma accepts_array_len: "accepts read_array_len (\<lambda>n bs. reads read_array_len bs n)"
proof -
  have "local_reader read_array_len"
    unfolding read_array_len_def u32_as_usize_eq by (intro local_bind local_if local_throw local_ret lx_local)
  then show ?thesis by (simp add: local_reader_def)
qed

lemma accepts_lxmf_payload:
  "accepts read_lxmf_payload (\<lambda>p bs. lxmf_payload_ok p \<and>
     (\<exists>hdr t ti co st. bs = hdr @ t @ ti @ co @ lp_fields p @ st \<and> payload_parts p hdr t ti co st))"
proof -
  have stamp: "accepts (read_stamp n) (\<lambda>x bs. n = 4 \<or> n = 5 \<longrightarrow> n = (case x of None \<Rightarrow> 4 | Some _ \<Rightarrow> 5) \<and>
      bs = (case x of None \<Rightarrow> [] | Some stamp \<Rightarrow> stamp) \<and>
      (x \<noteq> None \<longrightarrow> msgpack_value bs) \<and> (\<forall>stamp. x = Some stamp \<longrightarrow> length stamp \<le> 128))" for n
  proof (cases "n = 4 \<or> n = 5")
    case False
    then show ?thesis by (auto simp: read_stamp_def lxmf_constants intro: accepts_mono [OF accepts_ret])
  qed (auto intro: accepts_mono [OF accepts_stamp])
  show ?thesis
    unfolding read_lxmf_payload_def
    apply (rule accepts_mono)
     apply (rule accepts_bind accepts_guard accepts_array_len float64_value bin_or_str_value accepts_raw_map stamp accepts_ret)+
    apply (clarsimp simp: lxmf_constants not_less)
    subgoal for n hdr ts t title ti content co fields st stamp
      apply (rule conjI)
       apply (auto simp: lxmf_payload_ok_def) [1]
      apply (intro exI conjI, rule refl)
      apply (cases stamp; auto simp: payload_parts_def)
      done
    done
qed

lemma decode_lxmf_payload_Ok:
  assumes "decode_lxmf_payload packed = Ok p"
  shows "length packed \<le> 4000 \<and> lxmf_payload_ok p \<and>
    (\<exists>hdr t ti co st. packed = hdr @ t @ ti @ co @ lp_fields p @ st \<and> payload_parts p hdr t ti co st)"
proof -
  from assms obtain c where len: "length packed \<le> 4000" and run: "read_lxmf_payload (rcur [] packed) = (Ok p, c)"
    and c: "rc_index c = length (rc_input c)"
    by (auto simp: decode_lxmf_payload_def fst_eq_ex sbind_eq_Ok lx_finish_def read_new_def rcur_def lxmf_constants split: if_splits)
  from accepts_lxmf_payload run show ?thesis
  proof (rule accepts_run)
    fix bs rest
    assume "packed = bs @ rest" "c = rcur ([] @ bs) rest" "lxmf_payload_ok p \<and>
      (\<exists>hdr t ti co st. bs = hdr @ t @ ti @ co @ lp_fields p @ st \<and> payload_parts p hdr t ti co st)"
    with c len show ?thesis by (simp add: rcur_def)
  qed
qed

section \<open>Messages\<close>

lemma decode_lxmf_message_iff:
  "decode_lxmf_message input = Ok m \<longleftrightarrow>
     input = lm_destination_hash m @ lm_source_hash m @ lm_signature m @ lm_packed_payload m \<and>
     length (lm_destination_hash m) = 16 \<and> length (lm_source_hash m) = 16 \<and> length (lm_signature m) = 64 \<and>
     decode_lxmf_payload (lm_packed_payload m) = Ok (lm_payload m)"
  (is "?L \<longleftrightarrow> ?R")
proof
  assume ?L
  then have len: "96 \<le> length input" and m: "lm_destination_hash m = take 16 input" "lm_source_hash m = take 16 (drop 16 input)"
    "lm_signature m = take 64 (drop 32 input)" "lm_packed_payload m = drop 96 input"
    "decode_lxmf_payload (lm_packed_payload m) = Ok (lm_payload m)"
    by (auto simp: decode_lxmf_message_def Let_def slice_def slice_to_def slice_from_def lxmf_constants split: if_splits)
  have "input = take 16 input @ take 16 (drop 16 input) @ take 64 (drop 32 input) @ drop 96 input"
    using append_take_drop_id [of 16 input] append_take_drop_id [of 16 "drop 16 input"] append_take_drop_id [of 64 "drop 32 input"]
    by simp
  with len m show ?R by simp
next
  assume R: ?R
  then have "length (lm_packed_payload m) \<le> 4000" using decode_lxmf_payload_Ok by blast
  with R show ?L
    by (cases m) (auto simp: decode_lxmf_message_def Let_def slice_def slice_to_def slice_from_def lxmf_constants)
qed

lemma decode_lxmf_message_no_panic: "decode_lxmf_message input \<noteq> Panic"
  by (auto simp: decode_lxmf_message_def Let_def slice_def slice_to_def slice_from_def lxmf_constants rbind_eq_Panic)

lemma encode_lxmf_payload_eq:
  assumes "lxmf_payload_ok p" "length (lxmf_payload_bytes p) \<le> 4000" "length out = length (lxmf_payload_bytes p)"
  shows "encode_lxmf_payload p out = (Ok (length (lxmf_payload_bytes p)), lxmf_payload_bytes p)"
proof -
  have "lxmf_payload_encoded_len p = Ok (length (lxmf_payload_bytes p))"
    using assms lxmf_payload_encoded_len_iff(2) [of p] by (auto simp: lxmf_payload_ok_def usize_max_def)
  moreover have "write_lxmf_payload p (wcur [] out) = (Ok (), wcur (lxmf_payload_bytes p) [])"
    using writes_lxmf_payload [of p] assms by (auto simp: writes_def lxmf_payload_ok_def)
  ultimately show ?thesis
    using assms(3) by (simp add: encode_lxmf_payload_def write_new_def wcur_def)
qed

definition lxmf_encodable :: "lxmf_payload \<Rightarrow> bool" where
  "lxmf_encodable p \<longleftrightarrow> lxmf_payload_ok p \<and> length (lxmf_payload_bytes p) \<le> 4000"

lemma encode_lxmf_message_cases:
  assumes "length destination = 16" "length source = 16" "length signature = 64" "length (lp_fields p) \<le> usize_max"
  shows "if lxmf_encodable p
    then encode_lxmf_message destination source signature p out =
      (let bytes = destination @ source @ signature @ lxmf_payload_bytes p in
       if length out < length bytes then (Err (LxOutputTooSmall (length bytes) (length out)), out)
       else (Ok (length bytes), bytes @ drop (length bytes) out))
    else \<exists>e. encode_lxmf_message destination source signature p out = (Err e, out)"
proof (cases "lxmf_encodable p")
  case True
  let ?n = "length (lxmf_payload_bytes p)"
  have n: "lxmf_payload_encoded_len p = Ok ?n" "?n \<le> 4000" "lxmf_payload_ok p"
    using True lxmf_payload_encoded_len_iff(2) [OF assms(4)] by (auto simp: lxmf_encodable_def)
  have payload: "encode_lxmf_payload p (take ?n (drop 96 out)) = (Ok ?n, lxmf_payload_bytes p)" if "96 + ?n \<le> length out"
    using encode_lxmf_payload_eq [OF n(3,2)] that by simp
  show ?thesis
    using True n assms(1-3) payload
    by (auto simp: encode_lxmf_message_def Let_def checked_add_def usize_max_def lxmf_constants sbind_def sret_def write_at_eq on_slice_def
        add.commute)
next
  case False
  then have "\<exists>e. lxmf_payload_encoded_len p = Err e"
    using lxmf_payload_encoded_len_iff [OF assms(4)] by (cases "lxmf_payload_encoded_len p") (auto simp: lxmf_encodable_def)
  with False show ?thesis by (auto simp: encode_lxmf_message_def)
qed

section \<open>The signed bytes\<close>

lemma canonical_array4_len_from_eq:
  "n + length (concat es) \<le> usize_max \<Longrightarrow> canonical_array4_len_from n es = Ok (n + length (concat es))"
  by (induction es arbitrary: n) (simp_all add: checked_add_def add.assoc)

lemma signing_payload_parse_eq:
  assumes parts: "reads read_array_len hdr n" "msgpack_value t" "msgpack_value ti" "msgpack_value co" "msgpack_value fi"
    "n = 4 \<and> st = [] \<or> n = 5 \<and> msgpack_value st"
    and packed: "packed = hdr @ t @ ti @ co @ fi @ st" "length packed \<le> 4000"
  shows "signing_payload_parse packed =
    Ok (if n = 4 then Original packed else CanonicalArray4 [t, ti, co, fi] (1 + length (t @ ti @ co @ fi)))"
proof -
  have raw: "read_raw_value (rcur pre (v @ rest)) = (Ok v, rcur (pre @ v) rest)"
    if "msgpack_value v" "length (pre @ v) \<le> usize_max" for pre v rest
    using reads_raw_value [OF that(1)] that(2) by (simp add: reads_def)
  have hdr: "read_array_len (rcur [] (hdr @ rest)) = (Ok n, rcur hdr rest)" if "length hdr \<le> usize_max" for rest
    using parts(1) that unfolding reads_def by (metis append_Nil)
  have len: "length hdr + length t + length ti + length co + length fi + length st \<le> usize_max"
    using packed by (simp add: usize_max_def)
  have new: "read_new bs = rcur [] bs" for bs by (simp add: read_new_def rcur_def)
  have fin: "lx_finish (rcur bs []) = (Ok (), rcur bs [])" for bs by (simp add: lx_finish_def rcur_def)
  have st: "read_raw_value (rcur pre st) = (Ok st, rcur (pre @ st) [])" if "msgpack_value st" "length (pre @ st) \<le> usize_max" for pre
    using raw [OF that, of "[]"] by simp
  from parts(6) show ?thesis
  proof
    assume "n = 4 \<and> st = []"
    then show ?thesis
      using parts(2-5) len raw [of fi _ "[]"]
      by (simp add: signing_payload_parse_def read_signing_payload_def new packed(1) sbind_def sret_def hdr raw fin lxmf_constants
          eval_nat_numeral)
  next
    assume "n = 5 \<and> msgpack_value st"
    moreover have "canonical_array4_len [t, ti, co, fi] = Ok (1 + length (t @ ti @ co @ fi))"
      using packed by (simp add: canonical_array4_len_def canonical_array4_len_from_eq usize_max_def checked_add_def)
    ultimately show ?thesis
      using parts(2-5) len
      by (simp add: signing_payload_parse_def read_signing_payload_def new packed(1) sbind_def sret_def slift_def hdr raw st fin lxmf_constants)
  qed
qed

text \<open>The payload without its stamp, as it is signed.\<close>

definition unstamped :: "lxmf_payload \<Rightarrow> lxmf_payload" where
  "unstamped p = p\<lparr>lp_stamp := None\<rparr>"

lemma stamped_payload_signing:
  assumes "decode_lxmf_payload packed = Ok p"
  shows "\<exists>sp. signing_payload_parse packed = Ok sp \<and> signing_payload_len sp = length (signing_bytes sp) \<and>
    length (signing_bytes sp) \<le> 4000 \<and> (lp_stamp p = None \<longrightarrow> signing_bytes sp = packed) \<and>
    signing_payload_parse (signing_bytes sp) = Ok (Original (signing_bytes sp)) \<and>
    decode_lxmf_payload (signing_bytes sp) = Ok (unstamped p)"
proof -
  obtain hdr t ti co st where len: "length packed \<le> 4000" and ok: "lxmf_payload_ok p"
    and packed: "packed = hdr @ t @ ti @ co @ lp_fields p @ st" and parts: "payload_parts p hdr t ti co st"
    using decode_lxmf_payload_Ok [OF assms] by blast
  have fi: "msgpack_value (lp_fields p)" using ok by (simp add: lxmf_payload_ok_def msgpack_map_def)
  note vals = parts [unfolded payload_parts_def]
  show ?thesis
  proof (cases "lp_stamp p")
    case None
    with vals have "signing_payload_parse packed = Ok (Original packed)"
      using signing_payload_parse_eq [of hdr 4 t ti co "lp_fields p" st packed] fi packed len by simp
    with None assms len show ?thesis by (cases p) (auto simp: unstamped_def)
  next
    case (Some stamp)
    let ?signed = "0x94 # t @ ti @ co @ lp_fields p"
    have st: "msgpack_value st" and h: "reads read_array_len hdr 5" using vals Some by auto
    have hdr_len: "0 < length hdr"
    proof (rule ccontr)
      assume "\<not> 0 < length hdr"
      with h have "read_array_len (rcur [] []) = (Ok 5, rcur [] [])" using reads_run [of read_array_len "[]" 5] by simp
      then show False
        by (simp add: read_array_len_def sbind_def lx_read_u8_def cursor_u8_def lx_read_slice_def rcur_def checked_add_def usize_max_def)
    qed
    have "length ?signed \<le> length packed" using hdr_len unfolding packed by (cases hdr) simp_all
    with len have slen: "length ?signed \<le> 4000" by linarith
    have parse: "signing_payload_parse packed =
        Ok (CanonicalArray4 [t, ti, co, lp_fields p] (1 + length (t @ ti @ co @ lp_fields p)))"
      using signing_payload_parse_eq [OF h _ _ _ fi _ packed len] vals st by simp
    have bytes: "signing_bytes (CanonicalArray4 [t, ti, co, lp_fields p] n) = ?signed" for n
      by (simp add: FIXED_ARRAY4_MARKER_def lxmf_constants)
    have again: "signing_payload_parse ?signed = Ok (Original ?signed)"
      using signing_payload_parse_eq [OF reads_array4 _ _ _ fi, of t ti co "[]" ?signed] vals slen by simp
    have "lxmf_payload_ok (unstamped p)" using ok by (simp add: lxmf_payload_ok_def unstamped_def)
    then have "reads read_lxmf_payload ([0x94] @ t @ ti @ co @ lp_fields (unstamped p)) (unstamped p)"
      by (rule reads_payload_parts) (use vals in \<open>auto simp: unstamped_def intro: reads_array4\<close>)
    then have "reads read_lxmf_payload ?signed (unstamped p)" by (simp add: unstamped_def)
    from reads_run [OF this] slen have "decode_lxmf_payload ?signed = Ok (unstamped p)"
      by (simp add: decode_lxmf_payload_def lxmf_constants usize_max_def read_new_def rcur_def sbind_def lx_finish_def sret_def)
    with parse bytes again slen Some show ?thesis by auto
  qed
qed

lemma writes_list: "writes (foldr (\<lambda>element m. sbind (write_array element) (\<lambda>_. m)) es (sret ())) (concat es)"
proof (induction es)
  case Nil
  show ?case by (simp add: writes_def sret_def)
next
  case (Cons e es)
  then show ?case by (auto intro: writes_bind writes_array)
qed

lemma writes_signing_payload: "writes (write_signing_payload sp) (signing_bytes sp)"
proof (cases sp)
  case (CanonicalArray4 es n)
  have "writes (write_signing_payload sp) ([FIXED_ARRAY4_MARKER] @ concat es)"
    unfolding write_signing_payload_def CanonicalArray4 signing_payload.case
    by (rule writes_bind, rule writes_array, rule writes_list)
  with CanonicalArray4 show ?thesis by simp
qed (simp add: write_signing_payload_def writes_array)

lemma write_signature_input_eq:
  fixes out :: "u8 list"
  assumes sp: "signing_payload_parse (lm_packed_payload m) = Ok sp" "signing_payload_len sp = length (signing_bytes sp)"
      "length (signing_bytes sp) \<le> 4000"
    and m: "length (lm_destination_hash m) = 16" "length (lm_source_hash m) = 16"
    and id: "mid = cr_sha256 c (lm_destination_hash m @ lm_source_hash m @ signing_bytes sp)" "length mid = 32"
  defines "bytes \<equiv> lm_destination_hash m @ lm_source_hash m @ signing_bytes sp @ mid"
  shows "write_lxmf_signature_input c m out =
    (if length out < length bytes then (Err (LxOutputTooSmall (length bytes) (length out)), out)
     else (Ok (length bytes), bytes @ drop (length bytes) out))"
proof -
  define w :: "(write_cursor, unit, lxmf_error) stm" where "w = sbind (write_array (lm_destination_hash m)) (\<lambda>_.
     sbind (write_array (lm_source_hash m)) (\<lambda>_. sbind (write_signing_payload sp) (\<lambda>_.
       write_array (message_id_with_signing_payload c m sp))))"
  have "writes w bytes"
    unfolding w_def bytes_def message_id_with_signing_payload_def id(1)
    by (intro writes_bind writes_array writes_signing_payload)
  then have run: "w (write_new out) = (Ok (), wcur bytes (drop (length bytes) out))" if "length bytes \<le> length out"
    using that unfolding writes_def by (metis append_Nil wcur_def write_new_def list.size(3))
  have len: "length bytes = 16 + 16 + length (signing_bytes sp) + 32" using m id by (simp add: bytes_def)
  show ?thesis
    unfolding write_lxmf_signature_input_def sp(1) w_def [symmetric]
    using sp(2,3) run by (simp add: w_def [symmetric] len checked_add_def usize_max_def lxmf_constants wcur_def)
qed

section \<open>Properties\<close>

text \<open>
  C31. The LXMF message codec. Decoding never panics and never reads past the input, whatever the
  nesting, lengths and markers in it. Encoding accepts exactly the payloads within the limits whose fields are one
  MessagePack map; what it writes decodes to the same header and the same payload without the
  stamp, which the encoder checks but never writes. On an error the output is untouched.\<close>

theorem lxmf_message_codec:
  "decode_lxmf_message input \<noteq> Panic \<and>
   (length destination = 16 \<longrightarrow> length source = 16 \<longrightarrow> length signature = 64 \<longrightarrow> length (lp_fields p) \<le> usize_max \<longrightarrow>
     (case encode_lxmf_message destination source signature p out of
        (Ok n, out') \<Rightarrow> lxmf_encodable p \<and> n \<le> 4096 \<and> length out' = length out \<and> drop n out' = drop n out \<and>
          decode_lxmf_message (take n out') =
            Ok \<lparr>lm_destination_hash = destination, lm_source_hash = source, lm_signature = signature,
                lm_packed_payload = drop 96 (take n out'), lm_payload = p\<lparr>lp_stamp := None\<rparr>\<rparr>
      | (Err e, out') \<Rightarrow> out' = out \<and> (lxmf_encodable p \<longrightarrow> length out < 96 + length (lxmf_payload_bytes p))
      | (Panic, out') \<Rightarrow> False))"
proof -
  have "decode_lxmf_message (destination @ source @ signature @ lxmf_payload_bytes p) =
      Ok \<lparr>lm_destination_hash = destination, lm_source_hash = source, lm_signature = signature,
          lm_packed_payload = lxmf_payload_bytes p, lm_payload = p\<lparr>lp_stamp := None\<rparr>\<rparr>"
    if "length destination = 16" "length source = 16" "length signature = 64" "lxmf_encodable p"
    using that decode_lxmf_payload_bytes [of p] by (simp add: decode_lxmf_message_iff lxmf_encodable_def)
  with encode_lxmf_message_cases [of destination source signature p out] decode_lxmf_message_no_panic [of input] show ?thesis
    by (cases "lxmf_encodable p") (auto simp: Let_def lxmf_encodable_def not_less)
qed

definition sample_lxmf_payload :: lxmf_payload where
  "sample_lxmf_payload = \<lparr>lp_timestamp_secs = 0x41D9000000000000, lp_title = [72, 105], lp_content = [1, 2, 3],
     lp_fields = [0x81, 0x01, 0xC0], lp_stamp = Some [0xC4, 0x01, 0x07]\<rparr>"

lemma sample_lxmf_fields: "msgpack_map [0x81, 0x01, 0xC0]"
proof -
  have scalar: "reads (skip_value 2) [marker] ()" if "marker = 0x01 \<or> marker = 0xC0" for marker
    using lx_reads(2) [of marker] that
    by (subst skip_value.simps) (auto simp: LXMF_MSGPACK_MAX_DEPTH_def skip_marker_def reads_def sbind_def sret_def)
  have "reads (sbind (skip_value 2) (\<lambda>_. sbind (skip_value 2) (\<lambda>_. sret ()))) ([0x01] @ [0xC0] @ []) ()"
    by (intro reads_bind [OF scalar] reads_ret) auto
  then have "reads (skip_marker (skip_value 2) 0x81) [0x01, 0xC0] ()"
    by (simp add: skip_marker_def skip_map_def sbind_then)
  then show ?thesis by (simp add: msgpack_map_def msgpack_value_Cons is_map_marker_def)
qed

lemma sample_lxmf_encodable: "lxmf_encodable sample_lxmf_payload"
  by (simp add: lxmf_encodable_def lxmf_payload_ok_def sample_lxmf_payload_def sample_lxmf_fields lxmf_payload_bytes_def
      bin_bytes_def f64_is_finite_def)

theorem lxmf_message_codec_witness:
  "\<exists>n out' m. encode_lxmf_message (replicate 16 1) (replicate 16 2) (replicate 64 3) sample_lxmf_payload (replicate 130 0) = (Ok n, out') \<and>
     decode_lxmf_message (take n out') = Ok m \<and> lm_payload m = sample_lxmf_payload\<lparr>lp_stamp := None\<rparr>"
proof -
  have "length (lxmf_payload_bytes sample_lxmf_payload) \<le> 34"
    by (simp add: lxmf_payload_bytes_def sample_lxmf_payload_def bin_bytes_def)
  with lxmf_message_codec [of "[]" "replicate 16 1" "replicate 16 2" "replicate 64 3" sample_lxmf_payload "replicate 130 0"]
    sample_lxmf_encodable show ?thesis
    by (auto simp: sample_lxmf_payload_def usize_max_def split: prod.splits result.splits)
qed



section \<open>Carriage\<close>

text \<open>
  Wrapping succeeds exactly for a message that decodes and a time to live, addresses the envelope to
  the message's destination and keeps the bytes; unwrapping gives them back.
\<close>

lemma decode_lxmf_message_carried:
  assumes "decode_lxmf_message raw = Ok m"
  shows "length raw \<le> 65535"
    "\<exists>endpoint. endpoint_from_fixed_16 Lxmf (lm_destination_hash m) = Ok endpoint \<and> wf_endpoint endpoint \<and>
       endpoint_significant endpoint = lm_destination_hash m"
proof -
  have "length (lm_destination_hash m) = 16" "length raw \<le> 4096"
    using assms decode_lxmf_payload_Ok by (auto simp: decode_lxmf_message_iff)
  with endpoint_from_fixed_16_wf show "length raw \<le> 65535"
    "\<exists>endpoint. endpoint_from_fixed_16 Lxmf (lm_destination_hash m) = Ok endpoint \<and> wf_endpoint endpoint \<and>
       endpoint_significant endpoint = lm_destination_hash m" by fastforce+
qed

lemma wrap_lxmf_message_Ok:
  assumes "wrap_lxmf_message raw params = Ok e"
  shows "unwrap_lxmf_message e = Ok raw \<and>
     (\<exists>m endpoint. decode_lxmf_message raw = Ok m \<and> env_destination e = Foreign endpoint \<and>
        endpoint_significant endpoint = lm_destination_hash m)"
proof -
  obtain m where m: "decode_lxmf_message raw = Ok m"
    using assms by (auto simp: wrap_lxmf_message_def validate_lxmf_message_def)
  obtain endpoint where "endpoint_from_fixed_16 Lxmf (lm_destination_hash m) = Ok endpoint"
    "endpoint_significant endpoint = lm_destination_hash m"
    using decode_lxmf_message_carried(2) [OF m] by blast
  with m assms show ?thesis
    by (auto simp: wrap_lxmf_message_def unwrap_lxmf_message_def validate_lxmf_message_def Let_def)
qed

lemma wrap_lxmf_message_succeeds:
  "(\<exists>e. wrap_lxmf_message raw params = Ok e) \<longleftrightarrow>
     (\<exists>m. decode_lxmf_message raw = Ok m) \<and> ms (lxw_created_at_ms params) < ms (lxw_expires_at_ms params)"
proof (cases "decode_lxmf_message raw")
  case (Ok m)
  obtain endpoint where "endpoint_from_fixed_16 Lxmf (lm_destination_hash m) = Ok endpoint"
    using decode_lxmf_message_carried(2) [OF Ok] by blast
  with Ok decode_lxmf_message_carried(1) [OF Ok] show ?thesis
    by (auto simp: wrap_lxmf_message_def validate_lxmf_message_def Let_def validate_envelope_Ok HYF_WIRE_VERSION_0_def)
qed (auto simp: wrap_lxmf_message_def validate_lxmf_message_def)

lemma lxmf_carriage_no_panic: "wrap_lxmf_message raw params \<noteq> Panic" "unwrap_lxmf_message e \<noteq> Panic"
proof -
  have valid: "validate_lxmf_message raw \<noteq> Panic" for raw
    using decode_lxmf_message_no_panic [of raw] by (cases "decode_lxmf_message raw") (auto simp: validate_lxmf_message_def)
  have env: "map_err LxmfHyfWire (validate_envelope e) \<noteq> Panic" for e
    using validate_envelope_no_panic [of e] by (cases "validate_envelope e") auto
  show "unwrap_lxmf_message e \<noteq> Panic"
    using valid env by (auto simp: unwrap_lxmf_message_def rbind_eq_Panic)
  show "wrap_lxmf_message raw params \<noteq> Panic"
  proof (cases "decode_lxmf_message raw")
    case (Ok m)
    obtain endpoint where "endpoint_from_fixed_16 Lxmf (lm_destination_hash m) = Ok endpoint"
      using decode_lxmf_message_carried(2) [OF Ok] by blast
    with Ok env show ?thesis by (simp add: wrap_lxmf_message_def validate_lxmf_message_def Let_def rbind_eq_Panic)
  qed (use valid [of raw] in \<open>auto simp: wrap_lxmf_message_def validate_lxmf_message_def\<close>)
qed

end
