(* ===== verification/Hyf_Bridge_BitChat.thy ===== *)
theory Hyf_Bridge_BitChat
  imports Hyf_Bridge Hyf_BitChat
begin

text \<open>
  The BitChat adapter of the bridge, crate \<open>hyf_bridge_bitchat\<close>: public BitChat packets to bridge
  messages and returned (\<open>src/crates/hyf_bridge_bitchat/src/{params,error,convert}.rs\<close>).
\<close>

section \<open>Parameters and errors\<close>

definition BITCHAT_BRIDGE_PACKET_MAX_LEN :: usize where
  "BITCHAT_BRIDGE_PACKET_MAX_LEN = BITCHAT_CORE_PACKET_MAX_LEN"
definition BITCHAT_BRIDGE_DEFAULT_TTL :: u8 where "BITCHAT_BRIDGE_DEFAULT_TTL = 7"
definition BITCHAT_BRIDGE_PACKET_TYPE_PUBLIC_MESSAGE :: u8 where
  "BITCHAT_BRIDGE_PACKET_TYPE_PUBLIC_MESSAGE = 0x02"

record bitchat_bridge_ingress_params =
  bi_room_id :: community_id
  bi_message_id :: message_id

record bitchat_bridge_egress_params =
  bo_sender_id :: bitchat_peer_id
  bo_ttl :: u8

definition bitchat_egress_params_new :: "bitchat_peer_id \<Rightarrow> bitchat_bridge_egress_params" where
  "bitchat_egress_params_new sender_id = \<lparr>bo_sender_id = sender_id, bo_ttl = BITCHAT_BRIDGE_DEFAULT_TTL\<rparr>"

definition bitchat_egress_params_with_ttl :: "bitchat_peer_id \<Rightarrow> u8 \<Rightarrow> bitchat_bridge_egress_params" where
  "bitchat_egress_params_with_ttl sender_id ttl = \<lparr>bo_sender_id = sender_id, bo_ttl = ttl\<rparr>"

datatype bitchat_bridge_error =
    BbBitchat bitchat_error
  | BbBridge bridge_error
  | BbUnsupportedVersion bitchat_version
  | BbUnsupportedPacketType u8
  | SignedPacket
  | CompressedPacket
  | DirectedPacket
  | RoutedPacket
  | RsrPacket
  | BbEmptyPayload
  | BbInvalidPayloadUtf8
  | TimestampZero
  | BbUnsupportedPayloadKind bridge_payload_kind

section \<open>Ingress\<close>

record bitchat_bridge_ingress =
  bx_packet :: bitchat_packet
  bx_params :: bitchat_bridge_ingress_params
  bx_sender_id :: "u8 list"
  bx_payload :: "u8 list"

definition bitchat_ingress_meta :: "bitchat_bridge_ingress \<Rightarrow> bridge_ingress_meta" where
  "bitchat_ingress_meta ingress = \<lparr>origin_protocol = BitChatProtocol, verification_state = Unverified\<rparr>"

definition bitchat_ingress_message :: "bitchat_bridge_ingress \<Rightarrow> bridge_message" where
  "bitchat_ingress_message ingress =
     \<lparr>bm_version = HYF_BRIDGE_MESSAGE_VERSION_0, bm_room_id = bi_room_id (bx_params ingress),
      bm_message_id = bi_message_id (bx_params ingress),
      bm_author = \<lparr>be_kind = ForeignAuthor BitChat, be_id = bx_sender_id ingress\<rparr>,
      bm_created_at_ms = TimestampMs (bp_timestamp (bx_packet ingress)), bm_payload_kind = TextUtf8,
      bm_payload = bx_payload ingress\<rparr>"

definition validate_ingress_packet :: "bitchat_packet \<Rightarrow> (unit, bitchat_bridge_error) result" where
  "validate_ingress_packet packet =
     (if bp_version packet \<noteq> V2 then Err (BbUnsupportedVersion (bp_version packet))
      else if bp_packet_type packet \<noteq> BITCHAT_BRIDGE_PACKET_TYPE_PUBLIC_MESSAGE
      then Err (BbUnsupportedPacketType (bp_packet_type packet))
      else if has_signature (bp_flags packet) \<or> bp_signature packet \<noteq> None then Err SignedPacket
      else if is_compressed (bp_flags packet) \<or> compressed (bp_payload packet) then Err CompressedPacket
      else if has_recipient (bp_flags packet) \<or> bp_recipient_id packet \<noteq> None then Err DirectedPacket
      else if has_route (bp_flags packet) \<or> bp_route packet \<noteq> None then Err RoutedPacket
      else if is_rsr (bp_flags packet) then Err RsrPacket
      else if bp_timestamp packet = 0 then Err TimestampZero
      else Ok ())"

definition bitchat_packet_to_bridge_message ::
  "u8 list \<Rightarrow> bitchat_bridge_ingress_params \<Rightarrow> (bitchat_bridge_ingress, bitchat_bridge_error) result" where
  "bitchat_packet_to_bridge_message raw params =
     rbind (map_err BbBitchat (decode_bitchat_packet raw)) (\<lambda>packet.
     rbind (validate_ingress_packet packet) (\<lambda>_.
       case bp_payload packet of
         Plain payload \<Rightarrow>
           if payload = [] then Err BbEmptyPayload
           else if \<not> utf8_valid payload then Err BbInvalidPayloadUtf8
           else Ok \<lparr>bx_packet = packet, bx_params = params, bx_sender_id = bp_sender_id packet, bx_payload = payload\<rparr>
       | _ \<Rightarrow> Err CompressedPacket))"

section \<open>Egress\<close>

definition validate_bitchat_egress :: "bridge_message \<Rightarrow> (unit, bitchat_bridge_error) result" where
  "validate_bitchat_egress message =
     (if bm_payload_kind message \<noteq> TextUtf8 then Err (BbUnsupportedPayloadKind (bm_payload_kind message))
      else if bm_payload message = [] then Err BbEmptyPayload
      else if \<not> utf8_valid (bm_payload message) then Err BbInvalidPayloadUtf8
      else if ms (bm_created_at_ms message) = 0 then Err TimestampZero
      else rbind (map_err BbBridge (bridge_message_encoded_len message)) (\<lambda>_. Ok ()))"

definition bitchat_packet_of :: "bridge_message \<Rightarrow> bitchat_bridge_egress_params \<Rightarrow> bitchat_packet" where
  "bitchat_packet_of message params =
     \<lparr>bp_version = V2, bp_packet_type = BITCHAT_BRIDGE_PACKET_TYPE_PUBLIC_MESSAGE, bp_ttl = bo_ttl params,
      bp_timestamp = ms (bm_created_at_ms message), bp_flags = bitchat_flags_empty, bp_sender_id = bo_sender_id params,
      bp_recipient_id = None, bp_route = None, bp_payload = Plain (bm_payload message), bp_signature = None\<rparr>"

definition bridge_message_to_bitchat_packet_v2 ::
  "bridge_message \<Rightarrow> bitchat_bridge_egress_params \<Rightarrow> (u8 list, usize, bitchat_bridge_error) stm" where
  "bridge_message_to_bitchat_packet_v2 message params =
     sbind (slift (validate_bitchat_egress message)) (\<lambda>_.
       smap_err BbBitchat (encode_bitchat_packet_v2 (bitchat_packet_of message params)))"

section \<open>What is accepted\<close>

text \<open>The packets the bridge takes in: public, version 2, plain text, with a time and nothing optional.\<close>

definition bridgeable_packet :: "bitchat_packet \<Rightarrow> bool" where
  "bridgeable_packet p \<longleftrightarrow> length (bp_sender_id p) = 8 \<and> bp_timestamp p \<noteq> 0 \<and>
     (\<exists>payload. payload \<noteq> [] \<and> length payload \<le> 1536 \<and> utf8_valid payload \<and>
        p = \<lparr>bp_version = V2, bp_packet_type = 2, bp_ttl = bp_ttl p, bp_timestamp = bp_timestamp p, bp_flags = bitchat_flags_empty,
             bp_sender_id = bp_sender_id p, bp_recipient_id = None, bp_route = None, bp_payload = Plain payload, bp_signature = None\<rparr>)"

fun plain_payload :: "bitchat_payload \<Rightarrow> u8 list" where
  "plain_payload (Plain payload) = payload"
| "plain_payload (Compressed n payload) = []"

lemma bridgeable_packet_iff:
  "bridgeable_packet p \<longleftrightarrow> bitchat_ok p \<and> validate_ingress_packet p = Ok () \<and>
     (\<exists>payload. bp_payload p = Plain payload \<and> payload \<noteq> [] \<and> utf8_valid payload)" (is "_ \<longleftrightarrow> ?r")
proof
  assume "bridgeable_packet p"
  then obtain payload where *: "payload \<noteq> []" "length payload \<le> 1536" "utf8_valid payload" "length (bp_sender_id p) = 8"
      "bp_timestamp p \<noteq> 0"
    and p: "p = \<lparr>bp_version = V2, bp_packet_type = 2, bp_ttl = bp_ttl p, bp_timestamp = bp_timestamp p, bp_flags = bitchat_flags_empty,
             bp_sender_id = bp_sender_id p, bp_recipient_id = None, bp_route = None, bp_payload = Plain payload, bp_signature = None\<rparr>"
    unfolding bridgeable_packet_def by blast
  have sel: "bp_version p = V2" "bp_packet_type p = 2" "bp_flags p = bitchat_flags_empty" "bp_recipient_id p = None"
      "bp_route p = None" "bp_payload p = Plain payload" "bp_signature p = None"
    by (subst p, simp)+
  then show ?r
    using * by (simp add: bitchat_ok_def wf_bitchat_def option_len_def route_ok_def bitchat_flags_empty_def
        validate_ingress_packet_def BITCHAT_BRIDGE_PACKET_TYPE_PUBLIC_MESSAGE_def)
next
  assume r: ?r
  then obtain payload where *: "bp_payload p = Plain payload" "payload \<noteq> []" "utf8_valid payload" by blast
  have sel: "bp_version p = V2" "bp_packet_type p = 2" "bp_recipient_id p = None" "bp_route p = None" "bp_signature p = None"
      "bp_timestamp p \<noteq> 0" and flags: "bp_flags p = bitchat_flags_empty"
    using r by (auto simp: validate_ingress_packet_def BITCHAT_BRIDGE_PACKET_TYPE_PUBLIC_MESSAGE_def bitchat_flags_empty_def
        split: if_splits intro: bitchat_flags.equality)
  have "length (bp_sender_id p) = 8" "length payload \<le> 1536"
    using r * by (auto simp: bitchat_ok_def wf_bitchat_def)
  then show "bridgeable_packet p"
    using sel flags * unfolding bridgeable_packet_def by (auto intro!: exI [of _ payload] bitchat_packet.equality)
qed

definition bitchat_ingress_of :: "bitchat_packet \<Rightarrow> bitchat_bridge_ingress_params \<Rightarrow> bitchat_bridge_ingress" where
  "bitchat_ingress_of p params =
     \<lparr>bx_packet = p, bx_params = params, bx_sender_id = bp_sender_id p, bx_payload = plain_payload (bp_payload p)\<rparr>"

lemma bitchat_ingress_iff:
  "bitchat_packet_to_bridge_message raw params = Ok i \<longleftrightarrow>
     (\<exists>p. bridgeable_packet p \<and> raw = bitchat_bytes p \<and> i = bitchat_ingress_of p params)"
proof -
  have "(case bp_payload p of Plain payload \<Rightarrow>
        if payload = [] then Err BbEmptyPayload else if \<not> utf8_valid payload then Err BbInvalidPayloadUtf8
        else Ok \<lparr>bx_packet = p, bx_params = params, bx_sender_id = bp_sender_id p, bx_payload = payload\<rparr>
      | _ \<Rightarrow> Err CompressedPacket) = Ok i \<longleftrightarrow>
      (\<exists>payload. bp_payload p = Plain payload \<and> payload \<noteq> [] \<and> utf8_valid payload) \<and> i = bitchat_ingress_of p params" for p
    by (cases "bp_payload p") (auto simp: bitchat_ingress_of_def)
  then show ?thesis
    by (auto simp: bitchat_packet_to_bridge_message_def bridgeable_packet_iff decode_bitchat_packet_iff)
qed

lemma validate_ingress_no_panic [simp]: "validate_ingress_packet p \<noteq> Panic"
  by (simp add: validate_ingress_packet_def)

lemma bitchat_ingress_no_panic: "bitchat_packet_to_bridge_message raw params \<noteq> Panic"
  using decode_bitchat_packet_no_panic [of raw]
  by (auto simp: bitchat_packet_to_bridge_message_def rbind_eq_Panic split: bitchat_payload.splits if_splits)

lemma validate_bitchat_egress_Ok:
  "wf_bridge_message m \<Longrightarrow> validate_bitchat_egress m = Ok () \<longleftrightarrow>
     bridge_ok m \<and> bm_payload_kind m = TextUtf8 \<and> bm_payload m \<noteq> [] \<and> ms (bm_created_at_ms m) \<noteq> 0"
  using bridge_message_encoded_len_Ok [of m]
  by (auto simp: validate_bitchat_egress_def bridge_message_encoded_len_def validate_bridge_message_Ok split: if_splits)

lemma bridge_encoded_len_no_panic [simp]: "bridge_message_encoded_len m \<noteq> Panic"
  by (auto simp: bridge_message_encoded_len_def rbind_eq_Panic split: option.splits elim!: ok_or.elims)

lemma validate_bitchat_egress_no_panic [simp]: "validate_bitchat_egress m \<noteq> Panic"
  by (auto simp: validate_bitchat_egress_def rbind_eq_Panic)

lemma bitchat_packet_of_bridgeable:
  assumes "wf_bridge_message m" and "validate_bitchat_egress m = Ok ()" and "length (bo_sender_id params) = 8"
  shows "bridgeable_packet (bitchat_packet_of m params)"
  using assms(3) validate_bitchat_egress_Ok [OF assms(1)] assms(2)
  by (auto simp: bridgeable_packet_def bitchat_packet_of_def BITCHAT_BRIDGE_PACKET_TYPE_PUBLIC_MESSAGE_def validate_bridge_message_Ok
      intro!: exI [of _ "bm_payload m"])

lemma bitchat_egress_cases:
  assumes "wf_bridge_message m" and "length (bo_sender_id params) = 8" and "length out \<le> usize_max"
  shows "bridge_message_to_bitchat_packet_v2 m params out =
    (case validate_bitchat_egress m of
       Ok _ \<Rightarrow> let bytes = bitchat_bytes (bitchat_packet_of m params) in
         if length out < length bytes then (Err (BbBitchat (BcOutputTooSmall (length bytes) (length out))), out)
         else (Ok (length bytes), bytes @ drop (length bytes) out)
     | Err e \<Rightarrow> (Err e, out)
     | Panic \<Rightarrow> (Panic, out))"
proof (cases "validate_bitchat_egress m")
  case (Ok u)
  then have "length (bm_payload m) \<le> 1024"
    using validate_bitchat_egress_Ok [OF assms(1)] by (simp add: validate_bridge_message_Ok)
  then have p: "wf_bitchat (bitchat_packet_of m params)" "encodable (bitchat_packet_of m params)"
      "canonical_packet (bitchat_packet_of m params) = bitchat_packet_of m params"
    using assms(2) by (simp_all add: bitchat_packet_of_def wf_bitchat_def option_len_def encodable_def route_ok_def canonical_packet_def
        canonical_encode_flags_def bitchat_flags_empty_def)
  show ?thesis
    using encode_bitchat_packet_cases [OF p(1) assms(3)] p(2,3) Ok
    by (simp add: bridge_message_to_bitchat_packet_v2_def sbind_def slift_def smap_err_def Let_def)
qed (simp_all add: bridge_message_to_bitchat_packet_v2_def sbind_def slift_def)

lemma bitchat_bytes_plain:
  assumes "length (bo_sender_id params) = 8"
  shows "length (bitchat_bytes (bitchat_packet_of m params)) = 24 + length (bm_payload m)"
  using assms by (simp add: bitchat_bytes_def bitchat_packet_of_def compressed_preamble_len_def option_bytes_def route_bytes_def)

section \<open>Properties\<close>



end
