(* ===== verification/Hyf_Float.thy ===== *)
theory Hyf_Float
  imports Hyf_LXMF
begin

text \<open>
  The double-precision operations the LXMF bridge uses, on the 64 bits of an \<open>f64\<close> as IEEE 754 has
  them, rounding to nearest, ties to even: conversion from \<open>u64\<close>, division, multiplication, comparison,
  and \<open>as u64\<close>, which truncates and saturates. Every finite double is a whole number of units of
  \<open>2\<^sup>-\<^sup>1\<^sup>0\<^sup>7\<^sup>4\<close>, so the arithmetic is on naturals.
\<close>

unbundle bit_operations_syntax

section \<open>Doubles\<close>

definition f64_negative :: "f64 \<Rightarrow> bool" where
  "f64_negative x \<longleftrightarrow> 2 ^ 63 \<le> unat x"

definition f64_magnitude :: "f64 \<Rightarrow> nat" where
  "f64_magnitude x = unat x mod 2 ^ 63"

definition F64_INFINITY :: nat where
  "F64_INFINITY = 0x7FF0000000000000"

definition f64_is_nan :: "f64 \<Rightarrow> bool" where
  "f64_is_nan x \<longleftrightarrow> F64_INFINITY < f64_magnitude x"

definition f64_is_infinite :: "f64 \<Rightarrow> bool" where
  "f64_is_infinite x \<longleftrightarrow> f64_magnitude x = F64_INFINITY"

text \<open>
  The absolute value of a finite double in units of \<open>2\<^sup>-\<^sup>1\<^sup>0\<^sup>7\<^sup>4\<close>: a subnormal is its fraction, and a
  normal number with exponent field \<open>e\<close> is its fraction with the implicit bit, shifted by \<open>e - 1\<close>.
\<close>

definition f64_units :: "f64 \<Rightarrow> nat" where
  "f64_units x =
     (let e = f64_magnitude x div 2 ^ 52; fraction = f64_magnitude x mod 2 ^ 52 in
      if e = 0 then fraction else (2 ^ 52 + fraction) * 2 ^ (e - 1))"

definition f64_signed :: "bool \<Rightarrow> nat \<Rightarrow> f64" where
  "f64_signed negative magnitude = word_of_nat ((if negative then 2 ^ 63 else 0) + magnitude)"

definition F64_NAN :: f64 where "F64_NAN = 0x7FF8000000000000"

section \<open>Rounding\<close>

fun bit_len :: "nat \<Rightarrow> nat" where
  "bit_len n = (if n = 0 then 0 else Suc (bit_len (n div 2)))"

declare bit_len.simps [simp del]

definition round_half_even :: "nat \<Rightarrow> nat \<Rightarrow> nat" where
  "round_half_even n d =
     (let q = n div d; r = n mod d in if 2 * r < d \<or> 2 * r = d \<and> even q then q else q + 1)"

text \<open>
  The magnitude bits of the double nearest to \<open>n / d\<close> units: the significand is rounded at the
  53rd bit (or at the unit, below the normal range); adding the shift in the exponent field also
  carries a significand that was rounded up to \<open>2\<^sup>5\<^sup>3\<close>.
\<close>

definition f64_round :: "nat \<Rightarrow> nat \<Rightarrow> nat" where
  "f64_round n d =
     (let shift = bit_len (n div d) - 53 in
      min F64_INFINITY (shift * 2 ^ 52 + round_half_even n (d * 2 ^ shift)))"

definition f64_of_u64 :: "u64 \<Rightarrow> f64" where
  "f64_of_u64 n = f64_signed False (f64_round (unat n * 2 ^ 1074) 1)"

definition f64_div :: "f64 \<Rightarrow> f64 \<Rightarrow> f64" where
  "f64_div x y =
     (let negative = (f64_negative x \<noteq> f64_negative y) in
      if f64_is_nan x \<or> f64_is_nan y then F64_NAN
      else if f64_is_infinite x then (if f64_is_infinite y then F64_NAN else f64_signed negative F64_INFINITY)
      else if f64_is_infinite y then f64_signed negative 0
      else if f64_units y = 0 then (if f64_units x = 0 then F64_NAN else f64_signed negative F64_INFINITY)
      else f64_signed negative (f64_round (f64_units x * 2 ^ 1074) (f64_units y)))"

definition f64_mul :: "f64 \<Rightarrow> f64 \<Rightarrow> f64" where
  "f64_mul x y =
     (let negative = (f64_negative x \<noteq> f64_negative y) in
      if f64_is_nan x \<or> f64_is_nan y then F64_NAN
      else if f64_is_infinite x \<or> f64_is_infinite y
      then (if f64_magnitude x = 0 \<or> f64_magnitude y = 0 then F64_NAN else f64_signed negative F64_INFINITY)
      else f64_signed negative (f64_round (f64_units x * f64_units y) (2 ^ 1074)))"

definition f64_key :: "f64 \<Rightarrow> int" where
  "f64_key x = (if f64_negative x then - int (f64_magnitude x) else int (f64_magnitude x))"

definition f64_less :: "f64 \<Rightarrow> f64 \<Rightarrow> bool" where
  "f64_less x y \<longleftrightarrow> \<not> f64_is_nan x \<and> \<not> f64_is_nan y \<and> f64_key x < f64_key y"

definition f64_as_u64 :: "f64 \<Rightarrow> u64" where
  "f64_as_u64 x =
     (if f64_is_nan x then 0
      else if f64_negative x then 0
      else if f64_is_infinite x \<or> 2 ^ 64 \<le> f64_units x div 2 ^ 1074 then - 1
      else word_of_nat (f64_units x div 2 ^ 1074))"

definition F64_1000 :: f64 where "F64_1000 = 0x408F400000000000"

section \<open>The rounding error\<close>

lemma bit_len_bounds: "0 < n \<Longrightarrow> 2 ^ (bit_len n - 1) \<le> n \<and> n < 2 ^ bit_len n"
proof (induction n rule: bit_len.induct)
  case (1 n)
  show ?case
  proof (cases "n = 1")
    case False
    with 1 have ih: "2 ^ (bit_len (n div 2) - 1) \<le> n div 2" "n div 2 < 2 ^ bit_len (n div 2)" by simp_all
    have "0 < bit_len (n div 2)" using False 1(2) by (simp add: bit_len.simps)
    then obtain k where k: "bit_len (n div 2) = Suc k" by (cases "bit_len (n div 2)") auto
    then have len: "bit_len n = Suc (Suc k)" using 1(2) by (simp add: bit_len.simps [of n])
    from ih k have "2 ^ k \<le> n div 2" "n div 2 < 2 * 2 ^ k" by simp_all
    then show ?thesis unfolding len by simp linarith
  qed (simp add: bit_len.simps)
qed

lemma bit_len_mono_pow: "n < 2 ^ k \<Longrightarrow> bit_len n \<le> k"
proof (cases "n = 0")
  case False
  assume "n < 2 ^ k"
  with bit_len_bounds [of n] False have "(2 :: nat) ^ (bit_len n - 1) < 2 ^ k" by (meson le_less_trans neq0_conv)
  then have "bit_len n - 1 < k" by (rule power_less_imp_less_exp [rotated]) simp
  then show ?thesis by simp
qed (simp add: bit_len.simps)

lemma round_half_even_exact: "0 < d \<Longrightarrow> round_half_even (k * d) d = k"
  by (simp add: round_half_even_def)

lemma round_half_even_error:
  assumes "0 < d"
  shows "2 * \<bar>int (round_half_even n d * d) - int n\<bar> \<le> int d"
proof -
  have n: "n = n div d * d + n mod d" by simp
  have r: "n mod d < d" using assms by simp
  show ?thesis
  proof (cases "2 * (n mod d) < d \<or> 2 * (n mod d) = d \<and> even (n div d)")
    case True
    then have "round_half_even n d * d + n mod d = n" by (simp add: round_half_even_def Let_def)
    then have "int (round_half_even n d * d) = int n - int (n mod d)" by linarith
    with True show ?thesis by auto
  next
    case False
    then have "round_half_even n d = n div d + 1" unfolding round_half_even_def Let_def by (simp only: if_False)
    then have "round_half_even n d * d + n mod d = n + d" by simp
    then have "int (round_half_even n d * d) = int n + (int d - int (n mod d))" by linarith
    moreover have "d \<le> 2 * (n mod d)" using False by auto
    ultimately show ?thesis using r by auto
  qed
qed

lemma round_half_even_bounds:
  assumes "0 < d" and "a * d \<le> n" and "n < b * d"
  shows "a \<le> round_half_even n d \<and> round_half_even n d \<le> b"
proof -
  have "a \<le> n div d" "n div d < b" using assms by (simp_all add: less_eq_div_iff_mult_less_eq div_less_iff_less_mult)
  then show ?thesis by (simp add: round_half_even_def Let_def)
qed

text \<open>The magnitude \<open>shift * 2 ^ 52 + q\<close> stands for \<open>q\<close> shifted.\<close>

lemma units_of_round:
  assumes "2 ^ 52 \<le> q" and "q \<le> 2 ^ 53" and "shift \<le> 2000"
  shows "f64_units (f64_signed False (shift * 2 ^ 52 + q)) = q * 2 ^ shift"
    and "shift * 2 ^ 52 + q < F64_INFINITY"
proof -
  have "shift * 2 ^ 52 \<le> 2000 * 2 ^ 52" using assms(3) by (rule mult_le_mono1)
  with assms(2) show inf: "shift * 2 ^ 52 + q < F64_INFINITY" by (simp add: F64_INFINITY_def)
  then have small: "shift * 2 ^ 52 + q < 2 ^ 63" by (simp add: F64_INFINITY_def)
  then have "shift * 2 ^ 52 + q < 2 ^ 64" by simp
  then have "unat (word_of_nat (shift * 2 ^ 52 + q) :: u64) = shift * 2 ^ 52 + q"
    by (simp only: unat_of_nat) simp
  with small have mag: "f64_magnitude (f64_signed False (shift * 2 ^ 52 + q)) = shift * 2 ^ 52 + q"
    by (simp add: f64_magnitude_def f64_signed_def del: of_nat_add of_nat_mult)
  have units_eq: "M div 2 ^ 52 = e \<Longrightarrow> M mod 2 ^ 52 = f \<Longrightarrow> 0 < e \<Longrightarrow> f64_magnitude x = M \<Longrightarrow>
      f64_units x = (2 ^ 52 + f) * 2 ^ (e - 1)" for M e f x
    by (simp add: f64_units_def Let_def)
  show "f64_units (f64_signed False (shift * 2 ^ 52 + q)) = q * 2 ^ shift"
  proof (cases "q = 2 ^ 53")
    case True
    then have "shift * 2 ^ 52 + q = (shift + 2) * 2 ^ 52" by simp
    then have "(shift * 2 ^ 52 + q) div 2 ^ 52 = shift + 2" "(shift * 2 ^ 52 + q) mod 2 ^ 52 = 0"
      by (metis div_mult_self_is_m mod_mult_self2_is_0 zero_less_numeral zero_less_power)+
    from units_eq [OF this _ mag] True show ?thesis by simp
  next
    case False
    with assms(1,2) obtain f where f: "q = 2 ^ 52 + f" "f < 2 ^ 52"
      using le_Suc_ex [OF assms(1)] by auto
    then have "shift * 2 ^ 52 + q = (shift + 1) * 2 ^ 52 + f" by simp
    then have "(shift * 2 ^ 52 + q) div 2 ^ 52 = shift + 1" "(shift * 2 ^ 52 + q) mod 2 ^ 52 = f"
      using f(2) by (simp_all del: mult_Suc)
    from units_eq [OF this _ mag] f show ?thesis by simp
  qed
qed

text \<open>
  For a quotient in the normal range, up to \<open>2\<^sup>2\<^sup>0\<^sup>0\<^sup>0\<close> units, the error is at most one part in \<open>2\<^sup>5\<^sup>3\<close>, and
  none at all when the significand fits.
\<close>

lemma f64_round_units:
  assumes "0 < d" and "2 ^ 52 * d \<le> n" and "n < 2 ^ 2000 * d"
  shows "\<bar>int (f64_units (f64_signed False (f64_round n d)) * d) - int n\<bar> * 2 ^ 53 \<le> int n"
    and "f64_round n d < F64_INFINITY"
    and "n = k * 2 ^ (bit_len (n div d) - 53) * d \<Longrightarrow> f64_units (f64_signed False (f64_round n d)) * d = n"
    and "n div d < 2 ^ j \<Longrightarrow> 53 \<le> j \<Longrightarrow> f64_round n d \<le> (j - 51) * 2 ^ 52"
    and "2 ^ j \<le> n div d \<Longrightarrow> 52 \<le> j \<Longrightarrow> (j - 51) * 2 ^ 52 \<le> f64_round n d"
proof -
  define shift where "shift = bit_len (n div d) - 53"
  define q where "q = round_half_even n (d * 2 ^ shift)"
  have div: "2 ^ 52 \<le> n div d" "n div d < 2 ^ 2000"
    using assms by (simp_all add: less_eq_div_iff_mult_less_eq div_less_iff_less_mult)
  then have len: "2 ^ (bit_len (n div d) - 1) \<le> n div d" "n div d < 2 ^ bit_len (n div d)" using bit_len_bounds [of "n div d"] by auto
  have "(2 :: nat) ^ 52 < 2 ^ bit_len (n div d)" using div(1) len(2) by (rule le_less_trans)
  then have "52 < bit_len (n div d)" by (rule power_less_imp_less_exp [rotated]) simp
  then have bl: "bit_len (n div d) = shift + 53" by (simp add: shift_def)
  have "bit_len (n div d) \<le> 2000" using div(2) by (rule bit_len_mono_pow)
  then have shift: "shift \<le> 2000" using bl by simp
  have lo: "2 ^ 52 * (d * 2 ^ shift) \<le> n" and hi: "n < 2 ^ 53 * (d * 2 ^ shift)"
  proof -
    have "2 ^ (shift + 52) \<le> n div d" "n div d < 2 ^ (shift + 53)" using len bl by (simp_all add: add.commute)
    then have "2 ^ (shift + 52) * d \<le> n" "n < 2 ^ (shift + 53) * d"
      using assms(1) by (simp_all add: less_eq_div_iff_mult_less_eq div_less_iff_less_mult)
    then show "2 ^ 52 * (d * 2 ^ shift) \<le> n" "n < 2 ^ 53 * (d * 2 ^ shift)" by (simp_all add: power_add ac_simps)
  qed
  have d: "0 < d * 2 ^ shift" using assms(1) by simp
  have q: "2 ^ 52 \<le> q" "q \<le> 2 ^ 53" using round_half_even_bounds [OF d lo hi] by (simp_all add: q_def)
  note units = units_of_round [OF q shift]
  have round: "f64_round n d = shift * 2 ^ 52 + q"
    using units(2) by (simp add: f64_round_def shift_def [symmetric] q_def [symmetric] Let_def)
  have rounded: "f64_units (f64_signed False (f64_round n d)) = q * 2 ^ shift" unfolding round by (rule units(1))
  show "f64_round n d < F64_INFINITY" using units(2) by (simp only: round)
  have "2 * \<bar>int (q * (d * 2 ^ shift)) - int n\<bar> \<le> int (d * 2 ^ shift)"
    unfolding q_def by (rule round_half_even_error [OF d])
  moreover have "2 ^ 52 * int (d * 2 ^ shift) \<le> int n" using lo by (metis of_nat_le_iff of_nat_mult of_nat_numeral of_nat_power)
  ultimately have "\<bar>int (q * (d * 2 ^ shift)) - int n\<bar> * 2 ^ 53 \<le> int n" by simp
  then show "\<bar>int (f64_units (f64_signed False (f64_round n d)) * d) - int n\<bar> * 2 ^ 53 \<le> int n"
    by (simp add: rounded ac_simps)
  show "f64_round n d \<le> (j - 51) * 2 ^ 52" if "n div d < 2 ^ j" "53 \<le> j"
  proof -
    have "shift \<le> j - 53" using bit_len_mono_pow [OF that(1)] by (simp add: shift_def)
    then have "shift * 2 ^ 52 + q \<le> (j - 53) * 2 ^ 52 + 2 * 2 ^ 52" using q(2) by (intro add_mono mult_le_mono1) simp_all
    also have "\<dots> = (j - 51) * 2 ^ 52" using that(2) by (simp add: add_mult_distrib [symmetric])
    finally show ?thesis by (simp only: round)
  qed
  show "(j - 51) * 2 ^ 52 \<le> f64_round n d" if "2 ^ j \<le> n div d" "52 \<le> j"
  proof -
    have "(2 :: nat) ^ j < 2 ^ bit_len (n div d)" using that(1) len(2) by (rule le_less_trans)
    then have "(2 :: nat) ^ j < 2 ^ (shift + 53)" by (simp only: bl)
    then have "j < shift + 53" by (rule power_less_imp_less_exp [rotated]) simp
    then have "(j - 52) * 2 ^ 52 + 2 ^ 52 \<le> shift * 2 ^ 52 + q" using q(1) by (intro add_mono mult_le_mono1) simp_all
    moreover have "(j - 51) * 2 ^ 52 = (j - 52) * 2 ^ 52 + 2 ^ (52 :: nat)" using that(2) by (cases "j - 52") (simp_all add: Suc_diff_le)
    ultimately show ?thesis by (simp only: round)
  qed
  show "f64_units (f64_signed False (f64_round n d)) * d = n" if "n = k * 2 ^ (bit_len (n div d) - 53) * d"
  proof -
    have "n = k * (d * 2 ^ shift)" using that by (simp add: shift_def [symmetric] ac_simps)
    then have "q * (d * 2 ^ shift) = n" unfolding q_def by (simp add: round_half_even_exact [OF d])
    then show ?thesis by (simp add: rounded ac_simps)
  qed
qed

section \<open>Milliseconds to seconds and back\<close>

lemma f64_signed_pos:
  assumes "m < F64_INFINITY"
  shows "f64_magnitude (f64_signed False m) = m" "\<not> f64_negative (f64_signed False m)" "\<not> f64_is_nan (f64_signed False m)"
    "\<not> f64_is_infinite (f64_signed False m)"
proof -
  have "m < 2 ^ 63" using assms by (simp add: F64_INFINITY_def)
  moreover from this have "m < 2 ^ 64" by simp
  then have "unat (word_of_nat m :: u64) = m" by (simp only: unat_of_nat) simp
  ultimately show "f64_magnitude (f64_signed False m) = m" "\<not> f64_negative (f64_signed False m)"
    by (simp_all add: f64_magnitude_def f64_signed_def f64_negative_def)
  with assms show "\<not> f64_is_nan (f64_signed False m)" "\<not> f64_is_infinite (f64_signed False m)"
    by (simp_all add: f64_is_nan_def f64_is_infinite_def)
qed

lemma f64_is_finite_magnitude: "f64_is_finite x \<longleftrightarrow> f64_magnitude x < F64_INFINITY"
proof -
  have "drop_bit 52 x AND 0x7FF = take_bit 11 (drop_bit 52 x)" by (simp add: take_bit_eq_mask mask_eq_exp_minus_1)
  then have "unat (drop_bit 52 x AND 0x7FF) = unat x div 2 ^ 52 mod 2 ^ 11"
    by (simp add: take_bit_eq_mod drop_bit_eq_div unat_mod unat_div)
  then have "f64_is_finite x \<longleftrightarrow> unat x div 2 ^ 52 mod 2 ^ 11 \<noteq> 2047"
    by (simp add: f64_is_finite_def word_unat_eq_iff)
  also have "unat x div 2 ^ 52 mod 2 ^ 11 = f64_magnitude x div 2 ^ 52"
  proof -
    have "f64_magnitude x = 2 ^ 52 * (unat x div 2 ^ 52 mod 2 ^ 11) + unat x mod 2 ^ 52"
      using mod_mult2_eq [of "unat x" "2 ^ 52" "2 ^ 11"] by (simp add: f64_magnitude_def)
    then show ?thesis by simp
  qed
  also have "f64_magnitude x div 2 ^ 52 \<noteq> 2047 \<longleftrightarrow> f64_magnitude x < F64_INFINITY"
  proof -
    have "f64_magnitude x < 2 ^ 63" by (simp add: f64_magnitude_def)
    then show ?thesis by (simp add: F64_INFINITY_def) linarith
  qed
  finally show ?thesis .
qed

lemma f64_1000: "f64_units F64_1000 = 1000 * 2 ^ 1074" "\<not> f64_negative F64_1000" "\<not> f64_is_nan F64_1000" "\<not> f64_is_infinite F64_1000"
  by (simp_all add: f64_units_def f64_magnitude_def F64_1000_def f64_negative_def f64_is_nan_def f64_is_infinite_def F64_INFINITY_def)

lemma f64_of_u64_max: "1086 * 2 ^ 52 \<le> f64_magnitude (f64_of_u64 (- 1))" "\<not> f64_negative (f64_of_u64 (- 1))"
    "\<not> f64_is_nan (f64_of_u64 (- 1))"
proof -
  let ?n = "(2 ^ 64 - 1) * 2 ^ 1074 :: nat"
  have max: "f64_of_u64 (- 1) = f64_signed False (f64_round ?n 1)"
    by (simp add: f64_of_u64_def unsigned_minus_1_eq_mask mask_eq_exp_minus_1)
  have lo: "2 ^ 1137 \<le> ?n div 1" and hi: "?n < 2 ^ 2000 * 1"
    by simp_all
  have lo': "2 ^ 52 * 1 \<le> ?n" by simp
  note round = f64_round_units [OF _ lo' hi]
  have "(1137 - 51) * 2 ^ 52 \<le> f64_round ?n 1" by (rule round(5) [OF _ lo]) simp_all
  moreover have "f64_round ?n 1 < F64_INFINITY" by (rule round(2)) simp
  ultimately show "1086 * 2 ^ 52 \<le> f64_magnitude (f64_of_u64 (- 1))" "\<not> f64_negative (f64_of_u64 (- 1))"
      "\<not> f64_is_nan (f64_of_u64 (- 1))"
    unfolding max by (simp_all add: f64_signed_pos)
qed

lemma f64_of_u64_exact:
  assumes "0 < unat w" and "unat w < 2 ^ 51"
  shows "f64_units (f64_of_u64 w) = unat w * 2 ^ 1074" "f64_round (unat w * 2 ^ 1074) 1 < F64_INFINITY"
proof -
  have lo: "2 ^ 52 * 1 \<le> unat w * 2 ^ 1074"
  proof -
    have "(2 :: nat) ^ 52 \<le> 2 ^ 1074" by (rule power_increasing) simp_all
    with assms(1) show ?thesis by (metis One_nat_def Suc_leI le_trans mult.right_neutral mult_le_mono1 nat_mult_1)
  qed
  have up: "unat w * 2 ^ 1074 < 2 ^ 1125"
    using mult_strict_right_mono [OF assms(2), of "2 ^ 1074"] by (simp add: power_add [symmetric])
  then have hi: "unat w * 2 ^ 1074 < 2 ^ 2000 * 1"
    using power_increasing [of 1125 2000 "2 :: nat"] by linarith
  show "f64_round (unat w * 2 ^ 1074) 1 < F64_INFINITY" by (rule f64_round_units(2) [OF _ lo hi]) simp
  define s where "s = bit_len (unat w * 2 ^ 1074 div 1) - 53"
  have "s \<le> 1074" using bit_len_mono_pow [OF up] by (simp add: s_def)
  then have "(2 :: nat) ^ 1074 = 2 ^ (1074 - s) * 2 ^ s" by (simp add: power_add [symmetric])
  then have "unat w * 2 ^ 1074 = (unat w * 2 ^ (1074 - s)) * 2 ^ s * 1" by (simp only: ac_simps mult_1_right)
  from f64_round_units(3) [OF _ lo hi this [unfolded s_def]] show "f64_units (f64_of_u64 w) = unat w * 2 ^ 1074"
    by (simp add: f64_of_u64_def)
qed

text \<open>Two roundings, each of at most one part in \<open>2\<^sup>5\<^sup>3\<close>, move a value below \<open>2\<^sup>5\<^sup>1\<close> by less than one unit.\<close>

lemma two_roundings:
  fixes x y z u m :: int
  assumes "x = m * u" and "m < 2 ^ 51" and "0 < u" and "\<bar>y - x\<bar> * 2 ^ 53 \<le> x" and "\<bar>z - y\<bar> * 2 ^ 53 \<le> y"
  shows "\<bar>z - x\<bar> < u"
proof -
  have "x \<le> (2 ^ 51 - 1) * u" unfolding assms(1) using assms(2,3) by (intro mult_right_mono) simp_all
  moreover have "y \<le> 2 * x"
  proof -
    have "0 \<le> x" by (rule order_trans [OF _ assms(4)]) simp
    moreover have "(y - x) * 2 ^ 53 \<le> x" by (rule order_trans [OF _ assms(4)]) (rule mult_right_mono, simp_all)
    ultimately show ?thesis by simp
  qed
  moreover have "0 \<le> \<bar>z - x\<bar> * 2 ^ 53 \<and> \<bar>z - x\<bar> * 2 ^ 53 \<le> \<bar>z - y\<bar> * 2 ^ 53 + \<bar>y - x\<bar> * 2 ^ 53"
  proof
    show "\<bar>z - x\<bar> * 2 ^ 53 \<le> \<bar>z - y\<bar> * 2 ^ 53 + \<bar>y - x\<bar> * 2 ^ 53"
      unfolding distrib_right [symmetric] by (intro mult_right_mono) simp_all
  qed simp
  ultimately have "\<bar>z - x\<bar> * 2 ^ 53 \<le> 3 * x" using assms(4,5) by linarith
  with \<open>x \<le> (2 ^ 51 - 1) * u\<close> assms(3) have "\<bar>z - x\<bar> * 2 ^ 53 < u * 2 ^ 53" by simp
  then show ?thesis by (rule mult_right_less_imp_less) simp
qed

lemma unscale_error:
  assumes "\<bar>int (a * u) - int (b * u)\<bar> * k \<le> int (b * u)" and "0 < u"
  shows "\<bar>int a - int b\<bar> * k \<le> int b"
proof -
  have "int (a * u) - int (b * u) = (int a - int b) * int u" by (simp add: algebra_simps)
  then have "(\<bar>int a - int b\<bar> * k) * int u \<le> int b * int u"
    using assms(1) by (simp add: abs_mult ac_simps)
  then show ?thesis using assms(2) by simp
qed

lemma near_twice:
  assumes "\<bar>int a - int b\<bar> * 2 ^ 53 \<le> int b"
  shows "b \<le> 2 * a \<and> a \<le> 2 * b"
proof -
  define t where "t = \<bar>int a - int b\<bar>"
  have "int a - int b \<le> t" "int b - int a \<le> t" "0 \<le> t" "t * 2 ^ 53 \<le> int b" using assms by (simp_all add: t_def)
  then have "int b \<le> 2 * int a" "int a \<le> 2 * int b" by simp_all
  then show ?thesis by simp
qed

lemma f64_1000_ops:
  assumes "\<not> f64_negative x" and "f64_is_finite x"
  shows "f64_div x F64_1000 = f64_signed False (f64_round (f64_units x * 2 ^ 1074) (1000 * 2 ^ 1074))"
    and "f64_mul x F64_1000 = f64_signed False (f64_round (f64_units x * (1000 * 2 ^ 1074)) (2 ^ 1074))"
proof -
  have x: "\<not> f64_is_nan x" "\<not> f64_is_infinite x"
    using assms(2) by (simp_all add: f64_is_finite_magnitude f64_is_nan_def f64_is_infinite_def)
  show "f64_div x F64_1000 = f64_signed False (f64_round (f64_units x * 2 ^ 1074) (1000 * 2 ^ 1074))"
    unfolding f64_div_def f64_1000(1) using x assms(1) f64_1000 by (simp add: Let_def)
  show "f64_mul x F64_1000 = f64_signed False (f64_round (f64_units x * (1000 * 2 ^ 1074)) (2 ^ 1074))"
    unfolding f64_mul_def f64_1000(1) using x assms(1) f64_1000 by (simp add: Let_def)
qed

text \<open>A number of milliseconds, of any size, is a finite non-negative number of seconds.\<close>

lemma f64_secs_finite:
  assumes "0 < unat w"
  shows "f64_is_finite (f64_div (f64_of_u64 w) F64_1000)"
proof -
  define u :: nat where "u = 2 ^ 1074"
  have u: "2 ^ 70 \<le> u" unfolding u_def by (rule power_increasing) simp_all
  have w: "unat w < 2 ^ 64" using unsigned_less [where ?'a = nat, of w] by simp
  have up: "unat w * u < 2 ^ 1138"
    using mult_strict_right_mono [OF w, of u] u by (simp add: u_def power_add [symmetric])
  have uw: "u \<le> unat w * u" using assms by (cases "unat w") simp_all
  have "2 ^ 52 \<le> u" using u by simp
  then have lo: "2 ^ 52 * 1 \<le> unat w * u" using le_trans [OF _ uw] by simp
  have hi: "unat w * u < 2 ^ 2000 * 1" using up power_increasing [of 1138 2000 "2 :: nat"] by linarith
  note round = f64_round_units [OF zero_less_one lo hi]
  have a: "f64_of_u64 w = f64_signed False (f64_round (unat w * u) 1)" by (simp add: f64_of_u64_def u_def)
  define n where "n = f64_units (f64_of_u64 w)"
  have "\<bar>int n - int (unat w * u)\<bar> * 2 ^ 53 \<le> int (unat w * u)"
    using round(1) by (simp add: n_def a)
  from near_twice [OF this] have near: "unat w * u \<le> 2 * n" "n \<le> 2 * (unat w * u)" by simp_all
  have "2 ^ 52 * 1000 * 2 \<le> u" using u by simp
  then have "2 ^ 52 * 1000 * 2 \<le> 2 * n" using uw near(1) by (meson le_trans)
  then have "2 ^ 52 * 1000 \<le> n" by simp
  then have lo1: "2 ^ 52 * (1000 * u) \<le> n * u" using mult_le_mono1 [of "2 ^ 52 * 1000" n u] by (simp add: ac_simps)
  have "n < 2 ^ 1139" using near(2) up by simp
  then have "n < 2 ^ 2000 * 1000" using power_increasing [of 1139 2000 "2 :: nat"] by linarith
  then have hi1: "n * u < 2 ^ 2000 * (1000 * u)" using mult_strict_right_mono [of n "2 ^ 2000 * 1000" u] u by (simp add: ac_simps)
  have "0 < 1000 * u" using u by simp
  from f64_round_units(2) [OF this lo1 hi1] have r: "f64_round (n * u) (1000 * u) < F64_INFINITY" .
  have "\<not> f64_negative (f64_of_u64 w)" "f64_is_finite (f64_of_u64 w)"
    using f64_signed_pos [OF round(2)] round(2) by (simp_all add: a f64_is_finite_magnitude)
  from f64_1000_ops(1) [OF this] r f64_signed_pos(1) [OF r] show ?thesis
    by (simp only: f64_is_finite_magnitude n_def u_def)
qed

text \<open>
  Dividing a number of milliseconds by 1000 and multiplying the double again gives a non-negative
  finite double whose truncation is that number or one less.
\<close>

lemma millis_secs_millis:
  assumes "0 < unat w" and "unat w < 2 ^ 51"
  defines "secs \<equiv> f64_div (f64_of_u64 w) F64_1000"
  defines "millis \<equiv> f64_mul secs F64_1000"
  shows "\<not> f64_negative secs" "f64_is_finite secs" "f64_is_finite millis" "\<not> f64_less (f64_of_u64 (- 1)) millis"
    "unat (f64_as_u64 millis) \<in> {unat w - 1, unat w}"
proof -
  define m where "m = unat w"
  define u :: nat where "u = 2 ^ 1074"
  have u: "2 ^ 62 \<le> u" unfolding u_def by (rule power_increasing) simp_all
  have m: "0 < m" "m < 2 ^ 51" using assms(1,2) by (simp_all add: m_def)
  have w: "f64_units (f64_of_u64 w) = m * u" "\<not> f64_negative (f64_of_u64 w)" "\<not> f64_is_nan (f64_of_u64 w)" "\<not> f64_is_infinite (f64_of_u64 w)"
    using f64_of_u64_exact [OF assms(1,2)] f64_signed_pos by (simp_all add: f64_of_u64_def m_def u_def)
  have thousand: "f64_units F64_1000 = 1000 * u" by (simp only: f64_1000(1) u_def)
  have lim: "m * u < 2 ^ 1125"
    using mult_strict_right_mono [OF m(2), of u] u by (simp add: u_def power_add [symmetric])

  have um: "u \<le> m * u" using m(1) by (cases m) simp_all
  have lo1: "2 ^ 52 * (1000 * u) \<le> m * u * u"
  proof -
    have "2 ^ 52 * 1000 \<le> u" using u by simp
    then have "2 ^ 52 * 1000 \<le> m * u" using um by (rule le_trans)
    from mult_le_mono1 [OF this, of u] show ?thesis by (simp add: ac_simps)
  qed
  have hi1: "m * u * u < 2 ^ 2000 * (1000 * u)"
  proof -
    have "m * u < 2 ^ 2000 * 1000" using lim power_increasing [of 1125 2000 "2 :: nat"] by linarith
    from mult_strict_right_mono [OF this, of u] u show ?thesis by (simp add: ac_simps)
  qed
  define r1 where "r1 = f64_round (m * u * u) (1000 * u)"
  have d1: "0 < 1000 * u" using u by simp
  have secs: "secs = f64_signed False r1"
    using w f64_1000 u by (simp add: secs_def f64_div_def thousand r1_def u_def [symmetric])
  note round1 = f64_round_units [OF d1 lo1 hi1, folded r1_def]
  define y where "y = 1000 * f64_units secs"
  have y: "\<bar>int y - int (m * u)\<bar> * 2 ^ 53 \<le> int (m * u)"
  proof (rule unscale_error)
    show "\<bar>int (y * u) - int (m * u * u)\<bar> * 2 ^ 53 \<le> int (m * u * u)"
      using round1(1) by (simp add: secs y_def ac_simps)
  qed (use u in simp)
  show "\<not> f64_negative secs" "f64_is_finite secs"
    using f64_signed_pos [OF round1(2)] round1(2) by (simp_all add: secs f64_is_finite_magnitude)

  have "m * u \<le> 2 * y" "y \<le> 2 * (m * u)" using near_twice [OF y] by simp_all
  then have "u \<le> 2 * y" using um by (meson le_trans)
  then have y_lim: "2 ^ 52 \<le> y" "y < 2 ^ 1126" using u lim \<open>y \<le> 2 * (m * u)\<close> by simp_all
  then have "y < 2 ^ 2000" using power_increasing [of 1126 2000 "2 :: nat"] by linarith
  then have lo2: "2 ^ 52 * u \<le> y * u" and hi2: "y * u < 2 ^ 2000 * u" using y_lim(1) u by simp_all
  define r2 where "r2 = f64_round (y * u) u"
  have u0: "0 < u" using u by simp
  have millis: "millis = f64_signed False r2"
    using f64_signed_pos [OF round1(2)] f64_1000
    by (simp add: millis_def secs f64_mul_def thousand r2_def y_def u_def [symmetric] ac_simps)
  note round2 = f64_round_units [OF u0 lo2 hi2, folded r2_def]
  define z where "z = f64_units millis"
  have z: "\<bar>int z - int y\<bar> * 2 ^ 53 \<le> int y"
  proof (rule unscale_error)
    show "\<bar>int (z * u) - int (y * u)\<bar> * 2 ^ 53 \<le> int (y * u)"
      using round2(1) by (simp add: millis z_def ac_simps)
  qed (rule u0)
  note pos = f64_signed_pos [OF round2(2), folded millis]
  show finite: "f64_is_finite millis" using pos(1) round2(2) by (simp add: f64_is_finite_magnitude)
  have "r2 \<le> (1126 - 51) * 2 ^ 52"
    by (rule round2(4)) (use y_lim(2) u in simp_all)
  then show "\<not> f64_less (f64_of_u64 (- 1)) millis"
    using f64_of_u64_max pos by (simp add: f64_less_def f64_key_def)
  have "\<bar>int z - int (m * u)\<bar> < int u"
    using two_roundings [OF _ _ _ y z, of "int m" "int u"] m u by simp
  then have "int (m * u) < int (z + u)" "int z < int (m * u + u)" by (simp_all add: abs_less_iff)
  then have "m * u < z + u" "z < m * u + u" by (simp_all only: of_nat_less_iff)
  then have "(m - 1) * u \<le> z" "z < (m + 1) * u" by (simp_all add: diff_mult_distrib)
  then have div: "m - 1 \<le> z div u" "z div u < m + 1"
    using u0 by (simp_all add: less_eq_div_iff_mult_less_eq div_less_iff_less_mult)
  have "\<not> 2 ^ 64 \<le> z div u" using div(2) m(2) by simp
  then have "f64_as_u64 millis = word_of_nat (z div u)"
    unfolding f64_as_u64_def z_def u_def using pos by (simp only: if_False simp_thms)
  moreover have "unat (word_of_nat (z div u) :: u64) = z div u"
    using div(2) m(2) by (simp only: unat_of_nat) simp
  ultimately show "unat (f64_as_u64 millis) \<in> {unat w - 1, unat w}" using div by (auto simp: m_def)
qed

section \<open>Evaluation\<close>

lemma round_half_even_scale: "0 < k \<Longrightarrow> round_half_even (n * k) (d * k) = round_half_even n d"
proof -
  assume k: "0 < k"
  then have "2 * (n * k mod (d * k)) < d * k \<longleftrightarrow> 2 * (n mod d) < d" "2 * (n * k mod (d * k)) = d * k \<longleftrightarrow> 2 * (n mod d) = d"
    by (simp_all add: mod_mult_mult2 mult.assoc [symmetric])
  with k show ?thesis by (simp add: round_half_even_def Let_def)
qed

lemma f64_round_at:
  assumes "N = n * 2 ^ s * k" and "D = d * k" and "0 < d" and "0 < k" and "2 ^ 52 * d \<le> n" and "n < 2 ^ 53 * d"
  shows "f64_round N D = min F64_INFINITY (s * 2 ^ 52 + round_half_even n d)"
proof -
  have "2 ^ (s + 52) * D \<le> N" "N < 2 ^ (s + 53) * D"
  proof -
    have "2 ^ 52 * d * (2 ^ s * k) \<le> n * (2 ^ s * k)" using assms(5) by (rule mult_le_mono1)
    then show "2 ^ (s + 52) * D \<le> N" by (simp add: assms(1,2) power_add ac_simps)
    have "n * (2 ^ s * k) < 2 ^ 53 * d * (2 ^ s * k)" using assms(4,6) by (intro mult_strict_right_mono) simp_all
    then show "N < 2 ^ (s + 53) * D" by (simp add: assms(1,2) power_add ac_simps)
  qed
  moreover have D: "0 < D" using assms(2-4) by simp
  ultimately have div: "2 ^ (s + 52) \<le> N div D" "N div D < 2 ^ (s + 53)"
    by (simp_all add: less_eq_div_iff_mult_less_eq div_less_iff_less_mult)
  then have "0 < N div D" by (cases "N div D = 0") simp_all
  with div(1) bit_len_bounds [of "N div D"] have "(2 :: nat) ^ (s + 52) < 2 ^ bit_len (N div D)" by (meson le_less_trans)
  then have "s + 52 < bit_len (N div D)" by (rule power_less_imp_less_exp [rotated]) simp
  with bit_len_mono_pow [OF div(2)] have "bit_len (N div D) = s + 53" by simp
  moreover have "round_half_even N (D * 2 ^ s) = round_half_even n d"
    using round_half_even_scale [of "2 ^ s * k" n d] assms(4) by (simp add: assms(1,2) ac_simps)
  ultimately show ?thesis by (simp add: f64_round_def)
qed

text \<open>The double nearest to 1.001, times 1000, is just below 1001.\<close>

lemma lost_millisecond: "f64_as_u64 (f64_mul (f64_div (f64_of_u64 1001) F64_1000) F64_1000) = 1000"
proof -
  have w: "f64_of_u64 1001 = 0x408F480000000000"
  proof -
    have "f64_round (1001 * 2 ^ 1074) 1 = 0x408F480000000000"
      by (subst f64_round_at [where n = "1001 * 2 ^ 43" and s = 1031 and k = 1 and d = 1])
        (simp_all add: round_half_even_def F64_INFINITY_def)
    then show ?thesis by (simp add: f64_of_u64_def f64_signed_def)
  qed
  have units: "f64_units 0x408F480000000000 = 1001 * 2 ^ 1074" "f64_units 0x3FF004189374BC6A = 0x1004189374BC6A * 2 ^ 1022"
    by (simp_all add: f64_units_def f64_magnitude_def)
  have fin: "\<not> f64_negative 0x408F480000000000" "f64_is_finite 0x408F480000000000"
      "\<not> f64_negative 0x3FF004189374BC6A" "f64_is_finite 0x3FF004189374BC6A"
    by (simp_all add: f64_negative_def f64_is_finite_magnitude f64_magnitude_def F64_INFINITY_def)
  have signed: "f64_signed False 0x3FF004189374BC6A = 0x3FF004189374BC6A" "f64_signed False 0x408F47FFFFFFFFFF = 0x408F47FFFFFFFFFF"
    by (simp_all add: f64_signed_def)
  have secs: "f64_div 0x408F480000000000 F64_1000 = 0x3FF004189374BC6A"
  proof -
    have "f64_round (1001 * 2 ^ 1074 * 2 ^ 1074) (1000 * 2 ^ 1074) = 0x3FF004189374BC6A"
      by (subst f64_round_at [where n = "1001 * 2 ^ 52" and s = 1022 and k = "2 ^ 1074" and d = 1000])
        (simp_all add: round_half_even_def F64_INFINITY_def)
    then show ?thesis unfolding f64_1000_ops(1) [OF fin(1,2)] units(1) by (simp only: signed)
  qed
  have millis: "f64_mul 0x3FF004189374BC6A F64_1000 = 0x408F47FFFFFFFFFF"
  proof -
    have "f64_round (0x1004189374BC6A * 2 ^ 1022 * (1000 * 2 ^ 1074)) (2 ^ 1074) = 0x408F47FFFFFFFFFF"
      by (subst f64_round_at [where n = "0x1004189374BC6A * 1000" and s = 1031 and k = "2 ^ 1065" and d = 512])
        (simp_all add: round_half_even_def F64_INFINITY_def)
    then show ?thesis unfolding f64_1000_ops(2) [OF fin(3,4)] units(2) by (simp only: signed)
  qed
  show ?thesis
    unfolding w secs millis
    by (simp add: f64_as_u64_def f64_is_nan_def f64_is_infinite_def f64_negative_def f64_magnitude_def F64_INFINITY_def f64_units_def)
qed

lemma f64_zero: "f64_of_u64 0 = 0" "f64_div 0 F64_1000 = 0" "f64_mul 0 F64_1000 = 0" "f64_as_u64 0 = 0" "f64_is_finite 0"
    "\<not> f64_negative 0" "\<not> f64_less (f64_of_u64 (- 1)) 0"
proof -
  have round: "f64_round 0 d = 0" if "0 < d" for d
    using that by (simp add: f64_round_def bit_len.simps round_half_even_def)
  have zero: "f64_units 0 = 0" "f64_magnitude 0 = 0" "\<not> f64_negative 0" "\<not> f64_is_nan 0" "\<not> f64_is_infinite 0" "f64_signed False 0 = 0"
    by (simp_all add: f64_units_def f64_magnitude_def f64_negative_def f64_is_nan_def f64_is_infinite_def F64_INFINITY_def f64_signed_def)
  show "\<not> f64_negative 0" by (rule zero)
  show "f64_of_u64 0 = 0" "f64_is_finite 0" by (simp_all add: f64_of_u64_def round zero f64_is_finite_magnitude F64_INFINITY_def)
  show "f64_as_u64 0 = 0" by (simp add: f64_as_u64_def zero)
  show "f64_div 0 F64_1000 = 0"
    unfolding f64_div_def by (simp add: zero f64_1000 round)
  show "f64_mul 0 F64_1000 = 0"
    unfolding f64_mul_def by (simp add: zero f64_1000 round)
  show "\<not> f64_less (f64_of_u64 (- 1)) 0"
    using f64_of_u64_max by (simp add: f64_less_def f64_key_def zero)
qed

end
