(* ===== verification/Hyf_Bridge_LXMF.thy ===== *)
theory Hyf_Bridge_LXMF
  imports Hyf_Bridge Hyf_Float
begin

text \<open>
  The LXMF adapter of the bridge, crate \<open>hyf_bridge_lxmf\<close>: content-only LXMF messages to bridge
  messages and back (\<open>src/crates/hyf_bridge_lxmf/src/{params,error,convert}.rs\<close>). LXMF carries the
  time as a double of seconds, a bridge message as milliseconds.
\<close>

section \<open>Parameters and errors\<close>

definition LXMF_BRIDGE_MESSAGE_MAX_LEN :: usize where "LXMF_BRIDGE_MESSAGE_MAX_LEN = LXMF_MESSAGE_MAX_LEN"

record lxmf_bridge_ingress_params =
  li_room_id :: community_id
  li_message_id :: message_id

record lxmf_bridge_egress_params =
  lo_destination_hash :: "u8 list"
  lo_source_hash :: "u8 list"
  lo_signature :: "u8 list"

datatype lxmf_bridge_error =
    LbLxmf lxmf_error
  | LbBridge bridge_error
  | NonEmptyTitle
  | NonEmptyFields
  | StampPresent
  | EmptyContent
  | InvalidContentUtf8
  | NegativeTimestamp
  | TimestampOverflow
  | LbUnsupportedPayloadKind bridge_payload_kind

definition EMPTY_FIELDS_MAP :: "u8 list" where "EMPTY_FIELDS_MAP = [0x80]"

section \<open>Ingress\<close>

record lxmf_bridge_ingress =
  lb_message :: lxmf_message
  lb_params :: lxmf_bridge_ingress_params
  lb_source_hash :: "u8 list"
  lb_created_at_ms :: timestamp_ms
  lb_content :: "u8 list"

definition lxmf_ingress_meta :: "lxmf_bridge_ingress \<Rightarrow> bridge_ingress_meta" where
  "lxmf_ingress_meta ingress = \<lparr>origin_protocol = LxmfProtocol, verification_state = Unverified\<rparr>"

definition lxmf_ingress_message :: "lxmf_bridge_ingress \<Rightarrow> bridge_message" where
  "lxmf_ingress_message ingress =
     \<lparr>bm_version = HYF_BRIDGE_MESSAGE_VERSION_0, bm_room_id = li_room_id (lb_params ingress),
      bm_message_id = li_message_id (lb_params ingress),
      bm_author = \<lparr>be_kind = ForeignAuthor Lxmf, be_id = lb_source_hash ingress\<rparr>,
      bm_created_at_ms = lb_created_at_ms ingress, bm_payload_kind = TextUtf8, bm_payload = lb_content ingress\<rparr>"

definition validate_content_only_payload :: "lxmf_payload \<Rightarrow> (unit, lxmf_bridge_error) result" where
  "validate_content_only_payload payload =
     (if lp_title payload \<noteq> [] then Err NonEmptyTitle
      else if lp_fields payload \<noteq> EMPTY_FIELDS_MAP then Err NonEmptyFields
      else if lp_stamp payload \<noteq> None then Err StampPresent
      else if lp_content payload = [] then Err EmptyContent
      else if \<not> utf8_valid (lp_content payload) then Err InvalidContentUtf8
      else Ok ())"

definition timestamp_secs_to_ms :: "f64 \<Rightarrow> (timestamp_ms, lxmf_bridge_error) result" where
  "timestamp_secs_to_ms timestamp_secs =
     (if f64_less timestamp_secs 0 then Err NegativeTimestamp
      else let millis = f64_mul timestamp_secs F64_1000 in
        if \<not> f64_is_finite millis \<or> f64_less (f64_of_u64 (- 1)) millis then Err TimestampOverflow
        else Ok (TimestampMs (f64_as_u64 millis)))"

definition lxmf_message_to_bridge_message ::
  "u8 list \<Rightarrow> lxmf_bridge_ingress_params \<Rightarrow> (lxmf_bridge_ingress, lxmf_bridge_error) result" where
  "lxmf_message_to_bridge_message raw params =
     rbind (map_err LbLxmf (decode_lxmf_message raw)) (\<lambda>message.
     let payload = lm_payload message in
     rbind (validate_content_only_payload payload) (\<lambda>_.
     rbind (timestamp_secs_to_ms (lp_timestamp_secs payload)) (\<lambda>created_at_ms.
       Ok \<lparr>lb_message = message, lb_params = params, lb_source_hash = lm_source_hash message,
           lb_created_at_ms = created_at_ms, lb_content = lp_content payload\<rparr>)))"

section \<open>Egress\<close>

definition validate_lxmf_egress :: "bridge_message \<Rightarrow> (unit, lxmf_bridge_error) result" where
  "validate_lxmf_egress message =
     (if bm_payload_kind message \<noteq> TextUtf8 then Err (LbUnsupportedPayloadKind (bm_payload_kind message))
      else if bm_payload message = [] then Err EmptyContent
      else if \<not> utf8_valid (bm_payload message) then Err InvalidContentUtf8
      else rbind (map_err LbBridge (bridge_message_encoded_len message)) (\<lambda>_. Ok ()))"

definition lxmf_payload_of :: "bridge_message \<Rightarrow> lxmf_payload" where
  "lxmf_payload_of message =
     \<lparr>lp_timestamp_secs = f64_div (f64_of_u64 (ms (bm_created_at_ms message))) F64_1000, lp_title = [],
      lp_content = bm_payload message, lp_fields = EMPTY_FIELDS_MAP, lp_stamp = None\<rparr>"

definition bridge_message_to_lxmf_message_fixture ::
  "bridge_message \<Rightarrow> lxmf_bridge_egress_params \<Rightarrow> (u8 list, usize, lxmf_bridge_error) stm" where
  "bridge_message_to_lxmf_message_fixture message params =
     sbind (slift (validate_lxmf_egress message)) (\<lambda>_.
       smap_err LbLxmf (encode_lxmf_message (lo_destination_hash params) (lo_source_hash params) (lo_signature params)
         (lxmf_payload_of message)))"

section \<open>Time\<close>

lemma f64_not_less_zero: "\<not> f64_negative x \<Longrightarrow> \<not> f64_less x 0"
  by (simp add: f64_less_def f64_key_def f64_negative_def f64_magnitude_def)

lemma secs_finite: "f64_is_finite (f64_div (f64_of_u64 t) F64_1000)"
  using f64_secs_finite [of t] by (cases "t = 0") (simp_all add: f64_zero unat_gt_0)

lemma timestamp_roundtrip:
  assumes "unat t < 2 ^ 51"
  shows "\<exists>t'. timestamp_secs_to_ms (f64_div (f64_of_u64 t) F64_1000) = Ok (TimestampMs t') \<and> unat t' \<in> {unat t - 1, unat t}"
proof (cases "t = 0")
  case True
  then show ?thesis by (simp add: f64_zero timestamp_secs_to_ms_def f64_not_less_zero)
next
  case False
  then have "0 < unat t" by (simp add: unat_gt_0)
  from millis_secs_millis [OF this assms] show ?thesis
    by (auto simp: timestamp_secs_to_ms_def Let_def f64_not_less_zero)
qed

lemma timestamp_secs_to_ms_no_panic [simp]: "timestamp_secs_to_ms x \<noteq> Panic"
  by (simp add: timestamp_secs_to_ms_def Let_def)

lemma timestamp_1001: "timestamp_secs_to_ms (f64_div (f64_of_u64 1001) F64_1000) = Ok (TimestampMs 1000)"
proof -
  have "0 < unat (1001 :: u64)" "unat (1001 :: u64) < 2 ^ 51" by simp_all
  from millis_secs_millis [OF this] show ?thesis
    by (simp add: timestamp_secs_to_ms_def Let_def f64_not_less_zero lost_millisecond)
qed

section \<open>Messages\<close>

lemma empty_fields_map: "msgpack_map EMPTY_FIELDS_MAP"
  by (simp add: msgpack_map_def EMPTY_FIELDS_MAP_def msgpack_value_Cons is_map_marker_def skip_marker_def skip_map_def reads_ret)

lemma lxmf_bridge_no_panic: "lxmf_message_to_bridge_message raw params \<noteq> Panic"
  using decode_lxmf_message_no_panic [of raw]
  by (auto simp: lxmf_message_to_bridge_message_def validate_content_only_payload_def Let_def rbind_eq_Panic split: if_splits)

lemma validate_lxmf_egress_Ok:
  "wf_bridge_message m \<Longrightarrow> validate_lxmf_egress m = Ok () \<longleftrightarrow>
     bridge_ok m \<and> bm_payload_kind m = TextUtf8 \<and> bm_payload m \<noteq> []"
  using bridge_message_encoded_len_Ok [of m]
  by (auto simp: validate_lxmf_egress_def bridge_message_encoded_len_def validate_bridge_message_Ok split: if_splits)

lemma validate_lxmf_egress_no_panic [simp]: "validate_lxmf_egress m \<noteq> Panic"
  by (auto simp: validate_lxmf_egress_def bridge_message_encoded_len_def rbind_eq_Panic split: option.splits elim!: ok_or.elims)

definition wf_lxmf_egress :: "lxmf_bridge_egress_params \<Rightarrow> bool" where
  "wf_lxmf_egress p \<longleftrightarrow> length (lo_destination_hash p) = 16 \<and> length (lo_source_hash p) = 16 \<and> length (lo_signature p) = 64"

lemma lxmf_payload_of_encodable:
  assumes "length (bm_payload m) \<le> 1024"
  shows "lxmf_encodable (lxmf_payload_of m)" "length (lxmf_payload_bytes (lxmf_payload_of m)) \<le> 1040"
proof -
  show len: "length (lxmf_payload_bytes (lxmf_payload_of m)) \<le> 1040"
    using assms(1) by (simp add: lxmf_payload_bytes_def lxmf_payload_of_def bin_bytes_def EMPTY_FIELDS_MAP_def)
  show "lxmf_encodable (lxmf_payload_of m)"
    using assms(1) len secs_finite empty_fields_map
    by (simp add: lxmf_encodable_def lxmf_payload_ok_def) (simp add: lxmf_payload_of_def EMPTY_FIELDS_MAP_def)
qed

definition lxmf_wire :: "bridge_message \<Rightarrow> lxmf_bridge_egress_params \<Rightarrow> u8 list" where
  "lxmf_wire m params = lo_destination_hash params @ lo_source_hash params @ lo_signature params @ lxmf_payload_bytes (lxmf_payload_of m)"

lemma lxmf_egress_cases:
  assumes "wf_bridge_message m" and "wf_lxmf_egress params"
  shows "bridge_message_to_lxmf_message_fixture m params out =
    (case validate_lxmf_egress m of
       Ok _ \<Rightarrow> if length out < length (lxmf_wire m params)
         then (Err (LbLxmf (LxOutputTooSmall (length (lxmf_wire m params)) (length out))), out)
         else (Ok (length (lxmf_wire m params)), lxmf_wire m params @ drop (length (lxmf_wire m params)) out)
     | Err e \<Rightarrow> (Err e, out)
     | Panic \<Rightarrow> (Panic, out))"
proof (cases "validate_lxmf_egress m")
  case (Ok u)
  then have "length (bm_payload m) \<le> 1024"
    using validate_lxmf_egress_Ok [OF assms(1)] by (simp add: validate_bridge_message_Ok)
  note enc = lxmf_payload_of_encodable(1) [OF this]
  have "length (lp_fields (lxmf_payload_of m)) \<le> usize_max" by (simp add: lxmf_payload_of_def EMPTY_FIELDS_MAP_def usize_max_def)
  with encode_lxmf_message_cases [of "lo_destination_hash params" "lo_source_hash params" "lo_signature params" "lxmf_payload_of m" out]
    enc assms(2) Ok show ?thesis
    by (simp add: bridge_message_to_lxmf_message_fixture_def sbind_def slift_def smap_err_def Let_def wf_lxmf_egress_def lxmf_wire_def)
qed (simp_all add: bridge_message_to_lxmf_message_fixture_def sbind_def slift_def)

lemma lxmf_wire_ingress:
  assumes "wf_bridge_message m" and "wf_lxmf_egress egress"
    and "validate_lxmf_egress m = Ok ()"
    and "timestamp_secs_to_ms (f64_div (f64_of_u64 (ms (bm_created_at_ms m))) F64_1000) = Ok t"
  shows "\<exists>i. lxmf_message_to_bridge_message (lxmf_wire m egress) ingress = Ok i \<and>
    lxmf_ingress_message i = m\<lparr>bm_room_id := li_room_id ingress, bm_message_id := li_message_id ingress,
      bm_author := \<lparr>be_kind = ForeignAuthor Lxmf, be_id = lo_source_hash egress\<rparr>, bm_created_at_ms := t\<rparr>"
proof -
  have m: "bm_version m = 0" "bm_payload_kind m = TextUtf8" "length (bm_payload m) \<le> 1024" "bm_payload m \<noteq> []" "utf8_valid (bm_payload m)"
    using assms(3) validate_lxmf_egress_Ok [OF assms(1)] by (simp_all add: validate_bridge_message_Ok)
  let ?p = "lxmf_payload_of m"
  have p: "lp_stamp ?p = None" "lp_title ?p = []" "lp_fields ?p = EMPTY_FIELDS_MAP" "lp_content ?p = bm_payload m"
    "lp_timestamp_secs ?p = f64_div (f64_of_u64 (ms (bm_created_at_ms m))) F64_1000"
    by (simp_all add: lxmf_payload_of_def)
  have "?p\<lparr>lp_stamp := None\<rparr> = ?p" by (simp add: lxmf_payload_of_def)
  then have "decode_lxmf_payload (lxmf_payload_bytes ?p) = Ok ?p"
    using decode_lxmf_payload_bytes [of ?p] lxmf_payload_of_encodable [OF m(3)] by (simp add: lxmf_encodable_def)
  then have "decode_lxmf_message (lxmf_wire m egress) = Ok \<lparr>lm_destination_hash = lo_destination_hash egress,
      lm_source_hash = lo_source_hash egress, lm_signature = lo_signature egress, lm_packed_payload = lxmf_payload_bytes ?p, lm_payload = ?p\<rparr>"
    using assms(2) by (simp add: decode_lxmf_message_iff lxmf_wire_def wf_lxmf_egress_def)
  moreover have "validate_content_only_payload ?p = Ok ()"
    using m by (simp add: validate_content_only_payload_def p)
  ultimately have "lxmf_message_to_bridge_message (lxmf_wire m egress) ingress =
      Ok \<lparr>lb_message = \<lparr>lm_destination_hash = lo_destination_hash egress, lm_source_hash = lo_source_hash egress,
             lm_signature = lo_signature egress, lm_packed_payload = lxmf_payload_bytes ?p, lm_payload = ?p\<rparr>,
          lb_params = ingress, lb_source_hash = lo_source_hash egress, lb_created_at_ms = t, lb_content = bm_payload m\<rparr>"
    using assms(4) by (simp add: lxmf_message_to_bridge_message_def p Let_def)
  then show ?thesis
    using m(1,2) by (cases m) (simp add: lxmf_ingress_message_def HYF_BRIDGE_MESSAGE_VERSION_0_def)
qed

section \<open>Properties\<close>

text \<open>
  C37. The LXMF bridge round trip. Only a valid, non-empty text message (here of a time below
  \<open>2\<^sup>5\<^sup>1\<close> ms) goes out, and it does whenever the buffer has 1136 bytes; a failure leaves the buffer alone, and what goes out is taken
  in again with its text unchanged, under the receiver's room and id, from the sending bridge. Its
  time passes through a double of seconds and is cut off on the way back: it comes back the same or
  one millisecond earlier, and it does come back earlier, for instance from 1001 ms.\<close>

theorem lxmf_bridge_roundtrip:
  assumes "wf_bridge_message m" and "wf_lxmf_egress egress" and "unat (ms (bm_created_at_ms m)) < 2 ^ 51"
  shows "(case bridge_message_to_lxmf_message_fixture m egress out of
       (Ok n, out') \<Rightarrow> validate_bridge_message_ref m = Ok () \<and> bm_payload_kind m = TextUtf8 \<and> bm_payload m \<noteq> [] \<and> n \<le> 1136 \<and> length out' = length out \<and> drop n out' = drop n out \<and>
         (\<exists>i t. lxmf_message_to_bridge_message (take n out') ingress = Ok i \<and>
            lxmf_ingress_message i = m\<lparr>bm_room_id := li_room_id ingress, bm_message_id := li_message_id ingress,
              bm_author := \<lparr>be_kind = ForeignAuthor Lxmf, be_id = lo_source_hash egress\<rparr>, bm_created_at_ms := TimestampMs t\<rparr> \<and>
            unat t \<in> {unat (ms (bm_created_at_ms m)) - 1, unat (ms (bm_created_at_ms m))} \<and>
            (ms (bm_created_at_ms m) = 1001 \<longrightarrow> t = 1000))
     | (Err e, out') \<Rightarrow> out' = out \<and> (validate_bridge_message_ref m \<noteq> Ok () \<or> bm_payload_kind m \<noteq> TextUtf8 \<or>
         bm_payload m = [] \<or> length out < 1136)
     | (Panic, out') \<Rightarrow> False) \<and> lxmf_message_to_bridge_message raw ingress \<noteq> Panic"
proof (cases "validate_lxmf_egress m")
  case (Ok u)
  then have ok: "validate_lxmf_egress m = Ok ()" "length (bm_payload m) \<le> 1024"
    using validate_lxmf_egress_Ok [OF assms(1)] by (simp_all add: validate_bridge_message_Ok)
  obtain t where t: "timestamp_secs_to_ms (f64_div (f64_of_u64 (ms (bm_created_at_ms m))) F64_1000) = Ok (TimestampMs t)"
    "unat t \<in> {unat (ms (bm_created_at_ms m)) - 1, unat (ms (bm_created_at_ms m))}"
    using timestamp_roundtrip [OF assms(3)] by blast
  have "length (lxmf_wire m egress) \<le> 1136"
    using lxmf_payload_of_encodable(2) [OF ok(2)] assms(2) by (simp add: lxmf_wire_def wf_lxmf_egress_def)
  moreover have "ms (bm_created_at_ms m) = 1001 \<longrightarrow> t = 1000" using t(1) timestamp_1001 by auto
  moreover have "validate_bridge_message_ref m = Ok ()" "bm_payload_kind m = TextUtf8" "bm_payload m \<noteq> []"
    using validate_lxmf_egress_Ok [OF assms(1)] ok(1) by simp_all
  ultimately show ?thesis
    using lxmf_wire_ingress [OF assms(1,2) ok(1) t(1), of ingress] t(2) lxmf_bridge_no_panic [of raw ingress]
    by (auto simp: lxmf_egress_cases [OF assms(1,2)] ok(1) not_less)
qed (use validate_lxmf_egress_Ok [OF assms(1)] lxmf_bridge_no_panic [of raw ingress] assms(1) in
  \<open>auto simp: lxmf_egress_cases [OF assms(1,2)]\<close>)

definition sample_lxmf_egress :: lxmf_bridge_egress_params where
  "sample_lxmf_egress = \<lparr>lo_destination_hash = replicate 16 1, lo_source_hash = replicate 16 2, lo_signature = replicate 64 3\<rparr>"

definition sample_lxmf_ingress :: lxmf_bridge_ingress_params where
  "sample_lxmf_ingress = \<lparr>li_room_id = CommunityId (replicate 16 4), li_message_id = MessageId (replicate 32 5)\<rparr>"

theorem lxmf_bridge_roundtrip_witness:
  "\<exists>n out' i. bridge_message_to_lxmf_message_fixture (sample_bridge_message\<lparr>bm_created_at_ms := TimestampMs 1001\<rparr>)
         sample_lxmf_egress (replicate 1200 0) = (Ok n, out') \<and>
     lxmf_message_to_bridge_message (take n out') sample_lxmf_ingress = Ok i \<and>
     bm_payload (lxmf_ingress_message i) = [104, 105] \<and> bm_created_at_ms (lxmf_ingress_message i) = TimestampMs 1000"
proof -
  let ?m = "sample_bridge_message\<lparr>bm_created_at_ms := TimestampMs 1001\<rparr>"
  have wf: "wf_bridge_message ?m" "validate_bridge_message_ref ?m = Ok ()"
    using sample_bridge_ok by (simp_all add: wf_bridge_message_def validate_bridge_message_Ok)
  have params: "wf_lxmf_egress sample_lxmf_egress" by (simp add: wf_lxmf_egress_def sample_lxmf_egress_def)
  have small: "unat (ms (bm_created_at_ms ?m)) < 2 ^ 51" by simp
  have body: "bm_payload_kind ?m = TextUtf8" "bm_payload ?m = [104, 105]" by (simp_all add: sample_bridge_message_def)
  obtain r out' where run: "bridge_message_to_lxmf_message_fixture ?m sample_lxmf_egress (replicate 1200 0) = (r, out')" by fastforce
  from lxmf_bridge_roundtrip [OF wf(1) params small, of "replicate 1200 0" sample_lxmf_ingress "[]"]
  show ?thesis unfolding run using wf(2) body by (cases r) auto
qed

end
