(* ===== verification/Hyf_Nostr.thy ===== *)
theory Hyf_Nostr
  imports Hyf_Wire
begin

text \<open>
  The event layer of the crate \<open>hyf_link_nostr\<close>: lower-case hexadecimal, keys, tags and filters,
  events, their canonical JSON serialisation and id, BIP-340 signing and verification, HYF envelopes
  in events, and the relay's status messages
  (\<open>src/crates/hyf_link_nostr/src/{constants,error,hex,keys,filter,event,canonical,signing,content,hyf,status}.rs\<close>).

  A \<open>&str\<close> is its UTF-8 bytes. The hash and the Schnorr signatures, of third-party crates, are
  fields of the parameter \<open>nostr_crypto\<close>.
\<close>

unbundle bit_operations_syntax

section \<open>Constants and errors\<close>

definition HYF_NOSTR_ENVELOPE_KIND :: u16 where "HYF_NOSTR_ENVELOPE_KIND = 9775"
definition HYF_NOSTR_MAX_ENVELOPE_BYTES :: usize where "HYF_NOSTR_MAX_ENVELOPE_BYTES = 2048"
definition HYF_NOSTR_MAX_CONTENT_CHARS :: usize where "HYF_NOSTR_MAX_CONTENT_CHARS = HYF_NOSTR_MAX_ENVELOPE_BYTES * 2"

lemmas nostr_constants = HYF_NOSTR_ENVELOPE_KIND_def HYF_NOSTR_MAX_ENVELOPE_BYTES_def HYF_NOSTR_MAX_CONTENT_CHARS_def

datatype nostr_error =
    NoContentTooLarge usize usize
  | Crypto
  | EnvelopeTooLarge usize usize
  | EventIdMismatch
  | HexLength usize usize
  | InvalidSignature
  | InvalidHexChar usize u8
  | InvalidSubscriptionId
  | MalformedMessage
  | MalformedEnvelope
  | MissingRequiredTag string
  | NonCanonicalHex usize u8
  | OddHexLength usize
  | NoOutputTooSmall usize usize
  | PublicKeyMismatch
  | RelayEventStoreFull usize
  | RelayOutputFull usize
  | RelaySubscriptionFull usize
  | StoredStringTooLarge usize usize
  | SubscriptionIdTooLong usize usize
  | TagCountTooLarge usize usize
  | TagEmpty
  | TagValueCountTooLarge usize usize
  | TagValueTooLarge usize usize
  | UnexpectedKind u16 u16
  | UnsupportedMessage
  | NoUnsupported
  | Utf8

text \<open>The bytes of an ASCII literal.\<close>

definition ascii :: "string \<Rightarrow> u8 list" where
  "ascii s = map (\<lambda>c. word_of_nat (of_char c)) s"

text \<open>Running a method on one field of a struct.\<close>

definition on_field :: "('s \<Rightarrow> 'b) \<Rightarrow> ('b \<Rightarrow> 's \<Rightarrow> 's) \<Rightarrow> ('b, 'a, 'e) stm \<Rightarrow> ('s, 'a, 'e) stm" where
  "on_field get put m s = (case m (get s) of (r, b) \<Rightarrow> (r, put b s))"

section \<open>Lower-case hexadecimal (hex.rs)\<close>

definition HEX_DIGITS :: "u8 list" where
  "HEX_DIGITS = [0x30, 0x31, 0x32, 0x33, 0x34, 0x35, 0x36, 0x37, 0x38, 0x39, 0x61, 0x62, 0x63, 0x64, 0x65, 0x66]"

text \<open>The loop over the bytes, from the given index on.\<close>

fun encode_hex_loop :: "usize \<Rightarrow> u8 list \<Rightarrow> (u8 list, unit, nostr_error) stm" where
  "encode_hex_loop index [] = sret ()"
| "encode_hex_loop index (byte # bytes) =
     sbind (\<lambda>out. case rbind (get_at HEX_DIGITS (unat (drop_bit 4 byte))) (\<lambda>digit. set_at out (index * 2) digit) of
                Ok out' \<Rightarrow> (Ok (), out') | Err e \<Rightarrow> (Err e, out) | Panic \<Rightarrow> (Panic, out)) (\<lambda>_.
     sbind (\<lambda>out. case rbind (get_at HEX_DIGITS (unat (byte AND 0x0F))) (\<lambda>digit. set_at out (index * 2 + 1) digit) of
                Ok out' \<Rightarrow> (Ok (), out') | Err e \<Rightarrow> (Err e, out) | Panic \<Rightarrow> (Panic, out)) (\<lambda>_.
       encode_hex_loop (index + 1) bytes))"

definition encode_lower_hex :: "u8 list \<Rightarrow> (u8 list, u8 list, nostr_error) stm" where
  "encode_lower_hex bytes out =
     (case checked_mul (length bytes) 2 of
        None \<Rightarrow> (Err (NoOutputTooSmall usize_max (length out)), out)
      | Some needed \<Rightarrow>
          if length out < needed then (Err (NoOutputTooSmall needed (length out)), out)
          else sbind (encode_hex_loop 0 bytes) (\<lambda>_ out.
                 (rbind (slice_to out needed) (\<lambda>hex. if utf8_valid hex then Ok hex else Err Utf8), out)) out)"

definition decode_nibble :: "u8 \<Rightarrow> usize \<Rightarrow> (u8, nostr_error) result" where
  "decode_nibble byte index =
     (if 0x30 \<le> byte \<and> byte \<le> 0x39 then Ok (byte - 0x30)
      else if 0x61 \<le> byte \<and> byte \<le> 0x66 then Ok (byte - 0x61 + 10)
      else if 0x41 \<le> byte \<and> byte \<le> 0x46 then Err (NonCanonicalHex index byte)
      else Err (InvalidHexChar index byte))"

fun decode_hex_loop :: "u8 list \<Rightarrow> usize list \<Rightarrow> (u8 list, unit, nostr_error) stm" where
  "decode_hex_loop bytes [] = sret ()"
| "decode_hex_loop bytes (index # indices) =
     sbind (slift (rbind (get_at bytes (index * 2)) (\<lambda>b. decode_nibble b (index * 2)))) (\<lambda>high.
     sbind (slift (rbind (get_at bytes (index * 2 + 1)) (\<lambda>b. decode_nibble b (index * 2 + 1)))) (\<lambda>low.
     sbind (\<lambda>out. case set_at out index (push_bit 4 high OR low) of
                Ok out' \<Rightarrow> (Ok (), out') | Err e \<Rightarrow> (Err e, out) | Panic \<Rightarrow> (Panic, out)) (\<lambda>_.
       decode_hex_loop bytes indices)))"

definition decode_lower_hex :: "u8 list \<Rightarrow> (u8 list, usize, nostr_error) stm" where
  "decode_lower_hex bytes out =
     (if length bytes mod 2 \<noteq> 0 then (Err (OddHexLength (length bytes)), out)
      else let needed = length bytes div 2 in
        if length out < needed then (Err (NoOutputTooSmall needed (length out)), out)
        else sbind (decode_hex_loop bytes [0..<needed]) (\<lambda>_. sret needed) out)"

definition decode_fixed_lower_hex :: "usize \<Rightarrow> u8 list \<Rightarrow> (u8 list, nostr_error) result" where
  "decode_fixed_lower_hex n input =
     (let expected = n * 2 in
      if length input \<noteq> expected then Err (HexLength expected (length input))
      else case decode_lower_hex input (replicate n 0) of
             (Ok _, out) \<Rightarrow> Ok out | (Err e, out) \<Rightarrow> Err e | (Panic, out) \<Rightarrow> Panic)"

section \<open>Keys (keys.rs)\<close>

type_synonym nostr_public_key = "u8 list"
type_synonym nostr_secret_key = "u8 list"
type_synonym nostr_event_id = "u8 list"
type_synonym nostr_signature = "u8 list"

definition public_key_from_hex :: "u8 list \<Rightarrow> (nostr_public_key, nostr_error) result" where
  "public_key_from_hex hex = decode_fixed_lower_hex 32 hex"

definition secret_key_from_hex :: "u8 list \<Rightarrow> (nostr_secret_key, nostr_error) result" where
  "secret_key_from_hex hex = decode_fixed_lower_hex 32 hex"

definition event_id_from_hex :: "u8 list \<Rightarrow> (nostr_event_id, nostr_error) result" where
  "event_id_from_hex hex = decode_fixed_lower_hex 32 hex"

definition signature_from_hex :: "u8 list \<Rightarrow> (nostr_signature, nostr_error) result" where
  "signature_from_hex hex = decode_fixed_lower_hex 64 hex"

definition write_hex :: "u8 list \<Rightarrow> (u8 list, u8 list, nostr_error) stm" where
  "write_hex key = encode_lower_hex key"

section \<open>Tags and filters (filter.rs)\<close>

type_synonym nostr_tag = "u8 list list"

definition NOSTR_SUBSCRIPTION_ID_MAX_LEN :: usize where "NOSTR_SUBSCRIPTION_ID_MAX_LEN = 64"

definition tag_new :: "u8 list list \<Rightarrow> (nostr_tag, nostr_error) result" where
  "tag_new values = (if values = [] then Err TagEmpty else Ok values)"

definition tag_name :: "nostr_tag \<Rightarrow> (u8 list, nostr_error) result" where
  "tag_name tag = get_at tag 0"

definition tag_value :: "nostr_tag \<Rightarrow> u8 list option" where
  "tag_value tag = (if 1 < length tag then Some (tag ! 1) else None)"

record nostr_filter =
  nf_kinds :: "u16 list"
  nf_authors :: "nostr_public_key list"
  nf_p_tags :: "nostr_public_key list"
  nf_since :: "u64 option"
  nf_until :: "u64 option"
  nf_limit :: "usize option"

record nostr_filter_target =
  ft_kind :: u16
  ft_author :: nostr_public_key
  ft_p_tags :: "nostr_public_key list"
  ft_created_at :: u64

definition filter_empty :: nostr_filter where
  "filter_empty = \<lparr>nf_kinds = [], nf_authors = [], nf_p_tags = [], nf_since = None, nf_until = None, nf_limit = None\<rparr>"

definition has_any_p_tag :: "nostr_public_key list \<Rightarrow> nostr_public_key list \<Rightarrow> bool" where
  "has_any_p_tag event_p_tags filter_p_tags \<longleftrightarrow> list_ex (\<lambda>filter_tag. filter_tag \<in> set event_p_tags) filter_p_tags"

definition matches_target :: "nostr_filter \<Rightarrow> nostr_filter_target \<Rightarrow> bool" where
  "matches_target f target \<longleftrightarrow>
     (nf_kinds f = [] \<or> ft_kind target \<in> set (nf_kinds f)) \<and>
     (nf_authors f = [] \<or> ft_author target \<in> set (nf_authors f)) \<and>
     (nf_p_tags f = [] \<or> has_any_p_tag (ft_p_tags target) (nf_p_tags f)) \<and>
     (case nf_since f of None \<Rightarrow> True | Some since \<Rightarrow> since \<le> ft_created_at target) \<and>
     (case nf_until f of None \<Rightarrow> True | Some until \<Rightarrow> ft_created_at target \<le> until)"

definition matches_any_filter :: "nostr_filter list \<Rightarrow> nostr_filter_target \<Rightarrow> bool" where
  "matches_any_filter filters target \<longleftrightarrow> list_ex (\<lambda>f. matches_target f target) filters"

definition validate_subscription_id :: "u8 list \<Rightarrow> (unit, nostr_error) result" where
  "validate_subscription_id subscription_id =
     (let len = length subscription_id in
      if len = 0 then Err InvalidSubscriptionId
      else if NOSTR_SUBSCRIPTION_ID_MAX_LEN < len then Err (SubscriptionIdTooLong len NOSTR_SUBSCRIPTION_ID_MAX_LEN)
      else Ok ())"

section \<open>Events (event.rs)\<close>

record nostr_unsigned_event =
  ne_pubkey :: nostr_public_key
  ne_created_at :: u64
  ne_kind :: u16
  ne_tags :: "nostr_tag list"
  ne_content :: "u8 list"

record nostr_event = nostr_unsigned_event +
  ne_id :: nostr_event_id
  ne_sig :: nostr_signature

definition validate_content_len :: "u8 list \<Rightarrow> (unit, nostr_error) result" where
  "validate_content_len content =
     (if HYF_NOSTR_MAX_CONTENT_CHARS < length content
      then Err (NoContentTooLarge (length content) HYF_NOSTR_MAX_CONTENT_CHARS) else Ok ())"

definition unsigned_event_new ::
  "nostr_public_key \<Rightarrow> u64 \<Rightarrow> u16 \<Rightarrow> nostr_tag list \<Rightarrow> u8 list \<Rightarrow> (nostr_unsigned_event, nostr_error) result" where
  "unsigned_event_new pubkey created_at kind tags content =
     rbind (validate_content_len content) (\<lambda>_.
       Ok \<lparr>ne_pubkey = pubkey, ne_created_at = created_at, ne_kind = kind, ne_tags = tags, ne_content = content\<rparr>)"

definition event_new ::
  "nostr_event_id \<Rightarrow> nostr_public_key \<Rightarrow> u64 \<Rightarrow> u16 \<Rightarrow> nostr_tag list \<Rightarrow> u8 list \<Rightarrow> nostr_signature \<Rightarrow>
   (nostr_event, nostr_error) result" where
  "event_new eid pubkey created_at kind tags content sig =
     rbind (validate_content_len content) (\<lambda>_.
       Ok \<lparr>ne_pubkey = pubkey, ne_created_at = created_at, ne_kind = kind, ne_tags = tags, ne_content = content,
           ne_id = eid, ne_sig = sig\<rparr>)"

definition event_unsigned :: "nostr_event \<Rightarrow> nostr_unsigned_event" where
  "event_unsigned e =
     \<lparr>ne_pubkey = ne_pubkey e, ne_created_at = ne_created_at e, ne_kind = ne_kind e, ne_tags = ne_tags e,
      ne_content = ne_content e\<rparr>"

section \<open>Canonical serialisation (canonical.rs)\<close>

text \<open>
  The trait \<open>CanonicalSink\<close> is its \<open>write\<close> method, the argument of the writers below. A
  sink is a buffer with the length written so far, or a running hash, which is the bytes absorbed.
\<close>

type_synonym 's sink = "u8 list \<Rightarrow> ('s, unit, nostr_error) stm"

definition buffer_write :: "write_cursor sink" where
  "buffer_write bytes c =
     (case checked_add (wc_index c) (length bytes) of
        None \<Rightarrow> (Err (NoOutputTooSmall usize_max (length (wc_output c))), c)
      | Some needed \<Rightarrow>
          if length (wc_output c) < needed then (Err (NoOutputTooSmall needed (length (wc_output c))), c)
          else (case copy_at (wc_output c) (wc_index c) bytes of
                  Ok out \<Rightarrow> (Ok (), c\<lparr>wc_output := out, wc_index := needed\<rparr>)
                | Err e \<Rightarrow> (Err e, c)
                | Panic \<Rightarrow> (Panic, c)))"

definition buffer_finish :: "write_cursor \<Rightarrow> (u8 list, nostr_error) result" where
  "buffer_finish c = rbind (slice_to (wc_output c) (wc_index c)) (\<lambda>s. if utf8_valid s then Ok s else Err Utf8)"

definition hash_write :: "u8 list sink" where
  "hash_write bytes absorbed = (Ok (), absorbed @ bytes)"

definition push_byte_to :: "'s sink \<Rightarrow> u8 \<Rightarrow> ('s, unit, nostr_error) stm" where
  "push_byte_to w byte = w [byte]"

definition hex_nibble :: "u8 \<Rightarrow> u8" where
  "hex_nibble value = (if value \<le> 9 then 0x30 + value else 0x61 + (value - 10))"

definition write_control_escape :: "'s sink \<Rightarrow> u8 \<Rightarrow> ('s, unit, nostr_error) stm" where
  "write_control_escape w value = w [0x5C, 0x75, 0x30, 0x30, hex_nibble (drop_bit 4 value), hex_nibble (value AND 0x0F)]"

text \<open>
  \<open>value.chars()\<close>: in valid UTF-8 a character is a byte that is not a continuation byte, with the
  continuation bytes that follow it; a single byte is an ASCII character.
\<close>

function utf8_chars :: "u8 list \<Rightarrow> u8 list list" where
  "utf8_chars [] = []"
| "utf8_chars (b # bs) = (b # takeWhile utf8_tail bs) # utf8_chars (dropWhile utf8_tail bs)"
  by pat_completeness auto

termination
  by (relation "measure length") (auto simp: le_imp_less_Suc length_dropWhile_le)

definition write_json_char :: "'s sink \<Rightarrow> u8 list \<Rightarrow> ('s, unit, nostr_error) stm" where
  "write_json_char w character =
     (if character = [0x22] then w [0x5C, 0x22]
      else if character = [0x5C] then w [0x5C, 0x5C]
      else if character = [0x0A] then w [0x5C, 0x6E]
      else if character = [0x0D] then w [0x5C, 0x72]
      else if character = [0x09] then w [0x5C, 0x74]
      else if character = [0x08] then w [0x5C, 0x62]
      else if character = [0x0C] then w [0x5C, 0x66]
      else case character of
        [value] \<Rightarrow> if value \<le> 0x1F then write_control_escape w value else w [value]
      | _ \<Rightarrow> w character)"

fun write_json_chars :: "'s sink \<Rightarrow> u8 list list \<Rightarrow> ('s, unit, nostr_error) stm" where
  "write_json_chars w [] = sret ()"
| "write_json_chars w (character # characters) =
     sbind (write_json_char w character) (\<lambda>_. write_json_chars w characters)"

definition write_json_string :: "'s sink \<Rightarrow> u8 list \<Rightarrow> ('s, unit, nostr_error) stm" where
  "write_json_string w value =
     sbind (push_byte_to w 0x22) (\<lambda>_.
     sbind (write_json_chars w (utf8_chars value)) (\<lambda>_.
       push_byte_to w 0x22))"

text \<open>The loops with a separator before every element but the first.\<close>

fun write_separated :: "'s sink \<Rightarrow> ('a \<Rightarrow> ('s, unit, nostr_error) stm) \<Rightarrow> usize \<Rightarrow> 'a list \<Rightarrow> ('s, unit, nostr_error) stm" where
  "write_separated w write_item index [] = sret ()"
| "write_separated w write_item index (item # items) =
     sbind (if 0 < index then push_byte_to w 0x2C else sret ()) (\<lambda>_.
     sbind (write_item item) (\<lambda>_.
       write_separated w write_item (index + 1) items))"

definition write_tag :: "'s sink \<Rightarrow> nostr_tag \<Rightarrow> ('s, unit, nostr_error) stm" where
  "write_tag w tag =
     sbind (push_byte_to w 0x5B) (\<lambda>_.
     sbind (write_separated w (write_json_string w) 0 tag) (\<lambda>_.
       push_byte_to w 0x5D))"

definition write_tags :: "'s sink \<Rightarrow> nostr_tag list \<Rightarrow> ('s, unit, nostr_error) stm" where
  "write_tags w tags =
     sbind (push_byte_to w 0x5B) (\<lambda>_.
     sbind (write_separated w (write_tag w) 0 tags) (\<lambda>_.
       push_byte_to w 0x5D))"

lemma u64_div_10_less: "(value :: u64) \<noteq> 0 \<Longrightarrow> unat (value div 10) < unat value"
  by (simp add: unat_div unat_gt_0)

function digits_loop :: "u8 list \<Rightarrow> usize \<Rightarrow> u64 \<Rightarrow> (u8 list \<times> usize, nostr_error) result" where
  "digits_loop scratch cursor value =
     (if value = 0 then Ok (scratch, cursor)
      else if cursor = 0 then Panic
      else rbind (set_at scratch (cursor - 1) (0x30 + ucast (value mod 10))) (\<lambda>scratch.
             digits_loop scratch (cursor - 1) (value div 10)))"
  by pat_completeness auto

termination
  by (relation "measure (\<lambda>(scratch, cursor, value). unat value)") (auto simp: u64_div_10_less)

declare digits_loop.simps [simp del]

definition write_u64_to :: "'s sink \<Rightarrow> u64 \<Rightarrow> ('s, unit, nostr_error) stm" where
  "write_u64_to w value =
     (if value = 0 then push_byte_to w 0x30
      else sbind (slift (rbind (digits_loop (replicate 20 0) 20 value) (\<lambda>(scratch, cursor). slice_from scratch cursor))) w)"

definition write_canonical_to :: "'s sink \<Rightarrow> nostr_unsigned_event \<Rightarrow> ('s, unit, nostr_error) stm" where
  "write_canonical_to w event =
     sbind (slift (fst (write_hex (ne_pubkey event) (replicate 64 0)))) (\<lambda>pubkey_hex.
     sbind (push_byte_to w 0x5B) (\<lambda>_.
     sbind (push_byte_to w 0x30) (\<lambda>_.
     sbind (push_byte_to w 0x2C) (\<lambda>_.
     sbind (write_json_string w pubkey_hex) (\<lambda>_.
     sbind (push_byte_to w 0x2C) (\<lambda>_.
     sbind (write_u64_to w (ne_created_at event)) (\<lambda>_.
     sbind (push_byte_to w 0x2C) (\<lambda>_.
     sbind (write_u64_to w (ucast (ne_kind event))) (\<lambda>_.
     sbind (push_byte_to w 0x2C) (\<lambda>_.
     sbind (write_tags w (ne_tags event)) (\<lambda>_.
     sbind (push_byte_to w 0x2C) (\<lambda>_.
     sbind (write_json_string w (ne_content event)) (\<lambda>_.
       push_byte_to w 0x5D)))))))))))))"

definition write_canonical_event :: "nostr_unsigned_event \<Rightarrow> (u8 list, u8 list, nostr_error) stm" where
  "write_canonical_event event out =
     (case sbind (write_canonical_to buffer_write event) (\<lambda>_ c. (buffer_finish c, c)) (write_new out) of
        (r, c) \<Rightarrow> (r, wc_output c))"

section \<open>Signing (signing.rs)\<close>

record nostr_crypto =
  nc_sha256 :: "u8 list \<Rightarrow> u8 list"
  nc_signing_key_ok :: "nostr_secret_key \<Rightarrow> bool"
  nc_public_key :: "nostr_secret_key \<Rightarrow> nostr_public_key"
  nc_sign_raw :: "nostr_secret_key \<Rightarrow> u8 list \<Rightarrow> u8 list \<Rightarrow> nostr_signature option"
  nc_verifying_key_ok :: "nostr_public_key \<Rightarrow> bool"
  nc_signature_ok :: "nostr_signature \<Rightarrow> bool"
  nc_verify_raw :: "nostr_public_key \<Rightarrow> u8 list \<Rightarrow> nostr_signature \<Rightarrow> bool"

text \<open>What is relied on: digests and keys have their lengths, and a signature that was produced verifies.\<close>

definition nostr_laws :: "nostr_crypto \<Rightarrow> bool" where
  "nostr_laws c \<longleftrightarrow> (\<forall>m. length (nc_sha256 c m) = 32) \<and>
     (\<forall>secret. nc_signing_key_ok c secret \<longrightarrow>
        length (nc_public_key c secret) = 32 \<and> nc_verifying_key_ok c (nc_public_key c secret)) \<and>
     (\<forall>secret m aux sig. nc_signing_key_ok c secret \<longrightarrow> nc_sign_raw c secret m aux = Some sig \<longrightarrow>
        length sig = 64 \<and> nc_signature_ok c sig \<and> nc_verify_raw c (nc_public_key c secret) m sig)"

definition event_id :: "nostr_crypto \<Rightarrow> nostr_unsigned_event \<Rightarrow> (nostr_event_id, nostr_error) result" where
  "event_id c event = fst (sbind (write_canonical_to hash_write event) (\<lambda>_ absorbed. (Ok (nc_sha256 c absorbed), absorbed)) [])"

definition nostr_signing_key :: "nostr_crypto \<Rightarrow> nostr_secret_key \<Rightarrow> (nostr_secret_key, nostr_error) result" where
  "nostr_signing_key c secret = (if nc_signing_key_ok c secret then Ok secret else Err Crypto)"

definition derive_nostr_public_key :: "nostr_crypto \<Rightarrow> nostr_secret_key \<Rightarrow> (nostr_public_key, nostr_error) result" where
  "derive_nostr_public_key c secret = rbind (nostr_signing_key c secret) (\<lambda>key. Ok (nc_public_key c key))"

definition DETERMINISTIC_AUX_RAND :: "u8 list" where
  "DETERMINISTIC_AUX_RAND = replicate 32 0"

definition sign_event :: "nostr_crypto \<Rightarrow> nostr_unsigned_event \<Rightarrow> nostr_secret_key \<Rightarrow> (nostr_event, nostr_error) result" where
  "sign_event c event secret =
     rbind (nostr_signing_key c secret) (\<lambda>key.
       let pubkey = nc_public_key c key in
       if ne_pubkey event \<noteq> pubkey then Err PublicKeyMismatch
       else rbind (event_id c event) (\<lambda>eid.
            rbind (ok_or Crypto (nc_sign_raw c key eid DETERMINISTIC_AUX_RAND)) (\<lambda>signature.
              event_new eid (ne_pubkey event) (ne_created_at event) (ne_kind event) (ne_tags event) (ne_content event) signature)))"

definition verify_event :: "nostr_crypto \<Rightarrow> nostr_event \<Rightarrow> (unit, nostr_error) result" where
  "verify_event c event =
     rbind (event_id c (event_unsigned event)) (\<lambda>expected_id.
       if ne_id event \<noteq> expected_id then Err EventIdMismatch
       else if \<not> nc_verifying_key_ok c (ne_pubkey event) then Err Crypto
       else if \<not> nc_signature_ok c (ne_sig event) then Err InvalidSignature
       else if nc_verify_raw c (ne_pubkey event) (ne_id event) (ne_sig event) then Ok () else Err InvalidSignature)"

section \<open>HYF envelopes in events (content.rs, hyf.rs)\<close>

definition encode_hyf_envelope_content :: "u8 list \<Rightarrow> (u8 list, u8 list, nostr_error) stm" where
  "encode_hyf_envelope_content bytes =
     (if HYF_NOSTR_MAX_ENVELOPE_BYTES < length bytes
      then sthrow (EnvelopeTooLarge (length bytes) HYF_NOSTR_MAX_ENVELOPE_BYTES) else encode_lower_hex bytes)"

definition decode_hyf_envelope_content :: "u8 list \<Rightarrow> (u8 list, usize, nostr_error) stm" where
  "decode_hyf_envelope_content content = sbind (slift (validate_content_len content)) (\<lambda>_. decode_lower_hex content)"

definition HYF_NOSTR_TOPIC_TAG :: "u8 list" where "HYF_NOSTR_TOPIC_TAG = ascii ''hyf''"
definition HYF_NOSTR_ALT_TAG :: "u8 list" where "HYF_NOSTR_ALT_TAG = ascii ''hyf gateway envelope''"

record hyf_nostr_event_scratch =
  hs_content :: "u8 list"
  hs_recipient_hex :: "u8 list"

definition hyf_nostr_event_scratch_new :: hyf_nostr_event_scratch where
  "hyf_nostr_event_scratch_new = \<lparr>hs_content = replicate HYF_NOSTR_MAX_CONTENT_CHARS 0, hs_recipient_hex = replicate 64 0\<rparr>"

text \<open>The event passed to the closure \<open>f\<close>.\<close>

definition with_signed_hyf_nostr_event ::
  "nostr_crypto \<Rightarrow> u8 list \<Rightarrow> nostr_secret_key \<Rightarrow> nostr_public_key \<Rightarrow> u64 \<Rightarrow>
   (hyf_nostr_event_scratch, nostr_event, nostr_error) stm" where
  "with_signed_hyf_nostr_event c encoded_envelope author_secret recipient_pubkey created_at =
     sbind (on_field hs_content (\<lambda>b s. s\<lparr>hs_content := b\<rparr>) (encode_hyf_envelope_content encoded_envelope)) (\<lambda>content.
     sbind (on_field hs_recipient_hex (\<lambda>b s. s\<lparr>hs_recipient_hex := b\<rparr>) (write_hex recipient_pubkey)) (\<lambda>recipient_hex.
     sbind (slift (tag_new [ascii ''p'', recipient_hex])) (\<lambda>p_tag.
     sbind (slift (tag_new [ascii ''t'', HYF_NOSTR_TOPIC_TAG])) (\<lambda>t_tag.
     sbind (slift (tag_new [ascii ''alt'', HYF_NOSTR_ALT_TAG])) (\<lambda>alt_tag.
     sbind (slift (derive_nostr_public_key c author_secret)) (\<lambda>author_pubkey.
     sbind (slift (unsigned_event_new author_pubkey created_at HYF_NOSTR_ENVELOPE_KIND [p_tag, t_tag, alt_tag] content)) (\<lambda>unsigned.
       slift (sign_event c unsigned author_secret))))))))"

fun has_p_tag :: "nostr_tag list \<Rightarrow> (bool, nostr_error) result" where
  "has_p_tag [] = Ok False"
| "has_p_tag (tag # tags) =
     rbind (tag_name tag) (\<lambda>name.
       if name = ascii ''p'' \<and> is_some_and (\<lambda>value. value \<noteq> []) (tag_value tag) then Ok True else has_p_tag tags)"

definition verify_and_decode_hyf_nostr_event :: "nostr_crypto \<Rightarrow> nostr_event \<Rightarrow> (u8 list, hyf_envelope, nostr_error) stm" where
  "verify_and_decode_hyf_nostr_event c event =
     sbind (slift (verify_event c event)) (\<lambda>_.
     if ne_kind event \<noteq> HYF_NOSTR_ENVELOPE_KIND then sthrow (UnexpectedKind HYF_NOSTR_ENVELOPE_KIND (ne_kind event))
     else sbind (slift (has_p_tag (ne_tags event))) (\<lambda>p_tag.
       if \<not> p_tag then sthrow (MissingRequiredTag ''p'')
       else sbind (decode_hyf_envelope_content (ne_content event)) (\<lambda>len out.
         (rbind (slice_to out len) (\<lambda>bytes. map_err (\<lambda>_. MalformedEnvelope) (decode_envelope bytes)), out))))"

section \<open>Relay status messages (status.rs)\<close>

datatype nostr_relay_status_prefix =
  Duplicate | Pow | Blocked | RateLimited | Invalid | Restricted | Mute | Error | AuthRequired | Unknown

record nostr_relay_status =
  rs_prefix :: nostr_relay_status_prefix
  rs_raw_prefix :: "u8 list"
  rs_detail :: "u8 list"

datatype nostr_publish_outcome =
    Accepted "u8 list"
  | AcceptedDuplicate nostr_relay_status
  | Rejected nostr_relay_status

definition status_prefix :: "u8 list \<Rightarrow> nostr_relay_status_prefix" where
  "status_prefix prefix =
     (if prefix = ascii ''duplicate'' then Duplicate
      else if prefix = ascii ''pow'' then Pow
      else if prefix = ascii ''blocked'' then Blocked
      else if prefix = ascii ''rate-limited'' then RateLimited
      else if prefix = ascii ''invalid'' then Invalid
      else if prefix = ascii ''restricted'' then Restricted
      else if prefix = ascii ''mute'' then Mute
      else if prefix = ascii ''error'' then Error
      else if prefix = ascii ''auth-required'' then AuthRequired
      else Unknown)"

fun split_once :: "u8 \<Rightarrow> u8 list \<Rightarrow> (u8 list \<times> u8 list) option" where
  "split_once d [] = None"
| "split_once d (b # bs) = (if b = d then Some ([], bs) else map_option (\<lambda>(pre, post). (b # pre, post)) (split_once d bs))"

definition parse_relay_status :: "u8 list \<Rightarrow> nostr_relay_status" where
  "parse_relay_status message =
     (case split_once 0x3A message of
        None \<Rightarrow> \<lparr>rs_prefix = Unknown, rs_raw_prefix = [], rs_detail = message\<rparr>
      | Some (prefix, detail) \<Rightarrow>
          \<lparr>rs_prefix = status_prefix prefix, rs_raw_prefix = prefix,
           rs_detail = (case detail of [] \<Rightarrow> detail | b # rest \<Rightarrow> if b = 0x20 then rest else detail)\<rparr>)"

definition classify_ok_message :: "bool \<Rightarrow> u8 list \<Rightarrow> nostr_publish_outcome" where
  "classify_ok_message accepted message =
     (let status = parse_relay_status message in
      if accepted then (if rs_prefix status = Duplicate then AcceptedDuplicate status else Accepted message)
      else Rejected status)"

definition classify_closed_message :: "u8 list \<Rightarrow> nostr_relay_status" where
  "classify_closed_message message = parse_relay_status message"

section \<open>Hexadecimal strings\<close>

definition hex_digit :: "u8 \<Rightarrow> u8" where
  "hex_digit v = HEX_DIGITS ! unat v"

definition hex_byte :: "u8 \<Rightarrow> u8 list" where
  "hex_byte b = [hex_digit (drop_bit 4 b), hex_digit (b AND 0x0F)]"

definition hex_bytes :: "u8 list \<Rightarrow> u8 list" where
  "hex_bytes bs = concat (map hex_byte bs)"

text \<open>The facts about the sixteen digits.\<close>

definition hex_digit_facts :: "u8 \<Rightarrow> bool" where
  "hex_digit_facts v \<longleftrightarrow> decode_nibble (hex_digit v) 0 = Ok v \<and> 0x2D < hex_digit v \<and> hex_digit v < 0x67 \<and>
     hex_nibble v = hex_digit v \<and> hex_digit v \<noteq> 0x5C"

lemma hex_digit_facts_all: "list_all (\<lambda>n. hex_digit_facts (word_of_nat n)) [0..<16]"
  by code_simp

lemma hex_digit_facts:
  assumes "unat v < 16"
  shows "decode_nibble (hex_digit v) i = Ok v" "0x2D < hex_digit v" "hex_digit v < 0x67" "hex_nibble v = hex_digit v"
    "hex_digit v \<noteq> 0x5C"
proof -
  have "unat v \<in> set [0..<16]" using assms by simp
  then have "hex_digit_facts (word_of_nat (unat v))" using hex_digit_facts_all unfolding list_all_iff by blast
  then have "hex_digit_facts v" by simp
  moreover have "decode_nibble b i = Ok v \<longleftrightarrow> decode_nibble b 0 = Ok v" for b by (simp add: decode_nibble_def)
  ultimately show "decode_nibble (hex_digit v) i = Ok v" "0x2D < hex_digit v" "hex_digit v < 0x67" "hex_nibble v = hex_digit v"
    "hex_digit v \<noteq> 0x5C" by (simp_all add: hex_digit_facts_def)
qed

lemma nibble_less [simp]: "unat (drop_bit 4 (b :: u8)) < 16" "unat (b AND 0x0F) < 16"
proof -
  have "unat b < 256" using unsigned_less [where ?'a = nat, of b] by simp
  then show "unat (drop_bit 4 b) < 16" by (simp add: drop_bit_eq_div unat_div)
  have "b AND 0x0F = take_bit 4 b" by (simp add: take_bit_eq_mask mask_eq_exp_minus_1)
  then show "unat (b AND 0x0F) < 16" by (simp add: take_bit_eq_mod unat_mod)
qed

lemma decode_hex_digit: "decode_nibble (hex_digit (drop_bit 4 b)) i = Ok (drop_bit 4 b)"
    "decode_nibble (hex_digit (b AND 0x0F)) i = Ok (b AND 0x0F)"
  by (simp_all add: hex_digit_facts)

definition hex_char_facts :: "u8 \<Rightarrow> bool" where
  "hex_char_facts b \<longleftrightarrow> (case decode_nibble b 0 of Ok v \<Rightarrow> unat v < 16 \<and> hex_digit v = b | _ \<Rightarrow> False)"

lemma hex_char_facts_all: "list_all (\<lambda>n. hex_char_facts (word_of_nat n)) ([48..<58] @ [97..<103])"
  by code_simp

lemma decode_nibble_Ok:
  assumes "decode_nibble b i = Ok v"
  shows "unat v < 16 \<and> hex_digit v = b"
proof -
  have "48 \<le> unat b \<and> unat b < 58 \<or> 97 \<le> unat b \<and> unat b < 103"
    using assms by (auto simp: decode_nibble_def word_le_nat_alt split: if_splits)
  then have "unat b \<in> set ([48..<58] @ [97..<103])" unfolding set_append set_upt Un_iff atLeastLessThan_iff .
  then have "hex_char_facts (word_of_nat (unat b))" using hex_char_facts_all unfolding list_all_iff by blast
  moreover have "decode_nibble b 0 = Ok v" using assms by (auto simp: decode_nibble_def split: if_splits)
  ultimately show ?thesis by (simp add: hex_char_facts_def)
qed

lemma decode_nibble_no_panic [simp]: "decode_nibble b i \<noteq> Panic"
  by (simp add: decode_nibble_def)

lemma nibbles_byte: "push_bit 4 (drop_bit 4 b) OR (b AND 0x0F) = (b :: u8)"
proof -
  have "b AND 0x0F = take_bit 4 b" by (simp add: take_bit_eq_mask mask_eq_exp_minus_1)
  then show ?thesis
    by (auto simp: bit_eq_iff bit_simps)
qed

definition nibble_pair_ok :: "nat \<Rightarrow> nat \<Rightarrow> bool" where
  "nibble_pair_ok h l \<longleftrightarrow> (let b = push_bit 4 (word_of_nat h) OR word_of_nat l :: u8 in
     drop_bit 4 b = word_of_nat h \<and> b AND 0x0F = word_of_nat l)"

lemma nibble_pairs: "list_all (\<lambda>h. list_all (nibble_pair_ok h) [0..<16]) [0..<16]"
  by code_simp

lemma byte_nibbles:
  fixes high low :: u8
  assumes "unat high < 16" "unat low < 16"
  shows "drop_bit 4 (push_bit 4 high OR low) = high" "(push_bit 4 high OR low) AND 0x0F = low"
proof -
  have "nibble_pair_ok (unat high) (unat low)" using nibble_pairs assms by (simp add: list_all_iff)
  then show "drop_bit 4 (push_bit 4 high OR low) = high" "(push_bit 4 high OR low) AND 0x0F = low"
    by (simp_all add: nibble_pair_ok_def Let_def)
qed

lemma length_HEX_DIGITS: "length HEX_DIGITS = 16"
  by (simp add: HEX_DIGITS_def)

lemma length_hex_bytes [simp]: "length (hex_bytes bs) = 2 * length bs"
  by (induction bs) (simp_all add: hex_bytes_def hex_byte_def)

lemma hex_bytes_simps [simp]: "hex_bytes [] = []" "hex_bytes (b # bs) = hex_digit (drop_bit 4 b) # hex_digit (b AND 0x0F) # hex_bytes bs"
  by (simp_all add: hex_bytes_def hex_byte_def)

lemma hex_bytes_range: "d \<in> set (hex_bytes bs) \<Longrightarrow> 0x2D < d \<and> d < 0x67"
proof (induction bs)
  case (Cons b bs)
  then show ?case by (auto simp: hex_digit_facts)
qed simp

lemma hex_bytes_utf8 [simp]: "utf8_valid (hex_bytes bs)"
proof (rule utf8_valid_ascii, rule ballI)
  fix d assume "d \<in> set (hex_bytes bs)"
  then have "d < 0x67" using hex_bytes_range by blast
  then show "d < 0x80" by (simp add: word_less_nat_alt)
qed

lemma list_update_two: "length pre = n \<Longrightarrow> (pre @ a # b # rest)[n := x] = pre @ x # b # rest"
  "length pre = n \<Longrightarrow> (pre @ x # b # rest)[n + 1 := y] = pre @ x # y # rest"
  by (simp_all add: list_update_append)

lemma encode_hex_loop_eq:
  "length pre = 2 * index \<Longrightarrow> 2 * length bytes \<le> length rest \<Longrightarrow>
   encode_hex_loop index bytes (pre @ rest) = (Ok (), pre @ hex_bytes bytes @ drop (2 * length bytes) rest)"
proof (induction bytes arbitrary: index pre rest)
  case (Cons byte bytes)
  then obtain a b rest' where rest: "rest = a # b # rest'" by (cases rest; cases "tl rest") auto
  have dig: "get_at HEX_DIGITS (unat (drop_bit 4 byte)) = Ok (hex_digit (drop_bit 4 byte))"
    "get_at HEX_DIGITS (unat (byte AND 0x0F)) = Ok (hex_digit (byte AND 0x0F))"
    using nibble_less [of byte] by (simp_all add: get_at_def hex_digit_def length_HEX_DIGITS)
  have "encode_hex_loop (index + 1) bytes ((pre @ [hex_digit (drop_bit 4 byte), hex_digit (byte AND 0x0F)]) @ rest') =
      (Ok (), (pre @ [hex_digit (drop_bit 4 byte), hex_digit (byte AND 0x0F)]) @ hex_bytes bytes @ drop (2 * length bytes) rest')"
    using Cons.prems rest by (intro Cons.IH) auto
  with Cons.prems show ?case
    by (simp add: rest sbind_def dig set_at_def list_update_append mult.commute)
qed (simp add: sret_def)

lemma encode_lower_hex_cases:
  assumes "length out \<le> usize_max"
  shows "encode_lower_hex bytes out =
    (if 2 * length bytes \<le> length out then (Ok (hex_bytes bytes), hex_bytes bytes @ drop (2 * length bytes) out)
     else (Err (NoOutputTooSmall (if 2 * length bytes \<le> usize_max then 2 * length bytes else usize_max) (length out)), out))"
  using encode_hex_loop_eq [of "[]" 0 bytes out] assms
  by (auto simp: encode_lower_hex_def checked_mul_def sbind_def slice_to_def mult.commute)

lemma write_hex_fixed: "2 * length key \<le> length out \<Longrightarrow> length out \<le> usize_max \<Longrightarrow>
    write_hex key out = (Ok (hex_bytes key), hex_bytes key @ drop (2 * length key) out)"
  by (simp add: write_hex_def encode_lower_hex_cases)

lemma upt_step: "[i..<Suc (i + n)] = i # [Suc i..<Suc (i + n)]"
  by (simp add: upt_conv_Cons del: upt_Suc)

lemma get_pair:
  assumes "length pre = 2 * index"
  shows "get_at (pre @ h # l # rest) (index * 2) = Ok h" "get_at (pre @ h # l # rest) (Suc (index * 2)) = Ok l"
  using assms by (simp_all add: get_at_def nth_append mult.commute)

lemma decode_hex_loop_hex:
  "length pre = 2 * index \<Longrightarrow> length opre = index \<Longrightarrow> length bytes \<le> length rest \<Longrightarrow>
   decode_hex_loop (pre @ hex_bytes bytes) [index..<index + length bytes] (opre @ rest) =
     (Ok (), opre @ bytes @ drop (length bytes) rest)"
proof (induction bytes arbitrary: index pre opre rest)
  case (Cons byte bytes)
  then obtain a rest' where rest: "rest = a # rest'" by (cases rest) auto
  have "decode_hex_loop ((pre @ [hex_digit (drop_bit 4 byte), hex_digit (byte AND 0x0F)]) @ hex_bytes bytes)
      [Suc index..<Suc index + length bytes] ((opre @ [byte]) @ rest') = (Ok (), (opre @ [byte]) @ bytes @ drop (length bytes) rest')"
    using Cons.prems rest by (intro Cons.IH) auto
  then show ?case
    using Cons.prems
    by (simp add: rest upt_step sbind_def slift_def get_pair [OF Cons.prems(1)] decode_hex_digit set_at_def list_update_append
        nibbles_byte del: upt_Suc)
qed (simp add: sret_def)

lemma decode_hex_loop_Ok:
  "decode_hex_loop (pre @ s) [index..<index + length s div 2] out = (Ok (), out') \<Longrightarrow> length pre = 2 * index \<Longrightarrow>
   length s mod 2 = 0 \<Longrightarrow> \<exists>bytes. s = hex_bytes bytes"
proof (induction "length s div 2" arbitrary: s index pre out)
  case 0
  then show ?case by (intro exI [of _ "[]"]) auto
next
  case (Suc n)
  then obtain h l s' where s: "s = h # l # s'" by (cases s; cases "tl s") auto
  have len: "length s div 2 = Suc (length s' div 2)" by (simp add: s)
  obtain high low out1 where
    nib: "decode_nibble h (index * 2) = Ok high" "decode_nibble l (Suc (index * 2)) = Ok low"
    and rest: "decode_hex_loop (pre @ s) [Suc index..<Suc index + length s' div 2] out1 = (Ok (), out')"
    using Suc.prems(1) unfolding len
    by (auto simp: sbind_eq_Ok s upt_step get_pair [OF Suc.prems(2)] eq_commute [of "Ok _"] simp del: upt_Suc)
  have "\<exists>bytes. s' = hex_bytes bytes"
    using Suc.hyps(2) Suc.prems(2,3) rest by (intro Suc.hyps(1) [of s' "pre @ [h, l]" "Suc index" out1]) (auto simp: s)
  then obtain bytes where "s' = hex_bytes bytes" by blast
  moreover have "hex_digit high = h" "hex_digit low = l" "unat high < 16" "unat low < 16"
    using nib decode_nibble_Ok by blast+
  ultimately have "s = hex_bytes ((push_bit 4 high OR low) # bytes)"
    unfolding hex_bytes_simps byte_nibbles [OF \<open>unat high < 16\<close> \<open>unat low < 16\<close>] by (simp add: s)
  then show ?case by blast
qed

lemma decode_hex_loop_no_panic:
  "\<forall>i \<in> set is. i * 2 + 1 < length bytes \<and> i < length out \<Longrightarrow> fst (decode_hex_loop bytes is out) \<noteq> Panic"
proof (induction "is" arbitrary: out)
  case (Cons i "is")
  then show ?case by (auto simp: sbind_def slift_def get_at_def set_at_def split: result.splits)
qed (simp add: sret_def)

text \<open>Decoding accepts exactly the lower-case hexadecimal of some bytes, and returns them.\<close>

lemma decode_lower_hex_Ok:
  "decode_lower_hex s out = (Ok n, out') \<longleftrightarrow>
     (\<exists>bytes. s = hex_bytes bytes \<and> n = length bytes \<and> n \<le> length out \<and> out' = bytes @ drop n out)"
proof
  assume run: "decode_lower_hex s out = (Ok n, out')"
  then have "decode_hex_loop ([] @ s) [0..<0 + length s div 2] out = (Ok (), out')" "length s mod 2 = 0"
    and n: "n = length s div 2" "n \<le> length out"
    by (auto simp: decode_lower_hex_def Let_def sbind_eq_Ok split: if_splits)
  moreover from this obtain bytes where s: "s = hex_bytes bytes" using decode_hex_loop_Ok [of "[]" s 0 out out'] by auto
  ultimately show "\<exists>bytes. s = hex_bytes bytes \<and> n = length bytes \<and> n \<le> length out \<and> out' = bytes @ drop n out"
    using decode_hex_loop_hex [of "[]" 0 "[]" bytes out] by auto
next
  assume "\<exists>bytes. s = hex_bytes bytes \<and> n = length bytes \<and> n \<le> length out \<and> out' = bytes @ drop n out"
  then show "decode_lower_hex s out = (Ok n, out')"
    using decode_hex_loop_hex [of "[]" 0 "[]" _ out] by (auto simp: decode_lower_hex_def Let_def sbind_def sret_def)
qed

lemma decode_lower_hex_no_panic: "fst (decode_lower_hex s out) \<noteq> Panic"
proof (cases "length s div 2 \<le> length out \<and> length s mod 2 = 0")
  case True
  then have "fst (decode_hex_loop s [0..<length s div 2] out) \<noteq> Panic"
    by (intro decode_hex_loop_no_panic) auto
  with True show ?thesis
    by (auto simp: decode_lower_hex_def Let_def sbind_def sret_def split: prod.splits result.splits)
qed (auto simp: decode_lower_hex_def Let_def)

lemma decode_fixed_lower_hex_Ok: "decode_fixed_lower_hex n s = Ok bytes \<longleftrightarrow> length bytes = n \<and> s = hex_bytes bytes"
proof
  assume "decode_fixed_lower_hex n s = Ok bytes"
  then obtain k where "decode_lower_hex s (replicate n 0) = (Ok k, bytes)" "length s = n * 2"
    by (auto simp: decode_fixed_lower_hex_def Let_def split: if_splits prod.splits result.splits)
  then show "length bytes = n \<and> s = hex_bytes bytes" by (auto simp: decode_lower_hex_Ok)
next
  assume "length bytes = n \<and> s = hex_bytes bytes"
  moreover from this have "decode_lower_hex s (replicate n 0) = (Ok n, bytes)" by (auto simp: decode_lower_hex_Ok)
  ultimately show "decode_fixed_lower_hex n s = Ok bytes" by (simp add: decode_fixed_lower_hex_def)
qed

lemma decode_fixed_lower_hex_no_panic: "decode_fixed_lower_hex n s \<noteq> Panic"
  using decode_lower_hex_no_panic [of s "replicate n 0"]
  by (auto simp: decode_fixed_lower_hex_def Let_def split: prod.splits result.splits)

section \<open>Canonical bytes\<close>

text \<open>The serialisation as a function: JSON strings, decimal numbers, tags, events.\<close>

definition json_escape :: "u8 \<Rightarrow> u8 list" where
  "json_escape b =
     (if b = 0x22 then [0x5C, 0x22] else if b = 0x5C then [0x5C, 0x5C]
      else if b = 0x0A then [0x5C, 0x6E] else if b = 0x0D then [0x5C, 0x72] else if b = 0x09 then [0x5C, 0x74]
      else if b = 0x08 then [0x5C, 0x62] else if b = 0x0C then [0x5C, 0x66]
      else if b \<le> 0x1F then [0x5C, 0x75, 0x30, 0x30, hex_digit (drop_bit 4 b), hex_digit (b AND 0x0F)]
      else [b])"

definition json_string :: "u8 list \<Rightarrow> u8 list" where
  "json_string s = 0x22 # concat (map json_escape s) @ [0x22]"

fun decimal :: "nat \<Rightarrow> u8 list" where
  "decimal n = (if n < 10 then [0x30 + word_of_nat n] else decimal (n div 10) @ [0x30 + word_of_nat (n mod 10)])"

declare decimal.simps [simp del]

fun separated :: "('a \<Rightarrow> u8 list) \<Rightarrow> 'a list \<Rightarrow> u8 list" where
  "separated f [] = []"
| "separated f [x] = f x"
| "separated f (x # y # zs) = f x @ 0x2C # separated f (y # zs)"

definition json_array :: "('a \<Rightarrow> u8 list) \<Rightarrow> 'a list \<Rightarrow> u8 list" where
  "json_array f xs = 0x5B # separated f xs @ [0x5D]"

definition canonical_bytes :: "nostr_unsigned_event \<Rightarrow> u8 list" where
  "canonical_bytes e =
     [0x5B, 0x30, 0x2C] @ json_string (hex_bytes (ne_pubkey e)) @ 0x2C # decimal (unat (ne_created_at e)) @
     0x2C # decimal (unat (ne_kind e)) @ 0x2C # json_array (json_array json_string) (ne_tags e) @
     0x2C # json_string (ne_content e) @ [0x5D]"

text \<open>Every \<open>&str\<close> is valid UTF-8 and a public key has 32 bytes.\<close>

definition wf_unsigned :: "nostr_unsigned_event \<Rightarrow> bool" where
  "wf_unsigned e \<longleftrightarrow> length (ne_pubkey e) = 32 \<and> utf8_valid (ne_content e) \<and> (\<forall>tag \<in> set (ne_tags e). \<forall>v \<in> set tag. utf8_valid v)"

text \<open>In valid UTF-8 a character of one byte is ASCII, and all bytes of a longer one are above it.\<close>

lemma utf8_tail_escape: "utf8_tail b \<Longrightarrow> json_escape b = [b]"
proof -
  assume "utf8_tail b"
  then have "0x80 \<le> unat b" by (simp add: utf8_tail_def word_le_nat_alt)
  then show ?thesis by (auto simp: json_escape_def word_le_nat_alt)
qed

lemma utf8_lead: "utf8_valid (b # bs) \<Longrightarrow> \<not> utf8_tail b"
  by (auto simp: utf8_tail_def word_le_nat_alt word_less_nat_alt split: if_splits)

lemma dropWhile_tail_valid: "utf8_valid bs \<Longrightarrow> takeWhile utf8_tail bs = [] \<and> dropWhile utf8_tail bs = bs"
  using utf8_lead by (cases bs) auto

lemma utf8_tails:
  "(0x80 :: u8) \<le> c \<Longrightarrow> c \<le> 0xBF \<Longrightarrow> utf8_tail c" "(0xA0 :: u8) \<le> c \<Longrightarrow> c \<le> 0xBF \<Longrightarrow> utf8_tail c"
  "(0x80 :: u8) \<le> c \<Longrightarrow> c \<le> 0x9F \<Longrightarrow> utf8_tail c" "(0x90 :: u8) \<le> c \<Longrightarrow> c \<le> 0xBF \<Longrightarrow> utf8_tail c"
  "(0x80 :: u8) \<le> c \<Longrightarrow> c \<le> 0x8F \<Longrightarrow> utf8_tail c"
  by (auto simp: utf8_tail_def word_le_nat_alt)

lemma tail_exI:
  "bs = tail @ rest \<Longrightarrow> tail \<noteq> [] \<Longrightarrow> list_all utf8_tail tail \<Longrightarrow> utf8_valid rest \<Longrightarrow>
   (\<And>X. utf8_valid X \<Longrightarrow> utf8_valid (b # tail @ X)) \<Longrightarrow>
   \<exists>tail rest. bs = tail @ rest \<and> tail \<noteq> [] \<and> list_all utf8_tail tail \<and> utf8_valid rest \<and>
     (\<forall>X. utf8_valid X \<longrightarrow> utf8_valid (b # tail @ X))"
  by blast

lemma utf8_split:
  assumes "utf8_valid (b # bs)"
  shows "b < 0x80 \<and> utf8_valid bs \<or> 0x80 \<le> b \<and> (\<exists>tail rest. bs = tail @ rest \<and> tail \<noteq> [] \<and> list_all utf8_tail tail \<and> utf8_valid rest \<and>
    (\<forall>X. utf8_valid X \<longrightarrow> utf8_valid (b # tail @ X)))"
proof (cases "b < 0x80")
  case True
  with assms show ?thesis by simp
next
  case False
  have "0xC2 \<le> b \<and> b \<le> 0xDF \<or> 0xE0 \<le> b \<and> b \<le> 0xEF \<or> 0xF0 \<le> b \<and> b \<le> 0xF4"
  proof (rule ccontr)
    assume "\<not> ?thesis"
    then have "(0xC2 \<le> b \<and> b \<le> 0xDF) = False" "(0xE0 \<le> b \<and> b \<le> 0xEF) = False" "(0xF0 \<le> b \<and> b \<le> 0xF4) = False"
      "(b < 0x80) = False" using False by simp_all
    with assms show False unfolding utf8_valid.simps(2) by (simp only: if_False)
  qed
  then consider "0xC2 \<le> b" "b \<le> 0xDF" | "0xE0 \<le> b" "b \<le> 0xEF" | "0xF0 \<le> b" "b \<le> 0xF4" by blast
  then have "\<exists>tail rest. bs = tail @ rest \<and> tail \<noteq> [] \<and> list_all utf8_tail tail \<and> utf8_valid rest \<and>
     (\<forall>X. utf8_valid X \<longrightarrow> utf8_valid (b # tail @ X))"
  proof cases
    case 1
    with False assms have "case bs of c # rest \<Rightarrow> utf8_tail c \<and> utf8_valid rest | _ \<Rightarrow> False"
      by simp
    then obtain c rest where bs: "bs = [c] @ rest" and tl: "utf8_tail c" and r: "utf8_valid rest" by (cases bs) simp_all
    have "utf8_valid (b # [c] @ X)" if "utf8_valid X" for X
      using that 1 False tl by simp
    with bs r tl show ?thesis by (intro tail_exI [OF bs]) (simp_all del: utf8_valid.simps)
  next
    case 2
    then have nb: "\<not> b \<le> 0xDF" by (auto simp: word_le_nat_alt)
    with 2 False assms nb have "case bs of c # d # rest \<Rightarrow>
        (if b = 0xE0 then 0xA0 \<le> c \<and> c \<le> 0xBF else if b = 0xED then 0x80 \<le> c \<and> c \<le> 0x9F else utf8_tail c) \<and>
        utf8_tail d \<and> utf8_valid rest | _ \<Rightarrow> False"
      by simp
    then obtain c d rest where bs: "bs = [c, d] @ rest" and tl: "utf8_tail d" and r: "utf8_valid rest" and
      c: "if b = 0xE0 then 0xA0 \<le> c \<and> c \<le> 0xBF else if b = 0xED then 0x80 \<le> c \<and> c \<le> 0x9F else utf8_tail c"
      by (cases bs; cases "tl bs") (simp_all del: utf8_valid.simps)
    from c have tl': "utf8_tail c" by (metis utf8_tails(2,3))
    have "utf8_valid (b # [c, d] @ X)" if "utf8_valid X" for X
      using that 2 nb False tl c by simp
    with bs r tl tl' show ?thesis by (intro tail_exI [OF bs]) (simp_all del: utf8_valid.simps)
  next
    case 3
    then have nb: "\<not> b \<le> 0xDF" "\<not> b \<le> 0xEF" by (auto simp: word_le_nat_alt)
    with 3 False assms nb have "case bs of c # d # e # rest \<Rightarrow>
        (if b = 0xF0 then 0x90 \<le> c \<and> c \<le> 0xBF else if b = 0xF4 then 0x80 \<le> c \<and> c \<le> 0x8F else utf8_tail c) \<and>
        utf8_tail d \<and> utf8_tail e \<and> utf8_valid rest | _ \<Rightarrow> False"
      by simp
    then obtain c d e rest where bs: "bs = [c, d, e] @ rest" and tl: "utf8_tail d" "utf8_tail e" and r: "utf8_valid rest" and
      c: "if b = 0xF0 then 0x90 \<le> c \<and> c \<le> 0xBF else if b = 0xF4 then 0x80 \<le> c \<and> c \<le> 0x8F else utf8_tail c"
      by (cases bs; cases "tl bs"; cases "tl (tl bs)") (simp_all del: utf8_valid.simps)
    from c have tl': "utf8_tail c" by (metis utf8_tails(4,5))
    have "utf8_valid (b # [c, d, e] @ X)" if "utf8_valid X" for X
      using that 3 nb False tl c by simp
    with bs r tl tl' show ?thesis by (intro tail_exI [OF bs]) (simp_all del: utf8_valid.simps)
  qed
  moreover have "0x80 \<le> b" using False by simp
  ultimately show ?thesis by blast
qed

lemma json_escape_high: "0x80 \<le> b \<Longrightarrow> json_escape b = [b]"
proof -
  assume "0x80 \<le> b"
  then have "0x80 \<le> unat b" by (simp add: word_le_nat_alt)
  then show ?thesis by (auto simp: json_escape_def word_le_nat_alt)
qed

lemma utf8_first_char:
  assumes "utf8_valid (b # bs)"
  shows "utf8_valid (dropWhile utf8_tail bs)"
    "takeWhile utf8_tail bs = [] \<or> concat (map json_escape (b # takeWhile utf8_tail bs)) = b # takeWhile utf8_tail bs"
proof -
  have tails: "concat (map json_escape tail) = tail" if "list_all utf8_tail tail" for tail
    using that by (induction tail) (auto simp: utf8_tail_escape)
  from utf8_split [OF assms] show "utf8_valid (dropWhile utf8_tail bs)"
    using dropWhile_tail_valid by (auto simp: dropWhile_append list_all_iff)
  from utf8_split [OF assms] show "takeWhile utf8_tail bs = [] \<or>
      concat (map json_escape (b # takeWhile utf8_tail bs)) = b # takeWhile utf8_tail bs"
  proof (elim disjE conjE exE)
    fix tail rest
    assume "0x80 \<le> b" and bs: "bs = tail @ rest" "list_all utf8_tail tail" "utf8_valid rest"
    then have "takeWhile utf8_tail bs = tail" using dropWhile_tail_valid [of rest] by (simp add: list_all_iff)
    with \<open>0x80 \<le> b\<close> bs tails show ?thesis by (simp add: json_escape_high)
  qed (use dropWhile_tail_valid in auto)
qed

lemma utf8_valid_append: "utf8_valid xs \<Longrightarrow> utf8_valid ys \<Longrightarrow> utf8_valid (xs @ ys)"
proof (induction xs rule: length_induct)
  case (1 xs)
  show ?case
  proof (cases xs)
    case (Cons b bs)
    from utf8_split [OF 1(2) [unfolded Cons]] show ?thesis
    proof (elim disjE conjE exE)
      assume "b < 0x80" "utf8_valid bs"
      with 1(1,3) Cons show ?thesis by simp
    next
      fix tail rest
      assume *: "bs = tail @ rest" "utf8_valid rest" "\<forall>X. utf8_valid X \<longrightarrow> utf8_valid (b # tail @ X)"
      with 1(1,3) Cons have "utf8_valid (rest @ ys)" by simp
      with * Cons show ?thesis by (simp del: utf8_valid.simps)
    qed
  qed (use 1 in simp)
qed

lemma utf8_valid_escaped: "utf8_valid s \<Longrightarrow> utf8_valid (concat (map json_escape s))"
proof (induction s rule: length_induct)
  case (1 s)
  show ?case
  proof (cases s)
    case (Cons b bs)
    from utf8_split [OF 1(2) [unfolded Cons]] show ?thesis
    proof (elim disjE conjE exE)
      assume "b < 0x80" "utf8_valid bs"
      moreover have "utf8_valid (json_escape b)"
      proof (rule utf8_valid_ascii, rule ballI)
        fix d assume "d \<in> set (json_escape b)"
        then have "d = b \<or> unat d < 0x80"
          using hex_digit_facts(3) [OF nibble_less(1) [of b]] hex_digit_facts(3) [OF nibble_less(2) [of b]]
          by (auto simp: json_escape_def word_less_nat_alt split: if_splits)
        with \<open>b < 0x80\<close> show "d < 0x80" by (auto simp: word_less_nat_alt)
      qed
      ultimately show ?thesis using 1(1) Cons by (simp add: utf8_valid_append)
    next
      fix tail rest
      assume *: "0x80 \<le> b" "bs = tail @ rest" "list_all utf8_tail tail" "utf8_valid rest"
        "\<forall>X. utf8_valid X \<longrightarrow> utf8_valid (b # tail @ X)"
      from *(3) have "concat (map json_escape tail) = tail" by (induction tail) (simp_all add: utf8_tail_escape)
      with * 1(1) Cons show ?thesis by (simp add: json_escape_high del: utf8_valid.simps)
    qed
  qed simp
qed

lemma length_decimal: "n < 10 ^ k \<Longrightarrow> 0 < k \<Longrightarrow> length (decimal n) \<le> k"
proof (induction k arbitrary: n)
  case (Suc k)
  show ?case
  proof (cases "n < 10")
    case False
    with Suc.prems have "n div 10 < 10 ^ k" "0 < k" by (auto simp: less_mult_imp_div_less mult.commute intro: Nat.gr0I)
    with Suc.IH False show ?thesis by (simp add: decimal.simps [of n])
  qed (simp add: decimal.simps)
qed simp

lemma decimal_nonempty: "decimal n \<noteq> []"
  by (subst decimal.simps) simp

lemma drop_update_last: "c \<le> length xs \<Longrightarrow> 0 < c \<Longrightarrow> drop (c - 1) (xs[c - 1 := d]) = d # drop c xs"
  by (cases c) (simp_all add: drop_update_swap Cons_nth_drop_Suc [symmetric])

lemma digits_loop_eq:
  "value \<noteq> 0 \<Longrightarrow> length (decimal (unat value)) \<le> cursor \<Longrightarrow> cursor \<le> length scratch \<Longrightarrow>
   \<exists>scratch'. digits_loop scratch cursor value = Ok (scratch', cursor - length (decimal (unat value))) \<and>
     length scratch' = length scratch \<and>
     drop (cursor - length (decimal (unat value))) scratch' = decimal (unat value) @ drop cursor scratch"
proof (induction scratch cursor "value" rule: digits_loop.induct)
  case (1 scratch cursor "value")
  have c: "0 < cursor" using 1(3) decimal_nonempty [of "unat value"] by (cases "decimal (unat value)") auto
  define d :: u8 where "d = 0x30 + ucast (value mod 10)"
  have d: "d = 0x30 + word_of_nat (unat value mod 10)"
  proof -
    have "(word_of_nat (unat (value mod 10)) :: u8) = ucast (value mod 10)" by (rule of_nat_unat)
    then show ?thesis by (simp add: d_def unat_mod)
  qed
  have set: "set_at scratch (cursor - 1) d = (Ok (scratch[cursor - 1 := d]) :: (u8 list, nostr_error) result)" using c 1(4) by (simp add: set_at_def)
  have step: "digits_loop scratch cursor value = digits_loop (scratch[cursor - 1 := d]) (cursor - 1) (value div 10)"
    using 1(2) c set by (subst digits_loop.simps) (simp add: d_def)
  show ?case
  proof (cases "unat value < 10")
    case True
    then have "value div 10 = 0" by (simp add: word_unat_eq_iff unat_div)
    moreover have "decimal (unat value) = [d]" using True by (simp add: decimal.simps d)
    ultimately show ?thesis
      using step c 1(4) drop_update_last [of cursor scratch d] by (simp add: digits_loop.simps)
  next
    case False
    then have v: "value div 10 \<noteq> 0" by (simp add: word_unat_eq_iff unat_div)
    have dec: "decimal (unat value) = decimal (unat (value div 10)) @ [d]"
      using False by (simp add: decimal.simps [of "unat value"] unat_div d)
    have "length (decimal (unat (value div 10))) \<le> cursor - 1" "cursor - 1 \<le> length (scratch[cursor - 1 := d])"
      using 1(3,4) dec by auto
    from 1(1) [OF 1(2) _ v this] set c
    obtain scratch' where "digits_loop (scratch[cursor - 1 := d]) (cursor - 1) (value div 10) =
        Ok (scratch', cursor - 1 - length (decimal (unat (value div 10))))" "length scratch' = length scratch"
      "drop (cursor - 1 - length (decimal (unat (value div 10)))) scratch' =
         decimal (unat (value div 10)) @ drop (cursor - 1) (scratch[cursor - 1 := d])"
      unfolding d_def by auto
    with step dec drop_update_last [of cursor scratch d] c 1(4) show ?thesis by simp
  qed
qed

lemma u64_digits:
  assumes "value \<noteq> 0"
  shows "rbind (digits_loop (replicate 20 0) 20 value) (\<lambda>(scratch, cursor). slice_from scratch cursor) = Ok (decimal (unat value))"
proof -
  have "unat value < 10 ^ 20" using unsigned_less [where ?'a = nat, of "value"] by simp
  then have len: "length (decimal (unat value)) \<le> 20" by (rule length_decimal) simp
  obtain scratch where "digits_loop (replicate 20 0) 20 value = Ok (scratch, 20 - length (decimal (unat value)))"
    "length scratch = 20" "drop (20 - length (decimal (unat value))) scratch = decimal (unat value)"
    using digits_loop_eq [OF assms len, of "replicate 20 0"] by auto
  then show ?thesis by (simp add: slice_from_def)
qed

section \<open>Sinks\<close>

text \<open>
  The contract of \<open>CanonicalSink\<close>: a write appends all its bytes while there is room and
  otherwise fails and changes nothing. What the writers emit into any sink follows from it.
\<close>

locale canonical_sink =
  fixes w :: "'s sink" and good :: "'s \<Rightarrow> bool" and written :: "'s \<Rightarrow> u8 list" and room :: "'s \<Rightarrow> nat \<Rightarrow> bool"
  assumes write_fits: "good s \<Longrightarrow> room s (length (written s) + length bs) \<Longrightarrow>
      \<exists>s'. w bs s = (Ok (), s') \<and> good s' \<and> written s' = written s @ bs \<and> room s' = room s"
    and write_full: "good s \<Longrightarrow> \<not> room s (length (written s) + length bs) \<Longrightarrow> \<exists>e. w bs s = (Err e, s)"
    and room_now: "good s \<Longrightarrow> room s (length (written s))"
    and room_less: "room s n \<Longrightarrow> m \<le> n \<Longrightarrow> room s m"
begin

definition emits :: "('s, unit, nostr_error) stm \<Rightarrow> u8 list \<Rightarrow> bool" where
  "emits m bs \<longleftrightarrow> (\<forall>s. good s \<longrightarrow>
     (if room s (length (written s) + length bs)
      then \<exists>s'. m s = (Ok (), s') \<and> good s' \<and> written s' = written s @ bs \<and> room s' = room s
      else \<exists>e s'. m s = (Err e, s') \<and> good s' \<and> room s' = room s))"

lemma emits_write: "emits (w bs) bs"
  unfolding emits_def using write_fits write_full by fastforce

lemma emits_ret: "emits (sret ()) []"
  by (simp add: emits_def sret_def room_now)

lemma emits_lift: "emits (f a) bs \<Longrightarrow> emits (sbind (slift (Ok a)) f) bs"
  by (simp add: emits_def sbind_def slift_def)

lemma emits_bind:
  assumes "emits m bs" and "emits (f ()) cs"
  shows "emits (sbind m f) (bs @ cs)"
  unfolding emits_def
proof (intro allI impI)
  fix s
  assume s: "good s"
  let ?n = "length (written s) + length (bs @ cs)"
  show "if room s ?n then \<exists>s'. sbind m f s = (Ok (), s') \<and> good s' \<and> written s' = written s @ (bs @ cs) \<and> room s' = room s
    else \<exists>e s'. sbind m f s = (Err e, s') \<and> good s' \<and> room s' = room s"
  proof (cases "room s (length (written s) + length bs)")
    case True
    then obtain s1 where 1: "m s = (Ok (), s1)" "good s1" "written s1 = written s @ bs" "room s1 = room s"
      using assms(1) s unfolding emits_def by meson
    then show ?thesis
      using assms(2) [unfolded emits_def, rule_format, OF 1(2)] by (auto simp: sbind_def add.assoc split: if_splits)
  next
    case False
    then have "\<not> room s ?n" using room_less [of s ?n "length (written s) + length bs"] by auto
    moreover obtain e s' where "m s = (Err e, s')" "good s'" "room s' = room s"
      using assms(1) s False unfolding emits_def by meson
    ultimately show ?thesis by (simp add: sbind_def)
  qed
qed

lemma emits_byte: "emits (push_byte_to w b) [b]"
  by (simp add: push_byte_to_def emits_write)

lemma emits_control: "emits (write_control_escape w b) [0x5C, 0x75, 0x30, 0x30, hex_digit (drop_bit 4 b), hex_digit (b AND 0x0F)]"
  by (simp add: write_control_escape_def emits_write hex_digit_facts)

lemma emits_char_single: "emits (write_json_char w [b]) (json_escape b)"
  using emits_write emits_control by (auto simp: write_json_char_def json_escape_def)

lemma emits_char_multi: "cs \<noteq> [] \<Longrightarrow> emits (write_json_char w (c # cs)) (c # cs)"
  by (cases cs) (auto simp: write_json_char_def emits_write)

lemma emits_separated:
  assumes "\<And>x. x \<in> set xs \<Longrightarrow> emits (g x) (f x)"
  shows "emits (write_separated w g i xs) (if 0 < i \<and> xs \<noteq> [] then 0x2C # separated f xs else separated f xs)"
  using assms
proof (induction xs arbitrary: i)
  case Nil
  show ?case by (simp add: emits_ret)
next
  case (Cons x xs)
  have sep: "emits (if 0 < i then push_byte_to w 0x2C else sret ()) (if 0 < i then [0x2C] else [])"
    by (simp add: emits_byte emits_ret)
  have rest: "emits (write_separated w g (i + 1) xs) (if xs = [] then [] else 0x2C # separated f xs)"
  proof -
    have "emits (write_separated w g (i + 1) xs) (if 0 < i + 1 \<and> xs \<noteq> [] then 0x2C # separated f xs else separated f xs)"
      by (rule Cons.IH) (use Cons.prems in simp)
    then show ?thesis by (cases "xs = []") simp_all
  qed
  have item: "emits (g x) (f x)" using Cons.prems by simp
  have "emits (write_separated w g i (x # xs)) ((if 0 < i then [0x2C] else []) @ f x @ (if xs = [] then [] else 0x2C # separated f xs))"
    unfolding write_separated.simps by (intro emits_bind [OF sep] emits_bind [OF item] rest)
  then show ?case by (cases xs) (auto split: if_splits)
qed

lemma emits_array:
  assumes "\<And>x. x \<in> set xs \<Longrightarrow> emits (g x) (f x)"
  shows "emits (sbind (push_byte_to w 0x5B) (\<lambda>_. sbind (write_separated w g 0 xs) (\<lambda>_. push_byte_to w 0x5D))) (json_array f xs)"
proof -
  have "emits (write_separated w g 0 xs) (separated f xs)" using emits_separated [where i = 0, OF assms] by simp
  then have "emits (sbind (push_byte_to w 0x5B) (\<lambda>_. sbind (write_separated w g 0 xs) (\<lambda>_. push_byte_to w 0x5D)))
      ([0x5B] @ separated f xs @ [0x5D])"
    by (intro emits_bind emits_byte)
  then show ?thesis by (simp add: json_array_def)
qed

lemma emits_json_chars:
  "utf8_valid s \<Longrightarrow> emits (write_json_chars w (utf8_chars s)) (concat (map json_escape s))"
proof (induction s rule: utf8_chars.induct)
  case 1
  show ?case by (simp add: emits_ret)
next
  case (2 b bs)
  let ?tail = "takeWhile utf8_tail bs" and ?rest = "dropWhile utf8_tail bs"
  have char: "emits (write_json_char w (b # ?tail)) (concat (map json_escape (b # ?tail)))" and valid: "utf8_valid ?rest"
    using utf8_first_char [OF 2(2)] emits_char_single [of b] emits_char_multi [of ?tail b] by (cases "?tail = []"; simp)+
  have "emits (write_json_chars w (utf8_chars (b # bs)))
      (concat (map json_escape (b # ?tail)) @ concat (map json_escape ?rest))"
    unfolding utf8_chars.simps write_json_chars.simps by (rule emits_bind [OF char 2(1) [OF valid]])
  also have "concat (map json_escape (b # ?tail)) @ concat (map json_escape ?rest) = concat (map json_escape (b # bs))"
    by (metis append_Cons concat_append map_append takeWhile_dropWhile_id)
  finally show ?case .
qed

lemma emits_json_string: "utf8_valid s \<Longrightarrow> emits (write_json_string w s) (json_string s)"
proof -
  assume "utf8_valid s"
  then have "emits (write_json_string w s) ([0x22] @ concat (map json_escape s) @ [0x22])"
    unfolding write_json_string_def by (intro emits_bind emits_byte emits_json_chars)
  then show ?thesis by (simp add: json_string_def)
qed

lemma emits_u64: "emits (write_u64_to w value) (decimal (unat value))"
proof (cases "value = 0")
  case True
  then show ?thesis by (simp add: write_u64_to_def emits_byte decimal.simps)
next
  case False
  from u64_digits [OF False] show ?thesis
    using False by (auto simp: write_u64_to_def intro!: emits_lift emits_write)
qed

lemma emits_canonical:
  assumes "wf_unsigned e"
  shows "emits (write_canonical_to w e) (canonical_bytes e)"
proof -
  have hex: "write_hex (ne_pubkey e) (replicate 64 0) = (Ok (hex_bytes (ne_pubkey e)), hex_bytes (ne_pubkey e))"
    using assms by (simp add: write_hex_fixed wf_unsigned_def usize_max_def)
  have tags: "emits (write_tags w (ne_tags e)) (json_array (json_array json_string) (ne_tags e))"
    unfolding write_tags_def
    by (rule emits_array, unfold write_tag_def, rule emits_array, rule emits_json_string) (use assms in \<open>simp add: wf_unsigned_def\<close>)
  have kind: "emits (write_u64_to w (ucast (ne_kind e))) (decimal (unat (ne_kind e)))"
  proof -
    have "unat (ucast (ne_kind e) :: u64) = unat (ne_kind e)"
      using unsigned_less [where ?'a = nat, of "ne_kind e"] by (simp add: unsigned_ucast_eq take_bit_nat_eq_self)
    with emits_u64 [of "ucast (ne_kind e)"] show ?thesis by simp
  qed
  have content: "utf8_valid (ne_content e)" using assms by (simp add: wf_unsigned_def)
  have "emits (write_canonical_to w e) ([0x5B] @ [0x30] @ [0x2C] @ json_string (hex_bytes (ne_pubkey e)) @ [0x2C] @
      decimal (unat (ne_created_at e)) @ [0x2C] @ decimal (unat (ne_kind e)) @ [0x2C] @
      json_array (json_array json_string) (ne_tags e) @ [0x2C] @ json_string (ne_content e) @ [0x5D])"
    unfolding write_canonical_to_def hex fst_conv
    by (rule emits_lift, intro emits_bind emits_byte emits_json_string emits_u64 kind tags content hex_bytes_utf8)
  then show ?thesis by (simp add: canonical_bytes_def)
qed

end

definition buffer_good :: "write_cursor \<Rightarrow> bool" where
  "buffer_good c \<longleftrightarrow> wc_index c \<le> length (wc_output c) \<and> length (wc_output c) \<le> usize_max"

definition buffer_written :: "write_cursor \<Rightarrow> u8 list" where
  "buffer_written c = take (wc_index c) (wc_output c)"

definition buffer_room :: "write_cursor \<Rightarrow> nat \<Rightarrow> bool" where
  "buffer_room c n \<longleftrightarrow> n \<le> length (wc_output c)"

interpretation buffer: canonical_sink buffer_write buffer_good buffer_written buffer_room
  by unfold_locales
    (auto simp: buffer_write_def buffer_good_def buffer_written_def buffer_room_def checked_add_def copy_at_def fun_eq_iff)

interpretation hash: canonical_sink hash_write "\<lambda>_. True" "\<lambda>absorbed. absorbed" "\<lambda>_ _. True"
  by unfold_locales (auto simp: hash_write_def)

lemma event_id_eq: "wf_unsigned e \<Longrightarrow> event_id c e = Ok (nc_sha256 c (canonical_bytes e))"
  using hash.emits_canonical [of e] by (auto simp: hash.emits_def event_id_def sbind_def)

section \<open>The serialisation is unambiguous\<close>

text \<open>Each writer is a prefix code: the bytes it writes say where they end.\<close>

definition prefix_code :: "('a \<Rightarrow> u8 list) \<Rightarrow> bool" where
  "prefix_code f \<longleftrightarrow> (\<forall>x y xs ys. f x @ xs = f y @ ys \<longrightarrow> x = y \<and> xs = ys)"

lemma prefix_codeD: "prefix_code f \<Longrightarrow> f x @ xs = f y @ ys \<Longrightarrow> x = y \<and> xs = ys"
  by (auto simp: prefix_code_def)

lemma hex_digit_inj: "unat v < 16 \<Longrightarrow> unat v' < 16 \<Longrightarrow> hex_digit v = hex_digit v' \<Longrightarrow> v = v'"
  by (metis hex_digit_facts(1) result.inject(1))

lemma byte_from_nibbles: "drop_bit 4 b = drop_bit 4 c \<Longrightarrow> b AND 0x0F = c AND 0x0F \<Longrightarrow> b = (c :: u8)"
  by (metis nibbles_byte)

lemma hex_byte_inj:
  assumes "hex_byte b = hex_byte c"
  shows "b = c"
proof (rule byte_from_nibbles)
  show "drop_bit 4 b = drop_bit 4 c" "b AND 0x0F = c AND 0x0F"
    using assms by (simp_all add: hex_byte_def hex_digit_inj)
qed

lemma hex_bytes_inj: "hex_bytes xs = hex_bytes ys \<Longrightarrow> xs = ys"
proof (induction xs arbitrary: ys)
  case (Cons x xs)
  then obtain y ys' where ys: "ys = y # ys'" by (cases ys) auto
  with Cons have "hex_byte x = hex_byte y" "xs = ys'" by (auto simp: hex_byte_def)
  with ys hex_byte_inj show ?case by blast
qed (metis hex_bytes_simps(1) length_0_conv length_hex_bytes mult_eq_0_iff zero_neq_numeral)

lemma json_escape_form:
  "json_escape b = [b] \<and> b \<noteq> 0x22 \<and> b \<noteq> 0x5C \<or>
   (\<exists>c \<in> {0x22, 0x5C, 0x6E, 0x72, 0x74, 0x62, 0x66}. json_escape b = [0x5C, c]) \<or>
   json_escape b = [0x5C, 0x75, 0x30, 0x30, hex_digit (drop_bit 4 b), hex_digit (b AND 0x0F)]"
  by (auto simp: json_escape_def)

definition json_unescape :: "u8 list \<Rightarrow> u8" where
  "json_unescape cs =
     (case cs of
        [b] \<Rightarrow> b
      | [_, c] \<Rightarrow> (if c = 0x6E then 0x0A else if c = 0x72 then 0x0D else if c = 0x74 then 0x09 else if c = 0x62 then 0x08
                   else if c = 0x66 then 0x0C else c)
      | [_, _, _, _, h, l] \<Rightarrow> (case decode_nibble h 0 of Ok high \<Rightarrow> (case decode_nibble l 0 of Ok low \<Rightarrow> push_bit 4 high OR low | _ \<Rightarrow> 0) | _ \<Rightarrow> 0)
      | _ \<Rightarrow> 0)"

lemma json_unescape_escape: "json_unescape (json_escape b) = b"
  by (simp add: json_escape_def json_unescape_def decode_hex_digit nibbles_byte)

lemma json_escape_inj: "json_escape b = json_escape c \<Longrightarrow> b = c"
  by (metis json_unescape_escape)

lemma json_escape_prefix: "prefix_code json_escape"
  unfolding prefix_code_def
proof (intro allI impI)
  fix b c xs ys
  assume eq: "json_escape b @ xs = json_escape c @ ys"
  have "length (json_escape b) = length (json_escape c)"
    using eq json_escape_form [of b] json_escape_form [of c] by fastforce
  with eq have "json_escape b = json_escape c \<and> xs = ys" by simp
  with json_escape_inj show "b = c \<and> xs = ys" by blast
qed

lemma json_escape_not_quote: "json_escape b @ xs \<noteq> 0x22 # ys"
  using json_escape_form [of b] by auto

lemma json_string_prefix: "prefix_code json_string"
proof -
  have main: "s = t \<and> xs = ys" if "concat (map json_escape s) @ 0x22 # xs = concat (map json_escape t) @ 0x22 # ys" for s t xs ys
    using that
  proof (induction s arbitrary: t)
    case Nil
    then show ?case by (cases t) (auto simp: json_escape_not_quote dest: sym)
  next
    case (Cons b s)
    then obtain c t' where t: "t = c # t'" by (cases t) (auto simp: json_escape_not_quote)
    with Cons.prems have "json_escape b @ (concat (map json_escape s) @ 0x22 # xs) =
        json_escape c @ (concat (map json_escape t') @ 0x22 # ys)" by simp
    from prefix_codeD [OF json_escape_prefix this] Cons.IH t show ?case by simp
  qed
  show ?thesis
    unfolding prefix_code_def json_string_def by (intro allI impI, rule main) simp
qed

lemma separated_Cons: "separated f (x # xs) = f x @ (if xs = [] then [] else 0x2C # separated f xs)"
  by (cases xs) simp_all

lemma json_array_prefix:
  assumes f: "prefix_code f" and head: "\<And>x. \<exists>r. f x = h # r" and h: "h \<noteq> 0x5D"
  shows "prefix_code (json_array f)"
proof -
  have main: "xs = ys \<and> us = vs" if "separated f xs @ 0x5D # us = separated f ys @ 0x5D # vs" for xs ys us vs
    using that
  proof (induction xs arbitrary: ys)
    case Nil
    show ?case
    proof (cases ys)
      case (Cons y ys')
      with Nil h head [of y] show ?thesis by (auto simp: separated_Cons)
    qed (use Nil in simp)
  next
    case (Cons x xs)
    then obtain y ys' where ys: "ys = y # ys'" using h head [of x] by (cases ys) (auto simp: separated_Cons)
    with Cons.prems have "f x @ ((if xs = [] then [] else 0x2C # separated f xs) @ 0x5D # us) =
        f y @ ((if ys' = [] then [] else 0x2C # separated f ys') @ 0x5D # vs)" by (simp add: separated_Cons)
    from prefix_codeD [OF f this] Cons.IH [of ys'] ys show ?case by (auto split: if_splits)
  qed
  show ?thesis
    unfolding prefix_code_def json_array_def by (intro allI impI, rule main) simp
qed

lemma tags_prefix: "prefix_code (json_array (json_array json_string))"
  by (rule json_array_prefix [where h = "0x5B"], rule json_array_prefix [where h = "0x22"])
    (auto simp: json_string_prefix json_string_def json_array_def)

definition decimal_value :: "u8 list \<Rightarrow> nat" where
  "decimal_value ds = foldl (\<lambda>acc d. acc * 10 + unat (d - 0x30)) 0 ds"

lemma decimal_value_decimal: "decimal_value (decimal n) = n"
proof (induction n rule: decimal.induct)
  case (1 n)
  have digit: "unat (0x30 + word_of_nat k - 0x30 :: u8) = k" if "k < 10" for k
    using that by (simp add: unat_of_nat)
  show ?case
  proof (cases "n < 10")
    case True
    then show ?thesis by (simp add: decimal.simps [of n] decimal_value_def digit [simplified])
  next
    case False
    then have "decimal_value (decimal n) = decimal_value (decimal (n div 10)) * 10 + n mod 10"
      by (simp add: decimal.simps [of n] decimal_value_def digit [simplified])
    with 1 [OF False] show ?thesis by simp
  qed
qed

lemma decimal_digits: "d \<in> set (decimal n) \<Longrightarrow> d \<noteq> 0x2C"
proof (induction n rule: decimal.induct)
  case (1 n)
  have "0x30 + word_of_nat k \<noteq> (0x2C :: u8)" if "k < 10" for k
    using that by (auto simp: word_unat_eq_iff unat_word_ariths unat_of_nat)
  with 1 show ?case unfolding decimal.simps [of n] by (auto split: if_splits)
qed

lemma decimal_prefix:
  assumes "decimal m @ 0x2C # xs = decimal n @ 0x2C # ys"
  shows "m = n \<and> xs = ys"
proof -
  have "takeWhile (\<lambda>d. d \<noteq> 0x2C) (decimal k @ 0x2C # zs) = decimal k" for k zs
    by (subst takeWhile_append2) (auto dest: decimal_digits)
  with assms have "decimal m = decimal n" by metis
  with assms decimal_value_decimal show ?thesis by (metis append_same_eq list.inject same_append_eq)
qed

lemma canonical_bytes_inj:
  assumes "canonical_bytes e = canonical_bytes f"
  shows "e = f"
proof -
  from assms have 1: "json_string (hex_bytes (ne_pubkey e)) @ 0x2C # decimal (unat (ne_created_at e)) @
     0x2C # decimal (unat (ne_kind e)) @ 0x2C # json_array (json_array json_string) (ne_tags e) @
     0x2C # json_string (ne_content e) @ [0x5D] =
     json_string (hex_bytes (ne_pubkey f)) @ 0x2C # decimal (unat (ne_created_at f)) @
     0x2C # decimal (unat (ne_kind f)) @ 0x2C # json_array (json_array json_string) (ne_tags f) @
     0x2C # json_string (ne_content f) @ [0x5D]"
    by (simp add: canonical_bytes_def)
  note 2 = prefix_codeD [OF json_string_prefix 1]
  then have pk: "ne_pubkey e = ne_pubkey f" using hex_bytes_inj by blast
  from 2 have "decimal (unat (ne_created_at e)) @ 0x2C # decimal (unat (ne_kind e)) @ 0x2C # json_array (json_array json_string) (ne_tags e) @
     0x2C # json_string (ne_content e) @ [0x5D] = decimal (unat (ne_created_at f)) @
     0x2C # decimal (unat (ne_kind f)) @ 0x2C # json_array (json_array json_string) (ne_tags f) @ 0x2C # json_string (ne_content f) @ [0x5D]"
    by simp
  note 3 = decimal_prefix [OF this]
  note 4 = decimal_prefix [OF 3 [THEN conjunct2]]
  note 5 = prefix_codeD [OF tags_prefix 4 [THEN conjunct2]]
  from 5 have "json_string (ne_content e) @ [0x5D] = json_string (ne_content f) @ [0x5D]" by simp
  with prefix_codeD [OF json_string_prefix this] 3 4 5 pk show ?thesis
    by (cases e; cases f) (simp add: word_unat_eq_iff)
qed

section \<open>Canonical text\<close>

lemma utf8_valid_Cons: "b < 0x80 \<Longrightarrow> utf8_valid bs \<Longrightarrow> utf8_valid (b # bs)"
  by simp

lemma utf8_valid_json_string: "utf8_valid s \<Longrightarrow> utf8_valid (json_string s)"
  by (simp add: json_string_def utf8_valid_append utf8_valid_escaped)

lemma utf8_valid_decimal: "utf8_valid (decimal n)"
proof (induction n rule: decimal.induct)
  case (1 n)
  have digit: "0x30 + word_of_nat k < (0x80 :: u8)" if "k < 10" for k
    using that by (auto simp: word_less_nat_alt unat_word_ariths unat_of_nat)
  with 1 show ?case unfolding decimal.simps [of n] by (auto intro!: utf8_valid_append utf8_valid_Cons)
qed

lemma utf8_valid_json_array:
  assumes "\<And>x. x \<in> set xs \<Longrightarrow> utf8_valid (f x)"
  shows "utf8_valid (json_array f xs)"
proof -
  have "utf8_valid (separated f xs)"
    using assms by (induction xs) (auto simp: separated_Cons intro!: utf8_valid_append utf8_valid_Cons)
  then show ?thesis by (simp add: json_array_def utf8_valid_append)
qed

lemma utf8_valid_canonical: "wf_unsigned e \<Longrightarrow> utf8_valid (canonical_bytes e)"
  unfolding canonical_bytes_def wf_unsigned_def
  by (intro utf8_valid_append utf8_valid_Cons utf8_valid_json_string utf8_valid_decimal utf8_valid_json_array) auto

lemma write_canonical_event_cases:
  assumes "wf_unsigned e" and "length out \<le> usize_max"
  shows "if length (canonical_bytes e) \<le> length out
    then \<exists>out'. write_canonical_event e out = (Ok (canonical_bytes e), out') \<and> length out' = length out \<and>
      take (length (canonical_bytes e)) out' = canonical_bytes e
    else \<exists>err out'. write_canonical_event e out = (Err err, out') \<and> length out' = length out"
proof -
  have room': "buffer_room (write_new out) = (\<lambda>n. n \<le> length out)"
    by (simp add: buffer_room_def write_new_def fun_eq_iff)
  have good: "buffer_good (write_new out)" "buffer_written (write_new out) = []"
    using assms(2) by (simp_all add: buffer_good_def buffer_written_def write_new_def)
  have len: "length (wc_output c) = length out" if "buffer_room c = (\<lambda>n. n \<le> length out)" for c
    using fun_cong [OF that, of "length (wc_output c)"] fun_cong [OF that, of "length out"]
    by (simp add: buffer_room_def write_new_def)
  note run = buffer.emits_canonical [OF assms(1), unfolded buffer.emits_def, rule_format, OF good(1), unfolded good(2) room' list.size(3) add_0]
  show ?thesis
  proof (cases "length (canonical_bytes e) \<le> length out")
    case True
    then obtain c where c: "write_canonical_to buffer_write e (write_new out) = (Ok (), c)" "buffer_good c"
      "buffer_written c = canonical_bytes e" "length (wc_output c) = length out"
      using run len by auto
    have index: "wc_index c = length (canonical_bytes e)"
      using c(2) arg_cong [OF c(3), of length] by (simp add: buffer_good_def buffer_written_def)
    with c have "buffer_finish c = Ok (canonical_bytes e)"
      using utf8_valid_canonical [OF assms(1)] by (simp add: buffer_finish_def slice_to_def buffer_good_def buffer_written_def)
    with True c index show ?thesis by (simp add: write_canonical_event_def sbind_def buffer_written_def)
  next
    case False
    with run obtain err c where "write_canonical_to buffer_write e (write_new out) = (Err err, c)" "length (wc_output c) = length out"
      using len by auto
    with False show ?thesis by (simp add: write_canonical_event_def sbind_def)
  qed
qed

section \<open>Signed events\<close>

lemma event_unsigned_new: "event_new eid pk ts k tags content sig = Ok e \<longleftrightarrow> length content \<le> 4096 \<and>
    e = \<lparr>ne_pubkey = pk, ne_created_at = ts, ne_kind = k, ne_tags = tags, ne_content = content, ne_id = eid, ne_sig = sig\<rparr>"
  by (auto simp: event_new_def validate_content_len_def nostr_constants)

lemma sign_event_verifies:
  assumes "nostr_laws c" and "wf_unsigned u" and "sign_event c u secret = Ok e"
  shows "verify_event c e = Ok () \<and> event_unsigned e = u \<and> ne_pubkey e = nc_public_key c secret"
proof -
  have key: "nc_signing_key_ok c secret" "ne_pubkey u = nc_public_key c secret"
    using assms(3) by (auto simp: sign_event_def nostr_signing_key_def Let_def split: if_splits)
  obtain sig where sig: "nc_sign_raw c secret (nc_sha256 c (canonical_bytes u)) DETERMINISTIC_AUX_RAND = Some sig"
    and e: "e = \<lparr>ne_pubkey = ne_pubkey u, ne_created_at = ne_created_at u, ne_kind = ne_kind u, ne_tags = ne_tags u,
      ne_content = ne_content u, ne_id = nc_sha256 c (canonical_bytes u), ne_sig = sig\<rparr>"
    using assms(3) key event_id_eq [OF assms(2), of c]
    by (auto simp: sign_event_def nostr_signing_key_def Let_def event_unsigned_new)
  have u: "event_unsigned e = u" by (cases u) (simp add: e event_unsigned_def)
  have "nc_verifying_key_ok c (ne_pubkey u)" "nc_signature_ok c sig" "nc_verify_raw c (ne_pubkey u) (nc_sha256 c (canonical_bytes u)) sig"
    using assms(1) key sig by (auto simp: nostr_laws_def)
  then show ?thesis
    using u key event_id_eq [OF assms(2), of c] by (simp add: verify_event_def e)
qed

lemma ascii_utf8: "list_all (\<lambda>ch. of_char ch < (128 :: nat)) s \<Longrightarrow> utf8_valid (ascii s)"
proof (rule utf8_valid_ascii, rule ballI)
  fix b assume "list_all (\<lambda>ch. of_char ch < (128 :: nat)) s" "b \<in> set (ascii s)"
  then obtain ch where "b = word_of_nat (of_char ch)" "of_char ch < (128 :: nat)" by (auto simp: ascii_def list_all_iff)
  then show "b < 0x80" by (simp add: word_less_nat_alt unat_of_nat)
qed

lemma hyf_tags_utf8: "utf8_valid (ascii ''p'')" "utf8_valid (ascii ''t'')" "utf8_valid (ascii ''alt'')"
    "utf8_valid HYF_NOSTR_TOPIC_TAG" "utf8_valid HYF_NOSTR_ALT_TAG"
  unfolding HYF_NOSTR_TOPIC_TAG_def HYF_NOSTR_ALT_TAG_def by (rule ascii_utf8, simp)+

definition hyf_event_of :: "nostr_public_key \<Rightarrow> nostr_public_key \<Rightarrow> u64 \<Rightarrow> u8 list \<Rightarrow> nostr_unsigned_event" where
  "hyf_event_of author recipient created_at envelope =
     \<lparr>ne_pubkey = author, ne_created_at = created_at, ne_kind = 9775,
      ne_tags = [[ascii ''p'', hex_bytes recipient], [ascii ''t'', HYF_NOSTR_TOPIC_TAG], [ascii ''alt'', HYF_NOSTR_ALT_TAG]],
      ne_content = hex_bytes envelope\<rparr>"

definition wf_hyf_scratch :: "hyf_nostr_event_scratch \<Rightarrow> bool" where
  "wf_hyf_scratch s \<longleftrightarrow> length (hs_content s) = 4096 \<and> length (hs_recipient_hex s) = 64"

lemma with_signed_hyf_nostr_event_eq:
  assumes "wf_hyf_scratch s" and "length recipient = 32" and "length envelope \<le> 2048"
  shows "fst (with_signed_hyf_nostr_event c envelope secret recipient ts s) =
    (if nc_signing_key_ok c secret then sign_event c (hyf_event_of (nc_public_key c secret) recipient ts envelope) secret else Err Crypto)"
proof -
  have "2 * length envelope \<le> length (hs_content s)" "length (hs_content s) \<le> usize_max"
    "2 * length recipient \<le> length (hs_recipient_hex s)" "length (hs_recipient_hex s) \<le> usize_max"
    using assms by (simp_all add: wf_hyf_scratch_def usize_max_def)
  then show ?thesis
    using assms(3)
    by (simp add: with_signed_hyf_nostr_event_def sbind_def slift_def on_field_def encode_hyf_envelope_content_def encode_lower_hex_cases
        write_hex_fixed tag_new_def derive_nostr_public_key_def nostr_signing_key_def unsigned_event_new_def validate_content_len_def
        nostr_constants hyf_event_of_def)
qed

lemma decode_hyf_envelope_content_hex:
  assumes "length bytes \<le> 2048" and "length bytes \<le> length out"
  shows "decode_hyf_envelope_content (hex_bytes bytes) out = (Ok (length bytes), bytes @ drop (length bytes) out)"
proof -
  have "decode_lower_hex (hex_bytes bytes) out = (Ok (length bytes), bytes @ drop (length bytes) out)"
    using assms by (auto simp: decode_lower_hex_Ok)
  with assms show ?thesis
    by (simp add: decode_hyf_envelope_content_def validate_content_len_def nostr_constants sbind_def slift_def)
qed

lemma wf_hyf_event: "length author = 32 \<Longrightarrow> wf_unsigned (hyf_event_of author recipient ts envelope)"
  by (auto simp: wf_unsigned_def hyf_event_of_def hyf_tags_utf8 simp del: utf8_valid.simps)

lemma has_p_tag_hyf: "length recipient = 32 \<Longrightarrow> has_p_tag (ne_tags (hyf_event_of author recipient ts envelope)) = Ok True"
  by (cases recipient) (auto simp: hyf_event_of_def tag_name_def get_at_def tag_value_def)

lemma has_p_tag_no_panic: "\<forall>tag \<in> set tags. tag \<noteq> [] \<Longrightarrow> has_p_tag tags \<noteq> Panic"
  by (induction tags) (auto simp: tag_name_def get_at_def)

section \<open>Properties\<close>

text \<open>
  C33. The event id commits to the event. The id is the hash of the canonical serialisation, which
  the buffer writer produces byte for byte when the output has room (and otherwise fails without a
  panic), and the serialisation is unambiguous: two events with the same canonical bytes have the
  same key, time, kind, tags and content, however their strings use quotes, backslashes, control
  characters or separators. A collision of ids is a collision of the hash.\<close>

theorem nostr_id_commits:
  assumes "wf_unsigned e" and "wf_unsigned f" and "length out \<le> usize_max"
  shows "event_id c e = Ok (nc_sha256 c (canonical_bytes e)) \<and>
    (canonical_bytes e = canonical_bytes f \<longleftrightarrow> e = f) \<and>
    (if length (canonical_bytes e) \<le> length out
     then \<exists>out'. write_canonical_event e out = (Ok (canonical_bytes e), out') \<and> take (length (canonical_bytes e)) out' = canonical_bytes e
     else \<exists>err out'. write_canonical_event e out = (Err err, out'))"
  using event_id_eq [OF assms(1)] canonical_bytes_inj [of e f] write_canonical_event_cases [OF assms(1,3)]
  by (auto split: if_splits)

text \<open>A trivial instance of the primitives: constant digests, keys and signatures, all accepted.\<close>

definition null_nostr :: nostr_crypto where
  "null_nostr = \<lparr>nc_sha256 = (\<lambda>m. replicate 32 0), nc_signing_key_ok = (\<lambda>s. s \<noteq> []), nc_public_key = (\<lambda>s. replicate 32 1),
     nc_sign_raw = (\<lambda>s m aux. Some (replicate 64 2)), nc_verifying_key_ok = (\<lambda>k. True), nc_signature_ok = (\<lambda>sig. True),
     nc_verify_raw = (\<lambda>k m sig. sig = replicate 64 2)\<rparr>"

lemma null_nostr_laws: "nostr_laws null_nostr"
  by (simp add: nostr_laws_def null_nostr_def)

definition sample_event :: nostr_unsigned_event where
  "sample_event = \<lparr>ne_pubkey = replicate 32 7, ne_created_at = 1700000000, ne_kind = 1,
     ne_tags = [[ascii ''t'', [0x22, 0x5C, 0x01]]], ne_content = [0xC3, 0xA9, 0x0A]\<rparr>"

lemma sample_event_wf: "wf_unsigned sample_event"
proof -
  have "utf8_valid [0x22, 0x5C, 0x01]" "utf8_valid [0xC3, 0xA9, 0x0A]" by (simp_all add: utf8_tail_def)
  then show ?thesis by (simp add: wf_unsigned_def sample_event_def hyf_tags_utf8 del: utf8_valid.simps)
qed

theorem nostr_id_commits_witness:
  "event_id null_nostr sample_event = Ok (nc_sha256 null_nostr (canonical_bytes sample_event)) \<and>
   canonical_bytes sample_event \<noteq> canonical_bytes (sample_event\<lparr>ne_kind := 2\<rparr>) \<and>
   (\<exists>err out'. write_canonical_event sample_event [] = (Err err, out'))"
proof -
  have "wf_unsigned (sample_event\<lparr>ne_kind := 2\<rparr>)" using sample_event_wf by (simp add: wf_unsigned_def)
  from nostr_id_commits [OF sample_event_wf this, of "[]" null_nostr] show ?thesis
    by (auto simp: sample_event_def canonical_bytes_def usize_max_def)
qed

text \<open>
  C34. Envelopes travel through Nostr events. Signing an encoded envelope of at most 2048 bytes for a
  recipient either fails in the key or signature primitive or gives an event, by the author and
  addressed to the recipient, that verifies, and from which decoding returns the envelope, in any
  output buffer that holds its bytes.\<close>

theorem nostr_envelope_roundtrip:
  assumes "nostr_laws c" and "wf_hyf_scratch s" and "length recipient = 32" and "wf_envelope env" and "validate_envelope env = Ok ()"
    and "length (envelope_bytes env) \<le> 2048" and "length (envelope_bytes env) \<le> length out"
  shows "case fst (with_signed_hyf_nostr_event c (envelope_bytes env) secret recipient ts s) of
      Ok e \<Rightarrow> event_unsigned e = hyf_event_of (nc_public_key c secret) recipient ts (envelope_bytes env) \<and>
        fst (verify_and_decode_hyf_nostr_event c e out) = Ok env
    | Err err \<Rightarrow> err = Crypto
    | Panic \<Rightarrow> False"
proof (cases "nc_signing_key_ok c secret")
  case False
  then show ?thesis using with_signed_hyf_nostr_event_eq [OF assms(2,3,6), of c secret ts] by simp
next
  case True
  let ?u = "hyf_event_of (nc_public_key c secret) recipient ts (envelope_bytes env)"
  have wf: "wf_unsigned ?u" using assms(1) True by (intro wf_hyf_event) (auto simp: nostr_laws_def)
  have run: "fst (with_signed_hyf_nostr_event c (envelope_bytes env) secret recipient ts s) = sign_event c ?u secret"
    using with_signed_hyf_nostr_event_eq [OF assms(2,3,6), of c secret ts] True by simp
  have "fst (verify_and_decode_hyf_nostr_event c e out) = Ok env" if "verify_event c e = Ok ()" "event_unsigned e = ?u" for e
  proof -
    have e: "ne_kind e = HYF_NOSTR_ENVELOPE_KIND" "ne_tags e = ne_tags ?u" "ne_content e = hex_bytes (envelope_bytes env)"
      using that(2) by (auto simp: event_unsigned_def hyf_event_of_def nostr_constants)
    show ?thesis
      using that(1) e has_p_tag_hyf [OF assms(3)] decode_hyf_envelope_content_hex [OF assms(6,7)] decode_encode [OF assms(4,5)]
      by (simp add: verify_and_decode_hyf_nostr_event_def sbind_def slift_def slice_to_def)
  qed
  moreover have "sign_event c ?u secret = Err err \<Longrightarrow> err = Crypto" "sign_event c ?u secret \<noteq> Panic" for err
    using True event_id_eq [OF wf, of c] assms(6)
    by (cases "nc_sign_raw c secret (nc_sha256 c (canonical_bytes ?u)) DETERMINISTIC_AUX_RAND";
        simp add: sign_event_def nostr_signing_key_def hyf_event_of_def event_new_def validate_content_len_def nostr_constants)+
  ultimately show ?thesis
    unfolding run using sign_event_verifies [OF assms(1) wf] by (auto split: result.splits)
qed

definition sample_nostr_envelope :: hyf_envelope where
  "sample_nostr_envelope =
     \<lparr>env_version = 0, env_message_id = MessageId (replicate 32 4), env_source = NodeId (replicate 32 1),
      env_destination = Node (NodeId (replicate 32 2)), env_created_at_ms = TimestampMs 1, env_expires_at_ms = TimestampMs 9,
      env_hop_limit = 3, env_payload_kind = ForeignRnsPacket, env_payload = [1, 2, 3]\<rparr>"

theorem nostr_envelope_roundtrip_witness:
  "\<exists>e. fst (with_signed_hyf_nostr_event null_nostr (envelope_bytes sample_nostr_envelope) [1] (replicate 32 5) 7
            hyf_nostr_event_scratch_new) = Ok e \<and>
     fst (verify_and_decode_hyf_nostr_event null_nostr e (replicate 2048 0)) = Ok sample_nostr_envelope"
proof -
  have wf: "wf_envelope sample_nostr_envelope" "validate_envelope sample_nostr_envelope = Ok ()"
    by (simp_all add: sample_nostr_envelope_def wf_envelope_def wf_message_id_def wf_node_id_def validate_envelope_Ok)
  have len: "length (envelope_bytes sample_nostr_envelope) \<le> 2048"
    by (simp add: envelope_bytes_def sample_nostr_envelope_def)
  have scratch: "wf_hyf_scratch hyf_nostr_event_scratch_new"
    by (simp add: wf_hyf_scratch_def hyf_nostr_event_scratch_new_def nostr_constants)
  have "wf_unsigned (hyf_event_of (replicate 32 1) (replicate 32 5) 7 (envelope_bytes sample_nostr_envelope))"
    by (rule wf_hyf_event) simp
  from event_id_eq [OF this, of null_nostr]
  have "\<exists>e. fst (with_signed_hyf_nostr_event null_nostr (envelope_bytes sample_nostr_envelope) [1] (replicate 32 5) 7
      hyf_nostr_event_scratch_new) = Ok e"
    using len
    by (simp add: with_signed_hyf_nostr_event_eq [OF scratch _ len] sign_event_def nostr_signing_key_def null_nostr_def event_new_def
        validate_content_len_def nostr_constants hyf_event_of_def)
  with nostr_envelope_roundtrip [OF null_nostr_laws scratch _ wf len, of "replicate 32 5" "replicate 2048 0" "[1]" 7] len show ?thesis
    by auto
qed

end
