(* ===== verification/Hyf_Bridge_Nostr.thy ===== *)
theory Hyf_Bridge_Nostr
  imports Hyf_Bridge Hyf_Nostr
begin

text \<open>
  The Nostr adapter of the bridge, crate \<open>hyf_bridge_nostr\<close>: bridge messages as the content of
  signed Nostr events, the checks on events that come in, and the JSON text of events that go out
  (\<open>src/crates/hyf_bridge_nostr/src/{content,error,event}.rs\<close>).
\<close>

unbundle bit_operations_syntax

section \<open>Errors and content\<close>

datatype nostr_bridge_error =
    NbNostr nostr_error
  | NbBridge bridge_error
  | NbWrongKind u16
  | NbMissingRequiredTag string
  | CommunityTagMismatch
  | NostrAuthorPubkeyMismatch

definition encode_bridge_nostr_content :: "u8 list \<Rightarrow> (u8 list, u8 list, nostr_bridge_error) stm" where
  "encode_bridge_nostr_content raw =
     sbind (slift (map_err NbBridge (validate_bridge_message raw))) (\<lambda>_.
       smap_err NbNostr (encode_lower_hex raw))"

definition decode_bridge_nostr_content :: "u8 list \<Rightarrow> (u8 list, u8 list, nostr_bridge_error) stm" where
  "decode_bridge_nostr_content content =
     sbind (smap_err NbNostr (decode_lower_hex content)) (\<lambda>len out.
       (rbind (slice_to out len) (\<lambda>raw. rbind (map_err NbBridge (validate_bridge_message raw)) (\<lambda>_. Ok raw)), out))"

section \<open>Egress\<close>

definition HYF_NOSTR_BRIDGE_EVENT_KIND :: u16 where "HYF_NOSTR_BRIDGE_EVENT_KIND = 9109"
definition HYF_NOSTR_BRIDGE_HYF_TAG :: "u8 list" where "HYF_NOSTR_BRIDGE_HYF_TAG = ascii ''hyf''"
definition HYF_NOSTR_BRIDGE_VERSION_TAG :: "u8 list" where "HYF_NOSTR_BRIDGE_VERSION_TAG = ascii ''v0''"
definition HYF_NOSTR_BRIDGE_ALT_TAG :: "u8 list" where "HYF_NOSTR_BRIDGE_ALT_TAG = ascii ''HYF bridge message''"
definition HYF_NOSTR_BRIDGE_EVENT_JSON_MAX_LEN :: usize where "HYF_NOSTR_BRIDGE_EVENT_JSON_MAX_LEN = 6144"

record nostr_bridge_event_scratch =
  nb_content :: "u8 list"
  nb_community_hex :: "u8 list"

definition nostr_bridge_event_scratch_new :: nostr_bridge_event_scratch where
  "nostr_bridge_event_scratch_new =
     \<lparr>nb_content = replicate (HYF_BRIDGE_MESSAGE_MAX_LEN * 2) 0, nb_community_hex = replicate 32 0\<rparr>"

record nostr_bridge_egress_params =
  np_author_secret :: nostr_secret_key
  np_created_at :: u64

text \<open>The event is what the closure \<open>f\<close> is given.\<close>

definition bridge_message_to_nostr_event ::
  "nostr_crypto \<Rightarrow> u8 list \<Rightarrow> nostr_secret_key \<Rightarrow> u64 \<Rightarrow> (nostr_bridge_event_scratch, nostr_event, nostr_bridge_error) stm" where
  "bridge_message_to_nostr_event c raw author_secret created_at =
     sbind (slift (map_err NbBridge (validate_bridge_message raw))) (\<lambda>message.
     sbind (on_field nb_content (\<lambda>b s. s\<lparr>nb_content := b\<rparr>) (encode_bridge_nostr_content raw)) (\<lambda>content.
     sbind (on_field nb_community_hex (\<lambda>b s. s\<lparr>nb_community_hex := b\<rparr>)
       (smap_err NbNostr (encode_lower_hex (community_id_bytes (bm_room_id message))))) (\<lambda>community_hex.
     sbind (slift (map_err NbNostr (tag_new [HYF_NOSTR_BRIDGE_HYF_TAG, ascii ''bridge'', HYF_NOSTR_BRIDGE_VERSION_TAG]))) (\<lambda>hyf_tag.
     sbind (slift (map_err NbNostr (tag_new [ascii ''community'', community_hex]))) (\<lambda>community_tag.
     sbind (slift (map_err NbNostr (tag_new [ascii ''alt'', HYF_NOSTR_BRIDGE_ALT_TAG]))) (\<lambda>alt_tag.
     sbind (slift (map_err NbNostr (derive_nostr_public_key c author_secret))) (\<lambda>pubkey.
     sbind (slift (map_err NbNostr (unsigned_event_new pubkey created_at HYF_NOSTR_BRIDGE_EVENT_KIND
       [hyf_tag, community_tag, alt_tag] content))) (\<lambda>unsigned.
       slift (map_err NbNostr (sign_event c unsigned author_secret))))))))))"

section \<open>The JSON text of an event\<close>

text \<open>
  \<open>JsonWriter\<close> is the buffer and the length written. Its errors are all Nostr errors, which \<open>?\<close>
  wraps in \<open>NbNostr\<close> in \<open>write_nostr_event_json\<close>.
\<close>

definition jw_write :: "write_cursor sink" where
  "jw_write bytes c =
     (case checked_add (wc_index c) (length bytes) of
        None \<Rightarrow> (Err (NoOutputTooSmall usize_max (length (wc_output c))), c)
      | Some needed \<Rightarrow>
          if length (wc_output c) < needed then (Err (NoOutputTooSmall needed (length (wc_output c))), c)
          else (case copy_at (wc_output c) (wc_index c) bytes of
                  Ok out \<Rightarrow> (Ok (), c\<lparr>wc_output := out, wc_index := needed\<rparr>)
                | Err e \<Rightarrow> (Err e, c)
                | Panic \<Rightarrow> (Panic, c)))"

definition jw_push_byte :: "u8 \<Rightarrow> (write_cursor, unit, nostr_error) stm" where
  "jw_push_byte byte = jw_write [byte]"

definition jw_push_str :: "u8 list \<Rightarrow> (write_cursor, unit, nostr_error) stm" where
  "jw_push_str value = jw_write value"

definition JW_HEX :: "u8 list" where
  "JW_HEX = ascii ''0123456789abcdef''"

definition jw_write_control_escape :: "u8 \<Rightarrow> (write_cursor, unit, nostr_error) stm" where
  "jw_write_control_escape value =
     sbind (jw_write [0x5C, 0x75, 0x30, 0x30]) (\<lambda>_.
     sbind (slift (get_at JW_HEX (unat (drop_bit 4 value)))) (\<lambda>high.
     sbind (jw_push_byte high) (\<lambda>_.
     sbind (slift (get_at JW_HEX (unat (value AND 0x0F)))) (\<lambda>low.
       jw_push_byte low))))"

definition jw_write_json_char :: "u8 list \<Rightarrow> (write_cursor, unit, nostr_error) stm" where
  "jw_write_json_char character =
     (if character = [0x22] then jw_push_str [0x5C, 0x22]
      else if character = [0x5C] then jw_push_str [0x5C, 0x5C]
      else if character = [0x0A] then jw_push_str [0x5C, 0x6E]
      else if character = [0x0D] then jw_push_str [0x5C, 0x72]
      else if character = [0x09] then jw_push_str [0x5C, 0x74]
      else if character = [0x08] then jw_push_str [0x5C, 0x62]
      else if character = [0x0C] then jw_push_str [0x5C, 0x66]
      else case character of
        [value] \<Rightarrow> if value \<le> 0x1F then jw_write_control_escape value else jw_push_str [value]
      | _ \<Rightarrow> jw_push_str character)"

fun jw_write_json_chars :: "u8 list list \<Rightarrow> (write_cursor, unit, nostr_error) stm" where
  "jw_write_json_chars [] = sret ()"
| "jw_write_json_chars (character # characters) =
     sbind (jw_write_json_char character) (\<lambda>_. jw_write_json_chars characters)"

definition jw_write_json_string :: "u8 list \<Rightarrow> (write_cursor, unit, nostr_error) stm" where
  "jw_write_json_string value =
     sbind (jw_push_byte 0x22) (\<lambda>_.
     sbind (jw_write_json_chars (utf8_chars value)) (\<lambda>_.
       jw_push_byte 0x22))"

text \<open>The loop of \<open>write_u64\<close>, from the last digit down, with the index and the rest of the number.\<close>

lemma u64_div_10_decreases: "(v :: u64) div 10 \<noteq> 0 \<Longrightarrow> unat (v div 10) < unat v"
  using u64_div_10_less [of v] by (cases "v = 0") auto

function jw_digits_loop :: "u8 list \<Rightarrow> usize \<Rightarrow> u64 \<Rightarrow> (u8 list \<times> usize, nostr_error) result" where
  "jw_digits_loop digits index remaining =
     (if index = 0 then Panic
      else rbind (set_at digits (index - 1) (0x30 + ucast (remaining mod 10))) (\<lambda>digits.
        if remaining div 10 = 0 then Ok (digits, index - 1)
        else jw_digits_loop digits (index - 1) (remaining div 10)))"
  by pat_completeness auto

termination
  by (relation "measure (\<lambda>(digits, index, remaining). unat remaining)") (auto simp: u64_div_10_decreases)

declare jw_digits_loop.simps [simp del]

definition jw_write_u64 :: "u64 \<Rightarrow> (write_cursor, unit, nostr_error) stm" where
  "jw_write_u64 value =
     sbind (slift (rbind (jw_digits_loop (replicate 20 0) 20 value) (\<lambda>(digits, index). slice_from digits index))) jw_write"

definition jw_write_tag :: "nostr_tag \<Rightarrow> (write_cursor, unit, nostr_error) stm" where
  "jw_write_tag tag =
     sbind (jw_push_byte 0x5B) (\<lambda>_.
     sbind (write_separated jw_write jw_write_json_string 0 tag) (\<lambda>_.
       jw_push_byte 0x5D))"

definition jw_write_tags :: "nostr_tag list \<Rightarrow> (write_cursor, unit, nostr_error) stm" where
  "jw_write_tags tags =
     sbind (jw_push_byte 0x5B) (\<lambda>_.
     sbind (write_separated jw_write jw_write_tag 0 tags) (\<lambda>_.
       jw_push_byte 0x5D))"

text \<open>A member: its name, the colon, its value.\<close>

definition jw_member :: "string \<Rightarrow> (write_cursor, unit, nostr_error) stm \<Rightarrow> (write_cursor, unit, nostr_error) stm" where
  "jw_member name value =
     sbind (jw_write_json_string (ascii name)) (\<lambda>_.
     sbind (jw_push_byte 0x3A) (\<lambda>_.
       value))"

definition jw_write_event :: "nostr_event \<Rightarrow> (write_cursor, unit, nostr_error) stm" where
  "jw_write_event event =
     sbind (slift (fst (write_hex (ne_id event) (replicate 64 0)))) (\<lambda>id_hex.
     sbind (slift (fst (write_hex (ne_pubkey event) (replicate 64 0)))) (\<lambda>pubkey_hex.
     sbind (slift (fst (write_hex (ne_sig event) (replicate 128 0)))) (\<lambda>sig_hex.
     sbind (jw_push_byte 0x7B) (\<lambda>_.
     sbind (jw_member ''id'' (jw_write_json_string id_hex)) (\<lambda>_.
     sbind (jw_push_byte 0x2C) (\<lambda>_.
     sbind (jw_member ''pubkey'' (jw_write_json_string pubkey_hex)) (\<lambda>_.
     sbind (jw_push_byte 0x2C) (\<lambda>_.
     sbind (jw_member ''created_at'' (jw_write_u64 (ne_created_at event))) (\<lambda>_.
     sbind (jw_push_byte 0x2C) (\<lambda>_.
     sbind (jw_member ''kind'' (jw_write_u64 (ucast (ne_kind event)))) (\<lambda>_.
     sbind (jw_push_byte 0x2C) (\<lambda>_.
     sbind (jw_member ''tags'' (jw_write_tags (ne_tags event))) (\<lambda>_.
     sbind (jw_push_byte 0x2C) (\<lambda>_.
     sbind (jw_member ''content'' (jw_write_json_string (ne_content event))) (\<lambda>_.
     sbind (jw_push_byte 0x2C) (\<lambda>_.
     sbind (jw_member ''sig'' (jw_write_json_string sig_hex)) (\<lambda>_.
       jw_push_byte 0x7D)))))))))))))))))"

definition write_nostr_event_json :: "nostr_event \<Rightarrow> (u8 list, usize, nostr_bridge_error) stm" where
  "write_nostr_event_json event out =
     (case jw_write_event event (write_new out) of
        (r, c) \<Rightarrow> (map_err NbNostr (rbind r (\<lambda>_. Ok (wc_index c))), wc_output c))"

text \<open>The state is the scratch and the output.\<close>

definition bridge_message_to_nostr_event_json ::
  "nostr_crypto \<Rightarrow> u8 list \<Rightarrow> nostr_bridge_egress_params \<Rightarrow>
   (nostr_bridge_event_scratch \<times> u8 list, usize, nostr_bridge_error) stm" where
  "bridge_message_to_nostr_event_json c raw params =
     sbind (on_field fst (\<lambda>b s. (b, snd s))
       (bridge_message_to_nostr_event c raw (np_author_secret params) (np_created_at params))) (\<lambda>event.
       on_field snd (\<lambda>b s. (fst s, b)) (write_nostr_event_json event))"

section \<open>Ingress\<close>

record nostr_bridge_ingress =
  ni_raw_bridge_message :: "u8 list"
  ni_bridge_message :: bridge_message
  ni_ingress_meta :: bridge_ingress_meta

definition require_static_tag :: "nostr_tag list \<Rightarrow> u8 list list \<Rightarrow> string \<Rightarrow> (unit, nostr_bridge_error) result" where
  "require_static_tag tags expected missing_name =
     (if list_ex (\<lambda>tag. tag = expected) tags then Ok () else Err (NbMissingRequiredTag missing_name))"

fun require_community_tag :: "nostr_tag list \<Rightarrow> (community_id, nostr_bridge_error) result" where
  "require_community_tag [] = Err (NbMissingRequiredTag ''community'')"
| "require_community_tag (tag # tags) =
     (if length tag = 2 \<and> tag ! 0 = ascii ''community''
      then rbind (map_err NbNostr (decode_fixed_lower_hex 16 (tag ! 1))) (\<lambda>bytes. Ok (CommunityId bytes))
      else require_community_tag tags)"

definition validate_nostr_author_rule :: "nostr_public_key \<Rightarrow> bridge_message \<Rightarrow> (unit, nostr_bridge_error) result" where
  "validate_nostr_author_rule pubkey message =
     (if be_kind (bm_author message) = ForeignAuthor Nostr \<and> be_id (bm_author message) \<noteq> pubkey
      then Err NostrAuthorPubkeyMismatch else Ok ())"

definition nostr_event_to_bridge_message ::
  "nostr_crypto \<Rightarrow> nostr_event \<Rightarrow> (u8 list, nostr_bridge_ingress, nostr_bridge_error) stm" where
  "nostr_event_to_bridge_message c event =
     sbind (slift (map_err NbNostr (verify_event c event))) (\<lambda>_.
     if ne_kind event \<noteq> HYF_NOSTR_BRIDGE_EVENT_KIND then sthrow (NbWrongKind (ne_kind event))
     else
       sbind (slift (require_static_tag (ne_tags event)
         [HYF_NOSTR_BRIDGE_HYF_TAG, ascii ''bridge'', HYF_NOSTR_BRIDGE_VERSION_TAG] ''hyf'')) (\<lambda>_.
       sbind (slift (require_static_tag (ne_tags event) [ascii ''alt'', HYF_NOSTR_BRIDGE_ALT_TAG] ''alt'')) (\<lambda>_.
       sbind (slift (require_community_tag (ne_tags event))) (\<lambda>community.
       sbind (decode_bridge_nostr_content (ne_content event)) (\<lambda>raw.
       sbind (slift (map_err NbBridge (decode_bridge_message raw))) (\<lambda>message.
       if community \<noteq> bm_room_id message then sthrow CommunityTagMismatch
       else
         sbind (slift (validate_nostr_author_rule (ne_pubkey event) message)) (\<lambda>_.
           sret \<lparr>ni_raw_bridge_message = raw, ni_bridge_message = message,
                 ni_ingress_meta = \<lparr>origin_protocol = NostrProtocol, verification_state = TransportSigned\<rparr>\<rparr>)))))))"

section \<open>What the JSON writer emits\<close>

definition json_member :: "string \<Rightarrow> u8 list \<Rightarrow> u8 list" where
  "json_member name value = json_string (ascii name) @ 0x3A # value"

definition event_json :: "nostr_event \<Rightarrow> u8 list" where
  "event_json e =
     0x7B # json_member ''id'' (json_string (hex_bytes (ne_id e))) @ 0x2C #
     json_member ''pubkey'' (json_string (hex_bytes (ne_pubkey e))) @ 0x2C #
     json_member ''created_at'' (decimal (unat (ne_created_at e))) @ 0x2C #
     json_member ''kind'' (decimal (unat (ne_kind e))) @ 0x2C #
     json_member ''tags'' (json_array (json_array json_string) (ne_tags e)) @ 0x2C #
     json_member ''content'' (json_string (ne_content e)) @ 0x2C #
     json_member ''sig'' (json_string (hex_bytes (ne_sig e))) @ [0x7D]"

lemma jw_write_buffer: "jw_write = buffer_write"
  by (simp add: fun_eq_iff jw_write_def buffer_write_def)

interpretation jw: canonical_sink jw_write buffer_good buffer_written buffer_room
  unfolding jw_write_buffer by unfold_locales

lemma jw_byte: "jw.emits (jw_push_byte b) [b]"
  by (simp add: jw_push_byte_def jw.emits_write)

lemma jw_str: "jw.emits (jw_push_str bs) bs"
  by (simp add: jw_push_str_def jw.emits_write)

lemma JW_HEX_digits: "JW_HEX = HEX_DIGITS"
  by (simp add: JW_HEX_def HEX_DIGITS_def ascii_def)

lemma jw_hex: "unat v < 16 \<Longrightarrow> get_at JW_HEX (unat v) = Ok (hex_digit v)"
  by (simp add: get_at_def JW_HEX_digits length_HEX_DIGITS hex_digit_def)

lemma jw_control:
  "jw.emits (jw_write_control_escape b) [0x5C, 0x75, 0x30, 0x30, hex_digit (drop_bit 4 b), hex_digit (b AND 0x0F)]"
proof -
  have "jw.emits (jw_write_control_escape b) ([0x5C, 0x75, 0x30, 0x30] @ [hex_digit (drop_bit 4 b)] @ [hex_digit (b AND 0x0F)])"
    unfolding jw_write_control_escape_def jw_hex [OF nibble_less(1)] jw_hex [OF nibble_less(2)]
    by (intro jw.emits_bind jw.emits_write jw.emits_lift jw_byte)
  then show ?thesis by simp
qed

lemma jw_char_single: "jw.emits (jw_write_json_char [b]) (json_escape b)"
  using jw_str jw_control by (auto simp: jw_write_json_char_def json_escape_def)

lemma jw_char_multi: "cs \<noteq> [] \<Longrightarrow> jw.emits (jw_write_json_char (c # cs)) (c # cs)"
  by (cases cs) (auto simp: jw_write_json_char_def jw_str)

lemma jw_json_chars: "utf8_valid s \<Longrightarrow> jw.emits (jw_write_json_chars (utf8_chars s)) (concat (map json_escape s))"
proof (induction s rule: utf8_chars.induct)
  case 1
  show ?case by (simp add: jw.emits_ret)
next
  case (2 b bs)
  let ?tail = "takeWhile utf8_tail bs" and ?rest = "dropWhile utf8_tail bs"
  have char: "jw.emits (jw_write_json_char (b # ?tail)) (concat (map json_escape (b # ?tail)))" and valid: "utf8_valid ?rest"
    using utf8_first_char [OF 2(2)] jw_char_single [of b] jw_char_multi [of ?tail b] by (cases "?tail = []"; simp)+
  have "jw.emits (jw_write_json_chars (utf8_chars (b # bs)))
      (concat (map json_escape (b # ?tail)) @ concat (map json_escape ?rest))"
    unfolding utf8_chars.simps jw_write_json_chars.simps by (rule jw.emits_bind [OF char 2(1) [OF valid]])
  also have "concat (map json_escape (b # ?tail)) @ concat (map json_escape ?rest) = concat (map json_escape (b # bs))"
    by (metis append_Cons concat_append map_append takeWhile_dropWhile_id)
  finally show ?case .
qed

lemma jw_json_string: "utf8_valid s \<Longrightarrow> jw.emits (jw_write_json_string s) (json_string s)"
proof -
  assume "utf8_valid s"
  then have "jw.emits (jw_write_json_string s) ([0x22] @ concat (map json_escape s) @ [0x22])"
    unfolding jw_write_json_string_def by (intro jw.emits_bind jw_byte jw_json_chars)
  then show ?thesis by (simp add: json_string_def)
qed

lemma jw_digits_loop_digits: "v \<noteq> 0 \<Longrightarrow> jw_digits_loop digits i v = digits_loop digits i v"
proof (induction digits i v rule: jw_digits_loop.induct)
  case (1 digits i v)
  show ?case
  proof (cases "i = 0")
    case False
    with 1 show ?thesis
      by (subst jw_digits_loop.simps, subst digits_loop.simps)
        (cases "set_at digits (i - 1) (0x30 + ucast (v mod 10)) :: (u8 list, nostr_error) result",
          auto simp: digits_loop.simps [of _ _ 0])
  qed (use 1(2) in \<open>simp add: jw_digits_loop.simps digits_loop.simps\<close>)
qed

lemma jw_u64_digits:
  "rbind (jw_digits_loop (replicate 20 0) 20 v) (\<lambda>(digits, index). slice_from digits index) = Ok (decimal (unat v))"
proof (cases "v = 0")
  case True
  then show ?thesis
    by (simp add: jw_digits_loop.simps set_at_def slice_from_def decimal.simps drop_update_last [of 20 "replicate 20 0", simplified])
qed (simp add: jw_digits_loop_digits u64_digits)

lemma jw_u64: "jw.emits (jw_write_u64 v) (decimal (unat v))"
  unfolding jw_write_u64_def jw_u64_digits by (rule jw.emits_lift [OF jw.emits_write])

lemma jw_array:
  assumes "\<And>x. x \<in> set xs \<Longrightarrow> jw.emits (g x) (f x)"
  shows "jw.emits (sbind (jw_push_byte 0x5B) (\<lambda>_. sbind (write_separated jw_write g 0 xs) (\<lambda>_. jw_push_byte 0x5D))) (json_array f xs)"
  using jw.emits_array [OF assms] by (simp add: jw_push_byte_def push_byte_to_def)

lemma jw_tags:
  assumes "\<forall>tag \<in> set tags. \<forall>v \<in> set tag. utf8_valid v"
  shows "jw.emits (jw_write_tags tags) (json_array (json_array json_string) tags)"
  unfolding jw_write_tags_def
  by (rule jw_array, unfold jw_write_tag_def, rule jw_array, rule jw_json_string) (use assms in simp)

lemma jw_member_emits:
  assumes "list_all (\<lambda>ch. of_char ch < (128 :: nat)) name" and "jw.emits m bs"
  shows "jw.emits (jw_member name m) (json_member name bs)"
proof -
  have "jw.emits (jw_member name m) (json_string (ascii name) @ [0x3A] @ bs)"
    unfolding jw_member_def by (intro jw.emits_bind jw_json_string jw_byte assms(2) ascii_utf8 assms(1))
  then show ?thesis by (simp add: json_member_def)
qed

definition wf_nostr_event :: "nostr_event \<Rightarrow> bool" where
  "wf_nostr_event e \<longleftrightarrow> wf_unsigned (event_unsigned e) \<and> length (ne_id e) = 32 \<and> length (ne_sig e) = 64"

lemma unat_kind: "unat (ucast (k :: u16) :: u64) = unat k"
  using unsigned_less [where ?'a = nat, of k] by (simp add: unsigned_ucast_eq take_bit_nat_eq_self)

lemma jw_event:
  assumes "wf_nostr_event e"
  shows "jw.emits (jw_write_event e) (event_json e)"
proof -
  have hex: "fst (write_hex (ne_id e) (replicate 64 0)) = Ok (hex_bytes (ne_id e))"
    "fst (write_hex (ne_pubkey e) (replicate 64 0)) = Ok (hex_bytes (ne_pubkey e))"
    "fst (write_hex (ne_sig e) (replicate 128 0)) = Ok (hex_bytes (ne_sig e))"
    and tags: "\<forall>tag \<in> set (ne_tags e). \<forall>v \<in> set tag. utf8_valid v" and content: "utf8_valid (ne_content e)"
    using assms by (auto simp: wf_nostr_event_def write_hex_fixed wf_unsigned_def event_unsigned_def usize_max_def)
  have "jw.emits (jw_write_event e)
     ([0x7B] @ json_member ''id'' (json_string (hex_bytes (ne_id e))) @ [0x2C] @
     json_member ''pubkey'' (json_string (hex_bytes (ne_pubkey e))) @ [0x2C] @
     json_member ''created_at'' (decimal (unat (ne_created_at e))) @ [0x2C] @
     json_member ''kind'' (decimal (unat (ucast (ne_kind e) :: u64))) @ [0x2C] @
     json_member ''tags'' (json_array (json_array json_string) (ne_tags e)) @ [0x2C] @
     json_member ''content'' (json_string (ne_content e)) @ [0x2C] @
     json_member ''sig'' (json_string (hex_bytes (ne_sig e))) @ [0x7D])"
    unfolding jw_write_event_def hex
    by (intro jw.emits_lift jw.emits_bind jw_byte jw_member_emits jw_json_string jw_u64 jw_tags tags content hex_bytes_utf8)
      simp_all
  then show ?thesis by (simp add: event_json_def unat_kind)
qed

lemma write_nostr_event_json_cases:
  assumes "wf_nostr_event e" and "length out \<le> usize_max"
  shows "if length (event_json e) \<le> length out
    then \<exists>out'. write_nostr_event_json e out = (Ok (length (event_json e)), out') \<and> length out' = length out \<and>
      take (length (event_json e)) out' = event_json e
    else \<exists>err out'. write_nostr_event_json e out = (Err (NbNostr err), out') \<and> length out' = length out"
proof -
  have room': "buffer_room (write_new out) = (\<lambda>n. n \<le> length out)"
    by (simp add: buffer_room_def write_new_def fun_eq_iff)
  have good: "buffer_good (write_new out)" "buffer_written (write_new out) = []"
    using assms(2) by (simp_all add: buffer_good_def buffer_written_def write_new_def)
  have len: "length (wc_output c) = length out" if "buffer_room c = (\<lambda>n. n \<le> length out)" for c
    using fun_cong [OF that, of "length (wc_output c)"] fun_cong [OF that, of "length out"] by (simp add: buffer_room_def)
  note run = jw_event [OF assms(1), unfolded jw.emits_def, rule_format, OF good(1), unfolded good(2) room' list.size(3) add_0]
  show ?thesis
  proof (cases "length (event_json e) \<le> length out")
    case True
    then obtain c where c: "jw_write_event e (write_new out) = (Ok (), c)" "buffer_good c"
      "buffer_written c = event_json e" "length (wc_output c) = length out"
      using run len by auto
    have "wc_index c = length (event_json e)"
      using c(2) arg_cong [OF c(3), of length] by (simp add: buffer_good_def buffer_written_def)
    with True c show ?thesis by (simp add: write_nostr_event_json_def buffer_written_def)
  next
    case False
    with run obtain err c where "jw_write_event e (write_new out) = (Err err, c)" "length (wc_output c) = length out"
      using len by auto
    with False show ?thesis by (simp add: write_nostr_event_json_def)
  qed
qed

text \<open>Hexadecimal needs no escapes.\<close>

lemma hex_bytes_plain: "concat (map json_escape (hex_bytes bs)) = hex_bytes bs"
proof -
  have "json_escape d = [d]" if "0x2D < d" "d \<noteq> 0x5C" for d :: u8
    using that by (auto simp: json_escape_def word_less_nat_alt word_le_nat_alt)
  then show ?thesis by (induction bs) (simp_all add: hex_digit_facts)
qed

lemma length_json_hex: "length (json_string (hex_bytes bs)) = 2 * length bs + 2"
  by (simp add: json_string_def hex_bytes_plain)

lemma length_decimal_u64: "length (decimal (unat (v :: u64))) \<le> 20"
proof -
  have "unat v < 10 ^ 20" using unsigned_less [where ?'a = nat, of v] by simp
  then show ?thesis by (rule length_decimal) simp
qed

section \<open>The events of the bridge\<close>

definition bridge_event_of :: "nostr_public_key \<Rightarrow> u64 \<Rightarrow> u8 list \<Rightarrow> bridge_message \<Rightarrow> nostr_unsigned_event" where
  "bridge_event_of pubkey created_at raw m =
     \<lparr>ne_pubkey = pubkey, ne_created_at = created_at, ne_kind = 9109,
      ne_tags = [[ascii ''hyf'', ascii ''bridge'', ascii ''v0''], [ascii ''community'', hex_bytes (community_id_bytes (bm_room_id m))],
        [ascii ''alt'', ascii ''HYF bridge message'']],
      ne_content = hex_bytes raw\<rparr>"

lemmas nostr_bridge_constants = HYF_NOSTR_BRIDGE_EVENT_KIND_def HYF_NOSTR_BRIDGE_HYF_TAG_def HYF_NOSTR_BRIDGE_VERSION_TAG_def
  HYF_NOSTR_BRIDGE_ALT_TAG_def

lemma bridge_tags_utf8: "utf8_valid (ascii ''hyf'')" "utf8_valid (ascii ''bridge'')" "utf8_valid (ascii ''v0'')"
    "utf8_valid (ascii ''community'')" "utf8_valid (ascii ''alt'')" "utf8_valid (ascii ''HYF bridge message'')"
  by (rule ascii_utf8, simp)+

lemma wf_bridge_event: "length pubkey = 32 \<Longrightarrow> wf_unsigned (bridge_event_of pubkey ts raw m)"
  by (auto simp: wf_unsigned_def bridge_event_of_def bridge_tags_utf8 simp del: utf8_valid.simps)

definition wf_nb_scratch :: "nostr_bridge_event_scratch \<Rightarrow> bool" where
  "wf_nb_scratch s \<longleftrightarrow> length (nb_content s) = 3072 \<and> length (nb_community_hex s) = 32"

lemma decode_bridge_length: "decode_bridge_message raw = Ok m \<Longrightarrow> length raw \<le> 1119 \<and> length (community_id_bytes (bm_room_id m)) = 16"
  using bridge_bytes_le [of m] by (auto simp: decode_bridge_message_iff wf_bridge_message_def wf_defs)

lemma bridge_message_to_nostr_event_eq:
  assumes "wf_nb_scratch s"
  shows "\<exists>s'. wf_nb_scratch s' \<and> bridge_message_to_nostr_event c raw secret ts s =
    ((case decode_bridge_message raw of
        Ok m \<Rightarrow> if nc_signing_key_ok c secret
          then map_err NbNostr (sign_event c (bridge_event_of (nc_public_key c secret) ts raw m) secret) else Err (NbNostr Crypto)
      | Err e \<Rightarrow> Err (NbBridge e)
      | Panic \<Rightarrow> Panic), s')"
proof (cases "decode_bridge_message raw")
  case (Ok m)
  let ?s = "\<lparr>nb_content = hex_bytes raw @ drop (2 * length raw) (nb_content s),
    nb_community_hex = hex_bytes (community_id_bytes (bm_room_id m))\<rparr>"
  have len: "2 * length raw \<le> 3072" "length (community_id_bytes (bm_room_id m)) = 16"
    using decode_bridge_length [OF Ok] by auto
  then have "wf_nb_scratch ?s" using assms by (simp add: wf_nb_scratch_def)
  then show ?thesis
    using Ok assms len
    by (intro exI [of _ ?s])
      (simp add: bridge_message_to_nostr_event_def validate_bridge_message_def sbind_def slift_def on_field_def smap_err_def
        encode_bridge_nostr_content_def encode_lower_hex_cases wf_nb_scratch_def tag_new_def derive_nostr_public_key_def
        nostr_signing_key_def unsigned_event_new_def validate_content_len_def nostr_constants nostr_bridge_constants
        bridge_event_of_def usize_max_def)
qed (use assms in \<open>auto simp: bridge_message_to_nostr_event_def validate_bridge_message_def sbind_def slift_def\<close>)

lemma sign_event_wf:
  assumes "nostr_laws c" and "wf_unsigned u" and "sign_event c u secret = Ok e"
  shows "wf_nostr_event e"
proof -
  have "length (ne_id e) = 32" "length (ne_sig e) = 64"
    using assms event_id_eq [OF assms(2), of c]
    by (auto simp: sign_event_def nostr_signing_key_def event_unsigned_new nostr_laws_def split: if_splits)
  with sign_event_verifies [OF assms] assms(2) show ?thesis by (simp add: wf_nostr_event_def)
qed

lemma sign_event_fails:
  assumes "nc_signing_key_ok c secret" and "wf_unsigned u" and "ne_pubkey u = nc_public_key c secret" and "length (ne_content u) \<le> 4096"
  shows "(case sign_event c u secret of Ok e \<Rightarrow> True | Err err \<Rightarrow> err = Crypto | Panic \<Rightarrow> False)"
  using assms event_id_eq [OF assms(2), of c]
  by (cases "nc_sign_raw c secret (nc_sha256 c (canonical_bytes u)) DETERMINISTIC_AUX_RAND")
    (simp_all add: sign_event_def nostr_signing_key_def event_new_def validate_content_len_def nostr_constants)

lemma require_static_tag_Ok: "require_static_tag tags expected name = Ok () \<longleftrightarrow> expected \<in> set tags"
  by (auto simp: require_static_tag_def list_ex_iff)

definition community_tag :: "nostr_tag \<Rightarrow> bool" where
  "community_tag tag \<longleftrightarrow> length tag = 2 \<and> tag ! 0 = ascii ''community''"

lemma require_community_tag_Ok:
  "require_community_tag tags = Ok room \<longleftrightarrow>
     length (community_id_bytes room) = 16 \<and> find community_tag tags = Some [ascii ''community'', hex_bytes (community_id_bytes room)]"
proof (induction tags)
  case (Cons tag tags)
  have "tag = [tag ! 0, tag ! 1]" if "length tag = 2" using that by (cases tag; cases "tl tag") auto
  with Cons show ?case
    by (cases room) (auto simp: community_tag_def decode_fixed_lower_hex_Ok dest: hex_bytes_inj)
qed simp

lemma decode_bridge_nostr_content_Ok:
  "fst (decode_bridge_nostr_content content out) = Ok raw \<longleftrightarrow>
     content = hex_bytes raw \<and> length raw \<le> length out \<and> (\<exists>m. decode_bridge_message raw = Ok m)"
proof -
  have "fst (decode_bridge_nostr_content content out) = Ok raw \<longleftrightarrow>
      (\<exists>n out'. decode_lower_hex content out = (Ok n, out') \<and> n \<le> length out' \<and> take n out' = raw \<and>
        (\<exists>m. decode_bridge_message raw = Ok m))"
    by (cases "decode_lower_hex content out"; cases "fst (decode_lower_hex content out)")
      (auto simp: decode_bridge_nostr_content_def sbind_def smap_err_def slice_to_def validate_bridge_message_def)
  also have "\<dots> \<longleftrightarrow> content = hex_bytes raw \<and> length raw \<le> length out \<and> (\<exists>m. decode_bridge_message raw = Ok m)"
    by (auto simp: decode_lower_hex_Ok, rule exI [of _ "length raw"], rule exI [of _ "raw @ drop (length raw) out"], auto)
  finally show ?thesis .
qed

lemma fst_sbind_slift_Ok: "fst (sbind (slift r) f s) = Ok x \<longleftrightarrow> (\<exists>a. r = Ok a \<and> fst (f a s) = Ok x)"
  by (cases r) (auto simp: sbind_def slift_def)

lemma nostr_ingress_Ok:
  "fst (nostr_event_to_bridge_message c e out) = Ok i \<longleftrightarrow>
     (\<exists>raw m. i = \<lparr>ni_raw_bridge_message = raw, ni_bridge_message = m,
          ni_ingress_meta = \<lparr>origin_protocol = NostrProtocol, verification_state = TransportSigned\<rparr>\<rparr> \<and>
        verify_event c e = Ok () \<and> ne_kind e = 9109 \<and>
        [ascii ''hyf'', ascii ''bridge'', ascii ''v0''] \<in> set (ne_tags e) \<and> [ascii ''alt'', ascii ''HYF bridge message''] \<in> set (ne_tags e) \<and>
        find community_tag (ne_tags e) = Some [ascii ''community'', hex_bytes (community_id_bytes (bm_room_id m))] \<and>
        ne_content e = hex_bytes raw \<and> length raw \<le> length out \<and> decode_bridge_message raw = Ok m \<and>
        (be_kind (bm_author m) = ForeignAuthor Nostr \<longrightarrow> be_id (bm_author m) = ne_pubkey e))" (is "?l \<longleftrightarrow> ?r")
proof -
  have tail: "fst (sbind (decode_bridge_nostr_content (ne_content e)) (\<lambda>raw.
       sbind (slift (map_err NbBridge (decode_bridge_message raw))) (\<lambda>message.
       if community \<noteq> bm_room_id message then sthrow CommunityTagMismatch
       else sbind (slift (validate_nostr_author_rule (ne_pubkey e) message)) (\<lambda>_.
           sret \<lparr>ni_raw_bridge_message = raw, ni_bridge_message = message,
                 ni_ingress_meta = \<lparr>origin_protocol = NostrProtocol, verification_state = TransportSigned\<rparr>\<rparr>))) out) = Ok i \<longleftrightarrow>
      (\<exists>raw m. fst (decode_bridge_nostr_content (ne_content e) out) = Ok raw \<and> decode_bridge_message raw = Ok m \<and>
        community = bm_room_id m \<and> (be_kind (bm_author m) = ForeignAuthor Nostr \<longrightarrow> be_id (bm_author m) = ne_pubkey e) \<and>
        i = \<lparr>ni_raw_bridge_message = raw, ni_bridge_message = m,
          ni_ingress_meta = \<lparr>origin_protocol = NostrProtocol, verification_state = TransportSigned\<rparr>\<rparr>)" for community
  proof -
    obtain r b where run: "decode_bridge_nostr_content (ne_content e) out = (r, b)" by fastforce
    show ?thesis
    proof (cases r)
      case (Ok raw)
      with run show ?thesis
        by (cases "decode_bridge_message raw") (auto simp: sbind_def slift_def sthrow_def sret_def validate_nostr_author_rule_def)
    qed (use run in \<open>simp_all add: sbind_def\<close>)
  qed
  have "?l \<longleftrightarrow> verify_event c e = Ok () \<and> ne_kind e = 9109 \<and>
      [ascii ''hyf'', ascii ''bridge'', ascii ''v0''] \<in> set (ne_tags e) \<and> [ascii ''alt'', ascii ''HYF bridge message''] \<in> set (ne_tags e) \<and>
      (\<exists>community raw m. require_community_tag (ne_tags e) = Ok community \<and> fst (decode_bridge_nostr_content (ne_content e) out) = Ok raw \<and>
        decode_bridge_message raw = Ok m \<and>
        community = bm_room_id m \<and> (be_kind (bm_author m) = ForeignAuthor Nostr \<longrightarrow> be_id (bm_author m) = ne_pubkey e) \<and>
        i = \<lparr>ni_raw_bridge_message = raw, ni_bridge_message = m,
          ni_ingress_meta = \<lparr>origin_protocol = NostrProtocol, verification_state = TransportSigned\<rparr>\<rparr>)"
    unfolding nostr_event_to_bridge_message_def
    by (auto simp: fst_sbind_slift_Ok tail require_static_tag_Ok nostr_bridge_constants sthrow_def)
  also have "\<dots> \<longleftrightarrow> ?r"
    by (auto simp: require_community_tag_Ok decode_bridge_nostr_content_Ok dest: decode_bridge_length)
  finally show ?thesis .
qed

lemma verify_event_Ok:
  assumes "wf_unsigned (event_unsigned e)"
  shows "verify_event c e = Ok () \<longleftrightarrow> ne_id e = nc_sha256 c (canonical_bytes (event_unsigned e)) \<and>
    nc_verifying_key_ok c (ne_pubkey e) \<and> nc_signature_ok c (ne_sig e) \<and> nc_verify_raw c (ne_pubkey e) (ne_id e) (ne_sig e)"
  using event_id_eq [OF assms, of c] by (auto simp: verify_event_def)

lemma length_bridge_event_json:
  assumes "wf_nostr_event e" and "event_unsigned e = bridge_event_of pubkey ts raw m" and "decode_bridge_message raw = Ok m"
  shows "length (event_json e) \<le> 2960"
proof -
  have fields: "ne_tags e = ne_tags (bridge_event_of pubkey ts raw m)" "ne_content e = hex_bytes raw" "length (ne_pubkey e) = 32"
    "length (ne_id e) = 32" "length (ne_sig e) = 64"
    using assms(1,2) by (auto simp: event_unsigned_def bridge_event_of_def wf_nostr_event_def wf_unsigned_def)
  show ?thesis
    using decode_bridge_length [OF assms(3)] length_decimal_u64 [of "ne_created_at e"] length_decimal_u64 [of "ucast (ne_kind e)"] fields(3-5)
    by (simp add: event_json_def json_member_def fields(1,2) length_json_hex bridge_event_of_def json_array_def unat_kind)
      (simp add: json_string_def ascii_def json_escape_def hex_bytes_plain)
qed

lemma nostr_event_json_cases:
  fixes c raw m params
  defines "u \<equiv> bridge_event_of (nc_public_key c (np_author_secret params)) (np_created_at params) raw m"
  assumes "nostr_laws c" and "wf_nb_scratch s" and "decode_bridge_message raw = Ok m" and "length out = 6144"
  obtains (signed) e s' out' where "sign_event c u (np_author_secret params) = Ok e" "wf_unsigned u" "wf_nb_scratch s'"
      "bridge_message_to_nostr_event_json c raw params (s, out) = (Ok (length (event_json e)), (s', out'))"
      "length (event_json e) \<le> 2960" "length out' = length out" "take (length (event_json e)) out' = event_json e"
    | (failed) s' where "nc_signing_key_ok c (np_author_secret params) \<longrightarrow> sign_event c u (np_author_secret params) = Err Crypto"
      "wf_nb_scratch s'" "bridge_message_to_nostr_event_json c raw params (s, out) = (Err (NbNostr Crypto), (s', out))"
proof -
  let ?secret = "np_author_secret params" and ?ts = "np_created_at params"
  obtain s' where s': "wf_nb_scratch s'" and run: "bridge_message_to_nostr_event c raw ?secret ?ts s =
      (if nc_signing_key_ok c ?secret then map_err NbNostr (sign_event c u ?secret) else Err (NbNostr Crypto), s')"
    using bridge_message_to_nostr_event_eq [OF assms(3), of c raw ?secret ?ts] assms(4) by (auto simp: u_def)
  have content: "length (ne_content u) \<le> 4096"
    using decode_bridge_length [OF assms(4)] by (simp add: u_def bridge_event_of_def)
  show thesis
  proof (cases "nc_signing_key_ok c ?secret")
    case False
    with run s' failed show thesis by (simp add: bridge_message_to_nostr_event_json_def sbind_def on_field_def)
  next
    case True
    have wf: "wf_unsigned u" unfolding u_def using assms(2) True by (intro wf_bridge_event) (auto simp: nostr_laws_def)
    have key: "ne_pubkey u = nc_public_key c ?secret" by (simp add: u_def bridge_event_of_def)
    show thesis
    proof (cases "sign_event c u ?secret")
      case (Ok e)
      note e = sign_event_wf [OF assms(2) wf Ok]
      have len: "length (event_json e) \<le> 2960"
        using length_bridge_event_json [OF e _ assms(4)] sign_event_verifies [OF assms(2) wf Ok] by (auto simp: u_def)
      then obtain out' where "write_nostr_event_json e out = (Ok (length (event_json e)), out')" "length out' = length out"
          "take (length (event_json e)) out' = event_json e"
        using write_nostr_event_json_cases [OF e, of out] assms(5) by (auto simp: usize_max_def)
      with run True Ok have "bridge_message_to_nostr_event_json c raw params (s, out) = (Ok (length (event_json e)), (s', out'))"
        by (simp add: bridge_message_to_nostr_event_json_def sbind_def on_field_def)
      from signed [OF Ok wf s' this len] show thesis by (simp add: \<open>length out' = length out\<close> \<open>take (length (event_json e)) out' = event_json e\<close>)
    next
      case (Err err)
      with sign_event_fails [OF True wf key content] have "err = Crypto" by simp
      with run s' True Err failed show thesis by (simp add: bridge_message_to_nostr_event_json_def sbind_def on_field_def)
    next
      case Panic
      with sign_event_fails [OF True wf key content] show thesis by simp
    qed
  qed
qed

section \<open>Properties\<close>

text \<open>
  C10. What the bridge takes from Nostr is signed. An event becomes a bridge message exactly when its
  id is the hash of its own canonical bytes, its signature over that id verifies under its key, it
  has the bridge's kind and tags, its first community tag is the room inside the message, and its
  content is the lower-case hexadecimal of a valid bridge message that fits the output buffer; and a
  message that names a Nostr author is taken only from that author's own key.\<close>

theorem nostr_bridge_ingress_authentic:
  assumes "wf_unsigned (event_unsigned e)"
  shows "fst (nostr_event_to_bridge_message c e out) = Ok i \<longleftrightarrow>
    ne_id e = nc_sha256 c (canonical_bytes (event_unsigned e)) \<and> nc_verifying_key_ok c (ne_pubkey e) \<and>
    nc_signature_ok c (ne_sig e) \<and> nc_verify_raw c (ne_pubkey e) (ne_id e) (ne_sig e) \<and>
    ne_kind e = 9109 \<and> {[ascii ''hyf'', ascii ''bridge'', ascii ''v0''], [ascii ''alt'', ascii ''HYF bridge message'']} \<subseteq> set (ne_tags e) \<and>
    find community_tag (ne_tags e) = Some [ascii ''community'', hex_bytes (community_id_bytes (bm_room_id (ni_bridge_message i)))] \<and>
    ne_content e = hex_bytes (ni_raw_bridge_message i) \<and> length (ni_raw_bridge_message i) \<le> length out \<and>
    decode_bridge_message (ni_raw_bridge_message i) = Ok (ni_bridge_message i) \<and>
    ni_ingress_meta i = \<lparr>origin_protocol = NostrProtocol, verification_state = TransportSigned\<rparr> \<and>
    (be_kind (bm_author (ni_bridge_message i)) = ForeignAuthor Nostr \<longrightarrow> be_id (bm_author (ni_bridge_message i)) = ne_pubkey e)"
  unfolding nostr_ingress_Ok verify_event_Ok [OF assms] by (cases i) auto

text \<open>
  C38. The Nostr bridge round trip. Publishing a valid bridge message fails only in the key or
  signature primitive, or gives an event from which a bridge takes the same bytes and message back,
  unless the message names a Nostr author other than the publishing key: such an event, although
  correctly signed, is refused by every receiver for its author.\<close>

theorem nostr_bridge_roundtrip:
  assumes "nostr_laws c" and "wf_nb_scratch s" and "decode_bridge_message raw = Ok m" and "length raw \<le> length out"
  shows "case fst (bridge_message_to_nostr_event c raw secret ts s) of
      Ok e \<Rightarrow> fst (nostr_event_to_bridge_message c e out) =
        (if be_kind (bm_author m) = ForeignAuthor Nostr \<and> be_id (bm_author m) \<noteq> nc_public_key c secret
         then Err NostrAuthorPubkeyMismatch
         else Ok \<lparr>ni_raw_bridge_message = raw, ni_bridge_message = m,
                  ni_ingress_meta = \<lparr>origin_protocol = NostrProtocol, verification_state = TransportSigned\<rparr>\<rparr>)
    | Err err \<Rightarrow> err = NbNostr Crypto
    | Panic \<Rightarrow> False"
proof (cases "nc_signing_key_ok c secret")
  case False
  then show ?thesis using bridge_message_to_nostr_event_eq [OF assms(2), of c raw secret ts] assms(3) by auto
next
  case True
  let ?u = "bridge_event_of (nc_public_key c secret) ts raw m"
  have wf: "wf_unsigned ?u" using assms(1) True by (intro wf_bridge_event) (auto simp: nostr_laws_def)
  have run: "fst (bridge_message_to_nostr_event c raw secret ts s) = map_err NbNostr (sign_event c ?u secret)"
    using bridge_message_to_nostr_event_eq [OF assms(2), of c raw secret ts] assms(3) True by auto
  have len: "length raw \<le> 1119" "length (community_id_bytes (bm_room_id m)) = 16"
    using decode_bridge_length [OF assms(3)] by auto
  have tag: "require_community_tag (ne_tags ?u) = Ok (bm_room_id m)"
    using len by (subst require_community_tag_Ok) (simp add: community_tag_def bridge_event_of_def)
  have content: "decode_bridge_nostr_content (hex_bytes raw) out = (Ok raw, raw @ drop (length raw) out)"
  proof -
    have "decode_lower_hex (hex_bytes raw) out = (Ok (length raw), raw @ drop (length raw) out)"
      using assms(4) by (auto simp: decode_lower_hex_Ok)
    with assms(3) show ?thesis
      by (simp add: decode_bridge_nostr_content_def sbind_def smap_err_def slice_to_def validate_bridge_message_def)
  qed
  have "fst (nostr_event_to_bridge_message c e out) =
      (if be_kind (bm_author m) = ForeignAuthor Nostr \<and> be_id (bm_author m) \<noteq> nc_public_key c secret
       then Err NostrAuthorPubkeyMismatch
       else Ok \<lparr>ni_raw_bridge_message = raw, ni_bridge_message = m,
                ni_ingress_meta = \<lparr>origin_protocol = NostrProtocol, verification_state = TransportSigned\<rparr>\<rparr>)"
    if "sign_event c ?u secret = Ok e" for e
  proof -
    from sign_event_verifies [OF assms(1) wf that]
    have e: "verify_event c e = Ok ()" "ne_kind e = 9109" "ne_tags e = ne_tags ?u" "ne_content e = hex_bytes raw"
      "ne_pubkey e = nc_public_key c secret"
      by (auto simp: event_unsigned_def bridge_event_of_def)
    have static: "require_static_tag (ne_tags ?u) [HYF_NOSTR_BRIDGE_HYF_TAG, ascii ''bridge'', HYF_NOSTR_BRIDGE_VERSION_TAG] n = Ok ()"
      "require_static_tag (ne_tags ?u) [ascii ''alt'', HYF_NOSTR_BRIDGE_ALT_TAG] n = Ok ()" for n
      by (simp_all add: require_static_tag_Ok nostr_bridge_constants bridge_event_of_def)
    show ?thesis
      using e(1) assms(3)
      by (simp add: nostr_event_to_bridge_message_def e(2-5) static tag content sbind_def slift_def HYF_NOSTR_BRIDGE_EVENT_KIND_def
          validate_nostr_author_rule_def sthrow_def sret_def)
  qed
  with sign_event_fails [OF True wf] len show ?thesis
    unfolding run by (cases "sign_event c ?u secret") (auto simp: bridge_event_of_def)
qed

text \<open>
  C39. The published text fits. For a valid bridge message the event's JSON text is at most 2960 bytes
  long, so with the scratch of the bridge runtime, 6144 bytes, writing it fails only in the key or
  signature primitive, and what is written is exactly the text of a signed event that carries the
  message.\<close>

theorem nostr_bridge_json_fits:
  assumes "nostr_laws c" and "wf_nb_scratch s" and "decode_bridge_message raw = Ok m"
    and "length out = HYF_NOSTR_BRIDGE_EVENT_JSON_MAX_LEN"
  shows "case bridge_message_to_nostr_event_json c raw params (s, out) of
      (Ok n, (s', out')) \<Rightarrow> n \<le> 2960 \<and> wf_nb_scratch s' \<and> length out' = length out \<and>
        (\<exists>e. take n out' = event_json e \<and> verify_event c e = Ok () \<and>
           event_unsigned e = bridge_event_of (nc_public_key c (np_author_secret params)) (np_created_at params) raw m)
    | (Err err, (s', out')) \<Rightarrow> err = NbNostr Crypto \<and> wf_nb_scratch s' \<and> out' = out
    | (Panic, _) \<Rightarrow> False"
proof -
  have "length out = 6144" using assms(4) by (simp add: HYF_NOSTR_BRIDGE_EVENT_JSON_MAX_LEN_def)
  show ?thesis
  proof (rule nostr_event_json_cases [OF assms(1-3) \<open>length out = 6144\<close>, of params])
    fix e s' out'
    assume run: "bridge_message_to_nostr_event_json c raw params (s, out) = (Ok (length (event_json e)), (s', out'))"
      "length (event_json e) \<le> 2960" "length out' = length out" "take (length (event_json e)) out' = event_json e" "wf_nb_scratch s'"
    assume "wf_unsigned (bridge_event_of (nc_public_key c (np_author_secret params)) (np_created_at params) raw m)"
      and "sign_event c (bridge_event_of (nc_public_key c (np_author_secret params)) (np_created_at params) raw m) (np_author_secret params) = Ok e"
    from sign_event_verifies [OF assms(1) this] run show ?thesis by (auto intro!: exI [of _ e])
  qed simp
qed

text \<open>An instance: the sample message, published under the trivial primitives.\<close>

definition sample_raw :: "u8 list" where
  "sample_raw = bridge_bytes sample_bridge_message"

lemma sample_raw_decodes: "decode_bridge_message sample_raw = Ok sample_bridge_message"
  using sample_bridge_ok decode_bridge_message_iff by (auto simp: sample_raw_def)

lemma scratch_new_wf: "wf_nb_scratch nostr_bridge_event_scratch_new"
  by (simp add: wf_nb_scratch_def nostr_bridge_event_scratch_new_def bridge_constants)

definition sample_unsigned :: nostr_unsigned_event where
  "sample_unsigned = bridge_event_of (replicate 32 1) 7 sample_raw sample_bridge_message"

lemma sample_unsigned_wf: "wf_unsigned sample_unsigned"
  unfolding sample_unsigned_def by (rule wf_bridge_event) simp

lemma sample_publishes:
  obtains e s' where "sign_event null_nostr sample_unsigned [1] = Ok e" "wf_nostr_event e" "event_unsigned e = sample_unsigned"
    "wf_nb_scratch s'" "bridge_message_to_nostr_event null_nostr sample_raw [1] 7 nostr_bridge_event_scratch_new = (Ok e, s')"
proof -
  have null: "nc_signing_key_ok null_nostr [1]" "nc_public_key null_nostr [1] = replicate 32 1"
    "nc_sign_raw null_nostr [1] m aux = Some (replicate 64 2)" for m aux
    by (simp_all add: null_nostr_def)
  have "2 * length sample_raw \<le> 4096" using decode_bridge_length [OF sample_raw_decodes] by simp
  then obtain e where e: "sign_event null_nostr sample_unsigned [1] = Ok e"
    using event_id_eq [OF sample_unsigned_wf, of null_nostr] null
    by (simp add: sign_event_def nostr_signing_key_def event_new_def validate_content_len_def nostr_constants
        sample_unsigned_def bridge_event_of_def)
  moreover obtain s' where "wf_nb_scratch s'"
      "bridge_message_to_nostr_event null_nostr sample_raw [1] 7 nostr_bridge_event_scratch_new = (Ok e, s')"
    using bridge_message_to_nostr_event_eq [OF scratch_new_wf, of null_nostr sample_raw "[1]" 7] sample_raw_decodes e null
    by (auto simp: sample_unsigned_def)
  ultimately show ?thesis
    using sign_event_wf [OF null_nostr_laws sample_unsigned_wf e] sign_event_verifies [OF null_nostr_laws sample_unsigned_wf e]
    by (intro that) auto
qed

definition sample_ingress :: nostr_bridge_ingress where
  "sample_ingress = \<lparr>ni_raw_bridge_message = sample_raw, ni_bridge_message = sample_bridge_message,
     ni_ingress_meta = \<lparr>origin_protocol = NostrProtocol, verification_state = TransportSigned\<rparr>\<rparr>"

lemma sample_foreign: "be_kind (bm_author sample_bridge_message) \<noteq> ForeignAuthor Nostr"
  by (simp add: sample_bridge_message_def)

theorem nostr_bridge_roundtrip_witness:
  "\<exists>e. fst (bridge_message_to_nostr_event null_nostr sample_raw [1] 7 nostr_bridge_event_scratch_new) = Ok e \<and>
     fst (nostr_event_to_bridge_message null_nostr e (replicate 1536 0)) = Ok sample_ingress"
proof -
  obtain e s' where run: "bridge_message_to_nostr_event null_nostr sample_raw [1] 7 nostr_bridge_event_scratch_new = (Ok e, s')"
    by (rule sample_publishes)
  have "length sample_raw \<le> length (replicate 1536 (0 :: u8))" using decode_bridge_length [OF sample_raw_decodes] by simp
  from nostr_bridge_roundtrip [OF null_nostr_laws scratch_new_wf sample_raw_decodes this, of "[1]" 7] run sample_foreign
  show ?thesis by (simp add: sample_ingress_def)
qed

theorem nostr_bridge_ingress_authentic_witness:
  "\<exists>e. ne_id e = replicate 32 0 \<and> ne_kind e = 9109 \<and>
     fst (nostr_event_to_bridge_message null_nostr e (replicate 1536 0)) = Ok sample_ingress"
proof -
  obtain e s' where e: "sign_event null_nostr sample_unsigned [1] = Ok e" "wf_nostr_event e" "event_unsigned e = sample_unsigned"
    by (rule sample_publishes)
  have wf: "wf_unsigned (event_unsigned e)" using e(3) sample_unsigned_wf by simp
  have len: "length sample_raw \<le> 1119" "length (community_id_bytes (bm_room_id sample_bridge_message)) = 16"
    using decode_bridge_length [OF sample_raw_decodes] by auto
  have fields: "ne_kind e = 9109" "ne_tags e = ne_tags sample_unsigned" "ne_content e = hex_bytes sample_raw"
    using e(3) by (auto simp: event_unsigned_def bridge_event_of_def sample_unsigned_def)
  have verified: "verify_event null_nostr e = Ok ()"
    using sign_event_verifies [OF null_nostr_laws sample_unsigned_wf e(1)] by simp
  note checks = verified [unfolded verify_event_Ok [OF wf]]
  have "nc_verify_raw null_nostr (ne_pubkey e) (nc_sha256 null_nostr (canonical_bytes (event_unsigned e))) (ne_sig e)"
    using checks by metis
  then have "fst (nostr_event_to_bridge_message null_nostr e (replicate 1536 0)) = Ok sample_ingress"
    using checks sample_foreign sample_raw_decodes len
    unfolding nostr_bridge_ingress_authentic [OF wf]
    by (simp add: fields sample_ingress_def) (simp add: sample_unsigned_def bridge_event_of_def community_tag_def)
  moreover have "ne_id e = replicate 32 0" using checks by (simp add: null_nostr_def)
  ultimately show ?thesis using fields by blast
qed

theorem nostr_bridge_json_fits_witness:
  "\<exists>n s' out'. bridge_message_to_nostr_event_json null_nostr sample_raw \<lparr>np_author_secret = [1], np_created_at = 7\<rparr>
       (nostr_bridge_event_scratch_new, replicate 6144 0) = (Ok n, (s', out')) \<and> n \<le> 2960"
proof -
  let ?p = "\<lparr>np_author_secret = [1], np_created_at = 7\<rparr>" and ?out = "replicate 6144 (0 :: u8)"
  obtain e s' where e: "wf_nostr_event e" "event_unsigned e = sample_unsigned"
    and run: "bridge_message_to_nostr_event null_nostr sample_raw [1] 7 nostr_bridge_event_scratch_new = (Ok e, s')"
    by (rule sample_publishes)
  have "length (event_json e) \<le> 2960"
    using length_bridge_event_json [OF e(1) _ sample_raw_decodes] e(2) by (simp add: sample_unsigned_def)
  then obtain out' where "write_nostr_event_json e ?out = (Ok (length (event_json e)), out')"
    using write_nostr_event_json_cases [OF e(1), of ?out] by (auto simp: usize_max_def)
  with run have ok: "bridge_message_to_nostr_event_json null_nostr sample_raw ?p (nostr_bridge_event_scratch_new, ?out) =
      (Ok (length (event_json e)), (s', out'))"
    by (simp add: bridge_message_to_nostr_event_json_def sbind_def on_field_def)
  have len: "length ?out = HYF_NOSTR_BRIDGE_EVENT_JSON_MAX_LEN" by (simp add: HYF_NOSTR_BRIDGE_EVENT_JSON_MAX_LEN_def)
  from nostr_bridge_json_fits [OF null_nostr_laws scratch_new_wf sample_raw_decodes len, of ?p] ok show ?thesis by auto
qed

end
