(* ===== verification/Hyf_Bridge_Runtime.thy ===== *)
theory Hyf_Bridge_Runtime
  imports Hyf_Window Hyf_Bridge_BitChat Hyf_Bridge_LXMF Hyf_Bridge_Nostr
begin

text \<open>
  The bridge runtime, crate \<open>hyf_bridge_runtime\<close>: its duplicate suppression, the choice of the
  networks a message goes out to, and the orchestrator that takes a message in from one network and
  produces the commands for the others
  (\<open>src/crates/hyf_bridge_runtime/src/{error,command,dedupe,types,policy,orchestrator}.rs\<close>).
\<close>

section \<open>Errors and commands (error.rs, command.rs)\<close>

datatype bridge_runtime_error =
    RtBitchat bitchat_bridge_error
  | RtBridge bridge_error
  | DedupeCapacityZero
  | RtLxmf lxmf_bridge_error
  | RtNostr nostr_bridge_error
  | RtOutputTooSmall usize usize

datatype bridge_drop_reason =
  DuplicateMessage | LoopPrevented | UnsupportedProfile | DropOutputTooSmall | MalformedInput

text \<open>A command holds the bytes its slice of the scratch has when the call returns.\<close>

datatype bridge_runtime_command =
    EmitHyfEnvelope hyf_envelope
  | EmitBitChatPacket "u8 list"
  | EmitLxmfMessage "u8 list"
  | EmitNostrEvent "u8 list"
  | DropMessage bridge_message_key bridge_drop_reason

section \<open>Duplicate suppression (dedupe.rs)\<close>

record bridge_dedupe_set =
  dd_keys :: "bridge_message_key option list"
  dd_next_index :: usize
  dd_len :: usize

definition dedupe_new :: "usize \<Rightarrow> bridge_dedupe_set" where
  "dedupe_new n = \<lparr>dd_keys = replicate n None, dd_next_index = 0, dd_len = 0\<rparr>"

definition dedupe_contains :: "bridge_dedupe_set \<Rightarrow> bridge_message_key \<Rightarrow> bool" where
  "dedupe_contains d key \<longleftrightarrow> list_ex (\<lambda>stored. stored = key) (flatten (dd_keys d))"

definition dedupe_insert :: "bridge_message_key \<Rightarrow> (bridge_dedupe_set, bool, bridge_runtime_error) stm" where
  "dedupe_insert key d =
     (if dedupe_contains d key then (Ok False, d)
      else let n = length (dd_keys d) in
        if n = 0 then (Err DedupeCapacityZero, d)
        else case set_at (dd_keys d) (dd_next_index d) (Some key) of
            Ok keys \<Rightarrow>
              (Ok True, \<lparr>dd_keys = keys, dd_next_index = (dd_next_index d + 1) mod n,
                         dd_len = (if dd_len d < n then dd_len d + 1 else dd_len d)\<rparr>)
          | Err e \<Rightarrow> (Err e, d)
          | Panic \<Rightarrow> (Panic, d))"

section \<open>Routing policy (types.rs, policy.rs)\<close>

record bridge_origin =
  og_protocol :: bridge_protocol
  og_endpoint_hash :: "u8 list"

record bridge_route_policy =
  allow_echo :: bool
  egress_protocols :: "bridge_protocol option list"

definition policy_no_echo :: "bridge_protocol option list \<Rightarrow> bridge_route_policy" where
  "policy_no_echo protocols = \<lparr>allow_echo = False, egress_protocols = protocols\<rparr>"

definition policy_default :: "usize \<Rightarrow> bridge_route_policy" where
  "policy_default n = \<lparr>allow_echo = False, egress_protocols = replicate n None\<rparr>"

definition protocol_is_blocked :: "bridge_route_policy \<Rightarrow> bridge_origin \<Rightarrow> bridge_protocol \<Rightarrow> bool" where
  "protocol_is_blocked p origin protocol \<longleftrightarrow> \<not> allow_echo p \<and> og_protocol origin = protocol"

fun protocol_index :: "bridge_protocol \<Rightarrow> usize" where
  "protocol_index HyfProtocol = 0"
| "protocol_index BitChatProtocol = 1"
| "protocol_index LxmfProtocol = 2"
| "protocol_index NostrProtocol = 3"

text \<open>The array has four slots, one for each index.\<close>

definition mark_protocol_seen :: "bool list \<Rightarrow> bridge_protocol \<Rightarrow> bool \<times> bool list" where
  "mark_protocol_seen seen protocol =
     (let index = protocol_index protocol in (seen ! index, seen[index := True]))"

fun selected_count_loop ::
  "bridge_route_policy \<Rightarrow> bridge_origin \<Rightarrow> bridge_protocol list \<Rightarrow> bool list \<Rightarrow> usize \<Rightarrow> usize" where
  "selected_count_loop p origin [] selected cnt = cnt"
| "selected_count_loop p origin (protocol # protocols) selected cnt =
     (if protocol_is_blocked p origin protocol then selected_count_loop p origin protocols selected cnt
      else case mark_protocol_seen selected protocol of
        (was_seen, selected) \<Rightarrow>
          selected_count_loop p origin protocols selected (if was_seen then cnt else cnt + 1))"

definition selected_egress_count :: "bridge_route_policy \<Rightarrow> bridge_origin \<Rightarrow> usize" where
  "selected_egress_count p origin = selected_count_loop p origin (flatten (egress_protocols p)) (replicate 4 False) 0"

fun select_loop ::
  "bridge_route_policy \<Rightarrow> bridge_origin \<Rightarrow> bridge_protocol list \<Rightarrow> bool list \<Rightarrow> usize \<Rightarrow>
   (bridge_protocol list, usize, bridge_runtime_error) stm" where
  "select_loop p origin [] selected cnt out = (Ok cnt, out)"
| "select_loop p origin (protocol # protocols) selected cnt out =
     (if protocol_is_blocked p origin protocol then select_loop p origin protocols selected cnt out
      else case mark_protocol_seen selected protocol of
        (was_seen, selected) \<Rightarrow>
          if was_seen then select_loop p origin protocols selected cnt out
          else (case set_at out cnt protocol of
              Ok out \<Rightarrow> select_loop p origin protocols selected (cnt + 1) out
            | Err e \<Rightarrow> (Err e, out)
            | Panic \<Rightarrow> (Panic, out)))"

definition select_egress :: "bridge_route_policy \<Rightarrow> bridge_origin \<Rightarrow> (bridge_protocol list, usize, bridge_runtime_error) stm" where
  "select_egress p origin out =
     (let required = selected_egress_count p origin in
      if length out < required then (Err (RtOutputTooSmall (length out) required), out)
      else select_loop p origin (flatten (egress_protocols p)) (replicate 4 False) 0 out)"

section \<open>The orchestrator (orchestrator.rs)\<close>

record bridge_runtime_scratch =
  sc_bridge_message :: "u8 list"
  sc_bitchat_packet :: "u8 list"
  sc_lxmf_message :: "u8 list"
  sc_nostr_event :: nostr_bridge_event_scratch
  sc_nostr_event_json :: "u8 list"

definition bridge_runtime_scratch_new :: bridge_runtime_scratch where
  "bridge_runtime_scratch_new =
     \<lparr>sc_bridge_message = replicate HYF_BRIDGE_MESSAGE_MAX_LEN 0, sc_bitchat_packet = replicate BITCHAT_BRIDGE_PACKET_MAX_LEN 0,
      sc_lxmf_message = replicate LXMF_BRIDGE_MESSAGE_MAX_LEN 0, sc_nostr_event = nostr_bridge_event_scratch_new,
      sc_nostr_event_json = replicate HYF_NOSTR_BRIDGE_EVENT_JSON_MAX_LEN 0\<rparr>"

datatype egress_plan = PlanBitChat usize | PlanLxmf usize | PlanNostr usize | PlanUnsupportedProfile

record bridge_runtime_egress_params =
  eg_bitchat :: "bitchat_bridge_egress_params option"
  eg_lxmf :: "lxmf_bridge_egress_params option"
  eg_nostr :: "nostr_bridge_egress_params option"

record bridge_runtime_dispatch_params =
  dp_wrap :: bridge_wrap_params
  dp_egress :: bridge_runtime_egress_params

record bridge_orchestrator =
  or_dedupe :: bridge_dedupe_set
  or_route_policy :: bridge_route_policy

definition orchestrator_new :: "usize \<Rightarrow> bridge_route_policy \<Rightarrow> bridge_orchestrator" where
  "orchestrator_new n p = \<lparr>or_dedupe = dedupe_new n, or_route_policy = p\<rparr>"

text \<open>The orchestrator with the other \<open>&mut\<close> arguments of its methods.\<close>

record bridge_dispatch = bridge_orchestrator +
  ds_scratch :: bridge_runtime_scratch
  ds_commands :: "bridge_runtime_command list"

definition ensure_command_capacity :: "usize \<Rightarrow> (bridge_dispatch, unit, bridge_runtime_error) stm" where
  "ensure_command_capacity required s =
     (if length (ds_commands s) < required then (Err (RtOutputTooSmall (length (ds_commands s)) required), s) else (Ok (), s))"

definition set_command :: "usize \<Rightarrow> bridge_runtime_command \<Rightarrow> (bridge_dispatch, unit, bridge_runtime_error) stm" where
  "set_command index command s =
     (case set_at (ds_commands s) index command of
        Ok commands \<Rightarrow> (Ok (), s\<lparr>ds_commands := commands\<rparr>)
      | Err e \<Rightarrow> (Err e, s)
      | Panic \<Rightarrow> (Panic, s))"

definition unsupported_profile_drop :: "bridge_message_key \<Rightarrow> bridge_runtime_command" where
  "unsupported_profile_drop key = DropMessage key UnsupportedProfile"

fun expected_network :: "bridge_protocol \<Rightarrow> foreign_network_kind option" where
  "expected_network BitChatProtocol = Some BitChat"
| "expected_network LxmfProtocol = Some Lxmf"
| "expected_network NostrProtocol = Some Nostr"
| "expected_network HyfProtocol = None"

definition endpoint_hash :: "bridge_protocol \<Rightarrow> bridge_message \<Rightarrow> u8 list" where
  "endpoint_hash from_protocol message =
     (case expected_network from_protocol of
        None \<Rightarrow> replicate 32 0
      | Some network \<Rightarrow>
          if be_kind (bm_author message) = ForeignAuthor network
          then (let len = min (length (be_id (bm_author message))) 32 in
            take len (be_id (bm_author message)) @ drop len (replicate 32 0))
          else replicate 32 0)"

text \<open>The plan for one selected protocol: the adapter writes into its buffer of the scratch.\<close>

definition plan_egress ::
  "nostr_crypto \<Rightarrow> u8 list \<Rightarrow> bridge_runtime_egress_params \<Rightarrow> bridge_protocol \<Rightarrow>
   (bridge_runtime_scratch, egress_plan, bridge_runtime_error) stm" where
  "plan_egress c raw egress protocol =
     (case protocol of
        BitChatProtocol \<Rightarrow>
          (case eg_bitchat egress of
             Some params \<Rightarrow>
               sbind (slift (map_err RtBridge (decode_bridge_message raw))) (\<lambda>message.
               sbind (on_field sc_bitchat_packet (\<lambda>b s. s\<lparr>sc_bitchat_packet := b\<rparr>)
                 (smap_err RtBitchat (bridge_message_to_bitchat_packet_v2 message params))) (\<lambda>len.
                 sret (PlanBitChat len)))
           | None \<Rightarrow> sret PlanUnsupportedProfile)
      | LxmfProtocol \<Rightarrow>
          (case eg_lxmf egress of
             Some params \<Rightarrow>
               sbind (slift (map_err RtBridge (decode_bridge_message raw))) (\<lambda>message.
               sbind (on_field sc_lxmf_message (\<lambda>b s. s\<lparr>sc_lxmf_message := b\<rparr>)
                 (smap_err RtLxmf (bridge_message_to_lxmf_message_fixture message params))) (\<lambda>len.
                 sret (PlanLxmf len)))
           | None \<Rightarrow> sret PlanUnsupportedProfile)
      | NostrProtocol \<Rightarrow>
          (case eg_nostr egress of
             Some params \<Rightarrow>
               sbind (on_field (\<lambda>s. (sc_nostr_event s, sc_nostr_event_json s))
                 (\<lambda>(event, json) s. s\<lparr>sc_nostr_event := event, sc_nostr_event_json := json\<rparr>)
                 (smap_err RtNostr (bridge_message_to_nostr_event_json c raw params))) (\<lambda>len.
                 sret (PlanNostr len))
           | None \<Rightarrow> sret PlanUnsupportedProfile)
      | HyfProtocol \<Rightarrow> sret PlanUnsupportedProfile)"

fun plan_loop ::
  "nostr_crypto \<Rightarrow> u8 list \<Rightarrow> bridge_runtime_egress_params \<Rightarrow> usize \<Rightarrow> bridge_protocol list \<Rightarrow> egress_plan list \<Rightarrow>
   (bridge_runtime_scratch, egress_plan list, bridge_runtime_error) stm" where
  "plan_loop c raw egress index [] plans = sret plans"
| "plan_loop c raw egress index (protocol # protocols) plans =
     sbind (plan_egress c raw egress protocol) (\<lambda>plan.
     sbind (slift (set_at plans index plan)) (\<lambda>plans.
       plan_loop c raw egress (index + 1) protocols plans))"

definition plan_command :: "bridge_message_key \<Rightarrow> egress_plan \<Rightarrow> bridge_runtime_scratch \<Rightarrow> (bridge_runtime_command, bridge_runtime_error) result" where
  "plan_command key plan s =
     (case plan of
        PlanBitChat len \<Rightarrow> rbind (slice_to (sc_bitchat_packet s) len) (\<lambda>bytes. Ok (EmitBitChatPacket bytes))
      | PlanLxmf len \<Rightarrow> rbind (slice_to (sc_lxmf_message s) len) (\<lambda>bytes. Ok (EmitLxmfMessage bytes))
      | PlanNostr len \<Rightarrow> rbind (slice_to (sc_nostr_event_json s) len) (\<lambda>bytes. Ok (EmitNostrEvent bytes))
      | PlanUnsupportedProfile \<Rightarrow> Ok (unsupported_profile_drop key))"

fun emit_plans :: "bridge_message_key \<Rightarrow> usize \<Rightarrow> egress_plan list \<Rightarrow> (bridge_dispatch, usize, bridge_runtime_error) stm" where
  "emit_plans key command_count [] = sret command_count"
| "emit_plans key command_count (plan # plans) =
     sbind (\<lambda>s. slift (plan_command key plan (ds_scratch s)) s) (\<lambda>command.
     sbind (set_command command_count command) (\<lambda>_.
       emit_plans key (command_count + 1) plans))"

definition message_key :: "bridge_message \<Rightarrow> bridge_message_key" where
  "message_key m = \<lparr>bk_room_id = bm_room_id m, bk_message_id = bm_message_id m\<rparr>"

definition emit_bridge_message ::
  "nostr_crypto \<Rightarrow> bridge_route_policy \<Rightarrow> bridge_protocol \<Rightarrow> u8 list \<Rightarrow> bridge_runtime_dispatch_params \<Rightarrow>
   (bridge_dispatch, usize, bridge_runtime_error) stm" where
  "emit_bridge_message c policy from_protocol raw params =
     sbind (slift (map_err RtBridge (validate_bridge_message raw))) (\<lambda>message s.
     let key = message_key message in
     if dedupe_contains (or_dedupe s) key then
       sbind (ensure_command_capacity 1) (\<lambda>_.
       sbind (set_command 0 (DropMessage key DuplicateMessage)) (\<lambda>_.
         sret 1)) s
     else
       let origin = \<lparr>og_protocol = from_protocol, og_endpoint_hash = endpoint_hash from_protocol message\<rparr>;
           required_commands = 1 + selected_egress_count policy origin;
           max_egress = length (egress_protocols policy) in
       sbind (ensure_command_capacity required_commands) (\<lambda>_.
       sbind (slift (map_err RtBridge (wrap_bridge_message raw (dp_wrap params)))) (\<lambda>hyf_envelope.
       sbind (slift (case select_egress policy origin (replicate max_egress HyfProtocol) of
           (r, selected) \<Rightarrow> rbind r (\<lambda>selected_count. slice_to selected selected_count))) (\<lambda>selected.
       sbind (on_field ds_scratch (\<lambda>b s. s\<lparr>ds_scratch := b\<rparr>)
         (plan_loop c raw (dp_egress params) 0 selected (replicate max_egress PlanUnsupportedProfile))) (\<lambda>plans.
       sbind (on_field or_dedupe (\<lambda>b s. s\<lparr>or_dedupe := b\<rparr>) (dedupe_insert key)) (\<lambda>_.
       sbind (set_command 0 (EmitHyfEnvelope hyf_envelope)) (\<lambda>_.
       sbind (slift (slice_to plans (length selected))) (\<lambda>plans.
         emit_plans key 1 plans))))))) s)"

definition encode_ingress :: "bridge_message \<Rightarrow> (bridge_dispatch, u8 list, bridge_runtime_error) stm" where
  "encode_ingress message =
     sbind (on_field (\<lambda>s. sc_bridge_message (ds_scratch s)) (\<lambda>b s. s\<lparr>ds_scratch := (ds_scratch s)\<lparr>sc_bridge_message := b\<rparr>\<rparr>)
       (smap_err RtBridge (encode_bridge_message message))) (\<lambda>bridge_len s.
       (slice_to (sc_bridge_message (ds_scratch s)) bridge_len, s))"

definition ingest_bitchat ::
  "nostr_crypto \<Rightarrow> u8 list \<Rightarrow> bitchat_bridge_ingress_params \<Rightarrow> bridge_runtime_dispatch_params \<Rightarrow>
   (bridge_dispatch, usize, bridge_runtime_error) stm" where
  "ingest_bitchat c raw ingress_params params =
     sbind (slift (map_err RtBitchat (bitchat_packet_to_bridge_message raw ingress_params))) (\<lambda>ingress.
     sbind (encode_ingress (bitchat_ingress_message ingress)) (\<lambda>raw_bridge s.
       emit_bridge_message c (or_route_policy s) BitChatProtocol raw_bridge params s))"

definition ingest_lxmf ::
  "nostr_crypto \<Rightarrow> u8 list \<Rightarrow> lxmf_bridge_ingress_params \<Rightarrow> bridge_runtime_dispatch_params \<Rightarrow>
   (bridge_dispatch, usize, bridge_runtime_error) stm" where
  "ingest_lxmf c raw ingress_params params =
     sbind (slift (map_err RtLxmf (lxmf_message_to_bridge_message raw ingress_params))) (\<lambda>ingress.
     sbind (encode_ingress (lxmf_ingress_message ingress)) (\<lambda>raw_bridge s.
       emit_bridge_message c (or_route_policy s) LxmfProtocol raw_bridge params s))"

definition ingest_nostr ::
  "nostr_crypto \<Rightarrow> nostr_event \<Rightarrow> bridge_runtime_dispatch_params \<Rightarrow> (bridge_dispatch, usize, bridge_runtime_error) stm" where
  "ingest_nostr c event params =
     sbind (on_field (\<lambda>s. sc_bridge_message (ds_scratch s)) (\<lambda>b s. s\<lparr>ds_scratch := (ds_scratch s)\<lparr>sc_bridge_message := b\<rparr>\<rparr>)
       (smap_err RtNostr (nostr_event_to_bridge_message c event))) (\<lambda>ingress.
     sbind (\<lambda>s. (slice_to (sc_bridge_message (ds_scratch s)) (length (ni_raw_bridge_message ingress)), s)) (\<lambda>raw_bridge s.
       emit_bridge_message c (or_route_policy s) NostrProtocol raw_bridge params s))"


section \<open>The dedupe set is a window\<close>

definition dedupe_inv :: "bridge_dedupe_set \<Rightarrow> bool" where
  "dedupe_inv d \<longleftrightarrow> ring_inv (dd_keys d) (dd_next_index d) \<and> dd_len d = length (flatten (dd_keys d))"

definition dedupe_keys :: "bridge_dedupe_set \<Rightarrow> bridge_message_key list" where
  "dedupe_keys d = ring_window (dd_keys d) (dd_next_index d)"

definition dedupe_remember :: "bridge_message_key \<Rightarrow> bridge_dedupe_set \<Rightarrow> bridge_dedupe_set" where
  "dedupe_remember key d = snd (dedupe_insert key d)"

lemma dedupe_contains_iff: "dedupe_contains d k \<longleftrightarrow> k \<in> set (flatten (dd_keys d))"
  by (auto simp: dedupe_contains_def list_ex_iff simp del: set_flatten)

lemma dedupe_new_inv: "dedupe_inv (dedupe_new n)"
  by (simp add: dedupe_inv_def dedupe_new_def ring_empty)

lemma dedupe_insert_new:
  assumes "dedupe_inv d" and "dd_keys d \<noteq> []" and "\<not> dedupe_contains d k"
  shows "dedupe_insert k d =
    (Ok True, \<lparr>dd_keys = (dd_keys d)[dd_next_index d := Some k], dd_next_index = (dd_next_index d + 1) mod length (dd_keys d),
               dd_len = (if dd_len d < length (dd_keys d) then dd_len d + 1 else dd_len d)\<rparr>)"
proof -
  have "dd_next_index d < length (dd_keys d)" using assms(1,2) by (auto simp: dedupe_inv_def ring_inv_def)
  then show ?thesis using assms(2,3) by (simp add: dedupe_insert_def set_at_def)
qed

lemma dedupe_insert_cases:
  assumes "dedupe_inv d"
  shows "dedupe_insert k d = (if dedupe_contains d k then Ok False else if dd_keys d = [] then Err DedupeCapacityZero else Ok True,
    dedupe_remember k d)"
proof (cases "dedupe_contains d k")
  case False
  then show ?thesis
    using dedupe_insert_new [OF assms _ False] by (cases "dd_keys d = []") (auto simp: dedupe_remember_def dedupe_insert_def)
qed (simp add: dedupe_remember_def dedupe_insert_def)

interpretation dedupe: dedupe_window dedupe_inv "\<lambda>d. length (dd_keys d)" dedupe_keys dedupe_contains dedupe_remember
proof unfold_locales
  fix d :: bridge_dedupe_set and k
  assume inv: "dedupe_inv d"
  then have ring: "ring_inv (dd_keys d) (dd_next_index d)" by (simp add: dedupe_inv_def)
  have eq: "mset (dedupe_keys d) = mset (flatten (dd_keys d))"
  proof -
    have "flatten (dd_keys d) = flatten (take (dd_next_index d) (dd_keys d)) @ flatten (drop (dd_next_index d) (dd_keys d))"
      by (metis append_take_drop_id flatten_append)
    then show ?thesis by (simp add: dedupe_keys_def ring_window_def)
  qed
  have "distinct (flatten (dd_keys d))" using ring by (auto simp: ring_inv_def split: if_splits)
  with eq show "distinct (dedupe_keys d) \<and> length (dedupe_keys d) \<le> length (dd_keys d)"
    using mset_eq_imp_distinct_iff [OF eq] mset_eq_length [OF eq] length_flatten_le [of "dd_keys d"] by simp
  show "dedupe_contains d k \<longleftrightarrow> k \<in> set (dedupe_keys d)"
    unfolding dedupe_contains_iff using mset_eq_setD [OF eq] by blast
  show "dedupe_contains d k \<Longrightarrow> dedupe_remember k d = d" by (simp add: dedupe_remember_def dedupe_insert_def)
  assume cap: "0 < length (dd_keys d)"
  then have ne: "dd_keys d \<noteq> []" by auto
  have new: "k \<notin> set (flatten (dd_keys d))" if "\<not> dedupe_contains d k" using that dedupe_contains_iff by blast
  have len: "length (ring_window (dd_keys d) (dd_next_index d)) = dd_len d"
    using inv by (simp add: length_ring_window dedupe_inv_def)
  show "dedupe_inv (dedupe_remember k d) \<and> length (dd_keys (dedupe_remember k d)) = length (dd_keys d)"
  proof (cases "dedupe_contains d k")
    case False
    note put = ring_put [OF ring ne new [OF False]]
    have le: "dd_len d \<le> length (dd_keys d)" using inv length_flatten_le [of "dd_keys d"] by (simp add: dedupe_inv_def)
    have "length (flatten ((dd_keys d)[dd_next_index d := Some k])) =
        (if dd_len d < length (dd_keys d) then dd_len d + 1 else dd_len d)"
      using arg_cong [OF put(2), of length] len le ne cap
      by (auto simp: length_ring_window split: if_splits)
    with put(1) dedupe_insert_new [OF inv ne False] show ?thesis
      by (simp add: dedupe_remember_def dedupe_inv_def)
  qed (use inv in \<open>simp add: dedupe_remember_def dedupe_insert_def\<close>)
  show "dedupe_keys (dedupe_remember k d) =
      (if length (dedupe_keys d) = length (dd_keys d) then tl (dedupe_keys d) else dedupe_keys d) @ [k]"
    if "\<not> dedupe_contains d k"
    using ring_put(2) [OF ring ne new [OF that]] dedupe_insert_new [OF inv ne that]
    by (simp add: dedupe_remember_def dedupe_keys_def)
qed

section \<open>What the policy selects\<close>

fun first_occurrences :: "'a list \<Rightarrow> 'a list" where
  "first_occurrences [] = []"
| "first_occurrences (x # xs) = x # filter (\<lambda>y. y \<noteq> x) (first_occurrences xs)"

definition selected_protocols :: "bridge_route_policy \<Rightarrow> bridge_protocol \<Rightarrow> bridge_protocol list" where
  "selected_protocols p via =
     first_occurrences (filter (\<lambda>protocol. allow_echo p \<or> protocol \<noteq> via) (flatten (egress_protocols p)))"

lemma first_occurrences_filter: "first_occurrences (filter P xs) = filter P (first_occurrences xs)"
  by (induction xs) (auto simp: filter_filter conj_commute intro: filter_cong)

lemma first_occurrences_distinct: "distinct (first_occurrences xs)" and first_occurrences_set: "set (first_occurrences xs) = set xs"
  by (induction xs) auto

lemma length_first_occurrences: "length (first_occurrences xs) \<le> length xs"
proof (induction xs)
  case (Cons x xs)
  have "length (filter (\<lambda>y. y \<noteq> x) (first_occurrences xs)) \<le> length (first_occurrences xs)" by (rule length_filter_le)
  from le_trans [OF this Cons] show ?case by simp
qed simp

definition fresh_protocols :: "bridge_route_policy \<Rightarrow> bridge_origin \<Rightarrow> bool list \<Rightarrow> bridge_protocol list \<Rightarrow> bridge_protocol list" where
  "fresh_protocols p origin seen xs =
     first_occurrences (filter (\<lambda>x. \<not> protocol_is_blocked p origin x \<and> \<not> seen ! protocol_index x) xs)"

lemma protocol_index_less: "protocol_index x < 4" and protocol_index_inj: "protocol_index x = protocol_index y \<longleftrightarrow> x = y"
  by (cases x; simp) (cases x; cases y; simp)

lemma fresh_protocols_Cons:
  assumes "length seen = 4"
  shows "fresh_protocols p origin seen (x # xs) =
    (if protocol_is_blocked p origin x \<or> seen ! protocol_index x then fresh_protocols p origin seen xs
     else x # fresh_protocols p origin (seen[protocol_index x := True]) xs)"
proof -
  have "filter (\<lambda>y. y \<noteq> x) (filter (\<lambda>y. \<not> protocol_is_blocked p origin y \<and> \<not> seen ! protocol_index y) xs) =
      filter (\<lambda>y. \<not> protocol_is_blocked p origin y \<and> \<not> seen[protocol_index x := True] ! protocol_index y) xs"
    using assms protocol_index_less by (auto simp: nth_list_update protocol_index_inj intro!: filter_cong)
  then show ?thesis by (auto simp: fresh_protocols_def first_occurrences_filter [symmetric])
qed

lemma selected_count_loop_eq:
  "length seen = 4 \<Longrightarrow> selected_count_loop p origin xs seen n = n + length (fresh_protocols p origin seen xs)"
proof (induction xs arbitrary: seen n)
  case (Cons x xs)
  then have "length (seen[protocol_index x := True]) = 4" by simp
  moreover have "seen ! protocol_index x \<Longrightarrow> seen[protocol_index x := True] = seen" by (metis list_update_id)
  ultimately show ?case
    using Cons by (auto simp: fresh_protocols_Cons mark_protocol_seen_def Let_def)
qed (simp add: fresh_protocols_def)

lemma select_loop_eq:
  "length seen = 4 \<Longrightarrow> n + length (fresh_protocols p origin seen xs) \<le> length out \<Longrightarrow>
   select_loop p origin xs seen n out =
     (Ok (n + length (fresh_protocols p origin seen xs)),
      take n out @ fresh_protocols p origin seen xs @ drop (n + length (fresh_protocols p origin seen xs)) out)"
proof (induction xs arbitrary: seen n out)
  case Nil
  then show ?case by (simp add: fresh_protocols_def)
next
  case (Cons x xs)
  have upd: "seen ! protocol_index x \<Longrightarrow> seen[protocol_index x := True] = seen" by (metis list_update_id)
  show ?case
  proof (cases "protocol_is_blocked p origin x \<or> seen ! protocol_index x")
    case True
    with Cons upd show ?thesis by (auto simp: fresh_protocols_Cons mark_protocol_seen_def Let_def)
  next
    case False
    let ?f = "fresh_protocols p origin (seen[protocol_index x := True]) xs"
    have n: "n < length out" "n + 1 + length ?f \<le> length (out[n := x])"
      using Cons.prems False by (auto simp: fresh_protocols_Cons)
    have "select_loop p origin (x # xs) seen n out = select_loop p origin xs (seen[protocol_index x := True]) (n + 1) (out[n := x])"
      using False n(1) by (simp add: mark_protocol_seen_def Let_def set_at_def)
    also have "\<dots> = (Ok (n + 1 + length ?f), take (n + 1) (out[n := x]) @ ?f @ drop (n + 1 + length ?f) (out[n := x]))"
      by (rule Cons.IH) (use Cons.prems(1) n(2) in simp_all)
    also have "take (n + 1) (out[n := x]) = take n out @ [x]"
      using n(1) by (simp add: take_Suc_conv_app_nth)
    also have "drop (n + 1 + length ?f) (out[n := x]) = drop (n + 1 + length ?f) out" by simp
    finally show ?thesis using False Cons.prems(1) by (simp add: fresh_protocols_Cons)
  qed
qed

lemma fresh_protocols_start:
  "fresh_protocols p \<lparr>og_protocol = via, og_endpoint_hash = h\<rparr> (replicate 4 False) (flatten (egress_protocols p)) = selected_protocols p via"
proof -
  have "replicate 4 False ! protocol_index x = False" for x
    using protocol_index_less [of x] by simp
  then show ?thesis
    by (auto simp: fresh_protocols_def selected_protocols_def protocol_is_blocked_def intro!: arg_cong [where f = first_occurrences] filter_cong)
qed

lemma selected_egress_count_eq:
  "selected_egress_count p \<lparr>og_protocol = via, og_endpoint_hash = h\<rparr> = length (selected_protocols p via)"
  by (simp add: selected_egress_count_def selected_count_loop_eq fresh_protocols_start)

lemma selected_protocols_le: "length (selected_protocols p via) \<le> length (egress_protocols p)"
  unfolding selected_protocols_def
  by (meson le_trans length_first_occurrences length_filter_le length_flatten_le)

lemma select_egress_eq:
  "length (egress_protocols p) \<le> length out \<Longrightarrow>
   select_egress p \<lparr>og_protocol = via, og_endpoint_hash = h\<rparr> out =
     (Ok (length (selected_protocols p via)), selected_protocols p via @ drop (length (selected_protocols p via)) out)"
  using selected_protocols_le [of p via]
  by (simp add: select_egress_def selected_egress_count_eq select_loop_eq fresh_protocols_start Let_def)

lemma selected_protocols_distinct: "distinct (selected_protocols p via)"
  by (simp add: selected_protocols_def first_occurrences_distinct)

lemma selected_protocols_set:
  "q \<in> set (selected_protocols p via) \<longleftrightarrow> Some q \<in> set (egress_protocols p) \<and> (allow_echo p \<or> q \<noteq> via)"
  by (auto simp: selected_protocols_def first_occurrences_set)

section \<open>Planning\<close>

definition wf_scratch :: "bridge_runtime_scratch \<Rightarrow> bool" where
  "wf_scratch s \<longleftrightarrow> length (sc_bridge_message s) = 1536 \<and> length (sc_bitchat_packet s) = 2048 \<and>
     length (sc_lxmf_message s) = 4096 \<and> wf_nb_scratch (sc_nostr_event s) \<and> length (sc_nostr_event_json s) = 6144"

definition wf_egress :: "bridge_runtime_egress_params \<Rightarrow> bool" where
  "wf_egress g \<longleftrightarrow> (\<forall>p. eg_bitchat g = Some p \<longrightarrow> length (bo_sender_id p) = 8) \<and> (\<forall>p. eg_lxmf g = Some p \<longrightarrow> wf_lxmf_egress p)"

text \<open>The command a selected network gets for a message, when its adapter accepts it.\<close>

definition egress_command ::
  "nostr_crypto \<Rightarrow> u8 list \<Rightarrow> bridge_message \<Rightarrow> bridge_runtime_egress_params \<Rightarrow> bridge_protocol \<Rightarrow> bridge_runtime_command \<Rightarrow> bool" where
  "egress_command c raw m g protocol command =
     (case protocol of
        BitChatProtocol \<Rightarrow>
          (case eg_bitchat g of
             Some p \<Rightarrow> validate_bitchat_egress m = Ok () \<and> command = EmitBitChatPacket (bitchat_bytes (bitchat_packet_of m p))
           | None \<Rightarrow> command = DropMessage (message_key m) UnsupportedProfile)
      | LxmfProtocol \<Rightarrow>
          (case eg_lxmf g of
             Some p \<Rightarrow> validate_lxmf_egress m = Ok () \<and> command = EmitLxmfMessage (lxmf_wire m p)
           | None \<Rightarrow> command = DropMessage (message_key m) UnsupportedProfile)
      | NostrProtocol \<Rightarrow>
          (case eg_nostr g of
             Some p \<Rightarrow> (\<exists>e. verify_event c e = Ok () \<and>
               event_unsigned e = bridge_event_of (nc_public_key c (np_author_secret p)) (np_created_at p) raw m \<and>
               command = EmitNostrEvent (event_json e))
           | None \<Rightarrow> command = DropMessage (message_key m) UnsupportedProfile)
      | HyfProtocol \<Rightarrow> command = DropMessage (message_key m) UnsupportedProfile)"

text \<open>When an adapter refuses: the message does not fit the network, or signing fails.\<close>

definition egress_refuses ::
  "nostr_crypto \<Rightarrow> u8 list \<Rightarrow> bridge_message \<Rightarrow> bridge_runtime_egress_params \<Rightarrow> bridge_protocol \<Rightarrow> bool" where
  "egress_refuses c raw m g protocol \<longleftrightarrow>
     (case protocol of
        BitChatProtocol \<Rightarrow> eg_bitchat g \<noteq> None \<and> validate_bitchat_egress m \<noteq> Ok ()
      | LxmfProtocol \<Rightarrow> eg_lxmf g \<noteq> None \<and> validate_lxmf_egress m \<noteq> Ok ()
      | NostrProtocol \<Rightarrow> (\<exists>p. eg_nostr g = Some p \<and>
          (nc_signing_key_ok c (np_author_secret p) \<longrightarrow>
           sign_event c (bridge_event_of (nc_public_key c (np_author_secret p)) (np_created_at p) raw m) (np_author_secret p) = Err Crypto))
      | HyfProtocol \<Rightarrow> False)"

fun plan_buffer :: "bridge_protocol \<Rightarrow> bridge_runtime_scratch \<Rightarrow> u8 list" where
  "plan_buffer HyfProtocol s = []"
| "plan_buffer BitChatProtocol s = sc_bitchat_packet s"
| "plan_buffer LxmfProtocol s = sc_lxmf_message s"
| "plan_buffer NostrProtocol s = sc_nostr_event_json s"

text \<open>A plan made good: the command it stands for, as long as the network's own buffer is left alone.\<close>

definition plan_good ::
  "nostr_crypto \<Rightarrow> u8 list \<Rightarrow> bridge_message \<Rightarrow> bridge_runtime_egress_params \<Rightarrow> bridge_runtime_scratch \<Rightarrow> bridge_protocol \<Rightarrow> egress_plan \<Rightarrow> bool" where
  "plan_good c raw m g s protocol plan \<longleftrightarrow>
     (\<exists>command. egress_command c raw m g protocol command \<and>
        (\<forall>t. plan_buffer protocol t = plan_buffer protocol s \<longrightarrow> plan_command (message_key m) plan t = Ok command))"

lemma plan_good_cong: "plan_good c raw m g s protocol plan \<Longrightarrow> plan_buffer protocol t = plan_buffer protocol s \<Longrightarrow> plan_good c raw m g t protocol plan"
  by (auto simp: plan_good_def)

text \<open>
  What planning for one network does: it only writes that network's buffer, and either makes a good
  plan or the adapter refuses.
\<close>

definition plan_spec ::
  "nostr_crypto \<Rightarrow> u8 list \<Rightarrow> bridge_message \<Rightarrow> bridge_runtime_egress_params \<Rightarrow> bridge_protocol \<Rightarrow> bridge_runtime_scratch \<Rightarrow>
   (egress_plan, bridge_runtime_error) result \<Rightarrow> bridge_runtime_scratch \<Rightarrow> bool" where
  "plan_spec c raw m g protocol s r s' \<longleftrightarrow>
     wf_scratch s' \<and> sc_bridge_message s' = sc_bridge_message s \<and> (\<forall>q. q \<noteq> protocol \<longrightarrow> plan_buffer q s' = plan_buffer q s) \<and>
     (case r of Ok plan \<Rightarrow> plan_good c raw m g s' protocol plan | Err e \<Rightarrow> egress_refuses c raw m g protocol | Panic \<Rightarrow> False)"

lemma plan_good_unsupported:
  assumes "egress_command c raw m g protocol (DropMessage (message_key m) UnsupportedProfile)" and "wf_scratch s"
  shows "plan_spec c raw m g protocol s (Ok PlanUnsupportedProfile) s"
  using assms by (auto simp: plan_spec_def plan_good_def plan_command_def unsupported_profile_drop_def)

lemma plan_bitchat:
  assumes "decode_bridge_message raw = Ok m" and "wf_egress g" and "wf_scratch s"
  obtains r s' where "plan_egress c raw g BitChatProtocol s = (r, s')" "plan_spec c raw m g BitChatProtocol s r s'"
proof (cases "eg_bitchat g")
  case None
  show ?thesis
    by (rule that [of "Ok PlanUnsupportedProfile" s])
      (use assms(3) None in \<open>auto intro!: plan_good_unsupported simp: plan_egress_def sret_def egress_command_def\<close>)
next
  case (Some p)
  have wf: "wf_bridge_message m" "length (bm_payload m) \<le> 1024"
    using assms(1) by (simp_all add: decode_bridge_message_iff validate_bridge_message_Ok)
  have p: "length (bo_sender_id p) = 8" using assms(2) Some by (simp add: wf_egress_def)
  have out: "length (sc_bitchat_packet s) = 2048" using assms(3) by (simp add: wf_scratch_def)
  let ?bytes = "bitchat_bytes (bitchat_packet_of m p)"
  note run = bitchat_egress_cases [OF wf(1) p, of "sc_bitchat_packet s"]
  show ?thesis
  proof (cases "validate_bitchat_egress m")
    case (Ok u)
    have fits: "length ?bytes \<le> 2048" using bitchat_bytes_plain [OF p, of m] wf(2) by simp
    let ?s = "s\<lparr>sc_bitchat_packet := ?bytes @ drop (length ?bytes) (sc_bitchat_packet s)\<rparr>"
    show ?thesis
    proof (rule that)
      show "plan_egress c raw g BitChatProtocol s = (Ok (PlanBitChat (length ?bytes)), ?s)"
        using assms(1) Some run out Ok fits
        by (simp add: plan_egress_def sbind_def slift_def on_field_def smap_err_def sret_def Let_def usize_max_def)
      have "plan_buffer q ?s = plan_buffer q s" if "q \<noteq> BitChatProtocol" for q using that by (cases q) simp_all
      moreover have "plan_good c raw m g ?s BitChatProtocol (PlanBitChat (length ?bytes))"
        using Some Ok by (auto simp: plan_good_def egress_command_def plan_command_def slice_to_def intro!: exI [of _ "EmitBitChatPacket ?bytes"])
      ultimately show "plan_spec c raw m g BitChatProtocol s (Ok (PlanBitChat (length ?bytes))) ?s"
        using assms(3) fits out by (simp add: plan_spec_def wf_scratch_def)
    qed
  next
    case (Err e)
    show ?thesis
      by (rule that [of "Err (RtBitchat e)" s])
        (use assms(1,3) Some run out Err in \<open>simp_all add: plan_egress_def sbind_def slift_def on_field_def smap_err_def usize_max_def
          plan_spec_def egress_refuses_def\<close>)
  qed simp
qed

lemma plan_lxmf:
  assumes "decode_bridge_message raw = Ok m" and "wf_egress g" and "wf_scratch s"
  obtains r s' where "plan_egress c raw g LxmfProtocol s = (r, s')" "plan_spec c raw m g LxmfProtocol s r s'"
proof (cases "eg_lxmf g")
  case None
  show ?thesis
    by (rule that [of "Ok PlanUnsupportedProfile" s])
      (use assms(3) None in \<open>auto intro!: plan_good_unsupported simp: plan_egress_def sret_def egress_command_def\<close>)
next
  case (Some p)
  have wf: "wf_bridge_message m" "length (bm_payload m) \<le> 1024"
    using assms(1) by (simp_all add: decode_bridge_message_iff validate_bridge_message_Ok)
  have p: "wf_lxmf_egress p" using assms(2) Some by (simp add: wf_egress_def)
  have out: "length (sc_lxmf_message s) = 4096" using assms(3) by (simp add: wf_scratch_def)
  let ?bytes = "lxmf_wire m p"
  note run = lxmf_egress_cases [OF wf(1) p, of "sc_lxmf_message s"]
  show ?thesis
  proof (cases "validate_lxmf_egress m")
    case (Ok u)
    have fits: "length ?bytes \<le> 4096"
      using lxmf_payload_of_encodable(2) [OF wf(2)] p by (simp add: lxmf_wire_def wf_lxmf_egress_def)
    let ?s = "s\<lparr>sc_lxmf_message := ?bytes @ drop (length ?bytes) (sc_lxmf_message s)\<rparr>"
    show ?thesis
    proof (rule that)
      show "plan_egress c raw g LxmfProtocol s = (Ok (PlanLxmf (length ?bytes)), ?s)"
        using assms(1) Some run out Ok fits by (simp add: plan_egress_def sbind_def slift_def on_field_def smap_err_def sret_def)
      have "plan_buffer q ?s = plan_buffer q s" if "q \<noteq> LxmfProtocol" for q using that by (cases q) simp_all
      moreover have "plan_good c raw m g ?s LxmfProtocol (PlanLxmf (length ?bytes))"
        using Some Ok by (auto simp: plan_good_def egress_command_def plan_command_def slice_to_def intro!: exI [of _ "EmitLxmfMessage ?bytes"])
      ultimately show "plan_spec c raw m g LxmfProtocol s (Ok (PlanLxmf (length ?bytes))) ?s"
        using assms(3) fits out by (simp add: plan_spec_def wf_scratch_def)
    qed
  next
    case (Err e)
    show ?thesis
      by (rule that [of "Err (RtLxmf e)" s])
        (use assms(1,3) Some run Err in \<open>simp_all add: plan_egress_def sbind_def slift_def on_field_def smap_err_def
          plan_spec_def egress_refuses_def\<close>)
  qed simp
qed

lemma plan_nostr:
  assumes "nostr_laws c" and "decode_bridge_message raw = Ok m" and "wf_scratch s"
  obtains r s' where "plan_egress c raw g NostrProtocol s = (r, s')" "plan_spec c raw m g NostrProtocol s r s'"
proof (cases "eg_nostr g")
  case None
  show ?thesis
    by (rule that [of "Ok PlanUnsupportedProfile" s])
      (use assms(3) None in \<open>auto intro!: plan_good_unsupported simp: plan_egress_def sret_def egress_command_def\<close>)
next
  case (Some p)
  let ?u = "bridge_event_of (nc_public_key c (np_author_secret p)) (np_created_at p) raw m"
  have wf: "wf_nb_scratch (sc_nostr_event s)" "length (sc_nostr_event_json s) = 6144" using assms(3) by (simp_all add: wf_scratch_def)
  show ?thesis
  proof (rule nostr_event_json_cases [OF assms(1) wf(1) assms(2) wf(2), of p])
    fix e b out
    assume run: "bridge_message_to_nostr_event_json c raw p (sc_nostr_event s, sc_nostr_event_json s) = (Ok (length (event_json e)), (b, out))"
      and out: "wf_nb_scratch b" "length out = length (sc_nostr_event_json s)" "take (length (event_json e)) out = event_json e"
        "length (event_json e) \<le> 2960"
    assume "wf_unsigned ?u" "sign_event c ?u (np_author_secret p) = Ok e"
    note e = sign_event_verifies [OF assms(1) this]
    let ?s = "s\<lparr>sc_nostr_event := b, sc_nostr_event_json := out\<rparr>"
    show ?thesis
    proof (rule that)
      show "plan_egress c raw g NostrProtocol s = (Ok (PlanNostr (length (event_json e))), ?s)"
        using Some run by (simp add: plan_egress_def sbind_def on_field_def smap_err_def sret_def)
      have "plan_buffer q ?s = plan_buffer q s" if "q \<noteq> NostrProtocol" for q using that by (cases q) simp_all
      moreover have "plan_good c raw m g ?s NostrProtocol (PlanNostr (length (event_json e)))"
        using Some e out wf(2) by (auto simp: plan_good_def egress_command_def plan_command_def slice_to_def intro!: exI [of _ "EmitNostrEvent (event_json e)"])
      ultimately show "plan_spec c raw m g NostrProtocol s (Ok (PlanNostr (length (event_json e)))) ?s"
        using assms(3) out by (simp add: plan_spec_def wf_scratch_def)
    qed
  next
    fix b
    assume "bridge_message_to_nostr_event_json c raw p (sc_nostr_event s, sc_nostr_event_json s) = (Err (NbNostr Crypto), (b, sc_nostr_event_json s))"
      and b: "wf_nb_scratch b" and refuses: "nc_signing_key_ok c (np_author_secret p) \<longrightarrow> sign_event c ?u (np_author_secret p) = Err Crypto"
    then have run: "plan_egress c raw g NostrProtocol s = (Err (RtNostr (NbNostr Crypto)), s\<lparr>sc_nostr_event := b\<rparr>)"
      using Some by (simp add: plan_egress_def sbind_def on_field_def smap_err_def)
    have "plan_buffer q (s\<lparr>sc_nostr_event := b\<rparr>) = plan_buffer q s" for q by (cases q) simp_all
    then have "plan_spec c raw m g NostrProtocol s (Err (RtNostr (NbNostr Crypto))) (s\<lparr>sc_nostr_event := b\<rparr>)"
      using assms(3) b refuses Some by (simp add: plan_spec_def wf_scratch_def egress_refuses_def)
    with run show ?thesis by (rule that)
  qed
qed

lemma plan_egress_run:
  assumes "nostr_laws c" and "decode_bridge_message raw = Ok m" and "wf_egress g" and "wf_scratch s"
  obtains r s' where "plan_egress c raw g protocol s = (r, s')" "plan_spec c raw m g protocol s r s'"
proof (cases protocol)
  case HyfProtocol
  then show ?thesis
    by (intro that [of "Ok PlanUnsupportedProfile" s]) (use assms(4) in \<open>auto intro!: plan_good_unsupported simp: plan_egress_def sret_def egress_command_def\<close>)
next
  case BitChatProtocol
  with plan_bitchat [OF assms(2-4), of c] that show ?thesis by blast
next
  case LxmfProtocol
  with plan_lxmf [OF assms(2-4), of c] that show ?thesis by blast
next
  case NostrProtocol
  with plan_nostr [OF assms(1,2,4), of g] that show ?thesis by blast
qed

lemma plan_loop_run:
  assumes "nostr_laws c" and "decode_bridge_message raw = Ok m" and "wf_egress g"
  shows "wf_scratch s \<Longrightarrow> distinct protocols \<Longrightarrow> index + length protocols \<le> length plans \<Longrightarrow>
    \<exists>r s'. plan_loop c raw g index protocols plans s = (r, s') \<and> wf_scratch s' \<and> sc_bridge_message s' = sc_bridge_message s \<and>
      (\<forall>q. q \<notin> set protocols \<longrightarrow> plan_buffer q s' = plan_buffer q s) \<and>
      (case r of
         Ok plans' \<Rightarrow> \<exists>new. plans' = take index plans @ new @ drop (index + length protocols) plans \<and>
           list_all2 (plan_good c raw m g s') protocols new
       | Err e \<Rightarrow> list_ex (egress_refuses c raw m g) protocols
       | Panic \<Rightarrow> False)"
proof (induction protocols arbitrary: index plans s)
  case Nil
  then show ?case by (auto simp: sret_def)
next
  case (Cons protocol protocols)
  obtain r1 s1 where one: "plan_egress c raw g protocol s = (r1, s1)" "plan_spec c raw m g protocol s r1 s1"
    by (rule plan_egress_run [OF assms Cons.prems(1)])
  show ?case
  proof (cases r1)
    case (Ok plan)
    have s1: "wf_scratch s1" "sc_bridge_message s1 = sc_bridge_message s" "\<And>q. q \<noteq> protocol \<Longrightarrow> plan_buffer q s1 = plan_buffer q s"
      "plan_good c raw m g s1 protocol plan"
      using one(2) Ok by (auto simp: plan_spec_def)
    have index: "index < length plans" "index + 1 + length protocols \<le> length (plans[index := plan])"
      using Cons.prems(3) by auto
    from Cons.IH [OF s1(1) _ index(2)] Cons.prems(2) obtain r s' where rest:
      "plan_loop c raw g (index + 1) protocols (plans[index := plan]) s1 = (r, s')" "wf_scratch s'"
      "sc_bridge_message s' = sc_bridge_message s1" "\<And>q. q \<notin> set protocols \<Longrightarrow> plan_buffer q s' = plan_buffer q s1"
      "case r of
         Ok plans' \<Rightarrow> \<exists>new. plans' = take (index + 1) (plans[index := plan]) @ new @ drop (index + 1 + length protocols) (plans[index := plan]) \<and>
           list_all2 (plan_good c raw m g s') protocols new
       | Err e \<Rightarrow> list_ex (egress_refuses c raw m g) protocols
       | Panic \<Rightarrow> False"
      by auto
    have run: "plan_loop c raw g index (protocol # protocols) plans s = (r, s')"
      using one(1) Ok index(1) rest(1) by (simp add: sbind_def slift_def set_at_def)
    have "plan_good c raw m g s' protocol plan"
      using plan_good_cong [OF s1(4)] rest(4) Cons.prems(2) by auto
    moreover have "take (index + 1) (plans[index := plan]) = take index plans @ [plan]"
      using index(1) by (simp add: take_Suc_conv_app_nth)
    ultimately have "case r of
         Ok plans' \<Rightarrow> \<exists>new. plans' = take index plans @ new @ drop (index + length (protocol # protocols)) plans \<and>
           list_all2 (plan_good c raw m g s') (protocol # protocols) new
       | Err e \<Rightarrow> list_ex (egress_refuses c raw m g) (protocol # protocols)
       | Panic \<Rightarrow> False"
      using rest(5) by (cases r) (auto simp: list_all2_Cons1)
    with run rest(2-4) s1(2,3) show ?thesis by (intro exI [of _ r] exI [of _ s']) simp
  next
    case (Err e)
    with one show ?thesis by (auto simp: sbind_def plan_spec_def)
  next
    case Panic
    with one show ?thesis by (simp add: plan_spec_def)
  qed
qed

lemma emit_plans_run:
  "list_all2 (\<lambda>plan command. plan_command key plan b = Ok command) plans new \<Longrightarrow> ds_scratch s = b \<Longrightarrow>
   n + length plans \<le> length (ds_commands s) \<Longrightarrow>
   emit_plans key n plans s =
     (Ok (n + length plans), s\<lparr>ds_commands := take n (ds_commands s) @ new @ drop (n + length plans) (ds_commands s)\<rparr>)"
proof (induction plans new arbitrary: n s rule: list_all2_induct)
  case Nil
  then show ?case by (simp add: sret_def)
next
  case (Cons plan plans command new)
  let ?s = "s\<lparr>ds_commands := (ds_commands s)[n := command]\<rparr>"
  have n: "n < length (ds_commands s)" using Cons.prems by simp
  have "emit_plans key (n + 1) plans ?s = (Ok (n + 1 + length plans),
      ?s\<lparr>ds_commands := take (n + 1) (ds_commands ?s) @ new @ drop (n + 1 + length plans) (ds_commands ?s)\<rparr>)"
    by (rule Cons.IH) (use Cons.prems in simp_all)
  moreover have "take (n + 1) ((ds_commands s)[n := command]) = take n (ds_commands s) @ [command]"
    using n by (simp add: take_Suc_conv_app_nth)
  ultimately show ?case
    using Cons.hyps Cons.prems(1) n by (simp add: sbind_def slift_def set_command_def set_at_def)
qed

section \<open>Dispatch\<close>

definition wf_dispatch :: "bridge_dispatch \<Rightarrow> bool" where
  "wf_dispatch s \<longleftrightarrow> dedupe_inv (or_dedupe s) \<and> wf_scratch (ds_scratch s)"

lemma wrap_bridge_message_cases:
  assumes "decode_bridge_message raw = Ok m"
  shows "if ms (bw_created_at_ms params) < ms (bw_expires_at_ms params)
    then \<exists>envelope. wrap_bridge_message raw params = Ok envelope \<and> unwrap_bridge_message envelope = Ok raw
    else \<exists>e. wrap_bridge_message raw params = Err e"
proof -
  have "length raw \<le> 65535" using decode_bridge_length [OF assms] by simp
  with assms have "(\<exists>envelope. wrap_bridge_message raw params = Ok envelope) \<longleftrightarrow> ms (bw_created_at_ms params) < ms (bw_expires_at_ms params)"
    "\<And>envelope. wrap_bridge_message raw params = Ok envelope \<Longrightarrow> unwrap_bridge_message envelope = Ok raw"
    by (auto simp: wrap_bridge_message_def unwrap_bridge_message_def validate_bridge_message_def Let_def
        validate_envelope_Ok HYF_WIRE_VERSION_0_def)
  moreover have "wrap_bridge_message raw params \<noteq> Panic"
    using assms by (auto simp: wrap_bridge_message_def validate_bridge_message_def Let_def rbind_eq_Panic)
  ultimately show ?thesis by (cases "wrap_bridge_message raw params") auto
qed

lemma plans_good_commands:
  assumes "list_all2 (plan_good c raw m g b) protocols plans"
  obtains commands where "list_all2 (egress_command c raw m g) protocols commands"
    "list_all2 (\<lambda>plan command. plan_command (message_key m) plan b = Ok command) plans commands"
proof -
  have "\<exists>commands. list_all2 (egress_command c raw m g) protocols commands \<and>
      list_all2 (\<lambda>plan command. plan_command (message_key m) plan b = Ok command) plans commands"
    using assms
  proof (induction rule: list_all2_induct)
    case (Cons protocol protocols plan plans)
    then obtain command commands where "egress_command c raw m g protocol command" "plan_command (message_key m) plan b = Ok command"
      "list_all2 (egress_command c raw m g) protocols commands"
      "list_all2 (\<lambda>plan command. plan_command (message_key m) plan b = Ok command) plans commands"
      by (auto simp: plan_good_def)
    then show ?case by (intro exI [of _ "command # commands"]) simp
  qed (intro exI [of _ "[]"], simp)
  with that show thesis by blast
qed

text \<open>
  What a dispatch of a message not yet known does: all its commands are written and its key is
  remembered, or none is written and nothing is remembered.
\<close>

definition dispatch_spec ::
  "nostr_crypto \<Rightarrow> bridge_route_policy \<Rightarrow> bridge_protocol \<Rightarrow> u8 list \<Rightarrow> bridge_message \<Rightarrow> bridge_runtime_dispatch_params \<Rightarrow>
   bridge_dispatch \<Rightarrow> (usize, bridge_runtime_error) result \<Rightarrow> bridge_dispatch \<Rightarrow> bool" where
  "dispatch_spec c policy via raw m params s r s' \<longleftrightarrow>
     wf_scratch (ds_scratch s') \<and> sc_bridge_message (ds_scratch s') = sc_bridge_message (ds_scratch s) \<and>
     or_route_policy s' = or_route_policy s \<and>
     (let protocols = selected_protocols policy via in
      case r of
       Ok n \<Rightarrow> n = 1 + length protocols \<and> n \<le> length (ds_commands s) \<and> dd_keys (or_dedupe s) \<noteq> [] \<and>
         or_dedupe s' = dedupe_remember (message_key m) (or_dedupe s) \<and>
         (\<exists>envelope new. wrap_bridge_message raw (dp_wrap params) = Ok envelope \<and>
            list_all2 (egress_command c raw m (dp_egress params)) protocols new \<and>
            ds_commands s' = EmitHyfEnvelope envelope # new @ drop n (ds_commands s))
     | Err e \<Rightarrow> or_dedupe s' = or_dedupe s \<and> ds_commands s' = ds_commands s \<and>
         (length (ds_commands s) < 1 + length protocols \<or> ms (bw_expires_at_ms (dp_wrap params)) \<le> ms (bw_created_at_ms (dp_wrap params)) \<or>
          list_ex (egress_refuses c raw m (dp_egress params)) protocols \<or> dd_keys (or_dedupe s) = [])
     | Panic \<Rightarrow> False)"

lemmas dispatch_step = emit_bridge_message_def validate_bridge_message_def sbind_def slift_def ensure_command_capacity_def Let_def
  selected_egress_count_eq

lemma select_egress_policy:
  "select_egress policy \<lparr>og_protocol = via, og_endpoint_hash = h\<rparr> (replicate (length (egress_protocols policy)) HyfProtocol) =
     (Ok (length (selected_protocols policy via)), selected_protocols policy via @
       drop (length (selected_protocols policy via)) (replicate (length (egress_protocols policy)) HyfProtocol))"
  by (rule select_egress_eq) simp

text \<open>Once the plans are made, the dispatch commits: key, envelope and the commands of the plans.\<close>

lemma dispatch_commit:
  fixes policy :: bridge_route_policy and via :: bridge_protocol
  defines "protocols \<equiv> selected_protocols policy via"
  assumes "dedupe_inv (or_dedupe s)" and "decode_bridge_message raw = Ok m" and "\<not> dedupe_contains (or_dedupe s) (message_key m)"
    and room: "\<not> length (ds_commands s) < 1 + length protocols" and wrap: "wrap_bridge_message raw (dp_wrap params) = Ok envelope"
    and plan: "plan_loop c raw (dp_egress params) 0 protocols (replicate (length (egress_protocols policy)) PlanUnsupportedProfile) (ds_scratch s) =
      (Ok (plans @ rest), b)" and plans: "list_all2 (plan_good c raw m (dp_egress params) b) protocols plans"
    and cap: "dd_keys (or_dedupe s) \<noteq> []" and b: "wf_scratch b" "sc_bridge_message b = sc_bridge_message (ds_scratch s)"
  shows "\<exists>r s'. emit_bridge_message c policy via raw params s = (r, s') \<and> dispatch_spec c policy via raw m params s r s'"
proof -
  obtain cmds where cmds: "list_all2 (egress_command c raw m (dp_egress params)) protocols cmds"
    "list_all2 (\<lambda>plan command. plan_command (message_key m) plan b = Ok command) plans cmds"
    using plans by (rule plans_good_commands)
  have len: "length cmds = length protocols" "length plans = length protocols"
    using list_all2_lengthD [OF cmds(1)] list_all2_lengthD [OF plans] by simp_all
  have ne: "ds_commands s \<noteq> []" using room by auto
  let ?s = "s\<lparr>ds_scratch := b, or_dedupe := dedupe_remember (message_key m) (or_dedupe s), ds_commands := (ds_commands s)[0 := EmitHyfEnvelope envelope]\<rparr>"
  have "emit_bridge_message c policy via raw params s = emit_plans (message_key m) 1 plans ?s"
    using assms(3,4) room wrap plan cap ne len select_egress_policy [of policy via]
    by (simp add: dispatch_step protocols_def on_field_def slice_to_def dedupe_insert_cases [OF assms(2)] set_command_def set_at_def)
  also have "\<dots> = (Ok (1 + length plans), ?s\<lparr>ds_commands := take 1 (ds_commands ?s) @ cmds @ drop (1 + length plans) (ds_commands ?s)\<rparr>)"
    by (rule emit_plans_run) (use cmds(2) room len in simp_all)
  finally have "emit_bridge_message c policy via raw params s =
      (Ok (1 + length protocols), ?s\<lparr>ds_commands := EmitHyfEnvelope envelope # cmds @ drop (1 + length protocols) (ds_commands s)\<rparr>)"
    using ne len by (cases "ds_commands s") simp_all
  then show ?thesis
    using b cmds(1) room cap wrap by (auto simp: dispatch_spec_def Let_def protocols_def not_less)
qed

lemma emit_new_message:
  assumes "nostr_laws c" and "wf_dispatch s" and "wf_egress (dp_egress params)" and "decode_bridge_message raw = Ok m"
    and "\<not> dedupe_contains (or_dedupe s) (message_key m)"
  shows "\<exists>r s'. emit_bridge_message c policy via raw params s = (r, s') \<and> dispatch_spec c policy via raw m params s r s'"
proof -
  let ?g = "dp_egress params" and ?w = "dp_wrap params" and ?protocols = "selected_protocols policy via"
  let ?fill = "replicate (length (egress_protocols policy)) PlanUnsupportedProfile"
  have scratch: "wf_scratch (ds_scratch s)" and dedupe: "dedupe_inv (or_dedupe s)" using assms(2) by (simp_all add: wf_dispatch_def)
  from plan_loop_run [OF assms(1,4,3) scratch selected_protocols_distinct, of 0 policy via ?fill, unfolded take_0 add_0 append_Nil]
  obtain r b where plan: "plan_loop c raw ?g 0 ?protocols ?fill (ds_scratch s) = (r, b)"
    and b: "wf_scratch b" "sc_bridge_message b = sc_bridge_message (ds_scratch s)"
    and r: "case r of
       Ok plans \<Rightarrow> \<exists>new. plans = new @ drop (length ?protocols) ?fill \<and> list_all2 (plan_good c raw m ?g b) ?protocols new
     | Err e \<Rightarrow> list_ex (egress_refuses c raw m ?g) ?protocols
     | Panic \<Rightarrow> False" using selected_protocols_le [of policy via] by auto
  note run = dispatch_step select_egress_policy plan on_field_def slice_to_def
  consider (small) "length (ds_commands s) < 1 + length ?protocols"
    | (expired) "\<not> length (ds_commands s) < 1 + length ?protocols" "\<not> ms (bw_created_at_ms ?w) < ms (bw_expires_at_ms ?w)"
    | (ready) "\<not> length (ds_commands s) < 1 + length ?protocols" "ms (bw_created_at_ms ?w) < ms (bw_expires_at_ms ?w)" by blast
  then show ?thesis
  proof cases
    case small
    then have "emit_bridge_message c policy via raw params s = (Err (RtOutputTooSmall (length (ds_commands s)) (1 + length ?protocols)), s)"
      using assms(4,5) by (simp add: dispatch_step)
    with small scratch show ?thesis by (simp add: dispatch_spec_def Let_def)
  next
    case expired
    then obtain e where "wrap_bridge_message raw ?w = Err e" using wrap_bridge_message_cases [OF assms(4), of ?w] by auto
    then have "emit_bridge_message c policy via raw params s = (Err (RtBridge e), s)"
      using assms(4,5) expired(1) by (simp add: dispatch_step)
    with expired(2) scratch show ?thesis by (simp add: dispatch_spec_def Let_def not_less)
  next
    case ready
    then obtain envelope where wrap: "wrap_bridge_message raw ?w = Ok envelope" using wrap_bridge_message_cases [OF assms(4), of ?w] by auto
    show ?thesis
    proof (cases r)
      case (Err e)
      then have "emit_bridge_message c policy via raw params s = (Err e, s\<lparr>ds_scratch := b\<rparr>)"
        using assms(4,5) ready(1) wrap by (simp add: run)
      with Err r b show ?thesis by (simp add: dispatch_spec_def Let_def)
    next
      case (Ok plans)
      with r obtain new where new: "plans = new @ drop (length ?protocols) ?fill" "list_all2 (plan_good c raw m ?g b) ?protocols new" by auto
      show ?thesis
      proof (cases "dd_keys (or_dedupe s) = []")
        case True
        then have "dedupe_insert (message_key m) (or_dedupe s) = (Err DedupeCapacityZero, or_dedupe s)"
          using assms(5) by (simp add: dedupe_insert_def)
        then have "emit_bridge_message c policy via raw params s = (Err DedupeCapacityZero, s\<lparr>ds_scratch := b\<rparr>)"
          using assms(4,5) ready(1) wrap Ok by (simp add: run)
        with True b show ?thesis by (simp add: dispatch_spec_def Let_def)
      next
        case False
        show ?thesis
          by (rule dispatch_commit [OF dedupe assms(4,5) ready(1) wrap plan [unfolded Ok new(1)] new(2) False b])
      qed
    qed (use r in simp)
  qed
qed

section \<open>Duplicates\<close>

text \<open>\<open>keeps_dedupe n f\<close>: \<open>f\<close> changes the duplicate set by at most \<open>n\<close> insertions.\<close>

definition keeps_dedupe :: "nat \<Rightarrow> (bridge_dispatch, 'a, bridge_runtime_error) stm \<Rightarrow> bool" where
  "keeps_dedupe n f \<longleftrightarrow> (\<forall>s. \<exists>keys. length keys \<le> n \<and> or_dedupe (snd (f s)) = fold dedupe_remember keys (or_dedupe s))"

lemma keeps_dedupeI: "(\<And>s. or_dedupe (snd (f s)) = or_dedupe s) \<Longrightarrow> keeps_dedupe n f"
  by (auto simp: keeps_dedupe_def intro: exI [of _ "[]"])

lemma keeps_dedupe_sbind:
  assumes "keeps_dedupe n m" and "\<And>x. keeps_dedupe k (f x)"
  shows "keeps_dedupe (n + k) (sbind m f)"
  unfolding keeps_dedupe_def
proof
  fix s
  obtain keys where keys: "length keys \<le> n" "or_dedupe (snd (m s)) = fold dedupe_remember keys (or_dedupe s)"
    using assms(1) by (auto simp: keeps_dedupe_def)
  show "\<exists>keys. length keys \<le> n + k \<and> or_dedupe (snd (sbind m f s)) = fold dedupe_remember keys (or_dedupe s)"
  proof (cases "m s")
    case (Pair r s1)
    show ?thesis
    proof (cases r)
      case (Ok x)
      obtain more where "length more \<le> k" "or_dedupe (snd (f x s1)) = fold dedupe_remember more (or_dedupe s1)"
        using assms(2) [of x] by (auto simp: keeps_dedupe_def)
      with keys Pair Ok show ?thesis by (intro exI [of _ "keys @ more"]) (simp add: sbind_def)
    qed (use keys Pair in \<open>auto simp: sbind_def intro!: exI [of _ keys]\<close>)
  qed
qed

lemma keeps_dedupe_bind0: "keeps_dedupe 0 m \<Longrightarrow> (\<And>x. keeps_dedupe n (f x)) \<Longrightarrow> keeps_dedupe n (sbind m f)"
  using keeps_dedupe_sbind [of 0 m n f] by simp

lemma keeps_dedupe_if: "keeps_dedupe n f \<Longrightarrow> keeps_dedupe n g \<Longrightarrow> keeps_dedupe n (\<lambda>s. if P s then f s else g s)"
  by (simp add: keeps_dedupe_def)

lemma keeps_dedupe_basic:
  "keeps_dedupe n (slift r)" "keeps_dedupe n (sret a)" "keeps_dedupe n (ensure_command_capacity i)" "keeps_dedupe n (set_command i x)"
  "keeps_dedupe n (on_field ds_scratch (\<lambda>b s. s\<lparr>ds_scratch := b\<rparr>) f)"
  "keeps_dedupe n (on_field (\<lambda>s. sc_bridge_message (ds_scratch s)) (\<lambda>b s. s\<lparr>ds_scratch := (ds_scratch s)\<lparr>sc_bridge_message := b\<rparr>\<rparr>) g)"
  by (auto intro!: keeps_dedupeI simp: slift_def sret_def ensure_command_capacity_def set_command_def on_field_def split: result.splits prod.splits)

lemma keeps_dedupe_insert: "keeps_dedupe (Suc n) (on_field or_dedupe (\<lambda>b s. s\<lparr>or_dedupe := b\<rparr>) (dedupe_insert key))"
  unfolding keeps_dedupe_def
  by (auto simp: on_field_def dedupe_remember_def split: prod.splits intro!: exI [of _ "[key]"])

lemma keeps_dedupe_emit_plans: "keeps_dedupe n (emit_plans key i plans)"
proof (induction plans arbitrary: i)
  case (Cons plan plans)
  then show ?case
    by (auto intro!: keeps_dedupe_bind0 keeps_dedupe_basic intro: keeps_dedupeI simp: slift_def)
qed (simp add: keeps_dedupe_basic)

lemma keeps_dedupe_insert_then: "(\<And>x. keeps_dedupe 0 (f x)) \<Longrightarrow>
    keeps_dedupe 1 (sbind (on_field or_dedupe (\<lambda>b s. s\<lparr>or_dedupe := b\<rparr>) (dedupe_insert key)) f)"
  using keeps_dedupe_sbind [of 1 _ 0 f] keeps_dedupe_insert [of 0 key] by simp

lemma keeps_dedupe_emit: "keeps_dedupe 1 (emit_bridge_message c policy via raw params)"
  unfolding emit_bridge_message_def Let_def
  by (intro keeps_dedupe_bind0 keeps_dedupe_basic keeps_dedupe_if keeps_dedupe_insert_then keeps_dedupe_emit_plans)

lemma keeps_dedupe_emit_policy: "keeps_dedupe 1 (\<lambda>s. emit_bridge_message c (or_route_policy s) via raw params s)"
  using keeps_dedupe_emit by (simp add: keeps_dedupe_def)

lemma keeps_dedupe_encode: "keeps_dedupe n (encode_ingress m)"
  unfolding encode_ingress_def by (intro keeps_dedupe_bind0 keeps_dedupe_basic) (auto intro: keeps_dedupeI)

text \<open>The three ways in, as inputs of the runtime.\<close>

datatype bridge_input =
    InputBitChat "u8 list" bitchat_bridge_ingress_params
  | InputLxmf "u8 list" lxmf_bridge_ingress_params
  | InputNostr nostr_event

fun ingest ::
  "nostr_crypto \<Rightarrow> bridge_input \<Rightarrow> bridge_runtime_dispatch_params \<Rightarrow> (bridge_dispatch, usize, bridge_runtime_error) stm" where
  "ingest c (InputBitChat raw p) params = ingest_bitchat c raw p params"
| "ingest c (InputLxmf raw p) params = ingest_lxmf c raw p params"
| "ingest c (InputNostr event) params = ingest_nostr c event params"

lemma keeps_dedupe_ingest: "keeps_dedupe 1 (ingest c i params)"
proof (cases i)
  case (InputBitChat raw p)
  then show ?thesis unfolding InputBitChat ingest.simps ingest_bitchat_def
    by (intro keeps_dedupe_bind0 keeps_dedupe_basic keeps_dedupe_encode keeps_dedupe_emit_policy)
next
  case (InputLxmf raw p)
  then show ?thesis unfolding InputLxmf ingest.simps ingest_lxmf_def
    by (intro keeps_dedupe_bind0 keeps_dedupe_basic keeps_dedupe_encode keeps_dedupe_emit_policy)
next
  case (InputNostr event)
  then show ?thesis unfolding InputNostr ingest.simps ingest_nostr_def
    by (intro keeps_dedupe_bind0 keeps_dedupe_basic keeps_dedupe_emit_policy) (auto intro: keeps_dedupeI)
qed

text \<open>A history: every call gets a command buffer of its own, whatever it returns.\<close>

fun ingest_all ::
  "nostr_crypto \<Rightarrow> (bridge_input \<times> bridge_runtime_dispatch_params \<times> bridge_runtime_command list) list \<Rightarrow> bridge_dispatch \<Rightarrow> bridge_dispatch" where
  "ingest_all c [] s = s"
| "ingest_all c ((i, params, commands) # later) s = ingest_all c later (snd (ingest c i params (s\<lparr>ds_commands := commands\<rparr>)))"

lemma ingest_all_dedupe:
  "\<exists>keys. length keys \<le> length inputs \<and> or_dedupe (ingest_all c inputs s) = fold dedupe_remember keys (or_dedupe s)"
proof (induction inputs arbitrary: s)
  case Nil
  then show ?case by (intro exI [of _ "[]"]) simp
next
  case (Cons input inputs)
  obtain i params commands where input: "input = (i, params, commands)" by (cases input)
  let ?s = "s\<lparr>ds_commands := commands\<rparr>" and ?t = "snd (ingest c i params (s\<lparr>ds_commands := commands\<rparr>))"
  have "or_dedupe ?s = or_dedupe s" by simp
  then obtain keys where keys: "length keys \<le> 1" "or_dedupe ?t = fold dedupe_remember keys (or_dedupe s)"
    using keeps_dedupe_ingest [of c i params] unfolding keeps_dedupe_def by metis
  obtain more where "length more \<le> length inputs" "or_dedupe (ingest_all c inputs ?t) = fold dedupe_remember more (or_dedupe ?t)"
    using Cons by blast
  with keys input show ?case by (intro exI [of _ "keys @ more"]) simp
qed

lemma emit_known_message:
  assumes "decode_bridge_message raw = Ok m" and "dedupe_contains (or_dedupe s) (message_key m)"
  shows "emit_bridge_message c policy via raw params s =
    (if ds_commands s = [] then (Err (RtOutputTooSmall 0 1), s)
     else (Ok 1, s\<lparr>ds_commands := (ds_commands s)[0 := DropMessage (message_key m) DuplicateMessage]\<rparr>))"
  using assms by (cases "ds_commands s") (simp_all add: dispatch_step set_command_def set_at_def sret_def)

section \<open>Properties\<close>

text \<open>
  C6. The dispatch of a message the bridge does not know yet. It never panics and either writes
  everything or nothing: on success the HYF envelope of the message comes first, then one command
  for each network of the policy in the policy's order, each network once and never the one the
  message came from unless echo is allowed (the bytes of its adapter, or a drop when it has no
  adapter parameters), the message's key is remembered and the rest of the buffer is untouched. It
  fails only for lack of room, an expiry not after the creation, an adapter that refuses the message
  or a duplicate set of size zero, and then commands and duplicate set are as before.\<close>

theorem bridge_dispatch_complete:
  assumes "nostr_laws c" and "wf_dispatch s" and "wf_egress (dp_egress params)" and "decode_bridge_message raw = Ok m"
    and "\<not> dedupe_contains (or_dedupe s) (message_key m)"
  shows "\<exists>protocols. distinct protocols \<and> (\<forall>q. q \<in> set protocols \<longleftrightarrow> Some q \<in> set (egress_protocols policy) \<and> (allow_echo policy \<or> q \<noteq> via)) \<and>
    protocols = selected_protocols policy via \<and>
    (case emit_bridge_message c policy via raw params s of (r, s') \<Rightarrow>
       wf_dispatch s' \<and> or_route_policy s' = or_route_policy s \<and>
       (case r of
          Ok n \<Rightarrow> n = 1 + length protocols \<and> n \<le> length (ds_commands s) \<and>
            or_dedupe s' = dedupe_remember (message_key m) (or_dedupe s) \<and>
            (\<exists>envelope new. unwrap_bridge_message envelope = Ok raw \<and> wrap_bridge_message raw (dp_wrap params) = Ok envelope \<and>
               list_all2 (egress_command c raw m (dp_egress params)) protocols new \<and>
               ds_commands s' = EmitHyfEnvelope envelope # new @ drop n (ds_commands s))
        | Err e \<Rightarrow> or_dedupe s' = or_dedupe s \<and> ds_commands s' = ds_commands s \<and>
            (length (ds_commands s) < 1 + length protocols \<or> ms (bw_expires_at_ms (dp_wrap params)) \<le> ms (bw_created_at_ms (dp_wrap params)) \<or>
             list_ex (egress_refuses c raw m (dp_egress params)) protocols \<or> dd_keys (or_dedupe s) = [])
        | Panic \<Rightarrow> False))"
proof -
  obtain r s' where run: "emit_bridge_message c policy via raw params s = (r, s')" "dispatch_spec c policy via raw m params s r s'"
    using emit_new_message [OF assms] by blast
  have unwrap: "unwrap_bridge_message envelope = Ok raw" if "wrap_bridge_message raw (dp_wrap params) = Ok envelope" for envelope
    using wrap_bridge_message_cases [OF assms(4), of "dp_wrap params"] that by (auto split: if_splits)
  have "dedupe_inv (dedupe_remember (message_key m) (or_dedupe s))" if "dd_keys (or_dedupe s) \<noteq> []"
    using dedupe.remember_inv [of "or_dedupe s"] assms(2) that by (simp add: wf_dispatch_def)
  with run(2) assms(2) have "wf_dispatch s'"
    by (cases r) (auto simp: dispatch_spec_def wf_dispatch_def Let_def)
  with run unwrap show ?thesis
    by (intro exI [of _ "selected_protocols policy via"]) (cases r; fastforce simp: dispatch_spec_def Let_def selected_protocols_distinct selected_protocols_set)
qed

text \<open>
  C7. No loop. Once a message has been dispatched, it is not dispatched again while fewer messages
  than the duplicate set holds are taken in, whatever they are and however they fare: when it comes
  back, from any network and under any policy, the only command is a drop as a duplicate.\<close>

theorem bridge_loop_prevented:
  assumes "nostr_laws c" and "wf_dispatch s" and "wf_egress (dp_egress params)" and "decode_bridge_message raw = Ok m"
    and "\<not> dedupe_contains (or_dedupe s) (message_key m)" and "emit_bridge_message c policy via raw params s = (Ok n, s1)"
    and "length inputs < length (dd_keys (or_dedupe s))" and "s2 = ingest_all c inputs s1"
    and "decode_bridge_message raw' = Ok m'" and "message_key m' = message_key m"
  shows "emit_bridge_message c policy' via' raw' params' s2 =
    (if ds_commands s2 = [] then (Err (RtOutputTooSmall 0 1), s2)
     else (Ok 1, s2\<lparr>ds_commands := (ds_commands s2)[0 := DropMessage (message_key m) DuplicateMessage]\<rparr>))"
proof -
  have s1: "or_dedupe s1 = dedupe_remember (message_key m) (or_dedupe s)"
    using emit_new_message [OF assms(1-5), of policy via] assms(6) by (auto simp: dispatch_spec_def Let_def)
  obtain keys where "length keys \<le> length inputs" "or_dedupe s2 = fold dedupe_remember keys (or_dedupe s1)"
    using ingest_all_dedupe [of inputs c s1] assms(8) by blast
  moreover have "dedupe_inv (or_dedupe s)" using assms(2) by (simp add: wf_dispatch_def)
  ultimately have "dedupe_contains (or_dedupe s2) (message_key m)"
    using dedupe.remembered_for_capacity [of "or_dedupe s" "message_key m" keys] assms(5,7) s1 by simp
  with emit_known_message [OF assms(9)] assms(10) show ?thesis by simp
qed

lemma ingest_bitchat_emits:
  assumes "bridgeable_packet p" and "m = bitchat_ingress_message (bitchat_ingress_of p ip)" and "bridge_ok m" and "wf_scratch (ds_scratch s)"
  obtains t where "ingest_bitchat c (bitchat_bytes p) ip params s = emit_bridge_message c (or_route_policy s) BitChatProtocol (bridge_bytes m) params t"
    "or_dedupe t = or_dedupe s" "ds_commands t = ds_commands s" "or_route_policy t = or_route_policy s" "wf_scratch (ds_scratch t)"
proof -
  let ?b = "bridge_bytes m" and ?old = "sc_bridge_message (ds_scratch s)"
  let ?t = "s\<lparr>ds_scratch := (ds_scratch s)\<lparr>sc_bridge_message := ?b @ drop (length ?b) ?old\<rparr>\<rparr>"
  have fits: "length ?b \<le> length ?old"
    using bridge_bytes_le [OF assms(3)] assms(4) by (simp add: wf_scratch_def)
  have ingress: "bitchat_packet_to_bridge_message (bitchat_bytes p) ip = Ok (bitchat_ingress_of p ip)"
    using assms(1) by (auto simp: bitchat_ingress_iff)
  have "encode_bridge_message m ?old = (Ok (length ?b), ?b @ drop (length ?b) ?old)"
    using assms(3) fits by (simp add: encode_bridge_message_cases)
  then have "encode_ingress m s = (Ok ?b, ?t)"
    by (simp add: encode_ingress_def on_field_def smap_err_def sbind_def slice_to_def)
  with ingress have "ingest_bitchat c (bitchat_bytes p) ip params s = emit_bridge_message c (or_route_policy s) BitChatProtocol ?b params ?t"
    by (simp add: ingest_bitchat_def sbind_def slift_def assms(2))
  then show thesis by (rule that) (use assms(4) fits in \<open>simp_all add: wf_scratch_def\<close>)
qed

text \<open>
  C11. From BitChat to LXMF. Let a BitChat text packet stand for a valid bridge message that the
  bridge does not know yet, with a time below \<open>2\<^sup>5\<^sup>1\<close> ms, and let LXMF be among the networks of
  the policy and the dispatch carry parameters for the LXMF adapter. If the packet is taken in with
  success, the first command is the HYF envelope of that message, and among the others is an LXMF
  message that an LXMF bridge takes in with the very text of the packet, from the source hash of this
  bridge, with the same time or one millisecond earlier.\<close>

theorem bitchat_text_reaches_lxmf:
  assumes "nostr_laws c" and "wf_dispatch s" and "wf_egress (dp_egress params)" and "bridgeable_packet p"
    and "m = bitchat_ingress_message (bitchat_ingress_of p ip)" and "bridge_ok m"
    and "\<not> dedupe_contains (or_dedupe s) (message_key m)" and "Some LxmfProtocol \<in> set (egress_protocols (or_route_policy s))"
    and "eg_lxmf (dp_egress params) = Some lp" and "unat (bp_timestamp p) < 2 ^ 51"
    and "ingest_bitchat c (bitchat_bytes p) ip params s = (Ok n, s')"
  shows "(\<exists>envelope raw. hd (ds_commands s') = EmitHyfEnvelope envelope \<and> unwrap_bridge_message envelope = Ok raw \<and> decode_bridge_message raw = Ok m) \<and>
    (\<exists>bytes i t. EmitLxmfMessage bytes \<in> set (take n (ds_commands s')) \<and> lxmf_message_to_bridge_message bytes ingress = Ok i \<and>
       bp_payload p = Plain (bm_payload (lxmf_ingress_message i)) \<and> bm_author (lxmf_ingress_message i) = \<lparr>be_kind = ForeignAuthor Lxmf, be_id = lo_source_hash lp\<rparr> \<and>
       bm_created_at_ms (lxmf_ingress_message i) = TimestampMs t \<and> unat t \<in> {unat (bp_timestamp p) - 1, unat (bp_timestamp p)})"
proof -
  let ?protocols = "selected_protocols (or_route_policy s) BitChatProtocol"
  obtain t where t: "ingest_bitchat c (bitchat_bytes p) ip params s = emit_bridge_message c (or_route_policy s) BitChatProtocol (bridge_bytes m) params t"
    "or_dedupe t = or_dedupe s" "ds_commands t = ds_commands s" "or_route_policy t = or_route_policy s" "wf_scratch (ds_scratch t)"
    using ingest_bitchat_emits [OF assms(4,5,6)] assms(2) by (metis wf_dispatch_def)
  have decodes: "decode_bridge_message (bridge_bytes m) = Ok m" using assms(6) by (auto simp: decode_bridge_message_iff)
  have "wf_dispatch t" using assms(2) t by (simp add: wf_dispatch_def)
  from emit_new_message [OF assms(1) this assms(3) decodes, of "or_route_policy s" BitChatProtocol] assms(7,11) t
  obtain envelope new where n: "n = 1 + length ?protocols" and wrap: "wrap_bridge_message (bridge_bytes m) (dp_wrap params) = Ok envelope"
    and new: "list_all2 (egress_command c (bridge_bytes m) m (dp_egress params)) ?protocols new"
    and commands: "ds_commands s' = EmitHyfEnvelope envelope # new @ drop n (ds_commands s)"
    by (auto simp: dispatch_spec_def Let_def)
  have unwrap: "unwrap_bridge_message envelope = Ok (bridge_bytes m)"
    using wrap_bridge_message_cases [OF decodes, of "dp_wrap params"] wrap by (auto split: if_splits)
  have "LxmfProtocol \<in> set ?protocols" using assms(8) by (simp add: selected_protocols_set)
  with new obtain i where i: "i < length ?protocols" "i < length new" "egress_command c (bridge_bytes m) m (dp_egress params) LxmfProtocol (new ! i)"
    by (metis in_set_conv_nth list_all2_conv_all_nth)
  then have lxmf: "validate_lxmf_egress m = Ok ()" "new ! i = EmitLxmfMessage (lxmf_wire m lp)"
    using assms(9) by (simp_all add: egress_command_def)
  have "new ! i \<in> set (take n (ds_commands s'))"
    using i(1,2) n list_all2_lengthD [OF new] commands by simp
  obtain t' where t': "timestamp_secs_to_ms (f64_div (f64_of_u64 (ms (bm_created_at_ms m))) F64_1000) = Ok (TimestampMs t')"
    "unat t' \<in> {unat (ms (bm_created_at_ms m)) - 1, unat (ms (bm_created_at_ms m))}"
    using timestamp_roundtrip [of "ms (bm_created_at_ms m)"] assms(5,10) by (auto simp: bitchat_ingress_message_def bitchat_ingress_of_def)
  have "wf_lxmf_egress lp" using assms(3,9) by (simp add: wf_egress_def)
  from lxmf_wire_ingress [OF _ this lxmf(1) t'(1), of ingress] assms(6) obtain j where
    "lxmf_message_to_bridge_message (lxmf_wire m lp) ingress = Ok j"
    "lxmf_ingress_message j = m\<lparr>bm_room_id := li_room_id ingress, bm_message_id := li_message_id ingress,
      bm_author := \<lparr>be_kind = ForeignAuthor Lxmf, be_id = lo_source_hash lp\<rparr>, bm_created_at_ms := TimestampMs t'\<rparr>"
    by auto
  moreover have "bp_payload p = Plain (bm_payload m)"
    using assms(4,5) by (cases "bp_payload p") (auto simp: bridgeable_packet_iff bitchat_ingress_message_def bitchat_ingress_of_def)
  moreover have "ms (bm_created_at_ms m) = bp_timestamp p" by (simp add: assms(5) bitchat_ingress_message_def bitchat_ingress_of_def)
  ultimately show ?thesis
    using unwrap decodes commands lxmf(2) t'(2) \<open>new ! i \<in> _\<close> by (auto intro!: exI [of _ "lxmf_wire m lp"] exI [of _ j])
qed

text \<open>An instance: the sample message dispatched to LXMF by a bridge that serves BitChat and LXMF.\<close>

definition sample_policy :: bridge_route_policy where
  "sample_policy = policy_no_echo [Some BitChatProtocol, Some LxmfProtocol, None, Some LxmfProtocol]"

definition sample_dispatch_params :: bridge_runtime_dispatch_params where
  "sample_dispatch_params =
     \<lparr>dp_wrap = \<lparr>bw_source_node = NodeId (replicate 32 1), bw_created_at_ms = TimestampMs 0, bw_expires_at_ms = TimestampMs 2, bw_hop_limit = 3\<rparr>,
      dp_egress = \<lparr>eg_bitchat = None, eg_lxmf = Some sample_lxmf_egress, eg_nostr = None\<rparr>\<rparr>"

definition sample_runtime :: bridge_dispatch where
  "sample_runtime =
     \<lparr>or_dedupe = dedupe_new 2, or_route_policy = sample_policy, ds_scratch = bridge_runtime_scratch_new,
      ds_commands = replicate 4 (EmitBitChatPacket [])\<rparr>"

lemma sample_runtime_ok:
  "wf_dispatch sample_runtime" "wf_egress (dp_egress sample_dispatch_params)" "\<not> dedupe_contains (or_dedupe sample_runtime) k"
  "ds_commands sample_runtime = replicate 4 (EmitBitChatPacket [])" "dd_keys (or_dedupe sample_runtime) = [None, None]"
  "or_route_policy sample_runtime = sample_policy" "eg_lxmf (dp_egress sample_dispatch_params) = Some sample_lxmf_egress"
  using dedupe_new_inv [of 2]
  by (simp_all add: sample_runtime_def wf_dispatch_def wf_scratch_def bridge_runtime_scratch_new_def scratch_new_wf HYF_BRIDGE_MESSAGE_MAX_LEN_def
      BITCHAT_BRIDGE_PACKET_MAX_LEN_def LXMF_BRIDGE_MESSAGE_MAX_LEN_def HYF_NOSTR_BRIDGE_EVENT_JSON_MAX_LEN_def wf_egress_def wf_lxmf_egress_def
      sample_dispatch_params_def sample_lxmf_egress_def dedupe_contains_def dedupe_new_def numeral_2_eq_2
      BITCHAT_CORE_PACKET_MAX_LEN_def LXMF_MESSAGE_MAX_LEN_def)

lemma sample_selected: "selected_protocols sample_policy BitChatProtocol = [LxmfProtocol]"
  by (simp add: selected_protocols_def sample_policy_def policy_no_echo_def)

lemma sample_lxmf_fits: "validate_lxmf_egress sample_bridge_message = Ok ()"
  using sample_bridge_ok validate_lxmf_egress_Ok [of sample_bridge_message] by (simp add: sample_bridge_message_def)

lemma sample_spec_Ok:
  assumes "dispatch_spec c sample_policy BitChatProtocol raw m sample_dispatch_params t r s'"
    and "ds_commands t = ds_commands sample_runtime" and "or_dedupe t = or_dedupe sample_runtime" and "validate_lxmf_egress m = Ok ()"
  shows "r = Ok 2 \<and> ds_commands s' ! 1 = EmitLxmfMessage (lxmf_wire m sample_lxmf_egress)"
  using assms sample_runtime_ok(4,5)
  by (cases r) (auto simp: dispatch_spec_def Let_def sample_selected egress_refuses_def egress_command_def sample_dispatch_params_def list_all2_Cons1)

theorem bridge_dispatch_complete_witness:
  "\<exists>s'. emit_bridge_message null_nostr sample_policy BitChatProtocol sample_raw sample_dispatch_params sample_runtime = (Ok 2, s') \<and>
     ds_commands s' ! 1 = EmitLxmfMessage (lxmf_wire sample_bridge_message sample_lxmf_egress) \<and>
     drop 2 (ds_commands s') = replicate 2 (EmitBitChatPacket [])"
proof -
  obtain r s' where run: "emit_bridge_message null_nostr sample_policy BitChatProtocol sample_raw sample_dispatch_params sample_runtime = (r, s')" by fastforce
  from bridge_dispatch_complete [OF null_nostr_laws sample_runtime_ok(1,2) sample_raw_decodes sample_runtime_ok(3), of sample_policy BitChatProtocol] run
  show ?thesis using sample_runtime_ok(4,5) sample_lxmf_fits
    by (cases r) (clarsimp simp: sample_selected egress_refuses_def egress_command_def sample_dispatch_params_def list_all2_Cons1)+
qed

theorem bridge_loop_prevented_witness:
  "\<exists>s1. emit_bridge_message null_nostr sample_policy BitChatProtocol sample_raw sample_dispatch_params sample_runtime = (Ok 2, s1) \<and>
     hd (ds_commands (snd (emit_bridge_message null_nostr sample_policy NostrProtocol sample_raw sample_dispatch_params
       (ingest_all null_nostr [(InputLxmf [1] sample_lxmf_ingress, sample_dispatch_params, [EmitLxmfMessage []])] s1)))) =
     DropMessage (message_key sample_bridge_message) DuplicateMessage"
proof -
  obtain r s1 where run: "emit_bridge_message null_nostr sample_policy BitChatProtocol sample_raw sample_dispatch_params sample_runtime = (r, s1)"
    "dispatch_spec null_nostr sample_policy BitChatProtocol sample_raw sample_bridge_message sample_dispatch_params sample_runtime r s1"
    using emit_new_message [OF null_nostr_laws sample_runtime_ok(1,2) sample_raw_decodes sample_runtime_ok(3)] by blast
  then have first: "emit_bridge_message null_nostr sample_policy BitChatProtocol sample_raw sample_dispatch_params sample_runtime = (Ok 2, s1)"
    using sample_spec_Ok [OF run(2) refl refl sample_lxmf_fits] by simp
  let ?s2 = "ingest_all null_nostr [(InputLxmf [1] sample_lxmf_ingress, sample_dispatch_params, [EmitLxmfMessage []])] s1"
  have "decode_lxmf_message [1] = Err (LxMessageTooShort 1 LXMF_FIXED_HEADER_LEN)"
    by (simp add: decode_lxmf_message_def LXMF_FIXED_HEADER_LEN_def LXMF_DESTINATION_HASH_LEN_def)
  then have "ds_commands ?s2 = [EmitLxmfMessage []]"
    by (simp add: ingest_lxmf_def sbind_def slift_def lxmf_message_to_bridge_message_def)
  with bridge_loop_prevented [OF null_nostr_laws sample_runtime_ok(1,2) sample_raw_decodes sample_runtime_ok(3) first, of
      "[(InputLxmf [1] sample_lxmf_ingress, sample_dispatch_params, [EmitLxmfMessage []])]" ?s2 sample_raw sample_bridge_message sample_policy
      NostrProtocol sample_dispatch_params] sample_runtime_ok(5) sample_raw_decodes first
  show ?thesis by (intro exI [of _ s1]) simp
qed

definition sample_text_packet :: bitchat_packet where
  "sample_text_packet = bitchat_packet_of sample_bridge_message (bitchat_egress_params_new (replicate 8 9))"

definition sample_text_ids :: bitchat_bridge_ingress_params where
  "sample_text_ids = \<lparr>bi_room_id = CommunityId (replicate 16 4), bi_message_id = MessageId (replicate 32 5)\<rparr>"

definition sample_text_message :: bridge_message where
  "sample_text_message = bitchat_ingress_message (bitchat_ingress_of sample_text_packet sample_text_ids)"

lemma sample_text_ok: "bridgeable_packet sample_text_packet" "bridge_ok sample_text_message" "bm_payload sample_text_message = [104, 105]"
  "validate_lxmf_egress sample_text_message = Ok ()"
proof -
  have "wf_bridge_message sample_bridge_message" using sample_bridge_ok by simp
  then show "bridgeable_packet sample_text_packet"
    unfolding sample_text_packet_def using sample_bridge_ok validate_bitchat_egress_Ok [of sample_bridge_message]
    by (intro bitchat_packet_of_bridgeable) (simp_all add: bitchat_egress_params_new_def sample_bridge_message_def)
  have message: "sample_text_message = \<lparr>bm_version = 0, bm_room_id = CommunityId (replicate 16 4), bm_message_id = MessageId (replicate 32 5),
      bm_author = \<lparr>be_kind = ForeignAuthor BitChat, be_id = replicate 8 9\<rparr>, bm_created_at_ms = TimestampMs 5000,
      bm_payload_kind = TextUtf8, bm_payload = [104, 105]\<rparr>"
    by (simp add: sample_text_message_def sample_text_packet_def sample_text_ids_def bitchat_ingress_message_def bitchat_ingress_of_def bitchat_packet_of_def
        bitchat_egress_params_new_def sample_bridge_message_def HYF_BRIDGE_MESSAGE_VERSION_0_def)
  show ok: "bridge_ok sample_text_message" "bm_payload sample_text_message = [104, 105]"
    by (simp_all add: message wf_bridge_message_def wf_defs validate_bridge_message_Ok bridge_constants replicate_eq_replicate)
  have "bm_payload_kind sample_text_message = TextUtf8"
    by (simp add: sample_text_message_def bitchat_ingress_message_def)
  then show "validate_lxmf_egress sample_text_message = Ok ()"
    using validate_lxmf_egress_Ok [of sample_text_message] ok by simp
qed

theorem bitchat_text_reaches_lxmf_witness:
  "\<exists>s' bytes i. ingest_bitchat null_nostr (bitchat_bytes sample_text_packet) sample_text_ids sample_dispatch_params sample_runtime = (Ok 2, s') \<and>
     EmitLxmfMessage bytes \<in> set (take 2 (ds_commands s')) \<and> lxmf_message_to_bridge_message bytes sample_lxmf_ingress = Ok i \<and>
     bm_payload (lxmf_ingress_message i) = [104, 105]"
proof -
  have scratch: "wf_scratch (ds_scratch sample_runtime)" using sample_runtime_ok(1) by (simp add: wf_dispatch_def)
  obtain t where t: "ingest_bitchat null_nostr (bitchat_bytes sample_text_packet) sample_text_ids sample_dispatch_params sample_runtime =
      emit_bridge_message null_nostr (or_route_policy sample_runtime) BitChatProtocol (bridge_bytes sample_text_message) sample_dispatch_params t"
    "or_dedupe t = or_dedupe sample_runtime" "ds_commands t = ds_commands sample_runtime" "wf_scratch (ds_scratch t)"
    using ingest_bitchat_emits [OF sample_text_ok(1) sample_text_message_def sample_text_ok(2) scratch, of null_nostr sample_dispatch_params] by metis
  have "wf_dispatch t" using t sample_runtime_ok(1) by (simp add: wf_dispatch_def)
  note dispatched = emit_new_message [OF null_nostr_laws this sample_runtime_ok(2)]
  have "decode_bridge_message (bridge_bytes sample_text_message) = Ok sample_text_message"
    using sample_text_ok(2) by (auto simp: decode_bridge_message_iff)
  from dispatched [OF this, of sample_policy BitChatProtocol] sample_runtime_ok(3) t(2) obtain r s' where run: "emit_bridge_message null_nostr sample_policy BitChatProtocol (bridge_bytes sample_text_message) sample_dispatch_params t = (r, s')"
    "dispatch_spec null_nostr sample_policy BitChatProtocol (bridge_bytes sample_text_message) sample_text_message sample_dispatch_params t r s'"
    by auto
  then have first: "ingest_bitchat null_nostr (bitchat_bytes sample_text_packet) sample_text_ids sample_dispatch_params sample_runtime = (Ok 2, s')"
    using sample_spec_Ok [OF run(2) t(3,2) sample_text_ok(4)] t(1) sample_runtime_ok(6) by simp
  have "Some LxmfProtocol \<in> set (egress_protocols (or_route_policy sample_runtime))"
    by (simp add: sample_runtime_ok(6) sample_policy_def policy_no_echo_def)
  moreover have "unat (bp_timestamp sample_text_packet) < 2 ^ 51"
    by (simp add: sample_text_packet_def bitchat_packet_of_def sample_bridge_message_def)
  ultimately have "\<exists>bytes i t. EmitLxmfMessage bytes \<in> set (take 2 (ds_commands s')) \<and> lxmf_message_to_bridge_message bytes sample_lxmf_ingress = Ok i \<and>
      bp_payload sample_text_packet = Plain (bm_payload (lxmf_ingress_message i)) \<and>
      bm_author (lxmf_ingress_message i) = \<lparr>be_kind = ForeignAuthor Lxmf, be_id = lo_source_hash sample_lxmf_egress\<rparr> \<and>
      bm_created_at_ms (lxmf_ingress_message i) = TimestampMs t \<and> unat t \<in> {unat (bp_timestamp sample_text_packet) - 1, unat (bp_timestamp sample_text_packet)}"
    by (rule conjunct2 [OF bitchat_text_reaches_lxmf [OF null_nostr_laws sample_runtime_ok(1,2) sample_text_ok(1) sample_text_message_def
      sample_text_ok(2) sample_runtime_ok(3) _ sample_runtime_ok(7) _ first]])
  then obtain bytes i where "EmitLxmfMessage bytes \<in> set (take 2 (ds_commands s'))" "lxmf_message_to_bridge_message bytes sample_lxmf_ingress = Ok i"
    "bp_payload sample_text_packet = Plain (bm_payload (lxmf_ingress_message i))"
    by blast
  moreover have "bp_payload sample_text_packet = Plain [104, 105]"
    by (simp add: sample_text_packet_def bitchat_packet_of_def sample_bridge_message_def)
  ultimately show ?thesis using first by auto
qed

end
