(* ===== verification/Hyf_Fips.thy ===== *)
theory Hyf_Fips
  imports Hyf_Gateway Hyf_Window
begin

text \<open>
  The FIPS uplink: the crate \<open>hyf_link_fips\<close> with its addresses, datagrams and the fake sidecar
  (\<open>src/crates/hyf_link_fips/src/{error,identity,datagram,fake_sidecar}.rs\<close>), and the
  gateway's executor over a sidecar (\<open>src/crates/hyf_gateway/src/fips.rs\<close>). SHA-256, of a
  third-party crate, is the argument \<open>sha\<close>. A sidecar is a record of the trait's methods over its
  state; the locale \<open>fips_sidecar\<close> is what the executor relies on.
\<close>

section \<open>Errors and addresses (error.rs, identity.rs)\<close>

datatype fips_error =
    FipsLinkDown
  | UnknownPeer
  | DuplicatePeer
  | PeerTableFull usize
  | InvalidEndpoint
  | FipsFrameTooLarge usize usize
  | OutboundFull usize
  | InboundFull usize
  | FipsOutputTooSmall usize usize
  | ControlResponseTooLarge usize usize
  | MalformedControlStatus
  | FipsUtf8

datatype fips_public_key = FipsPublicKey (fips_key_bytes: "u8 list")
datatype fips_node_addr = FipsNodeAddr (fips_addr_bytes: "u8 list")
datatype fips_ipv6_addr = FipsIpv6Addr (fips_ipv6_bytes: "u8 list")

record fips_endpoint =
  fe_public_key :: fips_public_key
  fe_node_addr :: fips_node_addr
  fe_ipv6_addr :: fips_ipv6_addr

definition derive_fips_node_addr :: "(u8 list \<Rightarrow> u8 list) \<Rightarrow> fips_public_key \<Rightarrow> fips_node_addr" where
  "derive_fips_node_addr sha key = FipsNodeAddr (take 16 (sha (fips_key_bytes key)))"

definition derive_fips_ipv6_addr :: "fips_node_addr \<Rightarrow> fips_ipv6_addr" where
  "derive_fips_ipv6_addr node_addr = FipsIpv6Addr (0xfd # take 15 (fips_addr_bytes node_addr))"

definition derive_fips_endpoint :: "(u8 list \<Rightarrow> u8 list) \<Rightarrow> fips_public_key \<Rightarrow> fips_endpoint" where
  "derive_fips_endpoint sha public_key =
     (let node_addr = derive_fips_node_addr sha public_key in
      \<lparr>fe_public_key = public_key, fe_node_addr = node_addr, fe_ipv6_addr = derive_fips_ipv6_addr node_addr\<rparr>)"

definition fips_endpoint_validate :: "(u8 list \<Rightarrow> u8 list) \<Rightarrow> fips_endpoint \<Rightarrow> (unit, fips_error) result" where
  "fips_endpoint_validate sha endpoint =
     (let expected_node_addr = derive_fips_node_addr sha (fe_public_key endpoint);
          expected_ipv6_addr = derive_fips_ipv6_addr expected_node_addr in
      if fe_node_addr endpoint = expected_node_addr \<and> fe_ipv6_addr endpoint = expected_ipv6_addr then Ok ()
      else Err InvalidEndpoint)"

definition fips_endpoint_from_parts ::
  "(u8 list \<Rightarrow> u8 list) \<Rightarrow> fips_public_key \<Rightarrow> fips_node_addr \<Rightarrow> fips_ipv6_addr \<Rightarrow> (fips_endpoint, fips_error) result" where
  "fips_endpoint_from_parts sha public_key node_addr ipv6_addr =
     (let endpoint = \<lparr>fe_public_key = public_key, fe_node_addr = node_addr, fe_ipv6_addr = ipv6_addr\<rparr> in
      rbind (fips_endpoint_validate sha endpoint) (\<lambda>_. Ok endpoint))"

section \<open>Datagrams (datagram.rs)\<close>

record fips_datagram_record =
  fd_source :: fips_endpoint
  fd_destination :: fips_endpoint
  fd_len :: usize
  fd_bytes :: "u8 list"

record fips_datagram_ref =
  fr_source :: fips_endpoint
  fr_destination :: fips_endpoint
  fr_bytes :: "u8 list"

text \<open>\<open>fm\<close> is the const generic \<open>FRAME_MAX\<close>.\<close>

definition fips_datagram_new ::
  "(u8 list \<Rightarrow> u8 list) \<Rightarrow> usize \<Rightarrow> fips_endpoint \<Rightarrow> fips_endpoint \<Rightarrow> u8 list \<Rightarrow> (fips_datagram_record, fips_error) result" where
  "fips_datagram_new sha fm source destination bytes =
     rbind (fips_endpoint_validate sha source) (\<lambda>_.
     rbind (fips_endpoint_validate sha destination) (\<lambda>_.
     if length bytes > fm then Err (FipsFrameTooLarge (length bytes) fm)
     else rbind (copy_at (replicate fm 0) 0 bytes) (\<lambda>stored.
       Ok \<lparr>fd_source = source, fd_destination = destination, fd_len = length bytes, fd_bytes = stored\<rparr>)))"

definition fips_datagram_bytes :: "fips_datagram_record \<Rightarrow> (u8 list, 'e) result" where
  "fips_datagram_bytes record = slice_to (fd_bytes record) (fd_len record)"

section \<open>The sidecar's queues (fake\_sidecar.rs)\<close>

type_synonym fips_queue = "fips_datagram_record option list \<times> usize"

definition fips_enqueue :: "fips_datagram_record \<Rightarrow> (fips_queue, unit, fips_error) stm" where
  "fips_enqueue record = (\<lambda>(queue, len).
     case set_at queue len (Some record) of
       Ok queue \<Rightarrow> (Ok (), (queue, len + 1))
     | Err e \<Rightarrow> (Err e, (queue, len))
     | Panic \<Rightarrow> (Panic, (queue, len)))"

fun fips_shift_loop :: "usize list \<Rightarrow> fips_datagram_record option list \<Rightarrow> (fips_datagram_record option list, fips_error) result" where
  "fips_shift_loop [] queue = Ok queue"
| "fips_shift_loop (index # indices) queue =
     rbind (get_at queue index) (\<lambda>entry.
     rbind (set_at queue (index - 1) entry) (\<lambda>queue.
       fips_shift_loop indices queue))"

definition fips_shift_queue :: "fips_queue \<Rightarrow> (fips_queue, fips_error) result" where
  "fips_shift_queue = (\<lambda>(queue, len).
     if len = 0 then Ok (queue, len)
     else rbind (fips_shift_loop [1..<len] queue) (\<lambda>queue.
       rbind (set_at queue (len - 1) None) (\<lambda>queue.
         Ok (queue, len - 1))))"

text \<open>The outcome, the caller's buffer and the queue.\<close>

definition fips_poll_queue ::
  "u8 list \<Rightarrow> fips_queue \<Rightarrow> (fips_datagram_ref option, fips_error) result \<times> u8 list \<times> fips_queue" where
  "fips_poll_queue output = (\<lambda>(queue, len).
     if len = 0 then (Ok None, output, (queue, len))
     else case get_at queue 0 of
       Panic \<Rightarrow> (Panic, output, (queue, len))
     | Err e \<Rightarrow> (Err e, output, (queue, len))
     | Ok None \<Rightarrow> (Ok None, output, (queue, 0))
     | Ok (Some record) \<Rightarrow>
         if length output < fd_len record
         then (Err (FipsOutputTooSmall (fd_len record) (length output)), output, (queue, len))
         else (case rbind (fips_datagram_bytes record) (\<lambda>bytes.
                 rbind (copy_at output 0 bytes) (\<lambda>output.
                 rbind (fips_shift_queue (queue, len)) (\<lambda>queue.
                 rbind (slice_to output (fd_len record)) (\<lambda>bytes. Ok (output, queue, bytes))))) of
             Ok (output, queue, bytes) \<Rightarrow>
               (Ok (Some \<lparr>fr_source = fd_source record, fr_destination = fd_destination record, fr_bytes = bytes\<rparr>), output, queue)
           | Err e \<Rightarrow> (Err e, output, (queue, len))
           | Panic \<Rightarrow> (Panic, output, (queue, len))))"

section \<open>The sidecar\<close>

record fake_fips_sidecar =
  ff_local_endpoint :: fips_endpoint
  ff_peers :: "fips_endpoint option list"
  ff_outbound :: "fips_datagram_record option list"
  ff_inbound :: "fips_datagram_record option list"
  ff_up :: bool
  ff_mtu :: usize
  ff_outbound_len :: usize
  ff_inbound_len :: usize

definition fake_fips_sidecar_new ::
  "(u8 list \<Rightarrow> u8 list) \<Rightarrow> usize \<Rightarrow> usize \<Rightarrow> usize \<Rightarrow> fips_endpoint \<Rightarrow> usize \<Rightarrow> (fake_fips_sidecar, fips_error) result" where
  "fake_fips_sidecar_new sha peers queue fm local_endpoint mtu =
     rbind (fips_endpoint_validate sha local_endpoint) (\<lambda>_.
     if mtu > fm then Err (FipsFrameTooLarge mtu fm)
     else Ok \<lparr>ff_local_endpoint = local_endpoint, ff_peers = replicate peers None, ff_outbound = replicate queue None,
       ff_inbound = replicate queue None, ff_up = True, ff_mtu = mtu, ff_outbound_len = 0, ff_inbound_len = 0\<rparr>)"

definition fips_set_up :: "bool \<Rightarrow> fake_fips_sidecar \<Rightarrow> fake_fips_sidecar" where
  "fips_set_up up s = s\<lparr>ff_up := up\<rparr>"

definition endpoints_overlap :: "fips_endpoint \<Rightarrow> fips_endpoint \<Rightarrow> bool" where
  "endpoints_overlap left right \<longleftrightarrow>
     fe_public_key left = fe_public_key right \<or> fe_node_addr left = fe_node_addr right \<or> fe_ipv6_addr left = fe_ipv6_addr right"

definition register_peer :: "(u8 list \<Rightarrow> u8 list) \<Rightarrow> fips_endpoint \<Rightarrow> (fake_fips_sidecar, unit, fips_error) stm" where
  "register_peer sha endpoint s =
     (case fips_endpoint_validate sha endpoint of
        Err e \<Rightarrow> (Err e, s)
      | Panic \<Rightarrow> (Panic, s)
      | Ok _ \<Rightarrow>
          if endpoints_overlap (ff_local_endpoint s) endpoint \<or>
             list_ex (\<lambda>registered. endpoints_overlap registered endpoint) (flatten (ff_peers s))
          then (Err DuplicatePeer, s)
          else (case position is_none (ff_peers s) of
              None \<Rightarrow> (Err (PeerTableFull (length (ff_peers s))), s)
            | Some slot \<Rightarrow> (Ok (), s\<lparr>ff_peers := (ff_peers s)[slot := Some endpoint]\<rparr>)))"

definition fips_has_peer :: "fips_endpoint \<Rightarrow> fake_fips_sidecar \<Rightarrow> bool" where
  "fips_has_peer endpoint s \<longleftrightarrow> list_ex (\<lambda>peer. peer = endpoint) (flatten (ff_peers s))"

definition fips_validate_up :: "fake_fips_sidecar \<Rightarrow> (unit, fips_error) result" where
  "fips_validate_up s = (if ff_up s then Ok () else Err FipsLinkDown)"

definition fips_validate_frame_len :: "fake_fips_sidecar \<Rightarrow> u8 list \<Rightarrow> (unit, fips_error) result" where
  "fips_validate_frame_len s bytes =
     (if length bytes > ff_mtu s then Err (FipsFrameTooLarge (length bytes) (ff_mtu s)) else Ok ())"

definition fips_send_to ::
  "(u8 list \<Rightarrow> u8 list) \<Rightarrow> usize \<Rightarrow> fips_endpoint \<Rightarrow> u8 list \<Rightarrow> (fake_fips_sidecar, unit, fips_error) stm" where
  "fips_send_to sha fm destination bytes =
     sbind (\<lambda>s. slift (fips_validate_up s) s) (\<lambda>_ s.
     if \<not> fips_has_peer destination s then (Err UnknownPeer, s)
     else sbind (\<lambda>s. slift (fips_validate_frame_len s bytes) s) (\<lambda>_ s.
       if ff_outbound_len s \<ge> length (ff_outbound s) then (Err (OutboundFull (length (ff_outbound s))), s)
       else sbind (slift (fips_datagram_new sha fm (ff_local_endpoint s) destination bytes)) (\<lambda>record s.
         case fips_enqueue record (ff_outbound s, ff_outbound_len s) of
           (r, (queue, len)) \<Rightarrow> (r, s\<lparr>ff_outbound := queue, ff_outbound_len := len\<rparr>)) s) s)"

definition fips_inject_from ::
  "(u8 list \<Rightarrow> u8 list) \<Rightarrow> usize \<Rightarrow> fips_endpoint \<Rightarrow> u8 list \<Rightarrow> (fake_fips_sidecar, unit, fips_error) stm" where
  "fips_inject_from sha fm source bytes =
     sbind (\<lambda>s. slift (fips_validate_up s) s) (\<lambda>_ s.
     if \<not> fips_has_peer source s then (Err UnknownPeer, s)
     else sbind (\<lambda>s. slift (fips_validate_frame_len s bytes) s) (\<lambda>_ s.
       if ff_inbound_len s \<ge> length (ff_inbound s) then (Err (InboundFull (length (ff_inbound s))), s)
       else sbind (slift (fips_datagram_new sha fm source (ff_local_endpoint s) bytes)) (\<lambda>record s.
         case fips_enqueue record (ff_inbound s, ff_inbound_len s) of
           (r, (queue, len)) \<Rightarrow> (r, s\<lparr>ff_inbound := queue, ff_inbound_len := len\<rparr>)) s) s)"

definition fips_poll_inbound ::
  "u8 list \<Rightarrow> fake_fips_sidecar \<Rightarrow> (fips_datagram_ref option, fips_error) result \<times> u8 list \<times> fake_fips_sidecar" where
  "fips_poll_inbound output s =
     (case fips_poll_queue output (ff_inbound s, ff_inbound_len s) of
        (r, output, (queue, len)) \<Rightarrow> (r, output, s\<lparr>ff_inbound := queue, ff_inbound_len := len\<rparr>))"

definition fips_poll_outbound ::
  "u8 list \<Rightarrow> fake_fips_sidecar \<Rightarrow> (fips_datagram_ref option, fips_error) result \<times> u8 list \<times> fake_fips_sidecar" where
  "fips_poll_outbound output s =
     (case fips_poll_queue output (ff_outbound s, ff_outbound_len s) of
        (r, output, (queue, len)) \<Rightarrow> (r, output, s\<lparr>ff_outbound := queue, ff_outbound_len := len\<rparr>))"

section \<open>The gateway executor (fips.rs of the gateway)\<close>

text \<open>The trait \<open>FipsGatewaySidecarDriver\<close>.\<close>

record 's fips_driver =
  sd_local_endpoint :: "'s \<Rightarrow> fips_endpoint"
  sd_mtu :: "'s \<Rightarrow> usize"
  sd_has_peer :: "fips_endpoint \<Rightarrow> 's \<Rightarrow> bool"
  sd_set_up :: "bool \<Rightarrow> 's \<Rightarrow> 's"
  sd_send_to :: "fips_endpoint \<Rightarrow> u8 list \<Rightarrow> ('s, unit, fips_error) stm"
  sd_poll_inbound :: "u8 list \<Rightarrow> 's \<Rightarrow> (fips_datagram_ref option, fips_error) result \<times> u8 list \<times> 's"

definition fake_fips_driver :: "(u8 list \<Rightarrow> u8 list) \<Rightarrow> usize \<Rightarrow> fake_fips_sidecar fips_driver" where
  "fake_fips_driver sha fm =
     \<lparr>sd_local_endpoint = ff_local_endpoint, sd_mtu = ff_mtu, sd_has_peer = fips_has_peer, sd_set_up = fips_set_up,
      sd_send_to = fips_send_to sha fm, sd_poll_inbound = fips_poll_inbound\<rparr>"

record 's fips_gateway_executor =
  fx_link_id :: link_id
  fx_local_endpoint :: fips_endpoint
  fx_remote_endpoint :: fips_endpoint
  fx_sidecar :: 's
  fx_mtu :: usize
  fx_up :: bool

fun map_fips_send_error :: "link_id \<Rightarrow> fips_error \<Rightarrow> gateway_error" where
  "map_fips_send_error link_id error =
     GwDriver link_id
       (case error of
          FipsLinkDown \<Rightarrow> LinkDown
        | OutboundFull _ \<Rightarrow> Backpressure
        | InboundFull _ \<Rightarrow> Backpressure
        | FipsFrameTooLarge _ _ \<Rightarrow> KindFrameTooLarge
        | FipsOutputTooSmall _ _ \<Rightarrow> OutputTooSmall
        | _ \<Rightarrow> Protocol)"

fun map_fips_receive_error :: "link_id \<Rightarrow> fips_error \<Rightarrow> gateway_error" where
  "map_fips_receive_error link_id error =
     GwDriver link_id
       (case error of
          FipsLinkDown \<Rightarrow> LinkDown
        | OutboundFull _ \<Rightarrow> Backpressure
        | InboundFull _ \<Rightarrow> Backpressure
        | FipsOutputTooSmall _ _ \<Rightarrow> OutputTooSmall
        | _ \<Rightarrow> Protocol)"

definition fips_executor_validate ::
  "(u8 list \<Rightarrow> u8 list) \<Rightarrow> 's fips_driver \<Rightarrow> 's fips_gateway_executor \<Rightarrow> (unit, gateway_error) result" where
  "fips_executor_validate sha d x =
     rbind (map_err (map_fips_send_error (fx_link_id x)) (fips_endpoint_validate sha (fx_local_endpoint x))) (\<lambda>_.
     rbind (map_err (map_fips_send_error (fx_link_id x)) (fips_endpoint_validate sha (fx_remote_endpoint x))) (\<lambda>_.
     if fx_mtu x = 0 \<or> sd_local_endpoint d (fx_sidecar x) \<noteq> fx_local_endpoint x \<or> fx_mtu x > sd_mtu d (fx_sidecar x) \<or>
        \<not> sd_has_peer d (fx_remote_endpoint x) (fx_sidecar x)
     then Err (GwDriver (fx_link_id x) Protocol)
     else Ok ()))"

definition fips_executor_new ::
  "(u8 list \<Rightarrow> u8 list) \<Rightarrow> 's fips_driver \<Rightarrow> link_id \<Rightarrow> fips_endpoint \<Rightarrow> fips_endpoint \<Rightarrow> 's \<Rightarrow> usize \<Rightarrow>
   ('s fips_gateway_executor, gateway_error) result" where
  "fips_executor_new sha d link_id local_endpoint remote_endpoint sidecar mtu =
     (let executor = \<lparr>fx_link_id = link_id, fx_local_endpoint = local_endpoint, fx_remote_endpoint = remote_endpoint,
            fx_sidecar = sidecar, fx_mtu = mtu, fx_up = False\<rparr> in
      rbind (fips_executor_validate sha d executor) (\<lambda>_. Ok executor))"

definition fips_executor_set_up :: "'s fips_driver \<Rightarrow> bool \<Rightarrow> 's fips_gateway_executor \<Rightarrow> 's fips_gateway_executor" where
  "fips_executor_set_up d up x = x\<lparr>fx_up := up, fx_sidecar := sd_set_up d up (fx_sidecar x)\<rparr>"

definition poll_sidecar_frame ::
  "'s fips_driver \<Rightarrow> timestamp_ms \<Rightarrow> u8 list \<Rightarrow> 's fips_gateway_executor \<Rightarrow>
   (link_frame option, gateway_error) result \<times> u8 list \<times> 's fips_gateway_executor" where
  "poll_sidecar_frame d now_ms output x =
     (if \<not> fx_up x then (Err (GwDriver (fx_link_id x) LinkDown), output, x)
      else case sd_poll_inbound d output (fx_sidecar x) of
        (r, output, sidecar) \<Rightarrow>
          (let x = x\<lparr>fx_sidecar := sidecar\<rparr> in
           case map_err (map_fips_receive_error (fx_link_id x)) r of
             Err e \<Rightarrow> (Err e, output, x)
           | Panic \<Rightarrow> (Panic, output, x)
           | Ok None \<Rightarrow> (Ok None, output, x)
           | Ok (Some datagram) \<Rightarrow>
               if fr_source datagram \<noteq> fx_remote_endpoint x \<or> fr_destination datagram \<noteq> fx_local_endpoint x
               then (Err (GwDriver (fx_link_id x) Protocol), output, x)
               else (Ok (Some \<lparr>frame_link_id = fx_link_id x, frame_received_at_ms = now_ms, frame_bytes = fr_bytes datagram\<rparr>), output, x)))"

definition fips_send_link_bytes :: "'s fips_driver \<Rightarrow> 's fips_gateway_executor executor" where
  "fips_send_link_bytes d link_id bytes now_ms x =
     (if link_id \<noteq> fx_link_id x then (Err (UnsupportedLink link_id), x)
      else if \<not> fx_up x then (Err (GwDriver link_id LinkDown), x)
      else if length bytes > fx_mtu x then (Err (GwDriver link_id KindFrameTooLarge), x)
      else case sd_send_to d (fx_remote_endpoint x) bytes (fx_sidecar x) of
        (r, sidecar) \<Rightarrow> (map_err (map_fips_send_error link_id) r, x\<lparr>fx_sidecar := sidecar\<rparr>))"


section \<open>The queue as a FIFO\<close>

definition wf_fips_datagram :: "usize \<Rightarrow> fips_datagram_record \<Rightarrow> bool" where
  "wf_fips_datagram fm d \<longleftrightarrow> fd_len d \<le> fm \<and> length (fd_bytes d) = fm"

text \<open>The datagrams fill the array from the front, as many as the counter says.\<close>

definition fips_queue_ok :: "usize \<Rightarrow> fips_datagram_record option list \<Rightarrow> usize \<Rightarrow> bool" where
  "fips_queue_ok fm queue len \<longleftrightarrow>
     (\<exists>ds m. queue = map Some ds @ replicate m None \<and> len = length ds \<and> (\<forall>d \<in> set ds. wf_fips_datagram fm d))"

definition fips_entry :: "fips_datagram_record \<Rightarrow> fips_endpoint \<times> fips_endpoint \<times> u8 list" where
  "fips_entry d = (fd_source d, fd_destination d, take (fd_len d) (fd_bytes d))"

definition fips_entries :: "fips_datagram_record option list \<Rightarrow> (fips_endpoint \<times> fips_endpoint \<times> u8 list) list" where
  "fips_entries queue = map fips_entry (flatten queue)"

lemma fips_queue_empty: "fips_queue_ok fm (replicate n None) 0" "fips_entries (replicate n None) = []"
  by (auto simp: fips_queue_ok_def fips_entries_def)

lemma fips_enqueue_run:
  assumes "fips_queue_ok fm queue len" and "len < length queue" and "wf_fips_datagram fm d"
  shows "\<exists>queue'. fips_enqueue d (queue, len) = (Ok (), (queue', len + 1)) \<and> fips_queue_ok fm queue' (len + 1) \<and>
    length queue' = length queue \<and> fips_entries queue' = fips_entries queue @ [fips_entry d]"
proof -
  obtain ds m where q: "queue = map Some ds @ replicate m None" "len = length ds" "\<forall>d \<in> set ds. wf_fips_datagram fm d"
    using assms(1) by (auto simp: fips_queue_ok_def)
  then obtain k where m: "m = Suc k" using assms(2) by (cases m) auto
  then have put: "queue[len := Some d] = map Some (ds @ [d]) @ replicate k None"
    using q by (simp add: list_update_append)
  have "fips_queue_ok fm (queue[len := Some d]) (len + 1)"
    unfolding fips_queue_ok_def put using q assms(3) by (intro exI [of _ "ds @ [d]"] exI [of _ k]) auto
  moreover have "fips_entries (queue[len := Some d]) = fips_entries queue @ [fips_entry d]"
    unfolding put by (simp add: fips_entries_def q(1))
  ultimately show ?thesis using assms(2) by (simp add: fips_enqueue_def set_at_def)
qed

lemma fips_shift_loop_fold:
  "\<forall>i \<in> set is. i < length queue \<Longrightarrow>
   fips_shift_loop is queue = Ok (fold (\<lambda>index queue. queue[index - 1 := queue ! index]) is queue)"
  by (induction "is" arbitrary: queue) (auto simp: get_at_def set_at_def)

lemma fips_shift_queue_run:
  assumes "fips_queue_ok fm queue (Suc len)"
  shows "\<exists>queue'. fips_shift_queue (queue, Suc len) = Ok (queue', len) \<and> fips_queue_ok fm queue' len \<and>
    length queue' = length queue \<and> fips_entries queue' = tl (fips_entries queue)"
proof -
  obtain d ds m where q: "queue = Some d # map Some ds @ replicate m None" "len = length ds" "\<forall>d \<in> set ds. wf_fips_datagram fm d"
    using assms by (auto simp: fips_queue_ok_def Suc_length_conv)
  have "fips_shift_loop [1..<Suc len] queue = Ok (take len (tl queue) @ drop len queue)"
    using shift_fold [of len queue] q by (subst fips_shift_loop_fold) auto
  also have "take len (tl queue) @ drop len queue = map Some ds @ drop len queue" by (simp add: q)
  finally have loop: "fips_shift_loop [1..<Suc len] queue = Ok (map Some ds @ drop len queue)" .
  have "(map Some ds @ drop len queue)[len := None] = map Some ds @ replicate (Suc m) None"
    using q by (cases ds rule: rev_cases) (simp_all add: list_update_append)
  then have "fips_shift_queue (queue, Suc len) = Ok (map Some ds @ replicate (Suc m) None, len)"
    using loop q by (simp add: fips_shift_queue_def set_at_def del: upt_Suc replicate_Suc)
  moreover have "fips_queue_ok fm (map Some ds @ replicate (Suc m) None) len"
    unfolding fips_queue_ok_def using q by blast
  ultimately show ?thesis by (simp add: q fips_entries_def)
qed

lemma fips_poll_queue_empty: "fips_queue_ok fm queue len \<Longrightarrow> fips_entries queue = [] \<Longrightarrow>
    fips_poll_queue output (queue, len) = (Ok None, output, (queue, len))"
proof -
  assume "fips_queue_ok fm queue len" and "fips_entries queue = []"
  then obtain ds m where "queue = map Some ds @ replicate m None" "len = length ds" "map fips_entry (flatten queue) = []"
    by (auto simp: fips_queue_ok_def fips_entries_def simp del: flatten_eq_Nil)
  then have "len = 0" by simp
  then show ?thesis by (simp add: fips_poll_queue_def)
qed

lemma fips_poll_queue_first:
  assumes "fips_queue_ok fm queue len" and "fips_entries queue = (source, destination, bytes) # entries"
  shows "if length output < length bytes
    then \<exists>e. fips_poll_queue output (queue, len) = (Err e, output, (queue, len))
    else \<exists>queue' len'. fips_poll_queue output (queue, len) =
        (Ok (Some \<lparr>fr_source = source, fr_destination = destination, fr_bytes = bytes\<rparr>), bytes @ drop (length bytes) output, (queue', len')) \<and>
      fips_queue_ok fm queue' len' \<and> length queue' = length queue \<and> fips_entries queue' = entries"
proof -
  obtain ds' m where q: "queue = map Some ds' @ replicate m None" "len = length ds'" "\<forall>d \<in> set ds'. wf_fips_datagram fm d"
    using assms(1) by (auto simp: fips_queue_ok_def)
  then obtain d ds where ds: "ds' = d # ds" using assms(2) by (cases ds') (auto simp: fips_entries_def)
  have d: "fd_source d = source" "fd_destination d = destination" "take (fd_len d) (fd_bytes d) = bytes" "fd_len d = length bytes"
    "fd_len d \<le> length (fd_bytes d)"
    using assms(2) q ds by (auto simp: fips_entries_def fips_entry_def wf_fips_datagram_def)
  have first: "get_at queue 0 = Ok (Some d)" "len = Suc (length ds)" by (simp_all add: q ds get_at_def)
  show ?thesis
  proof (cases "length output < length bytes")
    case True
    then show ?thesis by (simp add: fips_poll_queue_def first d(4))
  next
    case False
    obtain queue' where "fips_shift_queue (queue, len) = Ok (queue', length ds)" "fips_queue_ok fm queue' (length ds)"
      "length queue' = length queue" "fips_entries queue' = tl (fips_entries queue)"
      using fips_shift_queue_run [of fm queue "length ds"] assms(1) first(2) by auto
    then show ?thesis
      using False d assms(2) by (simp add: fips_poll_queue_def first fips_datagram_bytes_def slice_to_def copy_at_def)
  qed
qed

section \<open>The sidecar's invariant\<close>

definition fips_endpoint_ok :: "(u8 list \<Rightarrow> u8 list) \<Rightarrow> fips_endpoint \<Rightarrow> bool" where
  "fips_endpoint_ok sha e \<longleftrightarrow> e = derive_fips_endpoint sha (fe_public_key e)"

lemma fips_endpoint_validate_eq: "fips_endpoint_validate sha e = (if fips_endpoint_ok sha e then Ok () else Err InvalidEndpoint)"
  by (cases e) (simp add: fips_endpoint_validate_def fips_endpoint_ok_def derive_fips_endpoint_def Let_def)

text \<open>
  The local endpoint and the peers are derived from their keys and differ in key, node address and
  IPv6 address; both queues have their shape and nothing is longer than the MTU allows.
\<close>

definition fips_sidecar_ok :: "(u8 list \<Rightarrow> u8 list) \<Rightarrow> usize \<Rightarrow> fake_fips_sidecar \<Rightarrow> bool" where
  "fips_sidecar_ok sha fm s \<longleftrightarrow> ff_mtu s \<le> fm \<and>
     fips_queue_ok fm (ff_outbound s) (ff_outbound_len s) \<and> fips_queue_ok fm (ff_inbound s) (ff_inbound_len s) \<and>
     list_all (fips_endpoint_ok sha) (ff_local_endpoint s # flatten (ff_peers s)) \<and>
     sorted_wrt (\<lambda>a b. \<not> endpoints_overlap a b) (ff_local_endpoint s # flatten (ff_peers s)) \<and>
     (\<exists>ps m. ff_peers s = map Some ps @ replicate m None)"

definition fips_outgoing :: "fake_fips_sidecar \<Rightarrow> (fips_endpoint \<times> fips_endpoint \<times> u8 list) list" where
  "fips_outgoing s = fips_entries (ff_outbound s)"

definition fips_incoming :: "fake_fips_sidecar \<Rightarrow> (fips_endpoint \<times> fips_endpoint \<times> u8 list) list" where
  "fips_incoming s = fips_entries (ff_inbound s)"

lemma fips_sidecar_new_ok: "fake_fips_sidecar_new sha p n fm local mtu = Ok s \<Longrightarrow>
    fips_sidecar_ok sha fm s \<and> fips_outgoing s = [] \<and> fips_incoming s = [] \<and> ff_local_endpoint s = local \<and> ff_mtu s = mtu"
  by (auto simp: fake_fips_sidecar_new_def fips_sidecar_ok_def fips_outgoing_def fips_incoming_def fips_queue_empty
      fips_endpoint_validate_eq split: if_splits intro: exI [of _ "[]"])

lemma register_peer_ok:
  assumes "fips_sidecar_ok sha fm s"
  obtains (registered) "register_peer sha e s = (Ok (), s\<lparr>ff_peers := (ff_peers s)[length (flatten (ff_peers s)) := Some e]\<rparr>)"
      "fips_sidecar_ok sha fm (s\<lparr>ff_peers := (ff_peers s)[length (flatten (ff_peers s)) := Some e]\<rparr>)"
      "flatten ((ff_peers s)[length (flatten (ff_peers s)) := Some e]) = flatten (ff_peers s) @ [e]"
    | (refused) err where "register_peer sha e s = (Err err, s)"
proof (cases "fips_endpoint_ok sha e \<and> \<not> (endpoints_overlap (ff_local_endpoint s) e \<or>
    list_ex (\<lambda>registered. endpoints_overlap registered e) (flatten (ff_peers s)))")
  case True
  obtain ps m where ps: "ff_peers s = map Some ps @ replicate m None" using assms by (auto simp: fips_sidecar_ok_def)
  show thesis
  proof (cases m)
    case 0
    then have "position is_none (ff_peers s) = None" by (auto simp: ps)
    with True refused show thesis by (simp add: register_peer_def fips_endpoint_validate_eq)
  next
    case (Suc k)
    then have pos: "position is_none (ff_peers s) = Some (length ps)"
      using position_first_None [of ps "replicate k None"] by (simp add: ps)
    have put: "(ff_peers s)[length ps := Some e] = map Some (ps @ [e]) @ replicate k None"
      by (simp add: ps Suc list_update_append)
    have flat: "flatten (map Some (ps @ [e]) @ replicate k None) = ps @ [e]" "flatten (ff_peers s) = ps"
      using flatten_map_Some [of "ps @ [e]"] by (simp_all add: ps)
    have "fips_sidecar_ok sha fm (s\<lparr>ff_peers := (ff_peers s)[length ps := Some e]\<rparr>)"
      using assms True unfolding fips_sidecar_ok_def put
      by (auto simp: flat sorted_wrt_append list_ex_iff simp del: flatten_append map_append intro!: exI [of _ "ps @ [e]"] exI [of _ k])
    moreover have "register_peer sha e s = (Ok (), s\<lparr>ff_peers := (ff_peers s)[length ps := Some e]\<rparr>)"
      using True pos by (simp add: register_peer_def fips_endpoint_validate_eq)
    ultimately show thesis using registered flat put by simp
  qed
next
  case False
  then have "\<exists>err. register_peer sha e s = (Err err, s)" by (auto simp: register_peer_def fips_endpoint_validate_eq)
  with refused show thesis by blast
qed

section \<open>What the executor relies on\<close>

text \<open>
  A sidecar that sends appends one datagram from its own address and otherwise changes nothing; a
  poll takes the oldest incoming datagram, or keeps it when the buffer is too short.
\<close>

locale fips_sidecar =
  fixes sd_inv :: "'s \<Rightarrow> bool"
    and outgoing incoming :: "'s \<Rightarrow> (fips_endpoint \<times> fips_endpoint \<times> u8 list) list"
    and driver :: "'s fips_driver"
  assumes send_Ok: "sd_inv s \<Longrightarrow> sd_send_to driver dest bs s = (Ok (), s') \<Longrightarrow>
      sd_inv s' \<and> outgoing s' = outgoing s @ [(sd_local_endpoint driver s, dest, bs)] \<and>
      incoming s' = incoming s \<and> sd_local_endpoint driver s' = sd_local_endpoint driver s"
    and send_Err: "sd_inv s \<Longrightarrow> sd_send_to driver dest bs s = (Err e, s') \<Longrightarrow> s' = s"
    and send_no_panic: "sd_inv s \<Longrightarrow> fst (sd_send_to driver dest bs s) \<noteq> Panic"
    and poll_empty: "sd_inv s \<Longrightarrow> incoming s = [] \<Longrightarrow> sd_poll_inbound driver out s = (Ok None, out, s)"
    and poll_first: "sd_inv s \<Longrightarrow> incoming s = (src, dst, bs) # ws \<Longrightarrow> length bs \<le> length out \<Longrightarrow>
      \<exists>s'. sd_poll_inbound driver out s =
          (Ok (Some \<lparr>fr_source = src, fr_destination = dst, fr_bytes = bs\<rparr>), bs @ drop (length bs) out, s') \<and>
        sd_inv s' \<and> incoming s' = ws \<and> outgoing s' = outgoing s \<and> sd_local_endpoint driver s' = sd_local_endpoint driver s"
    and poll_short: "sd_inv s \<Longrightarrow> incoming s = (src, dst, bs) # ws \<Longrightarrow> length out < length bs \<Longrightarrow>
      \<exists>e. sd_poll_inbound driver out s = (Err e, out, s)"

text \<open>The executor over such a sidecar: its address is the sidecar's.\<close>

definition fips_executor_ok :: "('s \<Rightarrow> bool) \<Rightarrow> 's fips_driver \<Rightarrow> 's fips_gateway_executor \<Rightarrow> bool" where
  "fips_executor_ok sd_inv d x \<longleftrightarrow> sd_inv (fx_sidecar x) \<and> sd_local_endpoint d (fx_sidecar x) = fx_local_endpoint x"

lemma fips_executor_new_ok:
  assumes "fips_executor_new sha d l a b sidecar mtu = Ok x" and "sd_inv sidecar"
  shows "fips_executor_ok sd_inv d x" and "fx_link_id x = l" and "\<not> fx_up x" and "0 < fx_mtu x" and "fx_mtu x \<le> sd_mtu d sidecar"
    and "sd_has_peer d (fx_remote_endpoint x) sidecar" and "fips_endpoint_ok sha a" and "fips_endpoint_ok sha b"
  using assms by (auto simp: fips_executor_new_def fips_executor_validate_def fips_executor_ok_def fips_endpoint_validate_eq Let_def split: if_splits)

text \<open>What is on its way to the remote end of the link.\<close>

definition fips_link_out ::
  "('s \<Rightarrow> (fips_endpoint \<times> fips_endpoint \<times> u8 list) list) \<Rightarrow> link_id \<Rightarrow> 's fips_gateway_executor \<Rightarrow> u8 list list" where
  "fips_link_out outgoing l x =
     (if l = fx_link_id x
      then map (snd \<circ> snd) (filter (\<lambda>(source, destination, bytes). source = fx_local_endpoint x \<and> destination = fx_remote_endpoint x)
        (outgoing (fx_sidecar x)))
      else [])"

context fips_sidecar
begin

lemma executor_send:
  assumes "fips_executor_ok sd_inv driver x" and "fips_send_link_bytes driver l bs t x = (r, x')"
  shows "case r of
      Ok u \<Rightarrow> fips_executor_ok sd_inv driver x' \<and> l = fx_link_id x \<and>
        outgoing (fx_sidecar x') = outgoing (fx_sidecar x) @ [(fx_local_endpoint x, fx_remote_endpoint x, bs)] \<and>
        fx_link_id x' = fx_link_id x \<and> fx_local_endpoint x' = fx_local_endpoint x \<and> fx_remote_endpoint x' = fx_remote_endpoint x
    | Err e \<Rightarrow> x' = x
    | Panic \<Rightarrow> False"
proof (cases "l = fx_link_id x \<and> fx_up x \<and> length bs \<le> fx_mtu x")
  case False
  with assms(2) show ?thesis by (auto simp: fips_send_link_bytes_def split: if_splits)
next
  case True
  obtain q s' where send: "sd_send_to driver (fx_remote_endpoint x) bs (fx_sidecar x) = (q, s')" by fastforce
  have inv: "sd_inv (fx_sidecar x)" using assms(1) by (simp add: fips_executor_ok_def)
  have x': "r = map_err (map_fips_send_error l) q" "x' = x\<lparr>fx_sidecar := s'\<rparr>"
    using assms(2) True send by (simp_all add: fips_send_link_bytes_def)
  show ?thesis
  proof (cases q)
    case (Ok u)
    with send_Ok [OF inv, of "fx_remote_endpoint x" bs s'] send assms(1) x' True show ?thesis
      by (simp add: fips_executor_ok_def)
  next
    case (Err e)
    with send_Err [OF inv send [unfolded Err]] x' show ?thesis by simp
  qed (use send_no_panic [OF inv, of "fx_remote_endpoint x" bs] send in simp)
qed

text \<open>A received datagram becomes a frame exactly when it goes from the peer to this end; any other is consumed and refused.\<close>

lemma executor_poll:
  assumes "fips_executor_ok sd_inv driver x" and "fx_up x"
    and "incoming (fx_sidecar x) = (source, destination, bs) # ws" and "length bs \<le> length out"
  shows "\<exists>x'. poll_sidecar_frame driver t out x =
      (if source = fx_remote_endpoint x \<and> destination = fx_local_endpoint x
       then Ok (Some \<lparr>frame_link_id = fx_link_id x, frame_received_at_ms = t, frame_bytes = bs\<rparr>)
       else Err (GwDriver (fx_link_id x) Protocol), bs @ drop (length bs) out, x') \<and>
    fips_executor_ok sd_inv driver x' \<and> incoming (fx_sidecar x') = ws \<and> outgoing (fx_sidecar x') = outgoing (fx_sidecar x)"
proof -
  have inv: "sd_inv (fx_sidecar x)" using assms(1) by (simp add: fips_executor_ok_def)
  from poll_first [OF this assms(3,4)] assms(1,2) show ?thesis
    by (auto simp: poll_sidecar_frame_def fips_executor_ok_def Let_def)
qed

lemma executor_poll_empty:
  assumes "fips_executor_ok sd_inv driver x" and "fx_up x" and "incoming (fx_sidecar x) = []"
  shows "poll_sidecar_frame driver t out x = (Ok None, out, x)"
  using assms poll_empty [of "fx_sidecar x" out] by (simp add: poll_sidecar_frame_def fips_executor_ok_def)

lemma executor_poll_no_panic:
  assumes "fips_executor_ok sd_inv driver x"
  shows "fst (poll_sidecar_frame driver t out x) \<noteq> Panic"
proof (cases "fx_up x")
  case True
  have inv: "sd_inv (fx_sidecar x)" using assms by (simp add: fips_executor_ok_def)
  show ?thesis
  proof (cases "incoming (fx_sidecar x)")
    case Nil
    with executor_poll_empty [OF assms True] show ?thesis by simp
  next
    case (Cons w ws)
    obtain source destination bs where w: "w = (source, destination, bs)" by (cases w)
    show ?thesis
    proof (cases "length bs \<le> length out")
      case fits: True
      from executor_poll [OF assms True Cons [unfolded w] fits, of t] show ?thesis by (auto split: if_splits)
    next
      case False
      with poll_short [OF inv Cons [unfolded w], of out] True show ?thesis by (auto simp: poll_sidecar_frame_def Let_def)
    qed
  qed
qed (simp add: poll_sidecar_frame_def)

end

sublocale fips_sidecar \<subseteq> exec: link_executor "fips_executor_ok sd_inv driver" "\<lambda>t bs. bs" "fips_link_out outgoing" "fips_send_link_bytes driver"
proof unfold_locales
  fix x x' l bs t
  assume x: "fips_executor_ok sd_inv driver x" and run: "fips_send_link_bytes driver l bs t x = (Ok (), x')"
  from executor_send [OF this] show "fips_executor_ok sd_inv driver x' \<and>
      fips_link_out outgoing l x' = fips_link_out outgoing l x @ [bs] \<and>
      (\<forall>k. k \<noteq> l \<longrightarrow> fips_link_out outgoing k x' = fips_link_out outgoing k x)"
    by (simp add: fips_link_out_def)
next
  fix x x' l bs t err
  assume "fips_executor_ok sd_inv driver x" and "fips_send_link_bytes driver l bs t x = (Err err, x')"
  from executor_send [OF this] \<open>fips_executor_ok sd_inv driver x\<close>
  show "fips_executor_ok sd_inv driver x' \<and> (\<forall>k. fips_link_out outgoing k x' = fips_link_out outgoing k x)" by simp
next
  fix x l bs t
  assume x: "fips_executor_ok sd_inv driver x"
  obtain r x' where "fips_send_link_bytes driver l bs t x = (r, x')" by fastforce
  with executor_send [OF x this] show "fst (fips_send_link_bytes driver l bs t x) \<noteq> Panic" by (cases r) auto
qed

section \<open>The fake sidecar keeps the contract\<close>

lemma fips_datagram_new_eq:
  assumes "fips_endpoint_ok sha a" and "fips_endpoint_ok sha b" and "length bs \<le> fm"
  shows "fips_datagram_new sha fm a b bs =
    Ok \<lparr>fd_source = a, fd_destination = b, fd_len = length bs, fd_bytes = bs @ replicate (fm - length bs) 0\<rparr>"
  using assms by (simp add: fips_datagram_new_def fips_endpoint_validate_eq copy_at_def)

lemma fips_has_peer_ok: "fips_sidecar_ok sha fm s \<Longrightarrow> fips_has_peer e s \<Longrightarrow> fips_endpoint_ok sha e"
  by (auto simp: fips_sidecar_ok_def fips_has_peer_def list_all_iff list_ex_iff)

lemma fips_send_to_cases:
  assumes "fips_sidecar_ok sha fm s"
  shows "if \<not> ff_up s then fips_send_to sha fm e bs s = (Err FipsLinkDown, s)
    else if \<not> fips_has_peer e s then fips_send_to sha fm e bs s = (Err UnknownPeer, s)
    else if length bs > ff_mtu s then fips_send_to sha fm e bs s = (Err (FipsFrameTooLarge (length bs) (ff_mtu s)), s)
    else if length (ff_outbound s) \<le> ff_outbound_len s then fips_send_to sha fm e bs s = (Err (OutboundFull (length (ff_outbound s))), s)
    else \<exists>queue. fips_send_to sha fm e bs s = (Ok (), s\<lparr>ff_outbound := queue, ff_outbound_len := ff_outbound_len s + 1\<rparr>) \<and>
      fips_queue_ok fm queue (ff_outbound_len s + 1) \<and> length queue = length (ff_outbound s) \<and>
      fips_entries queue = fips_outgoing s @ [(ff_local_endpoint s, e, bs)]"
proof -
  note step = fips_send_to_def sbind_def slift_def fips_validate_up_def fips_validate_frame_len_def
  show ?thesis
  proof (cases "ff_up s \<and> fips_has_peer e s \<and> length bs \<le> ff_mtu s \<and> ff_outbound_len s < length (ff_outbound s)")
    case True
    let ?d = "\<lparr>fd_source = ff_local_endpoint s, fd_destination = e, fd_len = length bs, fd_bytes = bs @ replicate (fm - length bs) 0\<rparr>"
    have fm: "length bs \<le> fm" "wf_fips_datagram fm ?d" using True assms by (auto simp: fips_sidecar_ok_def wf_fips_datagram_def)
    have "fips_endpoint_ok sha (ff_local_endpoint s)" using assms by (simp add: fips_sidecar_ok_def)
    note new = fips_datagram_new_eq [OF this fips_has_peer_ok [OF assms, of e] fm(1)]
    obtain queue where "fips_enqueue ?d (ff_outbound s, ff_outbound_len s) = (Ok (), (queue, ff_outbound_len s + 1))"
      "fips_queue_ok fm queue (ff_outbound_len s + 1)" "length queue = length (ff_outbound s)"
      "fips_entries queue = fips_entries (ff_outbound s) @ [fips_entry ?d]"
      using fips_enqueue_run [OF _ _ fm(2), of "ff_outbound s" "ff_outbound_len s"] assms True by (auto simp: fips_sidecar_ok_def)
    then show ?thesis using True new by (auto simp: step fips_outgoing_def fips_entry_def intro!: exI [of _ queue])
  qed (auto simp: step)
qed

lemma fips_send_to_Ok:
  assumes "fips_sidecar_ok sha fm s" and "fips_send_to sha fm e bs s = (Ok (), s')"
  shows "\<exists>queue. s' = s\<lparr>ff_outbound := queue, ff_outbound_len := ff_outbound_len s + 1\<rparr> \<and>
      fips_queue_ok fm queue (ff_outbound_len s + 1) \<and> fips_entries queue = fips_outgoing s @ [(ff_local_endpoint s, e, bs)]"
  using fips_send_to_cases [OF assms(1), of e bs] assms(2) by (auto split: if_splits)

lemma fips_sidecar_ok_queues:
  assumes "fips_sidecar_ok sha fm s" and "fips_queue_ok fm queue len"
  shows "fips_sidecar_ok sha fm (s\<lparr>ff_inbound := queue, ff_inbound_len := len\<rparr>)"
    and "fips_sidecar_ok sha fm (s\<lparr>ff_outbound := queue, ff_outbound_len := len\<rparr>)"
  using assms by (simp_all add: fips_sidecar_ok_def)

lemma fips_poll_inbound_first:
  assumes "fips_sidecar_ok sha fm s" and "fips_incoming s = (a, b, bs) # ws"
  shows "if length out < length bs then \<exists>e. fips_poll_inbound out s = (Err e, out, s)
    else \<exists>s'. fips_poll_inbound out s = (Ok (Some \<lparr>fr_source = a, fr_destination = b, fr_bytes = bs\<rparr>), bs @ drop (length bs) out, s') \<and>
      fips_sidecar_ok sha fm s' \<and> fips_incoming s' = ws \<and> fips_outgoing s' = fips_outgoing s \<and> ff_local_endpoint s' = ff_local_endpoint s"
proof -
  have "fips_queue_ok fm (ff_inbound s) (ff_inbound_len s)" using assms(1) by (simp add: fips_sidecar_ok_def)
  from fips_poll_queue_first [OF this assms(2) [unfolded fips_incoming_def], of out] fips_sidecar_ok_queues(1) [OF assms(1)] show ?thesis
    by (auto simp: fips_poll_inbound_def fips_incoming_def fips_outgoing_def split: if_splits)
qed

interpretation fake_fips: fips_sidecar "fips_sidecar_ok sha fm" fips_outgoing fips_incoming "fake_fips_driver sha fm" for sha fm
proof unfold_locales
  fix s s' dest bs
  assume s: "fips_sidecar_ok sha fm s" and "sd_send_to (fake_fips_driver sha fm) dest bs s = (Ok (), s')"
  then have "fips_send_to sha fm dest bs s = (Ok (), s')" by (simp add: fake_fips_driver_def)
  from fips_send_to_Ok [OF s this] obtain queue where "s' = s\<lparr>ff_outbound := queue, ff_outbound_len := ff_outbound_len s + 1\<rparr>"
    "fips_queue_ok fm queue (ff_outbound_len s + 1)" "fips_entries queue = fips_outgoing s @ [(ff_local_endpoint s, dest, bs)]"
    by blast
  with fips_sidecar_ok_queues(2) [OF s]
  show "fips_sidecar_ok sha fm s' \<and>
      fips_outgoing s' = fips_outgoing s @ [(sd_local_endpoint (fake_fips_driver sha fm) s, dest, bs)] \<and>
      fips_incoming s' = fips_incoming s \<and>
      sd_local_endpoint (fake_fips_driver sha fm) s' = sd_local_endpoint (fake_fips_driver sha fm) s"
    by (simp add: fake_fips_driver_def fips_outgoing_def fips_incoming_def)
next
  fix s s' dest bs e
  assume "fips_sidecar_ok sha fm s" and "sd_send_to (fake_fips_driver sha fm) dest bs s = (Err e, s')"
  with fips_send_to_cases [of sha fm s dest bs] show "s' = s" by (auto simp: fake_fips_driver_def split: if_splits)
next
  fix s dest bs
  assume "fips_sidecar_ok sha fm s"
  with fips_send_to_cases [of sha fm s dest bs] show "fst (sd_send_to (fake_fips_driver sha fm) dest bs s) \<noteq> Panic"
    by (auto simp: fake_fips_driver_def split: if_splits)
next
  fix s and out :: "u8 list"
  assume "fips_sidecar_ok sha fm s" and "fips_incoming s = []"
  with fips_poll_queue_empty [of fm "ff_inbound s" "ff_inbound_len s" out]
  show "sd_poll_inbound (fake_fips_driver sha fm) out s = (Ok None, out, s)"
    by (simp add: fake_fips_driver_def fips_poll_inbound_def fips_sidecar_ok_def fips_incoming_def)
next
  fix s src dst bs ws and out :: "u8 list"
  assume "fips_sidecar_ok sha fm s" and "fips_incoming s = (src, dst, bs) # ws" and "length bs \<le> length out"
  with fips_poll_inbound_first [of sha fm s src dst bs ws out]
  show "\<exists>s'. sd_poll_inbound (fake_fips_driver sha fm) out s =
        (Ok (Some \<lparr>fr_source = src, fr_destination = dst, fr_bytes = bs\<rparr>), bs @ drop (length bs) out, s') \<and>
      fips_sidecar_ok sha fm s' \<and> fips_incoming s' = ws \<and> fips_outgoing s' = fips_outgoing s \<and>
      sd_local_endpoint (fake_fips_driver sha fm) s' = sd_local_endpoint (fake_fips_driver sha fm) s"
    by (simp add: fake_fips_driver_def)
next
  fix s src dst bs ws and out :: "u8 list"
  assume "fips_sidecar_ok sha fm s" and "fips_incoming s = (src, dst, bs) # ws" and "length out < length bs"
  with fips_poll_inbound_first [of sha fm s src dst bs ws out]
  show "\<exists>e. sd_poll_inbound (fake_fips_driver sha fm) out s = (Err e, out, s)" by (simp add: fake_fips_driver_def)
qed

text \<open>A datagram that a registered peer sends is queued behind the ones already waiting.\<close>

lemma fips_inject_from_ok:
  assumes "fips_sidecar_ok sha fm s" and "ff_up s" and "fips_has_peer e s" and "length bs \<le> ff_mtu s"
    and "ff_inbound_len s < length (ff_inbound s)"
  shows "\<exists>s'. fips_inject_from sha fm e bs s = (Ok (), s') \<and> fips_sidecar_ok sha fm s' \<and>
    fips_incoming s' = fips_incoming s @ [(e, ff_local_endpoint s, bs)] \<and> fips_outgoing s' = fips_outgoing s"
proof -
  let ?d = "\<lparr>fd_source = e, fd_destination = ff_local_endpoint s, fd_len = length bs, fd_bytes = bs @ replicate (fm - length bs) 0\<rparr>"
  have fm: "length bs \<le> fm" "wf_fips_datagram fm ?d" using assms by (auto simp: fips_sidecar_ok_def wf_fips_datagram_def)
  have "fips_endpoint_ok sha (ff_local_endpoint s)" using assms by (simp add: fips_sidecar_ok_def)
  note new = fips_datagram_new_eq [OF fips_has_peer_ok [OF assms(1,3)] this fm(1)]
  have queue: "fips_queue_ok fm (ff_inbound s) (ff_inbound_len s)" using assms(1) by (simp add: fips_sidecar_ok_def)
  obtain queue where "fips_enqueue ?d (ff_inbound s, ff_inbound_len s) = (Ok (), (queue, ff_inbound_len s + 1))"
    "fips_queue_ok fm queue (ff_inbound_len s + 1)" "fips_entries queue = fips_entries (ff_inbound s) @ [fips_entry ?d]"
    using fips_enqueue_run [OF queue assms(5) fm(2)] by auto
  then show ?thesis using assms(2-5) new fips_sidecar_ok_queues(1) [OF assms(1)]
    by (simp add: fips_inject_from_def sbind_def slift_def fips_validate_up_def fips_validate_frame_len_def
        fips_incoming_def fips_outgoing_def fips_entry_def)
qed

end
