(* ===== verification/Spec2Isabelle.thy ===== *)
theory Spec2Isabelle
  imports Hyf_Runtime Hyf_RNode_Serial Hyf_Bridge Hyf_BitChat Hyf_LXMF Hyf_Bridge_Runtime Hyf_Fips
begin

text \<open>
  HYF is a workspace of Rust crates for a mesh of heterogeneous links: a native envelope format, a
  pure routing state machine with a store and a gateway around it, links that carry the envelopes
  (an in-memory loopback, an RNode radio modem on a serial port, a FIPS sidecar), codecs for the protocols of other
  networks (Reticulum, LXMF, BitChat, Nostr) and a bridge that takes messages across. This library
  models these crates as they are written and proves what makes them correct.

  \<^bold>\<open>How the program hangs together.\<close> An application submits an envelope, or a link delivers a frame,
  to the gateway core. The core turns it into a router event; the router decodes and checks it,
  remembers its key against duplicates and answers with commands: deliver locally, send on a link,
  put into the store, drop. The core executes the commands through a link executor, sorts the
  outcomes of sends (sent, try later, gone), and keeps what it could not forward in the store, which
  it flushes when a link comes up and on every tick. The bridge runtime stands beside it: it takes a
  packet from one foreign network, makes it a neutral bridge message, suppresses duplicates, wraps
  it into a HYF envelope and offers it to the adapters of the other networks.

  \<^bold>\<open>Theories and source.\<close> All sources are under \<open>src/crates\<close>. Each theory models the files its own
  opening text names; constants, types and functions keep the names of the source up to a prefix
  where two crates share a name.

  \<^item> \<open>Hyf_Prelude\<close>: Rust outcomes (\<open>Ok\<close>, \<open>Err\<close>, \<open>Panic\<close>), state passing with early return, slices,
    option arrays, machine integers; the theorem collections and generic lemmas.
  \<^item> \<open>Hyf_Cursor\<close>: the read and write cursors of the codec crates, the locales \<open>slice_reader\<close> and
    \<open>wire_codec\<close> and the sequencing rules all codec proofs use.
  \<^item> \<open>Hyf_Window\<close>: the ring of remembered keys, locale \<open>dedupe_window\<close>, shared by the router's seen
    cache and the bridge's duplicate set.
  \<^item> \<open>Hyf_Core\<close>, \<open>Hyf_Wire\<close>, \<open>Hyf_Link\<close>, \<open>Hyf_Store\<close>, \<open>Hyf_Router\<close>, \<open>Hyf_Config\<close>,
    \<open>Hyf_Loopback\<close>: the crates of these names.
  \<^item> \<open>Hyf_Gateway\<close>, \<open>Hyf_Runtime\<close>: \<open>hyf_gateway/src/{error,metrics,core}.rs\<close> and
    \<open>runtime.rs\<close>; \<open>Hyf_Fips\<close>: \<open>hyf_link_fips\<close> and the executor over it in
    \<open>hyf_gateway/src/fips.rs\<close>.
  \<^item> \<open>Hyf_Kiss\<close>, \<open>Hyf_RNode\<close>, \<open>Hyf_RNode_Serial\<close>: \<open>hyf_link_kiss\<close>, \<open>hyf_link_rnode\<close> and
    \<open>hyf_link_rnode_serial\<close>.
  \<^item> \<open>Hyf_RNS_Crypto\<close>: \<open>hyf_rns_core\<close> and \<open>hyf_rns_crypto\<close>; \<open>Hyf_RNS_Wire\<close>:
    \<open>hyf_rns_wire\<close> and \<open>hyf_link_rns\<close>.
  \<^item> \<open>Hyf_LXMF\<close>: \<open>hyf_lxmf_core\<close> and \<open>hyf_link_lxmf\<close>; \<open>Hyf_BitChat\<close>: \<open>hyf_bitchat_core\<close> and
    \<open>hyf_link_bitchat\<close>; \<open>Hyf_Nostr\<close>: the event layer of \<open>hyf_link_nostr\<close>.
  \<^item> \<open>Hyf_Bridge\<close>: \<open>hyf_bridge_core\<close>; \<open>Hyf_Bridge_BitChat\<close>, \<open>Hyf_Bridge_LXMF\<close> (over the doubles
    of \<open>Hyf_Float\<close>) and \<open>Hyf_Bridge_Nostr\<close>: the adapters; \<open>Hyf_Bridge_Runtime\<close>:
    \<open>hyf_bridge_runtime\<close>.

  \<^bold>\<open>State and operations.\<close> A struct is a record with the source's fields, an enum a datatype with its
  variants. A \<open>&mut self\<close> method is a function from the state to an outcome and the new state; a
  caller's buffer it writes is part of that state, so what a failing call leaves behind is part of
  every statement. \<open>Panic\<close> is an outcome: an index out of range, a failed slice or a checked
  subtraction below zero is that value, and every property of a component says that it does not
  occur, or when it does. Const generics are list lengths in the well-formedness predicates
  (\<open>store_inv\<close>, \<open>router_inv\<close>, \<open>driver_inv\<close>, \<open>gateway_inv\<close>, \<open>runtime_inv\<close>, \<open>dedupe_inv\<close>). Words have
  their widths, with wrap-around, saturation and checks as the source has them; \<open>usize\<close> is a
  natural number whose checked operations are written out against \<open>2\<^sup>6\<^sup>4 - 1\<close>.

  \<^bold>\<open>What is shown.\<close>

  \<^item> Codecs (envelope, bridge message, RNS packet and announce, LXMF, BitChat, Nostr event, KISS):
    what is encoded decodes to the same value, what decodes is the encoding of its result, the
    buffer behind the written bytes is untouched, no input makes a decoder panic.
  \<^item> Store and router: the store refines a finite map from message ids to frames, and hands out
    frames in a fixed order; the router keeps its invariant under every event, its handlers agree
    with declarative decisions, a forwarded frame has lost one hop and does not go back where it
    came from, and a message is not handled again while fewer than the cache's size came after it.
  \<^item> Gateway and runtime: the invariant holds over every history, a flush loses no message that was
    not sent, a tick empties the store of what can be sent, and a message submitted while its link
    is down is delivered once the link is up.
  \<^item> Serial link: sending writes exactly the frames, the polling loops return on every port with
    finite input, a frame sent by one link is received by the other, and a malformed command frame
    wedges the link.
  \<^item> FIPS uplink: the sidecar's queues are FIFOs of authentic addresses, its executor obeys the
    contract the gateway relies on, and only datagrams from the configured peer become frames.
  \<^item> Reticulum: announces, tokens and access codes are accepted exactly when the signature or tag
    verifies over the bytes the sender signed; single packets decrypt to what was encrypted, and
    only under a ratchet when one is required.
  \<^item> Bridge: each adapter returns the message it was given up to what its network can carry, events
    from Nostr are verified before anything else of them is used, a dispatch is all or nothing,
    never echoes, and a message that returns is dropped as a duplicate.

  \<^bold>\<open>Interfaces.\<close> The locales are \<open>slice_reader\<close>, \<open>wire_codec\<close>, \<open>dedupe_window\<close>, \<open>link_driver\<close>,
  \<open>message_store\<close>, \<open>link_executor\<close>, \<open>fips_sidecar\<close> (which gives \<open>link_executor\<close>), \<open>serial_port\<close> and \<open>canonical_sink\<close>; each is interpreted on the
  model's own definitions in the theory of the component that provides it.

  \<^bold>\<open>Bounds and termination.\<close> Loops over data are structural recursion; the MessagePack walker
  recurses at most 16 levels deep and terminates by a measure on depth and input. The two serial
  loops that may run for ever on an endless port are partial functions to \<open>option\<close>, and
  \<open>serial_poll_returns\<close> shows that they give \<open>Some\<close> on every port that obeys \<open>serial_port\<close>. No
  definition uses fuel. Doubles are modelled by their bits with exact arithmetic on naturals and
  one rounding per operation; the millisecond bound of the LXMF bridge is \<open>2\<^sup>5\<^sup>1\<close>.

  \<^bold>\<open>Parameters.\<close> Code of third-party crates is an argument of the definitions that call it: the
  record \<open>crypto\<close> (SHA-256, HKDF, HMAC, AES-CBC, Ed25519, X25519) with the laws \<open>cipher_laws\<close>,
  \<open>hmac_laws\<close>, \<open>hkdf_laws\<close>, \<open>dh_laws\<close>, \<open>signature_laws\<close> and \<open>hash_laws\<close>, the record
  \<open>nostr_crypto\<close> (SHA-256, BIP-340) with \<open>nostr_laws\<close>, a source of random bytes, and the serial port.
  The laws state lengths and that decryption and verification undo encryption and signing; no
  secrecy or unforgeability is assumed or claimed. Each property with such a hypothesis has an
  instance over concrete functions.

  \<^bold>\<open>Findings.\<close>

  \<^item> One malformed command frame stops the serial link for good (\<open>drain_pending_command\<close> returns
    before it clears its buffer).
  \<^item> The LXMF bridge truncates the time it carries as a double of seconds: 1001 ms come back as
    1000 ms.
  \<^item> The Nostr bridge publishes messages of other Nostr authors under its own key, which every
    receiver refuses.
  \<^item> \<open>LoopbackEndpoint::<0>::receive_into\<close> panics; \<open>encode_command_frame\<close> does not escape the command
    byte; a frame that ends in a dangling escape is delivered without it.

  \<^bold>\<open>Not modelled.\<close> Debug and Display formatting; \<open>SerialPortIo\<close>, which binds an operating-system
  port; the hardware-in-the-loop reports of \<open>hyf_link_rnode/src/hil.rs\<close>; the relay messages in JSON,
  stored events and the fake relay of \<open>hyf_link_nostr\<close>, and the executor over them in
  \<open>hyf_gateway/src/nostr.rs\<close> (the gateway is verified for every executor that obeys
  \<open>link_executor\<close>); the JSON control status of \<open>hyf_link_fips/src/control.rs\<close>; \<open>hyf_crypto\<close>, a wrapper over a third-party hash; the fixtures and reports of
  \<open>hyf_rns_conformance\<close>.
\<close>

end
